(* ===== verification/Go_Prelude.thy ===== *)
theory Go_Prelude
  imports Main "HOL-Library.Finite_Map" "HOL-Library.Char_ord" "HOL-Library.List_Lexorder"
begin

text \<open>
  The shared vocabulary of the development: Go's 64-bit integers with their wrap-around, Go's
  maps as finite maps with a zero value for a missing key, error values, and the list and
  finite-map lemmas the component theories use.
  Go strings and byte slices are both \<^typ>\<open>string\<close>: a list of bytes, ordered as Go
  orders strings, by the bytes.
\<close>

named_theorems go_simps \<open>executable definitions of the standard library that proofs unfold\<close>
named_theorems inv_rules \<open>introduction rules that preserve a component's invariant\<close>

section \<open>Integers\<close>

text \<open>\<open>int64\<close> arithmetic is two's complement: \<open>wrap64\<close> is the value Go keeps.\<close>

definition maxInt64 :: int where
  "maxInt64 = 9223372036854775807"

definition minInt64 :: int where
  "minInt64 = -9223372036854775808"

definition wrap64 :: "int \<Rightarrow> int" where
  "wrap64 x = (x + 9223372036854775808) mod 18446744073709551616 - 9223372036854775808"

lemma wrap64_id [simp]: "minInt64 \<le> x \<Longrightarrow> x \<le> maxInt64 \<Longrightarrow> wrap64 x = x"
  by (simp add: wrap64_def minInt64_def maxInt64_def)

lemma wrap64_range: "minInt64 \<le> wrap64 x \<and> wrap64 x \<le> maxInt64"
proof -
  have "0 \<le> (x + 9223372036854775808) mod 18446744073709551616"
    and "(x + 9223372036854775808) mod 18446744073709551616 < 18446744073709551616"
    by simp_all
  then show ?thesis
    unfolding wrap64_def minInt64_def maxInt64_def by linarith
qed

lemma wrap64_overflow: "wrap64 (maxInt64 + 1) = minInt64"
  by (simp add: wrap64_def minInt64_def maxInt64_def)

section \<open>Finite maps\<close>

text \<open>Reading a Go map at a missing key gives the element type's zero value.\<close>

definition fmget :: "'v \<Rightarrow> ('k, 'v) fmap \<Rightarrow> 'k \<Rightarrow> 'v" where
  "fmget z m k = (case fmlookup m k of None \<Rightarrow> z | Some v \<Rightarrow> v)"

text \<open>\<open>len(m)\<close>.\<close>

definition fmsize :: "('k, 'v) fmap \<Rightarrow> nat" where
  "fmsize m = fcard (fmdom m)"

lemma fmget_empty [simp]: "fmget z fmempty k = z"
  by (simp add: fmget_def)

lemma fmget_upd [simp]: "fmget z (fmupd k v m) k' = (if k = k' then v else fmget z m k')"
  by (simp add: fmget_def)

lemma fmget_drop [simp]: "fmget z (fmdrop k m) k' = (if k = k' then z else fmget z m k')"
  by (simp add: fmget_def)

lemma fmget_Some: "fmlookup m k = Some v \<Longrightarrow> fmget z m k = v"
  by (simp add: fmget_def)

lemma fmget_None: "fmlookup m k = None \<Longrightarrow> fmget z m k = z"
  by (simp add: fmget_def)

lemma fmsize_empty [simp]: "fmsize fmempty = 0"
  by (simp add: fmsize_def)

lemma fmsize_upd:
  "fmsize (fmupd k v m) = (if fmlookup m k = None then Suc (fmsize m) else fmsize m)"
proof (cases "fmlookup m k")
  case None
  then have "k |\<notin>| fmdom m" by (rule fmdom_notI)
  with None show ?thesis by (simp add: fmsize_def fcard_finsert_disjoint)
next
  case (Some x)
  then have "k |\<in>| fmdom m" by (rule fmdomI)
  with Some show ?thesis by (simp add: fmsize_def finsert_absorb)
qed

lemma fmsize_drop:
  "fmlookup m k = Some v \<Longrightarrow> fmsize (fmdrop k m) = fmsize m - 1"
  by (simp add: fmsize_def fmdomI)

lemma fmsize_pos: "fmlookup m k = Some v \<Longrightarrow> 0 < fmsize m"
  by (metis card_gt_0_iff empty_iff fcard.rep_eq finite_fset fmdomI fmsize_def)

lemma fmsize_set: "distinct ks \<Longrightarrow> set ks = fmdom' m \<Longrightarrow> fmsize m = length ks"
  by (metis distinct_card fcard.rep_eq fmdom'_alt_def fmsize_def)

lemma sorted_fset [simp]: "sorted (sorted_list_of_fset A)" "distinct (sorted_list_of_fset A)"
  by (simp_all add: sorted_list_of_fset.rep_eq)

section \<open>Strings\<close>

text \<open>\<open>strings.HasPrefix\<close>, \<open>strings.TrimPrefix\<close> and \<open>strings.HasSuffix\<close>.\<close>

definition HasPrefix :: "string \<Rightarrow> string \<Rightarrow> bool" where
  "HasPrefix s p \<longleftrightarrow> take (length p) s = p"

definition TrimPrefix :: "string \<Rightarrow> string \<Rightarrow> string" where
  "TrimPrefix s p = (if HasPrefix s p then drop (length p) s else s)"

definition HasSuffix :: "string \<Rightarrow> string \<Rightarrow> bool" where
  "HasSuffix s p \<longleftrightarrow> length p \<le> length s \<and> drop (length s - length p) s = p"

lemma HasPrefix_append [simp]: "HasPrefix (p @ s) p"
  by (simp add: HasPrefix_def)

lemma TrimPrefix_append [simp]: "TrimPrefix (p @ s) p = s"
  by (simp add: TrimPrefix_def)

lemma HasSuffix_append [simp]: "HasSuffix (s @ p) p"
  by (simp add: HasSuffix_def)

lemma HasPrefix_E: "HasPrefix s p \<Longrightarrow> \<exists>t. s = p @ t"
  by (metis HasPrefix_def append_take_drop_id)

end
