(* ===== verification/Go_Heap.thy ===== *)
theory Go_Heap
  imports Go_Prelude
begin

text \<open>
  The array heap of Go's \<open>container/heap\<close>, over elements that record their own position,
  as the replay state's two heaps do: \<open>arr\<close> is the slice and \<open>pos\<close> the index
  field of each element. The heap is ordered by a key function, \<open>Less i j\<close> being
  \<open>key (arr ! i) < key (arr ! j)\<close>.
\<close>

record 'a heap =
  arr :: "'a list"
  pos :: "'a \<Rightarrow> nat"

definition heap_empty :: "'a heap" where
  "heap_empty = \<lparr>arr = [], pos = (\<lambda>_. 0)\<rparr>"

section \<open>The operations\<close>

definition heap_Swap :: "nat \<Rightarrow> nat \<Rightarrow> 'a heap \<Rightarrow> 'a heap" where
  "heap_Swap i j h =
     (let a = arr h ! i; b = arr h ! j
      in h\<lparr>arr := (arr h)[i := b, j := a], pos := (pos h)(b := i, a := j)\<rparr>)"

text \<open>\<open>heap_PushLast\<close> and \<open>heap_PopLast\<close> are the \<open>Push\<close> and
  \<open>Pop\<close> methods of the element type, which work at the end of the slice.\<close>

definition heap_PushLast :: "'a \<Rightarrow> 'a heap \<Rightarrow> 'a heap" where
  "heap_PushLast x h = h\<lparr>arr := arr h @ [x], pos := (pos h)(x := length (arr h))\<rparr>"

definition heap_PopLast :: "'a heap \<Rightarrow> 'a heap" where
  "heap_PopLast h = h\<lparr>arr := butlast (arr h)\<rparr>"

definition heap_parent :: "nat \<Rightarrow> nat" where
  "heap_parent c = (c - 1) div 2"

lemma heap_parent_less: "0 < c \<Longrightarrow> heap_parent c < c"
  by (simp add: heap_parent_def)

lemma heap_parent_le: "heap_parent c \<le> c"
  by (simp add: heap_parent_def)

lemma heap_parent_iff: "0 < c \<Longrightarrow> heap_parent c = i \<longleftrightarrow> c = 2 * i + 1 \<or> c = 2 * i + 2"
  by (simp add: heap_parent_def) arith

function heap_up :: "('a \<Rightarrow> int) \<Rightarrow> 'a heap \<Rightarrow> nat \<Rightarrow> 'a heap" where
  "heap_up key h j =
     (let i = heap_parent j
      in if i = j \<or> \<not> key (arr h ! j) < key (arr h ! i) then h
         else heap_up key (heap_Swap i j h) i)"
  by pat_completeness auto
termination
  by (relation "measure (\<lambda>(key, h, j). j)")
    (auto simp: le_neq_implies_less heap_parent_le)

text \<open>\<open>heap_down\<close> returns whether it moved the element, as \<open>down\<close> does.\<close>

definition heap_child :: "('a \<Rightarrow> int) \<Rightarrow> 'a heap \<Rightarrow> nat \<Rightarrow> nat \<Rightarrow> nat" where
  "heap_child key h i n =
     (if 2 * i + 2 < n \<and> key (arr h ! (2 * i + 2)) < key (arr h ! (2 * i + 1))
      then 2 * i + 2 else 2 * i + 1)"

lemma heap_child_gt: "i < heap_child key h i n"
  by (simp add: heap_child_def)

lemma heap_child_less: "2 * i + 1 < n \<Longrightarrow> heap_child key h i n < n"
  by (simp add: heap_child_def)

function heap_sink :: "('a \<Rightarrow> int) \<Rightarrow> 'a heap \<Rightarrow> nat \<Rightarrow> nat \<Rightarrow> 'a heap \<times> nat" where
  "heap_sink key h i n =
     (if n \<le> 2 * i + 1 then (h, i)
      else let j = heap_child key h i n
           in if \<not> key (arr h ! j) < key (arr h ! i) then (h, i)
              else heap_sink key (heap_Swap i j h) j n)"
  by pat_completeness auto
termination
  by (relation "measure (\<lambda>(key, h, i, n). n - i)")
    (auto simp: heap_child_def split: if_splits)

definition heap_down :: "('a \<Rightarrow> int) \<Rightarrow> 'a heap \<Rightarrow> nat \<Rightarrow> nat \<Rightarrow> 'a heap \<times> bool" where
  "heap_down key h i0 n = (case heap_sink key h i0 n of (h', i) \<Rightarrow> (h', i0 < i))"

definition heap_Push :: "('a \<Rightarrow> int) \<Rightarrow> 'a \<Rightarrow> 'a heap \<Rightarrow> 'a heap" where
  "heap_Push key x h =
     (let h' = heap_PushLast x h in heap_up key h' (length (arr h') - 1))"

definition heap_Remove :: "('a \<Rightarrow> int) \<Rightarrow> nat \<Rightarrow> 'a heap \<Rightarrow> 'a heap" where
  "heap_Remove key i h =
     (let n = length (arr h) - 1
      in heap_PopLast
           (if n \<noteq> i
            then let h1 = heap_Swap i n h
                 in case heap_down key h1 i n of
                      (h2, moved) \<Rightarrow> if moved then h2 else heap_up key h2 i
            else h))"

fun heap_InitFrom :: "('a \<Rightarrow> int) \<Rightarrow> nat \<Rightarrow> 'a heap \<Rightarrow> 'a heap" where
  "heap_InitFrom key 0 h = h"
| "heap_InitFrom key (Suc i) h =
     heap_InitFrom key i (fst (heap_down key h i (length (arr h))))"

definition heap_Init :: "('a \<Rightarrow> int) \<Rightarrow> 'a heap \<Rightarrow> 'a heap" where
  "heap_Init key h = heap_InitFrom key (length (arr h) div 2) h"

declare heap_up.simps [simp del] heap_sink.simps [simp del]

section \<open>Positions\<close>

text \<open>Every element's index field is its position in the slice.\<close>

definition heap_wf :: "'a heap \<Rightarrow> bool" where
  "heap_wf h \<longleftrightarrow> distinct (arr h) \<and> (\<forall>i < length (arr h). pos h (arr h ! i) = i)"

lemma heap_Swap_length [simp]: "length (arr (heap_Swap i j h)) = length (arr h)"
  by (simp add: heap_Swap_def Let_def)

lemma heap_Swap_nth:
  "i < length (arr h) \<Longrightarrow> j < length (arr h) \<Longrightarrow> k < length (arr h) \<Longrightarrow>
   arr (heap_Swap i j h) ! k =
     (if k = j then arr h ! i else if k = i then arr h ! j else arr h ! k)"
  by (simp add: heap_Swap_def Let_def nth_list_update)

lemma heap_Swap_set:
  "i < length (arr h) \<Longrightarrow> j < length (arr h) \<Longrightarrow> set (arr (heap_Swap i j h)) = set (arr h)"
  by (simp add: heap_Swap_def Let_def)

lemma heap_Swap_distinct:
  "i < length (arr h) \<Longrightarrow> j < length (arr h) \<Longrightarrow> distinct (arr (heap_Swap i j h)) = distinct (arr h)"
  by (simp add: heap_Swap_def Let_def)

lemma heap_Swap_wf:
  assumes "heap_wf h" and "i < length (arr h)" and "j < length (arr h)"
  shows "heap_wf (heap_Swap i j h)"
proof -
  from assms have d: "distinct (arr (heap_Swap i j h))"
    by (simp add: heap_Swap_distinct heap_wf_def)
  have "pos (heap_Swap i j h) (arr (heap_Swap i j h) ! k) = k" if k: "k < length (arr h)" for k
    using assms k by (auto simp: heap_Swap_nth heap_wf_def)
      (auto simp: heap_Swap_def Let_def nth_eq_iff_index_eq)
  with d show ?thesis by (simp add: heap_wf_def)
qed


section \<open>The heap order\<close>

definition heap_le :: "('a \<Rightarrow> int) \<Rightarrow> 'a heap \<Rightarrow> nat \<Rightarrow> bool" where
  "heap_le key h c \<longleftrightarrow> key (arr h ! heap_parent c) \<le> key (arr h ! c)"

text \<open>The order among the first \<open>n\<close> elements, for the parents from \<open>m\<close> on.\<close>

definition heap_from :: "('a \<Rightarrow> int) \<Rightarrow> 'a heap \<Rightarrow> nat \<Rightarrow> nat \<Rightarrow> bool" where
  "heap_from key h m n \<longleftrightarrow> (\<forall>c. 0 < c \<and> c < n \<and> m \<le> heap_parent c \<longrightarrow> heap_le key h c)"

definition heap_ordered :: "('a \<Rightarrow> int) \<Rightarrow> 'a heap \<Rightarrow> nat \<Rightarrow> bool" where
  "heap_ordered key h n \<longleftrightarrow> (\<forall>c. 0 < c \<and> c < n \<longrightarrow> heap_le key h c)"

lemma heap_from_0: "heap_from key h 0 n = heap_ordered key h n"
  by (simp add: heap_from_def heap_ordered_def)

text \<open>What \<open>up\<close> repairs: every element but the one at \<open>j\<close> is in order with its
  parent, and the children of \<open>j\<close> are in order with the parent of \<open>j\<close>.\<close>

definition up_inv :: "('a \<Rightarrow> int) \<Rightarrow> 'a heap \<Rightarrow> nat \<Rightarrow> nat \<Rightarrow> bool" where
  "up_inv key h n j \<longleftrightarrow> j < n \<and> n \<le> length (arr h)
     \<and> (\<forall>c. 0 < c \<and> c < n \<and> c \<noteq> j \<longrightarrow> heap_le key h c)
     \<and> (\<forall>c. 0 < j \<and> 0 < c \<and> c < n \<and> heap_parent c = j \<longrightarrow> key (arr h ! heap_parent j) \<le> key (arr h ! c))"

lemma up_inv_step:
  assumes inv: "up_inv key h n j" and j: "0 < j"
    and less: "key (arr h ! j) < key (arr h ! heap_parent j)"
  shows "up_inv key (heap_Swap (heap_parent j) j h) n (heap_parent j)"
proof -
  define i where "i = heap_parent j"
  have ij: "i < j" using j by (simp add: i_def heap_parent_less)
  from inv have jn: "j < n" and nl: "n \<le> length (arr h)" by (auto simp: up_inv_def)
  have nth: "arr (heap_Swap i j h) ! k =
      (if k = j then arr h ! i else if k = i then arr h ! j else arr h ! k)" if "k < n" for k
    using that ij jn nl by (intro heap_Swap_nth) auto
  have ord: "heap_le key h c" if "0 < c" "c < n" "c \<noteq> j" for c
    using inv that by (auto simp: up_inv_def)
  have gp: "key (arr h ! i) \<le> key (arr h ! c)" if "0 < c" "c < n" "heap_parent c = j" for c
    using inv that j by (auto simp: up_inv_def i_def)
  have lt: "key (arr h ! j) < key (arr h ! i)" using less by (simp add: i_def)
  have le: "heap_le key (heap_Swap i j h) c" if c: "0 < c" "c < n" "c \<noteq> i" for c
  proof -
    have pc: "heap_parent c < n" using c heap_parent_less [of c] by simp
    consider "c = j" | "c \<noteq> j" "heap_parent c = j" | "c \<noteq> j" "heap_parent c = i"
      | "c \<noteq> j" "heap_parent c \<noteq> j" "heap_parent c \<noteq> i"
      by blast
    then show ?thesis
    proof cases
      case 1
      then show ?thesis using lt ij jn by (simp add: heap_le_def nth i_def [symmetric])
    next
      case 2
      then show ?thesis using gp [of c] c jn by (simp add: heap_le_def nth)
    next
      case 3
      then show ?thesis using ord [of c] lt c ij jn by (simp add: heap_le_def nth)
    next
      case 4
      then show ?thesis using ord [of c] c pc by (simp add: heap_le_def nth)
    qed
  qed
  have gp': "key (arr (heap_Swap i j h) ! heap_parent i) \<le> key (arr (heap_Swap i j h) ! c)"
    if c: "0 < i" "0 < c" "c < n" "heap_parent c = i" for c
  proof -
    have pi: "heap_parent i < i" using c heap_parent_less by blast
    have oi: "key (arr h ! heap_parent i) \<le> key (arr h ! i)"
      using ord [of i] c ij jn by (simp add: heap_le_def)
    show ?thesis
    proof (cases "c = j")
      case True
      then show ?thesis using oi pi ij jn c by (simp add: nth)
    next
      case False
      then have "key (arr h ! i) \<le> key (arr h ! c)"
        using ord [of c] c by (simp add: heap_le_def)
      then show ?thesis using oi False pi ij jn c heap_parent_less [of c] by (simp add: nth)
    qed
  qed
  show ?thesis
    using ij jn nl le gp' unfolding up_inv_def i_def [symmetric] by auto
qed

lemma heap_up_preserves:
  assumes "j < length (arr h)"
  shows "length (arr (heap_up key h j)) = length (arr h)
    \<and> set (arr (heap_up key h j)) = set (arr h)
    \<and> (\<forall>k < length (arr h). j < k \<longrightarrow> arr (heap_up key h j) ! k = arr h ! k)
    \<and> (heap_wf h \<longrightarrow> heap_wf (heap_up key h j))"
  using assms
proof (induction key h j rule: heap_up.induct)
  case (1 key h j)
  define i where "i = heap_parent j"
  show ?case
  proof (cases "i = j \<or> \<not> key (arr h ! j) < key (arr h ! i)")
    case True
    then show ?thesis by (simp add: heap_up.simps [of key h j] i_def)
  next
    case False
    have "i < length (arr h)" "i \<le> j" using "1.prems" heap_parent_le [of j] by (simp_all add: i_def)
    with False "1.IH" [OF i_def] "1.prems" show ?thesis
      by (simp add: heap_up.simps [of key h j] i_def [symmetric] heap_Swap_set heap_Swap_wf heap_Swap_nth)
  qed
qed

lemma heap_up_ordered: "up_inv key h n j \<Longrightarrow> heap_ordered key (heap_up key h j) n"
proof (induction key h j rule: heap_up.induct)
  case (1 key h j)
  define i where "i = heap_parent j"
  show ?case
  proof (cases "i = j \<or> \<not> key (arr h ! j) < key (arr h ! i)")
    case True
    have "heap_le key h c" if "0 < c" "c < n" for c
    proof (cases "c = j")
      case True': True
      with that have "i \<noteq> j" using heap_parent_less [of j] by (simp add: i_def)
      with True True' show ?thesis by (simp add: heap_le_def i_def)
    next
      case False
      with that "1.prems" show ?thesis by (auto simp: up_inv_def)
    qed
    with True show ?thesis by (simp add: heap_up.simps [of key h j] i_def heap_ordered_def)
  next
    case False
    then have j: "0 < j" by (cases j) (auto simp: i_def heap_parent_def)
    from False have "up_inv key (heap_Swap i j h) n i"
      unfolding i_def by (intro up_inv_step "1.prems" j) auto
    with False "1.IH" [OF i_def] show ?thesis
      by (simp add: heap_up.simps [of key h j] i_def [symmetric])
  qed
qed


text \<open>What \<open>down\<close> repairs below \<open>i\<close>: every element that is neither \<open>i\<close> nor a
  child of \<open>i\<close> is in order with its parent, and the children of \<open>i\<close> are in order
  with the parent of \<open>i\<close>. Nothing is known of the element at \<open>i\<close> itself.\<close>

definition down_inv :: "('a \<Rightarrow> int) \<Rightarrow> 'a heap \<Rightarrow> nat \<Rightarrow> nat \<Rightarrow> nat \<Rightarrow> bool" where
  "down_inv key h m n i \<longleftrightarrow> m \<le> i \<and> i < n \<and> n \<le> length (arr h)
     \<and> (\<forall>c. 0 < c \<and> c < n \<and> m \<le> heap_parent c \<and> c \<noteq> i \<and> heap_parent c \<noteq> i \<longrightarrow> heap_le key h c)
     \<and> (\<forall>c. 0 < i \<and> m \<le> heap_parent i \<and> 0 < c \<and> c < n \<and> heap_parent c = i
          \<longrightarrow> key (arr h ! heap_parent i) \<le> key (arr h ! c))"

definition below_ok :: "('a \<Rightarrow> int) \<Rightarrow> 'a heap \<Rightarrow> nat \<Rightarrow> nat \<Rightarrow> bool" where
  "below_ok key h n i \<longleftrightarrow> (\<forall>c. 0 < c \<and> c < n \<and> heap_parent c = i \<longrightarrow> heap_le key h c)"

lemma heap_child_parent: "heap_parent (heap_child key h i n) = i"
  by (simp add: heap_child_def heap_parent_def)

lemma heap_child_min:
  "0 < c \<Longrightarrow> c < n \<Longrightarrow> heap_parent c = i \<Longrightarrow> key (arr h ! heap_child key h i n) \<le> key (arr h ! c)"
  by (auto simp: heap_parent_iff heap_child_def)

lemma down_inv_stop:
  assumes "n \<le> 2 * i + 1 \<or> \<not> key (arr h ! heap_child key h i n) < key (arr h ! i)"
  shows "below_ok key h n i"
  unfolding below_ok_def
proof (intro allI impI)
  fix c assume c: "0 < c \<and> c < n \<and> heap_parent c = i"
  then have "2 * i + 1 < n" using heap_parent_iff [of c i] by auto
  with assms have "key (arr h ! i) \<le> key (arr h ! heap_child key h i n)" by simp
  also have "\<dots> \<le> key (arr h ! c)" using c by (simp add: heap_child_min)
  finally show "heap_le key h c" using c by (simp add: heap_le_def)
qed

lemma down_inv_step:
  assumes inv: "down_inv key h m n i" and j: "j = heap_child key h i n"
    and n: "2 * i + 1 < n" and less: "key (arr h ! j) < key (arr h ! i)"
  shows "down_inv key (heap_Swap i j h) m n j"
    and "\<And>c. 0 < c \<Longrightarrow> c < n \<Longrightarrow> m \<le> heap_parent c \<Longrightarrow> heap_parent c \<noteq> j \<Longrightarrow> heap_le key (heap_Swap i j h) c"
proof -
  have ij: "i < j" and jn: "j < n" and pj: "heap_parent j = i"
    using n by (simp_all add: j heap_child_gt heap_child_less heap_child_parent)
  from inv have nl: "n \<le> length (arr h)" and "i < n" and mi: "m \<le> i"
    by (auto simp: down_inv_def)
  have nth: "arr (heap_Swap i j h) ! k =
      (if k = j then arr h ! i else if k = i then arr h ! j else arr h ! k)" if "k < n" for k
    using that ij jn nl by (intro heap_Swap_nth) auto
  have ord: "heap_le key h c" if "0 < c" "c < n" "m \<le> heap_parent c" "c \<noteq> i" "heap_parent c \<noteq> i" for c
    using inv that by (auto simp: down_inv_def)
  have gp: "key (arr h ! heap_parent i) \<le> key (arr h ! c)"
    if "0 < i" "m \<le> heap_parent i" "0 < c" "c < n" "heap_parent c = i" for c
    using inv that by (auto simp: down_inv_def)
  show le: "heap_le key (heap_Swap i j h) c" if c: "0 < c" "c < n" "m \<le> heap_parent c" "heap_parent c \<noteq> j" for c
  proof -
    have pc: "heap_parent c < n" "heap_parent c < c" using c heap_parent_less [of c] by simp_all
    consider "c = j" | "c = i" | "c \<noteq> j" "c \<noteq> i" "heap_parent c = i"
      | "c \<noteq> j" "c \<noteq> i" "heap_parent c \<noteq> i" by blast
    then show ?thesis
    proof cases
      case 1
      then show ?thesis using less ij jn pj by (simp add: heap_le_def nth)
    next
      case 2
      then show ?thesis using gp [of j] c ij jn pj pc by (simp add: heap_le_def nth)
    next
      case 3
      then show ?thesis using heap_child_min [of c n i key h] c pc
        by (simp add: heap_le_def nth j [symmetric])
    next
      case 4
      then show ?thesis using ord [of c] c pc by (simp add: heap_le_def nth)
    qed
  qed
  have "key (arr (heap_Swap i j h) ! heap_parent j) \<le> key (arr (heap_Swap i j h) ! c)"
    if c: "0 < c" "c < n" "heap_parent c = j" for c
  proof -
    have "c \<noteq> i" "c \<noteq> j" using c ij heap_parent_less [of c] by auto
    then show ?thesis using ord [of c] c pj ij mi \<open>i < n\<close> by (simp add: heap_le_def nth)
  qed
  then show "down_inv key (heap_Swap i j h) m n j"
    using jn nl le mi ij by (auto simp: down_inv_def)
qed

lemma heap_sink_preserves:
  assumes "i < n" "n \<le> length (arr h)"
  shows "length (arr (fst (heap_sink key h i n))) = length (arr h)
    \<and> set (arr (fst (heap_sink key h i n))) = set (arr h)
    \<and> (\<forall>k < length (arr h). n \<le> k \<longrightarrow> arr (fst (heap_sink key h i n)) ! k = arr h ! k)
    \<and> i \<le> snd (heap_sink key h i n) \<and> snd (heap_sink key h i n) < n
    \<and> (snd (heap_sink key h i n) = i \<longrightarrow> fst (heap_sink key h i n) = h)
    \<and> (heap_wf h \<longrightarrow> heap_wf (fst (heap_sink key h i n)))"
  using assms
proof (induction key h i n rule: heap_sink.induct)
  case (1 key h i n)
  define j where "j = heap_child key h i n"
  show ?case
  proof (cases "n \<le> 2 * i + 1 \<or> \<not> key (arr h ! j) < key (arr h ! i)")
    case True
    then show ?thesis using "1.prems" by (auto simp: heap_sink.simps [of key h i n] j_def Let_def)
  next
    case False
    then have ij: "i < j" and jn: "j < n"
      by (simp_all add: j_def heap_child_gt heap_child_less)
    have eq: "heap_sink key h i n = heap_sink key (heap_Swap i j h) j n"
      using False by (simp add: heap_sink.simps [of key h i n] j_def [symmetric] Let_def)
    show ?thesis
      using "1.IH" [OF _ j_def] False ij jn "1.prems" unfolding eq
      by (auto simp: heap_Swap_set heap_Swap_wf heap_Swap_nth)
  qed
qed

lemma heap_sink_ordered:
  assumes "down_inv key h m n i" "heap_sink key h i n = (h', i')"
  shows "below_ok key h' n i'
    \<and> (i' \<noteq> i \<longrightarrow> heap_from key h' m n)"
  using assms
proof (induction key h i n rule: heap_sink.induct)
  case (1 key h i n)
  define j where "j = heap_child key h i n"
  show ?case
  proof (cases "n \<le> 2 * i + 1 \<or> \<not> key (arr h ! j) < key (arr h ! i)")
    case True
    then have "heap_sink key h i n = (h, i)"
      by (auto simp: heap_sink.simps [of key h i n] j_def Let_def)
    with "1.prems" True show ?thesis by (auto simp: j_def intro: down_inv_stop)
  next
    case False
    then have n: "\<not> n \<le> 2 * i + 1" "2 * i + 1 < n" and less: "key (arr h ! j) < key (arr h ! i)" by auto
    have eq: "heap_sink key (heap_Swap i j h) j n = (h', i')"
      using False "1.prems" by (simp add: heap_sink.simps [of key h i n] j_def [symmetric] Let_def)
    note step = down_inv_step [OF "1.prems"(1) j_def n(2) less]
    have IH: "below_ok key h' n i' \<and> (i' \<noteq> j \<longrightarrow> heap_from key h' m n)"
      using "1.IH" [OF n(1) j_def] less step(1) eq by simp
    have "heap_from key h' m n" if "i' = j"
    proof -
      have jn: "j < n" "n \<le> length (arr (heap_Swap i j h))"
        using step(1) by (auto simp: down_inv_def)
      have "h' = heap_Swap i j h"
        using heap_sink_preserves [OF jn, of key] eq that by simp
      with IH that step(2) show ?thesis by (auto simp: heap_from_def below_ok_def)
    qed
    with IH show ?thesis by blast
  qed
qed


lemma heap_sink_stays:
  assumes "i < n" "n \<le> length (arr h)" "heap_down key h i n = (h', moved)"
  shows "\<not> moved \<longleftrightarrow> snd (heap_sink key h i n) = i" "fst (heap_sink key h i n) = h'"
  using assms heap_sink_preserves [OF assms(1,2), of key]
  by (auto simp: heap_down_def split: prod.splits)

lemma heap_ordered_down_inv:
  assumes "heap_ordered key h n" and i: "i < n" and "n \<le> length (arr h')"
    and same: "\<And>k. k < n \<Longrightarrow> k \<noteq> i \<Longrightarrow> arr h' ! k = arr h ! k"
  shows "down_inv key h' 0 n i"
proof -
  have le: "key (arr h ! heap_parent c) \<le> key (arr h ! c)" if "0 < c" "c < n" for c
    using assms(1) that by (simp add: heap_ordered_def heap_le_def)
  have "heap_le key h' c" if "0 < c" "c < n" "c \<noteq> i" "heap_parent c \<noteq> i" for c
    using that le [of c] heap_parent_less [of c] by (simp add: heap_le_def same)
  moreover have "key (arr h' ! heap_parent i) \<le> key (arr h' ! c)"
    if c: "0 < i" "0 < c" "c < n" "heap_parent c = i" for c
  proof -
    have "c \<noteq> i" "heap_parent i \<noteq> i" "heap_parent i < n"
      using c i heap_parent_less [of c] heap_parent_less [of i] by auto
    then show ?thesis using le [of c] le [of i] c i by (simp add: same)
  qed
  ultimately show ?thesis using assms(2,3) by (simp add: down_inv_def)
qed

lemma down_inv_up_inv: "down_inv key h 0 n i \<Longrightarrow> below_ok key h n i \<Longrightarrow> up_inv key h n i"
  by (auto simp: down_inv_def below_ok_def up_inv_def)

section \<open>The operations\<close>

text \<open>A heap whose index fields are right and whose whole slice is in heap order.\<close>

definition heap_ok :: "('a \<Rightarrow> int) \<Rightarrow> 'a heap \<Rightarrow> bool" where
  "heap_ok key h \<longleftrightarrow> heap_wf h \<and> heap_ordered key h (length (arr h))"

lemma heap_root_min:
  assumes "heap_ordered key h (length (arr h))" "x \<in> set (arr h)"
  shows "key (arr h ! 0) \<le> key x"
proof -
  have "key (arr h ! 0) \<le> key (arr h ! c)" if "c < length (arr h)" for c
    using that
  proof (induction c rule: less_induct)
    case (less c)
    show ?case
    proof (cases "c = 0")
      case False
      then have pc: "heap_parent c < c" by (simp add: heap_parent_less)
      with less have "key (arr h ! 0) \<le> key (arr h ! heap_parent c)" by simp
      also have "\<dots> \<le> key (arr h ! c)"
        using assms(1) less.prems False by (simp add: heap_ordered_def heap_le_def)
      finally show ?thesis .
    qed simp
  qed
  with assms(2) show ?thesis by (auto simp: in_set_conv_nth)
qed

lemma heap_Push_ok:
  assumes "heap_ok key h" "x \<notin> set (arr h)"
  shows "heap_ok key (heap_Push key x h)" "set (arr (heap_Push key x h)) = insert x (set (arr h))"
    "length (arr (heap_Push key x h)) = Suc (length (arr h))"
proof -
  let ?h = "heap_PushLast x h"
  have wf: "heap_wf ?h"
    using assms by (auto simp: heap_ok_def heap_wf_def heap_PushLast_def nth_append)
  have "heap_le key ?h c" if c: "0 < c" "c < length (arr h)" for c
    using assms(1) c heap_parent_less [of c]
    by (simp add: heap_ok_def heap_ordered_def heap_le_def heap_PushLast_def nth_append)
  moreover have "heap_parent c \<noteq> length (arr h)" if "0 < c" "c < Suc (length (arr h))" for c
    using that heap_parent_less [of c] by auto
  ultimately have inv: "up_inv key ?h (length (arr ?h)) (length (arr h))"
    unfolding up_inv_def by (auto simp: heap_PushLast_def)
  show "heap_ok key (heap_Push key x h)" "set (arr (heap_Push key x h)) = insert x (set (arr h))"
    "length (arr (heap_Push key x h)) = Suc (length (arr h))"
    using heap_up_preserves [of "length (arr h)" ?h key] heap_up_ordered [OF inv] wf
    by (simp_all add: heap_Push_def Let_def heap_ok_def heap_PushLast_def)
qed

text \<open>\<open>Fix\<close>, the step \<open>Remove\<close> makes at the hole: sink, and rise if the element did not sink.\<close>

lemma heap_fix_ok:
  assumes inv: "down_inv key h 0 n i" and wf: "heap_wf h"
    and eq: "heap_down key h i n = (h2, moved)" and h': "h' = (if moved then h2 else heap_up key h2 i)"
  shows "heap_wf h' \<and> heap_ordered key h' n \<and> length (arr h') = length (arr h)
    \<and> set (arr h') = set (arr h) \<and> (\<forall>k < length (arr h). n \<le> k \<longrightarrow> arr h' ! k = arr h ! k)"
proof -
  from inv have i: "i < n" "n \<le> length (arr h)" by (auto simp: down_inv_def)
  note pres = heap_sink_preserves [OF i, of key] and stays = heap_sink_stays [OF i eq]
  have ord: "below_ok key h2 n (snd (heap_sink key h i n))"
    "snd (heap_sink key h i n) \<noteq> i \<Longrightarrow> heap_ordered key h2 n"
    using heap_sink_ordered [OF inv, of h2 "snd (heap_sink key h i n)"] stays(2)
    by (auto simp: prod_eq_iff heap_from_0)
  show ?thesis
  proof (cases moved)
    case True
    then show ?thesis using pres stays ord wf h' by auto
  next
    case False
    then have h2: "h2 = h" and "below_ok key h n i" using pres stays ord by auto
    then have "up_inv key h n i" using inv by (simp add: down_inv_up_inv)
    then show ?thesis using heap_up_ordered heap_up_preserves [of i h key] False h2 h' wf i by auto
  qed
qed

lemma heap_PopLast_ok:
  assumes "heap_wf h" "heap_ordered key h (length (arr h) - 1)" "arr h \<noteq> []"
  shows "heap_ok key (heap_PopLast h)" "set (arr (heap_PopLast h)) = set (arr h) - {last (arr h)}"
    "length (arr (heap_PopLast h)) = length (arr h) - 1"
proof -
  have d: "distinct (butlast (arr h) @ [last (arr h)])" using assms by (simp add: heap_wf_def)
  have "heap_le key (heap_PopLast h) c" if "0 < c" "c < length (arr h) - 1" for c
    using assms(2) that heap_parent_less [of c]
    by (simp add: heap_ordered_def heap_le_def heap_PopLast_def nth_butlast)
  then show "heap_ok key (heap_PopLast h)"
    using assms d by (simp add: heap_ok_def heap_wf_def heap_ordered_def heap_PopLast_def nth_butlast
        distinct_butlast)
  show "set (arr (heap_PopLast h)) = set (arr h) - {last (arr h)}"
    using d arg_cong [OF append_butlast_last_id [OF assms(3)], of set]
    by (auto simp: heap_PopLast_def)
  show "length (arr (heap_PopLast h)) = length (arr h) - 1" by (simp add: heap_PopLast_def)
qed

lemma heap_Remove_ok:
  assumes ok: "heap_ok key h" and i: "i < length (arr h)"
  shows "heap_ok key (heap_Remove key i h)" "set (arr (heap_Remove key i h)) = set (arr h) - {arr h ! i}"
    "length (arr (heap_Remove key i h)) = length (arr h) - 1"
proof -
  define n where "n = length (arr h) - 1"
  define h1 where "h1 = heap_Swap i n h"
  obtain h2 moved where eq: "heap_down key h1 i n = (h2, moved)" by fastforce
  define h' where "h' = (if n \<noteq> i then if moved then h2 else heap_up key h2 i else h)"
  from ok have wf: "heap_wf h" and "heap_ordered key h (length (arr h))" by (auto simp: heap_ok_def)
  then have ord: "heap_ordered key h n" by (auto simp: heap_ordered_def n_def)
  have Rem: "heap_Remove key i h = heap_PopLast h'"
    unfolding heap_Remove_def n_def [symmetric] Let_def h1_def [symmetric] eq by (simp add: h'_def)
  have nl: "n < length (arr h)" using i by (simp add: n_def)
  have "heap_wf h' \<and> heap_ordered key h' n \<and> length (arr h') = length (arr h)
    \<and> set (arr h') = set (arr h) \<and> arr h' ! n = arr h ! i"
  proof (cases "n = i")
    case True
    then show ?thesis using wf ord by (simp add: h'_def)
  next
    case False
    then have "i < n" using i by (simp add: n_def)
    have "down_inv key h1 0 n i"
      using ord \<open>i < n\<close> nl by (rule_tac heap_ordered_down_inv) (auto simp: h1_def heap_Swap_nth)
    moreover have "heap_wf h1" using wf i nl by (simp add: h1_def heap_Swap_wf)
    ultimately have "heap_wf h' \<and> heap_ordered key h' n \<and> length (arr h') = length (arr h1)
      \<and> set (arr h') = set (arr h1) \<and> (\<forall>k < length (arr h1). n \<le> k \<longrightarrow> arr h' ! k = arr h1 ! k)"
      using eq by (rule heap_fix_ok) (simp add: h'_def False)
    then show ?thesis using i nl by (auto simp: h1_def heap_Swap_set heap_Swap_nth)
  qed
  then show "heap_ok key (heap_Remove key i h)"
    "set (arr (heap_Remove key i h)) = set (arr h) - {arr h ! i}"
    "length (arr (heap_Remove key i h)) = length (arr h) - 1"
    using heap_PopLast_ok [of h' key] i
    by (auto simp: Rem n_def last_conv_nth simp flip: length_greater_0_conv)
qed

text \<open>\<open>Init\<close> sinks every inner node, last first: after node \<open>i\<close> the nodes from \<open>i\<close> on are in order
  with their children.\<close>

lemma heap_down_from:
  assumes "heap_from key h (Suc i) (length (arr h))" "i < length (arr h)" "heap_wf h"
    and h': "h' = fst (heap_down key h i (length (arr h)))"
  shows "heap_from key h' i (length (arr h'))" "heap_wf h'" "set (arr h') = set (arr h)"
    "length (arr h') = length (arr h)"
proof -
  let ?n = "length (arr h)" let ?i = "snd (heap_sink key h i (length (arr h)))"
  have fst: "fst (heap_sink key h i ?n) = h'" by (simp add: h' heap_down_def split: prod.splits)
  note pres = heap_sink_preserves [OF assms(2) order_refl, of key, unfolded fst]
  then show "heap_wf h'" "set (arr h') = set (arr h)" "length (arr h') = length (arr h)"
    using assms(3) by auto
  have pi: "\<not> (0 < i \<and> i \<le> heap_parent i)" using heap_parent_less [of i] by linarith
  have inv: "down_inv key h i ?n i"
    using assms(1,2) pi unfolding down_inv_def heap_from_def
    by (auto simp: Suc_le_eq le_less)
  have sink: "below_ok key h' ?n ?i \<and> (?i \<noteq> i \<longrightarrow> heap_from key h' i ?n)"
    using heap_sink_ordered [OF inv, of h' ?i] fst by (simp add: prod_eq_iff)
  have "heap_from key h' i ?n" if "?i = i"
    using that pres sink inv unfolding down_inv_def heap_from_def below_ok_def using pi by auto
  with sink pres show "heap_from key h' i (length (arr h'))" by auto
qed

lemma heap_InitFrom_ok:
  assumes "heap_from key h i (length (arr h))" "i \<le> length (arr h)" "heap_wf h"
  shows "heap_ok key (heap_InitFrom key i h) \<and> set (arr (heap_InitFrom key i h)) = set (arr h)
    \<and> length (arr (heap_InitFrom key i h)) = length (arr h)"
  using assms
proof (induction key i h rule: heap_InitFrom.induct)
  case (1 key h)
  then show ?case by (simp add: heap_ok_def heap_from_0)
next
  case (2 key i h)
  then show ?case using heap_down_from [of key h i, OF _ _ _ refl] by simp
qed

lemma heap_Init_ok:
  assumes "heap_wf h"
  shows "heap_ok key (heap_Init key h)" "set (arr (heap_Init key h)) = set (arr h)"
    "length (arr (heap_Init key h)) = length (arr h)"
proof -
  have "heap_from key h (length (arr h) div 2) (length (arr h))"
    by (auto simp: heap_from_def heap_parent_def)
  then show "heap_ok key (heap_Init key h)" "set (arr (heap_Init key h)) = set (arr h)"
    "length (arr (heap_Init key h)) = length (arr h)"
    using heap_InitFrom_ok [of key h "length (arr h) div 2"] assms by (simp_all add: heap_Init_def)
qed

lemma heap_empty_ok: "heap_ok key heap_empty" "arr heap_empty = []"
  by (simp_all add: heap_ok_def heap_wf_def heap_ordered_def heap_empty_def)

lemma heap_pos: "heap_ok key h \<Longrightarrow> x \<in> set (arr h) \<Longrightarrow> pos h x < length (arr h) \<and> arr h ! pos h x = x"
  by (auto simp: heap_ok_def heap_wf_def in_set_conv_nth)


section \<open>Lengths, with no assumption on the heap\<close>

lemma heap_up_length [simp]: "length (arr (heap_up key h j)) = length (arr h)"
  by (induction key h j rule: heap_up.induct) (subst heap_up.simps, simp add: Let_def)

lemma heap_sink_length [simp]: "length (arr (fst (heap_sink key h i n))) = length (arr h)"
  by (induction key h i n rule: heap_sink.induct) (subst heap_sink.simps, simp add: Let_def)

lemma heap_Remove_length [simp]: "length (arr (heap_Remove key i h)) = length (arr h) - 1"
  by (auto simp: heap_Remove_def heap_down_def heap_PopLast_def Let_def
      dest!: arg_cong [of "heap_sink _ _ _ _" _ "\<lambda>r. length (arr (fst r))"] split: prod.splits)

section \<open>The interface\<close>

text \<open>What the replay state relies on: a queue of distinct elements under an integer key that
  gives its least element and removes any element it holds.\<close>

locale min_queue =
  fixes inv :: "('a \<Rightarrow> int) \<Rightarrow> 'h \<Rightarrow> bool"
    and elems :: "'h \<Rightarrow> 'a set"
    and root :: "'h \<Rightarrow> 'a"
    and push :: "('a \<Rightarrow> int) \<Rightarrow> 'a \<Rightarrow> 'h \<Rightarrow> 'h"
    and del :: "('a \<Rightarrow> int) \<Rightarrow> 'a \<Rightarrow> 'h \<Rightarrow> 'h"
  assumes inv_cong: "(\<And>x. x \<in> elems q \<Longrightarrow> key x = key' x) \<Longrightarrow> inv key q \<Longrightarrow> inv key' q"
    and push_inv: "inv key q \<Longrightarrow> x \<notin> elems q \<Longrightarrow> inv key (push key x q)"
    and push_elems: "inv key q \<Longrightarrow> x \<notin> elems q \<Longrightarrow> elems (push key x q) = insert x (elems q)"
    and del_inv: "inv key q \<Longrightarrow> x \<in> elems q \<Longrightarrow> inv key (del key x q)"
    and del_elems: "inv key q \<Longrightarrow> x \<in> elems q \<Longrightarrow> elems (del key x q) = elems q - {x}"
    and root_elem: "elems q \<noteq> {} \<Longrightarrow> root q \<in> elems q"
    and root_least: "inv key q \<Longrightarrow> x \<in> elems q \<Longrightarrow> key (root q) \<le> key x"
begin

lemma none_due: "inv key q \<Longrightarrow> \<not> key (root q) \<le> t \<Longrightarrow> x \<in> elems q \<Longrightarrow> t < key x"
  using root_least [of key q x] by linarith

lemma push_cong_inv:
  "inv key q \<Longrightarrow> (\<And>y. y \<in> elems q \<Longrightarrow> key y = key' y) \<Longrightarrow> x \<notin> elems q \<Longrightarrow>
   inv key' (push key' x q) \<and> elems (push key' x q) = insert x (elems q)"
  using inv_cong [of q key key'] push_inv [of key' q x] push_elems [of key' q x] by blast

lemma del_root:
  "inv key q \<Longrightarrow> elems q \<noteq> {} \<Longrightarrow>
   inv key (del key (root q) q) \<and> elems (del key (root q) q) = elems q - {root q}"
  by (simp add: del_inv del_elems root_elem)

end

lemma heap_ok_cong:
  assumes "\<And>x. x \<in> set (arr h) \<Longrightarrow> key x = key' x" "heap_ok key h"
  shows "heap_ok key' h"
proof -
  have "heap_le key' h c" if "0 < c" "c < length (arr h)" for c
  proof -
    have "key (arr h ! heap_parent c) \<le> key (arr h ! c)"
      using assms(2) that by (simp add: heap_ok_def heap_ordered_def heap_le_def)
    moreover have "heap_parent c < length (arr h)" using that heap_parent_less [of c] by simp
    ultimately show ?thesis
      using that assms(1) [OF nth_mem, of c] assms(1) [OF nth_mem, of "heap_parent c"]
      by (simp add: heap_le_def)
  qed
  then show ?thesis using assms(2) by (simp add: heap_ok_def heap_ordered_def)
qed

interpretation mh: min_queue heap_ok "\<lambda>h. set (arr h)" "\<lambda>h. arr h ! 0" heap_Push
  "\<lambda>key x h. heap_Remove key (pos h x) h"
proof (unfold_locales, goal_cases)
  case (1 q key key')
  then show ?case by (blast intro: heap_ok_cong)
next
  case (2 key q x)
  then show ?case by (simp add: heap_Push_ok)
next
  case (3 key q x)
  then show ?case by (simp add: heap_Push_ok)
next
  case (4 key q x)
  then show ?case using heap_pos [of key q x] by (simp add: heap_Remove_ok)
next
  case (5 key q x)
  then show ?case using heap_pos [of key q x] by (simp add: heap_Remove_ok)
next
  case (6 q)
  then show ?case by (simp add: nth_mem flip: length_greater_0_conv)
next
  case (7 key q x)
  then show ?case by (simp add: heap_ok_def heap_root_min)
qed

end
