(* ===== verification/Go_Strconv.thy ===== *)
theory Go_Strconv
  imports Go_Prelude
begin

text \<open>
  The number formatting and parsing of \<open>strconv\<close> and \<open>fmt\<close> the program uses: \<open>itoa\<close> is
  \<open>%d\<close> and \<open>strconv.Itoa\<close>, \<open>parseInt64\<close> is \<open>strconv.ParseInt(s, 10, 64)\<close> with the error
  as \<^const>\<open>None\<close>.
\<close>

section \<open>Decimal text\<close>

text \<open>Bytes and digits are \<open>int\<close>, so that evaluation works on binary numerals.\<close>

definition byte :: "char \<Rightarrow> int" where
  "byte c = of_char c"

definition digit :: "int \<Rightarrow> char" where
  "digit d = char_of (48 + d)"

definition is_digit :: "char \<Rightarrow> bool" where
  "is_digit c \<longleftrightarrow> 48 \<le> byte c \<and> byte c \<le> 57"

definition digit_val :: "char \<Rightarrow> int" where
  "digit_val c = byte c - 48"

text \<open>The decimal text of a number that is not negative.\<close>

function dec :: "int \<Rightarrow> string" where
  "dec n = (if n < 10 then [digit n] else dec (n div 10) @ [digit (n mod 10)])"
  by pat_completeness auto
termination
  by (relation "measure nat") auto

declare dec.simps [simp del]

definition itoa :: "int \<Rightarrow> string" where
  "itoa i = (if i < 0 then CHR ''-'' # dec (- i) else dec i)"

definition dec_val :: "string \<Rightarrow> int" where
  "dec_val s = foldl (\<lambda>v c. 10 * v + digit_val c) 0 s"

definition all_digits :: "string \<Rightarrow> bool" where
  "all_digits s \<longleftrightarrow> s \<noteq> [] \<and> list_all is_digit s"

text \<open>\<open>ParseInt\<close> takes one optional sign, then decimal digits only, and refuses a value
  outside \<open>int64\<close>.\<close>

definition in_int64 :: "int \<Rightarrow> bool" where
  "in_int64 i \<longleftrightarrow> minInt64 \<le> i \<and> i \<le> maxInt64"

definition parseInt64 :: "string \<Rightarrow> int option" where
  "parseInt64 s =
     (let (neg, ds) = (case s of [] \<Rightarrow> (False, [])
                       | c # cs \<Rightarrow> if c = CHR ''-'' then (True, cs)
                                  else if c = CHR ''+'' then (False, cs) else (False, s));
          v = (if neg then - dec_val ds else dec_val ds)
      in if all_digits ds \<and> in_int64 v then Some v else None)"

section \<open>Round trips\<close>

lemma byte_range: "0 \<le> byte c" "byte c < 256"
  by (cases c, simp add: byte_def of_char_def)+

lemma byte_digit: "0 \<le> d \<Longrightarrow> d < 10 \<Longrightarrow> byte (digit d) = 48 + d"
  by (simp add: byte_def digit_def of_char_of)

lemma byte_inject: "byte c = byte c' \<longleftrightarrow> c = c'"
  by (simp add: byte_def)

lemma digit_is_digit [simp]: "0 \<le> d \<Longrightarrow> d < 10 \<Longrightarrow> is_digit (digit d)"
  by (simp add: is_digit_def byte_digit)

lemma digit_val_digit [simp]: "0 \<le> d \<Longrightarrow> d < 10 \<Longrightarrow> digit_val (digit d) = d"
  by (simp add: digit_val_def byte_digit)

lemma dec_digits: "0 \<le> n \<Longrightarrow> all_digits (dec n)"
proof (induction n rule: dec.induct)
  case (1 n)
  then show ?case
    by (cases "n < 10") (simp_all add: dec.simps [of n] all_digits_def)
qed

lemma dec_val_snoc: "dec_val (s @ [c]) = 10 * dec_val s + digit_val c"
  by (simp add: dec_val_def)

lemma dec_val_dec [simp]: "0 \<le> n \<Longrightarrow> dec_val (dec n) = n"
proof (induction n rule: dec.induct)
  case (1 n)
  then show ?case
    by (cases "n < 10") (simp_all add: dec.simps [of n] dec_val_snoc, simp add: dec_val_def)
qed

lemma dec_inject [simp]: "0 \<le> m \<Longrightarrow> 0 \<le> n \<Longrightarrow> dec m = dec n \<longleftrightarrow> m = n"
  by (metis dec_val_dec)

lemma is_digit_neq: "is_digit c \<Longrightarrow> c \<noteq> CHR ''-'' \<and> c \<noteq> CHR ''+'' \<and> c \<noteq> CHR '':'' \<and> c \<noteq> CHR '';''"
  by (auto simp: is_digit_def byte_def)

lemma dec_Cons: "0 \<le> n \<Longrightarrow> \<exists>c cs. dec n = c # cs \<and> is_digit c"
  using dec_digits [of n] by (cases "dec n") (auto simp: all_digits_def)

lemma dec_head: "0 \<le> n \<Longrightarrow> dec n \<noteq> CHR ''-'' # s \<and> CHR ''-'' # s \<noteq> dec n"
  using dec_Cons [of n] by (auto dest: is_digit_neq)

lemma parseInt64_itoa: "in_int64 i \<Longrightarrow> parseInt64 (itoa i) = Some i"
proof (cases "i < 0")
  case True
  assume "in_int64 i"
  with True show ?thesis using dec_digits [of "- i"] by (simp add: parseInt64_def itoa_def)
next
  case False
  assume i: "in_int64 i"
  obtain c cs where d: "dec i = c # cs" "is_digit c" using dec_Cons [of i] False by auto
  have "dec_val (c # cs) = i" "all_digits (c # cs)"
    using dec_val_dec [of i] dec_digits [of i] d False by simp_all
  then show ?thesis using i d False is_digit_neq [OF d(2)]
    by (simp add: parseInt64_def itoa_def)
qed

lemma itoa_inject [simp]: "itoa i = itoa j \<longleftrightarrow> i = j"
  using dec_head [of i] dec_head [of j] by (auto simp: itoa_def split: if_splits)

lemma dec_val_nonneg: "list_all is_digit s \<Longrightarrow> 0 \<le> dec_val s"
proof (induction s rule: rev_induct)
  case (snoc c s)
  then show ?case by (simp add: dec_val_snoc digit_val_def is_digit_def)
qed (simp add: dec_val_def)

lemma parseInt64_digits: "all_digits s \<Longrightarrow> parseInt64 s = (if in_int64 (dec_val s) then Some (dec_val s) else None)"
  by (cases s) (auto simp: parseInt64_def all_digits_def dest: is_digit_neq)

lemma parseInt64_range: "parseInt64 s = Some i \<Longrightarrow> in_int64 i"
  by (auto simp: parseInt64_def Let_def split: list.splits if_splits)

section \<open>Length-prefixed fields\<close>

text \<open>A field written as its length, a colon, the bytes and a semicolon is read back without
  ambiguity, whatever the bytes hold.\<close>

definition netstring :: "string \<Rightarrow> string" where
  "netstring s = dec (int (length s)) @ CHR '':'' # s @ '';''"

lemma takeWhile_digits: "all_digits s \<Longrightarrow> \<not> is_digit c \<Longrightarrow> takeWhile is_digit (s @ c # t) = s"
  by (auto simp: all_digits_def list_all_iff takeWhile_append)

lemma netstring_inject:
  assumes "netstring a @ s = netstring b @ t"
  shows "a = b \<and> s = t"
proof -
  have c: "\<not> is_digit CHR '':''" by (simp add: is_digit_def byte_def)
  have "takeWhile is_digit (netstring a @ s) = dec (int (length a))"
    "takeWhile is_digit (netstring b @ t) = dec (int (length b))"
    using takeWhile_digits [OF dec_digits c] by (simp_all add: netstring_def)
  with assms have "length a = length b" by simp
  with assms show ?thesis by (simp add: netstring_def)
qed

lemma netstring_append_eq: "netstring a @ s = netstring b @ t \<longleftrightarrow> a = b \<and> s = t"
  using netstring_inject by blast

lemma netstring_eq: "netstring a = netstring b \<longleftrightarrow> a = b"
  using netstring_append_eq [of a "[]" b "[]"] by simp

lemma dec_length: "0 \<le> v \<Longrightarrow> v < 10 ^ n \<Longrightarrow> 0 < n \<Longrightarrow> length (dec v) \<le> n"
proof (induction n arbitrary: v)
  case (Suc n)
  show ?case
  proof (cases "v < 10")
    case False
    then have "0 < n" "v div 10 < 10 ^ n" using Suc.prems by (cases n; simp)+
    then show ?thesis using False Suc.IH [of "v div 10"] by (simp add: dec.simps [of v])
  qed (simp add: dec.simps [of v])
qed simp

end
