(* ===== verification/Replay.thy ===== *)
theory Replay
  imports Go_Heap Go_Strconv
begin

text \<open>
  Envelope freshness and replay, \<open>internal/mqttauth/replay.go\<close>, and the step of the verifier
  that uses it, \<open>checkFreshAndRecord\<close> of \<open>internal/mqttauth/mqttauth.go\<close>.

  A held key is an object both heaps and the map point to, so the model has a store of objects:
  a pointer is an index into \<open>rs_objs\<close>. The \<open>index\<close> and \<open>dropIndex\<close> fields of an object are the
  \<^const>\<open>pos\<close> functions of the two heaps. Times are \<open>int64\<close> milliseconds and every sum wraps.
\<close>

section \<open>State\<close>

datatype replayError =
    ErrStaleTimestamp
  | ErrFutureTimestamp
  | ErrBeforeReplayFloor
  | ErrReplayDetected

record heldKey =
  hk_key :: string
  hk_signedAt :: int
  hk_receivedAt :: int
  hk_dropAt :: int

record replayState =
  rs_skew :: int
  rs_ttl :: int
  rs_stores :: bool
  rs_floor :: int
  rs_storedFloor :: int
  rs_storedSet :: bool
  rs_keys :: "(string, nat) fmap"
  rs_bySign :: "nat heap"
  rs_byDrop :: "nat heap"
  rs_maxKeys :: int
  rs_objs :: "heldKey list"

definition newReplayState :: "int \<Rightarrow> int \<Rightarrow> bool \<Rightarrow> int \<Rightarrow> int \<Rightarrow> replayState" where
  "newReplayState skew ttl stores maxKeys startClock =
     \<lparr>rs_skew = skew, rs_ttl = ttl, rs_stores = stores, rs_floor = startClock,
      rs_storedFloor = 0, rs_storedSet = False, rs_keys = fmempty,
      rs_bySign = heap_empty, rs_byDrop = heap_empty, rs_maxKeys = maxKeys, rs_objs = []\<rparr>"

text \<open>The orders of \<open>signHeap\<close> and \<open>dropHeap\<close>: each compares one field of the objects.\<close>

definition signHeap_Less :: "heldKey list \<Rightarrow> nat \<Rightarrow> int" where
  "signHeap_Less objs p = hk_signedAt (objs ! p)"

definition dropHeap_Less :: "heldKey list \<Rightarrow> nat \<Rightarrow> int" where
  "dropHeap_Less objs p = hk_dropAt (objs ! p)"

section \<open>Operations\<close>

definition recheck :: "replayState \<Rightarrow> string \<Rightarrow> int \<Rightarrow> replayError option" where
  "recheck s key signedAt =
     (if signedAt < rs_floor s then Some ErrBeforeReplayFloor
      else if fmlookup (rs_keys s) key \<noteq> None then Some ErrReplayDetected
      else None)"

definition check :: "replayState \<Rightarrow> string \<Rightarrow> int \<Rightarrow> int \<Rightarrow> replayError option" where
  "check s key signedAt t =
     (if signedAt < wrap64 (t - rs_skew s) then Some ErrStaleTimestamp
      else if signedAt > wrap64 (t + rs_skew s) then Some ErrFutureTimestamp
      else recheck s key signedAt)"

definition replay_dropAt :: "replayState \<Rightarrow> heldKey \<Rightarrow> int" where
  "replay_dropAt s held =
     (let at = wrap64 (hk_signedAt held + rs_skew s + 1)
      in if rs_ttl s > 0 then max at (wrap64 (hk_receivedAt held + rs_ttl s)) else at)"

text \<open>\<open>drop\<close> takes the pointer of the held key.\<close>

definition replay_drop :: "replayState \<Rightarrow> nat \<Rightarrow> replayState" where
  "replay_drop s p =
     (let held = rs_objs s ! p;
          raised = wrap64 (hk_signedAt held + 1);
          s1 = s\<lparr>rs_keys := fmdrop (hk_key held) (rs_keys s),
                 rs_bySign := heap_Remove (signHeap_Less (rs_objs s)) (pos (rs_bySign s) p) (rs_bySign s),
                 rs_byDrop := heap_Remove (dropHeap_Less (rs_objs s)) (pos (rs_byDrop s) p) (rs_byDrop s)\<rparr>;
          s2 = (if raised > rs_floor s1 then s1\<lparr>rs_floor := raised\<rparr> else s1)
      in if \<not> rs_storedSet s2 \<or> raised > rs_storedFloor s2
         then s2\<lparr>rs_storedFloor := raised, rs_storedSet := True\<rparr> else s2)"

lemma replay_drop_byDrop_length [simp]:
  "length (arr (rs_byDrop (replay_drop s p))) = length (arr (rs_byDrop s)) - 1"
  by (simp add: replay_drop_def Let_def)

function prune :: "replayState \<Rightarrow> int \<Rightarrow> replayState" where
  "prune s t =
     (if arr (rs_byDrop s) \<noteq> [] \<and> hk_dropAt (rs_objs s ! (arr (rs_byDrop s) ! 0)) \<le> t
      then prune (replay_drop s (arr (rs_byDrop s) ! 0)) t
      else s)"
  by pat_completeness auto
termination
  by (relation "measure (\<lambda>(s, t). length (arr (rs_byDrop s)))") auto

declare prune.simps [simp del]

definition evict :: "replayState \<Rightarrow> replayState" where
  "evict s = (if arr (rs_bySign s) \<noteq> [] then replay_drop s (arr (rs_bySign s) ! 0) else s)"

definition record_key :: "replayState \<Rightarrow> string \<Rightarrow> int \<Rightarrow> int \<Rightarrow> replayState" where
  "record_key s0 key signedAt receivedAt =
     (let s = (if rs_maxKeys s0 > 0 \<and> int (fmsize (rs_keys s0)) \<ge> rs_maxKeys s0 then evict s0 else s0);
          held0 = \<lparr>hk_key = key, hk_signedAt = signedAt, hk_receivedAt = receivedAt, hk_dropAt = 0\<rparr>;
          held = held0\<lparr>hk_dropAt := replay_dropAt s held0\<rparr>;
          p = length (rs_objs s);
          objs = rs_objs s @ [held]
      in s\<lparr>rs_objs := objs,
           rs_keys := fmupd key p (rs_keys s),
           rs_bySign := heap_Push (signHeap_Less objs) p (rs_bySign s),
           rs_byDrop := heap_Push (dropHeap_Less objs) p (rs_byDrop s)\<rparr>)"

definition clear_keys :: "replayState \<Rightarrow> replayState" where
  "clear_keys s = s\<lparr>rs_keys := fmempty, rs_bySign := heap_empty, rs_byDrop := heap_empty,
     rs_storedSet := False, rs_storedFloor := 0\<rparr>"

text \<open>The loop of \<open>restart\<close> over the held keys: it changes the objects the map points to.\<close>

definition refresh_dropAt :: "replayState \<Rightarrow> heldKey list" where
  "refresh_dropAt s =
     map (\<lambda>p. let held = rs_objs s ! p
              in if fmlookup (rs_keys s) (hk_key held) = Some p
                 then held\<lparr>hk_dropAt := replay_dropAt s held\<rparr> else held)
       [0..<length (rs_objs s)]"

definition restart :: "replayState \<Rightarrow> int \<Rightarrow> int \<Rightarrow> replayState" where
  "restart s0 t skew =
     (let s1 = s0\<lparr>rs_skew := skew\<rparr>;
          s2 = (if rs_stores s1 then s1 else clear_keys s1);
          objs = refresh_dropAt s2;
          s3 = s2\<lparr>rs_objs := objs, rs_byDrop := heap_Init (dropHeap_Less objs) (rs_byDrop s2), rs_floor := t\<rparr>
      in if rs_storedSet s3 \<and> rs_storedFloor s3 > rs_floor s3
         then s3\<lparr>rs_floor := rs_storedFloor s3\<rparr> else s3)"

definition rotate :: "replayState \<Rightarrow> bool \<Rightarrow> int \<Rightarrow> replayState" where
  "rotate s keepsPrevious t = (if keepsPrevious then s else (clear_keys s)\<lparr>rs_floor := t\<rparr>)"

section \<open>The verifier's step\<close>

text \<open>The parts of an envelope that its replay key covers.\<close>

record envelope =
  ev_messageType :: string
  ev_deviceID :: string
  ev_requestID :: string
  ev_signedAt :: int
  ev_signature :: string

definition replayKey :: "envelope \<Rightarrow> string" where
  "replayKey e = concat (map netstring
     [ev_messageType e, ev_deviceID e, ev_requestID e, itoa (ev_signedAt e), ev_signature e])"

text \<open>The warning of \<open>floorAheadWarning\<close>: the floor and the clock it logs.\<close>

definition floorAheadWarning :: "replayState \<Rightarrow> replayError \<Rightarrow> int \<Rightarrow> (int \<times> int) option" where
  "floorAheadWarning s err t =
     (if err \<noteq> ErrBeforeReplayFloor \<or> rs_floor s \<le> wrap64 (t - rs_skew s) then None
      else Some (rs_floor s, t))"

datatype 'e verifyError = Refused replayError | DecideErr 'e

text \<open>\<open>decide\<close> is the caller's function on the unsigned payload, here already applied to it:
  \<^const>\<open>None\<close> when the caller passes none. The result has the warning logged and the error.\<close>

definition checkFreshAndRecord ::
  "replayState \<Rightarrow> envelope \<Rightarrow> int \<Rightarrow> (bool \<times> 'e option) option
   \<Rightarrow> replayState \<times> (int \<times> int) option \<times> 'e verifyError option" where
  "checkFreshAndRecord s0 e t decide =
     (let key = replayKey e; s = prune s0 t
      in case check s key (ev_signedAt e) t of
           Some err \<Rightarrow> (s, floorAheadWarning s err t, Some (Refused err))
         | None \<Rightarrow>
             (case decide of
                None \<Rightarrow> (record_key s key (ev_signedAt e) t, None, None)
              | Some (applied, err) \<Rightarrow>
                  if applied
                  then (case recheck s key (ev_signedAt e) of
                          Some r \<Rightarrow> (s, None, Some (Refused r))
                        | None \<Rightarrow> (record_key s key (ev_signedAt e) t, None, map_option DecideErr err))
                  else (s, None, map_option DecideErr err)))"

section \<open>Sequences of steps\<close>

text \<open>What can happen to a receiver, in any order and at any clock reading: a verification, a
  restart, a rotation of the secret. The clock may step back between two events.\<close>

datatype 'e replayEvent =
    Verify envelope int "(bool \<times> 'e option) option"
  | Restart int int
  | Rotate bool int

text \<open>The state after an event, and the envelope when the event accepted one and recorded it.\<close>

definition applied :: "(bool \<times> 'e option) option \<Rightarrow> bool" where
  "applied decide = (case decide of None \<Rightarrow> True | Some (b, err) \<Rightarrow> b)"

fun refused :: "'e verifyError option \<Rightarrow> bool" where
  "refused (Some (Refused r)) = True"
| "refused err = False"

fun replay_step :: "replayState \<Rightarrow> 'e replayEvent \<Rightarrow> replayState \<times> envelope option" where
  "replay_step s (Verify e t decide) =
     (case checkFreshAndRecord s e t decide of
        (s', w, err) \<Rightarrow> (s', if applied decide \<and> \<not> refused err then Some e else None))"
| "replay_step s (Restart t skew) = (restart s t skew, None)"
| "replay_step s (Rotate keepsPrevious t) = (rotate s keepsPrevious t, None)"

fun replay_run :: "replayState \<Rightarrow> 'e replayEvent list \<Rightarrow> replayState \<times> envelope list" where
  "replay_run s [] = (s, [])"
| "replay_run s (ev # evs) =
     (let (s1, a) = replay_step s ev; (s2, as) = replay_run s1 evs
      in (s2, (case a of None \<Rightarrow> as | Some e \<Rightarrow> e # as)))"

section \<open>The invariant\<close>

text \<open>The clock readings and settings for which no sum of the receiver wraps: about seventy
  million years either side of the epoch.\<close>

definition clock_ok :: "int \<Rightarrow> bool" where
  "clock_ok t \<longleftrightarrow> \<bar>t\<bar> \<le> 2305843009213693952"

definition held_ok :: "replayState \<Rightarrow> heldKey \<Rightarrow> bool" where
  "held_ok s held \<longleftrightarrow> hk_dropAt held = replay_dropAt s held
     \<and> \<bar>hk_signedAt held\<bar> \<le> 4611686018427387904 \<and> clock_ok (hk_receivedAt held)"

definition held_ptrs :: "replayState \<Rightarrow> nat set" where
  "held_ptrs s = {p. \<exists>k. fmlookup (rs_keys s) k = Some p}"

definition keys_ok :: "replayState \<Rightarrow> bool" where
  "keys_ok s \<longleftrightarrow> (\<forall>k p. fmlookup (rs_keys s) k = Some p \<longrightarrow>
     p < length (rs_objs s) \<and> hk_key (rs_objs s ! p) = k \<and> held_ok s (rs_objs s ! p))"

definition heaps_ok :: "replayState \<Rightarrow> bool" where
  "heaps_ok s \<longleftrightarrow> heap_ok (signHeap_Less (rs_objs s)) (rs_bySign s)
     \<and> heap_ok (dropHeap_Less (rs_objs s)) (rs_byDrop s)
     \<and> set (arr (rs_bySign s)) = held_ptrs s \<and> set (arr (rs_byDrop s)) = held_ptrs s"

definition replay_inv :: "replayState \<Rightarrow> bool" where
  "replay_inv s \<longleftrightarrow> keys_ok s \<and> heaps_ok s
     \<and> (rs_storedSet s \<longrightarrow> rs_storedFloor s \<le> rs_floor s)
     \<and> 0 \<le> rs_skew s \<and> clock_ok (rs_skew s) \<and> 0 \<le> rs_ttl s \<and> clock_ok (rs_ttl s)
     \<and> (0 < rs_maxKeys s \<longrightarrow> int (fmsize (rs_keys s)) \<le> rs_maxKeys s)"

text \<open>An accepted envelope stays refused: its key is held, or the floor that survives a restart
  is past its signing time.\<close>

definition covered :: "replayState \<Rightarrow> envelope \<Rightarrow> bool" where
  "covered s e \<longleftrightarrow>
     (\<exists>p. fmlookup (rs_keys s) (replayKey e) = Some p \<and> hk_signedAt (rs_objs s ! p) = ev_signedAt e)
     \<or> rs_storedSet s \<and> ev_signedAt e < rs_storedFloor s"

lemma wrap64_add:
  "\<bar>x\<bar> \<le> 4611686018427387904 \<Longrightarrow> \<bar>y\<bar> \<le> 2305843009213693953 \<Longrightarrow> wrap64 (x + y) = x + y"
  "\<bar>x\<bar> \<le> 4611686018427387904 \<Longrightarrow> \<bar>y\<bar> \<le> 2305843009213693953 \<Longrightarrow> wrap64 (x - y) = x - y"
  "\<bar>x\<bar> \<le> 4611686018427387904 \<Longrightarrow> \<bar>y\<bar> \<le> 2305843009213693952 \<Longrightarrow> wrap64 (x + y + 1) = x + y + 1"
  by (simp_all add: minInt64_def maxInt64_def)

lemma held_ptr_unique:
  "keys_ok s \<Longrightarrow> fmlookup (rs_keys s) k = Some p \<Longrightarrow> fmlookup (rs_keys s) k' = Some p \<Longrightarrow> k = k'"
  by (auto simp: keys_ok_def)

lemma new_replay_inv:
  assumes "0 \<le> skew" "clock_ok skew" "0 \<le> ttl" "clock_ok ttl"
  shows "replay_inv (newReplayState skew ttl stores maxKeys start)"
  using assms
  by (simp add: replay_inv_def newReplayState_def keys_ok_def heaps_ok_def held_ptrs_def heap_empty_ok)

lemma drop_held_ptrs:
  assumes "keys_ok s" "p \<in> held_ptrs s"
  shows "held_ptrs (replay_drop s p) = held_ptrs s - {p}"
proof -
  obtain k where k: "fmlookup (rs_keys s) k = Some p" using assms(2) by (auto simp: held_ptrs_def)
  then have "hk_key (rs_objs s ! p) = k" using assms(1) by (simp add: keys_ok_def)
  then show ?thesis using k held_ptr_unique [OF assms(1)]
    by (auto simp: held_ptrs_def replay_drop_def Let_def)
qed

lemma drop_fields [simp]:
  "rs_objs (replay_drop s p) = rs_objs s" "rs_skew (replay_drop s p) = rs_skew s"
  "rs_ttl (replay_drop s p) = rs_ttl s" "rs_maxKeys (replay_drop s p) = rs_maxKeys s"
  "rs_stores (replay_drop s p) = rs_stores s"
  "rs_keys (replay_drop s p) = fmdrop (hk_key (rs_objs s ! p)) (rs_keys s)"
  by (simp_all add: replay_drop_def Let_def)

lemma replay_dropAt_cong:
  "rs_skew s = rs_skew s' \<Longrightarrow> rs_ttl s = rs_ttl s' \<Longrightarrow> replay_dropAt s = replay_dropAt s'"
  by (simp add: replay_dropAt_def fun_eq_iff Let_def)

lemma held_ok_cong:
  "rs_skew s = rs_skew s' \<Longrightarrow> rs_ttl s = rs_ttl s' \<Longrightarrow> held_ok s = held_ok s'"
  by (simp add: held_ok_def fun_eq_iff replay_dropAt_cong [of s s'])

lemma drop_heaps_ok:
  assumes "keys_ok s" "heaps_ok s" "p \<in> held_ptrs s"
  shows "heaps_ok (replay_drop s p)"
proof -
  from assms have h: "heap_ok (signHeap_Less (rs_objs s)) (rs_bySign s)" "p \<in> set (arr (rs_bySign s))"
    "heap_ok (dropHeap_Less (rs_objs s)) (rs_byDrop s)" "p \<in> set (arr (rs_byDrop s))"
    by (auto simp: heaps_ok_def)
  have "rs_bySign (replay_drop s p) = heap_Remove (signHeap_Less (rs_objs s)) (pos (rs_bySign s) p) (rs_bySign s)"
    "rs_byDrop (replay_drop s p) = heap_Remove (dropHeap_Less (rs_objs s)) (pos (rs_byDrop s) p) (rs_byDrop s)"
    by (simp_all add: replay_drop_def Let_def)
  then show ?thesis
    using assms mh.del_inv [OF h(1,2)] mh.del_elems [OF h(1,2)] mh.del_inv [OF h(3,4)]
      mh.del_elems [OF h(3,4)]
    by (simp add: heaps_ok_def drop_held_ptrs)
qed

lemma held_signedAt_bound:
  "keys_ok s \<Longrightarrow> p \<in> held_ptrs s \<Longrightarrow> \<bar>hk_signedAt (rs_objs s ! p)\<bar> \<le> 4611686018427387904"
  by (auto simp: held_ptrs_def keys_ok_def held_ok_def)

lemma drop_floors:
  assumes "keys_ok s" "p \<in> held_ptrs s"
  shows "rs_floor (replay_drop s p) = max (rs_floor s) (hk_signedAt (rs_objs s ! p) + 1)"
    "rs_storedSet (replay_drop s p)"
    "rs_storedFloor (replay_drop s p) =
       (if rs_storedSet s then max (rs_storedFloor s) (hk_signedAt (rs_objs s ! p) + 1)
        else hk_signedAt (rs_objs s ! p) + 1)"
  using wrap64_add(1) [OF held_signedAt_bound [OF assms], of 1]
  by (auto simp: replay_drop_def Let_def)

lemma drop_inv [inv_rules]:
  assumes "replay_inv s" "p \<in> held_ptrs s"
  shows "replay_inv (replay_drop s p)"
proof -
  from assms have k: "keys_ok s" and h: "heaps_ok s" by (auto simp: replay_inv_def)
  obtain k where k': "fmlookup (rs_keys s) k = Some p" using assms(2) by (auto simp: held_ptrs_def)
  then have "hk_key (rs_objs s ! p) = k" using k by (simp add: keys_ok_def)
  moreover have "keys_ok (replay_drop s p)"
    using k held_ok_cong [of "replay_drop s p" s] by (simp add: keys_ok_def)
  ultimately show ?thesis
    using assms drop_heaps_ok [OF k h assms(2)] drop_floors [OF k assms(2)] k'
    by (auto simp: replay_inv_def fmsize_drop [OF k'])
qed

lemma drop_size:
  assumes "keys_ok s" "p \<in> held_ptrs s"
  shows "Suc (fmsize (rs_keys (replay_drop s p))) = fmsize (rs_keys s)"
proof -
  obtain k where k: "fmlookup (rs_keys s) k = Some p" using assms(2) by (auto simp: held_ptrs_def)
  then have "hk_key (rs_objs s ! p) = k" using assms(1) by (simp add: keys_ok_def)
  then show ?thesis using fmsize_drop [OF k] fmsize_pos [OF k] by simp
qed

lemma held_ptr_key:
  "keys_ok s \<Longrightarrow> p \<in> held_ptrs s \<Longrightarrow> fmlookup (rs_keys s) (hk_key (rs_objs s ! p)) = Some p"
  by (auto simp: held_ptrs_def keys_ok_def)

lemma drop_covered:
  assumes "replay_inv s" "p \<in> held_ptrs s" "covered s e"
  shows "covered (replay_drop s p) e"
proof -
  from assms have k: "keys_ok s" by (auto simp: replay_inv_def)
  show ?thesis
    using assms(3) drop_floors [OF k assms(2)] held_ptr_key [OF k assms(2)]
    by (auto simp: covered_def)
qed

text \<open>The root of either heap is a held key.\<close>

lemma root_held:
  assumes "heaps_ok s"
  shows "arr (rs_byDrop s) \<noteq> [] \<Longrightarrow> arr (rs_byDrop s) ! 0 \<in> held_ptrs s"
    "arr (rs_bySign s) \<noteq> [] \<Longrightarrow> arr (rs_bySign s) ! 0 \<in> held_ptrs s"
  using assms mh.root_elem [of "rs_byDrop s"] mh.root_elem [of "rs_bySign s"]
  by (auto simp: heaps_ok_def)

section \<open>Pruning\<close>

text \<open>An induction rule for the loop: a relation between the state before and after that every
  drop of a due key extends holds of the whole loop.\<close>

lemma prune_induct [consumes 1, case_names stop drop]:
  assumes "replay_inv s"
    and stop: "\<And>s. replay_inv s \<Longrightarrow> arr (rs_byDrop s) = [] \<or> \<not> hk_dropAt (rs_objs s ! (arr (rs_byDrop s) ! 0)) \<le> t \<Longrightarrow> P s s"
    and drop: "\<And>s p s'. replay_inv s \<Longrightarrow> p \<in> held_ptrs s \<Longrightarrow> hk_dropAt (rs_objs s ! p) \<le> t \<Longrightarrow>
      P (replay_drop s p) s' \<Longrightarrow> P s s'"
  shows "P s (prune s t)"
  using assms(1)
proof (induction "length (arr (rs_byDrop s))" arbitrary: s rule: less_induct)
  case less
  let ?p = "arr (rs_byDrop s) ! 0"
  show ?case
  proof (cases "arr (rs_byDrop s) \<noteq> [] \<and> hk_dropAt (rs_objs s ! ?p) \<le> t")
    case True
    then have p: "?p \<in> held_ptrs s" using less.prems root_held(1) by (simp add: replay_inv_def)
    have "P (replay_drop s ?p) (prune (replay_drop s ?p) t)"
      using less True p drop_inv by simp
    then have "P s (prune (replay_drop s ?p) t)" using drop less.prems p True by blast
    then show ?thesis using True by (simp add: prune.simps [of s t])
  next
    case False
    then show ?thesis using stop [OF less.prems] by (auto simp: prune.simps [of s t])
  qed
qed

lemma prune_inv [inv_rules]: "replay_inv s \<Longrightarrow> replay_inv (prune s t)"
  by (induction rule: prune_induct) auto

lemma prune_covered: "replay_inv s \<Longrightarrow> covered s e \<longrightarrow> covered (prune s t) e"
  by (induction rule: prune_induct) (auto intro: drop_covered)

lemma prune_fields:
  "replay_inv s \<Longrightarrow> rs_skew (prune s t) = rs_skew s \<and> rs_ttl (prune s t) = rs_ttl s
     \<and> rs_stores (prune s t) = rs_stores s \<and> rs_maxKeys (prune s t) = rs_maxKeys s
     \<and> rs_objs (prune s t) = rs_objs s"
  by (induction rule: prune_induct) auto

lemma prune_keys:
  "replay_inv s \<Longrightarrow> fmlookup (rs_keys (prune s t)) k = Some p \<longrightarrow> fmlookup (rs_keys s) k = Some p"
  by (induction rule: prune_induct) (auto split: if_splits)

lemma prune_size: "replay_inv s \<Longrightarrow> fmsize (rs_keys (prune s t)) \<le> fmsize (rs_keys s)"
proof (induction rule: prune_induct)
  case (drop s p s')
  then show ?case using drop_size [of s p] by (simp add: replay_inv_def)
qed simp

lemma prune_done:
  "replay_inv s \<Longrightarrow> p \<in> held_ptrs (prune s t) \<longrightarrow> t < hk_dropAt (rs_objs (prune s t) ! p)"
proof (induction rule: prune_induct)
  case (stop s)
  then show ?case
    using mh.none_due [of "dropHeap_Less (rs_objs s)" "rs_byDrop s" t p]
    by (auto simp: replay_inv_def heaps_ok_def dropHeap_Less_def)
qed

text \<open>A key is dropped only once its envelope is stale, so the floor it raises stays below the
  stale bound.\<close>

lemma held_dropAt_stale:
  assumes "replay_inv s" "p \<in> held_ptrs s" "hk_dropAt (rs_objs s ! p) \<le> t"
  shows "hk_signedAt (rs_objs s ! p) + 1 \<le> t - rs_skew s"
proof -
  from assms have "held_ok s (rs_objs s ! p)" by (auto simp: replay_inv_def keys_ok_def held_ptrs_def)
  moreover have "\<bar>rs_skew s\<bar> \<le> 2305843009213693952"
    using assms(1) unfolding replay_inv_def clock_ok_def by blast
  ultimately show ?thesis
    using assms(3) wrap64_add(3) [of "hk_signedAt (rs_objs s ! p)" "rs_skew s"]
    by (auto simp: held_ok_def replay_dropAt_def Let_def split: if_splits)
qed

lemma prune_floor:
  "replay_inv s \<Longrightarrow> rs_floor s \<le> rs_floor (prune s t)
     \<and> rs_floor (prune s t) \<le> max (rs_floor s) (t - rs_skew s)"
proof (induction rule: prune_induct)
  case (drop s p s')
  then have "keys_ok s" by (simp add: replay_inv_def)
  from drop_floors(1) [OF this drop.hyps(2)] drop held_dropAt_stale [OF drop.hyps(1-3)]
  show ?case by auto
qed simp

section \<open>Recording\<close>

lemma evict_cases:
  assumes "replay_inv s" "0 < fmsize (rs_keys s)"
  obtains p where "p \<in> held_ptrs s" "evict s = replay_drop s p"
    "\<And>q. q \<in> held_ptrs s \<Longrightarrow> hk_signedAt (rs_objs s ! p) \<le> hk_signedAt (rs_objs s ! q)"
proof -
  have "rs_keys s \<noteq> fmempty" using assms(2) by auto
  then obtain k p where "fmlookup (rs_keys s) k = Some p" by (metis fmap_ext fmempty_lookup option.exhaust)
  then have "held_ptrs s \<noteq> {}" by (auto simp: held_ptrs_def)
  moreover have h: "heaps_ok s" using assms(1) by (simp add: replay_inv_def)
  ultimately have ne: "arr (rs_bySign s) \<noteq> []" by (auto simp: heaps_ok_def)
  show ?thesis
  proof (rule that)
    show "arr (rs_bySign s) ! 0 \<in> held_ptrs s" using root_held(2) [OF h ne] .
    show "evict s = replay_drop s (arr (rs_bySign s) ! 0)" using ne by (simp add: evict_def)
    show "hk_signedAt (rs_objs s ! (arr (rs_bySign s) ! 0)) \<le> hk_signedAt (rs_objs s ! q)"
      if "q \<in> held_ptrs s" for q
      using h that mh.root_least [of "signHeap_Less (rs_objs s)" "rs_bySign s" q]
      by (simp add: heaps_ok_def signHeap_Less_def)
  qed
qed

text \<open>The state \<open>record\<close> adds the key to: one key fewer when the receiver was full.\<close>

definition make_room :: "replayState \<Rightarrow> replayState" where
  "make_room s = (if rs_maxKeys s > 0 \<and> int (fmsize (rs_keys s)) \<ge> rs_maxKeys s then evict s else s)"

definition add_key :: "replayState \<Rightarrow> heldKey \<Rightarrow> replayState" where
  "add_key s held =
     (let p = length (rs_objs s); objs = rs_objs s @ [held]
      in s\<lparr>rs_objs := objs, rs_keys := fmupd (hk_key held) p (rs_keys s),
           rs_bySign := heap_Push (signHeap_Less objs) p (rs_bySign s),
           rs_byDrop := heap_Push (dropHeap_Less objs) p (rs_byDrop s)\<rparr>)"

definition new_held :: "replayState \<Rightarrow> string \<Rightarrow> int \<Rightarrow> int \<Rightarrow> heldKey" where
  "new_held s key signedAt receivedAt =
     (let held0 = \<lparr>hk_key = key, hk_signedAt = signedAt, hk_receivedAt = receivedAt, hk_dropAt = 0\<rparr>
      in held0\<lparr>hk_dropAt := replay_dropAt s held0\<rparr>)"

lemma record_key_alt:
  "record_key s key signedAt receivedAt =
     add_key (make_room s) (new_held (make_room s) key signedAt receivedAt)"
  by (simp add: record_key_def make_room_def add_key_def new_held_def Let_def)

lemma new_held_fields [simp]:
  "hk_key (new_held s key sg t) = key" "hk_signedAt (new_held s key sg t) = sg"
  "hk_receivedAt (new_held s key sg t) = t"
  by (simp_all add: new_held_def Let_def)

lemma new_held_ok: "\<bar>sg\<bar> \<le> 4611686018427387904 \<Longrightarrow> clock_ok t \<Longrightarrow> held_ok s (new_held s key sg t)"
  by (simp add: held_ok_def new_held_def replay_dropAt_def Let_def)

lemma make_room_cases:
  assumes "replay_inv s"
  obtains "make_room s = s" "0 < rs_maxKeys s \<longrightarrow> int (fmsize (rs_keys s)) < rs_maxKeys s"
  | p where "p \<in> held_ptrs s" "make_room s = replay_drop s p" "int (fmsize (rs_keys s)) = rs_maxKeys s"
      "\<And>q. q \<in> held_ptrs s \<Longrightarrow> hk_signedAt (rs_objs s ! p) \<le> hk_signedAt (rs_objs s ! q)"
proof (cases "rs_maxKeys s > 0 \<and> int (fmsize (rs_keys s)) \<ge> rs_maxKeys s")
  case True
  then have "0 < fmsize (rs_keys s)" by linarith
  from evict_cases [OF assms this] obtain p where p: "p \<in> held_ptrs s" "evict s = replay_drop s p"
    "\<And>q. q \<in> held_ptrs s \<Longrightarrow> hk_signedAt (rs_objs s ! p) \<le> hk_signedAt (rs_objs s ! q)" by blast
  moreover have "make_room s = evict s" using True by (simp add: make_room_def)
  moreover have "int (fmsize (rs_keys s)) = rs_maxKeys s" using True assms by (auto simp: replay_inv_def)
  ultimately show ?thesis using that(2) by metis
next
  case False
  then show ?thesis using that(1) by (auto simp: make_room_def)
qed

lemma make_room_inv:
  assumes "replay_inv s"
  shows "replay_inv (make_room s)"
    "0 < rs_maxKeys s \<longrightarrow> int (fmsize (rs_keys (make_room s))) < rs_maxKeys s"
    "rs_maxKeys (make_room s) = rs_maxKeys s"
    "fmlookup (rs_keys s) k = None \<Longrightarrow> fmlookup (rs_keys (make_room s)) k = None"
    "covered s e \<Longrightarrow> covered (make_room s) e"
proof -
  have k: "keys_ok s" using assms by (simp add: replay_inv_def)
  have "replay_inv (make_room s) \<and> (0 < rs_maxKeys s \<longrightarrow> int (fmsize (rs_keys (make_room s))) < rs_maxKeys s)
    \<and> rs_maxKeys (make_room s) = rs_maxKeys s
    \<and> (fmlookup (rs_keys s) k = None \<longrightarrow> fmlookup (rs_keys (make_room s)) k = None)
    \<and> (covered s e \<longrightarrow> covered (make_room s) e)"
  proof (cases rule: make_room_cases [OF assms])
    case 1
    then show ?thesis using assms by simp
  next
    case (2 p)
    then show ?thesis
      using drop_inv [OF assms 2(1)] drop_covered [OF assms 2(1), of e] drop_size [OF k 2(1)] by auto
  qed
  then show "replay_inv (make_room s)"
    "0 < rs_maxKeys s \<longrightarrow> int (fmsize (rs_keys (make_room s))) < rs_maxKeys s"
    "rs_maxKeys (make_room s) = rs_maxKeys s"
    "fmlookup (rs_keys s) k = None \<Longrightarrow> fmlookup (rs_keys (make_room s)) k = None"
    "covered s e \<Longrightarrow> covered (make_room s) e" by blast+
qed

lemma add_key_fields [simp]:
  "rs_objs (add_key s held) = rs_objs s @ [held]" "rs_skew (add_key s held) = rs_skew s"
  "rs_ttl (add_key s held) = rs_ttl s" "rs_maxKeys (add_key s held) = rs_maxKeys s"
  "rs_stores (add_key s held) = rs_stores s" "rs_floor (add_key s held) = rs_floor s"
  "rs_storedFloor (add_key s held) = rs_storedFloor s" "rs_storedSet (add_key s held) = rs_storedSet s"
  "rs_keys (add_key s held) = fmupd (hk_key held) (length (rs_objs s)) (rs_keys s)"
  by (simp_all add: add_key_def Let_def)

lemma add_key_ptrs:
  assumes "keys_ok s" "fmlookup (rs_keys s) (hk_key held) = None"
  shows "held_ptrs (add_key s held) = insert (length (rs_objs s)) (held_ptrs s)"
proof (rule set_eqI)
  fix p
  show "p \<in> held_ptrs (add_key s held) \<longleftrightarrow> p \<in> insert (length (rs_objs s)) (held_ptrs s)"
    using assms(2) by (auto simp: held_ptrs_def) (metis option.distinct(1))
qed

lemma add_key_inv:
  assumes inv: "replay_inv s" and new: "fmlookup (rs_keys s) (hk_key held) = None"
    and ok: "held_ok s held" and room: "0 < rs_maxKeys s \<longrightarrow> int (fmsize (rs_keys s)) < rs_maxKeys s"
  shows "replay_inv (add_key s held)"
proof -
  let ?p = "length (rs_objs s)" let ?objs = "rs_objs s @ [held]"
  have k: "keys_ok s" and h: "heaps_ok s" using inv by (auto simp: replay_inv_def)
  have lt: "q < ?p" if "q \<in> held_ptrs s" for q
    using k that by (auto simp: keys_ok_def held_ptrs_def)
  then have same: "\<And>q. q \<in> held_ptrs s \<Longrightarrow> signHeap_Less (rs_objs s) q = signHeap_Less ?objs q"
    "\<And>q. q \<in> held_ptrs s \<Longrightarrow> dropHeap_Less (rs_objs s) q = dropHeap_Less ?objs q"
    by (simp_all add: signHeap_Less_def dropHeap_Less_def nth_append)
  have "?p \<notin> held_ptrs s" using lt by blast
  then have "heaps_ok (add_key s held)"
    using h same add_key_ptrs [OF k new]
      mh.push_cong_inv [of "signHeap_Less (rs_objs s)" "rs_bySign s" "signHeap_Less ?objs" ?p]
      mh.push_cong_inv [of "dropHeap_Less (rs_objs s)" "rs_byDrop s" "dropHeap_Less ?objs" ?p]
    by (simp add: heaps_ok_def) (simp add: add_key_def Let_def)
  moreover have "keys_ok (add_key s held)"
    using k ok held_ok_cong [of "add_key s held" s]
    by (auto simp: keys_ok_def nth_append less_Suc_eq)
  ultimately show ?thesis
    using inv room new by (auto simp: replay_inv_def fmsize_upd)
qed

lemma record_inv [inv_rules]:
  assumes "replay_inv s" "fmlookup (rs_keys s) key = None" "\<bar>signedAt\<bar> \<le> 4611686018427387904" "clock_ok t"
  shows "replay_inv (record_key s key signedAt t)"
  using assms make_room_inv(1-4) [OF assms(1)] unfolding record_key_alt
  by (intro add_key_inv) (simp_all add: new_held_ok)

lemma add_key_covered:
  assumes "replay_inv s" "covered s e" "fmlookup (rs_keys s) (hk_key held) = None"
  shows "covered (add_key s held) e"
  using assms by (auto simp: covered_def nth_append replay_inv_def keys_ok_def)

lemma record_covered:
  assumes "replay_inv s" "covered s e" "fmlookup (rs_keys s) key = None"
  shows "covered (record_key s key signedAt t) e"
  unfolding record_key_alt using assms make_room_inv [OF assms(1)]
  by (intro add_key_covered) simp_all

lemma record_covers: "covered (record_key s (replayKey e) (ev_signedAt e) t) e"
  by (simp add: record_key_alt covered_def)

section \<open>Restart and rotation\<close>

lemma refresh_length [simp]: "length (refresh_dropAt s) = length (rs_objs s)"
  by (simp add: refresh_dropAt_def)

lemma refresh_nth:
  "p < length (rs_objs s) \<Longrightarrow> hk_key (refresh_dropAt s ! p) = hk_key (rs_objs s ! p)
     \<and> hk_signedAt (refresh_dropAt s ! p) = hk_signedAt (rs_objs s ! p)
     \<and> hk_receivedAt (refresh_dropAt s ! p) = hk_receivedAt (rs_objs s ! p)"
  by (simp add: refresh_dropAt_def Let_def)


lemma refresh_held:
  "fmlookup (rs_keys s) (hk_key (rs_objs s ! p)) = Some p \<Longrightarrow> p < length (rs_objs s) \<Longrightarrow>
   hk_dropAt (refresh_dropAt s ! p) = replay_dropAt s (refresh_dropAt s ! p)"
  by (simp add: refresh_dropAt_def Let_def replay_dropAt_def)

text \<open>The state of \<open>restart\<close> once the store is settled, with what the new skew changes.\<close>

definition reinit :: "replayState \<Rightarrow> int \<Rightarrow> replayState" where
  "reinit s t = s\<lparr>rs_objs := refresh_dropAt s,
     rs_byDrop := heap_Init (dropHeap_Less (refresh_dropAt s)) (rs_byDrop s),
     rs_floor := (if rs_storedSet s then max t (rs_storedFloor s) else t)\<rparr>"

lemma restart_alt:
  "restart s t skew =
     reinit (if rs_stores s then s\<lparr>rs_skew := skew\<rparr> else clear_keys (s\<lparr>rs_skew := skew\<rparr>)) t"
  by (simp add: restart_def reinit_def Let_def clear_keys_def)

lemma reinit_fields [simp]:
  "rs_objs (reinit s t) = refresh_dropAt s" "rs_keys (reinit s t) = rs_keys s"
  "rs_skew (reinit s t) = rs_skew s" "rs_ttl (reinit s t) = rs_ttl s"
  "rs_maxKeys (reinit s t) = rs_maxKeys s" "rs_storedSet (reinit s t) = rs_storedSet s"
  "rs_storedFloor (reinit s t) = rs_storedFloor s" "rs_bySign (reinit s t) = rs_bySign s"
  "held_ptrs (reinit s t) = held_ptrs s" "rs_stores (reinit s t) = rs_stores s"
  by (simp_all add: reinit_def held_ptrs_def)

lemma reinit_inv:
  assumes inv: "replay_inv s" and "0 \<le> skew" "clock_ok skew"
  shows "replay_inv (reinit (s\<lparr>rs_skew := skew\<rparr>) t)"
proof -
  let ?s = "s\<lparr>rs_skew := skew\<rparr>"
  have h: "heaps_ok s" and k: "keys_ok s" using inv by (auto simp: replay_inv_def)
  have ko: "fmlookup (rs_keys s) key = Some p \<Longrightarrow> p < length (rs_objs s) \<and> hk_key (rs_objs s ! p) = key
     \<and> held_ok (reinit ?s t) (refresh_dropAt ?s ! p)" for key p
    using k refresh_nth [of p ?s] refresh_held [of ?s p] replay_dropAt_cong [of "reinit ?s t" ?s]
    by (auto simp: keys_ok_def held_ok_def)
  then have "keys_ok (reinit ?s t)"
    using refresh_nth [of _ ?s] by (simp add: keys_ok_def)
  moreover have "heap_ok (signHeap_Less (refresh_dropAt ?s)) (rs_bySign s)"
  proof (rule mh.inv_cong)
    show "heap_ok (signHeap_Less (rs_objs s)) (rs_bySign s)" using h by (simp add: heaps_ok_def)
    show "signHeap_Less (rs_objs s) p = signHeap_Less (refresh_dropAt ?s) p"
      if "p \<in> set (arr (rs_bySign s))" for p
      using that h ko refresh_nth [of p ?s] by (auto simp: heaps_ok_def held_ptrs_def signHeap_Less_def)
  qed
  moreover have "heap_wf (rs_byDrop s)" using h by (simp add: heaps_ok_def heap_ok_def)
  from heap_Init_ok [OF this] have "heap_ok (dropHeap_Less (refresh_dropAt ?s)) (rs_byDrop (reinit ?s t))"
    "set (arr (rs_byDrop (reinit ?s t))) = set (arr (rs_byDrop s))"
    by (simp_all add: reinit_def)
  moreover have "held_ptrs ?s = held_ptrs s" by (simp add: held_ptrs_def)
  ultimately show ?thesis
    using inv h assms(2,3) by (simp add: replay_inv_def heaps_ok_def) (simp add: reinit_def)
qed

lemma clear_keys_inv: "replay_inv s \<Longrightarrow> replay_inv (clear_keys s)"
  by (simp add: replay_inv_def clear_keys_def keys_ok_def heaps_ok_def held_ptrs_def heap_empty_ok)

lemma replay_inv_floor: "replay_inv s \<Longrightarrow> \<not> rs_storedSet s \<Longrightarrow> replay_inv (s\<lparr>rs_floor := t\<rparr>)"
  using held_ok_cong [of "s\<lparr>rs_floor := t\<rparr>" s]
  by (simp add: replay_inv_def keys_ok_def heaps_ok_def held_ptrs_def)

lemma restart_inv [inv_rules]:
  assumes "replay_inv s" "0 \<le> skew" "clock_ok skew"
  shows "replay_inv (restart s t skew)"
proof -
  have "clear_keys (s\<lparr>rs_skew := skew\<rparr>) = (clear_keys s)\<lparr>rs_skew := skew\<rparr>" by (simp add: clear_keys_def)
  then show ?thesis using reinit_inv [OF assms] reinit_inv [OF clear_keys_inv [OF assms(1)] assms(2,3)]
    by (simp add: restart_alt)
qed

lemma rotate_inv [inv_rules]: "replay_inv s \<Longrightarrow> replay_inv (rotate s keepsPrevious t)"
  using replay_inv_floor [of "clear_keys s" t]
  by (simp add: rotate_def clear_keys_inv) (simp add: clear_keys_def)

lemma restart_covered:
  assumes "replay_inv s" "rs_stores s" "covered s e"
  shows "covered (restart s t skew) e"
  using assms refresh_nth [of _ "s\<lparr>rs_skew := skew\<rparr>"]
  by (auto simp: restart_alt covered_def replay_inv_def keys_ok_def)

section \<open>Verification\<close>

lemma replayKey_inject: "replayKey e = replayKey e' \<longleftrightarrow> e = e'"
proof
  assume "replayKey e = replayKey e'"
  then have "netstring (ev_messageType e) @ netstring (ev_deviceID e) @ netstring (ev_requestID e)
      @ netstring (itoa (ev_signedAt e)) @ netstring (ev_signature e) @ []
    = netstring (ev_messageType e') @ netstring (ev_deviceID e') @ netstring (ev_requestID e')
      @ netstring (itoa (ev_signedAt e')) @ netstring (ev_signature e') @ []"
    by (simp add: replayKey_def)
  then show "e = e'" by (simp add: netstring_append_eq netstring_eq)
qed simp

text \<open>An accepted envelope is within the skew of the clock, and no sum of the check wraps.\<close>

lemma check_None:
  assumes "replay_inv s" "clock_ok t"
  shows "check s key signedAt t = None \<longleftrightarrow>
    t - rs_skew s \<le> signedAt \<and> signedAt \<le> t + rs_skew s \<and> rs_floor s \<le> signedAt
    \<and> fmlookup (rs_keys s) key = None"
proof -
  have "\<bar>t\<bar> \<le> 4611686018427387904" "\<bar>rs_skew s\<bar> \<le> 2305843009213693953"
    using assms by (auto simp: replay_inv_def clock_ok_def)
  note w = wrap64_add(1,2) [OF this]
  show ?thesis by (auto simp: check_def recheck_def w)
qed


text \<open>One verification, in terms of the check it makes on the pruned state.\<close>

lemma cfr_refused:
  "check (prune s t) (replayKey e) (ev_signedAt e) t = Some r \<Longrightarrow>
   checkFreshAndRecord s e t decide =
     (prune s t, floorAheadWarning (prune s t) r t, Some (Refused r))"
  by (simp add: checkFreshAndRecord_def Let_def)

lemma cfr_accepted:
  assumes "check (prune s t) (replayKey e) (ev_signedAt e) t = None"
  shows "checkFreshAndRecord s e t decide =
     (if applied decide then record_key (prune s t) (replayKey e) (ev_signedAt e) t else prune s t,
      None, map_option DecideErr (Option.bind decide snd))"
proof -
  have "recheck (prune s t) (replayKey e) (ev_signedAt e) = None"
    using assms by (simp add: check_def split: if_splits)
  then show ?thesis using assms
    by (cases decide) (auto simp: checkFreshAndRecord_def Let_def applied_def)
qed

lemma refused_DecideErr [simp]: "\<not> refused (map_option DecideErr err)"
  by (cases err) simp_all

lemma covered_refused:
  assumes "replay_inv s" "covered s e"
  shows "check s (replayKey e) (ev_signedAt e) t \<noteq> None"
  using assms by (auto simp: check_def recheck_def covered_def replay_inv_def)

lemma accepted_bound:
  assumes "replay_inv s" "clock_ok t" "check s key sg t = None"
  shows "\<bar>sg\<bar> \<le> 4611686018427387904" "fmlookup (rs_keys s) key = None"
  using assms check_None [OF assms(1,2), of key sg] by (auto simp: clock_ok_def replay_inv_def)

text \<open>The events the guarantee covers: every clock reading and skew is one for which no sum
  wraps, a restart is of a receiver that stores its state, and a rotation keeps the previous
  secret.\<close>

fun event_ok :: "bool \<Rightarrow> 'e replayEvent \<Rightarrow> bool" where
  "event_ok stores (Verify e t decide) = clock_ok t"
| "event_ok stores (Restart t skew) = (stores \<and> 0 \<le> skew \<and> clock_ok skew)"
| "event_ok stores (Rotate keepsPrevious t) = keepsPrevious"

lemma record_stores: "rs_stores (record_key s key sg t) = rs_stores s"
  by (simp add: record_key_alt make_room_def evict_def)

lemma cfr_sound:
  assumes inv: "replay_inv s" and t: "clock_ok t"
    and eq: "checkFreshAndRecord s e t decide = (s', w, err)"
  shows "replay_inv s'" "\<And>e'. covered s e' \<Longrightarrow> covered s' e'"
    "applied decide \<Longrightarrow> \<not> refused err \<Longrightarrow> \<not> covered s e \<and> covered s' e"
    "rs_stores s' = rs_stores s"
proof -
  let ?s = "prune s t"
  have p: "replay_inv ?s" and c: "\<And>e'. covered s e' \<Longrightarrow> covered ?s e'" and st: "rs_stores ?s = rs_stores s"
    using inv prune_inv prune_covered prune_fields by blast+
  have "replay_inv s' \<and> (\<forall>e'. covered s e' \<longrightarrow> covered s' e') \<and> rs_stores s' = rs_stores s
    \<and> (applied decide \<and> \<not> refused err \<longrightarrow> \<not> covered s e \<and> covered s' e)"
  proof (cases "check ?s (replayKey e) (ev_signedAt e) t")
    case (Some r)
    then have "s' = ?s" "err = Some (Refused r)" using eq by (simp_all add: cfr_refused)
    then show ?thesis using p c st by simp
  next
    case None
    then have s': "s' = (if applied decide then record_key ?s (replayKey e) (ev_signedAt e) t else ?s)"
      using eq by (simp add: cfr_accepted)
    note b = accepted_bound [OF p t None]
    have "\<not> covered s e" using None covered_refused [OF p] c by blast
    then show ?thesis using s' p c record_inv [OF p b(2,1) t] record_covered [OF p c b(2)]
        record_covers st by (simp add: record_stores)
  qed
  then show "replay_inv s'" "\<And>e'. covered s e' \<Longrightarrow> covered s' e'"
    "applied decide \<Longrightarrow> \<not> refused err \<Longrightarrow> \<not> covered s e \<and> covered s' e"
    "rs_stores s' = rs_stores s" by blast+
qed

lemma replay_step_sound:
  assumes inv: "replay_inv s" and ok: "event_ok (rs_stores s) ev" and eq: "replay_step s ev = (s', a)"
  shows "replay_inv s' \<and> (\<forall>e. covered s e \<longrightarrow> covered s' e)
    \<and> (\<forall>e. a = Some e \<longrightarrow> \<not> covered s e \<and> covered s' e) \<and> rs_stores s' = rs_stores s"
proof (cases ev)
  case (Verify e t decide)
  obtain s1 w err where c: "checkFreshAndRecord s e t decide = (s1, w, err)" by (metis prod_cases3)
  with Verify eq have "s' = s1" "a = (if applied decide \<and> \<not> refused err then Some e else None)"
    by simp_all
  moreover have "clock_ok t" using ok Verify by simp
  ultimately show ?thesis using cfr_sound [OF inv _ c] by auto
next
  case (Restart t skew)
  moreover have "rs_stores (restart s t skew) = rs_stores s" by (simp add: restart_alt clear_keys_def)
  ultimately show ?thesis using assms restart_inv [OF inv] restart_covered [OF inv] by auto
next
  case (Rotate keepsPrevious t)
  then show ?thesis using assms by (auto simp: rotate_def)
qed

lemma replay_run_sound:
  assumes "replay_inv s" "\<forall>ev \<in> set evs. event_ok (rs_stores s) ev" "replay_run s evs = (s', as)"
  shows "replay_inv s' \<and> distinct as \<and> (\<forall>e \<in> set as. \<not> covered s e \<and> covered s' e)
    \<and> (\<forall>e. covered s e \<longrightarrow> covered s' e)"
  using assms
proof (induction evs arbitrary: s s' as)
  case (Cons ev evs)
  obtain s1 a where 1: "replay_step s ev = (s1, a)" by fastforce
  obtain s2 as2 where 2: "replay_run s1 evs = (s2, as2)" by fastforce
  have ok: "event_ok (rs_stores s) ev" using Cons.prems by simp
  note step = replay_step_sound [OF Cons.prems(1) ok 1]
  have IH: "replay_inv s2 \<and> distinct as2 \<and> (\<forall>e \<in> set as2. \<not> covered s1 e \<and> covered s2 e)
    \<and> (\<forall>e. covered s1 e \<longrightarrow> covered s2 e)"
    using Cons.IH [OF _ _ 2] Cons.prems(2) step by simp
  then show ?case using Cons.prems(3) 1 2 step
    by (cases a) auto
qed simp

section \<open>A receiver with room refuses no fresh envelope\<close>

text \<open>Verifications only, no restart or rotation between them.\<close>

type_synonym 'e verification = "envelope \<times> int \<times> (bool \<times> 'e option) option"

fun as_event :: "'e verification \<Rightarrow> 'e replayEvent" where
  "as_event (e, t, decide) = Verify e t decide"

definition clock_of :: "'e verification \<Rightarrow> int" where
  "clock_of v = fst (snd v)"

text \<open>What is true of a receiver that has never had to evict: the floor is the start clock or
  below the stale bound, and every key it holds is of an envelope it accepted.\<close>

definition roomy :: "replayState \<Rightarrow> int \<Rightarrow> int \<Rightarrow> envelope set \<Rightarrow> bool" where
  "roomy s start t A \<longleftrightarrow> replay_inv s \<and> rs_floor s \<le> max start (t - rs_skew s)
     \<and> (\<forall>k. fmlookup (rs_keys s) k \<noteq> None \<longrightarrow> k \<in> replayKey ` A)"

lemma roomy_prune: "roomy s start t A \<Longrightarrow> t \<le> t' \<Longrightarrow> roomy (prune s t') start t' A"
  using prune_floor [of s t'] prune_fields [of s t'] prune_keys [of s t'] prune_inv [of s t']
  unfolding roomy_def by (smt (verit) not_None_eq)

lemma roomy_record:
  assumes "roomy s start t A" "clock_ok t" "check s (replayKey e) (ev_signedAt e) t = None"
    "0 < rs_maxKeys s \<longrightarrow> int (fmsize (rs_keys s)) < rs_maxKeys s"
  shows "roomy (record_key s (replayKey e) (ev_signedAt e) t) start t (insert e A)"
    "fmsize (rs_keys (record_key s (replayKey e) (ev_signedAt e) t)) = Suc (fmsize (rs_keys s))"
    "rs_skew (record_key s (replayKey e) (ev_signedAt e) t) = rs_skew s"
    "rs_maxKeys (record_key s (replayKey e) (ev_signedAt e) t) = rs_maxKeys s"
proof -
  have inv: "replay_inv s" using assms(1) by (simp add: roomy_def)
  note b = accepted_bound [OF inv assms(2,3)]
  have room: "make_room s = s" using assms(4) by (auto simp: make_room_def)
  show "roomy (record_key s (replayKey e) (ev_signedAt e) t) start t (insert e A)"
    using record_inv [OF inv b(2,1) assms(2)] assms(1) by (auto simp: roomy_def record_key_alt room)
  show "fmsize (rs_keys (record_key s (replayKey e) (ev_signedAt e) t)) = Suc (fmsize (rs_keys s))"
    "rs_skew (record_key s (replayKey e) (ev_signedAt e) t) = rs_skew s"
    "rs_maxKeys (record_key s (replayKey e) (ev_signedAt e) t) = rs_maxKeys s"
    using b by (simp_all add: record_key_alt room fmsize_upd)
qed

lemma roomy_mono: "roomy s start t A \<Longrightarrow> A \<subseteq> B \<Longrightarrow> roomy s start t B"
  unfolding roomy_def by blast

lemma roomy_step:
  assumes "roomy s start t A" "t \<le> t'" "clock_ok t'"
    "0 < rs_maxKeys s \<longrightarrow> int (fmsize (rs_keys s)) < rs_maxKeys s"
    and eq: "replay_step s (Verify e t' decide) = (s', a)"
  shows "roomy s' start t' (A \<union> set_option a) \<and> fmsize (rs_keys s') \<le> Suc (fmsize (rs_keys s))
    \<and> rs_skew s' = rs_skew s \<and> rs_maxKeys s' = rs_maxKeys s"
proof -
  let ?s = "prune s t'"
  have inv: "replay_inv s" using assms(1) by (simp add: roomy_def)
  have r: "roomy ?s start t' A" using roomy_prune assms(1,2) by blast
  have f: "rs_skew ?s = rs_skew s" "rs_maxKeys ?s = rs_maxKeys s" "fmsize (rs_keys ?s) \<le> fmsize (rs_keys s)"
    using prune_fields [OF inv] prune_size [OF inv] by auto
  show ?thesis
  proof (cases "check ?s (replayKey e) (ev_signedAt e) t'")
    case (Some x)
    then show ?thesis using eq r f by (auto simp: cfr_refused intro: roomy_mono)
  next
    case None
    have room: "0 < rs_maxKeys ?s \<longrightarrow> int (fmsize (rs_keys ?s)) < rs_maxKeys ?s" using assms(4) f by auto
    note rec = roomy_record [OF r assms(3) None room]
    from None eq have "s' = (if applied decide then record_key ?s (replayKey e) (ev_signedAt e) t' else ?s)"
      "a = (if applied decide then Some e else None)" by (auto simp: cfr_accepted)
    then show ?thesis using rec r f by (auto intro: roomy_mono)
  qed
qed

lemma roomy_run:
  assumes "roomy s start t A" "sorted (t # map clock_of vs)" "\<forall>v \<in> set vs. clock_ok (clock_of v)"
    "0 < rs_maxKeys s \<longrightarrow> int (fmsize (rs_keys s) + length vs) \<le> rs_maxKeys s"
    "replay_run s (map as_event vs) = (s', as)"
  shows "roomy s' start (last (t # map clock_of vs)) (A \<union> set as)
    \<and> fmsize (rs_keys s') \<le> fmsize (rs_keys s) + length vs
    \<and> rs_skew s' = rs_skew s \<and> rs_maxKeys s' = rs_maxKeys s"
  using assms
proof (induction vs arbitrary: s t A s' as)
  case (Cons v vs)
  obtain e t' decide where v: "v = (e, t', decide)" using prod_cases3 by blast
  then have c: "clock_of v = t'" by (simp add: clock_of_def)
  obtain s1 a where 1: "replay_step s (Verify e t' decide) = (s1, a)" by fastforce
  obtain s2 as2 where 2: "replay_run s1 (map as_event vs) = (s2, as2)" by fastforce
  have step: "roomy s1 start t' (A \<union> set_option a) \<and> fmsize (rs_keys s1) \<le> Suc (fmsize (rs_keys s))
    \<and> rs_skew s1 = rs_skew s \<and> rs_maxKeys s1 = rs_maxKeys s"
    using Cons.prems c by (intro roomy_step [OF _ _ _ _ 1]) auto
  have IH: "roomy s2 start (last (t' # map clock_of vs)) ((A \<union> set_option a) \<union> set as2)
    \<and> fmsize (rs_keys s2) \<le> fmsize (rs_keys s1) + length vs
    \<and> rs_skew s2 = rs_skew s1 \<and> rs_maxKeys s2 = rs_maxKeys s1"
  proof (rule Cons.IH [OF _ _ _ _ 2])
    show "0 < rs_maxKeys s1 \<longrightarrow> int (fmsize (rs_keys s1) + length vs) \<le> rs_maxKeys s1"
      using step Cons.prems(4) by auto
  qed (use step Cons.prems c in simp_all)
  have "s' = s2" "set as = set_option a \<union> set as2"
    using Cons.prems(5) 1 2 v by (auto split: option.splits)
  then show ?case using IH step c by (simp add: Un_assoc)
qed (auto simp: roomy_def)

text \<open>A concrete run, for the witnesses: a heartbeat, its replay, and a later heartbeat.\<close>

definition sample_env :: envelope where
  "sample_env = \<lparr>ev_messageType = ''heartbeat'', ev_deviceID = ''edge-1'', ev_requestID = [],
     ev_signedAt = 1000, ev_signature = ''hmac-sha256:00''\<rparr>"

definition sample_events :: "string replayEvent list" where
  "sample_events = [Verify sample_env 1001 None, Verify sample_env 1002 None,
     Verify (sample_env\<lparr>ev_signedAt := 1001\<rparr>) 1003 (Some (True, None))]"

section \<open>Properties\<close>

text \<open>C6. An envelope is accepted at most once: whatever the order of verifications, restarts of a
  storing receiver and rotations that keep the previous secret, and however the clock steps between
  them, the envelopes accepted and recorded from a new receiver on are pairwise different.\<close>

theorem replay_accepted_at_most_once:
  assumes "0 \<le> skew" "clock_ok skew" "0 \<le> ttl" "clock_ok ttl"
    and "\<forall>ev \<in> set evs. event_ok stores ev"
  shows "distinct (snd (replay_run (newReplayState skew ttl stores maxKeys start) evs))"
proof -
  let ?s0 = "newReplayState skew ttl stores maxKeys start"
  have "\<forall>ev \<in> set evs. event_ok (rs_stores ?s0) ev" using assms(5) by (simp add: newReplayState_def)
  from replay_run_sound [OF new_replay_inv [OF assms(1-4)] this prod.collapse [symmetric]]
  show ?thesis by blast
qed

theorem replay_accepted_at_most_once_witness:
  "distinct (snd (replay_run (newReplayState 300000 300000 False 2 1000) sample_events))
   \<and> map ev_signedAt (snd (replay_run (newReplayState 300000 300000 False 2 1000) sample_events)) = [1000, 1001]"
proof
  show "distinct (snd (replay_run (newReplayState 300000 300000 False 2 1000) sample_events))"
    by (rule replay_accepted_at_most_once) (simp_all add: clock_ok_def sample_events_def)
  show "map ev_signedAt (snd (replay_run (newReplayState 300000 300000 False 2 1000) sample_events)) = [1000, 1001]"
    by code_simp
qed



end
