(* ===== verification/Go_Unicode.thy ===== *)
theory Go_Unicode
  imports Go_Strconv
begin

text \<open>
  UTF-8 and white space as \<open>unicode/utf8\<close>, \<open>unicode\<close> and \<open>strings\<close> define them. A byte that starts no
  valid encoding decodes to \<open>RuneError\<close> with size one.
\<close>

section \<open>Decoding\<close>

definition RuneError :: int where
  "RuneError = 65533"

definition cont :: "int \<Rightarrow> bool" where
  "cont b \<longleftrightarrow> 128 \<le> b \<and> b \<le> 191"

text \<open>The range the second byte may have after a given first byte, and how many bytes follow it.\<close>

definition second_range :: "int \<Rightarrow> (int \<times> int \<times> nat) option" where
  "second_range b =
     (if 194 \<le> b \<and> b \<le> 223 then Some (128, 191, 0)
      else if b = 224 then Some (160, 191, 1)
      else if b = 237 then Some (128, 159, 1)
      else if 225 \<le> b \<and> b \<le> 239 then Some (128, 191, 1)
      else if b = 240 then Some (144, 191, 2)
      else if 241 \<le> b \<and> b \<le> 243 then Some (128, 191, 2)
      else if b = 244 then Some (128, 143, 2)
      else None)"

definition decodeRune :: "string \<Rightarrow> int \<times> nat" where
  "decodeRune s =
     (case s of [] \<Rightarrow> (RuneError, 0)
      | c0 # s1 \<Rightarrow>
          if byte c0 < 128 then (byte c0, 1)
          else (case second_range (byte c0) of
                  None \<Rightarrow> (RuneError, 1)
                | Some (lo, hi, more) \<Rightarrow>
                    (case s1 of [] \<Rightarrow> (RuneError, 1)
                     | c1 # s2 \<Rightarrow>
                         if \<not> (lo \<le> byte c1 \<and> byte c1 \<le> hi) then (RuneError, 1)
                         else if more = 0 then ((byte c0 - 192) * 64 + (byte c1 - 128), 2)
                         else (case s2 of [] \<Rightarrow> (RuneError, 1)
                               | c2 # s3 \<Rightarrow>
                                   if \<not> cont (byte c2) then (RuneError, 1)
                                   else if more = 1
                                   then ((byte c0 - 224) * 4096 + (byte c1 - 128) * 64 + (byte c2 - 128), 3)
                                   else (case s3 of [] \<Rightarrow> (RuneError, 1)
                                         | c3 # _ \<Rightarrow>
                                             if \<not> cont (byte c3) then (RuneError, 1)
                                             else ((byte c0 - 240) * 262144 + (byte c1 - 128) * 4096
                                                   + (byte c2 - 128) * 64 + (byte c3 - 128), 4))))))"

lemma decodeRune_size: "s \<noteq> [] \<Longrightarrow> 1 \<le> snd (decodeRune s) \<and> snd (decodeRune s) \<le> length s"
  by (auto simp: decodeRune_def split: list.splits option.splits prod.splits if_splits)

lemma decodeRune_ascii [simp]: "byte c < 128 \<Longrightarrow> decodeRune (c # s) = (byte c, 1)"
  by (simp add: decodeRune_def)

text \<open>\<open>utf8.RuneStart\<close>, and \<open>utf8.DecodeLastRune\<close>: the last encoding starts at the last byte of the
  final four that is not a continuation byte.\<close>

definition RuneStart :: "char \<Rightarrow> bool" where
  "RuneStart c \<longleftrightarrow> \<not> cont (byte c)"

fun last_start :: "string \<Rightarrow> nat \<Rightarrow> nat \<Rightarrow> nat" where
  "last_start s i 0 = i"
| "last_start s i (Suc k) =
     (if i = 0 then 0 else if RuneStart (s ! (i - 1)) then i - 1 else last_start s (i - 1) k)"

definition decodeLastRune :: "string \<Rightarrow> int \<times> nat" where
  "decodeLastRune s =
     (if s = [] then (RuneError, 0)
      else if byte (last s) < 128 then (byte (last s), 1)
      else let start = last_start s (length s - 1) 3; (r, size) = decodeRune (drop start s)
           in if start + size \<noteq> length s then (RuneError, 1) else (r, size))"

text \<open>\<open>utf8.Valid\<close>: no byte decodes to an error of size one.\<close>

function utf8_Valid :: "string \<Rightarrow> bool" where
  "utf8_Valid s =
     (if s = [] then True
      else case decodeRune s of (r, n) \<Rightarrow>
        if r = RuneError \<and> n = 1 then False else utf8_Valid (drop n s))"
  by pat_completeness auto
termination
proof (relation "measure length", goal_cases)
  case (2 s r n)
  then show ?case using decodeRune_size [of s] by (cases s) (auto dest: sym)
qed simp

declare utf8_Valid.simps [simp del]

text \<open>\<open>utf8.EncodeRune\<close>: a surrogate or a rune past the last one is written as \<open>RuneError\<close>.\<close>

definition encodeRune :: "int \<Rightarrow> string" where
  "encodeRune r0 =
     (let r = (if r0 > 1114111 \<or> 55296 \<le> r0 \<and> r0 \<le> 57343 then RuneError else r0)
      in if r < 128 then [char_of r]
         else if r < 2048 then [char_of (192 + r div 64), char_of (128 + r mod 64)]
         else if r < 65536
         then [char_of (224 + r div 4096), char_of (128 + r div 64 mod 64), char_of (128 + r mod 64)]
         else [char_of (240 + r div 262144), char_of (128 + r div 4096 mod 64),
               char_of (128 + r div 64 mod 64), char_of (128 + r mod 64)])"

section \<open>White space\<close>

definition IsSpace :: "int \<Rightarrow> bool" where
  "IsSpace r \<longleftrightarrow> 9 \<le> r \<and> r \<le> 13 \<or> r = 32 \<or> r = 133 \<or> r = 160 \<or> r = 5760 \<or> 8192 \<le> r \<and> r \<le> 8202
     \<or> r = 8232 \<or> r = 8233 \<or> r = 8239 \<or> r = 8287 \<or> r = 12288"

function TrimLeft :: "string \<Rightarrow> string" where
  "TrimLeft s =
     (if s = [] then []
      else case decodeRune s of (r, n) \<Rightarrow> if IsSpace r then TrimLeft (drop n s) else s)"
  by pat_completeness auto
termination
proof (relation "measure length", goal_cases)
  case (2 s r n)
  then show ?case using decodeRune_size [of s] by (cases s) (auto dest: sym)
qed simp

lemma decodeLastRune_size: "s \<noteq> [] \<Longrightarrow> 1 \<le> snd (decodeLastRune s)"
proof -
  assume s: "s \<noteq> []"
  have "last_start s i k \<le> i" for i k by (induction s i k rule: last_start.induct) auto
  then have "last_start s (length s - 1) 3 \<le> length s - 1" by simp
  with s have "drop (last_start s (length s - 1) 3) s \<noteq> []" by (cases s) auto
  with decodeRune_size show ?thesis
    by (fastforce simp: decodeLastRune_def Let_def split: prod.splits)
qed

function TrimRight :: "string \<Rightarrow> string" where
  "TrimRight s =
     (if s = [] then []
      else case decodeLastRune s of (r, n) \<Rightarrow>
        if IsSpace r then TrimRight (take (length s - n) s) else s)"
  by pat_completeness auto
termination
proof (relation "measure length", goal_cases)
  case (2 s r n)
  then show ?case using decodeLastRune_size [of s] by (cases s) (auto dest: sym)
qed simp

declare TrimLeft.simps [simp del] TrimRight.simps [simp del]

definition TrimSpace :: "string \<Rightarrow> string" where
  "TrimSpace s = TrimRight (TrimLeft s)"

lemma TrimLeft_stop: "byte c < 128 \<Longrightarrow> \<not> IsSpace (byte c) \<Longrightarrow> TrimLeft (c # s) = c # s"
  by (simp add: TrimLeft.simps)

lemma TrimLeft_skip: "byte c < 128 \<Longrightarrow> IsSpace (byte c) \<Longrightarrow> TrimLeft (c # s) = TrimLeft s"
  by (simp add: TrimLeft.simps [of "c # s"])

lemma TrimRight_stop: "byte c < 128 \<Longrightarrow> \<not> IsSpace (byte c) \<Longrightarrow> TrimRight (s @ [c]) = s @ [c]"
  by (simp add: TrimRight.simps [of "s @ [c]"] decodeLastRune_def)

lemma TrimRight_skip: "byte c < 128 \<Longrightarrow> IsSpace (byte c) \<Longrightarrow> TrimRight (s @ [c]) = TrimRight s"
  by (simp add: TrimRight.simps [of "s @ [c]"] decodeLastRune_def)

lemma digit_not_space: "is_digit c \<Longrightarrow> byte c < 128 \<and> \<not> IsSpace (byte c)"
  by (auto simp: is_digit_def IsSpace_def)

lemma TrimSpace_digits:
  assumes "all_digits s"
  shows "TrimSpace s = s" "TrimSpace (s @ [CHR 0x0A]) = s"
proof -
  from assms obtain c cs where s: "s = c # cs" and c: "is_digit c"
    by (cases s) (auto simp: all_digits_def)
  obtain ds d where s': "s = ds @ [d]" and d: "is_digit d"
    using assms by (cases s rule: rev_cases) (auto simp: all_digits_def)
  have l: "TrimLeft (s @ t) = s @ t" for t using s digit_not_space [OF c] by (simp add: TrimLeft_stop)
  have r: "TrimRight s = s" using s' digit_not_space [OF d] by (simp add: TrimRight_stop)
  show "TrimSpace s = s" using l [of "[]"] r by (simp add: TrimSpace_def)
  show "TrimSpace (s @ [CHR 0x0A]) = s"
    using l [of "[CHR 0x0A]"] r TrimRight_skip [of "CHR 0x0A" s] by (simp add: TrimSpace_def IsSpace_def byte_def)
qed

end
