(* ===== verification/Disk.thy ===== *)
theory Disk
  imports Go_Unicode
begin

text \<open>
  One private directory of the file system, as the gateway's stores use it.

  \<open>dk_live\<close> is the directory a running process sees, \<open>dk_synced\<close> the part of it that is surely
  on the medium: what it was at the last directory sync that succeeded. \<open>dk_script\<close> is the outcome
  of the primitive operations to come, so a theorem over every disk covers every sequence of I/O
  failures; an operation past its end succeeds. \<open>dk_fresh\<close> numbers the temporary files.
\<close>

datatype fileKind = Regular | Symlink | Directory

record dentry =
  de_kind :: fileKind
  de_private :: bool
  de_body :: string

record disk =
  dk_live :: "(string, dentry) fmap"
  dk_synced :: "(string, dentry) fmap"
  dk_script :: "bool list"
  dk_fresh :: nat

definition private_file :: "string \<Rightarrow> dentry" where
  "private_file body = \<lparr>de_kind = Regular, de_private = True, de_body = body\<rparr>"

section \<open>Primitive operations\<close>

text \<open>The outcome of the next primitive.\<close>

definition io :: "disk \<Rightarrow> bool \<times> disk" where
  "io d = (case dk_script d of [] \<Rightarrow> (True, d) | ok # rest \<Rightarrow> (ok, d\<lparr>dk_script := rest\<rparr>))"

definition temp_name :: "string \<Rightarrow> nat \<Rightarrow> string" where
  "temp_name prefix n = prefix @ dec (int n)"

text \<open>\<open>os.CreateTemp\<close>, \<open>os.Rename\<close>, \<open>os.Remove\<close> and \<open>SyncDirectory\<close>. Removing a name the directory
  does not have is the error \<open>IsNotExist\<close>, kept apart from a failure.\<close>

definition CreateTemp :: "string \<Rightarrow> disk \<Rightarrow> string option \<times> disk" where
  "CreateTemp prefix d0 =
     (let (ok, d) = io d0; name = temp_name prefix (dk_fresh d)
      in if ok then (Some name, d\<lparr>dk_live := fmupd name (private_file []) (dk_live d), dk_fresh := Suc (dk_fresh d)\<rparr>)
         else (None, d))"

definition WriteFile :: "string \<Rightarrow> string \<Rightarrow> disk \<Rightarrow> bool \<times> disk" where
  "WriteFile name body d0 =
     (let (ok, d) = io d0
      in if ok then (True, d\<lparr>dk_live := fmupd name (private_file body) (dk_live d)\<rparr>) else (False, d))"

definition Rename :: "string \<Rightarrow> string \<Rightarrow> disk \<Rightarrow> bool \<times> disk" where
  "Rename old new d0 =
     (let (ok, d) = io d0
      in case fmlookup (dk_live d) old of
           None \<Rightarrow> (False, d)
         | Some e \<Rightarrow> if ok then (True, d\<lparr>dk_live := fmupd new e (fmdrop old (dk_live d))\<rparr>) else (False, d))"

datatype removeResult = Removed | NotExist | RemoveFailed

definition RemoveFile :: "string \<Rightarrow> disk \<Rightarrow> removeResult \<times> disk" where
  "RemoveFile name d0 =
     (let (ok, d) = io d0
      in if \<not> ok then (RemoveFailed, d)
         else if fmlookup (dk_live d) name = None then (NotExist, d)
         else (Removed, d\<lparr>dk_live := fmdrop name (dk_live d)\<rparr>))"

definition SyncDirectory :: "disk \<Rightarrow> bool \<times> disk" where
  "SyncDirectory d0 = (let (ok, d) = io d0 in if ok then (True, d\<lparr>dk_synced := dk_live d\<rparr>) else (False, d))"

text \<open>\<open>os.ReadDir\<close>: the names in order.\<close>

definition dir_names :: "disk \<Rightarrow> string list" where
  "dir_names d = sorted_list_of_fset (fmdom (dk_live d))"

section \<open>The atomic write\<close>

datatype ioError =
  StageFailed | ProtectFailed | WriteFailed | SyncFailed | CloseFailed | CommitFailed | DirSyncFailed

text \<open>The deferred clean-up of a write that did not commit: the staged file is removed, and a failure to
  remove it is ignored.\<close>

definition discard :: "string \<Rightarrow> ioError \<Rightarrow> disk \<Rightarrow> ioError option \<times> disk" where
  "discard tmp e d = (Some e, snd (RemoveFile tmp d))"

text \<open>The steps every store takes to replace a file: stage, protect, write, sync, close, rename,
  sync the directory. The staged name starts with \<open>prefix\<close>.\<close>

definition write_atomic :: "string \<Rightarrow> string \<Rightarrow> string \<Rightarrow> disk \<Rightarrow> ioError option \<times> disk" where
  "write_atomic prefix name body d0 =
     (case CreateTemp prefix d0 of
        (None, d) \<Rightarrow> (Some StageFailed, d)
      | (Some tmp, d) \<Rightarrow>
          let (ok, d) = io d
          in if \<not> ok then discard tmp ProtectFailed d
             else let (ok, d) = WriteFile tmp body d
             in if \<not> ok then discard tmp WriteFailed d
             else let (ok, d) = io d
             in if \<not> ok then discard tmp SyncFailed d
             else let (ok, d) = io d
             in if \<not> ok then discard tmp CloseFailed d
             else let (ok, d) = Rename tmp name d
             in if \<not> ok then discard tmp CommitFailed d
             else let (ok, d) = SyncDirectory d
             in if \<not> ok then (Some DirSyncFailed, d) else (None, d))"

section \<open>What a write leaves behind\<close>

text \<open>A name no write with this prefix stages.\<close>

definition not_temp :: "string \<Rightarrow> string \<Rightarrow> bool" where
  "not_temp prefix name \<longleftrightarrow> (\<forall>n. name \<noteq> temp_name prefix n)"

lemma io_fields [simp]:
  "io d = (ok, d') \<Longrightarrow> dk_live d' = dk_live d \<and> dk_synced d' = dk_synced d \<and> dk_fresh d' = dk_fresh d"
  by (auto simp: io_def split: list.splits)

lemma CreateTemp_live:
  assumes "CreateTemp prefix d = (r, d')"
  shows "not_temp prefix n \<Longrightarrow> fmlookup (dk_live d') n = fmlookup (dk_live d) n"
    "dk_synced d' = dk_synced d" "r = Some tmp \<Longrightarrow> tmp = temp_name prefix (dk_fresh d)"
  using assms by (auto simp: CreateTemp_def Let_def not_temp_def split: prod.splits if_splits dest!: io_fields)

lemma WriteFile_live:
  assumes "WriteFile f body d = (ok, d')"
  shows "n \<noteq> f \<Longrightarrow> fmlookup (dk_live d') n = fmlookup (dk_live d) n" "dk_synced d' = dk_synced d"
    "ok \<Longrightarrow> fmlookup (dk_live d') f = Some (private_file body)"
  using assms by (auto simp: WriteFile_def Let_def split: prod.splits if_splits dest!: io_fields)

lemma Rename_live:
  assumes "Rename old new d = (ok, d')"
  shows "dk_synced d' = dk_synced d" "\<not> ok \<Longrightarrow> dk_live d' = dk_live d"
    "ok \<Longrightarrow> dk_live d' = fmupd new (the (fmlookup (dk_live d) old)) (fmdrop old (dk_live d))"
  using assms
  by (auto simp: Rename_def Let_def split: prod.splits if_splits option.splits dest!: io_fields)

lemma RemoveFile_live:
  assumes "RemoveFile f d = (r, d')"
  shows "dk_synced d' = dk_synced d" "n \<noteq> f \<Longrightarrow> fmlookup (dk_live d') n = fmlookup (dk_live d) n"
    "r = Removed \<Longrightarrow> dk_live d' = fmdrop f (dk_live d)" "r \<noteq> Removed \<Longrightarrow> dk_live d' = dk_live d"
    "r = NotExist \<Longrightarrow> fmlookup (dk_live d) f = None"
  using assms by (auto simp: RemoveFile_def Let_def split: prod.splits if_splits dest!: io_fields)

lemma SyncDirectory_live:
  assumes "SyncDirectory d = (ok, d')"
  shows "dk_live d' = dk_live d" "ok \<Longrightarrow> dk_synced d' = dk_live d" "\<not> ok \<Longrightarrow> dk_synced d' = dk_synced d"
  using assms by (auto simp: SyncDirectory_def Let_def split: prod.splits if_splits dest!: io_fields)

lemma discard_live:
  "discard tmp e d = (r, d') \<Longrightarrow> n \<noteq> tmp \<Longrightarrow> fmlookup (dk_live d') n = fmlookup (dk_live d) n"
  "discard tmp e d = (r, d') \<Longrightarrow> dk_synced d' = dk_synced d \<and> r = Some e"
  using RemoveFile_live [of tmp d "fst (RemoveFile tmp d)" "snd (RemoveFile tmp d)"]
  by (auto simp: discard_def)

definition untouched :: "string \<Rightarrow> disk \<Rightarrow> disk \<Rightarrow> bool" where
  "untouched prefix d d' \<longleftrightarrow> dk_synced d' = dk_synced d
     \<and> (\<forall>n. not_temp prefix n \<longrightarrow> fmlookup (dk_live d') n = fmlookup (dk_live d) n)"

lemma untouched_trans: "untouched p d d1 \<Longrightarrow> untouched p d1 d2 \<Longrightarrow> untouched p d d2"
  by (simp add: untouched_def)

lemma untouched_steps:
  "CreateTemp p d = (r, d') \<Longrightarrow> untouched p d d'"
  "io d = (ok, d') \<Longrightarrow> untouched p d d'"
  "WriteFile (temp_name p k) body d = (ok, d') \<Longrightarrow> untouched p d d'"
  "Rename (temp_name p k) name d = (False, d') \<Longrightarrow> untouched p d d'"
  "discard (temp_name p k) e d = (err, d') \<Longrightarrow> untouched p d d'"
proof -
  show "untouched p d d'" if "CreateTemp p d = (r, d')"
    using CreateTemp_live [OF that] by (simp add: untouched_def)
  show "untouched p d d'" if "io d = (ok, d')"
    using io_fields [OF that] by (simp add: untouched_def)
  show "untouched p d d'" if "WriteFile (temp_name p k) body d = (ok, d')"
    using WriteFile_live [OF that] by (auto simp: untouched_def not_temp_def)
  show "untouched p d d'" if "Rename (temp_name p k) name d = (False, d')"
    using Rename_live [OF that] by (simp add: untouched_def)
  show "untouched p d d'" if "discard (temp_name p k) e d = (err, d')"
    using discard_live [OF that] by (auto simp: untouched_def not_temp_def)
qed

text \<open>A write either leaves the directory untouched with an error, or the written name has the new body; then
  the only error is that of the last directory sync, and without an error the medium has the directory.\<close>

lemma write_atomic_cases:
  assumes w: "write_atomic prefix name body d = (err, d')" and t: "not_temp prefix name"
  obtains (failed) "err \<noteq> None" "err \<noteq> Some DirSyncFailed" "untouched prefix d d'"
  | (written) "err = None \<or> err = Some DirSyncFailed"
      "\<And>n. not_temp prefix n \<Longrightarrow>
         fmlookup (dk_live d') n = (if n = name then Some (private_file body) else fmlookup (dk_live d) n)"
      "dk_synced d' = (if err = None then dk_live d' else dk_synced d)"
proof -
  obtain r d1 where 1: "CreateTemp prefix d = (r, d1)" by fastforce
  show ?thesis
  proof (cases r)
    case None
    then show ?thesis using w 1 failed untouched_steps(1) [OF 1] by (auto simp: write_atomic_def)
  next
    case (Some tmp)
    then have tmp: "tmp = temp_name prefix (dk_fresh d)" using CreateTemp_live(3) [OF 1] by simp
    obtain ok2 d2 where 2: "io d1 = (ok2, d2)" by fastforce
    obtain ok3 d3 where 3: "WriteFile tmp body d2 = (ok3, d3)" by fastforce
    obtain ok4 d4 where 4: "io d3 = (ok4, d4)" by fastforce
    obtain ok5 d5 where 5: "io d4 = (ok5, d5)" by fastforce
    obtain ok6 d6 where 6: "Rename tmp name d5 = (ok6, d6)" by fastforce
    obtain ok7 d7 where 7: "SyncDirectory d6 = (ok7, d7)" by fastforce
    have u2: "untouched prefix d d2" using untouched_trans untouched_steps(1) [OF 1] untouched_steps(2) [OF 2] .
    have u3: "untouched prefix d d3" using untouched_trans [OF u2] untouched_steps(3) 3 tmp by blast
    have u4: "untouched prefix d d4" using untouched_trans [OF u3] untouched_steps(2) [OF 4] .
    have u5: "untouched prefix d d5" using untouched_trans [OF u4] untouched_steps(2) [OF 5] .
    have u6: "untouched prefix d d6" if "\<not> ok6"
      using untouched_trans [OF u5] untouched_steps(4) 6 tmp that by auto
    note disc = untouched_trans [OF _ untouched_steps(5), of prefix d _ "dk_fresh d", folded tmp]
    have eq: "write_atomic prefix name body d =
      (if \<not> ok2 then discard tmp ProtectFailed d2 else if \<not> ok3 then discard tmp WriteFailed d3
       else if \<not> ok4 then discard tmp SyncFailed d4 else if \<not> ok5 then discard tmp CloseFailed d5
       else if \<not> ok6 then discard tmp CommitFailed d6
       else if \<not> ok7 then (Some DirSyncFailed, d7) else (None, d7))"
      by (simp add: write_atomic_def 1 2 3 4 5 6 7 Some)
    show ?thesis
    proof (cases "ok2 \<and> ok3 \<and> ok4 \<and> ok5 \<and> ok6")
      case False
      then obtain e dd where "discard tmp e dd = (err, d')" "untouched prefix d dd" "e \<noteq> DirSyncFailed"
        using w eq u2 u3 u4 u5 u6 by (auto split: if_splits)
      then show ?thesis using failed disc discard_live(2) by blast
    next
      case True
      have "fmlookup (dk_live d5) tmp = Some (private_file body)"
        using WriteFile_live(3) [OF 3] io_fields [OF 4] io_fields [OF 5] True by simp
      then have live: "dk_live d7 = fmupd name (private_file body) (fmdrop tmp (dk_live d5))"
        using Rename_live(3) [OF 6] SyncDirectory_live(1) [OF 7] True by simp
      show ?thesis
      proof (rule written)
        show "err = None \<or> err = Some DirSyncFailed" using w eq True by (auto split: if_splits)
        show "fmlookup (dk_live d') n = (if n = name then Some (private_file body) else fmlookup (dk_live d) n)"
          if "not_temp prefix n" for n
          using w eq True live that u5 tmp by (auto simp: untouched_def not_temp_def split: if_splits)
        show "dk_synced d' = (if err = None then dk_live d' else dk_synced d)"
          using w eq True SyncDirectory_live [OF 7] Rename_live(1) [OF 6] u5
          by (auto simp: untouched_def split: if_splits)
      qed
    qed
  qed
qed

section \<open>Crashes\<close>

text \<open>After a crash every name has what the process last saw there or what the last successful sync left there,
  and a staged file may be left at any name with the prefix. \<open>crash\<close> relates the two directories.\<close>

definition crash :: "string set \<Rightarrow> disk \<Rightarrow> disk \<Rightarrow> bool" where
  "crash prefixes d d' \<longleftrightarrow> dk_synced d' = dk_live d' \<and>
     (\<forall>n. (\<forall>p \<in> prefixes. not_temp p n) \<longrightarrow>
       fmlookup (dk_live d') n = fmlookup (dk_live d) n \<or> fmlookup (dk_live d') n = fmlookup (dk_synced d) n)"

end
