(* ===== verification/Issuer.thy ===== *)
theory Issuer
  imports Disk
begin

text \<open>
  The contract of a signing clock: the values it issues strictly increase. The clocks of
  \<open>internal/evidence/signingclock\<close> and \<open>internal/mqttauth\<close> both promise it, each over steps that
  include a crash and a restart. \<open>high\<close> is a bound every value issued so far respects and every
  later one exceeds.
\<close>

section \<open>Runs\<close>

fun issue_run :: "('s \<Rightarrow> 'i \<Rightarrow> 's \<times> int option) \<Rightarrow> 's \<Rightarrow> 'i list \<Rightarrow> 's \<times> int list" where
  "issue_run step s [] = (s, [])"
| "issue_run step s (i # is) =
     (case step s i of (s1, v) \<Rightarrow> case issue_run step s1 is of (s2, vs) \<Rightarrow>
        (s2, case v of None \<Rightarrow> vs | Some x \<Rightarrow> x # vs))"

fun legal_run :: "('s \<Rightarrow> 'i \<Rightarrow> bool) \<Rightarrow> ('s \<Rightarrow> 'i \<Rightarrow> 's \<times> int option) \<Rightarrow> 's \<Rightarrow> 'i list \<Rightarrow> bool" where
  "legal_run legal step s [] = True"
| "legal_run legal step s (i # is) = (legal s i \<and> legal_run legal step (fst (step s i)) is)"

section \<open>The interface\<close>

locale issuer =
  fixes inv :: "'s \<Rightarrow> bool"
    and legal :: "'s \<Rightarrow> 'i \<Rightarrow> bool"
    and high :: "'s \<Rightarrow> int"
    and step :: "'s \<Rightarrow> 'i \<Rightarrow> 's \<times> int option"
  assumes step_inv: "inv s \<Longrightarrow> legal s i \<Longrightarrow> step s i = (s', v) \<Longrightarrow> inv s'"
    and step_quiet: "inv s \<Longrightarrow> legal s i \<Longrightarrow> step s i = (s', None) \<Longrightarrow> high s \<le> high s'"
    and step_issue: "inv s \<Longrightarrow> legal s i \<Longrightarrow> step s i = (s', Some x) \<Longrightarrow> high s < x \<and> x \<le> high s'"
begin

lemma run_increasing:
  assumes "inv s" "legal_run legal step s is" "issue_run step s is = (s', vs)"
  shows "inv s' \<and> high s \<le> high s' \<and> sorted_wrt (<) vs \<and> (\<forall>x \<in> set vs. high s < x \<and> x \<le> high s')"
  using assms
proof (induction "is" arbitrary: s s' vs)
  case (Cons i "is")
  obtain s1 v where 1: "step s i = (s1, v)" by fastforce
  obtain s2 ws where 2: "issue_run step s1 is = (s2, ws)" by fastforce
  have l: "legal s i" "legal_run legal step s1 is" using Cons.prems 1 by auto
  have i1: "inv s1" using step_inv [OF Cons.prems(1) l(1) 1] .
  from Cons.IH [OF i1 l(2) 2] Cons.prems(3) 1 2
  have IH: "inv s' \<and> high s1 \<le> high s' \<and> sorted_wrt (<) ws \<and> (\<forall>x \<in> set ws. high s1 < x \<and> x \<le> high s')"
    by auto
  show ?case
  proof (cases v)
    case None
    with step_quiet [OF Cons.prems(1) l(1)] 1 have "high s \<le> high s1" by simp
    then show ?thesis using IH Cons.prems(3) 1 2 None by fastforce
  next
    case (Some x)
    with step_issue [OF Cons.prems(1) l(1)] 1 have "high s < x" "x \<le> high s1" by auto
    then show ?thesis using IH Cons.prems(3) 1 2 Some by fastforce
  qed
qed simp

lemma run_distinct:
  assumes "inv s" "legal_run legal step s is" "issue_run step s is = (s', vs)"
  shows "distinct vs"
  using run_increasing [OF assms] strict_sorted_iff by blast

end

end
