(* ===== verification/Signing_Clock.thy ===== *)
theory Signing_Clock
  imports Issuer
begin

text \<open>
  The message signing clock, \<open>internal/mqttauth/signingclock.go\<close>: values are issued under a lock, the
  mark that covers them is written in the background, and an episode is open while values may be issued that
  no completed mark covers.

  Every function that takes the lock is one definition on the clock's state. The mark is written through the
  interface \<open>DurableMark\<close>, here a parameter \<open>persist\<close> with the laws of the locale \<open>durable_mark\<close>. Wall clock
  readings are \<open>int64\<close> milliseconds, \<open>tick\<close> is the monotonic clock in nanoseconds.
\<close>

section \<open>State\<close>

definition SigningCeiling :: int where
  "SigningCeiling = maxInt64 - 2001"

definition signingReservation :: int where
  "signingReservation = 1000"

definition signingAheadWarning :: int where
  "signingAheadWarning = 300000"

definition markRetryPacing :: int where
  "markRetryPacing = 1000000000"

definition maxNotes :: nat where
  "maxNotes = 64"

datatype episodeCause = WriteError | WriteOutstanding

datatype clockNote =
    NoteStopped
  | NoteAhead int int
  | NoteCovered
  | NoteEpisode episodeCause

text \<open>\<open>sc_write\<close> is the outstanding write: the identity of its channel and the mark it writes.
  \<open>sc_retry\<close> is when the paced retry fires. \<open>sc_waiting\<close> are the callers of \<open>Next\<close> that wait for coverage
  with their timers running.\<close>

record sclock =
  sc_durable :: bool
  sc_last :: int
  sc_covered :: int
  sc_written :: int
  sc_ahead :: bool
  sc_closed :: bool
  sc_episode :: bool
  sc_write :: "(nat \<times> int) option"
  sc_writes :: nat
  sc_writeStarted :: int
  sc_retry :: "int option"
  sc_waiting :: "nat list"
  sc_notes :: "clockNote list"
  sc_draining :: bool
  sc_dropped :: nat
  sc_refused :: bool

definition NewSigningClock :: sclock where
  "NewSigningClock =
     \<lparr>sc_durable = False, sc_last = 0, sc_covered = 0, sc_written = 0, sc_ahead = False, sc_closed = False,
      sc_episode = False, sc_write = None, sc_writes = 0, sc_writeStarted = 0, sc_retry = None, sc_waiting = [],
      sc_notes = [], sc_draining = False, sc_dropped = 0, sc_refused = False\<rparr>"

section \<open>Operations under the lock\<close>

definition noteLocked :: "clockNote \<Rightarrow> sclock \<Rightarrow> sclock" where
  "noteLocked n c =
     (if maxNotes \<le> length (sc_notes c) then c\<lparr>sc_dropped := sc_dropped c + 1\<rparr>
      else c\<lparr>sc_notes := sc_notes c @ [n], sc_draining := True\<rparr>)"

text \<open>One turn of the drainer: the records it takes to write, or that it ends.\<close>

definition drain :: "sclock \<Rightarrow> (clockNote list \<times> nat) option \<times> sclock" where
  "drain c =
     (if sc_notes c = [] \<and> sc_dropped c = 0 then (None, c\<lparr>sc_draining := False\<rparr>)
      else (Some (sc_notes c, sc_dropped c), c\<lparr>sc_notes := [], sc_dropped := 0\<rparr>))"

definition reservationFor :: "int \<Rightarrow> int \<Rightarrow> int" where
  "reservationFor wall at = min (max (wrap64 (wall + signingReservation)) at) (SigningCeiling - 1)"

definition startWriteLocked :: "int \<Rightarrow> int \<Rightarrow> sclock \<Rightarrow> sclock" where
  "startWriteLocked tick mark0 c =
     (let mark = max mark0 (sc_written c)
      in c\<lparr>sc_written := mark, sc_write := Some (sc_writes c, mark), sc_writes := Suc (sc_writes c),
           sc_writeStarted := tick\<rparr>)"

definition scheduleRetryLocked :: "int \<Rightarrow> sclock \<Rightarrow> sclock" where
  "scheduleRetryLocked tick c =
     (if sc_retry c \<noteq> None \<or> sc_closed c \<or> sc_write c \<noteq> None then c
      else c\<lparr>sc_retry := Some (tick + max (markRetryPacing - (tick - sc_writeStarted c)) 0)\<rparr>)"

definition openEpisodeLocked :: "int \<Rightarrow> episodeCause \<Rightarrow> sclock \<Rightarrow> sclock" where
  "openEpisodeLocked tick cause c =
     (if sc_episode c then c
      else scheduleRetryLocked tick (noteLocked (NoteEpisode cause) (c\<lparr>sc_episode := True\<rparr>)))"

text \<open>\<open>persist\<close> takes the outcome of the outstanding write once \<open>Persist\<close> has returned.\<close>

definition persist_outcome :: "int \<Rightarrow> bool \<Rightarrow> sclock \<Rightarrow> sclock" where
  "persist_outcome tick ok c =
     (case sc_write c of None \<Rightarrow> c
      | Some (w, mark) \<Rightarrow>
          let c1 = c\<lparr>sc_write := None\<rparr>;
              c2 = (if \<not> ok then openEpisodeLocked tick WriteError c1
                    else let c' = c1\<lparr>sc_covered := max (sc_covered c1) mark\<rparr>
                         in if sc_episode c' \<and> sc_covered c' \<ge> sc_last c'
                            then noteLocked NoteCovered (c'\<lparr>sc_episode := False\<rparr>) else c')
          in if sc_episode c2 then scheduleRetryLocked tick c2 else c2)"

text \<open>The timer of a write, and the timer of a value that waits.\<close>

definition write_bound :: "int \<Rightarrow> nat \<Rightarrow> sclock \<Rightarrow> sclock" where
  "write_bound tick w c =
     (case sc_write c of None \<Rightarrow> c
      | Some (w', mark) \<Rightarrow> if w' = w then openEpisodeLocked tick WriteOutstanding c else c)"

definition wait_bound :: "int \<Rightarrow> nat \<Rightarrow> sclock \<Rightarrow> sclock" where
  "wait_bound tick caller c =
     (if caller \<in> set (sc_waiting c) then openEpisodeLocked tick WriteOutstanding c else c)"

definition retryWrite :: "int \<Rightarrow> int \<Rightarrow> sclock \<Rightarrow> sclock" where
  "retryWrite tick wall c0 =
     (let c = c0\<lparr>sc_retry := None\<rparr>
      in if sc_closed c \<or> \<not> sc_episode c \<or> sc_write c \<noteq> None then c
         else startWriteLocked tick (reservationFor wall (sc_last c)) c)"

definition Stop :: "sclock \<Rightarrow> sclock" where
  "Stop c = c\<lparr>sc_closed := True, sc_retry := None\<rparr>"

definition Degraded :: "sclock \<Rightarrow> bool" where
  "Degraded c = sc_episode c"

section \<open>One turn of Next\<close>

datatype turn = Issued int | Waits | Exhausted | Closed

definition done_waiting :: "nat \<Rightarrow> sclock \<Rightarrow> sclock" where
  "done_waiting caller c = c\<lparr>sc_waiting := removeAll caller (sc_waiting c)\<rparr>"

definition note_ahead :: "int \<Rightarrow> int \<Rightarrow> sclock \<Rightarrow> sclock" where
  "note_ahead wall at c =
     (let ahead = wrap64 (at - wall) > signingAheadWarning
      in if ahead \<and> \<not> sc_ahead c then (noteLocked (NoteAhead at wall) c)\<lparr>sc_ahead := True\<rparr>
         else if \<not> ahead then c\<lparr>sc_ahead := False\<rparr> else c)"

text \<open>One pass of the loop of \<open>Next\<close> for a caller, from taking the lock to returning or waiting. A
  caller that waits passes again once it is woken.\<close>

definition next_turn :: "nat \<Rightarrow> int \<Rightarrow> int \<Rightarrow> sclock \<Rightarrow> turn \<times> sclock" where
  "next_turn caller tick wall c =
     (let at = max wall (wrap64 (sc_last c + 1))
      in if at \<ge> SigningCeiling then (Exhausted, done_waiting caller c)
         else if sc_durable c \<and> sc_closed c
         then (Closed, done_waiting caller
                (if sc_refused c then c else noteLocked NoteStopped (c\<lparr>sc_refused := True\<rparr>)))
         else if sc_durable c \<and> at > sc_covered c \<and> \<not> sc_episode c
         then (Waits,
                (let c1 = (if sc_write c = None then startWriteLocked tick (reservationFor wall at) c else c)
                 in c1\<lparr>sc_waiting := caller # removeAll caller (sc_waiting c1)\<rparr>))
         else (Issued at,
                done_waiting caller
                 ((note_ahead wall at
                   (if sc_durable c \<and> \<not> sc_episode c \<and> sc_write c = None
                       \<and> wrap64 (sc_covered c - at) < signingReservation div 2
                       \<and> reservationFor wall at > sc_covered c
                    then startWriteLocked tick (reservationFor wall at) c else c))\<lparr>sc_last := at\<rparr>)))"

section \<open>The clock and its mark\<close>

text \<open>\<open>sys_result\<close> is what \<open>Persist\<close> returned for the outstanding write, until \<open>persist\<close> takes it.\<close>

record 'm clocksys =
  sys_clock :: sclock
  sys_mark :: 'm
  sys_result :: "bool option"

text \<open>\<open>NewDurableSigningClock\<close>. \<open>expired\<close> says that the first write was still outstanding at the
  bound; the start is then refused while the write goes on.\<close>

datatype startError = StartExhausted | StartWriteOutstanding | StartWriteFailed

definition NewDurableSigningClock ::
  "('m \<Rightarrow> int \<Rightarrow> bool \<times> 'm) \<Rightarrow> int \<Rightarrow> int \<Rightarrow> bool \<Rightarrow> int option \<Rightarrow> 'm \<Rightarrow> (startError + 'm clocksys) \<times> 'm" where
  "NewDurableSigningClock persist tick wall expired found m =
     (let c0 = NewSigningClock\<lparr>sc_durable := True\<rparr>;
          start0 = wrap64 (wall + signingReservation);
          (c1, first, start1) =
            (case found of None \<Rightarrow> (c0, wall, start0)
             | Some v \<Rightarrow> (c0\<lparr>sc_last := v, sc_covered := v\<rparr>, max wall (wrap64 (v + 1)), max start0 v))
      in if first \<ge> SigningCeiling then (Inl StartExhausted, m)
         else let start = min start1 (SigningCeiling - 1);
                  c2 = c1\<lparr>sc_written := start, sc_writeStarted := tick\<rparr>;
                  (ok, m') = persist m start
              in if expired then (Inl StartWriteOutstanding, m')
                 else if \<not> ok then (Inl StartWriteFailed, m')
                 else (Inr \<lparr>sys_clock = c2\<lparr>sc_covered := max (sc_covered c2) start\<rparr>, sys_mark = m', sys_result = None\<rparr>, m'))"

datatype clockEvent =
    Turn nat int int
  | PersistCall
  | TakeOutcome int
  | WriteBound int nat
  | WaitBound int nat
  | RetryFires int int
  | Drain
  | StopClock

text \<open>The steps the goroutines take, each one critical section or one call of \<open>Persist\<close>, in any order.
  A write is persisted once, its outcome taken once, and a retry fires only when it is scheduled.\<close>

fun clock_step :: "('m \<Rightarrow> int \<Rightarrow> bool \<times> 'm) \<Rightarrow> 'm clocksys \<Rightarrow> clockEvent \<Rightarrow> 'm clocksys \<times> int option" where
  "clock_step persist s (Turn caller tick wall) =
     (case next_turn caller tick wall (sys_clock s) of
        (Issued at, c) \<Rightarrow> (s\<lparr>sys_clock := c\<rparr>, Some at)
      | (_, c) \<Rightarrow> (s\<lparr>sys_clock := c\<rparr>, None))"
| "clock_step persist s PersistCall =
     (case (sc_write (sys_clock s), sys_result s) of
        (Some (w, mark), None) \<Rightarrow>
          (case persist (sys_mark s) mark of (ok, m) \<Rightarrow> (s\<lparr>sys_mark := m, sys_result := Some ok\<rparr>, None))
      | _ \<Rightarrow> (s, None))"
| "clock_step persist s (TakeOutcome tick) =
     (case sys_result s of None \<Rightarrow> (s, None)
      | Some ok \<Rightarrow> (s\<lparr>sys_clock := persist_outcome tick ok (sys_clock s), sys_result := None\<rparr>, None))"
| "clock_step persist s (WriteBound tick w) = (s\<lparr>sys_clock := write_bound tick w (sys_clock s)\<rparr>, None)"
| "clock_step persist s (WaitBound tick caller) = (s\<lparr>sys_clock := wait_bound tick caller (sys_clock s)\<rparr>, None)"
| "clock_step persist s (RetryFires tick wall) =
     (case sc_retry (sys_clock s) of None \<Rightarrow> (s, None)
      | Some due \<Rightarrow> if due \<le> tick then (s\<lparr>sys_clock := retryWrite tick wall (sys_clock s)\<rparr>, None) else (s, None))"
| "clock_step persist s Drain = (s\<lparr>sys_clock := snd (drain (sys_clock s))\<rparr>, None)"
| "clock_step persist s StopClock = (s\<lparr>sys_clock := Stop (sys_clock s)\<rparr>, None)"


section \<open>The interface of the mark\<close>

text \<open>\<open>low m\<close> is a bound on the mark any later start finds: a successful \<open>Persist\<close> raises it to the mark, and
  no \<open>Persist\<close> lowers it below the mark it writes.\<close>

locale durable_mark =
  fixes persist :: "'m \<Rightarrow> int \<Rightarrow> bool \<times> 'm"
    and low :: "'m \<Rightarrow> int"
    and minv :: "'m \<Rightarrow> bool"
  assumes persist_inv: "minv m \<Longrightarrow> persist m mark = (ok, m') \<Longrightarrow> minv m'"
    and persist_ok: "minv m \<Longrightarrow> persist m mark = (True, m') \<Longrightarrow>
      0 \<le> mark \<and> mark < SigningCeiling \<and> mark \<le> low m'"
    and persist_low: "minv m \<Longrightarrow> persist m mark = (ok, m') \<Longrightarrow> min (low m) mark \<le> low m'"

text \<open>The clock's part of the invariant: the values, the coverage, the outstanding write and the retry.\<close>

definition clock_inv :: "sclock \<Rightarrow> bool" where
  "clock_inv c \<longleftrightarrow> sc_durable c \<and> 0 \<le> sc_last c \<and> sc_last c < SigningCeiling
     \<and> 0 \<le> sc_covered c \<and> sc_covered c \<le> sc_written c \<and> sc_written c < SigningCeiling
     \<and> (\<not> sc_episode c \<longrightarrow> sc_last c \<le> sc_covered c)
     \<and> (\<forall>w mark. sc_write c = Some (w, mark) \<longrightarrow> mark = sc_written c)
     \<and> (\<forall>due. sc_retry c = Some due \<longrightarrow>
          sc_writeStarted c + markRetryPacing \<le> due \<and> sc_episode c \<and> sc_write c = None)
     \<and> (sc_episode c \<and> \<not> sc_closed c \<longrightarrow> sc_retry c \<noteq> None \<or> sc_write c \<noteq> None)"

definition sys_inv :: "('m \<Rightarrow> bool) \<Rightarrow> ('m \<Rightarrow> int) \<Rightarrow> 'm clocksys \<Rightarrow> bool" where
  "sys_inv minv low s \<longleftrightarrow> clock_inv (sys_clock s) \<and> minv (sys_mark s)
     \<and> sc_covered (sys_clock s) \<le> low (sys_mark s)
     \<and> (sys_result s \<noteq> None \<longrightarrow> sc_write (sys_clock s) \<noteq> None)
     \<and> (\<forall>w mark. sc_write (sys_clock s) = Some (w, mark) \<and> sys_result s = Some True \<longrightarrow> mark \<le> low (sys_mark s))"

subsection \<open>The clock's operations keep it\<close>

lemma noteLocked_fields [simp]:
  "sc_durable (noteLocked n c) = sc_durable c" "sc_last (noteLocked n c) = sc_last c"
  "sc_covered (noteLocked n c) = sc_covered c" "sc_written (noteLocked n c) = sc_written c"
  "sc_episode (noteLocked n c) = sc_episode c" "sc_write (noteLocked n c) = sc_write c"
  "sc_retry (noteLocked n c) = sc_retry c" "sc_closed (noteLocked n c) = sc_closed c"
  "sc_writeStarted (noteLocked n c) = sc_writeStarted c"
  by (simp_all add: noteLocked_def)

lemma note_ahead_fields [simp]:
  "sc_durable (note_ahead w a c) = sc_durable c" "sc_last (note_ahead w a c) = sc_last c"
  "sc_covered (note_ahead w a c) = sc_covered c" "sc_written (note_ahead w a c) = sc_written c"
  "sc_episode (note_ahead w a c) = sc_episode c" "sc_write (note_ahead w a c) = sc_write c"
  "sc_retry (note_ahead w a c) = sc_retry c" "sc_closed (note_ahead w a c) = sc_closed c"
  "sc_writeStarted (note_ahead w a c) = sc_writeStarted c"
  by (simp_all add: note_ahead_def Let_def)

lemma done_waiting_fields [simp]:
  "sc_durable (done_waiting i c) = sc_durable c" "sc_last (done_waiting i c) = sc_last c"
  "sc_covered (done_waiting i c) = sc_covered c" "sc_written (done_waiting i c) = sc_written c"
  "sc_episode (done_waiting i c) = sc_episode c" "sc_write (done_waiting i c) = sc_write c"
  "sc_retry (done_waiting i c) = sc_retry c" "sc_closed (done_waiting i c) = sc_closed c"
  "sc_writeStarted (done_waiting i c) = sc_writeStarted c"
  by (simp_all add: done_waiting_def)

lemma startWrite_fields [simp]:
  "sc_durable (startWriteLocked t m c) = sc_durable c" "sc_last (startWriteLocked t m c) = sc_last c"
  "sc_covered (startWriteLocked t m c) = sc_covered c" "sc_episode (startWriteLocked t m c) = sc_episode c"
  "sc_closed (startWriteLocked t m c) = sc_closed c" "sc_retry (startWriteLocked t m c) = sc_retry c"
  "sc_written (startWriteLocked t m c) = max m (sc_written c)"
  "sc_write (startWriteLocked t m c) = Some (sc_writes c, max m (sc_written c))"
  "sc_writeStarted (startWriteLocked t m c) = t"
  by (simp_all add: startWriteLocked_def Let_def)

lemma retry_fields [simp]:
  "sc_durable (scheduleRetryLocked t c) = sc_durable c" "sc_last (scheduleRetryLocked t c) = sc_last c"
  "sc_covered (scheduleRetryLocked t c) = sc_covered c" "sc_written (scheduleRetryLocked t c) = sc_written c"
  "sc_episode (scheduleRetryLocked t c) = sc_episode c" "sc_write (scheduleRetryLocked t c) = sc_write c"
  "sc_closed (scheduleRetryLocked t c) = sc_closed c"
  by (simp_all add: scheduleRetryLocked_def)


lemma scheduleRetry_cases:
  "scheduleRetryLocked t c = c \<and> (sc_retry c \<noteq> None \<or> sc_closed c \<or> sc_write c \<noteq> None)
   \<or> sc_write c = None \<and> (\<exists>due. sc_writeStarted c + markRetryPacing \<le> due \<and> scheduleRetryLocked t c = c\<lparr>sc_retry := Some due\<rparr>)"
proof (cases "sc_retry c \<noteq> None \<or> sc_closed c \<or> sc_write c \<noteq> None")
  case False
  let ?due = "t + max (markRetryPacing - (t - sc_writeStarted c)) 0"
  have "sc_writeStarted c + markRetryPacing \<le> ?due" by simp
  then show ?thesis using False by (auto simp: scheduleRetryLocked_def simp del: not_None_eq not_Some_eq)
qed (simp add: scheduleRetryLocked_def)

lemma scheduleRetry_inv:
  assumes "sc_episode c"
    and "clock_inv c \<or> (sc_retry c = None \<and> clock_inv (c\<lparr>sc_closed := True\<rparr>))"
  shows "clock_inv (scheduleRetryLocked t c)"
  using assms scheduleRetry_cases [of t c] by (auto simp: clock_inv_def)

lemma openEpisode_inv [inv_rules]:
  assumes "clock_inv c" shows "clock_inv (openEpisodeLocked t cause c)"
proof (cases "sc_episode c")
  case True
  then show ?thesis using assms by (simp add: openEpisodeLocked_def)
next
  case False
  let ?c = "noteLocked (NoteEpisode cause) (c\<lparr>sc_episode := True\<rparr>)"
  have "sc_retry c = None" using assms False by (cases "sc_retry c") (auto simp: clock_inv_def)
  then have "sc_retry ?c = None \<and> clock_inv (?c\<lparr>sc_closed := True\<rparr>)"
    using assms by (simp add: clock_inv_def)
  then show ?thesis using scheduleRetry_inv [of ?c t] False by (simp add: openEpisodeLocked_def)
qed

lemma startWrite_inv [inv_rules]:
  assumes "clock_inv c" "sc_retry c = None" "mark < SigningCeiling"
  shows "clock_inv (startWriteLocked t mark c)"
  using assms by (auto simp: clock_inv_def)

lemma reservationFor_bounds:
  "at < SigningCeiling \<Longrightarrow> at \<le> reservationFor wall at \<and> reservationFor wall at < SigningCeiling"
  by (auto simp: reservationFor_def)

lemma next_at:
  assumes "clock_inv c" "in_int64 wall"
  shows "max wall (wrap64 (sc_last c + 1)) = max wall (sc_last c + 1)"
  using assms by (simp add: clock_inv_def SigningCeiling_def minInt64_def maxInt64_def)

lemma clock_inv_simps [simp]:
  "clock_inv (c\<lparr>sc_waiting := ws\<rparr>) = clock_inv c" "clock_inv (done_waiting i c) = clock_inv c"
  "clock_inv (noteLocked n c) = clock_inv c" "clock_inv (note_ahead w a c) = clock_inv c"
  "clock_inv (c\<lparr>sc_refused := b\<rparr>) = clock_inv c"
  by (simp_all add: clock_inv_def)

lemma clock_inv_retry: "clock_inv c \<Longrightarrow> \<not> sc_episode c \<Longrightarrow> sc_retry c = None"
  by (cases "sc_retry c") (auto simp: clock_inv_def)

lemma next_turn_inv [inv_rules]:
  assumes inv: "clock_inv c" and wall: "in_int64 wall" and eq: "next_turn i t wall c = (r, c')"
  shows "clock_inv c'" "sc_last c \<le> sc_last c'" "r = Issued v \<Longrightarrow> sc_last c < v \<and> v = sc_last c' \<and> wall \<le> v"
    "sc_covered c' = sc_covered c"
proof -
  define at where "at = max wall (sc_last c + 1)"
  let ?st = "startWriteLocked t (reservationFor wall at) c"
  have st: "clock_inv ?st" if "\<not> sc_episode c" "at < SigningCeiling"
    using that inv startWrite_inv [of c "reservationFor wall at" t] clock_inv_retry [OF inv]
      reservationFor_bounds [of at wall] by simp
  have last: "clock_inv (c1\<lparr>sc_last := at\<rparr>)"
    if "clock_inv c1" "at < SigningCeiling" "sc_episode c1 \<or> at \<le> sc_covered c1" "sc_last c1 = sc_last c" for c1
    using that inv by (auto simp: clock_inv_def at_def)
  note nt = eq [unfolded next_turn_def next_at [OF inv wall] at_def [symmetric] Let_def]
  have lt: "sc_last c < at" "wall \<le> at" by (auto simp: at_def)
  consider (refused) "at \<ge> SigningCeiling \<or> sc_durable c \<and> sc_closed c" "clock_inv c'" "sc_last c' = sc_last c"
      "sc_covered c' = sc_covered c" "\<forall>v. r \<noteq> Issued v"
    | (waits) "clock_inv c'" "sc_last c' = sc_last c" "sc_covered c' = sc_covered c" "\<forall>v. r \<noteq> Issued v"
    | (issued) c1 where "clock_inv c1" "at < SigningCeiling" "sc_episode c1 \<or> at \<le> sc_covered c1"
        "sc_last c1 = sc_last c" "sc_covered c1 = sc_covered c" "r = Issued at" "c' = done_waiting i (c1\<lparr>sc_last := at\<rparr>)"
  proof (cases "at \<ge> SigningCeiling \<or> sc_durable c \<and> sc_closed c")
    case True
    then show ?thesis using nt inv refused by (auto split: if_splits)
  next
    case False
    then have at: "at < SigningCeiling" "\<not> (sc_durable c \<and> sc_closed c)" "sc_durable c"
      using inv by (auto simp: clock_inv_def)
    show ?thesis
    proof (cases "at > sc_covered c \<and> \<not> sc_episode c")
      case True
      then show ?thesis using nt at inv st waits by (auto split: if_splits)
    next
      case False
      define c1 where "c1 = note_ahead wall at (if sc_durable c \<and> \<not> sc_episode c \<and> sc_write c = None
        \<and> wrap64 (sc_covered c - at) < signingReservation div 2 \<and> reservationFor wall at > sc_covered c
        then ?st else c)"
      have "clock_inv c1" "sc_last c1 = sc_last c" "sc_covered c1 = sc_covered c" "sc_episode c1 = sc_episode c"
        using inv st at by (simp_all add: c1_def)
      moreover have neg: "(at \<ge> SigningCeiling) = False" "(sc_durable c \<and> sc_closed c) = False"
          "(sc_durable c \<and> at > sc_covered c \<and> \<not> sc_episode c) = False" using at False by auto
      have "r = Issued at" "c' = done_waiting i (c1\<lparr>sc_last := at\<rparr>)"
        using nt [unfolded neg if_False, folded c1_def] by simp_all
      ultimately show ?thesis using issued [of c1] False at by auto
    qed
  qed
  then have "clock_inv c' \<and> sc_last c \<le> sc_last c' \<and> (r = Issued v \<longrightarrow> sc_last c < v \<and> v = sc_last c' \<and> wall \<le> v)
    \<and> sc_covered c' = sc_covered c"
    using last lt by cases simp_all
  then show "clock_inv c'" "sc_last c \<le> sc_last c'" "r = Issued v \<Longrightarrow> sc_last c < v \<and> v = sc_last c' \<and> wall \<le> v"
    "sc_covered c' = sc_covered c" by blast+
qed


text \<open>Taking an outcome: coverage rises to the mark on success, and an episode ends only when it covers
  every value issued.\<close>

lemma persist_outcome_inv [inv_rules]:
  assumes inv: "clock_inv c" and w: "sc_write c = Some (w, mark)"
  shows "clock_inv (persist_outcome t ok c)" "sc_last (persist_outcome t ok c) = sc_last c"
    "sc_covered (persist_outcome t ok c) = (if ok then max (sc_covered c) mark else sc_covered c)"
    "sc_write (persist_outcome t ok c) = None"
proof -
  have r: "sc_retry c = None" using inv w by (cases "sc_retry c") (auto simp: clock_inv_def)
  have m: "mark = sc_written c" using inv w by (simp add: clock_inv_def)
  let ?c1 = "c\<lparr>sc_write := None\<rparr>"
  show "sc_last (persist_outcome t ok c) = sc_last c"
    "sc_covered (persist_outcome t ok c) = (if ok then max (sc_covered c) mark else sc_covered c)"
    "sc_write (persist_outcome t ok c) = None"
    using w by (simp_all add: persist_outcome_def Let_def openEpisodeLocked_def)
  show "clock_inv (persist_outcome t ok c)"
  proof (cases ok)
    case False
    have "clock_inv (scheduleRetryLocked t (noteLocked (NoteEpisode WriteError) (?c1\<lparr>sc_episode := True\<rparr>)))"
      by (rule scheduleRetry_inv) (use inv r in \<open>simp_all add: clock_inv_def\<close>)
    moreover have "clock_inv (scheduleRetryLocked t ?c1)" if "sc_episode c"
      by (rule scheduleRetry_inv) (use inv r that in \<open>simp_all add: clock_inv_def\<close>)
    moreover have "scheduleRetryLocked t (scheduleRetryLocked t x) = scheduleRetryLocked t x" for x
      by (simp add: scheduleRetryLocked_def)
    ultimately show ?thesis
      using False w by (simp add: persist_outcome_def Let_def openEpisodeLocked_def)
  next
    case True
    let ?c2 = "?c1\<lparr>sc_covered := max (sc_covered c) mark\<rparr>"
    have "clock_inv (scheduleRetryLocked t ?c2)" if "sc_episode c"
      by (rule scheduleRetry_inv) (use inv r m that in \<open>simp_all add: clock_inv_def\<close>)
    moreover have "clock_inv (?c2\<lparr>sc_episode := False\<rparr>)" if "max (sc_covered c) mark \<ge> sc_last c"
      using inv r m that by (simp add: clock_inv_def)
    moreover have "clock_inv ?c2" if "\<not> sc_episode c"
      using inv r m that by (simp add: clock_inv_def)
    ultimately show ?thesis using True w by (simp add: persist_outcome_def Let_def)
  qed
qed

lemma retryWrite_inv [inv_rules]:
  assumes inv: "clock_inv c" and r: "sc_retry c \<noteq> None"
  shows "clock_inv (retryWrite t wall c)" "sc_last (retryWrite t wall c) = sc_last c"
    "sc_covered (retryWrite t wall c) = sc_covered c"
proof -
  have f: "sc_episode c" "sc_write c = None" using inv r by (auto simp: clock_inv_def)
  have "reservationFor wall (sc_last c) < SigningCeiling"
    using reservationFor_bounds [of "sc_last c" wall] inv by (simp add: clock_inv_def)
  then show "clock_inv (retryWrite t wall c)"
    using inv f by (auto simp: retryWrite_def Let_def clock_inv_def)
  show "sc_last (retryWrite t wall c) = sc_last c" "sc_covered (retryWrite t wall c) = sc_covered c"
    by (simp_all add: retryWrite_def Let_def)
qed

lemma openEpisode_fields [simp]:
  "sc_last (openEpisodeLocked t e c) = sc_last c" "sc_covered (openEpisodeLocked t e c) = sc_covered c"
  "sc_write (openEpisodeLocked t e c) = sc_write c"
  by (simp_all add: openEpisodeLocked_def)

lemma bound_inv [inv_rules]:
  "clock_inv c \<Longrightarrow> clock_inv (write_bound t w c)" "clock_inv c \<Longrightarrow> clock_inv (wait_bound t i c)"
  by (auto simp: write_bound_def wait_bound_def openEpisode_inv split: option.splits)

lemma bound_fields [simp]:
  "sc_last (write_bound t w c) = sc_last c" "sc_covered (write_bound t w c) = sc_covered c"
  "sc_write (write_bound t w c) = sc_write c" "sc_last (wait_bound t i c) = sc_last c"
  "sc_covered (wait_bound t i c) = sc_covered c" "sc_write (wait_bound t i c) = sc_write c"
  by (auto simp: write_bound_def wait_bound_def split: option.splits)

lemma stop_drain_inv [inv_rules]:
  "clock_inv c \<Longrightarrow> clock_inv (Stop c)" "clock_inv c \<Longrightarrow> clock_inv (snd (drain c))"
  by (auto simp: Stop_def drain_def clock_inv_def)

lemma stop_drain_fields [simp]:
  "sc_last (Stop c) = sc_last c" "sc_covered (Stop c) = sc_covered c" "sc_write (Stop c) = sc_write c"
  "sc_last (snd (drain c)) = sc_last c" "sc_covered (snd (drain c)) = sc_covered c"
  "sc_write (snd (drain c)) = sc_write c"
  by (simp_all add: Stop_def drain_def)

lemma next_turn_write:
  assumes "next_turn i t wall c = (r, c')" "sc_write c \<noteq> None"
  shows "sc_write c' = sc_write c"
  using assms by (auto simp: next_turn_def Let_def split: if_splits)


section \<open>Every interleaving\<close>

fun event_legal :: "clockEvent \<Rightarrow> bool" where
  "event_legal (Turn i t wall) = in_int64 wall"
| "event_legal ev = True"

lemma sys_inv_clock:
  assumes "sys_inv minv low s" "clock_inv c" "sc_covered c = sc_covered (sys_clock s)"
    "sc_write c = sc_write (sys_clock s) \<or> sys_result s = None"
  shows "sys_inv minv low (s\<lparr>sys_clock := c\<rparr>)"
  using assms by (auto simp: sys_inv_def)

lemma sys_inv_result: "sys_inv minv low s \<Longrightarrow> sc_write (sys_clock s) = None \<Longrightarrow> sys_result s = None"
  by (auto simp: sys_inv_def)

context durable_mark
begin

lemma persist_call_sound:
  assumes inv: "sys_inv minv low s" and w: "sc_write (sys_clock s) = Some (w, mark)" "sys_result s = None"
    and eq: "persist (sys_mark s) mark = (ok, m)"
  shows "sys_inv minv low (s\<lparr>sys_mark := m, sys_result := Some ok\<rparr>)"
proof -
  have m: "minv (sys_mark s)" and c: "clock_inv (sys_clock s)" "sc_covered (sys_clock s) \<le> low (sys_mark s)"
    using inv by (auto simp: sys_inv_def)
  have "mark = sc_written (sys_clock s)" using c(1) w(1) by (simp add: clock_inv_def)
  then have "sc_covered (sys_clock s) \<le> mark" using c(1) by (simp add: clock_inv_def)
  then have "sc_covered (sys_clock s) \<le> low m" using persist_low [OF m eq] c(2) by linarith
  moreover have "mark \<le> low m" if ok using persist_ok [OF m] eq that by simp
  ultimately show ?thesis using inv w persist_inv [OF m eq] by (auto simp: sys_inv_def)
qed

lemma take_outcome_sound:
  assumes inv: "sys_inv minv low s" and r: "sys_result s = Some ok"
  shows "sys_inv minv low (s\<lparr>sys_clock := persist_outcome t ok (sys_clock s), sys_result := None\<rparr>)
    \<and> sc_last (persist_outcome t ok (sys_clock s)) = sc_last (sys_clock s)"
proof -
  obtain w mark where w: "sc_write (sys_clock s) = Some (w, mark)"
    using inv r by (cases "sc_write (sys_clock s)") (auto simp: sys_inv_def)
  have c: "clock_inv (sys_clock s)" using inv by (simp add: sys_inv_def)
  show ?thesis using inv r w persist_outcome_inv [OF c w, of t ok] by (auto simp: sys_inv_def)
qed

lemma turn_sound:
  assumes inv: "sys_inv minv low s" and wall: "in_int64 wall"
    and eq: "next_turn i t wall (sys_clock s) = (r, c)"
  shows "sys_inv minv low (s\<lparr>sys_clock := c\<rparr>)"
proof -
  have c: "clock_inv (sys_clock s)" using inv by (simp add: sys_inv_def)
  have "sc_write c = sc_write (sys_clock s) \<or> sys_result s = None"
    using next_turn_write [OF eq] sys_inv_result [OF inv] by (cases "sc_write (sys_clock s)") auto
  then show ?thesis using sys_inv_clock [OF inv] next_turn_inv(1,4) [OF c wall eq] by blast
qed

lemma clock_step_sound:
  assumes inv: "sys_inv minv low s" and legal: "event_legal ev" and eq: "clock_step persist s ev = (s', v)"
  shows "sys_inv minv low s' \<and> sc_last (sys_clock s) \<le> sc_last (sys_clock s')
    \<and> (\<forall>x. v = Some x \<longrightarrow> sc_last (sys_clock s) < x \<and> x \<le> sc_last (sys_clock s'))"
proof -
  have c: "clock_inv (sys_clock s)" using inv by (simp add: sys_inv_def)
  show ?thesis
  proof (cases ev)
    case (Turn i t wall)
    obtain r c' where n: "next_turn i t wall (sys_clock s) = (r, c')" by fastforce
    have wall: "in_int64 wall" using legal Turn by simp
    have "s' = s\<lparr>sys_clock := c'\<rparr>" "v = (case r of Issued at \<Rightarrow> Some at | _ \<Rightarrow> None)"
      using eq Turn n by (auto split: turn.splits)
    then show ?thesis using turn_sound [OF inv wall n] next_turn_inv(2,3) [OF c wall n] by (auto split: turn.splits)
  next
    case PersistCall
    then show ?thesis using eq inv persist_call_sound [OF inv]
      by (auto split: option.splits prod.splits)
  next
    case (TakeOutcome t)
    then show ?thesis using eq inv take_outcome_sound [OF inv, of _ t] by (auto split: option.splits)
  next
    case (RetryFires t wall)
    then show ?thesis
      using eq inv retryWrite_inv [OF c, of t wall] sys_inv_clock [OF inv, of "retryWrite t wall (sys_clock s)"]
        sys_inv_result [OF inv] c
      by (auto split: option.splits if_splits simp: clock_inv_def)
  qed (use eq inv c in \<open>auto intro!: sys_inv_clock bound_inv stop_drain_inv\<close>)
qed

text \<open>The start: a clock that comes up has its coverage persisted, and one that is refused leaves the mark no
  lower than it was found.\<close>

lemma new_clock_sound:
  assumes m: "minv m" and found: "case found of None \<Rightarrow> low m \<le> 0 | Some v \<Rightarrow> 0 \<le> v \<and> v < SigningCeiling \<and> low m \<le> v"
    and eq: "NewDurableSigningClock persist tick wall expired found m = (r, m')"
  shows "minv m' \<and> max 0 (low m) \<le> max 0 (low m')
    \<and> (\<forall>s. r = Inr s \<longrightarrow> sys_inv minv low s \<and> sys_mark s = m' \<and> max 0 (low m) \<le> sc_last (sys_clock s))"
proof -
  define lo where "lo = (case found of None \<Rightarrow> 0 | Some v \<Rightarrow> v)"
  define start1 where "start1 = (case found of None \<Rightarrow> wrap64 (wall + signingReservation)
    | Some v \<Rightarrow> max (wrap64 (wall + signingReservation)) v)"
  define start where "start = min start1 (SigningCeiling - 1)"
  define first where "first = (case found of None \<Rightarrow> wall | Some v \<Rightarrow> max wall (wrap64 (v + 1)))"
  have lo: "0 \<le> lo" "lo < SigningCeiling" "low m \<le> lo"
    using found by (auto simp: lo_def SigningCeiling_def maxInt64_def split: option.splits)
  have st: "found \<noteq> None \<Longrightarrow> lo \<le> start"
    using found by (auto simp: lo_def start_def start1_def split: option.splits)
  obtain ok m1 where p: "persist m start = (ok, m1)" by fastforce
  define c where "c = NewSigningClock\<lparr>sc_durable := True, sc_last := lo, sc_covered := max lo start, sc_written := start,
    sc_writeStarted := tick\<rparr>"
  have r: "(r, m') = (if first \<ge> SigningCeiling then (Inl StartExhausted, m)
      else if expired then (Inl StartWriteOutstanding, m1) else if \<not> ok then (Inl StartWriteFailed, m1)
      else (Inr \<lparr>sys_clock = c, sys_mark = m1, sys_result = None\<rparr>, m1))"
    using eq p unfolding NewDurableSigningClock_def
    by (cases found) (auto simp: Let_def c_def lo_def start_def start1_def first_def NewSigningClock_def split: if_splits)
  have low1: "max 0 (low m) \<le> max 0 (low m1)"
    using persist_low [OF m p] st lo found by (cases found) auto
  have up: "sys_inv minv low \<lparr>sys_clock = c, sys_mark = m1, sys_result = None\<rparr>" if ok
  proof -
    have s: "0 \<le> start" "start < SigningCeiling" "start \<le> low m1" using persist_ok [OF m] p that by auto
    have "lo \<le> start" using st s by (cases found) (auto simp: lo_def)
    then show ?thesis
      using s lo persist_inv [OF m p] by (simp add: sys_inv_def clock_inv_def c_def NewSigningClock_def)
  qed
  have "max 0 (low m) \<le> sc_last c" using lo by (simp add: c_def)
  then show ?thesis using r low1 up m persist_inv [OF m p] by (auto split: if_splits)
qed

end

text \<open>So a clock over any mark with these laws is an issuer: the values strictly increase, whatever the order of
  turns, writes, timers and retries.\<close>

sublocale durable_mark \<subseteq> cs: issuer "sys_inv minv low" "\<lambda>s. event_legal" "\<lambda>s. sc_last (sys_clock s)" "clock_step persist"
proof (unfold_locales, goal_cases)
  case (1 s i s' v)
  then show ?case using clock_step_sound by blast
next
  case (2 s i s')
  then show ?case using clock_step_sound by blast
next
  case (3 s i s' x)
  then show ?case using clock_step_sound by blast
qed

end
