(* ===== verification/Gateway_State.thy ===== *)
theory Gateway_State
  imports Signing_Clock
begin

text \<open>
  The gateway's state directory, \<open>internal/gatewaystate\<close>: the ownership marker, and the persisted mark of the
  message signing clock, which provides the interface \<open>durable_mark\<close>. The last part puts the clock and its mark
  together and lets the process crash and start again.
\<close>

section \<open>The marker\<close>

definition markerName :: string where
  "markerName = ''.ori-gateway-state-v1''"

definition markerBody :: string where
  "markerBody = ''ori-gateway state directory v1'' @ [CHR 0x0A]"

definition lockName :: string where
  "lockName = ''.ori-gateway-state.lock''"

definition markName :: string where
  "markName = ''.ori-signed-at-messages''"

definition markMaxBytes :: nat where
  "markMaxBytes = 64"

definition adoptionLeftover :: "string \<Rightarrow> bool" where
  "adoptionLeftover name \<longleftrightarrow> name = lockName
     \<or> HasPrefix name (markerName @ ''.'') \<and> length name > length markerName + 1"

definition writeAtomically :: "string \<Rightarrow> string \<Rightarrow> disk \<Rightarrow> ioError option \<times> disk" where
  "writeAtomically name body d = write_atomic (name @ ''.'') name body d"

datatype stateError =
    ReadFailed
  | CorruptMarker
  | NotStateDirectory
  | MarkerWrite ioError
  | CorruptMark

text \<open>\<open>readAtMost\<close>: the first bytes of a regular file.\<close>

definition readAtMost :: "dentry \<Rightarrow> nat \<Rightarrow> disk \<Rightarrow> string option \<times> disk" where
  "readAtMost e limit d0 = (let (ok, d) = io d0 in if ok then (Some (take limit (de_body e)), d) else (None, d))"

definition ensureMarker :: "disk \<Rightarrow> stateError option \<times> disk" where
  "ensureMarker d0 =
     (let (ok, d) = io d0
      in if \<not> ok then (Some ReadFailed, d)
         else case fmlookup (dk_live d) markerName of
           Some e \<Rightarrow>
             if de_kind e \<noteq> Regular then (Some CorruptMarker, d)
             else (case readAtMost e (length markerBody + 1) d of
                     (None, d) \<Rightarrow> (Some ReadFailed, d)
                   | (Some body, d) \<Rightarrow> if body \<noteq> markerBody then (Some CorruptMarker, d) else (None, d))
         | None \<Rightarrow>
             (let (ok, d) = io d
              in if \<not> ok then (Some ReadFailed, d)
                 else if list_ex (\<lambda>n. (case fmlookup (dk_live d) n of None \<Rightarrow> True | Some e \<Rightarrow> de_kind e \<noteq> Regular)
                                    \<or> \<not> adoptionLeftover n) (dir_names d)
                 then (Some NotStateDirectory, d)
                 else (case writeAtomically markerName markerBody d of
                         (Some e, d) \<Rightarrow> (Some (MarkerWrite e), d)
                       | (None, d) \<Rightarrow> (None, d))))"

section \<open>The mark\<close>

record mark =
  mk_disk :: disk
  mk_found :: "int option"
  mk_persisted :: int

text \<open>\<open>strings.Trim(digits, "0123456789") != ""\<close>: some character is not a digit.\<close>

definition parseMark :: "string \<Rightarrow> int option" where
  "parseMark body =
     (let digits = TrimPrefix (TrimSpace body) ''+''
      in if digits = [] \<or> dropWhile is_digit (rev (dropWhile is_digit digits)) \<noteq> [] then None
         else case parseInt64 digits of
           None \<Rightarrow> None
         | Some v \<Rightarrow> if v \<ge> SigningCeiling then None else Some v)"

definition readMark :: "disk \<Rightarrow> (stateError + mark) \<times> disk" where
  "readMark d0 =
     (let (ok, d) = io d0
      in if \<not> ok then (Inl ReadFailed, d)
         else case fmlookup (dk_live d) markName of
           None \<Rightarrow> (Inr \<lparr>mk_disk = d, mk_found = None, mk_persisted = -1\<rparr>, d)
         | Some e \<Rightarrow>
             if de_kind e \<noteq> Regular then (Inl CorruptMark, d)
             else (case readAtMost e (markMaxBytes + 1) d of
                     (None, d) \<Rightarrow> (Inl ReadFailed, d)
                   | (Some body, d) \<Rightarrow>
                       if length body > markMaxBytes then (Inl CorruptMark, d)
                       else (case parseMark body of
                               None \<Rightarrow> (Inl CorruptMark, d)
                             | Some v \<Rightarrow> (Inr \<lparr>mk_disk = d, mk_found = Some v, mk_persisted = -1\<rparr>, d))))"

definition Mark_Persist :: "mark \<Rightarrow> int \<Rightarrow> bool \<times> mark" where
  "Mark_Persist m v =
     (if v < 0 \<or> v \<ge> SigningCeiling then (False, m)
      else if v \<le> mk_persisted m then (True, m)
      else case writeAtomically markName (itoa v @ [CHR 0x0A]) (mk_disk m) of
        (Some e, d) \<Rightarrow> (False, m\<lparr>mk_disk := d\<rparr>)
      | (None, d) \<Rightarrow> (True, m\<lparr>mk_disk := d, mk_persisted := v\<rparr>))"

section \<open>What a start finds\<close>

text \<open>The value a start reads at the mark's name: -1 when there is no file, \<^const>\<open>None\<close> when it refuses the
  file.\<close>

definition mark_value :: "dentry option \<Rightarrow> int option" where
  "mark_value e =
     (case e of None \<Rightarrow> Some (-1)
      | Some e \<Rightarrow> if de_kind e \<noteq> Regular \<or> length (de_body e) > markMaxBytes then None else parseMark (de_body e))"

definition mark_low :: "disk \<Rightarrow> int" where
  "mark_low d = min (the (mark_value (fmlookup (dk_live d) markName))) (the (mark_value (fmlookup (dk_synced d) markName)))"

definition mark_ok :: "disk \<Rightarrow> bool" where
  "mark_ok d \<longleftrightarrow> mark_value (fmlookup (dk_live d) markName) \<noteq> None \<and> mark_value (fmlookup (dk_synced d) markName) \<noteq> None"

definition Mark_inv :: "mark \<Rightarrow> bool" where
  "Mark_inv m \<longleftrightarrow> mark_ok (mk_disk m) \<and> mk_persisted m \<le> mark_low (mk_disk m)"

lemma mark_value_written:
  assumes "0 \<le> v" "v < SigningCeiling"
  shows "mark_value (Some (private_file (itoa v @ [CHR 0x0A]))) = Some v"
proof -
  have d: "itoa v = dec v" "all_digits (dec v)" using assms dec_digits by (simp_all add: itoa_def)
  have t: "TrimSpace (itoa v @ [CHR 0x0A]) = dec v" using TrimSpace_digits(2) [OF d(2)] d by simp
  obtain c cs where c: "dec v = c # cs" "is_digit c" using dec_Cons assms(1) by blast
  have p: "TrimPrefix (dec v) ''+'' = dec v"
    using c is_digit_neq [OF c(2)] by (simp add: TrimPrefix_def HasPrefix_def)
  have w: "dropWhile is_digit (dec v) = []"
    using d(2) by (simp add: all_digits_def list_all_iff dropWhile_eq_Nil_conv)
  have ne: "dec v \<noteq> []" using c by simp
  have "in_int64 v" using assms by (simp add: in_int64_def SigningCeiling_def minInt64_def)
  then have "parseInt64 (dec v) = Some v" using parseInt64_itoa [of v] d by simp
  then have "parseMark (itoa v @ [CHR 0x0A]) = Some v"
    using assms(2) ne unfolding parseMark_def t p w Let_def by simp
  moreover have "length (dec v) \<le> 19"
    by (rule dec_length) (use assms in \<open>simp_all add: SigningCeiling_def maxInt64_def\<close>)
  ultimately show ?thesis using d(1) by (simp add: mark_value_def private_file_def markMaxBytes_def)
qed


lemma markName_not_temp: "not_temp (markName @ ''.'') markName"
  by (auto simp: not_temp_def temp_name_def)

lemma Persist_sound:
  assumes inv: "Mark_inv m" and eq: "Mark_Persist m v = (ok, m')"
  shows "Mark_inv m' \<and> (ok \<longrightarrow> 0 \<le> v \<and> v < SigningCeiling \<and> v \<le> mark_low (mk_disk m'))
    \<and> min (mark_low (mk_disk m)) v \<le> mark_low (mk_disk m')"
proof (cases "v < 0 \<or> v \<ge> SigningCeiling \<or> v \<le> mk_persisted m")
  case True
  then show ?thesis using assms by (auto simp: Mark_Persist_def Mark_inv_def split: if_splits)
next
  case False
  obtain err d where w: "writeAtomically markName (itoa v @ [CHR 0x0A]) (mk_disk m) = (err, d)" by fastforce
  have m': "m' = (if err = None then m\<lparr>mk_disk := d, mk_persisted := v\<rparr> else m\<lparr>mk_disk := d\<rparr>)"
    "ok = (err = None)"
    using eq w False by (auto simp: Mark_Persist_def split: option.splits)
  have val: "mark_value (Some (private_file (itoa v @ [CHR 0x0A]))) = Some v"
    using False by (simp add: mark_value_written)
  have ok: "mark_ok d \<and> min (mark_low (mk_disk m)) v \<le> mark_low d \<and> (err = None \<longrightarrow> mark_low d = v)"
    using w [unfolded writeAtomically_def] markName_not_temp
  proof (cases rule: write_atomic_cases)
    case failed
    then show ?thesis using inv markName_not_temp
      by (auto simp: Mark_inv_def mark_ok_def mark_low_def untouched_def)
  next
    case written
    from written(2) [OF markName_not_temp] have "fmlookup (dk_live d) markName = Some (private_file (itoa v @ [CHR 0x0A]))"
      by simp
    then show ?thesis using inv val written(3)
      by (auto simp: Mark_inv_def mark_ok_def mark_low_def)
  qed
  then show ?thesis using m' inv False by (auto simp: Mark_inv_def)
qed

interpretation gm: durable_mark Mark_Persist "\<lambda>m. mark_low (mk_disk m)" Mark_inv
proof (unfold_locales, goal_cases)
  case (1 m mark ok m')
  then show ?case using Persist_sound by blast
next
  case (2 m mark m')
  then show ?case using Persist_sound by blast
next
  case (3 m mark ok m')
  then show ?case using Persist_sound by blast
qed

section \<open>Crashes and starts\<close>

text \<open>The process is up with its clock and mark, or down with the directory. A start reads the mark and starts the
  clock, and stays down when either refuses; the first write may have reached the disk all the same.\<close>

datatype world = Up "mark clocksys" | Down disk

datatype worldEvent = Clock clockEvent | Crash disk | Start int int bool

definition start :: "int \<Rightarrow> int \<Rightarrow> bool \<Rightarrow> disk \<Rightarrow> world" where
  "start tick wall expired d0 =
     (case readMark d0 of
        (Inl e, d) \<Rightarrow> Down d
      | (Inr m, d) \<Rightarrow>
          (case NewDurableSigningClock Mark_Persist tick wall expired (mk_found m) m of
             (Inl e, m') \<Rightarrow> Down (mk_disk m')
           | (Inr s, m') \<Rightarrow> Up s))"

fun world_step :: "world \<Rightarrow> worldEvent \<Rightarrow> world \<times> int option" where
  "world_step (Up s) (Clock ev) = (case clock_step Mark_Persist s ev of (s', v) \<Rightarrow> (Up s', v))"
| "world_step (Up s) (Crash d) = (Down d, None)"
| "world_step (Down d) (Crash d') = (Down d', None)"
| "world_step (Down d) (Start tick wall expired) = (start tick wall expired d, None)"
| "world_step w ev = (w, None)"

fun world_disk :: "world \<Rightarrow> disk" where
  "world_disk (Up s) = mk_disk (sys_mark s)"
| "world_disk (Down d) = d"

fun world_inv :: "world \<Rightarrow> bool" where
  "world_inv (Up s) = sys_inv Mark_inv (\<lambda>m. mark_low (mk_disk m)) s"
| "world_inv (Down d) = mark_ok d"

fun world_high :: "world \<Rightarrow> int" where
  "world_high (Up s) = sc_last (sys_clock s)"
| "world_high (Down d) = max 0 (mark_low d)"

text \<open>A crash leaves what the crash relation allows and does not fall in an episode; a start before a
  crash reads the directory as it is. Wall clock readings are \<open>int64\<close>.\<close>

fun world_legal :: "world \<Rightarrow> worldEvent \<Rightarrow> bool" where
  "world_legal w (Clock ev) = event_legal ev"
| "world_legal (Up s) (Crash d) = (\<not> Degraded (sys_clock s) \<and> crash {markName @ ''.''} (mk_disk (sys_mark s)) d)"
| "world_legal (Down d) (Crash d') = crash {markName @ ''.''} d d'"
| "world_legal w (Start tick wall expired) = in_int64 wall"

lemma trim_digits: "dropWhile is_digit (rev (dropWhile is_digit s)) = [] \<Longrightarrow> list_all is_digit s"
proof -
  assume "dropWhile is_digit (rev (dropWhile is_digit s)) = []"
  then have all: "\<forall>c \<in> set (dropWhile is_digit s). is_digit c" by (simp only: dropWhile_eq_Nil_conv set_rev)
  have "dropWhile is_digit s = []"
  proof (rule ccontr)
    assume "dropWhile is_digit s \<noteq> []"
    then show False using hd_dropWhile [of is_digit s] all hd_in_set by blast
  qed
  then show ?thesis by (simp only: dropWhile_eq_Nil_conv list_all_iff)
qed

lemma parseMark_range: "parseMark body = Some v \<Longrightarrow> 0 \<le> v \<and> v < SigningCeiling"
proof -
  assume p: "parseMark body = Some v"
  define digits where "digits = TrimPrefix (TrimSpace body) ''+''"
  have d: "digits \<noteq> []" "dropWhile is_digit (rev (dropWhile is_digit digits)) = []"
    "parseInt64 digits = Some v" "v < SigningCeiling"
    using p by (auto simp: parseMark_def digits_def [symmetric] Let_def split: if_splits option.splits)
  then have "all_digits digits" "list_all is_digit digits" using trim_digits by (simp_all add: all_digits_def)
  then show ?thesis using d dec_val_nonneg by (auto simp: parseInt64_digits split: if_splits)
qed

lemma mark_value_range: "mark_value e = Some v \<Longrightarrow> -1 \<le> v \<and> v < SigningCeiling"
  using parseMark_range by (force simp: mark_value_def SigningCeiling_def maxInt64_def split: option.splits if_splits)

lemma mark_low_ge: "mark_ok d \<Longrightarrow> -1 \<le> mark_low d"
  using mark_value_range by (fastforce simp: mark_ok_def mark_low_def)

lemma readMark_spec:
  assumes ok: "mark_ok d" and eq: "readMark d = (r, d')"
  shows "mark_ok d' \<and> mark_low d' = mark_low d"
    "r = Inr m \<Longrightarrow> mk_disk m = d' \<and> mk_persisted m = -1
      \<and> (case mk_found m of None \<Rightarrow> mark_low d \<le> 0 | Some v \<Rightarrow> 0 \<le> v \<and> v < SigningCeiling \<and> mark_low d \<le> v)"
proof -
  obtain ok1 d1 where 1: "io d = (ok1, d1)" by fastforce
  obtain ok2 d2 where 2: "io d1 = (ok2, d2)" by fastforce
  note f = io_fields [OF 1] io_fields [OF 2]
  have d': "d' = d \<or> d' = d1 \<or> d' = d2"
    using eq 1 2 by (auto simp: readMark_def readAtMost_def split: option.splits if_splits)
  then show "mark_ok d' \<and> mark_low d' = mark_low d" using ok f by (auto simp: mark_ok_def mark_low_def)
  assume r: "r = Inr m"
  show "mk_disk m = d' \<and> mk_persisted m = -1
      \<and> (case mk_found m of None \<Rightarrow> mark_low d \<le> 0 | Some v \<Rightarrow> 0 \<le> v \<and> v < SigningCeiling \<and> mark_low d \<le> v)"
  proof (cases "fmlookup (dk_live d) markName")
    case None
    then show ?thesis using eq 1 f r
      by (auto simp: readMark_def mark_low_def mark_value_def split: if_splits)
  next
    case (Some e)
    then obtain v where v: "mark_value (Some e) = Some v" using ok by (auto simp: mark_ok_def)
    then have "parseMark (de_body e) = Some v" "length (de_body e) \<le> markMaxBytes" "de_kind e = Regular"
      by (auto simp: mark_value_def split: if_splits)
    then show ?thesis using eq 1 2 f r Some v parseMark_range [of "de_body e" v]
      by (auto simp: readMark_def readAtMost_def mark_low_def split: if_splits)
  qed
qed

lemma start_sound:
  assumes ok: "mark_ok d" and wall: "in_int64 wall"
  shows "world_inv (start tick wall expired d) \<and> world_high (Down d) \<le> world_high (start tick wall expired d)"
proof -
  obtain r d1 where 1: "readMark d = (r, d1)" by fastforce
  note rm = readMark_spec [OF ok 1]
  show ?thesis
  proof (cases r)
    case (Inl e)
    then show ?thesis using 1 rm(1) by (simp add: start_def)
  next
    case (Inr m)
    note m = rm(2) [OF Inr]
    have minv: "Mark_inv m" using m rm(1) mark_low_ge [of d1] by (simp add: Mark_inv_def)
    obtain r2 m' where n: "NewDurableSigningClock Mark_Persist tick wall expired (mk_found m) m = (r2, m')" by fastforce
    have "case mk_found m of None \<Rightarrow> mark_low (mk_disk m) \<le> 0
      | Some v \<Rightarrow> 0 \<le> v \<and> v < SigningCeiling \<and> mark_low (mk_disk m) \<le> v"
      using m rm(1) by (auto split: option.splits)
    note new = gm.new_clock_sound [OF minv this n]
    then show ?thesis using 1 Inr n m rm(1) by (cases r2) (auto simp: start_def Mark_inv_def)
  qed
qed

lemma crash_mark:
  assumes "crash {markName @ ''.''} d d'" "mark_ok d"
  shows "mark_ok d' \<and> mark_low d \<le> mark_low d'"
proof -
  have "fmlookup (dk_live d') markName = fmlookup (dk_live d) markName \<or> fmlookup (dk_live d') markName = fmlookup (dk_synced d) markName"
    using assms(1) markName_not_temp by (simp add: crash_def)
  moreover have "dk_synced d' = dk_live d'" using assms(1) by (simp add: crash_def)
  ultimately show ?thesis using assms(2) by (auto simp: mark_ok_def mark_low_def)
qed

lemma world_step_sound:
  assumes inv: "world_inv w" and legal: "world_legal w ev" and eq: "world_step w ev = (w', v)"
  shows "world_inv w' \<and> world_high w \<le> world_high w' \<and> (\<forall>x. v = Some x \<longrightarrow> world_high w < x \<and> x \<le> world_high w')"
proof (cases "(w, ev)" rule: world_step.cases)
  case (1 s cev)
  obtain s' v' where c: "clock_step Mark_Persist s cev = (s', v')" by fastforce
  have "sys_inv Mark_inv (\<lambda>m. mark_low (mk_disk m)) s" "event_legal cev" using 1 inv legal by auto
  from gm.clock_step_sound [OF this c] show ?thesis using 1 eq c by auto
next
  case (2 s d)
  then have s: "sys_inv Mark_inv (\<lambda>m. mark_low (mk_disk m)) s" "\<not> Degraded (sys_clock s)"
    "crash {markName @ ''.''} (mk_disk (sys_mark s)) d" using inv legal by auto
  then have "sc_last (sys_clock s) \<le> sc_covered (sys_clock s)" "sc_covered (sys_clock s) \<le> mark_low (mk_disk (sys_mark s))"
    "mark_ok (mk_disk (sys_mark s))"
    by (auto simp: sys_inv_def clock_inv_def Degraded_def Mark_inv_def)
  then show ?thesis using crash_mark [OF s(3)] 2 eq by auto
next
  case (3 d d')
  then show ?thesis using crash_mark [of d d'] inv legal eq by auto
next
  case (4 d tick wall expired)
  then show ?thesis using start_sound [of d wall tick expired] inv legal eq by auto
qed (use inv eq in auto)

interpretation gw: issuer world_inv world_legal world_high world_step
proof (unfold_locales, goal_cases)
  case (1 s i s' v)
  then show ?case using world_step_sound by blast
next
  case (2 s i s')
  then show ?case using world_step_sound by blast
next
  case (3 s i s' x)
  then show ?case using world_step_sound by blast
qed

text \<open>A concrete run, for the witnesses: a first start at 1000 ms, a value, a crash, a start under a clock that
  stepped back, and a value past the mark found, which waits for its write.\<close>

definition empty_dir :: disk where
  "empty_dir = \<lparr>dk_live = fmempty, dk_synced = fmempty, dk_script = [], dk_fresh = 0\<rparr>"

definition mark_dir :: "int \<Rightarrow> disk" where
  "mark_dir v = (let files = fmupd markName (private_file (itoa v @ [CHR 0x0A])) fmempty
     in \<lparr>dk_live = files, dk_synced = files, dk_script = [], dk_fresh = 1\<rparr>)"

definition sample_up :: "mark clocksys" where
  "sample_up = \<lparr>sys_clock = NewSigningClock\<lparr>sc_durable := True, sc_last := 1000, sc_covered := 2000, sc_written := 2000\<rparr>,
     sys_mark = \<lparr>mk_disk = mark_dir 2000, mk_found = None, mk_persisted = 2000\<rparr>, sys_result = None\<rparr>"

definition sample_run :: "worldEvent list" where
  "sample_run = [Start 0 1000 False, Clock (Turn 0 0 1000), Crash (mark_dir 2000), Start 5 900 False,
     Clock (Turn 0 6 900), Clock PersistCall, Clock (TakeOutcome 7), Clock (Turn 0 8 901)]"

lemma sample_up_run:
  "fst (world_step (fst (world_step (Down empty_dir) (Start 0 1000 False))) (Clock (Turn 0 0 1000))) = Up sample_up"
  by code_simp

lemma sample_legal: "legal_run world_legal world_step (Down empty_dir) sample_run"
proof -
  have "crash {markName @ ''.''} (mk_disk (sys_mark sample_up)) (mark_dir 2000)" "\<not> Degraded (sys_clock sample_up)"
    by (simp_all add: crash_def mark_dir_def sample_up_def Degraded_def NewSigningClock_def Let_def)
  then show ?thesis
    by (simp add: sample_run_def sample_up_run in_int64_def minInt64_def maxInt64_def del: world_step.simps)
qed

lemma empty_dir_ok: "mark_ok empty_dir"
  by (simp add: mark_ok_def empty_dir_def mark_value_def)

section \<open>Properties\<close>



text \<open>While the clock does not report itself degraded, every value issued is at or below the mark a later start
  finds, whatever a crash leaves of the directory; while it does, a write is outstanding or a retry is scheduled, never
  sooner than one second after the previous write started, unless the clock was stopped. Every value is below the
  ceiling, so none of the clock's sums overflow.\<close>

theorem signing_clock_coverage:
  assumes "mark_ok d" and "legal_run world_legal world_step (Down d) evs"
    and "issue_run world_step (Down d) evs = (Up s, vs)"
  shows "(\<not> Degraded (sys_clock s) \<longrightarrow> (\<forall>v \<in> set vs. v \<le> mark_low (mk_disk (sys_mark s))))
    \<and> (Degraded (sys_clock s) \<and> \<not> sc_closed (sys_clock s) \<longrightarrow>
         sc_write (sys_clock s) \<noteq> None \<or> sc_retry (sys_clock s) \<noteq> None)
    \<and> (\<forall>due. sc_retry (sys_clock s) = Some due \<longrightarrow> sc_writeStarted (sys_clock s) + markRetryPacing \<le> due)
    \<and> (\<forall>v \<in> set vs. v < SigningCeiling)"
proof -
  have "world_inv (Down d)" using assms by simp
  from gw.run_increasing [OF this assms(2,3)]
  have inv: "sys_inv Mark_inv (\<lambda>m. mark_low (mk_disk m)) s" and vs: "\<forall>v \<in> set vs. v \<le> sc_last (sys_clock s)" by auto
  have c: "clock_inv (sys_clock s)" "sc_covered (sys_clock s) \<le> mark_low (mk_disk (sys_mark s))"
    using inv by (auto simp: sys_inv_def)
  show ?thesis using c vs unfolding clock_inv_def Degraded_def by force
qed

theorem signing_clock_coverage_witness:
  "1000 \<le> mark_low (mk_disk (sys_mark sample_up))"
proof -
  have r: "issue_run world_step (Down empty_dir) [Start 0 1000 False, Clock (Turn 0 0 1000)] = (Up sample_up, [1000])"
    by code_simp
  have l: "legal_run world_legal world_step (Down empty_dir) [Start 0 1000 False, Clock (Turn 0 0 1000)]"
    by (simp add: in_int64_def minInt64_def maxInt64_def del: world_step.simps)
  have "\<not> Degraded (sys_clock sample_up)" by (simp add: sample_up_def Degraded_def NewSigningClock_def)
  with signing_clock_coverage [OF empty_dir_ok l r] show ?thesis by simp
qed

end
