(* ===== verification/Evidence_Clock.thy ===== *)
theory Evidence_Clock
  imports Issuer
begin

text \<open>
  The acknowledgement and return clocks, \<open>internal/evidence/signingclock\<close>: each keeps its last value
  in a file of the queue's directory and persists a value before it returns it.
\<close>

section \<open>The clock\<close>

definition FilePrefix :: string where
  "FilePrefix = ''.ori-signed-at-''"

definition outboundAckSigningName :: string where
  "outboundAckSigningName = FilePrefix @ ''outbound-ack''"

definition inboundReturnSigningName :: string where
  "inboundReturnSigningName = FilePrefix @ ''inbound-return''"

record evClock =
  ec_name :: string
  ec_last :: int

datatype openError = ReadError | NotRegular | Corrupt

text \<open>\<open>openSigningClock\<close> on the directory: the look-up and the read may fail; a file that is not
  there is a clock that has issued nothing.\<close>

definition openSigningClock :: "string \<Rightarrow> disk \<Rightarrow> (openError + evClock) \<times> disk" where
  "openSigningClock name d0 =
     (let (ok, d) = io d0
      in if \<not> ok then (Inl ReadError, d)
         else (case fmlookup (dk_live d) name of
           None \<Rightarrow> (Inr \<lparr>ec_name = name, ec_last = 0\<rparr>, d)
         | Some e \<Rightarrow>
             if de_kind e \<noteq> Regular then (Inl NotRegular, d)
             else let (ok, d) = io d
             in if \<not> ok then (Inl ReadError, d)
             else (case parseInt64 (TrimSpace (de_body e)) of
               None \<Rightarrow> (Inl Corrupt, d)
             | Some v \<Rightarrow> if v < 0 then (Inl Corrupt, d) else (Inr \<lparr>ec_name = name, ec_last = v\<rparr>, d))))"

definition ec_persist :: "evClock \<Rightarrow> int \<Rightarrow> disk \<Rightarrow> ioError option \<times> disk" where
  "ec_persist c at d = write_atomic (ec_name c @ ''.'') (ec_name c) (itoa at @ [CHR 0x0A]) d"

definition ec_Next :: "evClock \<Rightarrow> int \<Rightarrow> disk \<Rightarrow> (ioError + int) \<times> evClock \<times> disk" where
  "ec_Next c wall d =
     (let at = (if wall \<le> ec_last c then wrap64 (ec_last c + 1) else wall)
      in case ec_persist c at d of
           (Some e, d') \<Rightarrow> (Inl e, c, d')
         | (None, d') \<Rightarrow> (Inr at, c\<lparr>ec_last := at\<rparr>, d'))"

section \<open>Runs with crashes\<close>

text \<open>A gateway is up with its clock, or down with the directory only. A crash leaves a directory
  the crash relation allows; a start opens the clock and stays down when it cannot.\<close>

datatype ecState = Up evClock disk | Down string disk

datatype ecEvent = Next int | Crash disk | Open

fun ec_step :: "ecState \<Rightarrow> ecEvent \<Rightarrow> ecState \<times> int option" where
  "ec_step (Up c d) (Next wall) =
     (case ec_Next c wall d of (Inl e, c', d') \<Rightarrow> (Up c' d', None) | (Inr at, c', d') \<Rightarrow> (Up c' d', Some at))"
| "ec_step (Up c d) (Crash d') = (Down (ec_name c) d', None)"
| "ec_step (Down name d) Open =
     (case openSigningClock name d of (Inl e, d') \<Rightarrow> (Down name d', None) | (Inr c, d') \<Rightarrow> (Up c d', None))"
| "ec_step (Down name d) (Crash d') = (Down name d', None)"
| "ec_step s ev = (s, None)"

text \<open>The file's value as a later start reads it, or -1 when there is no file; a file a start
  refuses has none.\<close>

definition file_value :: "dentry option \<Rightarrow> int option" where
  "file_value e =
     (case e of None \<Rightarrow> Some (-1)
      | Some e \<Rightarrow> if de_kind e \<noteq> Regular then None
                 else (case parseInt64 (TrimSpace (de_body e)) of None \<Rightarrow> None
                       | Some v \<Rightarrow> if v < 0 then None else Some v))"

definition file_ok :: "int \<Rightarrow> dentry option \<Rightarrow> bool" where
  "file_ok low e \<longleftrightarrow> (case file_value e of None \<Rightarrow> False | Some v \<Rightarrow> low \<le> v)"

definition file_low :: "string \<Rightarrow> disk \<Rightarrow> int" where
  "file_low name d = min (the (file_value (fmlookup (dk_live d) name))) (the (file_value (fmlookup (dk_synced d) name)))"

fun ec_high :: "ecState \<Rightarrow> int" where
  "ec_high (Up c d) = ec_last c"
| "ec_high (Down name d) = max 0 (file_low name d)"

definition files_ok :: "int \<Rightarrow> string \<Rightarrow> disk \<Rightarrow> bool" where
  "files_ok low name d \<longleftrightarrow> file_ok low (fmlookup (dk_live d) name) \<and> file_ok low (fmlookup (dk_synced d) name)"

fun ec_inv :: "ecState \<Rightarrow> bool" where
  "ec_inv (Up c d) \<longleftrightarrow> 0 \<le> ec_last c \<and> ec_last c \<le> maxInt64 \<and>
     files_ok (if ec_last c = 0 then -1 else ec_last c) (ec_name c) d"
| "ec_inv (Down name d) \<longleftrightarrow> files_ok (-1) name d \<and> dk_synced d = dk_live d"

text \<open>The clock readings are \<open>int64\<close>, a crash leaves what the crash relation allows, and a value
  is asked for only while the last one can be exceeded.\<close>

fun ec_legal :: "ecState \<Rightarrow> ecEvent \<Rightarrow> bool" where
  "ec_legal (Up c d) (Next wall) \<longleftrightarrow> in_int64 wall \<and> ec_last c < maxInt64"
| "ec_legal (Up c d) (Crash d') \<longleftrightarrow> crash {ec_name c @ ''.''} d d'"
| "ec_legal (Down name d) (Crash d') \<longleftrightarrow> crash {name @ ''.''} d d'"
| "ec_legal s ev \<longleftrightarrow> True"

section \<open>What the file holds\<close>

lemma file_value_private:
  assumes "0 \<le> v" "v \<le> maxInt64"
  shows "file_value (Some (private_file (itoa v @ [CHR 0x0A]))) = Some v"
proof -
  have "TrimSpace (itoa v @ [CHR 0x0A]) = itoa v"
    using TrimSpace_digits(2) [OF dec_digits, of v] assms(1) by (simp add: itoa_def)
  then show ?thesis
    using assms parseInt64_itoa [of v] by (simp add: file_value_def private_file_def in_int64_def minInt64_def)
qed

lemma name_not_temp: "not_temp (name @ ''.'') name"
  by (auto simp: not_temp_def temp_name_def)

lemma persist_files:
  assumes w: "ec_persist c at d = (err, d')" and at: "0 \<le> at" "at \<le> maxInt64" "low \<le> at"
    and ok: "files_ok low (ec_name c) d"
  shows "files_ok low (ec_name c) d'" "err = None \<Longrightarrow> files_ok at (ec_name c) d'"
proof -
  have val: "file_value (Some (private_file (itoa at @ [CHR 0x0A]))) = Some at"
    using at by (simp add: file_value_private)
  show "files_ok low (ec_name c) d'" "err = None \<Longrightarrow> files_ok at (ec_name c) d'"
    using w [unfolded ec_persist_def] name_not_temp
    by (cases rule: write_atomic_cases;
        use ok at val name_not_temp [of "ec_name c"] in \<open>auto simp: files_ok_def file_ok_def untouched_def\<close>)+
qed


section \<open>The contract\<close>

lemma file_ok_mono: "file_ok low e \<Longrightarrow> low' \<le> low \<Longrightarrow> file_ok low' e"
  by (auto simp: file_ok_def split: option.splits)

lemma file_value_range: "file_value e = Some v \<Longrightarrow> -1 \<le> v \<and> v \<le> maxInt64"
  using parseInt64_range
  by (fastforce simp: file_value_def in_int64_def maxInt64_def split: option.splits if_splits)

lemma Next_inv:
  assumes inv: "ec_inv (Up c d)" and "in_int64 wall" "ec_last c < maxInt64"
    and eq: "ec_Next c wall d = (r, c', d')"
  shows "ec_inv (Up c' d')" "ec_last c \<le> ec_last c'" "r = Inr at \<Longrightarrow> ec_last c < at \<and> at = ec_last c'"
    "r = Inl e \<Longrightarrow> c' = c"
proof -
  define at' where "at' = (if wall \<le> ec_last c then wrap64 (ec_last c + 1) else wall)"
  have at: "ec_last c < at'" "at' \<le> maxInt64"
    using assms by (auto simp: at'_def in_int64_def minInt64_def)
  obtain err d1 where p: "ec_persist c at' d = (err, d1)" by fastforce
  have r: "(r, c', d') = (case err of Some e \<Rightarrow> (Inl e, c, d1) | None \<Rightarrow> (Inr at', c\<lparr>ec_last := at'\<rparr>, d1))"
    using eq p by (auto simp: ec_Next_def at'_def [symmetric] Let_def split: option.splits)
  have ok: "files_ok (if ec_last c = 0 then -1 else ec_last c) (ec_name c) d" "0 \<le> ec_last c"
    using inv by auto
  note f = persist_files [OF p _ at(2) _ ok(1)]
  show "ec_inv (Up c' d')" "ec_last c \<le> ec_last c'" "r = Inr at \<Longrightarrow> ec_last c < at \<and> at = ec_last c'"
    "r = Inl e \<Longrightarrow> c' = c"
    using r at ok inv f by (auto split: option.splits)
qed

lemma open_inv:
  assumes "ec_inv (Down name d)" "openSigningClock name d = (Inr c, d')"
  shows "ec_inv (Up c d')" "ec_high (Down name d) \<le> ec_last c"
proof -
  obtain ok1 d1 where 1: "io d = (ok1, d1)" by fastforce
  obtain ok2 d2 where 2: "io d1 = (ok2, d2)" by fastforce
  note f = io_fields [OF 1] io_fields [OF 2]
  have d': "dk_live d' = dk_live d" "dk_synced d' = dk_synced d" "ec_name c = name"
    and v: "ec_last c = max 0 (the (file_value (fmlookup (dk_live d) name)))"
    "file_value (fmlookup (dk_live d) name) \<noteq> None"
    using assms(2) 1 2 f
    by (auto simp: openSigningClock_def file_value_def split: option.splits if_splits)
  obtain x where x: "file_value (fmlookup (dk_live d) name) = Some x" using v by blast
  show "ec_inv (Up c d')" "ec_high (Down name d) \<le> ec_last c"
    using assms(1) d' v x file_value_range [OF x]
    by (auto simp: files_ok_def file_ok_def file_low_def maxInt64_def)
qed

lemma open_failed: "openSigningClock name d = (Inl e, d') \<Longrightarrow> dk_live d' = dk_live d \<and> dk_synced d' = dk_synced d"
  by (auto simp: openSigningClock_def split: prod.splits option.splits if_splits dest!: io_fields)

lemma crash_files:
  assumes "crash {name @ ''.''} d d'" "files_ok low name d"
  shows "files_ok low name d' \<and> dk_synced d' = dk_live d'"
  using assms name_not_temp [of name] by (auto simp: crash_def files_ok_def)

lemma files_ok_low: "files_ok low name d \<Longrightarrow> low \<le> file_low name d"
  by (auto simp: files_ok_def file_ok_def file_low_def split: option.splits)

lemma ec_step_sound:
  assumes inv: "ec_inv s" and legal: "ec_legal s i" and eq: "ec_step s i = (s', v)"
  shows "ec_inv s' \<and> ec_high s \<le> ec_high s' \<and> (\<forall>x. v = Some x \<longrightarrow> ec_high s < x \<and> x \<le> ec_high s')"
proof (cases "(s, i)" rule: ec_step.cases)
  case (1 c d wall)
  obtain r c' d' where n: "ec_Next c wall d = (r, c', d')" by (metis prod_cases3)
  have s: "s = Up c d" "i = Next wall" using 1 by auto
  have l: "in_int64 wall" "ec_last c < maxInt64" using legal s by auto
  note N = Next_inv [OF inv [unfolded s] l n]
  have "s' = Up c' d'" "v = (case r of Inl e \<Rightarrow> None | Inr at \<Rightarrow> Some at)"
    using eq s n by (auto split: sum.splits)
  then show ?thesis using N s by (auto split: sum.splits simp del: ec_inv.simps)
next
  case (2 c d d')
  then have s: "s = Up c d" "i = Crash d'" "s' = Down (ec_name c) d'" "v = None" using eq by auto
  then have f: "files_ok (if ec_last c = 0 then -1 else ec_last c) (ec_name c) d'" "dk_synced d' = dk_live d'"
    using inv legal crash_files [of "ec_name c" d d'] by auto
  have "files_ok (-1) (ec_name c) d'"
    using f(1) inv s by (auto simp: files_ok_def intro: file_ok_mono split: if_splits)
  then show ?thesis using s f files_ok_low [OF f(1)] inv by (auto split: if_splits)
next
  case (3 name d)
  then have s: "s = Down name d" "i = Open" by auto
  obtain r d' where o: "openSigningClock name d = (r, d')" by fastforce
  show ?thesis
  proof (cases r)
    case (Inl e)
    then show ?thesis using o s eq inv open_failed [of name d e d'] by (auto simp: files_ok_def file_low_def)
  next
    case (Inr c)
    then have "s' = Up c d'" "v = None" using o s eq by auto
    then show ?thesis using open_inv [of name d c d'] inv s o Inr by (simp del: ec_inv.simps ec_high.simps(2))
  qed
next
  case (4 name d d')
  then have s: "s = Down name d" "i = Crash d'" "s' = Down name d'" "v = None" using eq by auto
  then have "files_ok (file_low name d) name d" "dk_synced d = dk_live d"
    using inv by (auto simp: files_ok_def file_ok_def file_low_def split: option.splits)
  then have f: "files_ok (file_low name d) name d'" "dk_synced d' = dk_live d'" "files_ok (-1) name d'"
    using crash_files [of name d d'] inv legal s by auto
  then show ?thesis using s files_ok_low [OF f(1)] by auto
qed (use inv eq in auto)

interpretation ec: issuer ec_inv ec_legal ec_high ec_step
proof (unfold_locales, goal_cases)
  case (1 s i s' v)
  then show ?case using ec_step_sound by blast
next
  case (2 s i s')
  then show ?case using ec_step_sound by blast
next
  case (3 s i s' x)
  then show ?case using ec_step_sound by blast
qed

section \<open>Properties\<close>

text \<open>No two messages of one family are ever signed at the same time, across crashes: over any sequence of
  requests, crashes and reopenings from an existing directory, with any I/O failures and any clock readings,
  the values the clock returns strictly increase.\<close>

theorem evidence_clock_strictly_increases:
  assumes "files_ok (-1) name d" "dk_synced d = dk_live d"
    and "legal_run ec_legal ec_step (Down name d) evs"
  shows "sorted_wrt (<) (snd (issue_run ec_step (Down name d) evs))"
proof -
  have "ec_inv (Down name d)" using assms by simp
  from ec.run_increasing [OF this assms(3) prod.collapse [symmetric]] show ?thesis by blast
qed

definition empty_disk :: disk where
  "empty_disk = \<lparr>dk_live = fmempty, dk_synced = fmempty, dk_script = [], dk_fresh = 0\<rparr>"

definition ack_disk :: "int \<Rightarrow> disk" where
  "ack_disk v = (let files = fmupd outboundAckSigningName (private_file (itoa v @ [CHR 0x0A])) fmempty
     in \<lparr>dk_live = files, dk_synced = files, dk_script = [], dk_fresh = 0\<rparr>)"

definition ack_clock :: "int \<Rightarrow> evClock" where
  "ack_clock v = \<lparr>ec_name = outboundAckSigningName, ec_last = v\<rparr>"

lemma sample_steps:
  "ec_step (Down outboundAckSigningName empty_disk) Open = (Up (ack_clock 0) empty_disk, None)"
  "ec_step (Up (ack_clock 0) empty_disk) (Next 1000)
     = (Up (ack_clock 1000) ((ack_disk 1000)\<lparr>dk_fresh := Suc 0\<rparr>), Some 1000)"
  "ec_step (Up (ack_clock 1000) ((ack_disk 1000)\<lparr>dk_fresh := Suc 0\<rparr>)) (Crash (ack_disk 1000))
     = (Down outboundAckSigningName (ack_disk 1000), None)"
  "ec_step (Down outboundAckSigningName (ack_disk 1000)) Open = (Up (ack_clock 1000) (ack_disk 1000), None)"
  "ec_step (Up (ack_clock 1000) (ack_disk 1000)) (Next 900)
     = (Up (ack_clock 1001) ((ack_disk 1001)\<lparr>dk_fresh := Suc 0\<rparr>), Some 1001)"
  by code_simp+

lemma ack_clock_fields [simp]: "ec_name (ack_clock v) = outboundAckSigningName" "ec_last (ack_clock v) = v"
  by (simp_all add: ack_clock_def)

theorem evidence_clock_strictly_increases_witness:
  "sorted_wrt (<) (snd (issue_run ec_step (Down outboundAckSigningName empty_disk)
     [Open, Next 1000, Crash (ack_disk 1000), Open, Next 900]))
   \<and> snd (issue_run ec_step (Down outboundAckSigningName empty_disk)
     [Open, Next 1000, Crash (ack_disk 1000), Open, Next 900]) = [1000, 1001]"
proof
  have c: "crash ps ((ack_disk 1000)\<lparr>dk_fresh := Suc 0\<rparr>) (ack_disk 1000)" for ps
    by (simp add: crash_def ack_disk_def Let_def)
  show "sorted_wrt (<) (snd (issue_run ec_step (Down outboundAckSigningName empty_disk)
     [Open, Next 1000, Crash (ack_disk 1000), Open, Next 900]))"
  proof (rule evidence_clock_strictly_increases)
    show "files_ok (-1) outboundAckSigningName empty_disk" "dk_synced empty_disk = dk_live empty_disk"
      by (simp_all add: empty_disk_def files_ok_def file_ok_def file_value_def)
    show "legal_run ec_legal ec_step (Down outboundAckSigningName empty_disk)
        [Open, Next 1000, Crash (ack_disk 1000), Open, Next 900]"
      using c by (simp add: sample_steps in_int64_def minInt64_def maxInt64_def del: ec_step.simps)
  qed
  show "snd (issue_run ec_step (Down outboundAckSigningName empty_disk)
     [Open, Next 1000, Crash (ack_disk 1000), Open, Next 900]) = [1000, 1001]"
    by (simp add: sample_steps del: ec_step.simps)
qed


end
