(* ===== verification/Refusal.thy ===== *)
theory Refusal
  imports Go_Prelude
begin

text \<open>
  The refusal policy of the hop to the evidence authority, \<open>internal/evidence/refusal\<close>: which reason a status admits,
  what the courier does with a refusal, and which refusals a hold record may name. \<open>heldRefusalStatus\<close>, which
  guards the hold record, is of \<open>internal/evidence/courier/hold.go\<close>.
\<close>

definition Unrecognised :: string where
  "Unrecognised = ''unrecognised''"

definition PendingRegistrationConflict :: string where
  "PendingRegistrationConflict = ''pending_registration_conflict''"

definition byteRefusalReasons :: "string list" where
  "byteRefusalReasons = [''bad_authenticator'', ''binding_mismatch'', ''commissioning_digest_mismatch'']"

definition receiverStateRefusalReasons :: "string list" where
  "receiverStateRefusalReasons = [''unrecognised_version'', ''unknown_key'']"

definition statusRefusalReasons :: "(int \<times> string list) list" where
  "statusRefusalReasons =
     [(400, [''malformed'']),
      (401, [''malformed'', ''unknown_key'', ''bad_authenticator'', ''stale'', ''replay'']),
      (403, [''not_authorized'']),
      (409, [''conflict'', PendingRegistrationConflict]),
      (422, byteRefusalReasons @ receiverStateRefusalReasons),
      (429, [''rate_limited'', ''pending_registration_limit'']),
      (503, [''unavailable''])]"

text \<open>\<open>statusRefusalReasons[status][reason]\<close>: a missing status has no reason.\<close>

definition admits :: "int \<Rightarrow> string \<Rightarrow> bool" where
  "admits status reason =
     (case map_of statusRefusalReasons status of None \<Rightarrow> False | Some reasons \<Rightarrow> reason \<in> set reasons)"

definition RecordedReason :: "int \<Rightarrow> string \<Rightarrow> string" where
  "RecordedReason status reason =
     (if status = 0
      then (if list_ex (\<lambda>(st, reasons). reason \<in> set reasons) statusRefusalReasons then reason else Unrecognised)
      else if admits status reason then reason else Unrecognised)"

datatype Class = Hold | Handoff | Backoff

definition Policy :: "int \<Rightarrow> string \<Rightarrow> Class" where
  "Policy status reason =
     (if status = 401 \<or> status = 403 then Handoff
      else if status = 400 then Hold
      else if status = 409 then (if reason = PendingRegistrationConflict then Backoff else Hold)
      else if status = 422 then (if reason \<in> set receiverStateRefusalReasons then Handoff else Hold)
      else if status = 429 \<or> status = 503 then Backoff
      else Hold)"

definition Held :: "int \<Rightarrow> string \<Rightarrow> bool" where
  "Held status reason =
     (if reason = Unrecognised then True
      else if status = 0 then reason \<noteq> [] \<and> RecordedReason 0 reason = reason
      else admits status reason \<and> Policy status reason = Hold)"

definition heldRefusalStatus :: "int \<Rightarrow> bool" where
  "heldRefusalStatus status \<longleftrightarrow> status = 0 \<or> status = 400 \<or> status = 409 \<or> status = 422"

text \<open>The statuses the table names.\<close>

definition table_status :: "int \<Rightarrow> bool" where
  "table_status status \<longleftrightarrow> status \<in> fst ` set statusRefusalReasons"

lemmas table_simps = statusRefusalReasons_def byteRefusalReasons_def receiverStateRefusalReasons_def
  PendingRegistrationConflict_def Unrecognised_def

lemma table_cases:
  assumes "table_status status"
  obtains "status = 400" | "status = 401" | "status = 403" | "status = 409" | "status = 422" | "status = 429"
    | "status = 503"
  using assms by (auto simp: table_status_def statusRefusalReasons_def)

lemma not_admits_unrecognised: "\<not> admits status Unrecognised"
  by (auto simp: admits_def table_simps split: option.splits dest!: map_of_SomeD)

lemma recorded_idem: "RecordedReason status (RecordedReason status reason) = RecordedReason status reason"
  by (auto simp: RecordedReason_def)

text \<open>Recording a reason does not change what is done: for every status the policy names, the class of the
  recorded reason is the class of the reason the authority gave.\<close>

theorem recorded_reason_keeps_class:
  assumes "table_status status"
  shows "Policy status (RecordedReason status reason) = Policy status reason"
  using assms
proof (cases rule: table_cases)
  case 4
  then show ?thesis by (auto simp: Policy_def RecordedReason_def admits_def table_simps)
next
  case 5
  then show ?thesis by (auto simp: Policy_def RecordedReason_def admits_def table_simps)
qed (simp_all add: Policy_def)

theorem recorded_reason_keeps_class_witness:
  "Policy 409 (RecordedReason 409 ''internal host db-3'') = Policy 409 ''internal host db-3''
   \<and> RecordedReason 409 ''internal host db-3'' = Unrecognised"
  using recorded_reason_keeps_class [of 409 "''internal host db-3''"]
  by (simp add: table_status_def statusRefusalReasons_def RecordedReason_def admits_def PendingRegistrationConflict_def)

text \<open>A refusal is held exactly when a hold record may name it: under a status the policy names, the class of
  the recorded reason is Hold if and only if the record that reason and status make passes the checks of a hold.\<close>

theorem hold_iff_recordable:
  assumes "table_status status"
  shows "Policy status (RecordedReason status reason) = Hold
    \<longleftrightarrow> Held status (RecordedReason status reason) \<and> heldRefusalStatus status"
  using assms
proof (cases rule: table_cases)
  case 4
  then show ?thesis
    by (auto simp: Policy_def RecordedReason_def admits_def table_simps Held_def heldRefusalStatus_def)
next
  case 5
  then show ?thesis
    by (auto simp: Policy_def RecordedReason_def admits_def table_simps Held_def heldRefusalStatus_def)
qed (auto simp: Policy_def Held_def heldRefusalStatus_def RecordedReason_def)

theorem hold_iff_recordable_witness:
  "(Policy 422 (RecordedReason 422 ''unknown_key'') = Hold
    \<longleftrightarrow> Held 422 (RecordedReason 422 ''unknown_key'') \<and> heldRefusalStatus 422)
   \<and> Policy 422 (RecordedReason 422 ''unknown_key'') = Handoff"
  using hold_iff_recordable [of 422 "''unknown_key''"]
  by (simp add: table_status_def statusRefusalReasons_def) code_simp

end
