(* ===== verification/Faults.thy ===== *)
theory Faults
  imports Go_Prelude
begin

text \<open>
  The courier's fault recorder, \<open>internal/evidence/faults\<close>: each boundary is a source, and a fault is active while
  any source holds it.
\<close>

definition StoreUnavailable :: string where
  "StoreUnavailable = ''store_unavailable''"

definition AdmissionFailed :: string where
  "AdmissionFailed = ''admission_failed''"

definition DeliveryImpaired :: string where
  "DeliveryImpaired = ''delivery_impaired''"

definition DeviceUnconfigured :: string where
  "DeviceUnconfigured = ''device_unconfigured''"

text \<open>\<open>active\<close>: the sources that hold each fault.\<close>

type_synonym Recorder = "(string, string fset) fmap"

definition NewRecorder :: Recorder where
  "NewRecorder = fmempty"

text \<open>\<open>err\<close> is whether the error is not nil.\<close>

definition Note :: "string \<Rightarrow> string \<Rightarrow> bool \<Rightarrow> Recorder \<Rightarrow> Recorder" where
  "Note fault source err r =
     (let sources = fmlookup r fault
      in if err then fmupd fault (finsert source (case sources of None \<Rightarrow> {||} | Some ss \<Rightarrow> ss)) r
         else (case sources of None \<Rightarrow> r
               | Some ss \<Rightarrow>
                   let left = ss |-| {|source|}
                   in if left = {||} then fmdrop fault r else fmupd fault left r))"

definition Active :: "Recorder \<Rightarrow> string list" where
  "Active r = sorted_list_of_fset (fmdom r)"

definition holds_fault :: "Recorder \<Rightarrow> string \<Rightarrow> string \<Rightarrow> bool" where
  "holds_fault r fault source \<longleftrightarrow> (case fmlookup r fault of None \<Rightarrow> False | Some ss \<Rightarrow> source |\<in>| ss)"

text \<open>No fault is kept with no source.\<close>

definition recorder_inv :: "Recorder \<Rightarrow> bool" where
  "recorder_inv r \<longleftrightarrow> (\<forall>fault. fmlookup r fault \<noteq> Some {||})"

lemma recorder_new: "recorder_inv NewRecorder"
  by (simp add: recorder_inv_def NewRecorder_def)

lemma Note_inv [inv_rules]: "recorder_inv r \<Longrightarrow> recorder_inv (Note fault source err r)"
  by (auto simp: recorder_inv_def Note_def Let_def split: option.splits)

lemma Note_holds:
  "holds_fault (Note fault source err r) f s =
     (if f = fault \<and> s = source then err else holds_fault r f s)"
  by (auto simp: holds_fault_def Note_def Let_def split: option.splits)

lemma Active_iff: "recorder_inv r \<Longrightarrow> f \<in> set (Active r) \<longleftrightarrow> (\<exists>s. holds_fault r f s)"
proof -
  assume inv: "recorder_inv r"
  have "f \<in> set (Active r) \<longleftrightarrow> fmlookup r f \<noteq> None" by (simp add: Active_def fmlookup_dom_iff)
  also have "\<dots> \<longleftrightarrow> (\<exists>s. holds_fault r f s)"
    using inv by (auto simp: recorder_inv_def holds_fault_def split: option.splits) (metis equalsffemptyI)
  finally show ?thesis .
qed

text \<open>The notes made so far, oldest first, and the last outcome a source reported for a fault.\<close>

definition note_run :: "(string \<times> string \<times> bool) list \<Rightarrow> Recorder" where
  "note_run ns = foldl (\<lambda>r (fault, source, err). Note fault source err r) NewRecorder ns"

definition last_outcome :: "(string \<times> string \<times> bool) list \<Rightarrow> string \<Rightarrow> string \<Rightarrow> bool" where
  "last_outcome ns fault source = (case map_of (map (\<lambda>(f, s, e). ((f, s), e)) (rev ns)) (fault, source) of None \<Rightarrow> False | Some e \<Rightarrow> e)"

lemma note_run_snoc: "note_run (ns @ [(f, s, e)]) = Note f s e (note_run ns)"
  by (simp add: note_run_def)

lemma note_run_holds: "recorder_inv (note_run ns) \<and> holds_fault (note_run ns) f s = last_outcome ns f s"
proof (induction ns rule: rev_induct)
  case Nil
  then show ?case using recorder_new by (simp add: note_run_def holds_fault_def NewRecorder_def last_outcome_def)
next
  case (snoc n ns)
  obtain f' s' e where n: "n = (f', s', e)" by (metis prod_cases3)
  show ?case using snoc unfolding n note_run_snoc
    by (auto simp: Note_inv Note_holds last_outcome_def)
qed

text \<open>A fault is reported exactly while some boundary's latest outcome for it is a failure: after any
  sequence of notes it is active if and only if there is a source whose last note of it was an error, and the list is
  sorted and without repeats.\<close>

theorem active_faults:
  "(fault \<in> set (Active (note_run ns)) \<longleftrightarrow> (\<exists>source. last_outcome ns fault source))
   \<and> sorted (Active (note_run ns)) \<and> distinct (Active (note_run ns))"
  using note_run_holds Active_iff [of "note_run ns"] by (simp add: Active_def)

end
