(* ===== verification/Go_Json.thy ===== *)
theory Go_Json
  imports Go_Unicode
begin

text \<open>
  \<open>encoding/json\<close> as far as the program uses it: the scanner that says which byte strings are JSON, the values it
  finds, string quoting and unquoting, and the matching of member names.

  A value keeps the raw text of its numbers and of its strings, between the quotes, because the program looks at the
  raw bytes before it decodes them.
\<close>

section \<open>Values\<close>

datatype json =
    JNull
  | JBool bool
  | JNum string
  | JStr string
  | JArr "json list"
  | JObj "(string \<times> json) list"

section \<open>Scanning\<close>

definition is_ws :: "char \<Rightarrow> bool" where
  "is_ws c \<longleftrightarrow> c = CHR '' '' \<or> c = CHR 0x09 \<or> c = CHR 0x0A \<or> c = CHR 0x0D"

definition skip_ws :: "string \<Rightarrow> string" where
  "skip_ws s = dropWhile is_ws s"

definition hex_val :: "char \<Rightarrow> int option" where
  "hex_val c =
     (if is_digit c then Some (byte c - 48)
      else if 97 \<le> byte c \<and> byte c \<le> 102 then Some (byte c - 87)
      else if 65 \<le> byte c \<and> byte c \<le> 70 then Some (byte c - 55)
      else None)"

text \<open>The four hexadecimal digits of an escape.\<close>

definition hex4 :: "string \<Rightarrow> int option" where
  "hex4 s =
     (case s of a # b # c # d # _ \<Rightarrow>
        (case (hex_val a, hex_val b, hex_val c, hex_val d) of
           (Some w, Some x, Some y, Some z) \<Rightarrow> Some (((w * 16 + x) * 16 + y) * 16 + z)
         | _ \<Rightarrow> None)
      | _ \<Rightarrow> None)"

definition quote_char :: char where "quote_char = CHR 0x22"
definition backslash :: char where "backslash = CHR 0x5C"

definition simple_escape :: "char \<Rightarrow> bool" where
  "simple_escape e \<longleftrightarrow> e \<in> set [quote_char, backslash, CHR ''/'', CHR ''b'', CHR ''f'', CHR ''n'', CHR ''r'', CHR ''t'']"

text \<open>The raw text of a string up to its closing quote, and the rest.\<close>

fun scan_string :: "string \<Rightarrow> (string \<times> string) option" where
  "scan_string [] = None"
| "scan_string (c # s) =
     (if c = quote_char then Some ([], s)
      else if c = backslash
      then (case s of [] \<Rightarrow> None
            | e # s1 \<Rightarrow>
                if simple_escape e
                then map_option (\<lambda>(r, t). (c # e # r, t)) (scan_string s1)
                else if e = CHR ''u'' \<and> hex4 s1 \<noteq> None
                then map_option (\<lambda>(r, t). (c # e # r, t)) (scan_string s1)
                else None)
      else if byte c < 32 then None
      else map_option (\<lambda>(r, t). (c # r, t)) (scan_string s))"

definition scan_digits :: "string \<Rightarrow> (string \<times> string) option" where
  "scan_digits s = (if takeWhile is_digit s = [] then None else Some (takeWhile is_digit s, dropWhile is_digit s))"

definition scan_int :: "string \<Rightarrow> (string \<times> string) option" where
  "scan_int s =
     (case s of [] \<Rightarrow> None
      | c # t \<Rightarrow> if c = CHR ''0'' then Some ([c], t) else scan_digits s)"

definition scan_frac :: "string \<Rightarrow> (string \<times> string) option" where
  "scan_frac s =
     (case s of [] \<Rightarrow> Some ([], [])
      | c # t \<Rightarrow> if c = CHR ''.'' then map_option (\<lambda>(r, u). (c # r, u)) (scan_digits t) else Some ([], s))"

definition scan_exp :: "string \<Rightarrow> (string \<times> string) option" where
  "scan_exp s =
     (case s of [] \<Rightarrow> Some ([], [])
      | c # t \<Rightarrow>
          if c = CHR ''e'' \<or> c = CHR ''E''
          then (case t of [] \<Rightarrow> None
                | g # u \<Rightarrow>
                    if g = CHR ''+'' \<or> g = CHR ''-''
                    then map_option (\<lambda>(r, v). (c # g # r, v)) (scan_digits u)
                    else map_option (\<lambda>(r, v). (c # r, v)) (scan_digits t))
          else Some ([], s))"

definition scan_sign :: "string \<Rightarrow> string \<times> string" where
  "scan_sign s = (case s of [] \<Rightarrow> ([], []) | c # t \<Rightarrow> if c = CHR ''-'' then ([c], t) else ([], s))"

definition scan_number :: "string \<Rightarrow> (string \<times> string) option" where
  "scan_number s =
     (let (sign, s1) = scan_sign s
      in case scan_int s1 of None \<Rightarrow> None
         | Some (i, s2) \<Rightarrow>
             (case scan_frac s2 of None \<Rightarrow> None
              | Some (f, s3) \<Rightarrow>
                  (case scan_exp s3 of None \<Rightarrow> None
                   | Some (e, s4) \<Rightarrow> Some (sign @ i @ f @ e, s4))))"

definition scan_word :: "string \<Rightarrow> json \<Rightarrow> string \<Rightarrow> (json \<times> string) option" where
  "scan_word w v s = (if take (length w) s = w then Some (v, drop (length w) s) else None)"

definition maxNestingDepth :: nat where
  "maxNestingDepth = 10000"

text \<open>One value at the start of the text, with the rest. \<open>fuel\<close> bounds the recursion; \<open>json_fuel\<close> below is
  enough for every text.\<close>

fun parse_value :: "nat \<Rightarrow> nat \<Rightarrow> string \<Rightarrow> (json \<times> string) option"
  and parse_elems :: "nat \<Rightarrow> nat \<Rightarrow> string \<Rightarrow> (json list \<times> string) option"
  and parse_members :: "nat \<Rightarrow> nat \<Rightarrow> string \<Rightarrow> ((string \<times> json) list \<times> string) option" where
  "parse_value 0 depth s = None"
| "parse_value (Suc fuel) depth s =
     (case s of [] \<Rightarrow> None
      | c # t \<Rightarrow>
          if c = quote_char then map_option (\<lambda>(r, u). (JStr r, u)) (scan_string t)
          else if c = CHR ''{''
          then (if maxNestingDepth \<le> depth then None
                else (case skip_ws t of [] \<Rightarrow> None
                      | d # u \<Rightarrow>
                          if d = CHR ''}'' then Some (JObj [], u)
                          else map_option (\<lambda>(ms, v). (JObj ms, v)) (parse_members fuel (Suc depth) (d # u))))
          else if c = CHR ''[''
          then (if maxNestingDepth \<le> depth then None
                else (case skip_ws t of [] \<Rightarrow> None
                      | d # u \<Rightarrow>
                          if d = CHR '']'' then Some (JArr [], u)
                          else map_option (\<lambda>(vs, v). (JArr vs, v)) (parse_elems fuel (Suc depth) (d # u))))
          else if c = CHR ''t'' then scan_word ''true'' (JBool True) s
          else if c = CHR ''f'' then scan_word ''false'' (JBool False) s
          else if c = CHR ''n'' then scan_word ''null'' JNull s
          else map_option (\<lambda>(r, u). (JNum r, u)) (scan_number s))"
| "parse_elems 0 depth s = None"
| "parse_elems (Suc fuel) depth s =
     (case parse_value fuel depth s of None \<Rightarrow> None
      | Some (v, t) \<Rightarrow>
          (case skip_ws t of [] \<Rightarrow> None
           | c # u \<Rightarrow>
               if c = CHR '']'' then Some ([v], u)
               else if c = CHR '',''
               then map_option (\<lambda>(vs, w). (v # vs, w)) (parse_elems fuel depth (skip_ws u))
               else None))"
| "parse_members 0 depth s = None"
| "parse_members (Suc fuel) depth s =
     (case s of [] \<Rightarrow> None
      | q # t \<Rightarrow>
          if q \<noteq> quote_char then None
          else (case scan_string t of None \<Rightarrow> None
                | Some (k, u) \<Rightarrow>
                    (case skip_ws u of [] \<Rightarrow> None
                     | c # u1 \<Rightarrow>
                         if c \<noteq> CHR '':'' then None
                         else (case parse_value fuel depth (skip_ws u1) of None \<Rightarrow> None
                               | Some (v, w) \<Rightarrow>
                                   (case skip_ws w of [] \<Rightarrow> None
                                    | d # w1 \<Rightarrow>
                                        if d = CHR ''}'' then Some ([(k, v)], w1)
                                        else if d = CHR '',''
                                        then map_option (\<lambda>(ms, x). ((k, v) # ms, x)) (parse_members fuel depth (skip_ws w1))
                                        else None)))))"

definition json_fuel :: "string \<Rightarrow> nat" where
  "json_fuel s = 2 * length s + 2"

text \<open>The whole text is one value with white space around it: what \<open>json.Unmarshal\<close> and \<open>json.Valid\<close> accept.\<close>

definition json_parse :: "string \<Rightarrow> json option" where
  "json_parse s =
     (case parse_value (json_fuel s) 0 (skip_ws s) of None \<Rightarrow> None
      | Some (v, t) \<Rightarrow> if skip_ws t = [] then Some v else None)"


section \<open>The fuel is enough\<close>

lemma skip_ws_length: "length (skip_ws s) \<le> length s"
  by (simp add: skip_ws_def length_dropWhile_le)

lemma skip_ws_Cons: "skip_ws s = c # t \<Longrightarrow> length t < length s"
  using skip_ws_length [of s] by simp

lemma scan_string_length: "scan_string s = Some (r, t) \<Longrightarrow> length t < length s"
proof (induction "length s" arbitrary: s r t rule: less_induct)
  case less
  show ?case
  proof (cases s)
    case (Cons c u)
    then obtain w r' where w: "w = u \<or> (\<exists>e. u = e # w)" "t = u \<or> scan_string w = Some (r', t)"
      using less.prems by (auto split: if_splits list.splits)
    then have "length w < length s" using Cons by auto
    then show ?thesis using w Cons less.hyps [of w r' t] by auto
  qed (use less.prems in simp)
qed

lemma scan_digits_length: "scan_digits s = Some (r, t) \<Longrightarrow> length t < length s"
proof -
  assume "scan_digits s = Some (r, t)"
  then have "takeWhile is_digit s \<noteq> []" "t = dropWhile is_digit s" by (auto simp: scan_digits_def split: if_splits)
  then show ?thesis by (cases s) (auto simp: length_dropWhile_le less_Suc_eq_le split: if_splits)
qed

lemma scan_number_length: "scan_number s = Some (r, t) \<Longrightarrow> length t < length s"
proof -
  assume "scan_number s = Some (r, t)"
  then obtain g s1 i s2 f s3 e where 0: "scan_sign s = (g, s1)" and 1: "scan_int s1 = Some (i, s2)"
      "scan_frac s2 = Some (f, s3)" "scan_exp s3 = Some (e, t)"
    by (auto simp: scan_number_def split: option.splits prod.splits)
  have "length s1 \<le> length s" using 0 by (auto simp: scan_sign_def split: list.splits if_splits)
  note 1 = this 1
  have "length s2 < length s1"
    using 1(2) scan_digits_length by (fastforce simp: scan_int_def split: list.splits if_splits)
  moreover have "length s3 \<le> length s2"
    using 1(3) scan_digits_length by (fastforce simp: scan_frac_def split: list.splits if_splits)
  moreover have "length t \<le> length s3"
    using 1(4) scan_digits_length by (fastforce simp: scan_exp_def split: list.splits if_splits)
  ultimately show ?thesis using 1(1) by linarith
qed

lemma scan_word_length: "scan_word w v s = Some (r, t) \<Longrightarrow> w \<noteq> [] \<Longrightarrow> length t < length s"
  by (cases s; cases w) (auto simp: scan_word_def split: if_splits)


lemma parse_fuel:
  "parse_value f d s = Some (v, t) \<Longrightarrow>
     length t < length s \<and> (\<forall>g. 2 * length s \<le> g \<longrightarrow> parse_value g d s = Some (v, t))"
  "parse_elems f d s = Some (vs, t) \<Longrightarrow>
     length t < length s \<and> (\<forall>g. 2 * length s + 1 \<le> g \<longrightarrow> parse_elems g d s = Some (vs, t))"
  "parse_members f d s = Some (ms, t) \<Longrightarrow>
     length t < length s \<and> (\<forall>g. 2 * length s + 1 \<le> g \<longrightarrow> parse_members g d s = Some (ms, t))"
proof (induction f d s and f d s and f d s arbitrary: v t and vs t and ms t
    rule: parse_value_parse_elems_parse_members.induct)
  case (2 fuel depth s)
  obtain c s1 where s: "s = c # s1" using "2.prems" by (cases s) auto
  consider (str) "c = quote_char" | (obj) "c = CHR ''{''" | (arr) "c = CHR ''[''"
    | (other) "c \<noteq> quote_char" "c \<noteq> CHR ''{''" "c \<noteq> CHR ''[''" by blast
  then show ?case
  proof cases
    case str
    then obtain r where r: "scan_string s1 = Some (r, t)" "v = JStr r" using "2.prems" s by auto
    have "parse_value g depth s = Some (v, t)" if "2 * length s \<le> g" for g
      using r s str that by (cases g) auto
    moreover have "length t < length s" using scan_string_length [OF r(1)] s by simp
    ultimately show ?thesis by blast
  next
    case obj
    have ne: "c \<noteq> quote_char" using obj by (simp add: quote_char_def)
    obtain x u where u: "skip_ws s1 = x # u" "\<not> maxNestingDepth \<le> depth"
      using "2.prems" s obj ne by (auto split: list.splits if_splits)
    have lu: "length (x # u) \<le> length s1" using skip_ws_length [of s1] u by simp
    show ?thesis
    proof (cases "x = CHR ''}''")
      case True
      then have "parse_value g depth s = Some (v, t)" if "2 * length s \<le> g" for g
        using "2.prems" s obj ne u that by (cases g) auto
      moreover have "length t < length s" using "2.prems" s obj ne u lu True by simp
      ultimately show ?thesis by blast
    next
      case False
      then obtain ms where ms: "parse_members fuel (Suc depth) (x # u) = Some (ms, t)" "v = JObj ms"
        using "2.prems" s obj ne u by auto
      have IH: "length t < length (x # u) \<and> (\<forall>g. 2 * length (x # u) + 1 \<le> g \<longrightarrow> parse_members g (Suc depth) (x # u) = Some (ms, t))"
        by (rule "2.IH"(1) [OF s ne obj u(2) u(1) False ms(1)])
      show ?thesis
      proof (intro conjI allI impI)
        show "length t < length s" using IH lu s by simp
        fix g assume "2 * length s \<le> g"
        then obtain g' where "g = Suc g'" "2 * length s1 + 1 \<le> g'" using s by (cases g) auto
        then show "parse_value g depth s = Some (v, t)" using IH lu s obj ne u False ms by simp
      qed
    qed
  next
    case arr
    have ne: "c \<noteq> quote_char" using arr by (simp add: quote_char_def)
    obtain x u where u: "skip_ws s1 = x # u" "\<not> maxNestingDepth \<le> depth"
      using "2.prems" s arr ne by (auto split: list.splits if_splits)
    have lu: "length (x # u) \<le> length s1" using skip_ws_length [of s1] u by simp
    show ?thesis
    proof (cases "x = CHR '']''")
      case True
      then have "parse_value g depth s = Some (v, t)" if "2 * length s \<le> g" for g
        using "2.prems" s arr ne u that by (cases g) auto
      moreover have "length t < length s" using "2.prems" s arr ne u lu True by simp
      ultimately show ?thesis by blast
    next
      case False
      then obtain vs where vs: "parse_elems fuel (Suc depth) (x # u) = Some (vs, t)" "v = JArr vs"
        using "2.prems" s arr ne u by auto
      have IH: "length t < length (x # u) \<and> (\<forall>g. 2 * length (x # u) + 1 \<le> g \<longrightarrow> parse_elems g (Suc depth) (x # u) = Some (vs, t))"
        by (rule "2.IH"(2) [OF s ne _ arr u(2) u(1) False vs(1)]) (simp add: arr)
      show ?thesis
      proof (intro conjI allI impI)
        show "length t < length s" using IH lu s by simp
        fix g assume "2 * length s \<le> g"
        then obtain g' where "g = Suc g'" "2 * length s1 + 1 \<le> g'" using s by (cases g) auto
        then show "parse_value g depth s = Some (v, t)" using IH lu s arr ne u False vs by simp
      qed
    qed
  next
    case other
    then have "length t < length s"
      using "2.prems" s scan_word_length [of _ _ s v t] scan_number_length [of s _ t] by (auto split: if_splits)
    moreover have "parse_value g depth s = Some (v, t)" if "2 * length s \<le> g" for g
      using "2.prems" s other that by (cases g) auto
    ultimately show ?thesis by blast
  qed
next
  case (4 fuel depth s)
  obtain v u c w where v: "parse_value fuel depth s = Some (v, u)" "skip_ws u = c # w"
    using "4.prems" by (auto split: option.splits list.splits)
  note IHv = "4.IH"(1) [OF v(1)]
  have lw: "length w < length u" using v(2) by (rule skip_ws_Cons)
  show ?case
  proof (cases "c = CHR '']''")
    case True
    then have "length t < length s" using "4.prems" v IHv lw by auto
    moreover have "parse_elems g depth s = Some (vs, t)" if "2 * length s + 1 \<le> g" for g
      using that "4.prems" v IHv True by (cases g) auto
    ultimately show ?thesis by blast
  next
    case False
    then obtain vs' where r: "parse_elems fuel depth (skip_ws w) = Some (vs', t)" "vs = v # vs'" "c = CHR '',''"
      using "4.prems" v by (auto split: if_splits)
    have IH: "length t < length (skip_ws w) \<and> (\<forall>g. 2 * length (skip_ws w) + 1 \<le> g \<longrightarrow> parse_elems g depth (skip_ws w) = Some (vs', t))"
      by (rule "4.IH"(2) [OF v(1) refl v(2) False r(3) r(1)])
    have l: "length (skip_ws w) \<le> length w" by (rule skip_ws_length)
    have "length t < length s" using IH IHv lw l by linarith
    moreover have "parse_elems g depth s = Some (vs, t)" if "2 * length s + 1 \<le> g" for g
      using that v IHv IH lw l r by (cases g) auto
    ultimately show ?thesis by blast
  qed
next
  case (6 fuel depth s)
  obtain s1 k u u1 v w d w1 where s: "s = quote_char # s1" "scan_string s1 = Some (k, u)" "skip_ws u = CHR '':'' # u1"
      "parse_value fuel depth (skip_ws u1) = Some (v, w)" "skip_ws w = d # w1"
    using "6.prems" by (auto split: option.splits list.splits if_splits)
  have l: "length u < length s1" "length u1 < length u" "length (skip_ws u1) \<le> length u1" "length w1 < length w"
    "length (skip_ws w1) \<le> length w1"
    using scan_string_length [OF s(2)] skip_ws_Cons [OF s(3)] skip_ws_Cons [OF s(5)] skip_ws_length by auto
  have IHv: "length w < length (skip_ws u1) \<and> (\<forall>g. 2 * length (skip_ws u1) \<le> g \<longrightarrow> parse_value g depth (skip_ws u1) = Some (v, w))"
    by (rule "6.IH"(1) [OF s(1) _ s(2) refl s(3) _ s(4)]) simp_all
  show ?case
  proof (cases "d = CHR ''}''")
    case True
    then have "length t < length s" using "6.prems" s IHv l by auto
    moreover have "parse_members g depth s = Some (ms, t)" if "2 * length s + 1 \<le> g" for g
      using that "6.prems" s IHv True l by (cases g) auto
    ultimately show ?thesis by blast
  next
    case False
    then obtain ms' where r: "parse_members fuel depth (skip_ws w1) = Some (ms', t)" "ms = (k, v) # ms'" "d = CHR '',''"
      using "6.prems" s by (auto split: if_splits)
    have IH: "length t < length (skip_ws w1) \<and> (\<forall>g. 2 * length (skip_ws w1) + 1 \<le> g \<longrightarrow> parse_members g depth (skip_ws w1) = Some (ms', t))"
      by (rule "6.IH"(2) [OF s(1) _ s(2) refl s(3) _ s(4) refl s(5) False r(3) r(1)]) simp_all
    have "length t < length s" using IH IHv l s by auto
    moreover have "parse_members g depth s = Some (ms, t)" if "2 * length s + 1 \<le> g" for g
      using that s IHv IH l r by (cases g) auto
    ultimately show ?thesis by blast
  qed
qed auto

text \<open>The parse does not depend on the fuel: any fuel that gives a value gives the value \<open>json_parse\<close> gives.\<close>

lemma parse_value_fuel:
  assumes "parse_value f d s = Some (v, t)" "length s \<le> length s'"
  shows "parse_value (json_fuel s') d s = Some (v, t)"
proof -
  have "2 * length s \<le> json_fuel s'" using assms(2) by (simp add: json_fuel_def)
  then show ?thesis using parse_fuel(1) [OF assms(1)] by blast
qed


declare parse_value.simps [simp del] parse_elems.simps [simp del] parse_members.simps [simp del]

section \<open>Writing\<close>

text \<open>The compact text \<open>json.Marshal\<close> writes.\<close>

fun join_with :: "char \<Rightarrow> string list \<Rightarrow> string" where
  "join_with c [] = []"
| "join_with c [x] = x"
| "join_with c (x # xs) = x @ c # join_with c xs"

definition quoted :: "string \<Rightarrow> string" where
  "quoted r = quote_char # r @ [quote_char]"

fun print_json :: "json \<Rightarrow> string" where
  "print_json JNull = ''null''"
| "print_json (JBool b) = (if b then ''true'' else ''false'')"
| "print_json (JNum r) = r"
| "print_json (JStr r) = quoted r"
| "print_json (JArr vs) = CHR ''['' # join_with (CHR '','') (map print_json vs) @ '']''"
| "print_json (JObj ms) =
     CHR ''{'' # join_with (CHR '','') (map (\<lambda>(k, v). quoted k @ CHR '':'' # print_json v) ms) @ ''}''"

text \<open>Raw text that a string may have between its quotes.\<close>

definition raw_ok :: "string \<Rightarrow> bool" where
  "raw_ok r \<longleftrightarrow> scan_string (r @ [quote_char]) = Some (r, [])"

fun json_depth :: "json \<Rightarrow> nat" where
  "json_depth (JArr vs) = Suc (foldr max (map json_depth vs) 0)"
| "json_depth (JObj ms) = Suc (foldr max (map (\<lambda>(k, v). json_depth v) ms) 0)"
| "json_depth _ = 0"

text \<open>The values the program writes: integers, and strings with valid raw text.\<close>

fun json_ok :: "json \<Rightarrow> bool" where
  "json_ok (JNum r) = (\<exists>i. r = itoa i)"
| "json_ok (JStr r) = raw_ok r"
| "json_ok (JArr vs) = list_all json_ok vs"
| "json_ok (JObj ms) = list_all (\<lambda>(k, v). raw_ok k \<and> json_ok v) ms"
| "json_ok _ = True"

definition delim :: "string \<Rightarrow> bool" where
  "delim t \<longleftrightarrow> (case t of [] \<Rightarrow> True | c # _ \<Rightarrow> c = CHR '','' \<or> c = CHR '']'' \<or> c = CHR ''}'')"

subsection \<open>What was written is read back\<close>

lemma scan_string_app: "scan_string s = Some (r, u) \<Longrightarrow> scan_string (s @ t) = Some (r, u @ t)"
proof (induction "length s" arbitrary: s r u rule: less_induct)
  case less
  have hex: "hex4 (x @ t) = hex4 x" if "hex4 x \<noteq> None" for x
    using that by (auto simp: hex4_def split: list.splits)
  show ?case
  proof (cases s)
    case (Cons c s1)
    show ?thesis
    proof (cases "c = quote_char \<or> c \<noteq> backslash")
      case True
      then show ?thesis using less.prems Cons less.hyps [of s1] by (auto split: if_splits)
    next
      case False
      then obtain e s2 where "s1 = e # s2" using less.prems Cons by (auto split: list.splits)
      then show ?thesis using False less.prems Cons less.hyps [of s2] hex [of s2]
        by (auto split: if_splits)
    qed
  qed (use less.prems in simp)
qed

lemma raw_ok_scan: "raw_ok r \<Longrightarrow> scan_string (r @ quote_char # t) = Some (r, t)"
  using scan_string_app [of "r @ [quote_char]" r "[]" t] by (simp add: raw_ok_def)

lemma dec_head_nonzero: "0 < n \<Longrightarrow> \<exists>c cs. dec n = c # cs \<and> is_digit c \<and> c \<noteq> CHR ''0''"
proof (induction n rule: dec.induct)
  case (1 n)
  show ?case
  proof (cases "n < 10")
    case True
    then have "byte (digit n) \<noteq> 48" using "1.prems" by (simp add: byte_digit)
    then have "digit n \<noteq> CHR ''0''" by (auto simp: byte_def)
    then show ?thesis using True "1.prems" by (simp add: dec.simps [of n])
  next
    case False
    then have "0 < n div 10" by (simp add: pos_imp_zdiv_pos_iff)
    with "1.IH" False obtain c cs where "dec (n div 10) = c # cs" "is_digit c" "c \<noteq> CHR ''0''" by blast
    then show ?thesis using False by (simp add: dec.simps [of n])
  qed
qed

lemma delim_not_digit: "delim t \<Longrightarrow> takeWhile is_digit t = [] \<and> dropWhile is_digit t = t"
  by (cases t) (auto simp: delim_def is_digit_def byte_def)

lemma scan_digits_dec:
  assumes "0 \<le> n" "delim t" shows "scan_digits (dec n @ t) = Some (dec n, t)"
proof -
  have "\<forall>c \<in> set (dec n). is_digit c" "dec n \<noteq> []" using dec_digits [OF assms(1)] by (auto simp: all_digits_def list_all_iff)
  then show ?thesis using delim_not_digit [OF assms(2)] by (simp add: scan_digits_def)
qed

lemma scan_int_dec:
  assumes "0 \<le> n" "delim t" shows "scan_int (dec n @ t) = Some (dec n, t)"
proof (cases "n = 0")
  case True
  have "dec 0 = ''0''" by code_simp
  then show ?thesis using True by (simp add: scan_int_def)
next
  case False
  then obtain c cs where "dec n = c # cs" "c \<noteq> CHR ''0''" using dec_head_nonzero [of n] assms(1) by auto
  then show ?thesis using scan_digits_dec [OF assms] by (simp add: scan_int_def)
qed

lemma scan_number_itoa:
  assumes "delim t" shows "scan_number (itoa i @ t) = Some (itoa i, t)"
proof -
  have e: "scan_frac t = Some ([], t)" "scan_exp t = Some ([], t)"
    using assms by (cases t; auto simp: scan_frac_def scan_exp_def delim_def)+
  show ?thesis
  proof (cases "i < 0")
    case True
    then show ?thesis using e scan_int_dec [of "- i" t] assms by (simp add: scan_number_def itoa_def scan_sign_def)
  next
    case False
    obtain c cs where d: "dec i = c # cs" "is_digit c" using dec_Cons [of i] False by auto
    then have "scan_sign (dec i @ t) = ([], dec i @ t)" using is_digit_neq by (auto simp: scan_sign_def)
    then show ?thesis using e scan_int_dec [of i t] assms False by (simp add: scan_number_def itoa_def)
  qed
qed


text \<open>\<open>reads d j\<close>: the text of \<open>j\<close>, at nesting depth \<open>d\<close> and before a delimiter, reads back as \<open>j\<close>.\<close>

definition reads :: "nat \<Rightarrow> json \<Rightarrow> bool" where
  "reads d j \<longleftrightarrow> (\<forall>t. delim t \<longrightarrow> (\<exists>f. parse_value f d (print_json j @ t) = Some (j, t)))"

lemma itoa_Cons: "\<exists>c cs. itoa i = c # cs \<and> (is_digit c \<or> c = CHR ''-'')"
  using dec_Cons [of i] by (auto simp: itoa_def)

lemma digit_or_minus:
  "is_digit c \<or> c = CHR ''-'' \<Longrightarrow> c \<noteq> quote_char \<and> c \<noteq> CHR ''{'' \<and> c \<noteq> CHR ''['' \<and> c \<noteq> CHR ''t'' \<and> c \<noteq> CHR ''f''
     \<and> c \<noteq> CHR ''n'' \<and> \<not> is_ws c \<and> c \<noteq> CHR '']'' \<and> c \<noteq> CHR ''}''"
  by (auto simp: is_digit_def byte_def quote_char_def is_ws_def)

lemma reads_num: "reads d (JNum (itoa i))"
  unfolding reads_def
proof (intro allI impI)
  fix t assume t: "delim t"
  obtain c cs where c: "itoa i = c # cs" "is_digit c \<or> c = CHR ''-''" using itoa_Cons by blast
  have "parse_value (Suc 0) d (itoa i @ t) = map_option (\<lambda>(r, u). (JNum r, u)) (scan_number (itoa i @ t))"
    using c(1) digit_or_minus [OF c(2)] by (simp add: parse_value.simps)
  then show "\<exists>f. parse_value f d (print_json (JNum (itoa i)) @ t) = Some (JNum (itoa i), t)"
    using scan_number_itoa [OF t] by auto
qed

lemma reads_str: "raw_ok r \<Longrightarrow> reads d (JStr r)"
  unfolding reads_def
  by (intro allI impI exI [of _ "Suc 0"]) (simp add: quoted_def raw_ok_scan parse_value.simps)

lemma reads_word: "reads d JNull" "reads d (JBool b)"
  unfolding reads_def
  by (intro allI impI exI [of _ "Suc 0"]; simp add: scan_word_def quote_char_def parse_value.simps)+

lemma print_start:
  assumes "json_ok j"
  obtains c s where "print_json j = c # s" "\<not> is_ws c" "c \<noteq> CHR '']''" "c \<noteq> CHR ''}''"
proof (cases j)
  case (JNum r)
  then obtain i where "r = itoa i" using assms by auto
  then show ?thesis using that JNum itoa_Cons [of i] digit_or_minus by auto
next
  case (JBool b)
  then show ?thesis using that by (cases b) (auto simp: is_ws_def)
qed (use that in \<open>auto simp: is_ws_def quoted_def quote_char_def\<close>)

lemma skip_ws_print: "json_ok j \<Longrightarrow> skip_ws (print_json j @ t) = print_json j @ t"
  by (rule print_start [of j]) (auto simp: skip_ws_def)

lemma reads_any: "reads d j \<Longrightarrow> delim t \<Longrightarrow> 2 * length (print_json j @ t) \<le> g \<Longrightarrow> parse_value g d (print_json j @ t) = Some (j, t)"
  using parse_fuel(1) unfolding reads_def by metis

lemma skip_delim: "skip_ws (CHR '','' # t) = CHR '','' # t" "skip_ws (CHR '']'' # t) = CHR '']'' # t"
  "skip_ws (CHR ''}'' # t) = CHR ''}'' # t" "skip_ws (CHR '':'' # t) = CHR '':'' # t"
  by (simp_all add: skip_ws_def is_ws_def)

lemma elems_read:
  assumes "vs \<noteq> []" "\<And>v. v \<in> set vs \<Longrightarrow> reads d v \<and> json_ok v"
  shows "\<exists>f. parse_elems f d (join_with (CHR '','') (map print_json vs) @ CHR '']'' # t) = Some (vs, t)"
  using assms
proof (induction vs)
  case (Cons v vs)
  show ?case
  proof (cases vs)
    case Nil
    let ?s = "print_json v @ CHR '']'' # t"
    define g where "g = 2 * length ?s"
    have "parse_value g d ?s = Some (v, CHR '']'' # t)"
      using Cons.prems by (intro reads_any) (auto simp: delim_def g_def)
    then have "parse_elems (Suc g) d ?s = Some ([v], t)" by (simp add: parse_elems.simps skip_delim)
    then show ?thesis using Nil by auto
  next
    case vs: (Cons w ws)
    let ?r = "join_with (CHR '','') (map print_json vs) @ CHR '']'' # t"
    let ?s = "print_json v @ CHR '','' # ?r"
    define g where "g = 2 * length ?s"
    obtain f where "parse_elems f d ?r = Some (vs, t)" using Cons.IH vs Cons.prems by auto
    moreover have "2 * length ?r + 1 \<le> g" by (simp add: g_def)
    ultimately have r: "parse_elems g d ?r = Some (vs, t)" using parse_fuel(2) by blast
    have "skip_ws ?r = ?r" using vs Cons.prems skip_ws_print [of w] by (cases ws) auto
    moreover have "parse_value g d ?s = Some (v, CHR '','' # ?r)"
      using Cons.prems by (intro reads_any) (auto simp: delim_def g_def)
    ultimately have "parse_elems (Suc g) d ?s = Some (v # vs, t)"
      using r by (simp add: parse_elems.simps skip_delim)
    then show ?thesis using vs by auto
  qed
qed simp


definition member_text :: "string \<times> json \<Rightarrow> string" where
  "member_text m = quoted (fst m) @ CHR '':'' # print_json (snd m)"

lemma member_read:
  assumes "raw_ok k" "reads d v" "json_ok v" "skip_ws u = c # w" "delim (c # w)" "u = c # w"
    and "2 * length (member_text (k, v) @ u) \<le> g"
  shows "parse_members (Suc g) d (member_text (k, v) @ u) =
    (if c = CHR ''}'' then Some ([(k, v)], w)
     else if c = CHR '','' then map_option (\<lambda>(ms, x). ((k, v) # ms, x)) (parse_members g d (skip_ws w)) else None)"
proof -
  have "parse_value g d (print_json v @ u) = Some (v, u)"
    using assms by (intro reads_any) (auto simp: member_text_def)
  then show ?thesis
    using assms(1,4) skip_ws_print [OF assms(3), of u]
    by (simp add: parse_members.simps member_text_def quoted_def raw_ok_scan skip_delim)
qed

lemma members_read:
  assumes "ms \<noteq> []" "\<And>k v. (k, v) \<in> set ms \<Longrightarrow> raw_ok k \<and> reads d v \<and> json_ok v"
  shows "\<exists>f. parse_members f d (join_with (CHR '','') (map member_text ms) @ CHR ''}'' # t) = Some (ms, t)"
  using assms
proof (induction ms)
  case (Cons m ms)
  obtain k v where m: "m = (k, v)" by (cases m)
  have ok: "raw_ok k" "reads d v" "json_ok v" using Cons.prems m by auto
  show ?case
  proof (cases ms)
    case Nil
    have "parse_members (Suc (2 * length (member_text (k, v) @ CHR ''}'' # t))) d (member_text (k, v) @ CHR ''}'' # t) = Some ([(k, v)], t)"
      by (subst member_read [OF ok skip_delim(3) _ refl]) (simp_all add: delim_def)
    then show ?thesis using Nil m by auto
  next
    case ms: (Cons n ns)
    let ?r = "join_with (CHR '','') (map member_text ms) @ CHR ''}'' # t"
    define g where "g = 2 * length (member_text (k, v) @ CHR '','' # ?r)"
    obtain f where "parse_members f d ?r = Some (ms, t)" using Cons.IH ms Cons.prems by auto
    moreover have "2 * length ?r + 1 \<le> g" by (simp add: g_def)
    ultimately have r: "parse_members g d ?r = Some (ms, t)" using parse_fuel(3) by blast
    have "skip_ws ?r = ?r" using ms by (cases ns) (auto simp: member_text_def quoted_def skip_ws_def is_ws_def quote_char_def)
    then have "parse_members (Suc g) d (member_text (k, v) @ CHR '','' # ?r) = Some ((k, v) # ms, t)"
      using r by (subst member_read [OF ok skip_delim(1) _ refl]) (simp_all add: delim_def g_def)
    then show ?thesis using ms m by auto
  qed
qed simp

lemma foldr_max_ge: "x \<in> set xs \<Longrightarrow> f x \<le> foldr max (map f xs) (0::nat)"
  by (induction xs) auto

lemma print_reads: "json_ok j \<Longrightarrow> d + json_depth j \<le> maxNestingDepth \<Longrightarrow> reads d j"
proof (induction j arbitrary: d)
  case (JNum r)
  then show ?case using reads_num by auto
next
  case (JArr vs)
  have IH: "reads (Suc d) v \<and> json_ok v" if "v \<in> set vs" for v
    using JArr.IH [of v "Suc d"] JArr.prems that foldr_max_ge [of v vs json_depth] by (auto simp: list_all_iff)
  show ?case unfolding reads_def
  proof (intro allI impI)
    fix t assume "delim t"
    show "\<exists>f. parse_value f d (print_json (JArr vs) @ t) = Some (JArr vs, t)"
    proof (cases vs)
      case Nil
      have "parse_value (Suc 0) d (print_json (JArr vs) @ t) = Some (JArr vs, t)"
        using JArr.prems Nil by (simp add: parse_value.simps skip_delim quote_char_def)
      then show ?thesis by blast
    next
      case (Cons v ws)
      let ?r = "join_with (CHR '','') (map print_json vs) @ CHR '']'' # t"
      obtain f where f: "parse_elems f (Suc d) ?r = Some (vs, t)" using elems_read [of vs "Suc d" t] IH Cons by auto
      obtain c s where c: "print_json v = c # s" "\<not> is_ws c" "c \<noteq> CHR '']''" using print_start IH Cons by (metis list.set_intros(1))
      then obtain u where u: "?r = c # u" using Cons by (cases ws) auto
      then have "skip_ws ?r = c # u" using c by (simp add: skip_ws_def)
      then have "parse_value (Suc f) d (CHR ''['' # ?r) = Some (JArr vs, t)"
        using f u c JArr.prems by (simp add: parse_value.simps quote_char_def)
      then show ?thesis by auto
    qed
  qed
next
  case (JObj ms)
  have IH: "raw_ok k \<and> reads (Suc d) v \<and> json_ok v" if "(k, v) \<in> set ms" for k v
    using JObj.IH [of "(k, v)" v "Suc d"] JObj.prems that foldr_max_ge [of "(k, v)" ms "\<lambda>(k, v). json_depth v"]
    by (auto simp: list_all_iff)
  have "(\<lambda>(k, v). quoted k @ CHR '':'' # print_json v) = member_text" by (auto simp: fun_eq_iff member_text_def)
  then have mt: "print_json (JObj ms) @ t = CHR ''{'' # join_with (CHR '','') (map member_text ms) @ CHR ''}'' # t" for t
    by simp
  show ?case unfolding reads_def
  proof (intro allI impI)
    fix t assume "delim t"
    show "\<exists>f. parse_value f d (print_json (JObj ms) @ t) = Some (JObj ms, t)"
    proof (cases ms)
      case Nil
      have "parse_value (Suc 0) d (print_json (JObj ms) @ t) = Some (JObj ms, t)"
        using JObj.prems Nil by (simp add: parse_value.simps skip_delim quote_char_def)
      then show ?thesis by blast
    next
      case (Cons m ns)
      let ?r = "join_with (CHR '','') (map member_text ms) @ CHR ''}'' # t"
      obtain f where f: "parse_members f (Suc d) ?r = Some (ms, t)" using members_read [of ms "Suc d" t] IH Cons by auto
      obtain u where u: "?r = quote_char # u" using Cons by (cases ns) (auto simp: member_text_def quoted_def)
      then have "skip_ws ?r = quote_char # u" by (simp add: skip_ws_def is_ws_def quote_char_def)
      then have "parse_value (Suc f) d (CHR ''{'' # ?r) = Some (JObj ms, t)"
        using f u JObj.prems by (simp add: parse_value.simps quote_char_def)
      then show ?thesis unfolding mt by blast
    qed
  qed
qed (use reads_word reads_str in auto)

text \<open>Every value the program writes is read back as it was.\<close>

theorem json_parse_print:
  assumes "json_ok j" "json_depth j \<le> maxNestingDepth"
  shows "json_parse (print_json j) = Some j"
proof -
  have "reads 0 j" using print_reads [of j 0] assms by simp
  from reads_any [OF this, of "[]" "json_fuel (print_json j)"]
  have "parse_value (json_fuel (print_json j)) 0 (print_json j) = Some (j, [])" by (simp add: delim_def json_fuel_def)
  then show ?thesis using skip_ws_print [OF assms(1), of "[]"] by (simp add: json_parse_def skip_ws_def)
qed

end
