(* ===== verification/Json_Text.thy ===== *)
theory Json_Text
  imports Go_Json
begin

text \<open>
  String values of \<open>encoding/json\<close>: \<open>unquote\<close>, which decodes the escapes and repairs what is not valid UTF-8, and the
  quoting of \<open>Marshal\<close>, which escapes what is not safe in HTML; and the matching of member names without regard to case.
\<close>

section \<open>Unquoting\<close>

definition IsSurrogate :: "int \<Rightarrow> bool" where
  "IsSurrogate r \<longleftrightarrow> 55296 \<le> r \<and> r \<le> 57343"

text \<open>\<open>utf16.DecodeRune\<close>: the rune of a surrogate pair, or \<open>RuneError\<close>.\<close>

definition utf16_DecodeRune :: "int \<Rightarrow> int \<Rightarrow> int" where
  "utf16_DecodeRune r1 r2 =
     (if 55296 \<le> r1 \<and> r1 < 56320 \<and> 56320 \<le> r2 \<and> r2 < 57344
      then (r1 - 55296) * 1024 + (r2 - 56320) + 65536 else RuneError)"

text \<open>\<open>getu4\<close>: the unit of an escape at the start of the text.\<close>

definition getu4 :: "string \<Rightarrow> int option" where
  "getu4 s =
     (case s of b # u # t \<Rightarrow> if b = backslash \<and> u = CHR ''u'' then hex4 t else None | _ \<Rightarrow> None)"

definition unescape :: "char \<Rightarrow> char" where
  "unescape e =
     (if e = CHR ''b'' then CHR 0x08 else if e = CHR ''f'' then CHR 0x0C else if e = CHR ''n'' then CHR 0x0A
      else if e = CHR ''r'' then CHR 0x0D else if e = CHR ''t'' then CHR 0x09 else e)"

function unquote :: "string \<Rightarrow> string" where
  "unquote s =
     (case s of [] \<Rightarrow> []
      | c # s1 \<Rightarrow>
          if c = backslash
          then (case s1 of [] \<Rightarrow> []
                | e # s2 \<Rightarrow>
                    if e = CHR ''u''
                    then (case getu4 s of None \<Rightarrow> unquote s2
                          | Some rr \<Rightarrow>
                              if IsSurrogate rr
                              then (case getu4 (drop 6 s) of None \<Rightarrow> encodeRune RuneError @ unquote (drop 6 s)
                                    | Some rr1 \<Rightarrow>
                                        let r = utf16_DecodeRune rr rr1
                                        in if r \<noteq> RuneError then encodeRune r @ unquote (drop 12 s)
                                           else encodeRune RuneError @ unquote (drop 6 s))
                              else encodeRune rr @ unquote (drop 6 s))
                    else unescape e # unquote s2)
          else if byte c < 128 then c # unquote s1
          else (case decodeRune s of (r, n) \<Rightarrow> encodeRune r @ unquote (drop (max 1 n) s)))"
  by pat_completeness auto
termination
  by (relation "measure length") (auto split: list.splits)

declare unquote.simps [simp del]

section \<open>Quoting\<close>

definition hex_low :: "int \<Rightarrow> char" where
  "hex_low d = (if d < 10 then char_of (48 + d) else char_of (87 + d))"

definition u_escape :: "int \<Rightarrow> string" where
  "u_escape u = backslash # CHR ''u'' # map (\<lambda>k. hex_low (u div k mod 16)) [4096, 256, 16, 1]"

definition html_safe :: "char \<Rightarrow> bool" where
  "html_safe c \<longleftrightarrow> 32 \<le> byte c \<and> byte c < 128 \<and> c \<notin> set [quote_char, backslash, CHR ''<'', CHR ''>'', CHR ''&'']"

definition escape_ascii :: "char \<Rightarrow> string" where
  "escape_ascii c =
     (if html_safe c then [c]
      else if c = quote_char \<or> c = backslash then [backslash, c]
      else if c = CHR 0x08 then backslash # ''b''
      else if c = CHR 0x0C then backslash # ''f''
      else if c = CHR 0x0A then backslash # ''n''
      else if c = CHR 0x0D then backslash # ''r''
      else if c = CHR 0x09 then backslash # ''t''
      else u_escape (byte c))"

text \<open>The raw text between the quotes that \<open>Marshal\<close> writes for a Go string.\<close>

function quote_raw :: "string \<Rightarrow> string" where
  "quote_raw s =
     (case s of [] \<Rightarrow> []
      | c # s1 \<Rightarrow>
          if byte c < 128 then escape_ascii c @ quote_raw s1
          else (case decodeRune s of (r, n) \<Rightarrow>
                  (if r = RuneError \<and> n = 1 then u_escape RuneError
                   else if r = 8232 \<or> r = 8233 then u_escape r
                   else take n s) @ quote_raw (drop (max 1 n) s)))"
  by pat_completeness auto
termination
  by (relation "measure length") auto

declare quote_raw.simps [simp del]

definition JString :: "string \<Rightarrow> json" where
  "JString s = JStr (quote_raw s)"

section \<open>Member names\<close>

text \<open>The runes of a string.\<close>

function runes :: "string \<Rightarrow> int list" where
  "runes s = (case s of [] \<Rightarrow> [] | c # s1 \<Rightarrow> (case decodeRune s of (r, n) \<Rightarrow> r # runes (drop (max 1 n) s)))"
  by pat_completeness auto
termination
  by (relation "measure length") auto

declare runes.simps [simp del]

text \<open>A rune that simple case folding makes equal to a lower-case ASCII character: its upper case, the long s for s,
  the Kelvin sign for k.\<close>

definition fold_char :: "int \<Rightarrow> char \<Rightarrow> bool" where
  "fold_char r c \<longleftrightarrow> r = byte c \<or> 97 \<le> byte c \<and> byte c \<le> 122 \<and> r = byte c - 32
     \<or> c = CHR ''s'' \<and> r = 383 \<or> c = CHR ''k'' \<and> r = 8490"

text \<open>\<open>strings.EqualFold(key, name)\<close> for a name of lower-case ASCII letters, digits and underscores.\<close>

definition EqualFold :: "string \<Rightarrow> string \<Rightarrow> bool" where
  "EqualFold key name \<longleftrightarrow> list_all2 fold_char (runes key) name"

text \<open>The field of a struct a member decodes into: the one with its name, else one with its name up to case.\<close>

definition field_of :: "string list \<Rightarrow> string \<Rightarrow> string option" where
  "field_of names key =
     (if key \<in> set names then Some key else find (EqualFold key) names)"


section \<open>Plain text\<close>

text \<open>Text that needs no escape is written and read as it is.\<close>

definition plain :: "string \<Rightarrow> bool" where
  "plain s \<longleftrightarrow> list_all html_safe s"

lemma plain_simps [simp]:
  "plain []" "plain (c # s) \<longleftrightarrow> html_safe c \<and> plain s" "plain (s @ t) \<longleftrightarrow> plain s \<and> plain t"
  by (auto simp: plain_def)

lemma html_safe_dest:
  assumes "html_safe c"
  shows "byte c < 128" "32 \<le> byte c" "c \<noteq> quote_char" "c \<noteq> backslash"
  using assms by (auto simp: html_safe_def)

lemma quote_raw_plain [simp]: "plain s \<Longrightarrow> quote_raw s = s"
  by (induction s) (auto simp: quote_raw.simps escape_ascii_def html_safe_dest)

lemma unquote_plain [simp]: "plain s \<Longrightarrow> unquote s = s"
  by (induction s) (auto simp: unquote.simps html_safe_dest)

lemma raw_ok_plain [simp]: "plain s \<Longrightarrow> raw_ok s"
proof -
  have "plain s \<Longrightarrow> scan_string (s @ [quote_char]) = Some (s, [])"
    by (induction s) (auto simp: html_safe_dest not_less)
  then show "plain s \<Longrightarrow> raw_ok s" by (simp add: raw_ok_def)
qed

end
