(* ===== verification/Base64.thy ===== *)
theory Base64
  imports Json_Text
begin

text \<open>
  \<open>base64.StdEncoding\<close>, in which \<open>encoding/json\<close> writes a byte slice, and the hexadecimal text of digests.
\<close>

definition b64_char :: "int \<Rightarrow> char" where
  "b64_char i = char_of (if i < 26 then 65 + i else if i < 52 then 71 + i else if i < 62 then i - 4
                         else if i = 62 then 43 else 47)"

definition b64_val :: "char \<Rightarrow> int option" where
  "b64_val c = (let b = byte c
     in if 65 \<le> b \<and> b \<le> 90 then Some (b - 65) else if 97 \<le> b \<and> b \<le> 122 then Some (b - 71)
        else if 48 \<le> b \<and> b \<le> 57 then Some (b + 4) else if b = 43 then Some 62 else if b = 47 then Some 63 else None)"

fun b64_encode :: "string \<Rightarrow> string" where
  "b64_encode [] = []"
| "b64_encode [a] = [b64_char (byte a div 4), b64_char (byte a mod 4 * 16), CHR ''='', CHR ''='']"
| "b64_encode [a, b] =
     [b64_char (byte a div 4), b64_char (byte a mod 4 * 16 + byte b div 16), b64_char (byte b mod 16 * 4), CHR ''='']"
| "b64_encode (a # b # c # s) =
     b64_char (byte a div 4) # b64_char (byte a mod 4 * 16 + byte b div 16)
     # b64_char (byte b mod 16 * 4 + byte c div 64) # b64_char (byte c mod 64) # b64_encode s"

fun b64_quads :: "string \<Rightarrow> string option" where
  "b64_quads [] = Some []"
| "b64_quads (a # b # c # d # s) =
     (case (b64_val a, b64_val b) of
        (Some v0, Some v1) \<Rightarrow>
          if d = CHR ''=''
          then if s \<noteq> [] then None
               else if c = CHR ''='' then Some [char_of (v0 * 4 + v1 div 16)]
               else (case b64_val c of None \<Rightarrow> None
                     | Some v2 \<Rightarrow> Some [char_of (v0 * 4 + v1 div 16), char_of (v1 mod 16 * 16 + v2 div 4)])
          else (case (b64_val c, b64_val d) of
                  (Some v2, Some v3) \<Rightarrow>
                    map_option (\<lambda>t. char_of (v0 * 4 + v1 div 16) # char_of (v1 mod 16 * 16 + v2 div 4)
                                    # char_of (v2 mod 4 * 64 + v3) # t) (b64_quads s)
                | _ \<Rightarrow> None)
      | _ \<Rightarrow> None)"
| "b64_quads _ = None"

text \<open>The decoder skips line ends.\<close>

definition b64_decode :: "string \<Rightarrow> string option" where
  "b64_decode s = b64_quads (filter (\<lambda>c. c \<noteq> CHR 0x0D \<and> c \<noteq> CHR 0x0A) s)"

section \<open>What was encoded is decoded\<close>

lemma char_of_byte [simp]: "char_of (byte c) = c"
  by (simp add: byte_def)

lemma byte_char_of: "0 \<le> i \<Longrightarrow> i < 256 \<Longrightarrow> byte (char_of i) = i"
  by (simp add: byte_def)

lemma byte_b64_char:
  "0 \<le> i \<Longrightarrow> i < 64 \<Longrightarrow>
     byte (b64_char i) = (if i < 26 then 65 + i else if i < 52 then 71 + i else if i < 62 then i - 4 else if i = 62 then 43 else 47)"
  unfolding b64_char_def by (rule byte_char_of) auto

lemma b64_val_char [simp]: "0 \<le> i \<Longrightarrow> i < 64 \<Longrightarrow> b64_val (b64_char i) = Some i"
  by (simp add: b64_val_def byte_b64_char)

lemma byte_literals: "byte CHR ''='' = 61" "byte CHR 0x0D = 13" "byte CHR 0x0A = 10" "byte CHR ''<'' = 60" "byte CHR ''>'' = 62"
  "byte CHR ''&'' = 38" "byte quote_char = 34" "byte backslash = 92"
  by (simp_all add: byte_def quote_char_def backslash_def)

lemma b64_char_neq:
  assumes "0 \<le> i" "i < 64"
  shows "b64_char i \<noteq> CHR ''=''" "b64_char i \<noteq> CHR 0x0D" "b64_char i \<noteq> CHR 0x0A" "html_safe (b64_char i)"
proof -
  have "byte (b64_char i) \<noteq> byte CHR ''=''" "byte (b64_char i) \<noteq> byte CHR 0x0D" "byte (b64_char i) \<noteq> byte CHR 0x0A"
    using assms by (auto simp: byte_b64_char byte_literals)
  then show "b64_char i \<noteq> CHR ''=''" "b64_char i \<noteq> CHR 0x0D" "b64_char i \<noteq> CHR 0x0A" by auto
  have "x \<in> set [quote_char, backslash, CHR ''<'', CHR ''>'', CHR ''&''] \<Longrightarrow> byte (b64_char i) \<noteq> byte x" for x
    using assms by (auto simp: byte_b64_char byte_literals)
  then have "b64_char i \<notin> set [quote_char, backslash, CHR ''<'', CHR ''>'', CHR ''&'']" by blast
  then show "html_safe (b64_char i)"
    using assms by (auto simp: html_safe_def byte_b64_char)
qed

text \<open>The four values of a group are in range.\<close>

lemma byte_parts:
  "0 \<le> byte a div 4" "byte a div 4 < 64" "0 \<le> byte a mod 4 * 16" "byte a mod 4 * 16 < 64"
  "0 \<le> byte a mod 4 * 16 + byte b div 16" "byte a mod 4 * 16 + byte b div 16 < 64"
  "0 \<le> byte b mod 16 * 4" "byte b mod 16 * 4 < 64"
  "0 \<le> byte b mod 16 * 4 + byte c div 64" "byte b mod 16 * 4 + byte c div 64 < 64"
  "0 \<le> byte c mod 64" "byte c mod 64 < 64"
  using byte_range [of a] byte_range [of b] byte_range [of c] by presburger+

lemma join_digits:
  fixes y z :: int
  shows "0 \<le> z \<Longrightarrow> z < 16 \<Longrightarrow> (y * 16 + z) div 16 = y \<and> (y * 16 + z) mod 16 = z"
    "0 \<le> z \<Longrightarrow> z < 4 \<Longrightarrow> (y * 4 + z) div 4 = y \<and> (y * 4 + z) mod 4 = z"
  by simp_all

lemma group_values:
  "byte a div 4 * 4 + byte a mod 4 * 16 div 16 = byte a"
  "byte a div 4 * 4 + (byte a mod 4 * 16 + byte b div 16) div 16 = byte a"
  "(byte a mod 4 * 16 + byte b div 16) mod 16 * 16 + byte b mod 16 * 4 div 4 = byte b"
  "(byte a mod 4 * 16 + byte b div 16) mod 16 * 16 + (byte b mod 16 * 4 + byte c div 64) div 4 = byte b"
  "(byte b mod 16 * 4 + byte c div 64) mod 4 * 64 + byte c mod 64 = byte c"
proof -
  have b: "0 \<le> byte b div 16" "byte b div 16 < 16" using byte_range [of b] by auto
  have c: "0 \<le> byte c div 64" "byte c div 64 < 4" using byte_range [of c] by auto
  note j = join_digits(1) [OF b, of "byte a mod 4"] join_digits(2) [OF c, of "byte b mod 16"]
  show "byte a div 4 * 4 + byte a mod 4 * 16 div 16 = byte a" by simp
  show "byte a div 4 * 4 + (byte a mod 4 * 16 + byte b div 16) div 16 = byte a"
    "(byte a mod 4 * 16 + byte b div 16) mod 16 * 16 + byte b mod 16 * 4 div 4 = byte b"
    "(byte a mod 4 * 16 + byte b div 16) mod 16 * 16 + (byte b mod 16 * 4 + byte c div 64) div 4 = byte b"
    "(byte b mod 16 * 4 + byte c div 64) mod 4 * 64 + byte c mod 64 = byte c"
    by (simp_all only: j div_mult_mod_eq nonzero_mult_div_cancel_right zero_neq_numeral not_False_eq_True)
qed

lemma quad_decodes:
  assumes "0 \<le> v0" "v0 < 64" "0 \<le> v1" "v1 < 64"
  shows "b64_quads [b64_char v0, b64_char v1, CHR ''='', CHR ''=''] = Some [char_of (v0 * 4 + v1 div 16)]"
    "0 \<le> v2 \<Longrightarrow> v2 < 64 \<Longrightarrow> b64_quads [b64_char v0, b64_char v1, b64_char v2, CHR ''=''] =
       Some [char_of (v0 * 4 + v1 div 16), char_of (v1 mod 16 * 16 + v2 div 4)]"
    "0 \<le> v2 \<Longrightarrow> v2 < 64 \<Longrightarrow> 0 \<le> v3 \<Longrightarrow> v3 < 64 \<Longrightarrow>
       b64_quads (b64_char v0 # b64_char v1 # b64_char v2 # b64_char v3 # s) =
       map_option (\<lambda>t. char_of (v0 * 4 + v1 div 16) # char_of (v1 mod 16 * 16 + v2 div 4)
                        # char_of (v2 mod 4 * 64 + v3) # t) (b64_quads s)"
  using assms b64_char_neq(1) by simp_all

lemma b64_quads_encode: "b64_quads (b64_encode s) = Some s"
proof (induction s rule: b64_encode.induct)
  case (2 a)
  show ?case by (simp only: b64_encode.simps quad_decodes byte_parts group_values char_of_byte)
next
  case (3 a b)
  show ?case by (simp only: b64_encode.simps quad_decodes byte_parts group_values char_of_byte)
next
  case (4 a b c s)
  show ?case by (simp only: b64_encode.simps quad_decodes byte_parts group_values char_of_byte 4 option.map)
qed simp

lemma plain_b64 [simp]: "plain (b64_encode s)"
  by (induction s rule: b64_encode.induct)
    (simp_all add: byte_parts b64_char_neq, simp_all add: html_safe_def byte_literals quote_char_def backslash_def)

lemma filter_b64: "filter (\<lambda>c. c \<noteq> CHR 0x0D \<and> c \<noteq> CHR 0x0A) (b64_encode s) = b64_encode s"
  by (induction s rule: b64_encode.induct) (simp_all add: byte_parts b64_char_neq)

lemma b64_decode_encode [simp]: "b64_decode (b64_encode s) = Some s"
  by (simp add: b64_decode_def filter_b64 b64_quads_encode)

lemma b64_encode_length: "length (b64_encode s) = 4 * ((length s + 2) div 3)"
proof (induction s rule: b64_encode.induct)
  case (4 a b c s)
  have "(length s + 3 + 2) div 3 = Suc ((length s + 2) div 3)" by presburger
  then show ?case using 4 by simp
qed simp_all

section \<open>The strict decoder\<close>

text \<open>\<open>Strict\<close>: the bits the padding leaves over are zero.\<close>

fun b64_clean :: "string \<Rightarrow> bool" where
  "b64_clean (a # b # c # d # s) =
     (if d = CHR ''='' then (case b64_val (if c = CHR ''='' then b else c) of
          None \<Rightarrow> True | Some v \<Rightarrow> v mod (if c = CHR ''='' then 16 else 4) = 0)
      else b64_clean s)"
| "b64_clean _ = True"

definition b64_decode_strict :: "string \<Rightarrow> string option" where
  "b64_decode_strict s =
     (if b64_clean (filter (\<lambda>c. c \<noteq> CHR 0x0D \<and> c \<noteq> CHR 0x0A) s) then b64_decode s else None)"

lemma b64_clean_encode: "b64_clean (b64_encode s)"
  by (induction s rule: b64_encode.induct) (simp_all add: byte_parts b64_char_neq)

lemma b64_decode_strict_encode [simp]: "b64_decode_strict (b64_encode s) = Some s"
  by (simp add: b64_decode_strict_def filter_b64 b64_clean_encode)

end
