(* ===== verification/Contracts.thy ===== *)
theory Contracts
  imports Json_Text
begin

text \<open>
  The wire contract, \<open>internal/contracts\<close>: MQTT topics and the identifiers in them, the size of payloads for each
  family of topics, the members of each family, and the validation of reasoning and enrichment messages.
\<close>

section \<open>Identifiers\<close>

datatype contractError =
    EmptyDeviceID | SpacedDeviceID | SeparatorInDeviceID
  | BadRequestID | BadProposalID
  | InvalidTopic
  | EmptyField string
  | BadTierHint | BadTier
  | TimeoutNotPositive
  | RequestMismatch | ProposalMismatch | DeviceMismatch

text \<open>\<open>strings.Split\<close> at one character.\<close>

fun split_on :: "char \<Rightarrow> string \<Rightarrow> string list" where
  "split_on c [] = [[]]"
| "split_on c (x # xs) =
     (if x = c then [] # split_on c xs
      else case split_on c xs of [] \<Rightarrow> [[x]] | p # ps \<Rightarrow> (x # p) # ps)"

definition is_control :: "int \<Rightarrow> bool" where
  "is_control r \<longleftrightarrow> 0 \<le> r \<and> r \<le> 31 \<or> 127 \<le> r \<and> r \<le> 159"

definition ValidEvidenceRoutingDeviceID :: "string \<Rightarrow> bool" where
  "ValidEvidenceRoutingDeviceID deviceID \<longleftrightarrow>
     \<not> (deviceID = [] \<or> \<not> utf8_Valid deviceID \<or> length (runes deviceID) > 128)
     \<and> list_all (\<lambda>r. \<not> (is_control r \<or> IsSpace r \<or> r = 47 \<or> r = 43 \<or> r = 35)) (runes deviceID)"

definition validateMQTTDeviceID :: "string \<Rightarrow> contractError option" where
  "validateMQTTDeviceID deviceID =
     (if deviceID = [] then Some EmptyDeviceID
      else if TrimSpace deviceID \<noteq> deviceID then Some SpacedDeviceID
      else if list_ex (\<lambda>c. c \<in> set ''/+#|'') deviceID then Some SeparatorInDeviceID
      else None)"

definition maxRoutingID :: nat where
  "maxRoutingID = 128"

definition routing_char :: "char \<Rightarrow> bool" where
  "routing_char c \<longleftrightarrow> (let b = byte c
     in 97 \<le> b \<and> b \<le> 122 \<or> 65 \<le> b \<and> b \<le> 90 \<or> is_digit c) \<or> c \<in> set ''._-''"

definition ValidRoutingID :: "string \<Rightarrow> bool" where
  "ValidRoutingID v \<longleftrightarrow> \<not> (v = [] \<or> length v > maxRoutingID) \<and> list_all routing_char v"

definition validateMQTTRequestID :: "string \<Rightarrow> contractError option" where
  "validateMQTTRequestID requestID = (if \<not> ValidRoutingID requestID then Some BadRequestID else None)"

section \<open>Topics\<close>

definition device_topic :: "string \<Rightarrow> string \<Rightarrow> contractError + string" where
  "device_topic deviceID suffix =
     (case validateMQTTDeviceID deviceID of Some e \<Rightarrow> Inl e | None \<Rightarrow> Inr (''ori/'' @ deviceID @ suffix))"

definition RequestTopic :: "string \<Rightarrow> contractError + string" where
  "RequestTopic deviceID = device_topic deviceID ''/reasoning/request''"

definition ResponseTopic :: "string \<Rightarrow> contractError + string" where
  "ResponseTopic deviceID = device_topic deviceID ''/reasoning/response''"

definition RuntimeNodeHeartbeatTopic :: "string \<Rightarrow> contractError + string" where
  "RuntimeNodeHeartbeatTopic deviceID = device_topic deviceID ''/runtime/heartbeat''"

definition EvidenceOutboundTopic :: "string \<Rightarrow> contractError + string" where
  "EvidenceOutboundTopic deviceID = device_topic deviceID ''/evidence/outbound''"

definition EvidenceOutboundAckTopic :: "string \<Rightarrow> contractError + string" where
  "EvidenceOutboundAckTopic deviceID = device_topic deviceID ''/evidence/outbound/ack''"

definition EvidenceInboundTopic :: "string \<Rightarrow> contractError + string" where
  "EvidenceInboundTopic deviceID = device_topic deviceID ''/evidence/inbound''"

definition EvidenceInboundAckTopic :: "string \<Rightarrow> contractError + string" where
  "EvidenceInboundAckTopic deviceID = device_topic deviceID ''/evidence/inbound/ack''"

definition TierCEnrichmentRequestTopic :: "string \<Rightarrow> contractError + string" where
  "TierCEnrichmentRequestTopic deviceID = device_topic deviceID ''/tier_c/enrichment/request''"

definition TierCEnrichmentResponseTopic :: "string \<Rightarrow> contractError + string" where
  "TierCEnrichmentResponseTopic deviceID = device_topic deviceID ''/tier_c/enrichment/response''"

definition ExportRequestTopic :: "string \<Rightarrow> contractError + string" where
  "ExportRequestTopic deviceID = device_topic deviceID ''/export/request''"

definition ExportResponseTopic :: "string \<Rightarrow> string \<Rightarrow> contractError + string" where
  "ExportResponseTopic deviceID requestID =
     (case validateMQTTDeviceID deviceID of Some e \<Rightarrow> Inl e
      | None \<Rightarrow> (case validateMQTTRequestID requestID of Some e \<Rightarrow> Inl e
                 | None \<Rightarrow> Inr (''ori/'' @ deviceID @ ''/export/response/'' @ requestID)))"

definition ExportResponseTopicFilter :: "string \<Rightarrow> contractError + string" where
  "ExportResponseTopicFilter deviceID = device_topic deviceID ''/export/response/+''"

text \<open>The check every topic parser makes of the device segment.\<close>

definition checked_device :: "string \<Rightarrow> contractError + string" where
  "checked_device deviceID = (case validateMQTTDeviceID deviceID of Some e \<Rightarrow> Inl e | None \<Rightarrow> Inr deviceID)"

definition deviceIDFromEvidenceTopic :: "string \<Rightarrow> string \<Rightarrow> bool \<Rightarrow> contractError + string" where
  "deviceIDFromEvidenceTopic topic direction ack =
     (let parts = split_on CHR ''/'' topic; want = (if ack then 5 else 4)
      in if length parts \<noteq> want \<or> parts ! 0 \<noteq> ''ori'' \<or> parts ! 2 \<noteq> ''evidence'' \<or> parts ! 3 \<noteq> direction
            \<or> ack \<and> parts ! 4 \<noteq> ''ack''
         then Inl InvalidTopic
         else checked_device (parts ! 1))"

definition DeviceIDFromEvidenceOutboundTopic :: "string \<Rightarrow> contractError + string" where
  "DeviceIDFromEvidenceOutboundTopic topic = deviceIDFromEvidenceTopic topic ''outbound'' False"

definition DeviceIDFromEvidenceInboundAckTopic :: "string \<Rightarrow> contractError + string" where
  "DeviceIDFromEvidenceInboundAckTopic topic = deviceIDFromEvidenceTopic topic ''inbound'' True"

definition DeviceIDFromRuntimeNodeHeartbeatTopic :: "string \<Rightarrow> contractError + string" where
  "DeviceIDFromRuntimeNodeHeartbeatTopic topic =
     (let parts = split_on CHR ''/'' topic
      in if length parts \<noteq> 4 \<or> parts ! 0 \<noteq> ''ori'' \<or> parts ! 2 \<noteq> ''runtime'' \<or> parts ! 3 \<noteq> ''heartbeat''
         then Inl InvalidTopic
         else checked_device (parts ! 1))"

definition DeviceIDFromTierCEnrichmentRequestTopic :: "string \<Rightarrow> contractError + string" where
  "DeviceIDFromTierCEnrichmentRequestTopic topic =
     (let parts = split_on CHR ''/'' topic
      in if length parts \<noteq> 5 \<or> parts ! 0 \<noteq> ''ori'' \<or> parts ! 2 \<noteq> ''tier_c'' \<or> parts ! 3 \<noteq> ''enrichment''
            \<or> parts ! 4 \<noteq> ''request''
         then Inl InvalidTopic
         else checked_device (parts ! 1))"

section \<open>Payload sizes\<close>

definition FamilyGatewayHealth :: string where "FamilyGatewayHealth = ''ori/gateway/health''"
definition FamilyRuntimeHeartbeat :: string where "FamilyRuntimeHeartbeat = ''ori/{device_id}/runtime/heartbeat''"
definition FamilyReasoningRequest :: string where "FamilyReasoningRequest = ''ori/{device_id}/reasoning/request''"
definition FamilyReasoningResponse :: string where "FamilyReasoningResponse = ''ori/{device_id}/reasoning/response''"
definition FamilyEnrichmentRequest :: string where
  "FamilyEnrichmentRequest = ''ori/{device_id}/tier_c/enrichment/request''"
definition FamilyEnrichmentResponse :: string where
  "FamilyEnrichmentResponse = ''ori/{device_id}/tier_c/enrichment/response''"
definition FamilyExportRequest :: string where "FamilyExportRequest = ''ori/{device_id}/export/request''"
definition FamilyExportResponse :: string where
  "FamilyExportResponse = ''ori/{device_id}/export/response/{request_id}''"
definition FamilyEvidenceOutbound :: string where "FamilyEvidenceOutbound = ''ori/{device_id}/evidence/outbound''"
definition FamilyEvidenceOutboundAck :: string where
  "FamilyEvidenceOutboundAck = ''ori/{device_id}/evidence/outbound/ack''"
definition FamilyEvidenceInbound :: string where "FamilyEvidenceInbound = ''ori/{device_id}/evidence/inbound''"
definition FamilyEvidenceInboundAck :: string where
  "FamilyEvidenceInboundAck = ''ori/{device_id}/evidence/inbound/ack''"

lemmas family_defs =
  FamilyGatewayHealth_def FamilyRuntimeHeartbeat_def FamilyReasoningRequest_def FamilyReasoningResponse_def
  FamilyEnrichmentRequest_def FamilyEnrichmentResponse_def FamilyExportRequest_def FamilyExportResponse_def
  FamilyEvidenceOutbound_def FamilyEvidenceOutboundAck_def FamilyEvidenceInbound_def FamilyEvidenceInboundAck_def

definition PayloadMaxima :: "(string \<times> int) list" where
  "PayloadMaxima =
     [(FamilyGatewayHealth, 16384), (FamilyRuntimeHeartbeat, 65536),
      (FamilyReasoningRequest, 262144), (FamilyReasoningResponse, 262144),
      (FamilyEnrichmentRequest, 262144), (FamilyEnrichmentResponse, 262144),
      (FamilyExportRequest, 16384), (FamilyExportResponse, 4194304),
      (FamilyEvidenceOutbound, 1572864), (FamilyEvidenceOutboundAck, 16384),
      (FamilyEvidenceInbound, 1114112), (FamilyEvidenceInboundAck, 16384)]"

definition ReceivedFamilies :: "string list" where
  "ReceivedFamilies =
     [FamilyRuntimeHeartbeat, FamilyReasoningRequest, FamilyEnrichmentRequest, FamilyExportResponse,
      FamilyEvidenceOutbound, FamilyEvidenceInboundAck]"

definition PayloadFloor :: int where "PayloadFloor = 4096"
definition MaxAuthorityArtifactBytes :: int where "MaxAuthorityArtifactBytes = 1048576"
definition MaxErrorScalars :: nat where "MaxErrorScalars = 128"

text \<open>One segment of a pattern against one of a topic, and a pattern against a topic.\<close>

definition segment_matches :: "string \<Rightarrow> string \<Rightarrow> bool" where
  "segment_matches want seg \<longleftrightarrow> (if HasPrefix want ''{'' then \<not> (seg = [] \<or> seg = ''#'') else seg = want)"

definition family_matches :: "string list \<Rightarrow> string \<Rightarrow> bool" where
  "family_matches segments family \<longleftrightarrow> list_all2 segment_matches (split_on CHR ''/'' family) segments"

text \<open>The source ranges over a Go map, in no fixed order: the families are given as a list in any order.\<close>

definition PayloadFamily_in :: "string list \<Rightarrow> string \<Rightarrow> string option" where
  "PayloadFamily_in families topic = find (family_matches (split_on CHR ''/'' topic)) families"

definition PayloadFamily :: "string \<Rightarrow> string option" where
  "PayloadFamily topic = PayloadFamily_in (map fst PayloadMaxima) topic"

definition PayloadMaximum :: "string \<Rightarrow> int option" where
  "PayloadMaximum topic = (case PayloadFamily topic of None \<Rightarrow> None | Some f \<Rightarrow> map_of PayloadMaxima f)"

text \<open>\<open>bits.Len\<close> of a number that is not negative.\<close>

function bits_Len :: "int \<Rightarrow> nat" where
  "bits_Len n = (if n \<le> 0 then 0 else Suc (bits_Len (n div 2)))"
  by pat_completeness auto
termination
  by (relation "measure nat") auto

declare bits_Len.simps [simp del]

definition SizeClass :: "int \<Rightarrow> int" where
  "SizeClass len = (if len \<le> 1 then 1 else wrap64 (2 ^ bits_Len (len - 1)))"

text \<open>The number of bytes of the first runes of a text.\<close>

fun rune_prefix :: "nat \<Rightarrow> string \<Rightarrow> nat" where
  "rune_prefix 0 s = 0"
| "rune_prefix (Suc k) s =
     (if s = [] then 0 else let n = max 1 (snd (decodeRune s)) in n + rune_prefix k (drop n s))"

definition BoundedError :: "string \<Rightarrow> string" where
  "BoundedError message = take (rune_prefix MaxErrorScalars message) message"


section \<open>Payload members\<close>

definition definedMembers :: "(string \<times> string list) list" where
  "definedMembers = [
     (FamilyGatewayHealth,
       [''auth'', ''body_limit_bytes'', ''ciphertext'', ''enabled'', ''encrypted'', ''encryption'',
        ''loopback_only'', ''nonce'', ''provider'', ''provider_cidr_count'', ''ready'', ''request_timeout_ms'',
        ''runtime_target_configured'', ''scheme'', ''signature'', ''signed_at_ms'', ''sim_available'',
        ''source_cidrs_configured'', ''status'', ''timestamp_ms'', ''uptime_s'', ''webhook_bridge'']),
     (FamilyRuntimeHeartbeat,
       [''action_event_type'', ''active_triggers'', ''attestation_gap_count'', ''auth'', ''available'',
        ''chain_head_hash'', ''ciphertext'', ''degradation_reasons'', ''device_id'', ''encrypted'',
        ''encryption'', ''evidence'', ''gateway_seen_ms'', ''last_seen_ms'', ''nonce'', ''scheme'',
        ''signature'', ''signed_at_ms'', ''status'']),
     (FamilyReasoningRequest,
       [''action_tier_hint'', ''auth'', ''ciphertext'', ''context'', ''device_id'', ''encrypted'',
        ''encryption'', ''history'', ''nonce'', ''producer_time'', ''prompt'', ''received_at_ms'',
        ''request_id'', ''scheme'', ''sensor_type'', ''signature'', ''signed_at_ms'', ''timeout_ms'',
        ''timestamp'', ''trigger_name'', ''unit'', ''value'']),
     (FamilyReasoningResponse,
       [''action_tier'', ''auth'', ''ciphertext'', ''confidence'', ''device_id'', ''encrypted'',
        ''encryption'', ''error'', ''latency_ms'', ''model'', ''nonce'', ''proposed_action'', ''request_id'',
        ''scheme'', ''signature'', ''signed_at_ms'', ''text'', ''tokens_used'']),
     (FamilyEnrichmentRequest,
       [''auth'', ''ciphertext'', ''device_id'', ''encrypted'', ''encryption'', ''history_window'', ''nonce'',
        ''operator_message'', ''proposal_id'', ''proposed_action'', ''quality'', ''reading_value'',
        ''request_id'', ''safe_default_action'', ''scheme'', ''sensor_id'', ''sensor_type'', ''signature'',
        ''signed_at_ms'', ''skill_name'', ''timeout_ms'', ''timestamp_ms'', ''trigger_name'', ''unit'',
        ''value'']),
     (FamilyEnrichmentResponse,
       [''auth'', ''ciphertext'', ''device_id'', ''encrypted'', ''encryption'', ''error'',
        ''estimated_impact'', ''explanation'', ''latency_ms'', ''model'', ''nonce'', ''proposal_id'',
        ''provider'', ''recommended_operator_context'', ''request_id'', ''scheme'', ''signature'',
        ''signed_at_ms'', ''tokens_used'']),
     (FamilyExportRequest,
       [''action_name'', ''action_taken'', ''action_tier'', ''auth'', ''avg_value'', ''bucket_ms'',
        ''ciphertext'', ''contributed_to'', ''correlation_id'', ''device_id'', ''encrypted'', ''encryption'',
        ''end_ms'', ''executed'', ''export_type'', ''limit'', ''max_value'', ''min_value'', ''nonce'',
        ''page_token'', ''params'', ''producer_time'', ''quality'', ''reasoning_status'', ''received_at_ms'',
        ''record_key'', ''record_kind'', ''request_id'', ''sample_count'', ''scheme'', ''sensor_id'',
        ''sensor_type'', ''signature'', ''signed_at_ms'', ''since_ms'', ''start_ms'', ''tier'', ''tier_used'',
        ''timestamp'', ''unit'', ''until_ms'', ''value'']),
     (FamilyExportResponse,
       [''action_name'', ''action_taken'', ''action_tier'', ''auth'', ''avg_value'', ''bucket_ms'',
        ''ciphertext'', ''complete'', ''contributed_to'', ''correlation_id'', ''device_id'', ''encrypted'',
        ''encryption'', ''end_ms'', ''error'', ''executed'', ''export_type'', ''items'', ''max_value'',
        ''min_value'', ''next_page_token'', ''nonce'', ''producer_time'', ''quality'', ''reasoning_status'',
        ''received_at_ms'', ''record_key'', ''record_kind'', ''request_id'', ''sample_count'', ''scheme'',
        ''sensor_id'', ''sensor_type'', ''signature'', ''signed_at_ms'', ''start_ms'', ''tier'', ''tier_used'',
        ''timestamp'', ''unit'', ''value'']),
     (FamilyEvidenceOutbound,
       [''artifact_b64'', ''artifact_type'', ''auth'', ''ciphertext'', ''device_id'', ''encrypted'',
        ''encryption'', ''nonce'', ''scheme'', ''signature'', ''signed_at_ms'']),
     (FamilyEvidenceOutboundAck,
       [''acknowledged_at_ms'', ''artifact_digest'', ''artifact_type'', ''auth'', ''ciphertext'',
        ''device_id'', ''encrypted'', ''encryption'', ''nonce'', ''outcome'', ''reason'', ''scheme'',
        ''signature'', ''signed_at_ms'']),
     (FamilyEvidenceInbound,
       [''artifact'', ''artifact_type'', ''auth'', ''ciphertext'', ''custody_at_ms'', ''device_id'',
        ''encrypted'', ''encryption'', ''envelope_digest'', ''key_id'', ''local_seq'', ''mac'', ''nonce'',
        ''scheme'', ''signature'', ''signed_at_ms'', ''v'']),
     (FamilyEvidenceInboundAck,
       [''acknowledged_at_ms'', ''artifact_digest'', ''artifact_type'', ''auth'', ''ciphertext'',
        ''device_id'', ''encrypted'', ''encryption'', ''nonce'', ''outcome'', ''reason'', ''scheme'',
        ''signature'', ''signed_at_ms''])]"

definition DefinedMembers :: "string \<Rightarrow> string list" where
  "DefinedMembers family = (case map_of definedMembers family of None \<Rightarrow> [] | Some ms \<Rightarrow> ms)"

text \<open>The errors of the canonical JSON package, as \<open>errors.Is\<close> tells them apart: an error may be none of
  those the rule names, or more than one.\<close>

datatype strictError =
    ErrInvalidUnicode | ErrMalformedJSON | ErrNestingTooDeep | ErrTrailingData | ErrDuplicateMember
  | ErrCaseVariantMember | ErrNotAnObject

definition memberRuleReasons :: "(strictError \<times> string) list" where
  "memberRuleReasons =
     [(ErrInvalidUnicode, ''invalid_unicode''), (ErrMalformedJSON, ''malformed_json''),
      (ErrNestingTooDeep, ''nesting_too_deep''), (ErrTrailingData, ''trailing_data''),
      (ErrDuplicateMember, ''duplicate_member''), (ErrCaseVariantMember, ''case_variant_member''),
      (ErrNotAnObject, ''not_an_object'')]"

datatype memberError = MemberRuleError string | NotAFamily

text \<open>\<open>DecodeStrict\<close> is code of another module: a parameter that takes the members and the payload and gives the
  errors its result is, or \<open>None\<close> when it admits the payload.\<close>

definition admit ::
  "(string list \<Rightarrow> string \<Rightarrow> strictError set option) \<Rightarrow> string list \<Rightarrow> string \<Rightarrow> memberError option" where
  "admit decodeStrict members payload =
     (case decodeStrict members payload of
        None \<Rightarrow> None
      | Some err \<Rightarrow>
          (case find (\<lambda>(e, r). e \<in> err) memberRuleReasons of
             Some (e, r) \<Rightarrow> Some (MemberRuleError r)
           | None \<Rightarrow> Some (MemberRuleError ''malformed_json'')))"

definition AdmitPayload ::
  "(string list \<Rightarrow> string \<Rightarrow> strictError set option) \<Rightarrow> string \<Rightarrow> string \<Rightarrow> memberError option" where
  "AdmitPayload decodeStrict family payload =
     (case map_of definedMembers family of
        None \<Rightarrow> Some NotAFamily
      | Some members \<Rightarrow> admit decodeStrict members payload)"

section \<open>Messages\<close>

text \<open>The messages with the members the code reads or sets here. Measured values are not read and left out.\<close>

record HeartbeatAuth =
  Scheme :: string
  SignedAtMS :: int
  Signature :: string

record ReasoningRequest =
  req_RequestID :: string
  req_DeviceID :: string
  req_SensorType :: string
  req_TriggerName :: string
  req_Prompt :: string
  req_ActionTierHint :: string
  req_TimeoutMS :: int
  req_Auth :: "HeartbeatAuth option"

record ReasoningResponse =
  resp_RequestID :: string
  resp_DeviceID :: string
  resp_Text :: string
  resp_Model :: string
  resp_TokensUsed :: int
  resp_LatencyMS :: int
  resp_ActionTier :: string
  resp_ProposedAction :: "string option"
  resp_Error :: "string option"

definition NewErrorResponse :: "string \<Rightarrow> string \<Rightarrow> string \<Rightarrow> string \<Rightarrow> ReasoningResponse" where
  "NewErrorResponse requestID deviceID actionTier message =
     \<lparr>resp_RequestID = requestID, resp_DeviceID = deviceID, resp_Text = [], resp_Model = [], resp_TokensUsed = 0,
      resp_LatencyMS = 0, resp_ActionTier = actionTier, resp_ProposedAction = None,
      resp_Error = Some (BoundedError message)\<rparr>"

definition IsValidActionTier :: "string \<Rightarrow> bool" where
  "IsValidActionTier tier \<longleftrightarrow> tier \<in> set [''A'', ''B'', ''C'', ''D'']"

definition ValidateRequest :: "ReasoningRequest \<Rightarrow> contractError option" where
  "ValidateRequest req =
     (case validateMQTTRequestID (req_RequestID req) of Some e \<Rightarrow> Some e
      | None \<Rightarrow>
     (case validateMQTTDeviceID (req_DeviceID req) of Some e \<Rightarrow> Some e
      | None \<Rightarrow>
          if req_Prompt req = [] then Some (EmptyField ''prompt'')
          else if \<not> IsValidActionTier (req_ActionTierHint req) then Some BadTierHint
          else None))"

definition ValidateResponseForRequest :: "ReasoningRequest \<Rightarrow> ReasoningResponse \<Rightarrow> contractError option" where
  "ValidateResponseForRequest req resp =
     (if req_RequestID req \<noteq> resp_RequestID resp then Some RequestMismatch
      else if req_DeviceID req \<noteq> resp_DeviceID resp then Some DeviceMismatch
      else if \<not> IsValidActionTier (resp_ActionTier resp) then Some BadTier
      else None)"

record TierCEnrichmentRequest =
  tc_RequestID :: string
  tc_ProposalID :: string
  tc_DeviceID :: string
  tc_SkillName :: string
  tc_TriggerName :: string
  tc_SensorID :: string
  tc_SensorType :: string
  tc_Unit :: string
  tc_ProposedAction :: string
  tc_SafeDefaultAction :: string
  tc_OperatorMessage :: string
  tc_TimeoutMS :: int

record TierCEnrichmentResponse =
  tr_RequestID :: string
  tr_ProposalID :: string
  tr_DeviceID :: string
  tr_Explanation :: string
  tr_EstimatedImpact :: string
  tr_RecommendedOperatorContext :: string
  tr_Provider :: string
  tr_Model :: string
  tr_TokensUsed :: int
  tr_LatencyMS :: int
  tr_Error :: "string option"

definition NewTierCEnrichmentErrorResponse ::
  "string \<Rightarrow> string \<Rightarrow> string \<Rightarrow> string \<Rightarrow> TierCEnrichmentResponse" where
  "NewTierCEnrichmentErrorResponse requestID proposalID deviceID message =
     \<lparr>tr_RequestID = requestID, tr_ProposalID = proposalID, tr_DeviceID = deviceID, tr_Explanation = [],
      tr_EstimatedImpact = [], tr_RecommendedOperatorContext = [], tr_Provider = [], tr_Model = [], tr_TokensUsed = 0,
      tr_LatencyMS = 0,
      tr_Error = Some (BoundedError (if message = [] then ''enrichment unavailable'' else message))\<rparr>"

definition ValidateTierCEnrichmentRequest :: "TierCEnrichmentRequest \<Rightarrow> contractError option" where
  "ValidateTierCEnrichmentRequest req =
     (if \<not> ValidRoutingID (tc_RequestID req) then Some BadRequestID
      else if \<not> ValidRoutingID (tc_ProposalID req) then Some BadProposalID
      else case validateMQTTDeviceID (tc_DeviceID req) of Some e \<Rightarrow> Some e
      | None \<Rightarrow>
          if tc_SkillName req = [] then Some (EmptyField ''skill_name'')
          else if tc_TriggerName req = [] then Some (EmptyField ''trigger_name'')
          else if tc_SensorID req = [] then Some (EmptyField ''sensor_id'')
          else if tc_SensorType req = [] then Some (EmptyField ''sensor_type'')
          else if tc_ProposedAction req = [] then Some (EmptyField ''proposed_action'')
          else if tc_SafeDefaultAction req = [] then Some (EmptyField ''safe_default_action'')
          else if tc_OperatorMessage req = [] then Some (EmptyField ''operator_message'')
          else if tc_TimeoutMS req \<le> 0 then Some TimeoutNotPositive
          else None)"

definition ValidateTierCEnrichmentResponseForRequest ::
  "TierCEnrichmentRequest \<Rightarrow> TierCEnrichmentResponse \<Rightarrow> contractError option" where
  "ValidateTierCEnrichmentResponseForRequest req resp =
     (if tc_RequestID req \<noteq> tr_RequestID resp then Some RequestMismatch
      else if tc_ProposalID req \<noteq> tr_ProposalID resp then Some ProposalMismatch
      else if tc_DeviceID req \<noteq> tr_DeviceID resp then Some DeviceMismatch
      else case tr_Error resp of
        Some e \<Rightarrow> if e = [] then Some (EmptyField ''error'') else None
      | None \<Rightarrow> if tr_Explanation resp = [] then Some (EmptyField ''explanation'') else None)"

section \<open>Topics name their devices\<close>

fun join_on :: "char \<Rightarrow> string list \<Rightarrow> string" where
  "join_on c [] = []"
| "join_on c [p] = p"
| "join_on c (p # q # ps) = p @ c # join_on c (q # ps)"

lemma split_on_ne [simp]: "split_on c s \<noteq> []"
  by (cases s) (auto split: list.splits)

lemma join_split: "join_on c (split_on c s) = s"
proof (induction s)
  case (Cons x xs)
  then show ?case
    by (cases "split_on c xs"; cases "tl (split_on c xs)") (auto simp del: split_on_ne simp add: split_on_ne [simplified])
qed simp

lemma split_on_plain [simp]: "c \<notin> set s \<Longrightarrow> split_on c s = [s]"
  by (induction s) auto

lemma split_on_append [simp]: "c \<notin> set p \<Longrightarrow> split_on c (p @ c # s) = p # split_on c s"
  by (induction p) auto

lemma device_id_no_slash: "validateMQTTDeviceID d = None \<Longrightarrow> CHR ''/'' \<notin> set d"
  by (auto simp: validateMQTTDeviceID_def list_ex_iff split: if_splits)

lemma split_topic:
  "split_on c t = ps \<Longrightarrow> t = join_on c ps"
  using join_split by metis

lemma length4: "length ps = 4 \<Longrightarrow> \<exists>a b c d. ps = [a, b, c, d]"
  by (auto simp: numeral_eq_Suc length_Suc_conv)

lemma length5: "length ps = 5 \<Longrightarrow> \<exists>a b c d e. ps = [a, b, c, d, e]"
  by (auto simp: numeral_eq_Suc length_Suc_conv)

lemma topic4:
  assumes "CHR ''/'' \<notin> set a" "CHR ''/'' \<notin> set b"
  shows "(let parts = split_on CHR ''/'' t
      in if length parts \<noteq> 4 \<or> parts ! 0 \<noteq> ''ori'' \<or> parts ! 2 \<noteq> a \<or> parts ! 3 \<noteq> b
         then Inl InvalidTopic else checked_device (parts ! 1)) = Inr d
    \<longleftrightarrow> device_topic d (CHR ''/'' # a @ CHR ''/'' # b) = Inr t" (is "?parse \<longleftrightarrow> ?print")
proof
  assume p: ?parse
  then obtain x y where ps: "split_on CHR ''/'' t = [''ori'', x, a, b]" "checked_device x = Inr d"
    using length4 [of "split_on CHR ''/'' t"] by (auto simp: Let_def split: if_splits)
  then show ?print
    using split_topic [OF ps(1)] by (auto simp: device_topic_def checked_device_def split: option.splits)
next
  assume p: ?print
  then have v: "validateMQTTDeviceID d = None" and t: "t = ''ori'' @ CHR ''/'' # d @ CHR ''/'' # a @ CHR ''/'' # b"
    by (auto simp: device_topic_def split: option.splits)
  have "split_on CHR ''/'' t = [''ori'', d, a, b]"
    unfolding t using assms device_id_no_slash [OF v] by (subst split_on_append) auto
  then show ?parse using v by (simp add: checked_device_def)
qed

lemma topic5:
  assumes "CHR ''/'' \<notin> set a" "CHR ''/'' \<notin> set b" "CHR ''/'' \<notin> set e"
  shows "(let parts = split_on CHR ''/'' t
      in if length parts \<noteq> 5 \<or> parts ! 0 \<noteq> ''ori'' \<or> parts ! 2 \<noteq> a \<or> parts ! 3 \<noteq> b \<or> parts ! 4 \<noteq> e
         then Inl InvalidTopic else checked_device (parts ! 1)) = Inr d
    \<longleftrightarrow> device_topic d (CHR ''/'' # a @ CHR ''/'' # b @ CHR ''/'' # e) = Inr t" (is "?parse \<longleftrightarrow> ?print")
proof
  assume p: ?parse
  then obtain x y where ps: "split_on CHR ''/'' t = [''ori'', x, a, b, e]" "checked_device x = Inr d"
    using length5 [of "split_on CHR ''/'' t"] by (auto simp: Let_def split: if_splits)
  then show ?print
    using split_topic [OF ps(1)] by (auto simp: device_topic_def checked_device_def split: option.splits)
next
  assume p: ?print
  then have v: "validateMQTTDeviceID d = None"
    and t: "t = ''ori'' @ CHR ''/'' # d @ CHR ''/'' # a @ CHR ''/'' # b @ CHR ''/'' # e"
    by (auto simp: device_topic_def split: option.splits)
  have "split_on CHR ''/'' t = [''ori'', d, a, b, e]"
    unfolding t using assms device_id_no_slash [OF v] by (subst split_on_append) auto
  then show ?parse using v by (simp add: checked_device_def)
qed

text \<open>A topic parser and the builder of the same topic are exact inverses: a topic names a device exactly
  when it is the topic built for that device. So a message is attributed to one device, and every topic the gateway
  builds is attributed to the device it was built for.\<close>

theorem topics_name_devices:
  "(DeviceIDFromEvidenceOutboundTopic t = Inr d \<longleftrightarrow> EvidenceOutboundTopic d = Inr t)
   \<and> (DeviceIDFromEvidenceInboundAckTopic t = Inr d \<longleftrightarrow> EvidenceInboundAckTopic d = Inr t)
   \<and> (DeviceIDFromRuntimeNodeHeartbeatTopic t = Inr d \<longleftrightarrow> RuntimeNodeHeartbeatTopic d = Inr t)
   \<and> (DeviceIDFromTierCEnrichmentRequestTopic t = Inr d \<longleftrightarrow> TierCEnrichmentRequestTopic d = Inr t)"
  using topic4 [of "''evidence''" "''outbound''" t d] topic5 [of "''evidence''" "''inbound''" "''ack''" t d]
    topic4 [of "''runtime''" "''heartbeat''" t d] topic5 [of "''tier_c''" "''enrichment''" "''request''" t d]
  by (simp add: DeviceIDFromEvidenceOutboundTopic_def DeviceIDFromEvidenceInboundAckTopic_def
      deviceIDFromEvidenceTopic_def DeviceIDFromRuntimeNodeHeartbeatTopic_def EvidenceOutboundTopic_def
      DeviceIDFromTierCEnrichmentRequestTopic_def EvidenceInboundAckTopic_def RuntimeNodeHeartbeatTopic_def
      TierCEnrichmentRequestTopic_def)

section \<open>Every topic has one family\<close>

text \<open>Two patterns with different literal segments at one position, or of different lengths, match no topic both.\<close>

definition patterns_differ :: "string list \<Rightarrow> string list \<Rightarrow> bool" where
  "patterns_differ p q \<longleftrightarrow> length p \<noteq> length q
     \<or> list_ex (\<lambda>(a, b). \<not> HasPrefix a ''{'' \<and> \<not> HasPrefix b ''{'' \<and> a \<noteq> b) (zip p q)"

lemma patterns_differ_sound:
  assumes "patterns_differ p q" "list_all2 segment_matches p s"
  shows "\<not> list_all2 segment_matches q s"
proof
  assume q: "list_all2 segment_matches q s"
  have "length p = length q" using list_all2_lengthD [OF q] list_all2_lengthD [OF assms(2)] by simp
  with assms(1) obtain i where "i < length p" "\<not> HasPrefix (p ! i) ''{''" "\<not> HasPrefix (q ! i) ''{''" "p ! i \<noteq> q ! i"
    by (auto simp: patterns_differ_def list_ex_iff set_zip)
  then show False
    using list_all2_nthD [OF assms(2), of i] list_all2_nthD [OF q, of i] \<open>length p = length q\<close>
    by (simp add: segment_matches_def)
qed

lemma families_differ:
  "list_all (\<lambda>f. list_all (\<lambda>g. f = g \<or> patterns_differ (split_on CHR ''/'' f) (split_on CHR ''/'' g))
     (map fst PayloadMaxima)) (map fst PayloadMaxima)"
  by code_simp

lemma family_unique:
  assumes "family_matches s f" "family_matches s g" "f \<in> set (map fst PayloadMaxima)" "g \<in> set (map fst PayloadMaxima)"
  shows "f = g"
  using families_differ patterns_differ_sound assms unfolding family_matches_def list_all_iff by blast

lemma PayloadFamily_in_eq:
  assumes "set fs = set (map fst PayloadMaxima)"
  shows "PayloadFamily_in fs t = Some f \<longleftrightarrow> f \<in> set fs \<and> family_matches (split_on CHR ''/'' t) f"
proof
  assume "PayloadFamily_in fs t = Some f"
  then show "f \<in> set fs \<and> family_matches (split_on CHR ''/'' t) f"
    by (auto simp: PayloadFamily_in_def find_Some_iff)
next
  assume f: "f \<in> set fs \<and> family_matches (split_on CHR ''/'' t) f"
  then obtain g where "PayloadFamily_in fs t = Some g"
    by (cases "PayloadFamily_in fs t") (auto simp: PayloadFamily_in_def find_None_iff)
  moreover from this have "g \<in> set fs" "family_matches (split_on CHR ''/'' t) g"
    by (auto simp: PayloadFamily_in_def find_Some_iff)
  ultimately show "PayloadFamily_in fs t = Some f"
    using family_unique [of "split_on CHR ''/'' t" f g] f assms by simp
qed

lemma device_segment: "validateMQTTDeviceID d = None \<Longrightarrow> d \<noteq> [] \<and> d \<noteq> ''#''"
  by (auto simp: validateMQTTDeviceID_def split: if_splits)

lemma request_segment: "ValidRoutingID r \<Longrightarrow> r \<noteq> [] \<and> r \<noteq> ''#'' \<and> CHR ''/'' \<notin> set r"
  by (auto simp: ValidRoutingID_def list_all_iff routing_char_def is_digit_def byte_def Let_def)

lemma matches_device_topic:
  assumes "device_topic d suffix = Inr t"
    and "split_on CHR ''/'' f = ''ori'' # ''{device_id}'' # rest" "list_all2 segment_matches rest (tl (split_on CHR ''/'' suffix))"
    and "HasPrefix suffix ''/''"
  shows "family_matches (split_on CHR ''/'' t) f"
proof -
  from assms(4) obtain s where s: "suffix = CHR ''/'' # s" using HasPrefix_E by force
  have v: "validateMQTTDeviceID d = None" and t: "t = ''ori'' @ CHR ''/'' # d @ CHR ''/'' # s"
    using assms(1) s by (auto simp: device_topic_def split: option.splits)
  have "split_on CHR ''/'' t = ''ori'' # d # split_on CHR ''/'' s"
    unfolding t using device_id_no_slash [OF v] by (subst split_on_append) auto
  then show ?thesis
    using assms(2,3) device_segment [OF v] s by (simp add: family_matches_def segment_matches_def HasPrefix_def)
qed

lemma family_splits:
  "split_on CHR ''/'' FamilyRuntimeHeartbeat = [''ori'', ''{device_id}'', ''runtime'', ''heartbeat'']"
  "split_on CHR ''/'' FamilyReasoningRequest = [''ori'', ''{device_id}'', ''reasoning'', ''request'']"
  "split_on CHR ''/'' FamilyReasoningResponse = [''ori'', ''{device_id}'', ''reasoning'', ''response'']"
  "split_on CHR ''/'' FamilyEnrichmentRequest = [''ori'', ''{device_id}'', ''tier_c'', ''enrichment'', ''request'']"
  "split_on CHR ''/'' FamilyEnrichmentResponse = [''ori'', ''{device_id}'', ''tier_c'', ''enrichment'', ''response'']"
  "split_on CHR ''/'' FamilyExportRequest = [''ori'', ''{device_id}'', ''export'', ''request'']"
  "split_on CHR ''/'' FamilyExportResponse = [''ori'', ''{device_id}'', ''export'', ''response'', ''{request_id}'']"
  "split_on CHR ''/'' FamilyEvidenceOutbound = [''ori'', ''{device_id}'', ''evidence'', ''outbound'']"
  "split_on CHR ''/'' FamilyEvidenceOutboundAck = [''ori'', ''{device_id}'', ''evidence'', ''outbound'', ''ack'']"
  "split_on CHR ''/'' FamilyEvidenceInbound = [''ori'', ''{device_id}'', ''evidence'', ''inbound'']"
  "split_on CHR ''/'' FamilyEvidenceInboundAck = [''ori'', ''{device_id}'', ''evidence'', ''inbound'', ''ack'']"
  by code_simp+

text \<open>The families with the topics that belong to them: a topic and its family, for a device and a request.\<close>

definition built_topics :: "string \<Rightarrow> string \<Rightarrow> ((contractError + string) \<times> string) list" where
  "built_topics d r =
     [(RequestTopic d, FamilyReasoningRequest), (ResponseTopic d, FamilyReasoningResponse),
      (RuntimeNodeHeartbeatTopic d, FamilyRuntimeHeartbeat),
      (EvidenceOutboundTopic d, FamilyEvidenceOutbound), (EvidenceOutboundAckTopic d, FamilyEvidenceOutboundAck),
      (EvidenceInboundTopic d, FamilyEvidenceInbound), (EvidenceInboundAckTopic d, FamilyEvidenceInboundAck),
      (TierCEnrichmentRequestTopic d, FamilyEnrichmentRequest), (TierCEnrichmentResponseTopic d, FamilyEnrichmentResponse),
      (ExportRequestTopic d, FamilyExportRequest), (ExportResponseTopic d r, FamilyExportResponse),
      (ExportResponseTopicFilter d, FamilyExportResponse)]"

lemma ExportResponseTopic_device_topic:
  "ExportResponseTopic d r = Inr t \<Longrightarrow> ValidRoutingID r \<and> device_topic d (''/export/response/'' @ r) = Inr t"
  by (auto simp: ExportResponseTopic_def device_topic_def validateMQTTRequestID_def split: option.splits if_splits)

lemma built_topic_matches:
  assumes "(Inr t, f) \<in> set (built_topics d r)"
  shows "family_matches (split_on CHR ''/'' t) f"
proof -
  note topics = RequestTopic_def ResponseTopic_def RuntimeNodeHeartbeatTopic_def EvidenceOutboundTopic_def
    EvidenceOutboundAckTopic_def EvidenceInboundTopic_def EvidenceInboundAckTopic_def TierCEnrichmentRequestTopic_def
    TierCEnrichmentResponseTopic_def ExportRequestTopic_def ExportResponseTopicFilter_def
  have plain: "device_topic d s = Inr t \<Longrightarrow> HasPrefix s ''/'' \<Longrightarrow>
      list_all2 segment_matches (drop 2 (split_on CHR ''/'' f)) (tl (split_on CHR ''/'' s)) \<Longrightarrow>
      take 2 (split_on CHR ''/'' f) = [''ori'', ''{device_id}''] \<Longrightarrow> ?thesis" for s
    using matches_device_topic [of d s t f "drop 2 (split_on CHR ''/'' f)"]
    by (metis append_Cons append_Nil append_take_drop_id)
  from assms consider
    (export) "ExportResponseTopic d r = Inr t" "f = FamilyExportResponse"
    | (other) s where "device_topic d s = Inr t"
        "(s, f) \<in> set [(''/reasoning/request'', FamilyReasoningRequest), (''/reasoning/response'', FamilyReasoningResponse),
          (''/runtime/heartbeat'', FamilyRuntimeHeartbeat), (''/evidence/outbound'', FamilyEvidenceOutbound),
          (''/evidence/outbound/ack'', FamilyEvidenceOutboundAck), (''/evidence/inbound'', FamilyEvidenceInbound),
          (''/evidence/inbound/ack'', FamilyEvidenceInboundAck), (''/tier_c/enrichment/request'', FamilyEnrichmentRequest),
          (''/tier_c/enrichment/response'', FamilyEnrichmentResponse), (''/export/request'', FamilyExportRequest),
          (''/export/response/+'', FamilyExportResponse)]"
    unfolding built_topics_def topics by (force simp: eq_commute [of "Inr t"])
  then show ?thesis
  proof cases
    case export
    then have r: "ValidRoutingID r" "device_topic d (''/export/response/'' @ r) = Inr t"
      using ExportResponseTopic_device_topic by auto
    show ?thesis
      by (rule plain [OF r(2)])
        (use request_segment [OF r(1)] in \<open>simp_all add: export family_splits segment_matches_def HasPrefix_def\<close>)
  next
    case other
    then show ?thesis
      by (intro plain [OF other(1)]) (auto simp: family_splits segment_matches_def HasPrefix_def)
  qed
qed

lemma built_family_listed: "(Inr t, f) \<in> set (built_topics d r) \<Longrightarrow> f \<in> set (map fst PayloadMaxima)"
  by (auto simp: built_topics_def PayloadMaxima_def)

text \<open>Every topic the gateway builds has the family, and so the size limit, the contract gives it, in whatever
  order the table of families is walked; no topic has two families.\<close>

theorem payload_family_of_topic:
  assumes "set fs = set (map fst PayloadMaxima)" and "(Inr t, f) \<in> set (built_topics d r)"
  shows "PayloadFamily_in fs t = Some f \<and> PayloadMaximum t = map_of PayloadMaxima f"
  using PayloadFamily_in_eq [OF assms(1), of t f] PayloadFamily_in_eq [OF refl, of t f] built_topic_matches [OF assms(2)]
    built_family_listed [OF assms(2)] assms(1)
  by (simp add: PayloadMaximum_def PayloadFamily_def)

theorem payload_family_of_topic_witness:
  "PayloadFamily_in (rev (map fst PayloadMaxima)) ''ori/pump-1/evidence/outbound'' = Some FamilyEvidenceOutbound
   \<and> PayloadMaximum ''ori/pump-1/evidence/outbound'' = Some 1572864"
proof -
  have "EvidenceOutboundTopic ''pump-1'' = Inr ''ori/pump-1/evidence/outbound''" by code_simp
  then have b: "(Inr ''ori/pump-1/evidence/outbound'', FamilyEvidenceOutbound) \<in> set (built_topics ''pump-1'' [])"
    by (simp add: built_topics_def)
  have "map_of PayloadMaxima FamilyEvidenceOutbound = Some 1572864" by code_simp
  with payload_family_of_topic [OF _ b, of "rev (map fst PayloadMaxima)"] show ?thesis by simp
qed
section \<open>Sizes\<close>

lemma bits_Len_bounds: "0 < n \<Longrightarrow> 2 ^ bits_Len n \<le> 2 * n \<and> n < 2 ^ bits_Len n"
proof (induction n rule: bits_Len.induct)
  case (1 n)
  show ?case
  proof (cases "n = 1")
    case False
    then have "0 < n div 2" using "1.prems" by simp
    with 1 have ih: "2 ^ bits_Len (n div 2) \<le> 2 * (n div 2)" "n div 2 < 2 ^ bits_Len (n div 2)" by auto
    have "bits_Len n = Suc (bits_Len (n div 2))" using "1.prems" by (simp add: bits_Len.simps [of n])
    moreover have "2 * (n div 2) \<le> n" "n < 2 * (n div 2) + 2" by presburger+
    moreover have "p \<le> 2 * m \<Longrightarrow> m < p \<Longrightarrow> 2 * m \<le> n \<Longrightarrow> n < 2 * m + 2 \<Longrightarrow> 2 * p \<le> 2 * n \<and> n < 2 * p" for p m :: int
      by linarith
    ultimately show ?thesis using ih by simp
  qed (simp add: bits_Len.simps)
qed

text \<open>The size class of a payload is the least power of two that is not below its length.\<close>

theorem size_class_least:
  assumes "1 \<le> n" "n \<le> 2 ^ 62"
  shows "n \<le> SizeClass n \<and> (\<exists>k. SizeClass n = 2 ^ k) \<and> (\<forall>k. n \<le> 2 ^ k \<longrightarrow> SizeClass n \<le> 2 ^ k)"
proof (cases "n = 1")
  case True
  then show ?thesis using power_0 [of "2 :: int"] by (auto simp: SizeClass_def simp del: power_0)
next
  case False
  define b where "b = bits_Len (n - 1)"
  have b: "2 ^ b \<le> 2 * (n - 1)" "n - 1 < 2 ^ b" using bits_Len_bounds [of "n - 1"] False assms b_def by auto
  have "SizeClass n = 2 ^ b"
    using False assms b(1) by (simp add: SizeClass_def b_def [symmetric] wrap64_id minInt64_def maxInt64_def order_trans [of _ 0])
  moreover have "2 ^ b \<le> (2 :: int) ^ k" if "n \<le> 2 ^ k" for k
  proof (rule ccontr)
    assume "\<not> 2 ^ b \<le> (2 :: int) ^ k"
    then have "k < b" by (metis linorder_not_le one_le_numeral power_increasing)
    then have "2 * (2 :: int) ^ k \<le> 2 ^ b" using power_increasing [of "Suc k" b "2 :: int"] by simp
    then have "2 * (2 :: int) ^ k \<le> 2 * (n - 1)" using b(1) by (rule order_trans)
    then show False using that by simp
  qed
  ultimately show ?thesis using b by auto
qed

theorem size_class_least_witness: "1000 \<le> SizeClass 1000 \<and> SizeClass 1000 \<le> 2 ^ 10"
proof -
  have "1000 \<le> (2 :: int) ^ 10" by simp
  with size_class_least [of 1000] show ?thesis by fastforce
qed

text \<open>A rune decodes the same from every prefix that has it.\<close>

lemma decodeRune_take:
  assumes "s \<noteq> []" "snd (decodeRune s) \<le> m"
  shows "decodeRune (take m s) = decodeRune s"
proof -
  obtain a s1 where s: "s = a # s1" using assms by (cases s) auto
  have m: "1 \<le> m" using decodeRune_size [of s] assms by simp
  then obtain m1 where m1: "m = Suc m1" by (cases m) auto
  show ?thesis
  proof (cases "byte a < 128 \<or> second_range (byte a) = None")
    case True
    then show ?thesis by (auto simp: s m1 decodeRune_def)
  next
    case False
    then obtain lo hi more where sr: "second_range (byte a) = Some (lo, hi, more)" by auto
    show ?thesis
      using assms(2) False sr
      by (auto simp: s m1 decodeRune_def take_Cons split: list.splits if_splits nat.splits)
  qed
qed

lemma rune_prefix_step:
  assumes "s \<noteq> []"
  obtains r n where "decodeRune s = (r, n)" "1 \<le> n" "n \<le> length s"
    "\<And>k. rune_prefix (Suc k) s = n + rune_prefix k (drop n s)"
    "\<And>m. decodeRune (take (n + m) s) = (r, n) \<and> take (n + m) s \<noteq> [] \<and> drop n (take (n + m) s) = take m (drop n s)"
proof -
  obtain r n where d: "decodeRune s = (r, n)" by fastforce
  have n: "1 \<le> n" "n \<le> length s" using decodeRune_size [OF assms] d by auto
  then have "max 1 n = n" by simp
  then show ?thesis
    using that [OF d n] assms d n decodeRune_take [OF assms] by (simp add: Let_def take_drop add.commute)
qed

lemma runes_step: "decodeRune s = (r, n) \<Longrightarrow> s \<noteq> [] \<Longrightarrow> 1 \<le> n \<Longrightarrow> runes s = r # runes (drop n s)"
  by (subst runes.simps) (auto simp: max_def split: list.splits)

lemma valid_step:
  "decodeRune s = (r, n) \<Longrightarrow> s \<noteq> [] \<Longrightarrow> utf8_Valid s \<longleftrightarrow> \<not> (r = RuneError \<and> n = 1) \<and> utf8_Valid (drop n s)"
  by (subst utf8_Valid.simps) auto

lemma rune_prefix_runes: "runes (take (rune_prefix k s) s) = take k (runes s)"
proof (induction k arbitrary: s)
  case (Suc k)
  show ?case
  proof (cases "s = []")
    case False
    obtain r n where st: "decodeRune s = (r, n)" "1 \<le> n" "n \<le> length s"
      "\<And>k. rune_prefix (Suc k) s = n + rune_prefix k (drop n s)"
      "\<And>m. decodeRune (take (n + m) s) = (r, n) \<and> take (n + m) s \<noteq> [] \<and> drop n (take (n + m) s) = take m (drop n s)"
      using rune_prefix_step [OF False] by blast
    let ?m = "rune_prefix k (drop n s)"
    have "runes (take (n + ?m) s) = r # runes (drop n (take (n + ?m) s))" using runes_step st(2,5) by blast
    also have "\<dots> = r # take k (runes (drop n s))" using st(5) [of ?m] Suc.IH by simp
    also have "\<dots> = take (Suc k) (runes s)" using runes_step [OF st(1) False st(2)] by simp
    finally show ?thesis unfolding st(4) .
  qed (simp add: runes.simps)
qed (simp add: runes.simps)

lemma rune_prefix_valid: "utf8_Valid s \<Longrightarrow> utf8_Valid (take (rune_prefix k s) s)"
proof (induction k arbitrary: s)
  case (Suc k)
  show ?case
  proof (cases "s = []")
    case False
    obtain r n where st: "decodeRune s = (r, n)" "1 \<le> n" "n \<le> length s"
      "\<And>k. rune_prefix (Suc k) s = n + rune_prefix k (drop n s)"
      "\<And>m. decodeRune (take (n + m) s) = (r, n) \<and> take (n + m) s \<noteq> [] \<and> drop n (take (n + m) s) = take m (drop n s)"
      using rune_prefix_step [OF False] by blast
    let ?m = "rune_prefix k (drop n s)"
    have v: "\<not> (r = RuneError \<and> n = 1)" "utf8_Valid (drop n s)" using valid_step [OF st(1) False] Suc.prems by auto
    have "utf8_Valid (take (n + ?m) s)"
      using valid_step [of "take (n + ?m) s" r n] st(5) [of ?m] v Suc.IH by simp
    then show ?thesis unfolding st(4) .
  qed (simp add: utf8_Valid.simps)
qed (simp add: utf8_Valid.simps)

text \<open>An error response carries the first 128 scalar values of its message and nothing else: the text is cut
  between characters, never inside one, and valid UTF-8 stays valid.\<close>

theorem bounded_error_scalars:
  "runes (BoundedError message) = take MaxErrorScalars (runes message)
   \<and> take (length (BoundedError message)) message = BoundedError message
   \<and> (utf8_Valid message \<longrightarrow> utf8_Valid (BoundedError message))"
  using rune_prefix_runes rune_prefix_valid by (auto simp: BoundedError_def min_def)

theorem bounded_error_scalars_witness:
  "utf8_Valid ''timeout'' \<and> utf8_Valid (BoundedError ''timeout'')"
proof -
  have "utf8_Valid ''timeout''" by code_simp
  then show ?thesis using bounded_error_scalars [of "''timeout''"] by blast
qed

end
