(* ===== verification/Routing.thy ===== *)
theory Routing
  imports Base64 Contracts
begin

text \<open>
  Decoding JSON objects into Go structs, and the routing projection of an evidence artifact,
  \<open>internal/evidence/courier/routing.go\<close>: the few members the courier reads of the bytes it carries.
\<close>

section \<open>Struct decoding\<close>

text \<open>What \<open>json.Unmarshal\<close> stores for a value, given the value the field had: \<open>null\<close> leaves it as it is, and a value
  of another kind is an error.\<close>

definition decode_int64 :: "json \<Rightarrow> int \<Rightarrow> int option" where
  "decode_int64 v old = (case v of JNull \<Rightarrow> Some old | JNum r \<Rightarrow> parseInt64 r | _ \<Rightarrow> None)"

definition decode_string :: "json \<Rightarrow> string \<Rightarrow> string option" where
  "decode_string v old = (case v of JNull \<Rightarrow> Some old | JStr r \<Rightarrow> Some (unquote r) | _ \<Rightarrow> None)"

definition decode_bool :: "json \<Rightarrow> bool \<Rightarrow> bool option" where
  "decode_bool v old = (case v of JNull \<Rightarrow> Some old | JBool b \<Rightarrow> Some b | _ \<Rightarrow> None)"

text \<open>A pointer: \<open>null\<close> makes it nil.\<close>

definition decode_ptr64 :: "json \<Rightarrow> int option option" where
  "decode_ptr64 v = (case v of JNull \<Rightarrow> Some None | _ \<Rightarrow> map_option Some (decode_int64 v 0))"

text \<open>A byte slice: Base64 text, or an array of numbers below 256 in which \<open>null\<close> keeps the byte at its place.\<close>

fun decode_byte_list :: "json list \<Rightarrow> string \<Rightarrow> string option" where
  "decode_byte_list [] old = Some []"
| "decode_byte_list (v # vs) old =
     (let b = (case old of [] \<Rightarrow> 0 | c # _ \<Rightarrow> byte c)
      in case decode_int64 v b of
           None \<Rightarrow> None
         | Some i \<Rightarrow> if 0 \<le> i \<and> i < 256 then map_option (Cons (char_of i)) (decode_byte_list vs (drop 1 old)) else None)"

definition decode_bytes :: "json \<Rightarrow> string \<Rightarrow> string option" where
  "decode_bytes v old =
     (case v of JNull \<Rightarrow> Some [] | JStr r \<Rightarrow> b64_decode (unquote r) | JArr vs \<Rightarrow> decode_byte_list vs old | _ \<Rightarrow> None)"

fun decode_string_list :: "json list \<Rightarrow> string list \<Rightarrow> string list option" where
  "decode_string_list [] old = Some []"
| "decode_string_list (v # vs) old =
     (case decode_string v (case old of [] \<Rightarrow> [] | s # _ \<Rightarrow> s) of
        None \<Rightarrow> None
      | Some s \<Rightarrow> map_option (Cons s) (decode_string_list vs (drop 1 old)))"

definition decode_strings :: "json \<Rightarrow> string list \<Rightarrow> string list option" where
  "decode_strings v old = (case v of JNull \<Rightarrow> Some [] | JArr vs \<Rightarrow> decode_string_list vs old | _ \<Rightarrow> None)"

text \<open>The members of an object in turn; a member that is no field of the struct is skipped, or an error when the
  decoder disallows unknown fields.\<close>

fun decode_members ::
  "string list \<Rightarrow> bool \<Rightarrow> (string \<Rightarrow> json \<Rightarrow> 'a \<Rightarrow> 'a option) \<Rightarrow> (string \<times> json) list \<Rightarrow> 'a \<Rightarrow> 'a option" where
  "decode_members names strict store [] x = Some x"
| "decode_members names strict store ((k, v) # ms) x =
     (case field_of names (unquote k) of
        None \<Rightarrow> if strict then None else decode_members names strict store ms x
      | Some f \<Rightarrow> (case store f v x of None \<Rightarrow> None | Some y \<Rightarrow> decode_members names strict store ms y))"

definition decode_struct ::
  "string list \<Rightarrow> bool \<Rightarrow> (string \<Rightarrow> json \<Rightarrow> 'a \<Rightarrow> 'a option) \<Rightarrow> json \<Rightarrow> 'a \<Rightarrow> 'a option" where
  "decode_struct names strict store v x =
     (case v of JNull \<Rightarrow> Some x | JObj ms \<Rightarrow> decode_members names strict store ms x | _ \<Rightarrow> None)"

text \<open>\<open>json.Unmarshal\<close>; and a strict \<open>Decoder\<close> that must find the end of the input after one value.\<close>

definition Unmarshal ::
  "string list \<Rightarrow> bool \<Rightarrow> (string \<Rightarrow> json \<Rightarrow> 'a \<Rightarrow> 'a option) \<Rightarrow> 'a \<Rightarrow> string \<Rightarrow> 'a option" where
  "Unmarshal names strict store zero raw =
     (case json_parse raw of None \<Rightarrow> None | Some v \<Rightarrow> decode_struct names strict store v zero)"

section \<open>Ambiguous members\<close>

text \<open>\<open>scalarValueString\<close>: every escape is a scalar value, or a pair of surrogates.\<close>

function scalar_escapes :: "string \<Rightarrow> bool" where
  "scalar_escapes raw =
     (case raw of [] \<Rightarrow> True
      | c # s \<Rightarrow>
          if c \<noteq> backslash then scalar_escapes s
          else (case s of [] \<Rightarrow> True
                | u # t \<Rightarrow>
                    if u \<noteq> CHR ''u'' then scalar_escapes t
                    else (case hex4 t of None \<Rightarrow> False
                          | Some unit \<Rightarrow>
                              if 56320 \<le> unit \<and> unit \<le> 57343 then False
                              else if 55296 \<le> unit \<and> unit \<le> 56319
                              then (case drop 4 t of
                                      b # v # w \<Rightarrow>
                                        b = backslash \<and> v = CHR ''u''
                                        \<and> (case hex4 w of None \<Rightarrow> False
                                           | Some low \<Rightarrow> 56320 \<le> low \<and> low \<le> 57343 \<and> scalar_escapes (drop 10 t))
                                    | _ \<Rightarrow> False)
                              else scalar_escapes (drop 4 t))))"
  by pat_completeness auto
termination
  by (relation "measure length") (auto split: list.splits)

declare scalar_escapes.simps [simp del]

definition scalarValueString :: "string \<Rightarrow> bool" where
  "scalarValueString raw \<longleftrightarrow> utf8_Valid raw \<and> scalar_escapes raw"

text \<open>The loop over the routing members for one key: what was seen so far, and whether the key is a routing member.\<close>

fun check_key :: "string list \<Rightarrow> string \<Rightarrow> string list \<Rightarrow> bool \<Rightarrow> (string list \<times> bool) option" where
  "check_key [] key seen routing = Some (seen, routing)"
| "check_key (m # ms) key seen routing =
     (if key = m \<and> m \<in> set seen then None
      else if key = m then check_key ms key (m # seen) True
      else if EqualFold key m then None
      else check_key ms key seen routing)"

definition raw_text :: "json \<Rightarrow> string" where
  "raw_text v = (case v of JStr r \<Rightarrow> quote_char # r @ [quote_char] | _ \<Rightarrow> [])"

fun refuseAmbiguousMembers :: "string list \<Rightarrow> string list \<Rightarrow> (string \<times> json) list \<Rightarrow> bool" where
  "refuseAmbiguousMembers members seen [] = False"
| "refuseAmbiguousMembers members seen ((k, v) # ms) =
     (case check_key members (unquote k) seen False of
        None \<Rightarrow> True
      | Some (seen', routing) \<Rightarrow>
          routing \<and> raw_text v \<noteq> [] \<and> \<not> scalarValueString (raw_text v) \<or> refuseAmbiguousMembers members seen' ms)"

section \<open>The projection\<close>

text \<open>The structs the courier decodes have some of these members; the list names which.\<close>

record routing =
  rt_DeviceID :: string
  rt_LocalSeq :: int
  rt_FromSeq :: "int option"
  rt_ToSeq :: "int option"

definition no_routing :: routing where
  "no_routing = \<lparr>rt_DeviceID = [], rt_LocalSeq = 0, rt_FromSeq = None, rt_ToSeq = None\<rparr>"

definition store_routing :: "string \<Rightarrow> json \<Rightarrow> routing \<Rightarrow> routing option" where
  "store_routing f v x =
     (if f = ''device_id'' then map_option (\<lambda>s. x\<lparr>rt_DeviceID := s\<rparr>) (decode_string v (rt_DeviceID x))
      else if f = ''local_seq'' then map_option (\<lambda>i. x\<lparr>rt_LocalSeq := i\<rparr>) (decode_int64 v (rt_LocalSeq x))
      else if f = ''from_seq'' then map_option (\<lambda>p. x\<lparr>rt_FromSeq := p\<rparr>) (decode_ptr64 v)
      else if f = ''to_seq'' then map_option (\<lambda>p. x\<lparr>rt_ToSeq := p\<rparr>) (decode_ptr64 v)
      else Some x)"

text \<open>\<open>decodeRouting\<close> fails when the payload is no JSON object, has an ambiguous member, or a member of another kind.
  The source reads the members from a token stream, then parses the whole payload; an input either refuses is refused.\<close>

definition decodeRouting :: "string list \<Rightarrow> string \<Rightarrow> routing option" where
  "decodeRouting members payload =
     (case json_parse payload of
        Some (JObj ms) \<Rightarrow>
          if refuseAmbiguousMembers members [] ms then None
          else decode_members members False store_routing ms no_routing
      | _ \<Rightarrow> None)"

definition recordDevice :: "string \<Rightarrow> string" where
  "recordDevice payload =
     (case decodeRouting [''device_id''] payload of None \<Rightarrow> [] | Some r \<Rightarrow> rt_DeviceID r)"

definition artifactDeviceID :: "string \<Rightarrow> string" where
  "artifactDeviceID payload =
     (case decodeRouting [''device_id''] payload of
        None \<Rightarrow> ''unrecognised''
      | Some r \<Rightarrow> if rt_DeviceID r = [] then ''unrecognised'' else rt_DeviceID r)"

section \<open>Every reader sees the same projection\<close>

text \<open>The members a reader may take for \<open>m\<close>, whether or not it minds the case.\<close>

definition named :: "string \<Rightarrow> (string \<times> json) list \<Rightarrow> (string \<times> json) list" where
  "named m ms = filter (\<lambda>(k, v). unquote k = m \<or> EqualFold (unquote k) m) ms"

lemma named_simps [simp]:
  "named m [] = []"
  "named m ((k, v) # ms) = (if unquote k = m \<or> EqualFold (unquote k) m then (k, v) # named m ms else named m ms)"
  by (simp_all add: named_def)

lemma check_key_Some:
  assumes "check_key ms key seen rt = Some (seen', rt')"
  shows "\<forall>m \<in> set ms. (EqualFold key m \<longrightarrow> key = m) \<and> (key = m \<longrightarrow> m \<notin> set seen)"
    "set seen' = (if key \<in> set ms then insert key (set seen) else set seen)" "rt' \<longleftrightarrow> rt \<or> key \<in> set ms"
proof -
  have "(\<forall>m \<in> set ms. (EqualFold key m \<longrightarrow> key = m) \<and> (key = m \<longrightarrow> m \<notin> set seen))
    \<and> set seen' = (if key \<in> set ms then insert key (set seen) else set seen) \<and> (rt' \<longleftrightarrow> rt \<or> key \<in> set ms)"
    using assms
  proof (induction ms arbitrary: seen rt)
    case (Cons m ms)
    show ?case
    proof (cases "key = m")
      case True
      then have "m \<notin> set seen" "check_key ms key (m # seen) True = Some (seen', rt')"
        using Cons.prems by (auto split: if_splits)
      then show ?thesis using Cons.IH [of "m # seen" True] True by simp
    next
      case False
      then have "\<not> EqualFold key m" "check_key ms key seen rt = Some (seen', rt')"
        using Cons.prems by (auto split: if_splits)
      then show ?thesis using Cons.IH [of seen rt] False by simp
    qed
  qed simp
  then show "\<forall>m \<in> set ms. (EqualFold key m \<longrightarrow> key = m) \<and> (key = m \<longrightarrow> m \<notin> set seen)"
    "set seen' = (if key \<in> set ms then insert key (set seen) else set seen)" "rt' \<longleftrightarrow> rt \<or> key \<in> set ms" by blast+
qed

lemma not_refused_Cons:
  assumes "\<not> refuseAmbiguousMembers members seen ((k, v) # ms)"
  obtains seen' where "\<not> refuseAmbiguousMembers members seen' ms"
    "\<And>m. m \<in> set members \<Longrightarrow> EqualFold (unquote k) m \<Longrightarrow> unquote k = m"
    "\<And>m. m \<in> set members \<Longrightarrow> unquote k = m \<Longrightarrow>
       m \<notin> set seen \<and> m \<in> set seen' \<and> (raw_text v = [] \<or> scalarValueString (raw_text v))"
    "set seen \<subseteq> set seen'"
proof -
  obtain seen' rt where c: "check_key members (unquote k) seen False = Some (seen', rt)"
    using assms by (auto split: option.splits)
  show ?thesis
    using assms c check_key_Some [OF c] by (intro that [of seen']) auto
qed

lemma seen_absent: "\<not> refuseAmbiguousMembers members seen ms \<Longrightarrow> m \<in> set members \<Longrightarrow> m \<in> set seen \<Longrightarrow> named m ms = []"
proof (induction ms arbitrary: seen)
  case (Cons kv ms)
  obtain k v where kv: "kv = (k, v)" by fastforce
  from Cons.prems(1) [unfolded kv] obtain seen' where s: "\<not> refuseAmbiguousMembers members seen' ms"
    "\<And>m. m \<in> set members \<Longrightarrow> EqualFold (unquote k) m \<Longrightarrow> unquote k = m"
    "\<And>m. m \<in> set members \<Longrightarrow> unquote k = m \<Longrightarrow>
       m \<notin> set seen \<and> m \<in> set seen' \<and> (raw_text v = [] \<or> scalarValueString (raw_text v))"
    "set seen \<subseteq> set seen'"
    by (rule not_refused_Cons) blast
  then have "unquote k \<noteq> m \<and> \<not> EqualFold (unquote k) m" using Cons.prems by blast
  then show ?case using Cons.IH [OF s(1)] Cons.prems s(4) kv by auto
qed simp

lemma field_of_Some: "field_of names key = Some f \<Longrightarrow> f \<in> set names \<and> (f = key \<or> EqualFold key f)"
  by (auto simp: field_of_def find_Some_iff split: if_splits)

lemma field_of_member: "f \<in> set names \<Longrightarrow> field_of names f = Some f"
  by (simp add: field_of_def)

text \<open>One field of the struct: \<open>get\<close> reads it and \<open>decd\<close> decodes it.\<close>

lemma decode_members_field:
  assumes "\<not> refuseAmbiguousMembers members seen ms" "decode_members members False store ms x = Some r" "m \<in> set members"
    and other: "\<And>f v y y'. f \<noteq> m \<Longrightarrow> store f v y = Some y' \<Longrightarrow> get y' = get y"
    and own: "\<And>v y y'. store m v y = Some y' \<Longrightarrow> decd v (get y) = Some (get y')"
  shows "named m ms = [] \<and> get r = get x \<or>
    (\<exists>k v. named m ms = [(k, v)] \<and> unquote k = m \<and> (raw_text v = [] \<or> scalarValueString (raw_text v))
       \<and> decd v (get x) = Some (get r))"
  using assms(1,2)
proof (induction ms arbitrary: seen x)
  case (Cons kv ms)
  obtain k v where kv: "kv = (k, v)" by fastforce
  from Cons.prems(1) [unfolded kv] obtain seen' where s: "\<not> refuseAmbiguousMembers members seen' ms"
    "\<And>m. m \<in> set members \<Longrightarrow> EqualFold (unquote k) m \<Longrightarrow> unquote k = m"
    "\<And>m. m \<in> set members \<Longrightarrow> unquote k = m \<Longrightarrow>
       m \<notin> set seen \<and> m \<in> set seen' \<and> (raw_text v = [] \<or> scalarValueString (raw_text v))"
    "set seen \<subseteq> set seen'"
    by (rule not_refused_Cons) blast
  show ?case
  proof (cases "unquote k = m")
    case True
    then have "named m ms = []" using seen_absent [OF s(1) assms(3)] s(3) assms(3) by blast
    moreover obtain y where y: "store m v x = Some y" "decode_members members False store ms y = Some r"
      using Cons.prems(2) kv True field_of_member [OF assms(3)] by (auto split: option.splits)
    moreover from this have "get r = get y" using Cons.IH [OF s(1) y(2)] \<open>named m ms = []\<close> by simp
    ultimately show ?thesis using own [OF y(1)] s(3) assms(3) True kv by auto
  next
    case False
    then have n: "named m (kv # ms) = named m ms" using s(2) assms(3) kv by auto
    obtain y where y: "decode_members members False store ms y = Some r" "get y = get x"
    proof (cases "field_of members (unquote k)")
      case None
      then show ?thesis using Cons.prems(2) kv that by simp
    next
      case (Some f)
      then have "f \<noteq> m" using field_of_Some [OF Some] False s(2) by auto
      then show ?thesis using Cons.prems(2) kv Some that other by (auto split: option.splits)
    qed
    then show ?thesis using Cons.IH [OF s(1) y(1)] n by simp
  qed
qed simp

lemma store_routing_fields:
  "f \<noteq> ''device_id'' \<Longrightarrow> store_routing f v y = Some y' \<Longrightarrow> rt_DeviceID y' = rt_DeviceID y"
  "store_routing ''device_id'' v y = Some y' \<Longrightarrow> decode_string v (rt_DeviceID y) = Some (rt_DeviceID y')"
  "f \<noteq> ''local_seq'' \<Longrightarrow> store_routing f v y = Some y' \<Longrightarrow> rt_LocalSeq y' = rt_LocalSeq y"
  "store_routing ''local_seq'' v y = Some y' \<Longrightarrow> decode_int64 v (rt_LocalSeq y) = Some (rt_LocalSeq y')"
  by (auto simp: store_routing_def split: if_splits)

text \<open>A struct with more members decodes the same device.\<close>

lemma device_sub:
  assumes "''device_id'' \<in> set members"
  shows "\<not> refuseAmbiguousMembers members seen ms \<Longrightarrow> decode_members members False store_routing ms x = Some r \<Longrightarrow>
    rt_DeviceID y = rt_DeviceID x \<Longrightarrow> (''device_id'' \<in> set seen' \<longrightarrow> ''device_id'' \<in> set seen) \<Longrightarrow>
    \<not> refuseAmbiguousMembers [''device_id''] seen' ms
      \<and> (\<exists>r'. decode_members [''device_id''] False store_routing ms y = Some r' \<and> rt_DeviceID r' = rt_DeviceID r)"
proof (induction ms arbitrary: seen seen' x y)
  case (Cons kv ms)
  obtain k v where kv: "kv = (k, v)" by fastforce
  from Cons.prems(1) [unfolded kv] obtain seen1 where s: "\<not> refuseAmbiguousMembers members seen1 ms"
    "\<And>m. m \<in> set members \<Longrightarrow> EqualFold (unquote k) m \<Longrightarrow> unquote k = m"
    "\<And>m. m \<in> set members \<Longrightarrow> unquote k = m \<Longrightarrow>
       m \<notin> set seen \<and> m \<in> set seen1 \<and> (raw_text v = [] \<or> scalarValueString (raw_text v))"
    "set seen \<subseteq> set seen1"
    by (rule not_refused_Cons) blast
  show ?case
  proof (cases "unquote k = ''device_id''")
    case True
    obtain x' where x': "store_routing ''device_id'' v x = Some x'" "decode_members members False store_routing ms x' = Some r"
      using Cons.prems(2) kv True field_of_member [OF assms] by (auto split: option.splits)
    obtain y' where y': "store_routing ''device_id'' v y = Some y'" "rt_DeviceID y' = rt_DeviceID x'"
      using x'(1) Cons.prems(3) by (auto simp: store_routing_def)
    have "''device_id'' \<in> set (''device_id'' # seen') \<longrightarrow> ''device_id'' \<in> set seen1" using s(3) [OF assms] True by blast
    from Cons.IH [OF s(1) x'(2) y'(2) this] show ?thesis
      using s(3) [OF assms] True kv y'(1) Cons.prems(4) by (auto simp: field_of_def)
  next
    case False
    then have "\<not> EqualFold (unquote k) ''device_id''" using s(2) [OF assms] by blast
    moreover obtain x' where "decode_members members False store_routing ms x' = Some r" "rt_DeviceID x' = rt_DeviceID x"
    proof (cases "field_of members (unquote k)")
      case None
      then show ?thesis using Cons.prems(2) kv that by simp
    next
      case (Some f)
      then have "f \<noteq> ''device_id''" using field_of_Some [OF Some] False s(2) [OF assms] by auto
      then show ?thesis using Cons.prems(2) kv Some that store_routing_fields(1) by (auto split: option.splits)
    qed
    moreover have "''device_id'' \<in> set seen' \<longrightarrow> ''device_id'' \<in> set seen1" using Cons.prems(4) s(4) by blast
    ultimately show ?thesis using Cons.IH [OF s(1)] Cons.prems(3) kv False by (simp add: field_of_def)
  qed
qed simp

lemma device_projection:
  assumes "decodeRouting members payload = Some r" "''device_id'' \<in> set members"
  shows "recordDevice payload = rt_DeviceID r"
proof -
  from assms obtain ms where ms: "json_parse payload = Some (JObj ms)" "\<not> refuseAmbiguousMembers members [] ms"
    "decode_members members False store_routing ms no_routing = Some r"
    by (auto simp: decodeRouting_def split: option.splits json.splits if_splits)
  from device_sub [OF assms(2) ms(2,3) refl, of "[]"] show ?thesis
    by (auto simp: recordDevice_def decodeRouting_def ms(1))
qed

text \<open>The routing projection has one reading. When the courier accepts a payload, at most one member can be taken
  for \<open>device_id\<close>, by any reader, with or without regard to case; it is spelled exactly, its text has only scalar values,
  and the device the courier routes by is its text. The same holds of \<open>local_seq\<close>.\<close>

theorem routing_has_one_reading:
  assumes "decodeRouting [''device_id'', ''local_seq''] payload = Some r"
  shows "\<exists>ms. json_parse payload = Some (JObj ms)
    \<and> (named ''device_id'' ms = [] \<and> rt_DeviceID r = []
       \<or> (\<exists>k v. named ''device_id'' ms = [(k, v)] \<and> unquote k = ''device_id'' \<and> (raw_text v = [] \<or> scalarValueString (raw_text v))
            \<and> decode_string v [] = Some (rt_DeviceID r)))
    \<and> (named ''local_seq'' ms = [] \<and> rt_LocalSeq r = 0
       \<or> (\<exists>k v. named ''local_seq'' ms = [(k, v)] \<and> unquote k = ''local_seq'' \<and> decode_int64 v 0 = Some (rt_LocalSeq r)))"
proof -
  let ?members = "[''device_id'', ''local_seq'']"
  from assms obtain ms where ms: "json_parse payload = Some (JObj ms)" "\<not> refuseAmbiguousMembers ?members [] ms"
    "decode_members ?members False store_routing ms no_routing = Some r"
    by (auto simp: decodeRouting_def split: option.splits json.splits if_splits)
  note field = decode_members_field [OF ms(2,3)]
  have "named ''device_id'' ms = [] \<and> rt_DeviceID r = rt_DeviceID no_routing
       \<or> (\<exists>k v. named ''device_id'' ms = [(k, v)] \<and> unquote k = ''device_id'' \<and> (raw_text v = [] \<or> scalarValueString (raw_text v))
            \<and> decode_string v (rt_DeviceID no_routing) = Some (rt_DeviceID r))"
    by (rule field [of "''device_id''" rt_DeviceID decode_string, OF _ store_routing_fields(1,2)]) simp_all
  moreover have "named ''local_seq'' ms = [] \<and> rt_LocalSeq r = rt_LocalSeq no_routing
       \<or> (\<exists>k v. named ''local_seq'' ms = [(k, v)] \<and> unquote k = ''local_seq'' \<and> (raw_text v = [] \<or> scalarValueString (raw_text v))
            \<and> decode_int64 v (rt_LocalSeq no_routing) = Some (rt_LocalSeq r))"
    by (rule field [of "''local_seq''" rt_LocalSeq decode_int64, OF _ store_routing_fields(3,4)]) simp_all
  moreover have "rt_DeviceID no_routing = []" "rt_LocalSeq no_routing = 0" by (simp_all add: no_routing_def)
  ultimately show ?thesis using ms(1) by (intro exI [of _ ms]) auto
qed

definition sample_envelope :: string where
  "sample_envelope = print_json (JObj [(''device_id'', JStr ''pump-1''), (''local_seq'', JNum ''7'')])"

lemma sample_envelope_routing:
  "decodeRouting [''device_id'', ''local_seq''] sample_envelope =
     Some \<lparr>rt_DeviceID = ''pump-1'', rt_LocalSeq = 7, rt_FromSeq = None, rt_ToSeq = None\<rparr>"
  by code_simp

theorem routing_has_one_reading_witness:
  "\<exists>ms. json_parse sample_envelope = Some (JObj ms) \<and> length (named ''device_id'' ms) \<le> 1"
  using routing_has_one_reading [OF sample_envelope_routing] by fastforce

end
