(* ===== verification/Queue_Records.thy ===== *)
theory Queue_Records
  imports Routing Refusal Faults Evidence_Clock Sha256
begin

text \<open>
  The records of the evidence queue and of the files beside it, \<open>internal/evidence/courier/queue.go\<close>, \<open>hold.go\<close> and
  \<open>probe.go\<close>: their Go structs, the JSON text \<open>json.Marshal\<close> writes of them and what \<open>json.Unmarshal\<close> or the strict
  decoder reads back.
\<close>

section \<open>Records\<close>

definition ArtifactDeliveryEnvelope :: string where "ArtifactDeliveryEnvelope = ''delivery_envelope''"
definition ArtifactAnchorRegistration :: string where "ArtifactAnchorRegistration = ''anchor_registration''"
definition ArtifactCheckpoint :: string where "ArtifactCheckpoint = ''checkpoint''"
definition artifactDeliveryReceipt :: string where "artifactDeliveryReceipt = ''delivery_receipt''"
definition artifactEpochConfirmation :: string where "artifactEpochConfirmation = ''epoch_confirmation''"
definition artifactCustodyAcknowledgement :: string where "artifactCustodyAcknowledgement = ''custody_acknowledgement''"

lemmas artifact_defs = ArtifactDeliveryEnvelope_def ArtifactAnchorRegistration_def ArtifactCheckpoint_def
  artifactDeliveryReceipt_def artifactEpochConfirmation_def artifactCustodyAcknowledgement_def

definition queueRecordVersion :: int where "queueRecordVersion = 1"
definition queueFileSuffix :: string where "queueFileSuffix = ''.json''"
definition queueMarkerName :: string where "queueMarkerName = ''.ori-evidence-queue-v1''"
definition queueMarkerBody :: string where "queueMarkerBody = ''ori evidence durable queue v1'' @ [CHR 0x0A]"
definition queueTempPrefix :: string where "queueTempPrefix = ''.ori-evidence-queue-tmp-''"
definition holdRecordVersion :: int where "holdRecordVersion = 1"
definition holdFilePrefix :: string where "holdFilePrefix = ''.ori-evidence-hold-''"
definition backoffRecordV1 :: int where "backoffRecordV1 = 1"
definition backoffRecordV2 :: int where "backoffRecordV2 = 2"
definition maxRetryAfterMS :: int where "maxRetryAfterMS = (2 ^ 31 - 1) * 1000"
definition backoffFilePrefix :: string where "backoffFilePrefix = ''.ori-evidence-backoff-''"
definition probeFileName :: string where "probeFileName = ''.ori-evidence-probe''"
definition unconfiguredFileName :: string where "unconfiguredFileName = ''.ori-evidence-unconfigured''"
definition unconfiguredFileVersion :: int where "unconfiguredFileVersion = 1"
definition maxUnconfiguredDevices :: nat where "maxUnconfiguredDevices = 256"
definition devicesFaultSource :: string where "devicesFaultSource = ''devices''"
definition MaxSafeInteger :: int where "MaxSafeInteger = 9007199254740991"
definition maxBackoffAttempts :: int where "maxBackoffAttempts = 65536"

record QueuedArtifact =
  qa_ID :: string
  qa_Type :: string
  qa_Payload :: string
  qa_EnqueuedAtMS :: int

record queueRecord =
  qr_V :: int
  qr_ID :: string
  qr_Type :: string
  qr_QueueSeq :: int
  qr_EnqueuedAtMS :: int
  qr_Payload :: string

definition zero_record :: queueRecord where
  "zero_record = \<lparr>qr_V = 0, qr_ID = [], qr_Type = [], qr_QueueSeq = 0, qr_EnqueuedAtMS = 0, qr_Payload = []\<rparr>"

record HoldRecord =
  hr_V :: int
  hr_QueueRecord :: string
  hr_ArtifactDigest :: string
  hr_ArtifactType :: string
  hr_RefusalStatus :: int
  hr_Reason :: string
  hr_FirstHeldAtMS :: int
  hr_Acknowledged :: bool

record BackoffRecord =
  br_V :: int
  br_QueueRecord :: string
  br_NotBeforeMS :: int
  br_Attempts :: int
  br_RetryAfterMS :: "int option"

record unconfiguredRecord =
  ur_V :: int
  ur_Devices :: "string list"
  ur_Overflow :: bool

definition validOutboundArtifactType :: "string \<Rightarrow> bool" where
  "validOutboundArtifactType kind \<longleftrightarrow>
     kind = ArtifactDeliveryEnvelope \<or> kind = ArtifactAnchorRegistration \<or> kind = ArtifactCheckpoint"

definition validQueueArtifactType :: "string \<Rightarrow> bool" where
  "validQueueArtifactType kind \<longleftrightarrow> validOutboundArtifactType kind \<or> kind = artifactDeliveryReceipt
     \<or> kind = artifactEpochConfirmation \<or> kind = artifactCustodyAcknowledgement"

definition artifactID :: "string \<Rightarrow> string \<Rightarrow> string" where
  "artifactID kind payload = hex_encode (sha256 (kind @ CHR 0x00 # payload))"

definition payloadDigest :: "string \<Rightarrow> string" where
  "payloadDigest payload = ''sha256:'' @ hex_encode (sha256 payload)"

definition recordArtifact :: "queueRecord \<Rightarrow> QueuedArtifact" where
  "recordArtifact r = \<lparr>qa_ID = qr_ID r, qa_Type = qr_Type r, qa_Payload = qr_Payload r, qa_EnqueuedAtMS = qr_EnqueuedAtMS r\<rparr>"

section \<open>Record files\<close>

text \<open>A nil byte slice is written as \<open>null\<close>.\<close>

definition record_json :: "queueRecord \<Rightarrow> json" where
  "record_json r = JObj
     [(''v'', JNum (itoa (qr_V r))), (''id'', JString (qr_ID r)), (''artifact_type'', JString (qr_Type r)),
      (''queue_seq'', JNum (itoa (qr_QueueSeq r))), (''enqueued_at_ms'', JNum (itoa (qr_EnqueuedAtMS r))),
      (''payload'', if qr_Payload r = [] then JNull else JStr (b64_encode (qr_Payload r)))]"

definition encode_record :: "queueRecord \<Rightarrow> string" where
  "encode_record r = print_json (record_json r)"

definition record_fields :: "string list" where
  "record_fields = [''v'', ''id'', ''artifact_type'', ''queue_seq'', ''enqueued_at_ms'', ''payload'']"

definition store_record :: "string \<Rightarrow> json \<Rightarrow> queueRecord \<Rightarrow> queueRecord option" where
  "store_record f v x =
     (if f = ''v'' then map_option (\<lambda>i. x\<lparr>qr_V := i\<rparr>) (decode_int64 v (qr_V x))
      else if f = ''id'' then map_option (\<lambda>s. x\<lparr>qr_ID := s\<rparr>) (decode_string v (qr_ID x))
      else if f = ''artifact_type'' then map_option (\<lambda>s. x\<lparr>qr_Type := s\<rparr>) (decode_string v (qr_Type x))
      else if f = ''queue_seq'' then map_option (\<lambda>i. x\<lparr>qr_QueueSeq := i\<rparr>) (decode_int64 v (qr_QueueSeq x))
      else if f = ''enqueued_at_ms'' then map_option (\<lambda>i. x\<lparr>qr_EnqueuedAtMS := i\<rparr>) (decode_int64 v (qr_EnqueuedAtMS x))
      else map_option (\<lambda>b. x\<lparr>qr_Payload := b\<rparr>) (decode_bytes v (qr_Payload x)))"

definition decode_record :: "string \<Rightarrow> queueRecord option" where
  "decode_record raw = Unmarshal record_fields False store_record zero_record raw"

definition hold_json :: "HoldRecord \<Rightarrow> json" where
  "hold_json r = JObj
     [(''v'', JNum (itoa (hr_V r))), (''queue_record'', JString (hr_QueueRecord r)),
      (''artifact_digest'', JString (hr_ArtifactDigest r)), (''artifact_type'', JString (hr_ArtifactType r)),
      (''refusal_status'', JNum (itoa (hr_RefusalStatus r))), (''reason'', JString (hr_Reason r)),
      (''first_held_at_ms'', JNum (itoa (hr_FirstHeldAtMS r))), (''acknowledged'', JBool (hr_Acknowledged r))]"

definition hold_fields :: "string list" where
  "hold_fields = [''v'', ''queue_record'', ''artifact_digest'', ''artifact_type'', ''refusal_status'', ''reason'',
     ''first_held_at_ms'', ''acknowledged'']"

definition zero_hold :: HoldRecord where
  "zero_hold = \<lparr>hr_V = 0, hr_QueueRecord = [], hr_ArtifactDigest = [], hr_ArtifactType = [], hr_RefusalStatus = 0,
     hr_Reason = [], hr_FirstHeldAtMS = 0, hr_Acknowledged = False\<rparr>"

definition store_hold :: "string \<Rightarrow> json \<Rightarrow> HoldRecord \<Rightarrow> HoldRecord option" where
  "store_hold f v x =
     (if f = ''v'' then map_option (\<lambda>i. x\<lparr>hr_V := i\<rparr>) (decode_int64 v (hr_V x))
      else if f = ''queue_record'' then map_option (\<lambda>s. x\<lparr>hr_QueueRecord := s\<rparr>) (decode_string v (hr_QueueRecord x))
      else if f = ''artifact_digest'' then map_option (\<lambda>s. x\<lparr>hr_ArtifactDigest := s\<rparr>) (decode_string v (hr_ArtifactDigest x))
      else if f = ''artifact_type'' then map_option (\<lambda>s. x\<lparr>hr_ArtifactType := s\<rparr>) (decode_string v (hr_ArtifactType x))
      else if f = ''refusal_status'' then map_option (\<lambda>i. x\<lparr>hr_RefusalStatus := i\<rparr>) (decode_int64 v (hr_RefusalStatus x))
      else if f = ''reason'' then map_option (\<lambda>s. x\<lparr>hr_Reason := s\<rparr>) (decode_string v (hr_Reason x))
      else if f = ''first_held_at_ms'' then map_option (\<lambda>i. x\<lparr>hr_FirstHeldAtMS := i\<rparr>) (decode_int64 v (hr_FirstHeldAtMS x))
      else map_option (\<lambda>b. x\<lparr>hr_Acknowledged := b\<rparr>) (decode_bool v (hr_Acknowledged x)))"

definition decode_hold :: "string \<Rightarrow> HoldRecord option" where
  "decode_hold raw = Unmarshal hold_fields True store_hold zero_hold raw"

definition backoff_json :: "BackoffRecord \<Rightarrow> json" where
  "backoff_json r = JObj
     ([(''v'', JNum (itoa (br_V r))), (''queue_record'', JString (br_QueueRecord r)),
       (''not_before_ms'', JNum (itoa (br_NotBeforeMS r))), (''attempts'', JNum (itoa (br_Attempts r)))]
      @ (case br_RetryAfterMS r of None \<Rightarrow> [] | Some ms \<Rightarrow> [(''retry_after_ms'', JNum (itoa ms))]))"

definition backoff_fields :: "string list" where
  "backoff_fields = [''v'', ''queue_record'', ''not_before_ms'', ''attempts'', ''retry_after_ms'']"

definition zero_backoff :: BackoffRecord where
  "zero_backoff = \<lparr>br_V = 0, br_QueueRecord = [], br_NotBeforeMS = 0, br_Attempts = 0, br_RetryAfterMS = None\<rparr>"

definition store_backoff :: "string \<Rightarrow> json \<Rightarrow> BackoffRecord \<Rightarrow> BackoffRecord option" where
  "store_backoff f v x =
     (if f = ''v'' then map_option (\<lambda>i. x\<lparr>br_V := i\<rparr>) (decode_int64 v (br_V x))
      else if f = ''queue_record'' then map_option (\<lambda>s. x\<lparr>br_QueueRecord := s\<rparr>) (decode_string v (br_QueueRecord x))
      else if f = ''not_before_ms'' then map_option (\<lambda>i. x\<lparr>br_NotBeforeMS := i\<rparr>) (decode_int64 v (br_NotBeforeMS x))
      else if f = ''attempts'' then map_option (\<lambda>i. x\<lparr>br_Attempts := i\<rparr>) (decode_int64 v (br_Attempts x))
      else map_option (\<lambda>p. x\<lparr>br_RetryAfterMS := p\<rparr>) (decode_ptr64 v))"

definition decode_backoff :: "string \<Rightarrow> BackoffRecord option" where
  "decode_backoff raw = Unmarshal backoff_fields True store_backoff zero_backoff raw"

definition unconfigured_json :: "unconfiguredRecord \<Rightarrow> json" where
  "unconfigured_json r = JObj
     [(''v'', JNum (itoa (ur_V r))), (''devices'', JArr (map JString (ur_Devices r))), (''overflow'', JBool (ur_Overflow r))]"

definition store_unconfigured :: "string \<Rightarrow> json \<Rightarrow> unconfiguredRecord \<Rightarrow> unconfiguredRecord option" where
  "store_unconfigured f v x =
     (if f = ''v'' then map_option (\<lambda>i. x\<lparr>ur_V := i\<rparr>) (decode_int64 v (ur_V x))
      else if f = ''devices'' then map_option (\<lambda>ds. x\<lparr>ur_Devices := ds\<rparr>) (decode_strings v (ur_Devices x))
      else map_option (\<lambda>b. x\<lparr>ur_Overflow := b\<rparr>) (decode_bool v (ur_Overflow x)))"

definition decode_unconfigured :: "string \<Rightarrow> unconfiguredRecord option" where
  "decode_unconfigured raw =
     Unmarshal [''v'', ''devices'', ''overflow''] True store_unconfigured \<lparr>ur_V = 0, ur_Devices = [], ur_Overflow = False\<rparr> raw"
end
