(* ===== verification/Queue.thy ===== *)
theory Queue
  imports Queue_Records "HOL-Library.Product_Lexorder"
begin

text \<open>
  The durable evidence queue, \<open>internal/evidence/courier/queue.go\<close>, with its sidecars, \<open>hold.go\<close> and \<open>probe.go\<close>.
  A queue is a record of its state, the directory included; an operation takes the queue to its result and the queue
  after it. The time an operation reads is an argument. Byte counts are lengths of texts in memory and are kept as
  integers; the queue sequence wraps.
\<close>

section \<open>Limits\<close>

definition maxArtifactBytes :: int where "maxArtifactBytes = 2 ^ 20"

text \<open>The lengths of the literals between the variable parts of a record, as the source adds them up.\<close>

definition maxRecordOverhead :: int where
  "maxRecordOverhead = 13 + 64 + 19 + 14 + 19 + 18 + 19 + 12 + 4 * ((maxArtifactBytes + 2) div 3) + 2"

definition maxQueueRecordBytes :: int where
  "maxQueueRecordBytes = maxRecordOverhead + int (length ArtifactAnchorRegistration)"

definition maxEvidenceRecordBytes :: int where
  "maxEvidenceRecordBytes = maxRecordOverhead + int (length ArtifactDeliveryEnvelope)"

definition MinDeviceShareItems :: int where "MinDeviceShareItems = 2"
definition MinDeviceShareBytes :: int where "MinDeviceShareBytes = maxQueueRecordBytes + maxEvidenceRecordBytes"

section \<open>State\<close>

text \<open>A lane key is a device and the name of one of its two lanes, ordered by device and then lane.\<close>

definition LaneRegistration :: string where "LaneRegistration = ''registration''"
definition LaneEvidence :: string where "LaneEvidence = ''evidence''"

type_synonym LaneKey = "string \<times> string"

record QueueOptions =
  qo_MaxItems :: int
  qo_MaxBytes :: int
  qo_Devices :: "string list"
  qo_ReserveDeviceShares :: bool
  qo_VersionedDevices :: "string list"
  qo_Faults :: Recorder
  qo_FaultSource :: string

record DurableQueue =
  q_disk :: disk
  q_maxItems :: int
  q_maxBytes :: int
  q_reserved :: bool
  q_versioned :: "string fset"
  q_entries :: "(string, queueRecord) fmap"
  q_holds :: "(string, HoldRecord) fmap"
  q_backoffs :: "(string, BackoffRecord) fmap"
  q_sizes :: "(string, int) fmap"
  q_order :: "string list"
  q_bytes :: int
  q_nextSeq :: int
  q_laneOf :: "(string, LaneKey) fmap"
  q_laneItems :: "(LaneKey, int) fmap"
  q_laneBytes :: "(LaneKey, int) fmap"
  q_deviceItems :: "(string, int) fmap"
  q_deviceBytes :: "(string, int) fmap"
  q_configured :: "string fset option"
  q_shareItems :: int
  q_shareBytes :: int
  q_faults :: Recorder
  q_faultSource :: string
  q_unconfigured :: "string fset"
  q_unconfiguredOverflow :: bool

datatype queueError =
    UnsupportedOutboundType | UnsupportedQueueType | EmptyPayload
  | UnconfiguredDevice
  | QueueFull string
  | ClockNotPositive
  | StoreFailed ioError
  | ArtifactNotFound
  | InvalidHold | InvalidBackoff
  | HoldRemoval | BackoffRemoval
  | Retirement | RetirementUnsynced | RetirementRestore ioError
  | UnconfiguredRemoval
  | ProbeRead | ProbeWrite ioError

definition noteStore :: "bool \<Rightarrow> DurableQueue \<Rightarrow> DurableQueue" where
  "noteStore failed q =
     (if failed then q\<lparr>q_faults := Note StoreUnavailable (q_faultSource q) True (q_faults q)\<rparr> else q)"

definition writeFileAtomicRaw :: "string \<Rightarrow> string \<Rightarrow> DurableQueue \<Rightarrow> ioError option \<times> DurableQueue" where
  "writeFileAtomicRaw name encoded q =
     (let (err, d) = write_atomic queueTempPrefix name encoded (q_disk q) in (err, q\<lparr>q_disk := d\<rparr>))"

definition writeFileAtomic :: "string \<Rightarrow> string \<Rightarrow> DurableQueue \<Rightarrow> ioError option \<times> DurableQueue" where
  "writeFileAtomic name encoded q0 =
     (let (err, q) = writeFileAtomicRaw name encoded q0 in (err, noteStore (err \<noteq> None) q))"

definition record_name :: "string \<Rightarrow> string" where
  "record_name rid = rid @ queueFileSuffix"

definition writeRecord :: "queueRecord \<Rightarrow> string \<Rightarrow> DurableQueue \<Rightarrow> ioError option \<times> DurableQueue" where
  "writeRecord r encoded q = writeFileAtomic (record_name (qr_ID r)) encoded q"

section \<open>Lanes\<close>

definition RoutingDeviceID :: "DurableQueue \<Rightarrow> string \<Rightarrow> bool" where
  "RoutingDeviceID q device =
     (if device |\<in>| q_versioned q then ValidEvidenceRoutingDeviceID device else device \<noteq> [])"

definition LaneOf :: "string \<Rightarrow> string" where
  "LaneOf kind = (if kind = ArtifactAnchorRegistration then LaneRegistration else LaneEvidence)"

definition recordLane :: "queueRecord \<Rightarrow> LaneKey" where
  "recordLane r = (recordDevice (qr_Payload r), LaneOf (qr_Type r))"

definition indexLocked :: "queueRecord \<Rightarrow> int \<Rightarrow> DurableQueue \<Rightarrow> DurableQueue" where
  "indexLocked r sz q =
     (let key = recordLane r
      in q\<lparr>q_laneOf := fmupd (qr_ID r) key (q_laneOf q),
           q_laneItems := fmupd key (fmget 0 (q_laneItems q) key + 1) (q_laneItems q),
           q_laneBytes := fmupd key (fmget 0 (q_laneBytes q) key + sz) (q_laneBytes q),
           q_deviceItems := fmupd (fst key) (fmget 0 (q_deviceItems q) (fst key) + 1) (q_deviceItems q),
           q_deviceBytes := fmupd (fst key) (fmget 0 (q_deviceBytes q) (fst key) + sz) (q_deviceBytes q)\<rparr>)"

text \<open>Taking one item from a counter and its bytes from another; both are deleted when no item is left.\<close>

definition take_item :: "'k \<Rightarrow> int \<Rightarrow> ('k, int) fmap \<Rightarrow> ('k, int) fmap \<Rightarrow> ('k, int) fmap \<times> ('k, int) fmap" where
  "take_item k sz items bytes =
     (if fmget 0 items k - 1 \<le> 0 then (fmdrop k items, fmdrop k bytes)
      else (fmupd k (fmget 0 items k - 1) items, fmupd k (fmget 0 bytes k - sz) bytes))"

definition unindexLocked :: "string \<Rightarrow> int \<Rightarrow> DurableQueue \<Rightarrow> DurableQueue" where
  "unindexLocked rid sz q =
     (let key = fmget ([], []) (q_laneOf q) rid;
          (li, lb) = take_item key sz (q_laneItems q) (q_laneBytes q);
          (di, db) = take_item (fst key) sz (q_deviceItems q) (q_deviceBytes q)
      in q\<lparr>q_laneOf := fmdrop rid (q_laneOf q), q_laneItems := li, q_laneBytes := lb,
           q_deviceItems := di, q_deviceBytes := db\<rparr>)"

definition order_key :: "(string, queueRecord) fmap \<Rightarrow> string \<Rightarrow> int \<times> string" where
  "order_key entries rid = (let r = fmget zero_record entries rid in (qr_QueueSeq r, qr_ID r))"

definition sortOrder :: "DurableQueue \<Rightarrow> DurableQueue" where
  "sortOrder q = q\<lparr>q_order := sort_key (order_key (q_entries q)) (q_order q)\<rparr>"

section \<open>Admission\<close>

definition laneShareRefusalLocked :: "LaneKey \<Rightarrow> int \<Rightarrow> DurableQueue \<Rightarrow> queueError option" where
  "laneShareRefusalLocked key sz q =
     (let reserved = (q_reserved q \<and> snd key \<noteq> LaneRegistration)
      in if sz = 0
         then (if fmget 0 (q_deviceItems q) (fst key) \<ge> q_shareItems q
                  \<or> reserved \<and> fmget 0 (q_laneItems q) key \<ge> q_shareItems q - 1
               then Some (QueueFull ''device item'') else None)
         else (if fmget 0 (q_deviceBytes q) (fst key) + sz > q_shareBytes q
                  \<or> reserved \<and> fmget 0 (q_laneBytes q) key + sz > q_shareBytes q - maxQueueRecordBytes
               then Some (QueueFull ''device byte'') else None))"

definition new_record :: "string \<Rightarrow> string \<Rightarrow> string \<Rightarrow> int \<Rightarrow> DurableQueue \<Rightarrow> queueRecord" where
  "new_record kind payload rid now q =
     \<lparr>qr_V = queueRecordVersion, qr_ID = rid, qr_Type = kind, qr_QueueSeq = q_nextSeq q, qr_EnqueuedAtMS = now,
      qr_Payload = payload\<rparr>"

text \<open>What \<open>insertLocked\<close> does once the record is on disk.\<close>

definition commit_record :: "queueRecord \<Rightarrow> int \<Rightarrow> DurableQueue \<Rightarrow> DurableQueue" where
  "commit_record r sz q =
     (let q1 = indexLocked r sz (q\<lparr>q_entries := fmupd (qr_ID r) r (q_entries q), q_sizes := fmupd (qr_ID r) sz (q_sizes q)\<rparr>);
          q2 = sortOrder (q1\<lparr>q_order := q_order q1 @ [qr_ID r]\<rparr>)
      in q2\<lparr>q_bytes := q_bytes q2 + sz, q_nextSeq := wrap64 (q_nextSeq q2 + 1)\<rparr>)"

definition insertLocked ::
  "string \<Rightarrow> string \<Rightarrow> string \<Rightarrow> int \<Rightarrow> DurableQueue \<Rightarrow> (queueError + QueuedArtifact) \<times> DurableQueue" where
  "insertLocked kind payload rid now q =
     (let device = recordDevice payload; key = (device, LaneOf kind)
      in if (case q_configured q of None \<Rightarrow> False | Some ds \<Rightarrow> device |\<notin>| ds) then (Inl UnconfiguredDevice, q)
         else if int (fmsize (q_entries q)) \<ge> q_maxItems q then (Inl (QueueFull ''item''), q)
         else case laneShareRefusalLocked key 0 q of Some e \<Rightarrow> (Inl e, q)
         | None \<Rightarrow>
             if now \<le> 0 then (Inl ClockNotPositive, q)
             else let r = new_record kind payload rid now q; encoded = encode_record r; sz = int (length encoded)
             in if q_bytes q + sz > q_maxBytes q then (Inl (QueueFull ''byte''), q)
                else case laneShareRefusalLocked key sz q of Some e \<Rightarrow> (Inl e, q)
                | None \<Rightarrow>
                    (case writeRecord r encoded q of
                       (Some e, q) \<Rightarrow> (Inl (StoreFailed e), q)
                     | (None, q) \<Rightarrow> (Inr (recordArtifact r), commit_record r sz q)))"

definition enqueueOrFind ::
  "string \<Rightarrow> string \<Rightarrow> int \<Rightarrow> DurableQueue \<Rightarrow> (queueError + QueuedArtifact \<times> bool) \<times> DurableQueue" where
  "enqueueOrFind kind payload now q =
     (if \<not> validQueueArtifactType kind then (Inl UnsupportedQueueType, q)
      else if payload = [] then (Inl EmptyPayload, q)
      else let rid = artifactID kind payload
      in case fmlookup (q_entries q) rid of
           Some existing \<Rightarrow> (Inr (recordArtifact existing, True), q)
         | None \<Rightarrow>
             (case insertLocked kind payload rid now q of
                (Inl e, q) \<Rightarrow> (Inl e, q)
              | (Inr a, q) \<Rightarrow> (Inr (a, False), q)))"

definition Enqueue :: "string \<Rightarrow> string \<Rightarrow> int \<Rightarrow> DurableQueue \<Rightarrow> (queueError + QueuedArtifact) \<times> DurableQueue" where
  "Enqueue kind payload now q0 =
     (if \<not> validOutboundArtifactType kind then (Inl UnsupportedOutboundType, q0)
      else case enqueueOrFind kind payload now q0 of (Inl e, q) \<Rightarrow> (Inl e, q) | (Inr (a, _), q) \<Rightarrow> (Inr a, q))"

text \<open>The flag tells whether the artifact is newly queued.\<close>

definition enqueueOutbound ::
  "string \<Rightarrow> string \<Rightarrow> int \<Rightarrow> DurableQueue \<Rightarrow> (queueError + QueuedArtifact \<times> bool) \<times> DurableQueue" where
  "enqueueOutbound kind payload now q0 =
     (if \<not> validOutboundArtifactType kind then (Inl UnsupportedOutboundType, q0)
      else case enqueueOrFind kind payload now q0 of
        (Inl e, q) \<Rightarrow> (Inl e, q) | (Inr (a, existing), q) \<Rightarrow> (Inr (a, \<not> existing), q))"

section \<open>Reading\<close>

definition peek_where :: "(LaneKey \<Rightarrow> bool) \<Rightarrow> DurableQueue \<Rightarrow> QueuedArtifact option" where
  "peek_where P q =
     map_option (\<lambda>rid. recordArtifact (fmget zero_record (q_entries q) rid))
       (find (\<lambda>rid. P (fmget ([], []) (q_laneOf q) rid)) (q_order q))"

definition PeekLane :: "LaneKey \<Rightarrow> DurableQueue \<Rightarrow> QueuedArtifact option" where
  "PeekLane key q = peek_where (\<lambda>k. k = key) q"

definition PeekDevice :: "string \<Rightarrow> DurableQueue \<Rightarrow> QueuedArtifact option" where
  "PeekDevice device q = peek_where (\<lambda>k. fst k = device) q"

definition Peek :: "DurableQueue \<Rightarrow> QueuedArtifact option" where
  "Peek q = (case q_order q of [] \<Rightarrow> None | rid # _ \<Rightarrow> Some (recordArtifact (fmget zero_record (q_entries q) rid)))"

definition Lanes :: "DurableQueue \<Rightarrow> LaneKey list" where
  "Lanes q = sorted_list_of_fset (fmdom (q_laneItems q))"

definition LenLane :: "LaneKey \<Rightarrow> DurableQueue \<Rightarrow> int" where
  "LenLane key q = fmget 0 (q_laneItems q) key"

definition laneCounts :: "DurableQueue \<Rightarrow> nat \<times> (LaneKey, int) fmap" where
  "laneCounts q = (fmsize (q_entries q), q_laneItems q)"

definition Devices :: "DurableQueue \<Rightarrow> string list" where
  "Devices q = sorted_list_of_fset (fmdom (q_deviceItems q))"

definition LenDevice :: "string \<Rightarrow> DurableQueue \<Rightarrow> int" where
  "LenDevice device q = fmget 0 (q_deviceItems q) device"

definition Len :: "DurableQueue \<Rightarrow> nat" where
  "Len q = fmsize (q_entries q)"

definition StoredBytes :: "DurableQueue \<Rightarrow> int" where
  "StoredBytes q = q_bytes q"

section \<open>Holds and back-offs\<close>

definition validateHoldRecord :: "HoldRecord \<Rightarrow> queueRecord \<Rightarrow> bool" where
  "validateHoldRecord r queued \<longleftrightarrow>
     \<not> (hr_V r \<noteq> holdRecordVersion
        \<or> hr_QueueRecord r \<noteq> qr_ID queued
        \<or> hr_ArtifactDigest r \<noteq> payloadDigest (qr_Payload queued)
        \<or> hr_ArtifactType r \<noteq> qr_Type queued
        \<or> \<not> Held (hr_RefusalStatus r) (hr_Reason r)
        \<or> \<not> heldRefusalStatus (hr_RefusalStatus r)
        \<or> hr_FirstHeldAtMS r \<le> 0 \<or> hr_FirstHeldAtMS r > MaxSafeInteger)"

definition validateBackoffRecord :: "BackoffRecord \<Rightarrow> bool" where
  "validateBackoffRecord r \<longleftrightarrow>
     \<not> (br_V r = backoffRecordV1 \<and> br_RetryAfterMS r \<noteq> None
        \<or> br_V r = backoffRecordV2 \<and> br_RetryAfterMS r = None
        \<or> br_V r \<noteq> backoffRecordV1 \<and> br_V r \<noteq> backoffRecordV2
        \<or> br_NotBeforeMS r \<le> 0 \<or> br_NotBeforeMS r > MaxSafeInteger
        \<or> br_Attempts r < 1 \<or> br_Attempts r > maxBackoffAttempts
        \<or> (case br_RetryAfterMS r of None \<Rightarrow> False | Some ms \<Rightarrow> ms < 1 \<or> ms > maxRetryAfterMS))"

definition Queue_Hold :: "HoldRecord \<Rightarrow> DurableQueue \<Rightarrow> queueError option \<times> DurableQueue" where
  "Queue_Hold r0 q =
     (case fmlookup (q_entries q) (hr_QueueRecord r0) of
        None \<Rightarrow> (Some ArtifactNotFound, q)
      | Some queued \<Rightarrow>
          let r = r0\<lparr>hr_V := holdRecordVersion\<rparr>
          in if \<not> validateHoldRecord r queued then (Some InvalidHold, q)
             else case writeFileAtomic (holdFilePrefix @ hr_QueueRecord r) (print_json (hold_json r)) q of
               (Some e, q) \<Rightarrow> (Some (StoreFailed e), q)
             | (None, q) \<Rightarrow> (None, q\<lparr>q_holds := fmupd (hr_QueueRecord r) r (q_holds q)\<rparr>))"

definition HoldFor :: "string \<Rightarrow> DurableQueue \<Rightarrow> HoldRecord option" where
  "HoldFor rid q = fmlookup (q_holds q) rid"

definition SetBackoff :: "BackoffRecord \<Rightarrow> DurableQueue \<Rightarrow> queueError option \<times> DurableQueue" where
  "SetBackoff r0 q =
     (if fmlookup (q_entries q) (br_QueueRecord r0) = None then (Some ArtifactNotFound, q)
      else let r = r0\<lparr>br_V := (if br_RetryAfterMS r0 \<noteq> None then backoffRecordV2 else backoffRecordV1)\<rparr>
      in if \<not> validateBackoffRecord r then (Some InvalidBackoff, q)
         else case writeFileAtomic (backoffFilePrefix @ br_QueueRecord r) (print_json (backoff_json r)) q of
           (Some e, q) \<Rightarrow> (Some (StoreFailed e), q)
         | (None, q) \<Rightarrow> (None, q\<lparr>q_backoffs := fmupd (br_QueueRecord r) r (q_backoffs q)\<rparr>))"

definition BackoffFor :: "string \<Rightarrow> DurableQueue \<Rightarrow> BackoffRecord option" where
  "BackoffFor rid q = fmlookup (q_backoffs q) rid"

text \<open>Removing a sidecar file: a missing file is no error, and the directory is synced.\<close>

definition remove_sidecar :: "string \<Rightarrow> DurableQueue \<Rightarrow> bool \<times> DurableQueue" where
  "remove_sidecar name q =
     (case RemoveFile name (q_disk q) of
        (RemoveFailed, d) \<Rightarrow> (False, q\<lparr>q_disk := d\<rparr>)
      | (_, d) \<Rightarrow> (let (ok, d) = SyncDirectory d in (ok, q\<lparr>q_disk := d\<rparr>)))"

definition removeHoldLocked :: "string \<Rightarrow> DurableQueue \<Rightarrow> queueError option \<times> DurableQueue" where
  "removeHoldLocked rid q =
     (if fmlookup (q_holds q) rid = None then (None, q)
      else case remove_sidecar (holdFilePrefix @ rid) q of
        (False, q) \<Rightarrow> (Some HoldRemoval, q)
      | (True, q) \<Rightarrow> (None, q\<lparr>q_holds := fmdrop rid (q_holds q)\<rparr>))"

definition removeBackoffLocked :: "string \<Rightarrow> DurableQueue \<Rightarrow> queueError option \<times> DurableQueue" where
  "removeBackoffLocked rid q =
     (if fmlookup (q_backoffs q) rid = None then (None, q)
      else case remove_sidecar (backoffFilePrefix @ rid) q of
        (False, q) \<Rightarrow> (Some BackoffRemoval, q)
      | (True, q) \<Rightarrow> (None, q\<lparr>q_backoffs := fmdrop rid (q_backoffs q)\<rparr>))"

definition ClearBackoff :: "string \<Rightarrow> DurableQueue \<Rightarrow> queueError option \<times> DurableQueue" where
  "ClearBackoff rid q0 =
     (if fmlookup (q_backoffs q0) rid = None then (None, q0)
      else let (err, q) = removeBackoffLocked rid q0 in (err, noteStore (err \<noteq> None) q))"

section \<open>Retirement\<close>

text \<open>What \<open>removeLocked\<close> does once the record is surely off the disk.\<close>

definition forget_record :: "string \<Rightarrow> DurableQueue \<Rightarrow> DurableQueue" where
  "forget_record rid q =
     (let sz = fmget 0 (q_sizes q) rid;
          q1 = unindexLocked rid sz (q\<lparr>q_entries := fmdrop rid (q_entries q), q_sizes := fmdrop rid (q_sizes q)\<rparr>)
      in q1\<lparr>q_order := remove1 rid (q_order q1), q_bytes := q_bytes q1 - sz\<rparr>)"

definition removeLocked :: "string \<Rightarrow> DurableQueue \<Rightarrow> queueError option \<times> DurableQueue" where
  "removeLocked rid q =
     (case fmlookup (q_entries q) rid of
        None \<Rightarrow> (Some ArtifactNotFound, q)
      | Some r \<Rightarrow>
     (case removeHoldLocked rid q of (Some e, q) \<Rightarrow> (Some e, q)
      | (None, q) \<Rightarrow>
     (case removeBackoffLocked rid q of (Some e, q) \<Rightarrow> (Some e, q)
      | (None, q) \<Rightarrow>
     (case RemoveFile (record_name rid) (q_disk q) of
        (Removed, d) \<Rightarrow>
          (case SyncDirectory d of
             (True, d) \<Rightarrow> (None, forget_record rid (q\<lparr>q_disk := d\<rparr>))
           | (False, d) \<Rightarrow>
               (case writeRecord r (encode_record r) (q\<lparr>q_disk := d\<rparr>) of
                  (Some e, q) \<Rightarrow> (Some (RetirementRestore e), q)
                | (None, q) \<Rightarrow> (Some RetirementUnsynced, q)))
      | (_, d) \<Rightarrow> (Some Retirement, q\<lparr>q_disk := d\<rparr>)))))"

definition Remove :: "string \<Rightarrow> DurableQueue \<Rightarrow> queueError option \<times> DurableQueue" where
  "Remove rid q0 =
     (let (err, q) = removeLocked rid q0
      in (err, if err = Some ArtifactNotFound then q else noteStore (err \<noteq> None) q))"

section \<open>Probes and unconfigured devices\<close>

text \<open>\<open>body\<close> is the text of fresh random bytes and the time.\<close>

definition probe :: "string \<Rightarrow> DurableQueue \<Rightarrow> queueError option \<times> DurableQueue" where
  "probe body q =
     (case io (q_disk q) of
        (False, d) \<Rightarrow> (Some ProbeRead, q\<lparr>q_disk := d\<rparr>)
      | (True, d) \<Rightarrow>
          (case writeFileAtomicRaw probeFileName body (q\<lparr>q_disk := d\<rparr>) of
             (Some e, q) \<Rightarrow> (Some (ProbeWrite e), q)
           | (None, q) \<Rightarrow> (None, q)))"

definition Probe :: "string \<Rightarrow> DurableQueue \<Rightarrow> queueError option \<times> DurableQueue" where
  "Probe body q0 =
     (let (err, q) = probe body q0
      in (err, q\<lparr>q_faults := Note StoreUnavailable (q_faultSource q) (err \<noteq> None) (q_faults q)\<rparr>))"

definition Configured :: "string \<Rightarrow> DurableQueue \<Rightarrow> bool" where
  "Configured device q \<longleftrightarrow> (case q_configured q of None \<Rightarrow> True | Some ds \<Rightarrow> device |\<in>| ds)"

definition writeUnconfiguredLocked :: "DurableQueue \<Rightarrow> queueError option \<times> DurableQueue" where
  "writeUnconfiguredLocked q0 =
     (let devices = sorted_list_of_fset (q_unconfigured q0);
          encoded = print_json (unconfigured_json
            \<lparr>ur_V = unconfiguredFileVersion, ur_Devices = devices, ur_Overflow = q_unconfiguredOverflow q0\<rparr>)
      in if devices = [] \<and> \<not> q_unconfiguredOverflow q0
         then (case remove_sidecar unconfiguredFileName q0 of
                 (False, q) \<Rightarrow> (Some UnconfiguredRemoval, noteStore True q)
               | (True, q) \<Rightarrow> (None, q))
         else (case writeFileAtomic unconfiguredFileName encoded q0 of
                 (Some e, q) \<Rightarrow> (Some (StoreFailed e), q)
               | (None, q) \<Rightarrow> (None, q)))"

definition NoteUnconfiguredDevice :: "string \<Rightarrow> DurableQueue \<Rightarrow> queueError option \<times> DurableQueue" where
  "NoteUnconfiguredDevice device q0 =
     (let q = q0\<lparr>q_faults := Note DeviceUnconfigured devicesFaultSource True (q_faults q0)\<rparr>
      in if device |\<in>| q_unconfigured q then (None, q)
         else if fcard (q_unconfigured q) \<ge> maxUnconfiguredDevices \<or> \<not> ValidEvidenceRoutingDeviceID device
         then (if q_unconfiguredOverflow q then (None, q)
               else writeUnconfiguredLocked (q\<lparr>q_unconfiguredOverflow := True\<rparr>))
         else writeUnconfiguredLocked (q\<lparr>q_unconfigured := finsert device (q_unconfigured q)\<rparr>))"

definition NoteAdmittedDevice :: "string \<Rightarrow> DurableQueue \<Rightarrow> DurableQueue" where
  "NoteAdmittedDevice device q0 =
     (if device |\<notin>| q_unconfigured q0 then q0
      else case writeUnconfiguredLocked (q0\<lparr>q_unconfigured := q_unconfigured q0 |-| {|device|}\<rparr>) of
        (Some _, q) \<Rightarrow> q
      | (None, q) \<Rightarrow>
          if q_unconfigured q = {||} \<and> \<not> q_unconfiguredOverflow q
          then q\<lparr>q_faults := Note DeviceUnconfigured devicesFaultSource False (q_faults q)\<rparr> else q)"
end
