(* ===== verification/Queue_Open.thy ===== *)
theory Queue_Open
  imports Queue
begin

text \<open>
  Opening the durable queue, \<open>internal/evidence/courier/queue.go\<close>: the checks of the directory and its marker, the
  loading of every record, and of the holds, back-offs and unconfigured devices beside them. A file that is not what the
  queue wrote refuses the start.
\<close>

datatype openQueueError =
    MaxItemsNotPositive | MaxBytesNotPositive
  | SharesWithoutDevices | ShareTooSmall
  | DirectoryFailed | NotADirectory | DirectoryNotPrivate
  | NoMarker | MarkerFailed | InvalidMarker | MarkerMismatch
  | ReadDirFailed | TempRemoval | UnexpectedEntry
  | InspectFailed | NotRegularFile | NotPrivateFile | ReadFileFailed
  | CorruptRecord | InvalidRecord | IdentityMismatch | NameMismatch | DuplicateRecord | DuplicateSequence
  | ExceedsBounds
  | CorruptSidecar | SidecarNameMismatch | OrphanSidecar | InvalidSidecar
  | CorruptUnconfigured
  | AuthorityInOutbound | OutboundInAuthority

section \<open>The directory\<close>

text \<open>What is at the queue's path.\<close>

datatype dirPath = NoDir | DirAt fileKind bool

definition ensureQueueMarker :: "bool \<Rightarrow> disk \<Rightarrow> openQueueError option \<times> disk" where
  "ensureQueueMarker mayCreate d =
     (case fmlookup (dk_live d) queueMarkerName of
        None \<Rightarrow>
          if \<not> mayCreate then (Some NoMarker, d)
          else let (ok, d) = WriteFile queueMarkerName [] d
          in if \<not> ok then (Some MarkerFailed, d)
             else let (ok, d) = WriteFile queueMarkerName queueMarkerBody d
             in if \<not> ok then (Some MarkerFailed, snd (RemoveFile queueMarkerName d))
             else let (ok, d) = io d
             in if \<not> ok then (Some MarkerFailed, snd (RemoveFile queueMarkerName d))
             else let (ok, d) = io d
             in if \<not> ok then (Some MarkerFailed, snd (RemoveFile queueMarkerName d))
             else let (ok, d) = SyncDirectory d
             in if \<not> ok then (Some MarkerFailed, d) else (None, d)
      | Some e \<Rightarrow>
          let (ok, d) = io d
          in if \<not> ok \<or> de_kind e \<noteq> Regular \<or> \<not> de_private e then (Some InvalidMarker, d)
             else let (ok, d) = io d
             in if \<not> ok \<or> de_body e \<noteq> queueMarkerBody then (Some MarkerMismatch, d) else (None, d))"

text \<open>The queue's path before and after, and the directory. A directory that is missing is created with its marker; no
  other process creates it at the same time.\<close>

definition ensurePrivateQueueDirectory :: "dirPath \<Rightarrow> disk \<Rightarrow> openQueueError option \<times> dirPath \<times> disk" where
  "ensurePrivateQueueDirectory path d0 =
     (let (ok, d) = io d0
      in if \<not> ok then (Some DirectoryFailed, path, d)
         else case path of
           NoDir \<Rightarrow>
             (let (ok1, d) = io d; (ok2, d) = (if ok1 then io d else (False, d))
              in if \<not> (ok1 \<and> ok2) then (Some DirectoryFailed, NoDir, d)
                 else let path = DirAt Directory True; (ok3, d) = io d; (ok4, d) = (if ok3 then io d else (False, d))
                 in if \<not> (ok3 \<and> ok4) then (Some DirectoryFailed, path, d)
                    else let (e, d) = ensureQueueMarker True d in (e, path, d))
         | DirAt kind private \<Rightarrow>
             if kind \<noteq> Directory then (Some NotADirectory, path, d)
             else if \<not> private then (Some DirectoryNotPrivate, path, d)
             else let (e, d) = ensureQueueMarker False d in (e, path, d))"

section \<open>Loading\<close>

record loading =
  ld_queue :: DurableQueue
  ld_seen :: "int fset"
  ld_holds :: "string list"
  ld_backoffs :: "string list"
  ld_unconfigured :: bool

text \<open>\<open>lstat\<close> and \<open>ReadFile\<close> of a file that must be regular and private.\<close>

definition readPrivate :: "string \<Rightarrow> disk \<Rightarrow> (openQueueError + string) \<times> disk" where
  "readPrivate name d0 =
     (let (ok, d) = io d0
      in case fmlookup (dk_live d) name of
           None \<Rightarrow> (Inl InspectFailed, d)
         | Some e \<Rightarrow>
             if \<not> ok then (Inl InspectFailed, d)
             else if de_kind e \<noteq> Regular then (Inl NotRegularFile, d)
             else if \<not> de_private e then (Inl NotPrivateFile, d)
             else let (ok, d) = io d in if ok then (Inr (de_body e), d) else (Inl ReadFileFailed, d))"

definition record_check :: "string \<Rightarrow> string \<Rightarrow> loading \<Rightarrow> openQueueError + queueRecord" where
  "record_check name raw l =
     (case decode_record raw of
        None \<Rightarrow> Inl CorruptRecord
      | Some r \<Rightarrow>
          if qr_V r \<noteq> queueRecordVersion \<or> qr_QueueSeq r \<le> 0 \<or> qr_EnqueuedAtMS r \<le> 0
             \<or> \<not> validQueueArtifactType (qr_Type r) \<or> qr_Payload r = []
          then Inl InvalidRecord
          else if qr_ID r \<noteq> artifactID (qr_Type r) (qr_Payload r) then Inl IdentityMismatch
          else if name \<noteq> record_name (qr_ID r) then Inl NameMismatch
          else if fmlookup (q_entries (ld_queue l)) (qr_ID r) \<noteq> None then Inl DuplicateRecord
          else if qr_QueueSeq r |\<in>| ld_seen l then Inl DuplicateSequence
          else Inr r)"

definition load_record :: "queueRecord \<Rightarrow> int \<Rightarrow> loading \<Rightarrow> loading" where
  "load_record r sz l =
     (let q = ld_queue l;
          q1 = indexLocked r sz (q\<lparr>q_entries := fmupd (qr_ID r) r (q_entries q), q_sizes := fmupd (qr_ID r) sz (q_sizes q)\<rparr>)
      in l\<lparr>ld_seen := finsert (qr_QueueSeq r) (ld_seen l),
           ld_queue := q1\<lparr>q_order := q_order q1 @ [qr_ID r], q_bytes := q_bytes q1 + sz,
             q_nextSeq := (if qr_QueueSeq r \<ge> q_nextSeq q1 then wrap64 (qr_QueueSeq r + 1) else q_nextSeq q1)\<rparr>\<rparr>)"

definition load_entry :: "string \<Rightarrow> loading \<Rightarrow> openQueueError option \<times> loading" where
  "load_entry name l =
     (let q = ld_queue l; d = q_disk q
      in if name = queueMarkerName \<or> HasPrefix name FilePrefix \<or> name = probeFileName then (None, l)
         else if name = unconfiguredFileName then (None, l\<lparr>ld_unconfigured := True\<rparr>)
         else if HasPrefix name holdFilePrefix then (None, l\<lparr>ld_holds := ld_holds l @ [name]\<rparr>)
         else if HasPrefix name backoffFilePrefix then (None, l\<lparr>ld_backoffs := ld_backoffs l @ [name]\<rparr>)
         else if HasPrefix name queueTempPrefix
         then (case RemoveFile name d of
                 (Removed, d) \<Rightarrow> (None, l\<lparr>ld_queue := q\<lparr>q_disk := d\<rparr>\<rparr>)
               | (_, d) \<Rightarrow> (Some TempRemoval, l\<lparr>ld_queue := q\<lparr>q_disk := d\<rparr>\<rparr>))
         else if (case fmlookup (dk_live d) name of None \<Rightarrow> False | Some e \<Rightarrow> de_kind e = Directory)
                 \<or> \<not> HasSuffix name queueFileSuffix
         then (Some UnexpectedEntry, l)
         else (case readPrivate name d of
                 (Inl e, d) \<Rightarrow> (Some e, l\<lparr>ld_queue := q\<lparr>q_disk := d\<rparr>\<rparr>)
               | (Inr raw, d) \<Rightarrow>
                   let l = l\<lparr>ld_queue := q\<lparr>q_disk := d\<rparr>\<rparr>
                   in case record_check name raw l of
                        Inl e \<Rightarrow> (Some e, l)
                      | Inr r \<Rightarrow> (None, load_record r (int (length raw)) l)))"

fun load_entries :: "string list \<Rightarrow> loading \<Rightarrow> openQueueError option \<times> loading" where
  "load_entries [] l = (None, l)"
| "load_entries (n # ns) l =
     (case load_entry n l of (Some e, l) \<Rightarrow> (Some e, l) | (None, l) \<Rightarrow> load_entries ns l)"

fun loadHolds :: "string list \<Rightarrow> DurableQueue \<Rightarrow> openQueueError option \<times> DurableQueue" where
  "loadHolds [] q = (None, q)"
| "loadHolds (name # names) q =
     (let rid = TrimPrefix name holdFilePrefix
      in case readPrivate name (q_disk q) of
           (Inl e, d) \<Rightarrow> (Some e, q\<lparr>q_disk := d\<rparr>)
         | (Inr raw, d) \<Rightarrow>
             (let q = q\<lparr>q_disk := d\<rparr>
              in case decode_hold raw of
                   None \<Rightarrow> (Some CorruptSidecar, q)
                 | Some r \<Rightarrow>
                     if hr_QueueRecord r \<noteq> rid then (Some SidecarNameMismatch, q)
                     else (case fmlookup (q_entries q) rid of
                             None \<Rightarrow> (Some OrphanSidecar, q)
                           | Some queued \<Rightarrow>
                               if \<not> validateHoldRecord r queued then (Some InvalidSidecar, q)
                               else loadHolds names (q\<lparr>q_holds := fmupd rid r (q_holds q)\<rparr>))))"

fun loadBackoffs :: "string list \<Rightarrow> DurableQueue \<Rightarrow> openQueueError option \<times> DurableQueue" where
  "loadBackoffs [] q = (None, q)"
| "loadBackoffs (name # names) q =
     (let rid = TrimPrefix name backoffFilePrefix
      in case readPrivate name (q_disk q) of
           (Inl e, d) \<Rightarrow> (Some e, q\<lparr>q_disk := d\<rparr>)
         | (Inr raw, d) \<Rightarrow>
             (let q = q\<lparr>q_disk := d\<rparr>
              in case decode_backoff raw of
                   None \<Rightarrow> (Some CorruptSidecar, q)
                 | Some r \<Rightarrow>
                     if br_QueueRecord r \<noteq> rid then (Some SidecarNameMismatch, q)
                     else if fmlookup (q_entries q) rid = None then (Some OrphanSidecar, q)
                     else if \<not> validateBackoffRecord r then (Some InvalidSidecar, q)
                     else loadBackoffs names (q\<lparr>q_backoffs := fmupd rid r (q_backoffs q)\<rparr>)))"

definition loadUnconfigured :: "bool \<Rightarrow> DurableQueue \<Rightarrow> openQueueError option \<times> DurableQueue" where
  "loadUnconfigured present q =
     (if \<not> present then (None, q)
      else case readPrivate unconfiguredFileName (q_disk q) of
        (Inl e, d) \<Rightarrow> (Some e, q\<lparr>q_disk := d\<rparr>)
      | (Inr raw, d) \<Rightarrow>
          (let q = q\<lparr>q_disk := d\<rparr>
           in case decode_unconfigured raw of
                None \<Rightarrow> (Some CorruptUnconfigured, q)
              | Some r \<Rightarrow>
                  if ur_V r \<noteq> unconfiguredFileVersion \<or> length (ur_Devices r) > maxUnconfiguredDevices
                     \<or> \<not> list_all ValidEvidenceRoutingDeviceID (ur_Devices r)
                  then (Some CorruptUnconfigured, q)
                  else let q1 = q\<lparr>q_unconfigured := q_unconfigured q |\<union>| fset_of_list (ur_Devices r),
                                  q_unconfiguredOverflow := ur_Overflow r\<rparr>
                  in (None, if q_unconfigured q1 \<noteq> {||} \<or> q_unconfiguredOverflow q1
                            then q1\<lparr>q_faults := Note DeviceUnconfigured devicesFaultSource True (q_faults q1)\<rparr> else q1)))"

definition load :: "DurableQueue \<Rightarrow> openQueueError option \<times> DurableQueue" where
  "load q0 =
     (let (ok, d) = io (q_disk q0); q = q0\<lparr>q_disk := d\<rparr>
      in if \<not> ok then (Some ReadDirFailed, q)
         else case load_entries (dir_names d)
                \<lparr>ld_queue = q, ld_seen = {||}, ld_holds = [], ld_backoffs = [], ld_unconfigured = False\<rparr> of
           (Some e, l) \<Rightarrow> (Some e, ld_queue l)
         | (None, l) \<Rightarrow>
             let q = sortOrder (ld_queue l)
             in if int (fmsize (q_entries q)) > q_maxItems q \<or> q_bytes q > q_maxBytes q then (Some ExceedsBounds, q)
                else case loadHolds (ld_holds l) q of (Some e, q) \<Rightarrow> (Some e, q)
                | (None, q) \<Rightarrow>
                    (case loadBackoffs (ld_backoffs l) q of (Some e, q) \<Rightarrow> (Some e, q)
                     | (None, q) \<Rightarrow> loadUnconfigured (ld_unconfigured l) q))"

section \<open>Opening\<close>

definition empty_queue :: "QueueOptions \<Rightarrow> disk \<Rightarrow> DurableQueue" where
  "empty_queue opts d =
     \<lparr>q_disk = d, q_maxItems = qo_MaxItems opts, q_maxBytes = qo_MaxBytes opts, q_reserved = False,
      q_versioned = fset_of_list (qo_VersionedDevices opts), q_entries = fmempty, q_holds = fmempty, q_backoffs = fmempty,
      q_sizes = fmempty, q_order = [], q_bytes = 0, q_nextSeq = 1, q_laneOf = fmempty, q_laneItems = fmempty,
      q_laneBytes = fmempty, q_deviceItems = fmempty, q_deviceBytes = fmempty,
      q_configured = (if qo_Devices opts = [] then None else Some (fset_of_list (qo_Devices opts))),
      q_shareItems = qo_MaxItems opts, q_shareBytes = qo_MaxBytes opts, q_faults = qo_Faults opts,
      q_faultSource = qo_FaultSource opts, q_unconfigured = {||}, q_unconfiguredOverflow = False\<rparr>"

text \<open>The shares of the devices: the length of a nil map is zero, and Go's division of positive numbers is \<open>div\<close>.\<close>

definition set_shares :: "QueueOptions \<Rightarrow> DurableQueue \<Rightarrow> openQueueError + DurableQueue" where
  "set_shares opts q =
     (if \<not> qo_ReserveDeviceShares opts then Inr q
      else case q_configured q of
        None \<Rightarrow> Inl SharesWithoutDevices
      | Some ds \<Rightarrow>
          (let n = int (fcard ds); items = qo_MaxItems opts div n; bs = qo_MaxBytes opts div n
           in if n = 0 then Inl SharesWithoutDevices
              else if items < MinDeviceShareItems \<or> bs < MinDeviceShareBytes then Inl ShareTooSmall
              else Inr (q\<lparr>q_reserved := True, q_shareItems := items, q_shareBytes := bs\<rparr>)))"

text \<open>The directory name is not part of the model. \<open>body\<close> is what the first probe writes.\<close>

definition openDurableQueue ::
  "QueueOptions \<Rightarrow> string \<Rightarrow> dirPath \<Rightarrow> disk \<Rightarrow> (openQueueError + DurableQueue) \<times> dirPath \<times> disk" where
  "openDurableQueue opts body path d =
     (if qo_MaxItems opts \<le> 0 then (Inl MaxItemsNotPositive, path, d)
      else if qo_MaxBytes opts \<le> 0 then (Inl MaxBytesNotPositive, path, d)
      else case ensurePrivateQueueDirectory path d of
        (Some e, path, d) \<Rightarrow> (Inl e, path, d)
      | (None, path, d) \<Rightarrow>
          (case set_shares opts (empty_queue opts d) of
             Inl e \<Rightarrow> (Inl e, path, d)
           | Inr q \<Rightarrow>
               (case load q of
                  (Some e, q) \<Rightarrow> (Inl e, path, q_disk q)
                | (None, q) \<Rightarrow> (let (_, q) = Probe body q in (Inr q, path, q_disk q)))))"

definition OpenDurableQueue ::
  "QueueOptions \<Rightarrow> string \<Rightarrow> dirPath \<Rightarrow> disk \<Rightarrow> (openQueueError + DurableQueue) \<times> dirPath \<times> disk" where
  "OpenDurableQueue opts body path d =
     (case openDurableQueue opts body path d of
        (Inl e, path, d) \<Rightarrow> (Inl e, path, d)
      | (Inr q, path, d) \<Rightarrow>
          if list_all (\<lambda>rid. validOutboundArtifactType (qr_Type (fmget zero_record (q_entries q) rid))) (q_order q)
          then (Inr q, path, d) else (Inl AuthorityInOutbound, path, d))"
end
