(* ===== verification/Queue_Inv.thy ===== *)
theory Queue_Inv
  imports Queue_Open "HOL-Library.Multiset"
begin

text \<open>
  The accounting of the durable queue: its counters are the counts and sums of its records, its order is the order of
  admission, and its bounds hold. Every operation keeps this.
\<close>

section \<open>Counters\<close>

text \<open>Two maps that count the items of a list under each key and sum their sizes, with no entry for a key that has no
  item.\<close>

definition counted :: "('i \<Rightarrow> 'k) \<Rightarrow> ('i \<Rightarrow> int) \<Rightarrow> 'i list \<Rightarrow> ('k, int) fmap \<Rightarrow> ('k, int) fmap \<Rightarrow> bool" where
  "counted f sz ids items bs \<longleftrightarrow>
     (\<forall>k. let own = filter (\<lambda>i. f i = k) ids
          in fmlookup items k = (if own = [] then None else Some (int (length own)))
             \<and> fmlookup bs k = (if own = [] then None else Some (sum_list (map sz own))))"

lemma counted_empty: "counted f sz [] fmempty fmempty"
  by (simp add: counted_def)

lemma counted_get:
  assumes "counted f sz ids items bs"
  shows "fmget 0 items k = int (length (filter (\<lambda>i. f i = k) ids))"
    "fmget 0 bs k = sum_list (map sz (filter (\<lambda>i. f i = k) ids))"
    "k |\<in>| fmdom items \<longleftrightarrow> k \<in> f ` set ids"
  using assms by (auto simp: counted_def Let_def fmget_def fmlookup_dom_iff filter_empty_conv split: if_splits)

lemma counted_cong:
  assumes "counted f sz ids items bs" "\<And>i. i \<in> set ids \<Longrightarrow> g i = f i" "\<And>i. i \<in> set ids \<Longrightarrow> sz' i = sz i"
  shows "counted g sz' ids items bs"
proof -
  have "filter (\<lambda>i. g i = k) ids = filter (\<lambda>i. f i = k) ids" for k
    using assms(2) by (intro filter_cong) auto
  moreover have "sum_list (map sz' (filter (\<lambda>i. f i = k) ids)) = sum_list (map sz (filter (\<lambda>i. f i = k) ids))" for k
    using assms(3) by (intro arg_cong [where f = sum_list] map_cong) auto
  ultimately show ?thesis using assms(1) by (simp add: counted_def Let_def)
qed

lemma counted_add:
  assumes "counted f sz ids items bs"
  shows "counted f sz (ids @ [i]) (fmupd (f i) (fmget 0 items (f i) + 1) items) (fmupd (f i) (fmget 0 bs (f i) + sz i) bs)"
  using assms counted_get [OF assms, of "f i"] by (simp add: counted_def Let_def)

lemma counted_perm:
  assumes "counted f sz ids items bs" "mset ids' = mset ids"
  shows "counted f sz ids' items bs"
proof -
  have m: "mset (filter P ids') = mset (filter P ids)" for P using assms(2) by (simp add: mset_filter)
  have "length (filter P ids') = length (filter P ids)" for P using m by (metis size_mset)
  moreover have "sum_list (map sz (filter P ids')) = sum_list (map sz (filter P ids))" for P
    using m by (metis mset_map sum_mset_sum_list)
  moreover have "filter P ids' = [] \<longleftrightarrow> filter P ids = []" for P using m by (metis mset_zero_iff)
  ultimately show ?thesis using assms(1) by (simp add: counted_def Let_def)
qed

lemma counted_take:
  assumes "counted f sz ids items bs" "i \<in> set ids" "take_item (f i) (sz i) items bs = (items', bs')"
  shows "counted f sz (remove1 i ids) items' bs'"
proof -
  let ?own = "\<lambda>k. filter (\<lambda>j. f j = k) ids"
  have own: "filter (\<lambda>j. f j = k) (remove1 i ids) = (if k = f i then remove1 i (?own k) else ?own k)" for k
    by (simp add: filter_remove1 remove1_idem)
  have i: "i \<in> set (?own (f i))" using assms(2) by simp
  then have len: "length (remove1 i (?own (f i))) = length (?own (f i)) - 1" "?own (f i) \<noteq> []"
    by (auto simp: length_remove1 filter_empty_conv)
  have sum: "sum_list (map sz (remove1 i (?own (f i)))) = sum_list (map sz (?own (f i))) - sz i"
    using sum_list_map_remove1 [OF i, of sz] by simp
  have pos: "0 < length (?own (f i))" using len(2) by simp
  have one: "length (?own (f i)) = 1 \<longleftrightarrow> remove1 i (?own (f i)) = []"
    unfolding length_0_conv [symmetric] len(1) using pos by arith
  note get = counted_get(1,2) [OF assms(1), of "f i"]
  show ?thesis
  proof (cases "length (?own (f i)) = 1")
    case True
    then have "items' = fmdrop (f i) items" "bs' = fmdrop (f i) bs"
      using assms(3) get by (simp_all add: take_item_def)
    then show ?thesis using assms(1) one True own by (auto simp: counted_def Let_def)
  next
    case False
    then have "length (?own (f i)) > 1" using pos by arith
    then have u: "items' = fmupd (f i) (fmget 0 items (f i) - 1) items" "bs' = fmupd (f i) (fmget 0 bs (f i) - sz i) bs"
      using assms(3) get by (simp_all add: take_item_def)
    show ?thesis
      unfolding counted_def Let_def
    proof (intro allI)
      fix k
      show "fmlookup items' k = (if filter (\<lambda>j. f j = k) (remove1 i ids) = [] then None
            else Some (int (length (filter (\<lambda>j. f j = k) (remove1 i ids)))))
          \<and> fmlookup bs' k = (if filter (\<lambda>j. f j = k) (remove1 i ids) = [] then None
            else Some (sum_list (map sz (filter (\<lambda>j. f j = k) (remove1 i ids)))))"
      proof (cases "k = f i")
        case True
        then show ?thesis
          using u get one False sum len \<open>length (?own (f i)) > 1\<close> own [of k] by (simp add: of_nat_diff)
      next
        case ne: False
        then show ?thesis using assms(1) u own [of k] by (simp add: counted_def Let_def)
      qed
    qed
  qed
qed

section \<open>The invariant\<close>

definition lane_key :: "DurableQueue \<Rightarrow> string \<Rightarrow> LaneKey" where
  "lane_key q rid = fmget ([], []) (q_laneOf q) rid"

definition size_of :: "DurableQueue \<Rightarrow> string \<Rightarrow> int" where
  "size_of q rid = fmget 0 (q_sizes q) rid"

definition seq_of :: "DurableQueue \<Rightarrow> string \<Rightarrow> int" where
  "seq_of q rid = qr_QueueSeq (fmget zero_record (q_entries q) rid)"

definition record_ok :: "string \<Rightarrow> queueRecord \<Rightarrow> bool" where
  "record_ok rid r \<longleftrightarrow> qr_V r = queueRecordVersion \<and> qr_ID r = rid \<and> rid = artifactID (qr_Type r) (qr_Payload r)
     \<and> validQueueArtifactType (qr_Type r) \<and> 0 < qr_QueueSeq r \<and> 0 < qr_EnqueuedAtMS r \<and> qr_Payload r \<noteq> []"

definition index_inv :: "DurableQueue \<Rightarrow> bool" where
  "index_inv q \<longleftrightarrow> distinct (q_order q) \<and> set (q_order q) = fmdom' (q_entries q)
     \<and> fmdom' (q_sizes q) = fmdom' (q_entries q) \<and> fmdom' (q_laneOf q) = fmdom' (q_entries q)
     \<and> (\<forall>rid r. fmlookup (q_entries q) rid = Some r \<longrightarrow>
          record_ok rid r \<and> fmlookup (q_laneOf q) rid = Some (recordLane r))"

definition sums_inv :: "DurableQueue \<Rightarrow> bool" where
  "sums_inv q \<longleftrightarrow> (\<forall>rid. 0 \<le> size_of q rid) \<and> q_bytes q = sum_list (map (size_of q) (q_order q))
     \<and> counted (lane_key q) (size_of q) (q_order q) (q_laneItems q) (q_laneBytes q)
     \<and> counted (\<lambda>rid. fst (lane_key q rid)) (size_of q) (q_order q) (q_deviceItems q) (q_deviceBytes q)"

definition order_inv :: "DurableQueue \<Rightarrow> bool" where
  "order_inv q \<longleftrightarrow> sorted_wrt (\<lambda>a b. seq_of q a < seq_of q b) (q_order q)
     \<and> (\<forall>rid \<in> set (q_order q). seq_of q rid < q_nextSeq q) \<and> 0 < q_nextSeq q"

definition bounds_inv :: "DurableQueue \<Rightarrow> bool" where
  "bounds_inv q \<longleftrightarrow> int (fmsize (q_entries q)) \<le> q_maxItems q \<and> q_bytes q \<le> q_maxBytes q"

definition sidecar_inv :: "DurableQueue \<Rightarrow> bool" where
  "sidecar_inv q \<longleftrightarrow>
     (\<forall>rid h. fmlookup (q_holds q) rid = Some h \<longrightarrow>
        (\<exists>r. fmlookup (q_entries q) rid = Some r \<and> validateHoldRecord h r))
     \<and> (\<forall>rid b. fmlookup (q_backoffs q) rid = Some b \<longrightarrow>
        fmlookup (q_entries q) rid \<noteq> None \<and> validateBackoffRecord b \<and> br_QueueRecord b = rid)"

definition queue_inv :: "DurableQueue \<Rightarrow> bool" where
  "queue_inv q \<longleftrightarrow> index_inv q \<and> sums_inv q \<and> order_inv q \<and> bounds_inv q \<and> sidecar_inv q"

text \<open>The part of the state the accounting is about; the other part is the directory, the faults and the sidecars.\<close>

definition core where
  "core q = ((q_entries q, q_sizes q, q_order q, q_bytes q, q_nextSeq q, q_laneOf q),
     (q_laneItems q, q_laneBytes q, q_deviceItems q, q_deviceBytes q),
     (q_configured q, q_shareItems q, q_shareBytes q, q_maxItems q, q_maxBytes q, q_reserved q))"

lemma core_eq:
  assumes "core q' = core q"
  shows "q_entries q' = q_entries q" "q_sizes q' = q_sizes q" "q_order q' = q_order q" "q_bytes q' = q_bytes q"
    "q_nextSeq q' = q_nextSeq q" "q_laneOf q' = q_laneOf q" "q_laneItems q' = q_laneItems q"
    "q_laneBytes q' = q_laneBytes q" "q_deviceItems q' = q_deviceItems q" "q_deviceBytes q' = q_deviceBytes q"
    "q_configured q' = q_configured q" "q_shareItems q' = q_shareItems q" "q_shareBytes q' = q_shareBytes q"
    "q_maxItems q' = q_maxItems q" "q_maxBytes q' = q_maxBytes q" "q_reserved q' = q_reserved q"
  using assms by (simp_all add: core_def)

lemma core_update [simp]:
  "core (q\<lparr>q_disk := d\<rparr>) = core q" "core (q\<lparr>q_faults := f\<rparr>) = core q" "core (q\<lparr>q_holds := h\<rparr>) = core q"
  "core (q\<lparr>q_backoffs := b\<rparr>) = core q" "core (q\<lparr>q_unconfigured := u\<rparr>) = core q"
  "core (q\<lparr>q_unconfiguredOverflow := v\<rparr>) = core q"
  by (simp_all add: core_def)

lemma core_views:
  assumes "core q' = core q"
  shows "lane_key q' = lane_key q" "size_of q' = size_of q" "seq_of q' = seq_of q"
  using core_eq [OF assms] by (simp_all add: lane_key_def size_of_def seq_of_def fun_eq_iff)

lemma core_inv:
  assumes "core q' = core q"
  shows "index_inv q' = index_inv q" "sums_inv q' = sums_inv q" "order_inv q' = order_inv q" "bounds_inv q' = bounds_inv q"
  using core_eq [OF assms] core_views [OF assms]
  by (simp_all add: index_inv_def sums_inv_def order_inv_def bounds_inv_def)

section \<open>Committing and forgetting a record\<close>

lemma sorted_pairs: "sorted_wrt (\<lambda>a b. f a < f b) xs \<Longrightarrow> sorted (map (\<lambda>x. (f x :: int, g x :: string)) xs)"
  by (induction xs) (auto simp: less_eq_prod_def)

lemma commit_fields:
  assumes "qr_ID r = rid"
  shows "q_entries (commit_record r sz q) = fmupd rid r (q_entries q)" "q_sizes (commit_record r sz q) = fmupd rid sz (q_sizes q)"
    "q_laneOf (commit_record r sz q) = fmupd rid (recordLane r) (q_laneOf q)"
    "q_order (commit_record r sz q) = sort_key (order_key (fmupd rid r (q_entries q))) (q_order q @ [rid])"
    "q_bytes (commit_record r sz q) = q_bytes q + sz" "q_nextSeq (commit_record r sz q) = wrap64 (q_nextSeq q + 1)"
    "q_holds (commit_record r sz q) = q_holds q" "q_backoffs (commit_record r sz q) = q_backoffs q"
    "q_maxItems (commit_record r sz q) = q_maxItems q" "q_maxBytes (commit_record r sz q) = q_maxBytes q"
    "q_disk (commit_record r sz q) = q_disk q" "q_faults (commit_record r sz q) = q_faults q"
    "q_configured (commit_record r sz q) = q_configured q" "q_reserved (commit_record r sz q) = q_reserved q"
    "q_shareItems (commit_record r sz q) = q_shareItems q" "q_shareBytes (commit_record r sz q) = q_shareBytes q"
    "q_laneItems (commit_record r sz q) = fmupd (recordLane r) (fmget 0 (q_laneItems q) (recordLane r) + 1) (q_laneItems q)"
    "q_laneBytes (commit_record r sz q) = fmupd (recordLane r) (fmget 0 (q_laneBytes q) (recordLane r) + sz) (q_laneBytes q)"
    "q_deviceItems (commit_record r sz q) =
       fmupd (fst (recordLane r)) (fmget 0 (q_deviceItems q) (fst (recordLane r)) + 1) (q_deviceItems q)"
    "q_deviceBytes (commit_record r sz q) =
       fmupd (fst (recordLane r)) (fmget 0 (q_deviceBytes q) (fst (recordLane r)) + sz) (q_deviceBytes q)"
  using assms by (simp_all add: commit_record_def indexLocked_def sortOrder_def Let_def)

lemma not_in_order: "index_inv q \<Longrightarrow> fmlookup (q_entries q) rid = None \<Longrightarrow> rid \<notin> set (q_order q)"
  by (auto simp: index_inv_def fmdom'_notI)

lemma commit_order:
  assumes "index_inv q" "order_inv q" "fmlookup (q_entries q) rid = None" "qr_ID r = rid" "qr_QueueSeq r = q_nextSeq q"
  shows "q_order (commit_record r sz q) = q_order q @ [rid]"
    "sorted_wrt (\<lambda>a b. seq_of (commit_record r sz q) a < seq_of (commit_record r sz q) b) (q_order q @ [rid])"
    "\<And>i. i \<in> set (q_order q) \<Longrightarrow> seq_of (commit_record r sz q) i = seq_of q i"
proof -
  let ?c = "commit_record r sz q"
  have new: "rid \<notin> set (q_order q)" using not_in_order assms by blast
  show same: "\<And>i. i \<in> set (q_order q) \<Longrightarrow> seq_of ?c i = seq_of q i"
    using new assms(4) by (auto simp: seq_of_def commit_fields)
  have last: "seq_of ?c rid = q_nextSeq q" using assms(4,5) by (simp add: seq_of_def commit_fields)
  have "sorted_wrt (\<lambda>a b. seq_of ?c a < seq_of ?c b) (q_order q)"
    by (rule sorted_wrt_mono_rel [of "q_order q" "\<lambda>a b. seq_of q a < seq_of q b"])
      (use assms(2) same in \<open>simp_all add: order_inv_def\<close>)
  then show s: "sorted_wrt (\<lambda>a b. seq_of ?c a < seq_of ?c b) (q_order q @ [rid])"
    using assms(2) same last by (auto simp: sorted_wrt_append order_inv_def)
  have k: "order_key (fmupd rid r (q_entries q)) = (\<lambda>i. (seq_of ?c i, qr_ID (fmget zero_record (q_entries ?c) i)))"
    using assms(4) by (simp add: order_key_def seq_of_def commit_fields fun_eq_iff Let_def)
  have "sorted (map (order_key (fmupd rid r (q_entries q))) (q_order q @ [rid]))"
    unfolding k by (rule sorted_pairs [OF s])
  then show "q_order ?c = q_order q @ [rid]"
    unfolding commit_fields [OF assms(4)] by (rule sort_key_id_if_sorted)
qed

text \<open>A record added at the end of the order, with its counts.\<close>

definition added :: "string \<Rightarrow> queueRecord \<Rightarrow> int \<Rightarrow> DurableQueue \<Rightarrow> DurableQueue \<Rightarrow> bool" where
  "added rid r sz q q' \<longleftrightarrow> q_entries q' = fmupd rid r (q_entries q) \<and> q_sizes q' = fmupd rid sz (q_sizes q)
     \<and> q_laneOf q' = fmupd rid (recordLane r) (q_laneOf q) \<and> q_order q' = q_order q @ [rid] \<and> q_bytes q' = q_bytes q + sz
     \<and> q_laneItems q' = fmupd (recordLane r) (fmget 0 (q_laneItems q) (recordLane r) + 1) (q_laneItems q)
     \<and> q_laneBytes q' = fmupd (recordLane r) (fmget 0 (q_laneBytes q) (recordLane r) + sz) (q_laneBytes q)
     \<and> q_deviceItems q' = fmupd (fst (recordLane r)) (fmget 0 (q_deviceItems q) (fst (recordLane r)) + 1) (q_deviceItems q)
     \<and> q_deviceBytes q' = fmupd (fst (recordLane r)) (fmget 0 (q_deviceBytes q) (fst (recordLane r)) + sz) (q_deviceBytes q)"

lemma added_inv:
  assumes a: "added rid r sz q q'" and inv: "index_inv q" "sums_inv q"
    and new: "fmlookup (q_entries q) rid = None" and r: "record_ok rid r" and sz: "0 \<le> sz"
  shows "index_inv q'" "sums_inv q'"
proof -
  have nin: "rid \<notin> set (q_order q)" using not_in_order inv(1) new by blast
  show "index_inv q'" using a inv(1) r nin by (auto simp: index_inv_def added_def)
  have old: "lane_key q' i = lane_key q i" "size_of q' i = size_of q i" if "i \<in> set (q_order q)" for i
    using that nin a by (auto simp: lane_key_def size_of_def added_def)
  have own: "lane_key q' rid = recordLane r" "size_of q' rid = sz"
    using a by (simp_all add: lane_key_def size_of_def added_def)
  have "counted (lane_key q') (size_of q') (q_order q) (q_laneItems q) (q_laneBytes q)"
    using inv(2) old by (auto simp: sums_inv_def intro: counted_cong)
  from counted_add [OF this, of rid]
  have 1: "counted (lane_key q') (size_of q') (q_order q @ [rid]) (q_laneItems q') (q_laneBytes q')"
    using a by (simp add: added_def own)
  have "counted (\<lambda>i. fst (lane_key q' i)) (size_of q') (q_order q) (q_deviceItems q) (q_deviceBytes q)"
    using inv(2) old by (auto simp: sums_inv_def intro: counted_cong)
  from counted_add [OF this, of rid]
  have 2: "counted (\<lambda>i. fst (lane_key q' i)) (size_of q') (q_order q @ [rid]) (q_deviceItems q') (q_deviceBytes q')"
    using a by (simp add: added_def own)
  have "sum_list (map (size_of q') (q_order q)) = sum_list (map (size_of q) (q_order q))"
    using old by (intro arg_cong [where f = sum_list] map_cong) auto
  then have "q_bytes q' = sum_list (map (size_of q') (q_order q @ [rid]))"
    using inv(2) a by (simp add: sums_inv_def added_def own)
  moreover have "\<forall>i. 0 \<le> size_of q' i"
    using inv(2) sz a by (simp add: sums_inv_def size_of_def added_def)
  ultimately show "sums_inv q'" using 1 2 a by (simp add: sums_inv_def added_def)
qed

lemma commit_inv:
  assumes inv: "queue_inv q" and new: "fmlookup (q_entries q) rid = None" and r: "record_ok rid r" "qr_QueueSeq r = q_nextSeq q"
    and room: "int (fmsize (q_entries q)) < q_maxItems q" "q_bytes q + sz \<le> q_maxBytes q" "q_nextSeq q < maxInt64"
    and sz: "0 \<le> sz"
  shows "queue_inv (commit_record r sz q)"
proof -
  let ?c = "commit_record r sz q"
  have parts: "index_inv q" "sums_inv q" "order_inv q" "bounds_inv q" "sidecar_inv q" using inv by (auto simp: queue_inv_def)
  have rid: "qr_ID r = rid" using r by (simp add: record_ok_def)
  note ord = commit_order [OF parts(1,3) new rid r(2)]
  have pos: "0 < q_nextSeq q" using parts(3) by (simp add: order_inv_def)
  then have nxt: "q_nextSeq ?c = q_nextSeq q + 1" using room(3) by (simp add: commit_fields [OF rid] minInt64_def)
  have "added rid r sz q ?c" unfolding added_def ord(1) by (simp add: commit_fields [OF rid])
  then have "index_inv ?c" "sums_inv ?c" using added_inv parts(1,2) new r(1) sz by blast+
  moreover have "order_inv ?c"
    unfolding order_inv_def ord(1)
    using ord(2,3) parts(3) nxt pos r(2) by (auto simp: order_inv_def seq_of_def commit_fields [OF rid])
  moreover have "bounds_inv ?c"
    using room new by (simp add: bounds_inv_def commit_fields [OF rid] fmsize_upd)
  moreover have "sidecar_inv ?c"
    using parts(5) new by (fastforce simp: sidecar_inv_def commit_fields [OF rid])
  ultimately show ?thesis by (simp add: queue_inv_def)
qed

lemma forget_fields:
  "q_entries (forget_record rid q) = fmdrop rid (q_entries q)" "q_sizes (forget_record rid q) = fmdrop rid (q_sizes q)"
  "q_laneOf (forget_record rid q) = fmdrop rid (q_laneOf q)" "q_order (forget_record rid q) = remove1 rid (q_order q)"
  "q_bytes (forget_record rid q) = q_bytes q - size_of q rid" "q_nextSeq (forget_record rid q) = q_nextSeq q"
  "q_holds (forget_record rid q) = q_holds q" "q_backoffs (forget_record rid q) = q_backoffs q"
  "q_maxItems (forget_record rid q) = q_maxItems q" "q_maxBytes (forget_record rid q) = q_maxBytes q"
  "q_disk (forget_record rid q) = q_disk q" "q_faults (forget_record rid q) = q_faults q"
  "q_configured (forget_record rid q) = q_configured q" "q_reserved (forget_record rid q) = q_reserved q"
  "q_shareItems (forget_record rid q) = q_shareItems q" "q_shareBytes (forget_record rid q) = q_shareBytes q"
  "(q_laneItems (forget_record rid q), q_laneBytes (forget_record rid q)) =
     take_item (lane_key q rid) (size_of q rid) (q_laneItems q) (q_laneBytes q)"
  "(q_deviceItems (forget_record rid q), q_deviceBytes (forget_record rid q)) =
     take_item (fst (lane_key q rid)) (size_of q rid) (q_deviceItems q) (q_deviceBytes q)"
  by (simp_all add: forget_record_def unindexLocked_def Let_def lane_key_def size_of_def split: prod.splits)

lemma forget_inv:
  assumes inv: "queue_inv q" and r: "fmlookup (q_entries q) rid = Some r"
    and bare: "fmlookup (q_holds q) rid = None" "fmlookup (q_backoffs q) rid = None"
  shows "queue_inv (forget_record rid q)"
proof -
  let ?f = "forget_record rid q"
  have parts: "index_inv q" "sums_inv q" "order_inv q" "bounds_inv q" "sidecar_inv q" using inv by (auto simp: queue_inv_def)
  have in_order: "rid \<in> set (q_order q)" and dist: "distinct (q_order q)" using parts(1) r by (auto simp: index_inv_def fmdom'I)
  have size: "0 \<le> size_of q rid" using parts(2) by (simp add: sums_inv_def)
  have set: "set (remove1 rid (q_order q)) = set (q_order q) - {rid}" using dist by simp
  have same: "lane_key ?f i = lane_key q i" "size_of ?f i = size_of q i" "seq_of ?f i = seq_of q i"
    if "i \<in> set (remove1 rid (q_order q))" for i
    using that set by (auto simp: lane_key_def size_of_def seq_of_def forget_fields)
  have "index_inv ?f"
    using parts(1) dist by (auto simp: index_inv_def forget_fields)
  moreover have "order_inv ?f"
  proof -
    have "sorted_wrt (\<lambda>a b. seq_of q a < seq_of q b) (remove1 rid (q_order q))"
      using parts(3) by (auto simp: order_inv_def distinct_remove1_removeAll [OF dist] removeAll_filter_not_eq sorted_wrt_filter)
    then have "sorted_wrt (\<lambda>a b. seq_of ?f a < seq_of ?f b) (remove1 rid (q_order q))"
      by (rule sorted_wrt_mono_rel [rotated]) (use same in simp)
    then show ?thesis using parts(3) same set by (auto simp: order_inv_def forget_fields)
  qed
  moreover have "bounds_inv ?f"
    using parts(4) fmsize_drop [OF r] size by (auto simp: bounds_inv_def forget_fields)
  moreover have "sidecar_inv ?f"
    using parts(5) bare by (fastforce simp: sidecar_inv_def forget_fields)
  moreover have "sums_inv ?f"
  proof -
    have c: "counted (lane_key q) (size_of q) (q_order q) (q_laneItems q) (q_laneBytes q)"
      "counted (\<lambda>i. fst (lane_key q i)) (size_of q) (q_order q) (q_deviceItems q) (q_deviceBytes q)"
      using parts(2) by (simp_all add: sums_inv_def)
    have "counted (lane_key q) (size_of q) (remove1 rid (q_order q)) (q_laneItems ?f) (q_laneBytes ?f)"
      by (rule counted_take [OF c(1) in_order forget_fields(17) [symmetric]])
    then have 1: "counted (lane_key ?f) (size_of ?f) (remove1 rid (q_order q)) (q_laneItems ?f) (q_laneBytes ?f)"
      by (rule counted_cong) (use same in auto)
    have "counted (\<lambda>i. fst (lane_key q i)) (size_of q) (remove1 rid (q_order q)) (q_deviceItems ?f) (q_deviceBytes ?f)"
      by (rule counted_take [OF c(2) in_order forget_fields(18) [symmetric]])
    then have 2: "counted (\<lambda>i. fst (lane_key ?f i)) (size_of ?f) (remove1 rid (q_order q)) (q_deviceItems ?f) (q_deviceBytes ?f)"
      by (rule counted_cong) (use same in auto)
    have "sum_list (map (size_of ?f) (remove1 rid (q_order q))) = sum_list (map (size_of q) (remove1 rid (q_order q)))"
      using same by (intro arg_cong [where f = sum_list] map_cong) auto
    then have "q_bytes ?f = sum_list (map (size_of ?f) (remove1 rid (q_order q)))"
      using parts(2) sum_list_map_remove1 [OF in_order, of "size_of q"] by (simp add: sums_inv_def forget_fields)
    moreover have "\<forall>i. 0 \<le> size_of ?f i" using parts(2) by (simp add: sums_inv_def size_of_def forget_fields)
    ultimately show ?thesis using 1 2 by (simp add: sums_inv_def forget_fields(4))
  qed
  ultimately show ?thesis by (simp add: queue_inv_def)
qed

section \<open>Every operation keeps the invariant\<close>

text \<open>What a file write leaves alone.\<close>

definition frame where
  "frame q = (core q, q_holds q, q_backoffs q)"

lemma frame_update [simp]:
  "frame (q\<lparr>q_disk := d\<rparr>) = frame q" "frame (q\<lparr>q_faults := f\<rparr>) = frame q" "frame (q\<lparr>q_unconfigured := u\<rparr>) = frame q"
  "frame (q\<lparr>q_unconfiguredOverflow := v\<rparr>) = frame q"
  by (simp_all add: frame_def)

lemma frame_core: "frame q' = frame q \<Longrightarrow> core q' = core q \<and> q_holds q' = q_holds q \<and> q_backoffs q' = q_backoffs q"
  by (simp add: frame_def)

lemma frame_inv:
  assumes "frame q' = frame q"
  shows "queue_inv q' = queue_inv q"
proof -
  have f: "core q' = core q" "q_holds q' = q_holds q" "q_backoffs q' = q_backoffs q" using frame_core [OF assms] by auto
  show ?thesis
    by (simp only: queue_inv_def sidecar_inv_def core_inv [OF f(1)] core_eq(1) [OF f(1)] f(2,3))
qed

lemma noteStore_frame [simp]: "frame (noteStore b q) = frame q" "q_disk (noteStore b q) = q_disk q"
  by (simp_all add: noteStore_def)

lemma writeFileAtomicRaw_frame:
  "writeFileAtomicRaw name body q = (e, q') \<Longrightarrow> frame q' = frame q \<and> write_atomic queueTempPrefix name body (q_disk q) = (e, q_disk q')"
  by (auto simp: writeFileAtomicRaw_def split: prod.splits)

lemma writeFileAtomic_frame:
  "writeFileAtomic name body q = (e, q') \<Longrightarrow> frame q' = frame q \<and> write_atomic queueTempPrefix name body (q_disk q) = (e, q_disk q')"
  by (auto simp: writeFileAtomic_def split: prod.splits dest!: writeFileAtomicRaw_frame)

lemma remove_sidecar_frame: "remove_sidecar name q = (ok, q') \<Longrightarrow> frame q' = frame q"
  by (auto simp: remove_sidecar_def split: prod.splits removeResult.splits)

lemma not_configured: "(case q_configured q of None \<Rightarrow> False | Some ds \<Rightarrow> d |\<notin>| ds) = (\<not> Configured d q)"
  by (auto simp: Configured_def split: option.splits)

text \<open>An insertion is refused or commits a new record that fits.\<close>

lemma insertLocked_cases:
  assumes "insertLocked kind payload rid now q = (res, q')"
  obtains (refused) e where "res = Inl e" "frame q' = frame q"
  | (inserted) r sz q1 where "res = Inr (recordArtifact r)" "r = new_record kind payload rid now q"
      "sz = int (length (encode_record r))" "q' = commit_record r sz q1" "frame q1 = frame q"
      "write_atomic queueTempPrefix (record_name rid) (encode_record r) (q_disk q) = (None, q_disk q1)"
      "0 < now" "int (fmsize (q_entries q)) < q_maxItems q" "q_bytes q + sz \<le> q_maxBytes q"
      "laneShareRefusalLocked (recordDevice payload, LaneOf kind) 0 q = None"
      "laneShareRefusalLocked (recordDevice payload, LaneOf kind) sz q = None"
      "Configured (recordDevice payload) q"
proof (cases res)
  case (Inl e)
  then have "frame q' = frame q"
    using assms
    by (auto simp: insertLocked_def Let_def writeRecord_def split: option.splits if_splits prod.splits dest!: writeFileAtomic_frame)
  then show ?thesis using refused Inl by blast
next
  case (Inr a)
  define r where "r = new_record kind payload rid now q"
  define sz where "sz = int (length (encode_record r))"
  have "qr_ID r = rid" by (simp add: r_def new_record_def)
  note e = assms [unfolded insertLocked_def not_configured Let_def, folded r_def, folded sz_def] Inr
  have g6: "Configured (recordDevice payload) q" by (rule ccontr) (use e in simp)
  have g2: "int (fmsize (q_entries q)) < q_maxItems q" by (rule ccontr) (use e g6 in simp)
  have g4: "laneShareRefusalLocked (recordDevice payload, LaneOf kind) 0 q = None"
    using e g6 g2 by (cases "laneShareRefusalLocked (recordDevice payload, LaneOf kind) 0 q") simp_all
  have g1: "0 < now" by (rule ccontr) (use e g6 g2 g4 in simp)
  have g3: "q_bytes q + sz \<le> q_maxBytes q" by (rule ccontr) (use e g6 g2 g4 g1 in simp)
  have g5: "laneShareRefusalLocked (recordDevice payload, LaneOf kind) sz q = None"
    using e g6 g2 g4 g1 g3 by (cases "laneShareRefusalLocked (recordDevice payload, LaneOf kind) sz q") simp_all
  obtain err q1 where w0: "writeRecord r (encode_record r) q = (err, q1)" by fastforce
  have q1: "writeRecord r (encode_record r) q = (None, q1)" "q' = commit_record r sz q1" "a = recordArtifact r"
    using e g6 g2 g4 g1 g3 g5 w0 by (cases err; simp)+
  have w: "frame q1 = frame q"
    "write_atomic queueTempPrefix (record_name rid) (encode_record r) (q_disk q) = (None, q_disk q1)"
    using writeFileAtomic_frame [OF q1(1) [unfolded writeRecord_def]] \<open>qr_ID r = rid\<close> by auto
  show ?thesis
    by (rule inserted [OF _ r_def sz_def q1(2) w g1 g2 g3 g4 g5 g6]) (simp_all add: Inr q1(3))
qed

lemma enqueueOrFind_cases:
  assumes "enqueueOrFind kind payload now q = (res, q')"
  obtains (refused) e where "res = Inl e" "frame q' = frame q"
  | (existing) r where "res = Inr (recordArtifact r, True)" "q' = q" "fmlookup (q_entries q) (artifactID kind payload) = Some r"
      "validQueueArtifactType kind" "payload \<noteq> []"
  | (inserted) r sz q1 where "res = Inr (recordArtifact r, False)" "r = new_record kind payload (artifactID kind payload) now q"
      "fmlookup (q_entries q) (artifactID kind payload) = None" "validQueueArtifactType kind" "payload \<noteq> []"
      "sz = int (length (encode_record r))" "q' = commit_record r sz q1" "frame q1 = frame q"
      "write_atomic queueTempPrefix (record_name (artifactID kind payload)) (encode_record r) (q_disk q) = (None, q_disk q1)"
      "0 < now" "int (fmsize (q_entries q)) < q_maxItems q" "q_bytes q + sz \<le> q_maxBytes q"
      "laneShareRefusalLocked (recordDevice payload, LaneOf kind) 0 q = None"
      "laneShareRefusalLocked (recordDevice payload, LaneOf kind) sz q = None"
      "Configured (recordDevice payload) q"
proof (cases "validQueueArtifactType kind \<and> payload \<noteq> []")
  case False
  then show ?thesis using assms refused by (auto simp: enqueueOrFind_def split: if_splits)
next
  case True
  show ?thesis
  proof (cases "fmlookup (q_entries q) (artifactID kind payload)")
    case (Some r)
    then show ?thesis using assms True existing by (auto simp: enqueueOrFind_def Let_def)
  next
    case None
    obtain ires where i: "insertLocked kind payload (artifactID kind payload) now q = (ires, q')"
        "res = (case ires of Inl e \<Rightarrow> Inl e | Inr a \<Rightarrow> Inr (a, False))"
      using assms True None by (auto simp: enqueueOrFind_def Let_def split: prod.splits sum.splits)
    from i(1) show ?thesis
    proof (cases rule: insertLocked_cases)
      case refused
      then show ?thesis using i(2) that(1) by simp
    next
      case (inserted r sz q1)
      then show ?thesis using i(2) True None that(3) by simp
    qed
  qed
qed

lemma new_record_ok:
  "queue_inv q \<Longrightarrow> validQueueArtifactType kind \<Longrightarrow> payload \<noteq> [] \<Longrightarrow> 0 < now \<Longrightarrow>
     record_ok (artifactID kind payload) (new_record kind payload (artifactID kind payload) now q)"
  by (simp add: record_ok_def new_record_def queue_inv_def order_inv_def)

lemma enqueueOrFind_inv [inv_rules]:
  assumes "queue_inv q" "q_nextSeq q < maxInt64" "enqueueOrFind kind payload now q = (res, q')"
  shows "queue_inv q'"
  using assms(3)
proof (cases rule: enqueueOrFind_cases)
  case (inserted r sz q1)
  have c: "core q1 = core q" "queue_inv q1" using inserted(8) frame_core frame_inv assms(1) by blast+
  have "queue_inv (commit_record r sz q1)"
    by (rule commit_inv [OF c(2), of "artifactID kind payload"])
      (use inserted assms(2) core_eq [OF c(1)] new_record_ok [OF assms(1)] in \<open>simp_all add: new_record_def\<close>)
  then show ?thesis using inserted by simp
next
  case refused
  then show ?thesis using assms(1) frame_inv by blast
next
  case existing
  then show ?thesis using assms(1) by simp
qed

text \<open>Removing sidecars.\<close>

lemma fmdrop_None: "fmlookup m k = None \<Longrightarrow> fmdrop k m = m"
  by (rule fmap_ext) simp

lemma removeHoldLocked_cases:
  assumes "removeHoldLocked rid q = (e, q')"
  shows "core q' = core q" "q_backoffs q' = q_backoffs q"
    "q_holds q' = (if e = None then fmdrop rid (q_holds q) else q_holds q)"
  using assms by (auto simp: removeHoldLocked_def fmdrop_None split: if_splits prod.splits bool.splits
      dest!: remove_sidecar_frame frame_core)

lemma removeBackoffLocked_cases:
  assumes "removeBackoffLocked rid q = (e, q')"
  shows "core q' = core q" "q_holds q' = q_holds q"
    "q_backoffs q' = (if e = None then fmdrop rid (q_backoffs q) else q_backoffs q)"
  using assms by (auto simp: removeBackoffLocked_def fmdrop_None split: if_splits prod.splits bool.splits
      dest!: remove_sidecar_frame frame_core)

lemma fewer_sidecars:
  assumes "queue_inv q" "core q' = core q" "q_holds q' = q_holds q \<or> q_holds q' = fmdrop rid (q_holds q)"
    "q_backoffs q' = q_backoffs q \<or> q_backoffs q' = fmdrop rid (q_backoffs q)"
  shows "queue_inv q'"
proof -
  have h: "fmlookup (q_holds q') i = Some x \<Longrightarrow> fmlookup (q_holds q) i = Some x" for i x
    using assms(3) by (auto split: if_splits)
  have b: "fmlookup (q_backoffs q') i = Some x \<Longrightarrow> fmlookup (q_backoffs q) i = Some x" for i x
    using assms(4) by (auto split: if_splits)
  have "sidecar_inv q'"
    using assms(1) h b unfolding queue_inv_def sidecar_inv_def core_eq(1) [OF assms(2)] by blast
  then show ?thesis using assms(1) core_inv [OF assms(2)] by (simp add: queue_inv_def)
qed

text \<open>A retirement fails and keeps the record, or forgets it after the file was surely removed.\<close>

lemma removeLocked_cases:
  assumes "removeLocked rid q = (err, q')" and inv: "queue_inv q"
  obtains (missing) "err = Some ArtifactNotFound" "q' = q" "fmlookup (q_entries q) rid = None"
  | (kept) e r where "err = Some e" "e \<noteq> ArtifactNotFound" "core q' = core q" "queue_inv q'" "fmlookup (q_entries q) rid = Some r"
  | (forgotten) r q1 d1 d2 where "err = None" "q' = forget_record rid q1" "core q1 = core q" "queue_inv q1" "queue_inv q'"
      "fmlookup (q_entries q) rid = Some r"
      "RemoveFile (record_name rid) d1 = (Removed, d2)" "SyncDirectory d2 = (True, q_disk q1)"
proof (cases "fmlookup (q_entries q) rid")
  case None
  then show ?thesis using assms missing by (simp add: removeLocked_def)
next
  case (Some r)
  obtain e1 qh where h: "removeHoldLocked rid q = (e1, qh)" by fastforce
  note hc = removeHoldLocked_cases [OF h]
  have ih: "queue_inv qh" by (rule fewer_sidecars [OF inv hc(1), where rid = rid]) (use hc in auto)
  show ?thesis
  proof (cases e1)
    case (Some x)
    then have "err = Some HoldRemoval" "q' = qh"
      using assms(1) h \<open>fmlookup (q_entries q) rid = Some r\<close>
      by (auto simp: removeLocked_def removeHoldLocked_def split: if_splits prod.splits bool.splits)
    then show ?thesis using kept [of HoldRemoval r] hc(1) ih \<open>fmlookup (q_entries q) rid = Some r\<close> by simp
  next
    case None
    obtain e2 qb where b: "removeBackoffLocked rid qh = (e2, qb)" by fastforce
    note bc = removeBackoffLocked_cases [OF b]
    have cb: "core qb = core q" using bc(1) hc(1) by simp
    have ib: "queue_inv qb" by (rule fewer_sidecars [OF ih bc(1), where rid = rid]) (use bc in auto)
    show ?thesis
    proof (cases e2)
      case (Some x)
      then have "err = Some BackoffRemoval" "q' = qb"
        using assms(1) h b None \<open>fmlookup (q_entries q) rid = Some r\<close>
        by (auto simp: removeLocked_def removeBackoffLocked_def split: if_splits prod.splits bool.splits)
      then show ?thesis using kept [of BackoffRemoval r] cb ib \<open>fmlookup (q_entries q) rid = Some r\<close> by simp
    next
      case n2: None
      obtain res d2 where rm: "RemoveFile (record_name rid) (q_disk qb) = (res, d2)" by fastforce
      obtain ok d3 where sy: "SyncDirectory d2 = (ok, d3)" by fastforce
      obtain e3 qr where wr: "writeRecord r (encode_record r) (qb\<lparr>q_disk := d3\<rparr>) = (e3, qr)" by fastforce
      have eq: "(err, q') =
        (case res of Removed \<Rightarrow>
           if ok then (None, forget_record rid (qb\<lparr>q_disk := d3\<rparr>))
           else (case e3 of Some e \<Rightarrow> (Some (RetirementRestore e), qr) | None \<Rightarrow> (Some RetirementUnsynced, qr))
         | _ \<Rightarrow> (Some Retirement, qb\<lparr>q_disk := d2\<rparr>))"
        using assms(1) \<open>fmlookup (q_entries q) rid = Some r\<close> h b None n2 rm sy wr
        by (simp add: removeLocked_def split: removeResult.splits option.splits bool.splits)
      have fr: "frame qr = frame qb" using writeFileAtomic_frame [OF wr [unfolded writeRecord_def]] by simp
      show ?thesis
      proof (cases "res = Removed \<and> ok")
        case True
        have "queue_inv (qb\<lparr>q_disk := d3\<rparr>)" using frame_inv [of "qb\<lparr>q_disk := d3\<rparr>" qb] ib by simp
        moreover from this have "queue_inv (forget_record rid (qb\<lparr>q_disk := d3\<rparr>))"
          by (rule forget_inv)
            (use \<open>fmlookup (q_entries q) rid = Some r\<close> core_eq(1) [OF cb] bc hc n2 None in simp_all)
        ultimately show ?thesis
          using eq True forgotten [of "qb\<lparr>q_disk := d3\<rparr>" r "q_disk qb" d2] rm sy cb \<open>fmlookup (q_entries q) rid = Some r\<close>
          by simp
      next
        case False
        then obtain e where "err = Some e" "e \<noteq> ArtifactNotFound" "frame q' = frame qb"
          using eq fr by (auto split: removeResult.splits option.splits if_splits)
        then show ?thesis
          using kept [of e r] frame_core [of q' qb] frame_inv [of q' qb] cb ib \<open>fmlookup (q_entries q) rid = Some r\<close> by simp
      qed
    qed
  qed
qed

lemma Remove_inv [inv_rules]: "queue_inv q \<Longrightarrow> Remove rid q = (err, q') \<Longrightarrow> queue_inv q'"
proof -
  assume inv: "queue_inv q" and r: "Remove rid q = (err, q')"
  obtain e q1 where l: "removeLocked rid q = (e, q1)" by fastforce
  have "queue_inv q1" using l inv by (cases rule: removeLocked_cases) (use inv in auto)
  moreover have "frame q' = frame q1" using r l by (auto simp: Remove_def split: if_splits)
  ultimately show "queue_inv q'" using frame_inv by blast
qed

lemma Queue_Hold_inv [inv_rules]: "queue_inv q \<Longrightarrow> Queue_Hold h q = (err, q') \<Longrightarrow> core q' = core q \<and> queue_inv q'"
proof -
  assume inv: "queue_inv q" and r: "Queue_Hold h q = (err, q')"
  define h1 where "h1 = h\<lparr>hr_V := holdRecordVersion\<rparr>"
  show ?thesis
  proof (cases "\<exists>x. fmlookup (q_entries q) (hr_QueueRecord h) = Some x \<and> validateHoldRecord h1 x")
    case False
    then have "q' = q" using r by (auto simp: Queue_Hold_def h1_def Let_def split: option.splits if_splits)
    then show ?thesis using inv by simp
  next
    case True
    then obtain x where x: "fmlookup (q_entries q) (hr_QueueRecord h) = Some x" "validateHoldRecord h1 x" by blast
    obtain e q1 where w: "writeFileAtomic (holdFilePrefix @ hr_QueueRecord h1) (print_json (hold_json h1)) q = (e, q1)" by fastforce
    have f: "frame q1 = frame q" using writeFileAtomic_frame [OF w] by simp
    note c = conjunct1 [OF frame_core [OF f]]
    have i1: "queue_inv q1" using frame_inv [OF f] inv by simp
    have q': "q' = (if e = None then q1\<lparr>q_holds := fmupd (hr_QueueRecord h1) h1 (q_holds q1)\<rparr> else q1)"
      using r x w by (auto simp: Queue_Hold_def h1_def Let_def split: option.splits)
    have "sidecar_inv (q1\<lparr>q_holds := fmupd (hr_QueueRecord h1) h1 (q_holds q1)\<rparr>)"
      using i1 x core_eq(1) [OF c] by (auto simp: queue_inv_def sidecar_inv_def h1_def)
    then show ?thesis
      using q' i1 c core_inv [of "q1\<lparr>q_holds := fmupd (hr_QueueRecord h1) h1 (q_holds q1)\<rparr>" q1] by (auto simp: queue_inv_def)
  qed
qed

lemma SetBackoff_inv [inv_rules]: "queue_inv q \<Longrightarrow> SetBackoff b q = (err, q') \<Longrightarrow> core q' = core q \<and> queue_inv q'"
proof -
  assume inv: "queue_inv q" and r: "SetBackoff b q = (err, q')"
  define b1 where "b1 = b\<lparr>br_V := (if br_RetryAfterMS b \<noteq> None then backoffRecordV2 else backoffRecordV1)\<rparr>"
  show ?thesis
  proof (cases "fmlookup (q_entries q) (br_QueueRecord b) \<noteq> None \<and> validateBackoffRecord b1")
    case False
    then have "q' = q" using r by (auto simp: SetBackoff_def b1_def Let_def split: if_splits)
    then show ?thesis using inv by simp
  next
    case True
    obtain e q1 where w: "writeFileAtomic (backoffFilePrefix @ br_QueueRecord b1) (print_json (backoff_json b1)) q = (e, q1)" by fastforce
    have f: "frame q1 = frame q" using writeFileAtomic_frame [OF w] by simp
    note c = conjunct1 [OF frame_core [OF f]]
    have i1: "queue_inv q1" using frame_inv [OF f] inv by simp
    have q': "q' = (if e = None then q1\<lparr>q_backoffs := fmupd (br_QueueRecord b1) b1 (q_backoffs q1)\<rparr> else q1)"
      using r True w unfolding SetBackoff_def b1_def [symmetric] by (auto simp: Let_def split: option.splits)
    have "sidecar_inv (q1\<lparr>q_backoffs := fmupd (br_QueueRecord b1) b1 (q_backoffs q1)\<rparr>)"
      using i1 True core_eq(1) [OF c] by (auto simp: queue_inv_def sidecar_inv_def b1_def)
    then show ?thesis
      using q' i1 c core_inv [of "q1\<lparr>q_backoffs := fmupd (br_QueueRecord b1) b1 (q_backoffs q1)\<rparr>" q1] by (auto simp: queue_inv_def)
  qed
qed

lemma ClearBackoff_inv [inv_rules]: "queue_inv q \<Longrightarrow> ClearBackoff rid q = (err, q') \<Longrightarrow> core q' = core q \<and> queue_inv q'"
proof -
  assume inv: "queue_inv q" and r: "ClearBackoff rid q = (err, q')"
  obtain e q1 where b: "removeBackoffLocked rid q = (e, q1)" by fastforce
  note bc = removeBackoffLocked_cases [OF b]
  have i1: "queue_inv q1" by (rule fewer_sidecars [OF inv bc(1), where rid = rid]) (use bc in auto)
  have "q' = q \<or> frame q' = frame q1" using r b by (auto simp: ClearBackoff_def split: if_splits)
  then show ?thesis using inv i1 bc(1) frame_inv frame_core by metis
qed

lemma Probe_frame: "Probe body q = (err, q') \<Longrightarrow> frame q' = frame q"
  by (auto simp: Probe_def probe_def split: prod.splits bool.splits option.splits dest!: writeFileAtomicRaw_frame)

lemma writeUnconfiguredLocked_frame: "writeUnconfiguredLocked q = (err, q') \<Longrightarrow> frame q' = frame q"
  by (auto simp: writeUnconfiguredLocked_def Let_def split: if_splits prod.splits bool.splits option.splits
      dest!: writeFileAtomic_frame remove_sidecar_frame)

lemma NoteUnconfiguredDevice_frame: "NoteUnconfiguredDevice d q = (err, q') \<Longrightarrow> frame q' = frame q"
  by (auto simp: NoteUnconfiguredDevice_def Let_def split: if_splits dest!: writeUnconfiguredLocked_frame)

lemma NoteAdmittedDevice_frame: "frame (NoteAdmittedDevice d q) = frame q"
  by (auto simp: NoteAdmittedDevice_def split: prod.splits option.splits dest!: writeUnconfiguredLocked_frame)

end
