(* ===== verification/Queue_Load.thy ===== *)
theory Queue_Load
  imports Queue_Inv
begin

text \<open>
  A queue that opens satisfies the invariant, and so does every queue that operations reach from it.
\<close>

section \<open>Loading\<close>

text \<open>No record on the disk has the last queue sequence there is: the sequence of the next record would wrap.\<close>

definition seqs_below :: "disk \<Rightarrow> bool" where
  "seqs_below d \<longleftrightarrow> (\<forall>n e r. fmlookup (dk_live d) n = Some e \<longrightarrow> decode_record (de_body e) = Some r \<longrightarrow> qr_QueueSeq r < maxInt64)"

definition loading_inv :: "loading \<Rightarrow> bool" where
  "loading_inv l \<longleftrightarrow> (let q = ld_queue l
     in index_inv q \<and> sums_inv q \<and> q_holds q = fmempty \<and> q_backoffs q = fmempty \<and> seqs_below (q_disk q)
        \<and> distinct (map (seq_of q) (q_order q)) \<and> (\<forall>rid \<in> set (q_order q). seq_of q rid |\<in>| ld_seen l)
        \<and> (\<forall>rid \<in> set (q_order q). seq_of q rid < q_nextSeq q) \<and> 0 < q_nextSeq q)"

lemma seqs_below_io: "io d = (ok, d') \<Longrightarrow> seqs_below d \<Longrightarrow> seqs_below d'"
  using io_fields by (simp add: seqs_below_def)

lemma seqs_below_remove: "RemoveFile n d = (r, d') \<Longrightarrow> seqs_below d \<Longrightarrow> seqs_below d'"
  by (auto simp: RemoveFile_def Let_def seqs_below_def split: prod.splits if_splits dest!: io_fields)

lemma readPrivate_disk:
  assumes "readPrivate n d = (res, d')"
  shows "dk_live d' = dk_live d" "dk_synced d' = dk_synced d"
    "res = Inr raw \<Longrightarrow> \<exists>e. fmlookup (dk_live d) n = Some e \<and> de_body e = raw \<and> de_kind e = Regular \<and> de_private e"
  using assms by (auto simp: readPrivate_def Let_def split: prod.splits option.splits if_splits dest!: io_fields)

lemma record_check_Inr:
  assumes "record_check name raw l = Inr r"
  shows "decode_record raw = Some r" "record_ok (qr_ID r) r" "fmlookup (q_entries (ld_queue l)) (qr_ID r) = None"
    "qr_QueueSeq r |\<notin>| ld_seen l" "name = record_name (qr_ID r)"
  using assms by (auto simp: record_check_def record_ok_def split: option.splits if_splits)

lemma load_record_added:
  "added (qr_ID r) r sz (ld_queue l) (ld_queue (load_record r sz l))"
  by (simp add: added_def load_record_def indexLocked_def Let_def)

lemma load_record_fields:
  "q_holds (ld_queue (load_record r sz l)) = q_holds (ld_queue l)" "q_backoffs (ld_queue (load_record r sz l)) = q_backoffs (ld_queue l)"
  "q_disk (ld_queue (load_record r sz l)) = q_disk (ld_queue l)" "ld_seen (load_record r sz l) = finsert (qr_QueueSeq r) (ld_seen l)"
  "q_nextSeq (ld_queue (load_record r sz l)) =
     (if qr_QueueSeq r \<ge> q_nextSeq (ld_queue l) then wrap64 (qr_QueueSeq r + 1) else q_nextSeq (ld_queue l))"
  by (simp_all add: load_record_def indexLocked_def Let_def)

lemma load_record_inv:
  assumes inv: "loading_inv l" and r: "record_check name raw l = Inr r" "qr_QueueSeq r < maxInt64" and sz: "0 \<le> sz"
  shows "loading_inv (load_record r sz l)"
proof -
  let ?q = "ld_queue l" and ?q' = "ld_queue (load_record r sz l)" and ?rid = "qr_ID r"
  note rc = record_check_Inr [OF r(1)]
  have parts: "index_inv ?q" "sums_inv ?q" "distinct (map (seq_of ?q) (q_order ?q))"
    "\<forall>rid \<in> set (q_order ?q). seq_of ?q rid |\<in>| ld_seen l" "\<forall>rid \<in> set (q_order ?q). seq_of ?q rid < q_nextSeq ?q" "0 < q_nextSeq ?q"
    using inv by (simp_all add: loading_inv_def Let_def)
  have a: "q_entries ?q' = fmupd ?rid r (q_entries ?q)" "q_order ?q' = q_order ?q @ [?rid]"
    using load_record_added [of r sz l] by (auto simp: added_def)
  have nin: "?rid \<notin> set (q_order ?q)" using not_in_order parts(1) rc(3) by blast
  have old: "seq_of ?q' i = seq_of ?q i" if "i \<in> set (q_order ?q)" for i using that nin by (auto simp: seq_of_def a)
  have own: "seq_of ?q' ?rid = qr_QueueSeq r" by (simp add: seq_of_def a)
  have pos: "0 < qr_QueueSeq r" using rc(2) by (simp add: record_ok_def)
  then have nxt: "q_nextSeq ?q' = max (q_nextSeq ?q) (qr_QueueSeq r + 1)"
    using r(2) by (auto simp: load_record_fields minInt64_def)
  have "map (seq_of ?q') (q_order ?q') = map (seq_of ?q) (q_order ?q) @ [qr_QueueSeq r]" using old own by (simp add: a(2))
  moreover have "qr_QueueSeq r \<notin> set (map (seq_of ?q) (q_order ?q))" using parts(4) rc(4) by auto
  ultimately have "distinct (map (seq_of ?q') (q_order ?q'))" using parts(3) by simp
  moreover have "index_inv ?q'" "sums_inv ?q'"
    using added_inv [OF load_record_added parts(1,2) rc(3,2) sz] by blast+
  moreover have "\<forall>rid \<in> set (q_order ?q'). seq_of ?q' rid |\<in>| ld_seen (load_record r sz l)"
    using parts(4) old own by (auto simp: a(2) load_record_fields)
  moreover have "\<forall>rid \<in> set (q_order ?q'). seq_of ?q' rid < q_nextSeq ?q'"
    using parts(5) old own nxt by (auto simp: a(2) less_max_iff_disj)
  ultimately show ?thesis
    using inv parts(6) nxt by (simp add: loading_inv_def Let_def load_record_fields)
qed

lemma loading_inv_update:
  assumes "loading_inv l" "frame (ld_queue l') = frame (ld_queue l)" "ld_seen l' = ld_seen l" "seqs_below (q_disk (ld_queue l'))"
  shows "loading_inv l'"
proof -
  have f: "core (ld_queue l') = core (ld_queue l)" "q_holds (ld_queue l') = q_holds (ld_queue l)"
    "q_backoffs (ld_queue l') = q_backoffs (ld_queue l)" using frame_core [OF assms(2)] by auto
  show ?thesis
    using assms(1,3,4) unfolding loading_inv_def Let_def core_inv [OF f(1)] core_views [OF f(1)] core_eq [OF f(1)] f(2,3) by simp
qed

lemma load_entry_inv:
  assumes "loading_inv l" "load_entry name l = (e, l')"
  shows "loading_inv l'"
proof -
  let ?q = "ld_queue l" and ?d = "q_disk (ld_queue l)"
  have sb: "seqs_below ?d" using assms(1) by (simp add: loading_inv_def Let_def)
  obtain res d1 where rm: "RemoveFile name ?d = (res, d1)" by fastforce
  obtain rp d2 where rd: "readPrivate name ?d = (rp, d2)" by fastforce
  have sb1: "seqs_below d1" using seqs_below_remove [OF rm sb] .
  have sb2: "seqs_below d2" using sb readPrivate_disk(1) [OF rd] by (simp add: seqs_below_def)
  have i0: "loading_inv (l\<lparr>ld_unconfigured := u\<rparr>)" "loading_inv (l\<lparr>ld_holds := ns\<rparr>)" "loading_inv (l\<lparr>ld_backoffs := ns\<rparr>)" for u ns
    by (rule loading_inv_update [OF assms(1)]; use sb in simp)+
  have i1: "loading_inv (l\<lparr>ld_queue := ?q\<lparr>q_disk := d1\<rparr>\<rparr>)" by (rule loading_inv_update [OF assms(1)]) (use sb1 in simp_all)
  have i2: "loading_inv (l\<lparr>ld_queue := ?q\<lparr>q_disk := d2\<rparr>\<rparr>)" by (rule loading_inv_update [OF assms(1)]) (use sb2 in simp_all)
  have rec: "loading_inv (load_record r (int (length raw)) (l\<lparr>ld_queue := ?q\<lparr>q_disk := d2\<rparr>\<rparr>))"
    if raw: "rp = Inr raw" and rc: "record_check name raw (l\<lparr>ld_queue := ?q\<lparr>q_disk := d2\<rparr>\<rparr>) = Inr r" for raw r
  proof -
    obtain en where "fmlookup (dk_live ?d) name = Some en" "de_body en = raw" using readPrivate_disk(3) [OF rd raw] by blast
    then have "qr_QueueSeq r < maxInt64" using sb record_check_Inr(1) [OF rc] by (auto simp: seqs_below_def)
    then show ?thesis using load_record_inv [OF i2 rc] by simp
  qed
  have "loading_inv (snd (load_entry name l))"
    unfolding load_entry_def Let_def rm rd prod.case
    using i0 i1 i2 rec assms(1) by (auto split: removeResult.splits sum.splits)
  then show ?thesis using assms(2) by simp
qed

lemma load_entries_inv: "loading_inv l \<Longrightarrow> load_entries ns l = (e, l') \<Longrightarrow> loading_inv l'"
  by (induction ns arbitrary: l) (auto split: prod.splits option.splits dest: load_entry_inv)

section \<open>Sidecars\<close>

lemma loadHolds_inv:
  assumes "queue_inv q" "loadHolds names q = (e, q')"
  shows "queue_inv q' \<and> core q' = core q"
  using assms
proof (induction names arbitrary: q)
  case (Cons name names)
  let ?rid = "TrimPrefix name holdFilePrefix"
  obtain rp d where rd: "readPrivate name (q_disk q) = (rp, d)" by fastforce
  define q1 where "q1 = q\<lparr>q_disk := d\<rparr>"
  have q1: "queue_inv q1" "core q1 = core q" using frame_inv [of q1 q] Cons.prems(1) by (simp_all add: q1_def)
  show ?case
  proof (cases "\<exists>raw r queued. rp = Inr raw \<and> decode_hold raw = Some r \<and> hr_QueueRecord r = ?rid
      \<and> fmlookup (q_entries q) ?rid = Some queued \<and> validateHoldRecord r queued")
    case True
    then obtain raw r queued where t: "rp = Inr raw" "decode_hold raw = Some r" "hr_QueueRecord r = ?rid"
      "fmlookup (q_entries q) ?rid = Some queued" "validateHoldRecord r queued" by blast
    define q2 where "q2 = q1\<lparr>q_holds := fmupd ?rid r (q_holds q1)\<rparr>"
    have "sidecar_inv q2" using q1(1) t core_eq(1) [OF q1(2)] by (auto simp: queue_inv_def sidecar_inv_def q2_def)
    then have q2: "queue_inv q2" "core q2 = core q" using q1 core_inv [of q2 q1] by (auto simp: queue_inv_def q2_def)
    have "loadHolds names q2 = (e, q')" using Cons.prems(2) rd t by (simp add: q1_def q2_def Let_def)
    then show ?thesis using Cons.IH [OF q2(1)] q2(2) by simp
  next
    case False
    then have "q' = q1" using Cons.prems(2) rd by (auto simp: q1_def Let_def split: sum.splits option.splits if_splits)
    then show ?thesis using q1 by simp
  qed
qed simp

lemma loadBackoffs_inv:
  assumes "queue_inv q" "loadBackoffs names q = (e, q')"
  shows "queue_inv q' \<and> core q' = core q"
  using assms
proof (induction names arbitrary: q)
  case (Cons name names)
  let ?rid = "TrimPrefix name backoffFilePrefix"
  obtain rp d where rd: "readPrivate name (q_disk q) = (rp, d)" by fastforce
  define q1 where "q1 = q\<lparr>q_disk := d\<rparr>"
  have q1: "queue_inv q1" "core q1 = core q" using frame_inv [of q1 q] Cons.prems(1) by (simp_all add: q1_def)
  show ?case
  proof (cases "\<exists>raw r. rp = Inr raw \<and> decode_backoff raw = Some r \<and> br_QueueRecord r = ?rid
      \<and> fmlookup (q_entries q) ?rid \<noteq> None \<and> validateBackoffRecord r")
    case True
    then obtain raw r where t: "rp = Inr raw" "decode_backoff raw = Some r" "br_QueueRecord r = ?rid"
      "fmlookup (q_entries q) ?rid \<noteq> None" "validateBackoffRecord r" by blast
    define q2 where "q2 = q1\<lparr>q_backoffs := fmupd ?rid r (q_backoffs q1)\<rparr>"
    have "sidecar_inv q2" using q1(1) t core_eq(1) [OF q1(2)] by (auto simp: queue_inv_def sidecar_inv_def q2_def)
    then have q2: "queue_inv q2" "core q2 = core q" using q1 core_inv [of q2 q1] by (auto simp: queue_inv_def q2_def)
    have "loadBackoffs names q2 = (e, q')" using Cons.prems(2) rd t by (auto simp: q1_def q2_def Let_def)
    then show ?thesis using Cons.IH [OF q2(1)] q2(2) by simp
  next
    case False
    then have "q' = q1" using Cons.prems(2) rd by (auto simp: q1_def Let_def split: sum.splits option.splits if_splits)
    then show ?thesis using q1 by simp
  qed
qed simp

lemma loadUnconfigured_frame: "loadUnconfigured p q = (e, q') \<Longrightarrow> frame q' = frame q"
  by (auto simp: loadUnconfigured_def Let_def split: if_splits prod.splits sum.splits option.splits)

section \<open>Opening\<close>

lemma strictly_sorted_keys:
  assumes "sorted (map (\<lambda>x. (f x :: int, g x :: string)) xs)" "distinct (map f xs)"
  shows "sorted_wrt (\<lambda>a b. f a < f b) xs"
  using assms by (induction xs) (auto simp: less_eq_prod_def less_le)

lemma sortOrder_inv:
  assumes "loading_inv l" "q = sortOrder (ld_queue l)" "bounds_inv q"
  shows "queue_inv q"
proof -
  let ?q = "ld_queue l"
  have parts: "index_inv ?q" "sums_inv ?q" "distinct (map (seq_of ?q) (q_order ?q))" "q_holds ?q = fmempty" "q_backoffs ?q = fmempty"
    "\<forall>rid \<in> set (q_order ?q). seq_of ?q rid < q_nextSeq ?q" "0 < q_nextSeq ?q"
    using assms(1) by (simp_all add: loading_inv_def Let_def)
  have m: "mset (q_order q) = mset (q_order ?q)" and s: "set (q_order q) = set (q_order ?q)"
    using assms(2) by (simp_all add: sortOrder_def)
  have views: "seq_of q = seq_of ?q" "lane_key q = lane_key ?q" "size_of q = size_of ?q"
    using assms(2) by (simp_all add: fun_eq_iff seq_of_def lane_key_def size_of_def sortOrder_def)
  have dist: "distinct (map (seq_of ?q) (q_order q))"
    using parts(3) m by (metis mset_eq_imp_distinct_iff mset_map)
  have k: "order_key (q_entries ?q) = (\<lambda>x. (seq_of ?q x, qr_ID (fmget zero_record (q_entries ?q) x)))"
    by (simp add: fun_eq_iff order_key_def seq_of_def Let_def)
  have "sorted (map (\<lambda>x. (seq_of ?q x, qr_ID (fmget zero_record (q_entries ?q) x))) (q_order q))"
    using sorted_sort_key [of "order_key (q_entries ?q)" "q_order ?q"] unfolding k assms(2) sortOrder_def by simp
  from strictly_sorted_keys [OF this dist] have "sorted_wrt (\<lambda>a b. seq_of ?q a < seq_of ?q b) (q_order q)" .
  moreover have "q_nextSeq q = q_nextSeq ?q" using assms(2) by (simp add: sortOrder_def)
  ultimately have "order_inv q"
    using parts(6,7) by (simp only: order_inv_def views s)
  moreover have "index_inv q"
    using parts(1) m s assms(2) by (auto simp: index_inv_def sortOrder_def)
  moreover have "sums_inv q"
  proof -
    have same: "q_laneItems q = q_laneItems ?q" "q_laneBytes q = q_laneBytes ?q" "q_deviceItems q = q_deviceItems ?q"
      "q_deviceBytes q = q_deviceBytes ?q" "q_bytes q = q_bytes ?q" using assms(2) by (simp_all add: sortOrder_def)
    have "sum_list (map (size_of ?q) (q_order q)) = sum_list (map (size_of ?q) (q_order ?q))"
      using m by (metis mset_map sum_mset_sum_list)
    moreover have "counted (lane_key ?q) (size_of ?q) (q_order q) (q_laneItems ?q) (q_laneBytes ?q)"
      "counted (\<lambda>i. fst (lane_key ?q i)) (size_of ?q) (q_order q) (q_deviceItems ?q) (q_deviceBytes ?q)"
      by (rule counted_perm [OF _ m]; use parts(2) in \<open>simp add: sums_inv_def\<close>)+
    ultimately show ?thesis
      using parts(2) unfolding sums_inv_def views same by simp
  qed
  moreover have "sidecar_inv q" using parts(4,5) assms(2) by (simp add: sidecar_inv_def sortOrder_def)
  ultimately show ?thesis using assms(3) by (simp add: queue_inv_def)
qed

text \<open>The bounds do not change.\<close>

definition limits where "limits q = (q_maxItems q, q_maxBytes q, q_configured q, q_reserved q, q_shareItems q, q_shareBytes q)"

lemma core_limits: "core q' = core q \<Longrightarrow> limits q' = limits q"
  by (simp add: core_def limits_def)

lemma frame_limits: "frame q' = frame q \<Longrightarrow> limits q' = limits q"
  by (rule core_limits) (simp add: frame_def)

lemma load_record_limits: "limits (ld_queue (load_record r sz l)) = limits (ld_queue l)"
  by (simp add: load_record_def indexLocked_def limits_def Let_def)

lemma load_entry_limits: "load_entry n l = (e, l') \<Longrightarrow> limits (ld_queue l') = limits (ld_queue l)"
  by (auto simp: load_entry_def Let_def load_record_limits split: if_splits prod.splits removeResult.splits sum.splits)
    (simp_all add: limits_def)

lemma load_entries_limits: "load_entries ns l = (e, l') \<Longrightarrow> limits (ld_queue l') = limits (ld_queue l)"
  by (induction ns arbitrary: l) (auto split: prod.splits option.splits dest: load_entry_limits)

lemma load_inv:
  assumes "loading_inv \<lparr>ld_queue = q, ld_seen = {||}, ld_holds = [], ld_backoffs = [], ld_unconfigured = False\<rparr>"
    and "load q = (None, q')"
  shows "queue_inv q'" "limits q' = limits q"
proof -
  obtain ok d where i: "io (q_disk q) = (ok, d)" by fastforce
  let ?l0 = "\<lparr>ld_queue = q\<lparr>q_disk := d\<rparr>, ld_seen = {||}, ld_holds = [], ld_backoffs = [], ld_unconfigured = False\<rparr>"
  have sb: "seqs_below (q_disk q)" using assms(1) by (simp add: loading_inv_def)
  have l0: "loading_inv ?l0"
    by (rule loading_inv_update [OF assms(1)]) (use seqs_below_io [OF i sb] in simp_all)
  obtain e1 l where l: "load_entries (dir_names d) ?l0 = (e1, l)" by fastforce
  define qs where "qs = sortOrder (ld_queue l)"
  obtain e2 qh where h: "loadHolds (ld_holds l) qs = (e2, qh)" by fastforce
  obtain e3 qb where b: "loadBackoffs (ld_backoffs l) qh = (e3, qb)" by fastforce
  have ok: "ok" "e1 = None" "bounds_inv qs" "e2 = None" "e3 = None" "loadUnconfigured (ld_unconfigured l) qb = (None, q')"
    using assms(2) i l h b unfolding load_def Let_def
    by (auto simp: qs_def bounds_inv_def split: if_splits option.splits)
  have qs: "queue_inv qs" using sortOrder_inv [OF load_entries_inv [OF l0 l]] qs_def ok(3) by blast
  have qh: "queue_inv qh" "core qh = core qs" using loadHolds_inv [OF qs h] by blast+
  have qb: "queue_inv qb" "core qb = core qh" using loadBackoffs_inv [OF qh(1) b] by blast+
  have u: "frame q' = frame qb" using loadUnconfigured_frame [OF ok(6)] .
  show "queue_inv q'" using frame_inv [OF u] qb by simp
  have "limits qs = limits q" using load_entries_limits [OF l] by (simp add: qs_def sortOrder_def limits_def)
  then show "limits q' = limits q" using frame_limits [OF u] core_limits [OF qb(2)] core_limits [OF qh(2)] by simp
qed

lemma seqs_below_write: "WriteFile n body d = (ok, d') \<Longrightarrow> decode_record body = None \<Longrightarrow> seqs_below d \<Longrightarrow> seqs_below d'"
  by (auto simp: WriteFile_def Let_def seqs_below_def private_file_def split: prod.splits if_splits dest!: io_fields)

lemma seqs_below_sync: "SyncDirectory d = (ok, d') \<Longrightarrow> seqs_below d \<Longrightarrow> seqs_below d'"
  using SyncDirectory_live(1) by (simp add: seqs_below_def)

lemma marker_no_record: "decode_record [] = None" "decode_record queueMarkerBody = None"
  by code_simp+

lemma seqs_below_snd: "seqs_below d \<Longrightarrow> seqs_below (snd (RemoveFile n d))"
  using seqs_below_remove [of n d] by (cases "RemoveFile n d") simp

lemma seqs_below_marker: "ensureQueueMarker may d = (e, d') \<Longrightarrow> seqs_below d \<Longrightarrow> seqs_below d'"
  by (auto simp: ensureQueueMarker_def Let_def marker_no_record seqs_below_snd split: option.splits prod.splits if_splits
      dest!: seqs_below_io seqs_below_write seqs_below_sync)

lemma seqs_below_directory: "ensurePrivateQueueDirectory p d = (e, p', d') \<Longrightarrow> seqs_below d \<Longrightarrow> seqs_below d'"
  by (auto simp: ensurePrivateQueueDirectory_def Let_def split: dirPath.splits prod.splits if_splits
      dest!: seqs_below_io seqs_below_marker)

lemma empty_loading_inv:
  assumes "set_shares opts (empty_queue opts d) = Inr q" "seqs_below d"
  shows "loading_inv \<lparr>ld_queue = q, ld_seen = {||}, ld_holds = [], ld_backoffs = [], ld_unconfigured = False\<rparr>"
    "q_maxItems q = qo_MaxItems opts" "q_maxBytes q = qo_MaxBytes opts"
proof -
  have f: "q_entries q = fmempty" "q_sizes q = fmempty" "q_laneOf q = fmempty" "q_order q = []" "q_bytes q = 0"
    "q_laneItems q = fmempty" "q_laneBytes q = fmempty" "q_deviceItems q = fmempty" "q_deviceBytes q = fmempty"
    "q_holds q = fmempty" "q_backoffs q = fmempty" "q_nextSeq q = 1" "q_disk q = d"
    "q_maxItems q = qo_MaxItems opts" "q_maxBytes q = qo_MaxBytes opts"
    using assms(1) by (auto simp: set_shares_def empty_queue_def Let_def split: if_splits option.splits)
  then show "loading_inv \<lparr>ld_queue = q, ld_seen = {||}, ld_holds = [], ld_backoffs = [], ld_unconfigured = False\<rparr>"
    using assms(2) by (simp add: loading_inv_def index_inv_def sums_inv_def size_of_def counted_empty)
  show "q_maxItems q = qo_MaxItems opts" "q_maxBytes q = qo_MaxBytes opts" using f by simp_all
qed

lemma openDurableQueue_limits:
  assumes "openDurableQueue opts body p d = (Inr q, p', d')" "seqs_below d"
  shows "queue_inv q" "d' = q_disk q" "\<exists>d1 q0. set_shares opts (empty_queue opts d1) = Inr q0 \<and> limits q = limits q0"
proof -
  obtain e1 p1 d1 where dir: "ensurePrivateQueueDirectory p d = (e1, p1, d1)" using prod_cases3 by blast
  have e1: "e1 = None" using assms(1) dir by (auto simp: openDurableQueue_def split: if_splits option.splits)
  have sb: "seqs_below d1" using seqs_below_directory [OF dir assms(2)] .
  obtain q0 where q0: "set_shares opts (empty_queue opts d1) = Inr q0"
    using assms(1) dir e1 by (auto simp: openDurableQueue_def split: if_splits sum.splits)
  note e = empty_loading_inv [OF q0 sb]
  obtain el q1 where l: "load q0 = (el, q1)" by fastforce
  obtain ep q2 where pr: "Probe body q1 = (ep, q2)" by fastforce
  have r: "el = None" "q = q2" "d' = q_disk q"
    using assms(1) dir e1 q0 l pr by (auto simp: openDurableQueue_def split: if_splits option.splits)
  note li = load_inv [OF e(1) l [unfolded r(1)]]
  have f: "frame q2 = frame q1" using Probe_frame [OF pr] .
  show "queue_inv q" using frame_inv [OF f] li(1) r by simp
  have "limits q = limits q0" using frame_limits [OF f] li(2) r by simp
  then show "\<exists>d1 q0. set_shares opts (empty_queue opts d1) = Inr q0 \<and> limits q = limits q0" using q0 by blast
  show "d' = q_disk q" using r by simp
qed

lemma openDurableQueue_inv:
  assumes "openDurableQueue opts body p d = (Inr q, p', d')" "seqs_below d"
  shows "queue_inv q" "q_maxItems q = qo_MaxItems opts" "q_maxBytes q = qo_MaxBytes opts" "d' = q_disk q"
  using openDurableQueue_limits [OF assms]
  by (auto simp: limits_def set_shares_def empty_queue_def Let_def split: if_splits option.splits)

section \<open>Runs\<close>

datatype queueEvent =
    EnqueueEv string string int
  | RemoveEv string
  | HoldEv HoldRecord
  | SetBackoffEv BackoffRecord
  | ClearBackoffEv string
  | ProbeEv string
  | UnconfiguredEv string
  | AdmittedEv string

fun queue_step :: "queueEvent \<Rightarrow> DurableQueue \<Rightarrow> DurableQueue" where
  "queue_step (EnqueueEv kind payload now) q = snd (enqueueOrFind kind payload now q)"
| "queue_step (RemoveEv rid) q = snd (Remove rid q)"
| "queue_step (HoldEv h) q = snd (Queue_Hold h q)"
| "queue_step (SetBackoffEv b) q = snd (SetBackoff b q)"
| "queue_step (ClearBackoffEv rid) q = snd (ClearBackoff rid q)"
| "queue_step (ProbeEv body) q = snd (Probe body q)"
| "queue_step (UnconfiguredEv d) q = snd (NoteUnconfiguredDevice d q)"
| "queue_step (AdmittedEv d) q = NoteAdmittedDevice d q"

text \<open>A run of the queue. The sequence numbers do not run out.\<close>

inductive queue_run :: "DurableQueue \<Rightarrow> queueEvent list \<Rightarrow> DurableQueue \<Rightarrow> bool" for q0 where
  start: "queue_run q0 [] q0"
| step: "queue_run q0 es q \<Longrightarrow> q_nextSeq q < maxInt64 \<Longrightarrow> queue_run q0 (es @ [e]) (queue_step e q)"

lemma queue_step_inv:
  assumes "queue_inv q" "q_nextSeq q < maxInt64"
  shows "queue_inv (queue_step e q)"
proof (cases e)
  case (EnqueueEv kind payload now)
  then show ?thesis using enqueueOrFind_inv [OF assms] by (cases "enqueueOrFind kind payload now q") simp
next
  case (RemoveEv rid)
  then show ?thesis using Remove_inv [OF assms(1)] by (cases "Remove rid q") simp
next
  case (HoldEv h)
  then show ?thesis using Queue_Hold_inv [OF assms(1)] by (cases "Queue_Hold h q") simp
next
  case (SetBackoffEv b)
  then show ?thesis using SetBackoff_inv [OF assms(1)] by (cases "SetBackoff b q") simp
next
  case (ClearBackoffEv rid)
  then show ?thesis using ClearBackoff_inv [OF assms(1)] by (cases "ClearBackoff rid q") simp
next
  case (ProbeEv body)
  obtain err q' where "Probe body q = (err, q')" by fastforce
  then show ?thesis using frame_inv [OF Probe_frame] ProbeEv assms by simp
next
  case (UnconfiguredEv d)
  obtain err q' where "NoteUnconfiguredDevice d q = (err, q')" by fastforce
  then show ?thesis using frame_inv [OF NoteUnconfiguredDevice_frame] UnconfiguredEv assms by simp
next
  case (AdmittedEv d)
  then show ?thesis using frame_inv [OF NoteAdmittedDevice_frame] assms by simp
qed

lemma queue_run_inv: "queue_run q0 es q \<Longrightarrow> queue_inv q0 \<Longrightarrow> queue_inv q"
  by (induction rule: queue_run.induct) (auto intro: queue_step_inv)

lemma commit_limits: "limits (commit_record r sz q) = limits q"
  by (simp add: limits_def commit_fields)

lemma forget_limits: "limits (forget_record rid q) = limits q"
  by (simp add: limits_def forget_fields)

lemma queue_step_limits:
  assumes "queue_inv q"
  shows "limits (queue_step e q) = limits q"
proof (cases e)
  case (EnqueueEv kind payload now)
  obtain res q' where r: "enqueueOrFind kind payload now q = (res, q')" by fastforce
  then have "limits q' = limits q"
    by (cases rule: enqueueOrFind_cases) (auto simp: commit_limits dest: frame_limits)
  then show ?thesis using EnqueueEv r by simp
next
  case (RemoveEv rid)
  obtain e q1 where l: "removeLocked rid q = (e, q1)" by fastforce
  have "limits q1 = limits q"
    using l assms by (cases rule: removeLocked_cases) (auto simp: forget_limits dest: core_limits)
  moreover have "frame (snd (Remove rid q)) = frame q1" using l by (simp add: Remove_def)
  ultimately show ?thesis using RemoveEv frame_limits [of "snd (Remove rid q)" q1] by simp
next
  case (HoldEv h)
  obtain err q' where r: "Queue_Hold h q = (err, q')" by fastforce
  then have "limits q' = limits q" using Queue_Hold_inv [OF assms r] core_limits by blast
  then show ?thesis using HoldEv r by simp
next
  case (SetBackoffEv b)
  obtain err q' where r: "SetBackoff b q = (err, q')" by fastforce
  then have "limits q' = limits q" using SetBackoff_inv [OF assms r] core_limits by blast
  then show ?thesis using SetBackoffEv r by simp
next
  case (ClearBackoffEv rid)
  obtain err q' where r: "ClearBackoff rid q = (err, q')" by fastforce
  then have "limits q' = limits q" using ClearBackoff_inv [OF assms r] core_limits by blast
  then show ?thesis using ClearBackoffEv r by simp
next
  case (ProbeEv body)
  obtain err q' where "Probe body q = (err, q')" by fastforce
  then show ?thesis using frame_limits [OF Probe_frame] ProbeEv by simp
next
  case (UnconfiguredEv d)
  obtain err q' where "NoteUnconfiguredDevice d q = (err, q')" by fastforce
  then show ?thesis using frame_limits [OF NoteUnconfiguredDevice_frame] UnconfiguredEv by simp
next
  case (AdmittedEv d)
  then show ?thesis using frame_limits [OF NoteAdmittedDevice_frame] by simp
qed

lemma queue_run_limits: "queue_run q0 es q \<Longrightarrow> queue_inv q0 \<Longrightarrow> limits q = limits q0"
  by (induction rule: queue_run.induct) (auto simp: queue_step_limits queue_run_inv)

end
