(* ===== verification/Queue_Codec.thy ===== *)
theory Queue_Codec
  imports Queue_Load
begin

text \<open>
  What the queue writes it reads back: the records and the sidecar files survive encoding and decoding, and the largest
  record has the size the limits are computed from.
\<close>

section \<open>Digests\<close>

lemma sha_round_length: "length st = 8 \<Longrightarrow> length (sha_round st kw) = 8"
  by (auto simp: sha_round_def Let_def split: list.splits)

lemma sha_block_length:
  assumes "length st = 8"
  shows "length (sha_block st ws) = 8"
proof -
  have "length (foldl sha_round st xs) = 8" for xs
    using assms by (induction xs rule: rev_induct) (auto simp: sha_round_length)
  then show ?thesis using assms by (simp add: sha_block_def)
qed

lemma sha_blocks_length: "length st = 8 \<Longrightarrow> length (sha_blocks st ws n) = 8"
  by (induction n arbitrary: st ws) (auto simp: sha_block_length)

lemma sha256_length: "length (sha256 m) = 32"
proof -
  have "length (concat (map word_bytes xs)) = 4 * length xs" for xs by (induction xs) (auto simp: word_bytes_def)
  moreover have "length (sha_blocks sha_H0 ws n) = 8" for ws n by (rule sha_blocks_length) (simp add: sha_H0_def)
  ultimately show ?thesis by (simp add: sha256_def Let_def)
qed

definition lower_hex :: "char \<Rightarrow> bool" where
  "lower_hex c \<longleftrightarrow> is_digit c \<or> 97 \<le> byte c \<and> byte c \<le> 102"

lemma lower_hex_digit: "0 \<le> d \<Longrightarrow> d < 16 \<Longrightarrow> lower_hex (hex_digit d)"
  by (auto simp: lower_hex_def hex_digit_def is_digit_def byte_char_of)

lemma lower_hex_encode: "list_all lower_hex (hex_encode s)"
proof (induction s)
  case (Cons c s)
  have "0 \<le> byte c div 16" "byte c div 16 < 16" "0 \<le> byte c mod 16" "byte c mod 16 < 16" using byte_range [of c] by auto
  then show ?case using Cons lower_hex_digit by (simp add: hex_encode_def)
qed (simp add: hex_encode_def)

lemma hex_encode_length [simp]: "length (hex_encode s) = 2 * length s"
  by (induction s) (auto simp: hex_encode_def)

lemma lower_hex_safe: "lower_hex c \<Longrightarrow> html_safe c"
  by (auto simp: lower_hex_def html_safe_def is_digit_def byte_literals)

lemma lower_hex_plain: "list_all lower_hex s \<Longrightarrow> plain s"
  by (auto simp: plain_def list_all_iff lower_hex_safe)

lemma artifactID_plain [simp]: "plain (artifactID kind payload)"
  by (simp add: artifactID_def lower_hex_plain lower_hex_encode)

lemma artifactID_length [simp]: "length (artifactID kind payload) = 64"
  by (simp add: artifactID_def sha256_length)

lemma payloadDigest_plain [simp]: "plain (payloadDigest payload)"
  by (simp add: payloadDigest_def lower_hex_plain lower_hex_encode)
    (simp add: html_safe_def byte_def quote_char_def backslash_def)

section \<open>Structs\<close>

lemma decode_member:
  assumes "plain k" "k \<in> set names"
  shows "decode_members names strict store ((k, v) # ms) x =
    (case store k v x of None \<Rightarrow> None | Some y \<Rightarrow> decode_members names strict store ms y)"
  using assms by (simp add: field_of_member)

lemma field_names_plain:
  "list_all plain record_fields" "list_all plain hold_fields" "list_all plain backoff_fields"
  by code_simp+

lemma plain_names:
  "plain ''v''" "plain ''id''" "plain ''artifact_type''" "plain ''queue_seq''" "plain ''enqueued_at_ms''" "plain ''payload''"
  "plain ''queue_record''" "plain ''artifact_digest''" "plain ''refusal_status''" "plain ''reason''" "plain ''first_held_at_ms''"
  "plain ''acknowledged''" "plain ''not_before_ms''" "plain ''attempts''" "plain ''retry_after_ms''"
  by code_simp+

lemma validQueueArtifactType_plain: "validQueueArtifactType kind \<Longrightarrow> plain kind"
proof -
  have "list_all plain [ArtifactDeliveryEnvelope, ArtifactAnchorRegistration, ArtifactCheckpoint, artifactDeliveryReceipt,
    artifactEpochConfirmation, artifactCustodyAcknowledgement]" by code_simp
  then show "validQueueArtifactType kind \<Longrightarrow> plain kind"
    by (auto simp: validQueueArtifactType_def validOutboundArtifactType_def)
qed

lemma decode_printed:
  assumes "json_ok j" "json_depth j \<le> 1"
  shows "Unmarshal names strict store zero (print_json j) = decode_struct names strict store j zero"
proof -
  have "json_depth j \<le> maxNestingDepth" using assms(2) by (simp add: maxNestingDepth_def)
  then show ?thesis using json_parse_print [OF assms(1)] by (simp add: Unmarshal_def)
qed

lemma decode_int64_itoa [simp]: "in_int64 i \<Longrightarrow> decode_int64 (JNum (itoa i)) old = Some i"
  by (simp add: decode_int64_def parseInt64_itoa)

lemma decode_string_JString [simp]: "plain s \<Longrightarrow> decode_string (JString s) old = Some s"
  by (simp add: decode_string_def JString_def)

lemma json_ok_simps [simp]: "json_ok (JNum (itoa i))" "plain s \<Longrightarrow> json_ok (JString s)"
  by (auto simp: JString_def)

lemma json_depth_JString [simp]: "json_depth (JString s) = 0"
  by (simp add: JString_def)

lemma record_json_ok:
  assumes "plain (qr_ID r)" "plain (qr_Type r)"
  shows "json_ok (record_json r)" "json_depth (record_json r) \<le> 1"
  using assms plain_names by (auto simp: record_json_def)

lemma decode_encode_record:
  assumes "plain (qr_ID r)" "plain (qr_Type r)" "in_int64 (qr_V r)" "in_int64 (qr_QueueSeq r)" "in_int64 (qr_EnqueuedAtMS r)"
  shows "decode_record (encode_record r) = Some r"
proof -
  have "decode_record (encode_record r) = decode_struct record_fields False store_record (record_json r) zero_record"
    unfolding decode_record_def encode_record_def by (rule decode_printed [OF record_json_ok [OF assms(1,2)]])
  also have "\<dots> = Some r"
    using assms plain_names
    by (simp add: record_json_def decode_struct_def decode_member record_fields_def store_record_def decode_bytes_def
        zero_record_def del: decode_members.simps(2))
  finally show ?thesis .
qed

text \<open>C37. Every record the queue holds survives the encoding: decoding the file text gives the record.\<close>

theorem record_roundtrip:
  assumes "record_ok rid r" "qr_QueueSeq r \<le> maxInt64" "qr_EnqueuedAtMS r \<le> maxInt64"
  shows "decode_record (encode_record r) = Some r"
proof (rule decode_encode_record)
  show "plain (qr_ID r)" "plain (qr_Type r)" using assms(1) by (auto simp: record_ok_def validQueueArtifactType_plain)
  show "in_int64 (qr_V r)" "in_int64 (qr_QueueSeq r)" "in_int64 (qr_EnqueuedAtMS r)"
    using assms by (auto simp: record_ok_def queueRecordVersion_def in_int64_def minInt64_def maxInt64_def)
qed

lemma hold_roundtrip:
  assumes "plain (hr_QueueRecord h)" "plain (hr_ArtifactDigest h)" "plain (hr_ArtifactType h)" "plain (hr_Reason h)"
    "in_int64 (hr_V h)" "in_int64 (hr_RefusalStatus h)" "in_int64 (hr_FirstHeldAtMS h)"
  shows "decode_hold (print_json (hold_json h)) = Some h"
proof -
  have "json_ok (hold_json h)" "json_depth (hold_json h) \<le> 1" using assms plain_names by (auto simp: hold_json_def)
  then have "decode_hold (print_json (hold_json h)) = decode_struct hold_fields True store_hold (hold_json h) zero_hold"
    unfolding decode_hold_def by (rule decode_printed)
  also have "\<dots> = Some h"
    using assms plain_names
    by (simp add: hold_json_def decode_struct_def decode_member hold_fields_def store_hold_def decode_bool_def
        zero_hold_def del: decode_members.simps(2))
  finally show ?thesis .
qed

lemma backoff_roundtrip:
  assumes "plain (br_QueueRecord b)" "in_int64 (br_V b)" "in_int64 (br_NotBeforeMS b)" "in_int64 (br_Attempts b)"
    "\<And>ms. br_RetryAfterMS b = Some ms \<Longrightarrow> in_int64 ms"
  shows "decode_backoff (print_json (backoff_json b)) = Some b"
proof -
  have "json_ok (backoff_json b)" "json_depth (backoff_json b) \<le> 1"
    using assms plain_names by (auto simp: backoff_json_def split: option.splits)
  then have "decode_backoff (print_json (backoff_json b)) = decode_struct backoff_fields True store_backoff (backoff_json b) zero_backoff"
    unfolding decode_backoff_def by (rule decode_printed)
  also have "\<dots> = Some b"
    using assms plain_names
    by (cases "br_RetryAfterMS b")
      (simp_all add: backoff_json_def decode_struct_def decode_member backoff_fields_def store_backoff_def decode_ptr64_def
        zero_backoff_def del: decode_members.simps(2))
  finally show ?thesis .
qed

section \<open>Sizes\<close>

lemma encode_record_length:
  assumes "plain (qr_ID r)" "plain (qr_Type r)" "qr_V r = queueRecordVersion" "qr_Payload r \<noteq> []"
  shows "length (encode_record r) = 13 + length (qr_ID r) + 19 + length (qr_Type r) + 14 + length (itoa (qr_QueueSeq r)) + 18
    + length (itoa (qr_EnqueuedAtMS r)) + 12 + 4 * ((length (qr_Payload r) + 2) div 3) + 2"
proof -
  have "itoa 1 = ''1''" by code_simp
  then show ?thesis
    using assms by (simp add: encode_record_def record_json_def quoted_def JString_def b64_encode_length queueRecordVersion_def)
qed

lemma itoa_length: "0 < v \<Longrightarrow> v \<le> maxInt64 \<Longrightarrow> length (itoa v) \<le> 19"
  by (simp add: itoa_def) (rule dec_length, simp_all add: maxInt64_def)

lemma outbound_length:
  assumes "validOutboundArtifactType kind"
  shows "int (length kind) \<le> int (length ArtifactAnchorRegistration)"
    "kind \<noteq> ArtifactAnchorRegistration \<Longrightarrow> int (length kind) \<le> int (length ArtifactDeliveryEnvelope)"
  using assms by (auto simp: validOutboundArtifactType_def artifact_defs)

lemma encoded_size:
  assumes "validOutboundArtifactType kind" "payload \<noteq> []" "int (length payload) \<le> maxArtifactBytes"
    and "0 < seq" "seq \<le> maxInt64" "0 < t" "t \<le> maxInt64"
    and r: "r = \<lparr>qr_V = queueRecordVersion, qr_ID = artifactID kind payload, qr_Type = kind, qr_QueueSeq = seq,
      qr_EnqueuedAtMS = t, qr_Payload = payload\<rparr>"
  shows "int (length (encode_record r)) \<le> maxRecordOverhead + int (length kind)"
    "seq = maxInt64 \<Longrightarrow> t = maxInt64 \<Longrightarrow> int (length payload) = maxArtifactBytes \<Longrightarrow>
       int (length (encode_record r)) = maxRecordOverhead + int (length kind)"
proof -
  have plain: "plain kind" using assms(1) validQueueArtifactType_plain by (simp add: validQueueArtifactType_def)
  have len: "length (encode_record r) = 13 + 64 + 19 + length kind + 14 + length (itoa seq) + 18 + length (itoa t) + 12
      + 4 * ((length payload + 2) div 3) + 2"
    using encode_record_length [of r] plain assms(2) by (simp add: r)
  have "(length payload + 2) div 3 \<le> (2 ^ 20 + 2) div 3"
    using assms(3) by (intro div_le_mono) (simp add: maxArtifactBytes_def)
  then show "int (length (encode_record r)) \<le> maxRecordOverhead + int (length kind)"
    using len itoa_length [OF assms(4,5)] itoa_length [OF assms(6,7)] by (simp add: maxRecordOverhead_def maxArtifactBytes_def)
  have "length (itoa maxInt64) = 19" by code_simp
  then show "seq = maxInt64 \<Longrightarrow> t = maxInt64 \<Longrightarrow> int (length payload) = maxArtifactBytes \<Longrightarrow>
       int (length (encode_record r)) = maxRecordOverhead + int (length kind)"
    using len by (simp add: maxRecordOverhead_def maxArtifactBytes_def)
qed

text \<open>The limits computed at compile time are exact: no outbound record of an artifact within the size limit is
  larger than the registration reserve, none of another type is larger than the evidence record limit, and a registration
  of the largest size with the largest numbers has exactly the size of the reserve.\<close>

theorem record_size_limits:
  assumes "validOutboundArtifactType kind" "payload \<noteq> []" "int (length payload) \<le> maxArtifactBytes"
    and "0 < seq" "seq \<le> maxInt64" "0 < t" "t \<le> maxInt64"
    and r: "r = \<lparr>qr_V = queueRecordVersion, qr_ID = artifactID kind payload, qr_Type = kind, qr_QueueSeq = seq,
      qr_EnqueuedAtMS = t, qr_Payload = payload\<rparr>"
  shows "int (length (encode_record r)) \<le> maxQueueRecordBytes
    \<and> (kind \<noteq> ArtifactAnchorRegistration \<longrightarrow> int (length (encode_record r)) \<le> maxEvidenceRecordBytes)
    \<and> (kind = ArtifactAnchorRegistration \<and> seq = maxInt64 \<and> t = maxInt64 \<and> int (length payload) = maxArtifactBytes
         \<longrightarrow> int (length (encode_record r)) = maxQueueRecordBytes)"
  using encoded_size [OF assms] outbound_length [OF assms(1)]
  by (auto simp: maxQueueRecordBytes_def maxEvidenceRecordBytes_def)

theorem record_size_limits_witness:
  "int (length (encode_record \<lparr>qr_V = queueRecordVersion, qr_ID = artifactID ArtifactCheckpoint ''x'', qr_Type = ArtifactCheckpoint,
      qr_QueueSeq = 1, qr_EnqueuedAtMS = 1, qr_Payload = ''x''\<rparr>)) \<le> maxEvidenceRecordBytes"
  using record_size_limits [of ArtifactCheckpoint "''x''" 1 1]
  by (simp add: validOutboundArtifactType_def maxArtifactBytes_def maxInt64_def artifact_defs)

theorem record_roundtrip_witness:
  "decode_record (encode_record \<lparr>qr_V = queueRecordVersion, qr_ID = artifactID ArtifactCheckpoint ''x'', qr_Type = ArtifactCheckpoint,
      qr_QueueSeq = 1, qr_EnqueuedAtMS = 1, qr_Payload = ''x''\<rparr>) =
    Some \<lparr>qr_V = queueRecordVersion, qr_ID = artifactID ArtifactCheckpoint ''x'', qr_Type = ArtifactCheckpoint,
      qr_QueueSeq = 1, qr_EnqueuedAtMS = 1, qr_Payload = ''x''\<rparr>"
  by (rule record_roundtrip [of "artifactID ArtifactCheckpoint ''x''"])
    (simp_all add: record_ok_def validQueueArtifactType_def validOutboundArtifactType_def maxInt64_def)

end
