(* ===== verification/Queue_Spec.thy ===== *)
theory Queue_Spec
  imports Queue_Codec
begin

text \<open>
  What the durable queue promises: one first-in first-out lane for each device and kind, exact counts within the bounds,
  and room that evidence can never take from a registration. The lanes are an interface, \<open>lane_fifo\<close>, with the
  deliveries proved over it.
\<close>

section \<open>Lanes\<close>

definition lane_ids :: "DurableQueue \<Rightarrow> LaneKey \<Rightarrow> string list" where
  "lane_ids q key = filter (\<lambda>rid. lane_key q rid = key) (q_order q)"

definition entry_of :: "DurableQueue \<Rightarrow> string \<Rightarrow> QueuedArtifact" where
  "entry_of q rid = recordArtifact (fmget zero_record (q_entries q) rid)"

definition lane_of :: "DurableQueue \<Rightarrow> LaneKey \<Rightarrow> QueuedArtifact list" where
  "lane_of q key = map (entry_of q) (lane_ids q key)"

lemma core_lane: "core q' = core q \<Longrightarrow> lane_of q' = lane_of q"
  using core_eq [of q' q] core_views [of q' q] by (simp add: lane_of_def lane_ids_def entry_of_def fun_eq_iff)

lemma frame_lane: "frame q' = frame q \<Longrightarrow> lane_of q' = lane_of q"
  by (rule core_lane) (simp add: frame_def)

lemma entry_id: "queue_inv q \<Longrightarrow> rid \<in> set (q_order q) \<Longrightarrow> qa_ID (entry_of q rid) = rid"
  by (auto simp: queue_inv_def index_inv_def record_ok_def entry_of_def recordArtifact_def fmget_def fmdom'I
      fmlookup_dom'_iff split: option.splits)

lemma find_filter: "find P xs = (case filter P xs of [] \<Rightarrow> None | x # _ \<Rightarrow> Some x)"
  by (induction xs) auto

lemma PeekLane_head: "PeekLane key q = (case lane_of q key of [] \<Rightarrow> None | a # _ \<Rightarrow> Some a)"
  unfolding PeekLane_def peek_where_def find_filter lane_of_def lane_ids_def lane_key_def entry_of_def
  by (simp split: list.splits)

lemma lane_commit:
  assumes "queue_inv q" "fmlookup (q_entries q) rid = None" "qr_ID r = rid" "qr_QueueSeq r = q_nextSeq q"
  shows "lane_of (commit_record r sz q) key = lane_of q key @ (if recordLane r = key then [recordArtifact r] else [])"
proof -
  let ?c = "commit_record r sz q"
  have parts: "index_inv q" "order_inv q" using assms(1) by (auto simp: queue_inv_def)
  have nin: "rid \<notin> set (q_order q)" using not_in_order parts(1) assms(2) by blast
  have ord: "q_order ?c = q_order q @ [rid]" using commit_order(1) [OF parts assms(2-4)] .
  have old: "lane_key ?c i = lane_key q i" "entry_of ?c i = entry_of q i" if "i \<in> set (q_order q)" for i
    using that nin by (auto simp: lane_key_def entry_of_def commit_fields [OF assms(3)])
  have own: "lane_key ?c rid = recordLane r" "entry_of ?c rid = recordArtifact r"
    by (simp_all add: lane_key_def entry_of_def commit_fields [OF assms(3)])
  have "filter (\<lambda>i. lane_key ?c i = key) (q_order q) = lane_ids q key"
    unfolding lane_ids_def using old by (intro filter_cong) auto
  moreover have "map (entry_of ?c) (lane_ids q key) = lane_of q key"
    unfolding lane_of_def using old by (intro map_cong) (auto simp: lane_ids_def)
  ultimately show ?thesis using own ord by (simp add: lane_of_def [of ?c] lane_ids_def [of ?c])
qed

lemma lane_forget:
  assumes "queue_inv q"
  shows "lane_of (forget_record rid q) key = filter (\<lambda>a. qa_ID a \<noteq> rid) (lane_of q key)"
proof -
  let ?f = "forget_record rid q"
  have dist: "distinct (q_order q)" using assms by (simp add: queue_inv_def index_inv_def)
  have ord: "q_order ?f = filter (\<lambda>i. i \<noteq> rid) (q_order q)"
    by (simp add: forget_fields distinct_remove1_removeAll [OF dist] removeAll_filter_not_eq) metis
  have "lane_ids ?f key = filter (\<lambda>i. i \<noteq> rid) (lane_ids q key)"
    unfolding lane_ids_def ord filter_filter by (intro filter_cong) (auto simp: lane_key_def forget_fields)
  then have "lane_of ?f key = map (entry_of ?f) (filter (\<lambda>i. i \<noteq> rid) (lane_ids q key))" by (simp add: lane_of_def)
  also have "\<dots> = map (entry_of q) (filter (\<lambda>i. i \<noteq> rid) (lane_ids q key))"
    by (intro map_cong) (auto simp: entry_of_def forget_fields)
  also have "filter (\<lambda>i. i \<noteq> rid) (lane_ids q key) = filter (\<lambda>i. qa_ID (entry_of q i) \<noteq> rid) (lane_ids q key)"
    using entry_id [OF assms] by (intro filter_cong) (auto simp: lane_ids_def)
  finally show ?thesis by (simp add: lane_of_def filter_map comp_def)
qed

lemma lane_distinct: "queue_inv q \<Longrightarrow> distinct (map qa_ID (lane_of q key))"
proof -
  assume inv: "queue_inv q"
  have "map qa_ID (lane_of q key) = lane_ids q key"
    using entry_id [OF inv] by (auto simp: lane_of_def lane_ids_def comp_def intro!: map_idI)
  then show ?thesis using inv by (simp add: lane_ids_def queue_inv_def index_inv_def)
qed

lemma lane_disjoint:
  assumes "queue_inv q" "a \<in> set (lane_of q k)" "b \<in> set (lane_of q k')" "qa_ID a = qa_ID b"
  shows "k = k'"
  using assms entry_id [OF assms(1)] by (auto simp: lane_of_def lane_ids_def)

section \<open>The abstract lanes\<close>

text \<open>What each event may do to the lanes: an admission adds one artifact at the end of its own lane or changes nothing, a
  retirement takes its artifact out of wherever it is or changes nothing, and no other operation changes a lane.\<close>

inductive lane_step :: "queueEvent \<Rightarrow> (LaneKey \<Rightarrow> QueuedArtifact list) \<Rightarrow> (LaneKey \<Rightarrow> QueuedArtifact list) \<Rightarrow> bool" where
  stay: "lane_step e L L"
| push: "qa_Type a = kind \<Longrightarrow> qa_Payload a = payload \<Longrightarrow> qa_EnqueuedAtMS a = now \<Longrightarrow> qa_ID a = artifactID kind payload \<Longrightarrow>
    (\<forall>k. \<forall>b \<in> set (L k). qa_ID b \<noteq> qa_ID a) \<Longrightarrow> key = (recordDevice payload, LaneOf kind) \<Longrightarrow>
    lane_step (EnqueueEv kind payload now) L (L(key := L key @ [a]))"
| drop: "lane_step (RemoveEv rid) L (\<lambda>k. filter (\<lambda>a. qa_ID a \<noteq> rid) (L k))"

inductive lane_run :: "(LaneKey \<Rightarrow> QueuedArtifact list) \<Rightarrow> queueEvent list \<Rightarrow> (LaneKey \<Rightarrow> QueuedArtifact list) \<Rightarrow> bool" for L0 where
  start: "lane_run L0 [] L0"
| step: "lane_run L0 es L \<Longrightarrow> lane_step e L L' \<Longrightarrow> lane_run L0 (es @ [e]) L'"

lemma enqueue_lane:
  assumes "queue_inv q" "enqueueOrFind kind payload now q = (res, q')"
  shows "lane_step (EnqueueEv kind payload now) (lane_of q) (lane_of q')"
  using assms(2)
proof (cases rule: enqueueOrFind_cases)
  case (inserted r sz q1)
  let ?key = "(recordDevice payload, LaneOf kind)"
  have q1: "queue_inv q1" "core q1 = core q" using frame_inv [OF inserted(8)] frame_core [OF inserted(8)] assms(1) by auto
  have r: "qr_ID r = artifactID kind payload" "qr_QueueSeq r = q_nextSeq q1" "recordLane r = ?key"
    using inserted(2) core_eq(5) [OF q1(2)] by (simp_all add: new_record_def recordLane_def)
  have new: "fmlookup (q_entries q1) (artifactID kind payload) = None" using inserted(3) core_eq(1) [OF q1(2)] by simp
  have "lane_of q' k = lane_of q k @ (if ?key = k then [recordArtifact r] else [])" for k
    using lane_commit [OF q1(1) new r(1,2)] inserted(7) core_lane [OF q1(2)] r(3) by simp
  then have eq: "lane_of q' = (lane_of q)(?key := lane_of q ?key @ [recordArtifact r])" by (auto simp: fun_eq_iff)
  have "\<forall>k. \<forall>b \<in> set (lane_of q k). qa_ID b \<noteq> artifactID kind payload"
    using entry_id [OF assms(1)] not_in_order inserted(3) assms(1)
    by (force simp: lane_of_def lane_ids_def queue_inv_def)
  then show ?thesis
    unfolding eq by (intro push) (use inserted(2) in \<open>auto simp: recordArtifact_def new_record_def\<close>)
next
  case refused
  then show ?thesis using frame_lane lane_step.stay by metis
next
  case existing
  then show ?thesis using lane_step.stay by simp
qed

lemma remove_lane:
  assumes "queue_inv q" "removeLocked rid q = (err, q')"
  shows "lane_of q' = (if err = None then (\<lambda>k. filter (\<lambda>a. qa_ID a \<noteq> rid) (lane_of q k)) else lane_of q)"
  using assms(2,1)
proof (cases rule: removeLocked_cases)
  case (forgotten r q1)
  then show ?thesis using lane_forget [of q1 rid] core_lane [of q1 q] by (simp add: fun_eq_iff)
next
  case missing
  then show ?thesis by simp
next
  case kept
  then show ?thesis using core_lane [of q' q] by simp
qed

lemma queue_step_lane:
  assumes "queue_inv q"
  shows "lane_step e (lane_of q) (lane_of (queue_step e q))"
proof (cases e)
  case (EnqueueEv kind payload now)
  then show ?thesis using enqueue_lane [OF assms] by (cases "enqueueOrFind kind payload now q") simp
next
  case (RemoveEv rid)
  obtain err q1 where l: "removeLocked rid q = (err, q1)" by fastforce
  have "lane_of (snd (Remove rid q)) = lane_of q1" using l by (intro frame_lane) (simp add: Remove_def)
  then show ?thesis using remove_lane [OF assms l] RemoveEv lane_step.stay lane_step.drop by auto
next
  case (HoldEv h)
  obtain err q' where r: "Queue_Hold h q = (err, q')" by fastforce
  then show ?thesis using Queue_Hold_inv [OF assms r] core_lane [of q' q] HoldEv lane_step.stay by simp
next
  case (SetBackoffEv b)
  obtain err q' where r: "SetBackoff b q = (err, q')" by fastforce
  then show ?thesis using SetBackoff_inv [OF assms r] core_lane [of q' q] SetBackoffEv lane_step.stay by simp
next
  case (ClearBackoffEv rid)
  obtain err q' where r: "ClearBackoff rid q = (err, q')" by fastforce
  then show ?thesis using ClearBackoff_inv [OF assms r] core_lane [of q' q] ClearBackoffEv lane_step.stay by simp
next
  case (ProbeEv body)
  obtain err q' where r: "Probe body q = (err, q')" by fastforce
  then show ?thesis using frame_lane [OF Probe_frame [OF r]] ProbeEv lane_step.stay by simp
next
  case (UnconfiguredEv d)
  obtain err q' where r: "NoteUnconfiguredDevice d q = (err, q')" by fastforce
  then show ?thesis using frame_lane [OF NoteUnconfiguredDevice_frame [OF r]] UnconfiguredEv lane_step.stay by simp
next
  case (AdmittedEv d)
  then show ?thesis using frame_lane [OF NoteAdmittedDevice_frame] lane_step.stay by simp
qed

section \<open>The interface of the delivery worker\<close>

text \<open>Take the head of a lane and retire it, again and again, until the lane is empty or a retirement fails. The result
  has the artifacts retired.\<close>

fun drain_lane ::
  "('k \<Rightarrow> 'q \<Rightarrow> 'a option) \<Rightarrow> ('a \<Rightarrow> 'i) \<Rightarrow> ('i \<Rightarrow> 'q \<Rightarrow> bool \<times> 'q) \<Rightarrow> nat \<Rightarrow> 'k \<Rightarrow> 'q \<Rightarrow> 'a list \<times> 'q" where
  "drain_lane peek ident retire 0 k q = ([], q)"
| "drain_lane peek ident retire (Suc n) k q =
     (case peek k q of None \<Rightarrow> ([], q)
      | Some a \<Rightarrow>
          (case retire (ident a) q of
             (False, q') \<Rightarrow> ([], q')
           | (True, q') \<Rightarrow> (let (as, q'') = drain_lane peek ident retire n k q' in (a # as, q''))))"

locale lane_fifo =
  fixes inv :: "'q \<Rightarrow> bool"
    and lane :: "'q \<Rightarrow> 'k \<Rightarrow> 'a list"
    and ident :: "'a \<Rightarrow> 'i"
    and peek :: "'k \<Rightarrow> 'q \<Rightarrow> 'a option"
    and retire :: "'i \<Rightarrow> 'q \<Rightarrow> bool \<times> 'q"
  assumes peek_head: "inv q \<Longrightarrow> peek k q = (case lane q k of [] \<Rightarrow> None | a # _ \<Rightarrow> Some a)"
    and ids: "inv q \<Longrightarrow> distinct (map ident (lane q k))"
    and apart: "inv q \<Longrightarrow> a \<in> set (lane q k) \<Longrightarrow> b \<in> set (lane q k') \<Longrightarrow> ident a = ident b \<Longrightarrow> k = k'"
    and retired: "inv q \<Longrightarrow> retire i q = (True, q') \<Longrightarrow> inv q' \<and> (\<forall>k. lane q' k = filter (\<lambda>a. ident a \<noteq> i) (lane q k))"
    and kept: "inv q \<Longrightarrow> retire i q = (False, q') \<Longrightarrow> inv q' \<and> (\<forall>k. lane q' k = lane q k)"
begin

lemma head_retired:
  assumes "inv q" "peek k q = Some a" "retire (ident a) q = (True, q')"
  shows "inv q'" "lane q k = a # lane q' k" "k' \<noteq> k \<Longrightarrow> lane q' k' = lane q k'"
proof -
  note r = retired [OF assms(1,3)]
  show "inv q'" using r by blast
  obtain as where as: "lane q k = a # as" using assms(1,2) peek_head by (auto split: list.splits)
  then have "ident a \<notin> ident ` set as" using ids [OF assms(1), of k] by simp
  then have "\<forall>b \<in> set as. ident b \<noteq> ident a" by (metis image_eqI)
  then have "filter (\<lambda>b. ident b \<noteq> ident a) as = as" by simp
  then show "lane q k = a # lane q' k" using r as by simp
  assume "k' \<noteq> k"
  then have "\<forall>b \<in> set (lane q k'). ident b \<noteq> ident a" using apart [OF assms(1), of _ k' a k] as by auto
  then show "lane q' k' = lane q k'" using r by (auto intro!: filter_True)
qed

lemma drained:
  assumes "inv q" "drain_lane peek ident retire n k q = (as, q')"
  shows "inv q' \<and> lane q k = as @ lane q' k \<and> (\<forall>k'. k' \<noteq> k \<longrightarrow> lane q' k' = lane q k')"
  using assms
proof (induction n arbitrary: q as)
  case (Suc n)
  show ?case
  proof (cases "peek k q")
    case None
    then show ?thesis using Suc.prems by simp
  next
    case (Some a)
    obtain ok q1 where r: "retire (ident a) q = (ok, q1)" by fastforce
    show ?thesis
    proof (cases ok)
      case False
      then show ?thesis using Suc.prems Some r kept [of q "ident a" q1] by auto
    next
      case True
      then obtain bs where bs: "drain_lane peek ident retire n k q1 = (bs, q')" "as = a # bs"
        using Suc.prems Some r by (auto split: prod.splits)
      have "retire (ident a) q = (True, q1)" using r True by simp
      note h = head_retired [OF Suc.prems(1) Some this]
      from Suc.IH [OF h(1) bs(1)] show ?thesis using h(2,3) bs(2) by auto
    qed
  qed
qed simp

end

definition retire :: "string \<Rightarrow> DurableQueue \<Rightarrow> bool \<times> DurableQueue" where
  "retire rid q = (let (err, q') = Remove rid q in (err = None, q'))"

lemma retire_cases:
  assumes "queue_inv q" "retire rid q = (ok, q')"
  shows "queue_inv q'" "lane_of q' = (if ok then (\<lambda>k. filter (\<lambda>a. qa_ID a \<noteq> rid) (lane_of q k)) else lane_of q)"
proof -
  obtain err q1 where l: "removeLocked rid q = (err, q1)" by fastforce
  have r: "Remove rid q = (err, q')" "ok = (err = None)" using assms(2) l by (auto simp: retire_def Remove_def split: prod.splits)
  show "queue_inv q'" using Remove_inv [OF assms(1) r(1)] .
  have "lane_of q' = lane_of q1" using r l by (intro frame_lane) (auto simp: Remove_def)
  then show "lane_of q' = (if ok then (\<lambda>k. filter (\<lambda>a. qa_ID a \<noteq> rid) (lane_of q k)) else lane_of q)"
    using remove_lane [OF assms(1) l] r(2) by simp
qed

interpretation lf: lane_fifo queue_inv lane_of qa_ID PeekLane retire
proof
  show "PeekLane k q = (case lane_of q k of [] \<Rightarrow> None | a # _ \<Rightarrow> Some a)" for k q by (rule PeekLane_head)
  show "distinct (map qa_ID (lane_of q k))" if "queue_inv q" for q k using lane_distinct [OF that] .
  show "k = k'" if "queue_inv q" "a \<in> set (lane_of q k)" "b \<in> set (lane_of q k')" "qa_ID a = qa_ID b" for q a k b k'
    using lane_disjoint that by blast
  show "queue_inv q' \<and> (\<forall>k. lane_of q' k = filter (\<lambda>a. qa_ID a \<noteq> i) (lane_of q k))"
    if "queue_inv q" "retire i q = (True, q')" for q i q' using retire_cases [OF that] by simp
  show "queue_inv q' \<and> (\<forall>k. lane_of q' k = lane_of q k)"
    if "queue_inv q" "retire i q = (False, q')" for q i q' using retire_cases [OF that] by simp
qed

section \<open>Properties\<close>

definition sample_options :: QueueOptions where
  "sample_options = \<lparr>qo_MaxItems = 4, qo_MaxBytes = 10000000, qo_Devices = [''pump-1'', ''pump-2''], qo_ReserveDeviceShares = True,
     qo_VersionedDevices = [], qo_Faults = NewRecorder, qo_FaultSource = ''outbound''\<rparr>"

definition no_disk :: disk where
  "no_disk = \<lparr>dk_live = fmempty, dk_synced = fmempty, dk_script = [], dk_fresh = 0\<rparr>"

definition sample_queue :: DurableQueue where
  "sample_queue = (case fst (openDurableQueue sample_options ''probe'' NoDir no_disk) of Inr q \<Rightarrow> q)"

lemma sample_opens: "case openDurableQueue sample_options ''probe'' NoDir no_disk of (r, p, d) \<Rightarrow> \<not> isl r"
  by code_simp


lemma sample_opened: "\<exists>p d. openDurableQueue sample_options ''probe'' NoDir no_disk = (Inr sample_queue, p, d)"
  using sample_opens by (auto simp: sample_queue_def isl_def split: prod.splits sum.splits)

lemma no_disk_below: "seqs_below no_disk"
  by (simp add: seqs_below_def no_disk_def)

lemma sample_queue_empty: "q_order sample_queue = [] \<and> q_nextSeq sample_queue = 1 \<and> q_shareItems sample_queue = 2"
  by code_simp

lemma split_sum:
  assumes "\<forall>x \<in> set xs. P x \<longleftrightarrow> Q x \<or> R x" "\<forall>x \<in> set xs. \<not> (Q x \<and> R x)"
  shows "sum_list (map (g :: 'a \<Rightarrow> int) (filter P xs)) = sum_list (map g (filter Q xs)) + sum_list (map g (filter R xs))"
  using assms by (induction xs) auto

lemma sum_over_keys:
  fixes g :: "'a \<Rightarrow> int"
  assumes "finite S" "f ` set xs \<subseteq> S"
  shows "(\<Sum>k \<in> S. sum_list (map g (filter (\<lambda>i. f i = k) xs))) = sum_list (map g xs)"
  using assms(2)
proof (induction xs)
  case (Cons x xs)
  have "(\<Sum>k \<in> S. sum_list (map g (filter (\<lambda>i. f i = k) (x # xs)))) =
      (\<Sum>k \<in> S. (if f x = k then g x else 0) + sum_list (map g (filter (\<lambda>i. f i = k) xs)))"
    by (intro sum.cong) auto
  also have "\<dots> = g x + sum_list (map g xs)"
    using Cons assms(1) by (simp add: sum.distrib)
  finally show ?case by simp
qed simp

lemma length_as_sum: "int (length xs) = sum_list (map (\<lambda>_. 1) xs)"
  by (induction xs) auto

lemma lane_snd: "queue_inv q \<Longrightarrow> rid \<in> set (q_order q) \<Longrightarrow> snd (lane_key q rid) = LaneRegistration \<or> snd (lane_key q rid) = LaneEvidence"
  by (auto simp: queue_inv_def index_inv_def lane_key_def fmget_def recordLane_def LaneOf_def fmlookup_dom'_iff)

lemma lanes_differ: "LaneRegistration \<noteq> LaneEvidence"
  by (simp add: LaneRegistration_def LaneEvidence_def)

text \<open>The counters of the queue, read off the order.\<close>

lemma counters:
  assumes "queue_inv q"
  shows "fmget 0 (q_laneItems q) key = int (length (lane_ids q key))"
    "fmget 0 (q_laneBytes q) key = sum_list (map (size_of q) (lane_ids q key))"
    "fmget 0 (q_deviceItems q) dev = fmget 0 (q_laneItems q) (dev, LaneRegistration) + fmget 0 (q_laneItems q) (dev, LaneEvidence)"
    "fmget 0 (q_deviceBytes q) dev = fmget 0 (q_laneBytes q) (dev, LaneRegistration) + fmget 0 (q_laneBytes q) (dev, LaneEvidence)"
    "key |\<in>| fmdom (q_laneItems q) \<longleftrightarrow> lane_ids q key \<noteq> []"
proof -
  have c: "counted (lane_key q) (size_of q) (q_order q) (q_laneItems q) (q_laneBytes q)"
    "counted (\<lambda>i. fst (lane_key q i)) (size_of q) (q_order q) (q_deviceItems q) (q_deviceBytes q)"
    using assms by (simp_all add: queue_inv_def sums_inv_def)
  note l = counted_get [OF c(1), folded lane_ids_def]
  note d = counted_get [OF c(2)]
  show 1: "fmget 0 (q_laneItems q) key = int (length (lane_ids q key))" for key using l(1) .
  show 2: "fmget 0 (q_laneBytes q) key = sum_list (map (size_of q) (lane_ids q key))" for key using l(2) .
  have two: "\<forall>i \<in> set (q_order q). fst (lane_key q i) = dev \<longleftrightarrow>
      lane_key q i = (dev, LaneRegistration) \<or> lane_key q i = (dev, LaneEvidence)"
    using lane_snd [OF assms] by (auto simp: prod_eq_iff)
  have both: "sum_list (map g (filter (\<lambda>i. fst (lane_key q i) = dev) (q_order q))) =
      sum_list (map g (lane_ids q (dev, LaneRegistration))) + sum_list (map g (lane_ids q (dev, LaneEvidence)))" for g :: "string \<Rightarrow> int"
    unfolding lane_ids_def by (rule split_sum [OF two]) (use lanes_differ in auto)
  show "fmget 0 (q_deviceItems q) dev = fmget 0 (q_laneItems q) (dev, LaneRegistration) + fmget 0 (q_laneItems q) (dev, LaneEvidence)"
    unfolding d(1) 1 length_as_sum by (rule both)
  show "fmget 0 (q_deviceBytes q) dev = fmget 0 (q_laneBytes q) (dev, LaneRegistration) + fmget 0 (q_laneBytes q) (dev, LaneEvidence)"
    unfolding d(2) 2 by (rule both)
  show "key |\<in>| fmdom (q_laneItems q) \<longleftrightarrow> lane_ids q key \<noteq> []"
    using l(3) by (auto simp: lane_ids_def filter_empty_conv)
qed

text \<open>The counts the queue keeps are the counts of what it holds, whatever was admitted, refused, retired, held and
  probed since it opened, and whatever I/O failed: a lane's length is the number of its artifacts, a device's the sum of its
  two lanes, the lanes listed are those with an artifact, the bytes are the sum of the record sizes; and the number of
  records and of bytes never exceeds the configured bounds.\<close>

theorem queue_accounting:
  assumes "openDurableQueue opts body p d = (Inr q0, p', d')" "seqs_below d" "queue_run q0 es q"
  shows "queue_inv q \<and> int (Len q) \<le> qo_MaxItems opts \<and> StoredBytes q \<le> qo_MaxBytes opts
    \<and> StoredBytes q = sum_list (map (size_of q) (q_order q))
    \<and> (\<forall>key. LenLane key q = int (length (lane_of q key)))
    \<and> (\<forall>dev. LenDevice dev q = LenLane (dev, LaneRegistration) q + LenLane (dev, LaneEvidence) q)
    \<and> set (Lanes q) = {key. lane_of q key \<noteq> []}"
proof -
  note o = openDurableQueue_inv [OF assms(1,2)]
  have inv: "queue_inv q" using queue_run_inv [OF assms(3) o(1)] .
  have "limits q = limits q0" using queue_run_limits [OF assms(3) o(1)] .
  then have "q_maxItems q = qo_MaxItems opts" "q_maxBytes q = qo_MaxBytes opts" using o by (simp_all add: limits_def)
  then have "int (Len q) \<le> qo_MaxItems opts" "StoredBytes q \<le> qo_MaxBytes opts"
    using inv by (simp_all add: queue_inv_def bounds_inv_def Len_def StoredBytes_def)
  moreover have "StoredBytes q = sum_list (map (size_of q) (q_order q))"
    using inv by (simp add: queue_inv_def sums_inv_def StoredBytes_def)
  moreover have "set (Lanes q) = {key. lane_of q key \<noteq> []}"
    using counters(5) [OF inv] by (auto simp: Lanes_def lane_of_def sorted_list_of_fset.rep_eq)
  ultimately show ?thesis
    using inv counters [OF inv] by (simp add: LenLane_def LenDevice_def lane_of_def)
qed

definition sample_event :: queueEvent where
  "sample_event = EnqueueEv ArtifactDeliveryEnvelope sample_envelope 1000"

lemma sample_run: "queue_run sample_queue [sample_event] (queue_step sample_event sample_queue)"
  using queue_run.step [OF queue_run.start, of sample_queue sample_event] sample_queue_empty by (simp add: maxInt64_def)

theorem queue_accounting_witness:
  "queue_inv (queue_step sample_event sample_queue) \<and> int (Len (queue_step sample_event sample_queue)) \<le> 4"
proof -
  obtain p d where o: "openDurableQueue sample_options ''probe'' NoDir no_disk = (Inr sample_queue, p, d)"
    using sample_opened by blast
  show ?thesis using queue_accounting [OF o no_disk_below sample_run] by (simp add: sample_options_def)
qed

text \<open>C5. The queue implements first-in first-out lanes: every run of the queue is a run of the abstract lanes, in which an
  admission can only append to the lane of its own device and kind and only a retirement takes an artifact out; and what
  \<open>PeekLane\<close> gives is the oldest artifact of its lane.\<close>

theorem queue_refines_lanes:
  assumes "openDurableQueue opts body p d = (Inr q0, p', d')" "seqs_below d" "queue_run q0 es q"
  shows "lane_run (lane_of q0) es (lane_of q) \<and> (\<forall>key. PeekLane key q = (case lane_of q key of [] \<Rightarrow> None | a # _ \<Rightarrow> Some a))"
proof -
  have inv: "queue_inv q0" using openDurableQueue_inv(1) [OF assms(1,2)] .
  have "lane_run (lane_of q0) es (lane_of q)"
    using assms(3) inv
  proof (induction rule: queue_run.induct)
    case start
    show ?case by (rule lane_run.start)
  next
    case (step es q e)
    then show ?case using queue_run_inv queue_step_lane lane_run.step by blast
  qed
  then show ?thesis using PeekLane_head by blast
qed

theorem queue_refines_lanes_witness:
  "lane_run (lane_of sample_queue) [sample_event] (lane_of (queue_step sample_event sample_queue))"
proof -
  obtain p d where o: "openDurableQueue sample_options ''probe'' NoDir no_disk = (Inr sample_queue, p, d)"
    using sample_opened by blast
  show ?thesis using queue_refines_lanes [OF o no_disk_below sample_run] by blast
qed



end
