(* ===== verification/Queue_Reserve.thy ===== *)
theory Queue_Reserve
  imports Queue_Spec Queue_Codec
begin

text \<open>
  The device shares of \<open>internal/evidence/courier/queue.go\<close>: what \<open>laneShareRefusalLocked\<close> keeps true of every device, and that the
  registration it reserves room for is never refused for want of room. The bounds hold for a queue that is within its shares
  when it opens; a queue written under a larger share may open above it, and then only drains.
\<close>

section \<open>What a step can do to the accounting\<close>

lemma queue_step_cases:
  assumes "queue_inv q"
  obtains (same) "core (queue_step e q) = core q"
  | (committed) kind payload now r sz q1 where "e = EnqueueEv kind payload now"
      "r = new_record kind payload (artifactID kind payload) now q" "fmlookup (q_entries q) (artifactID kind payload) = None"
      "sz = int (length (encode_record r))" "queue_step e q = commit_record r sz q1" "core q1 = core q"
      "laneShareRefusalLocked (recordDevice payload, LaneOf kind) 0 q = None"
      "laneShareRefusalLocked (recordDevice payload, LaneOf kind) sz q = None" "Configured (recordDevice payload) q"
  | (forgot) rid q1 where "core (queue_step e q) = core (forget_record rid q1)" "core q1 = core q" "queue_inv q1"
      "rid \<in> set (q_order q)"
proof (cases e)
  case (EnqueueEv kind payload now)
  obtain res q' where r: "enqueueOrFind kind payload now q = (res, q')" by fastforce
  then show ?thesis
  proof (cases rule: enqueueOrFind_cases)
    case refused
    then show ?thesis using same frame_core [of q' q] EnqueueEv r by simp
  next
    case existing
    then show ?thesis using same EnqueueEv r by simp
  next
    case (inserted r' sz q1)
    have "core q1 = core q" using frame_core [of q1 q] inserted(8) by blast
    moreover have "queue_step e q = commit_record r' sz q1" using EnqueueEv r inserted(7) by simp
    ultimately show ?thesis by (rule committed [OF EnqueueEv inserted(2,3,6) _ _ inserted(13-15), rotated])
  qed
next
  case (RemoveEv rid)
  obtain err q1 where l: "removeLocked rid q = (err, q1)" by fastforce
  have "frame (queue_step e q) = frame q1" using l RemoveEv by (simp add: Remove_def)
  then have f: "core (queue_step e q) = core q1" using frame_core by blast
  from l assms show ?thesis
  proof (cases rule: removeLocked_cases)
    case (forgotten r q2)
    then have "rid \<in> set (q_order q)" using assms by (auto simp: queue_inv_def index_inv_def fmdom'I)
    then show ?thesis by (rule forgot [of rid q2, rotated 3]) (use forgotten f in simp_all)
  qed (use same f in simp_all)
next
  case (HoldEv h)
  then show ?thesis using same Queue_Hold_inv [OF assms] by (cases "Queue_Hold h q") simp
next
  case (SetBackoffEv b)
  then show ?thesis using same SetBackoff_inv [OF assms] by (cases "SetBackoff b q") simp
next
  case (ClearBackoffEv rid)
  then show ?thesis using same ClearBackoff_inv [OF assms] by (cases "ClearBackoff rid q") simp
next
  case (ProbeEv body)
  obtain err q' where r: "Probe body q = (err, q')" by fastforce
  then show ?thesis using same frame_core [OF Probe_frame [OF r]] ProbeEv by simp
next
  case (UnconfiguredEv d)
  obtain err q' where r: "NoteUnconfiguredDevice d q = (err, q')" by fastforce
  then show ?thesis using same frame_core [OF NoteUnconfiguredDevice_frame [OF r]] UnconfiguredEv by simp
next
  case (AdmittedEv d)
  then show ?thesis using same frame_core [OF NoteAdmittedDevice_frame] by simp
qed

section \<open>Within the shares\<close>

text \<open>Every record is of a configured device, no device is above its share, and the evidence of a device leaves room in the
  share for one registration of the largest size.\<close>

definition within_shares :: "DurableQueue \<Rightarrow> bool" where
  "within_shares q \<longleftrightarrow> (\<forall>rid \<in> set (q_order q). Configured (fst (lane_key q rid)) q)
     \<and> (\<forall>dev. fmget 0 (q_deviceItems q) dev \<le> q_shareItems q \<and> fmget 0 (q_deviceBytes q) dev \<le> q_shareBytes q
          \<and> fmget 0 (q_laneItems q) (dev, LaneEvidence) \<le> q_shareItems q - 1
          \<and> fmget 0 (q_laneBytes q) (dev, LaneEvidence) \<le> q_shareBytes q - maxQueueRecordBytes)"

lemma core_within: "core q' = core q \<Longrightarrow> within_shares q' = within_shares q"
  using core_eq [of q' q] core_views [of q' q] by (simp add: within_shares_def Configured_def)

lemma core_shares:
  assumes "core q' = core q"
  shows "laneShareRefusalLocked key sz q' = laneShareRefusalLocked key sz q" "Configured dev q' = Configured dev q"
  using core_eq [OF assms] by (simp_all add: laneShareRefusalLocked_def Configured_def Let_def)

lemma within_commit:
  assumes "index_inv q \<and> order_inv q" "within_shares q" "q_reserved q" "qr_ID r = rid" "fmlookup (q_entries q) rid = None"
    "qr_QueueSeq r = q_nextSeq q" "0 < sz" "Configured (fst (recordLane r)) q"
    "laneShareRefusalLocked (recordLane r) 0 q = None" "laneShareRefusalLocked (recordLane r) sz q = None"
  shows "within_shares (commit_record r sz q)"
proof -
  let ?c = "commit_record r sz q"
  note [simp] = commit_fields [OF assms(4)]
  have parts: "index_inv q" "order_inv q" using assms(1) by auto
  have ord: "q_order ?c = q_order q @ [rid]" using commit_order(1) [OF parts assms(5,4,6)] .
  have "Configured (fst (lane_key ?c i)) ?c" if "i \<in> set (q_order ?c)" for i
    using that assms(2,8) not_in_order [OF parts(1) assms(5)] unfolding ord
    by (cases "i = rid") (auto simp: within_shares_def lane_key_def Configured_def simp del: commit_fields(4))
  moreover have "snd (recordLane r) = LaneEvidence \<or> snd (recordLane r) = LaneRegistration"
    by (simp add: recordLane_def LaneOf_def)
  ultimately show ?thesis
    using assms(2,3,7,9,10) lanes_differ unfolding within_shares_def
    by (auto simp: laneShareRefusalLocked_def Let_def fmget_upd split: if_splits)
qed

lemma within_forget:
  assumes "queue_inv q" "queue_inv q'" "core q' = core (forget_record rid q)" "within_shares q"
  shows "within_shares q'"
proof -
  note e = core_eq [OF assms(3)] core_views [OF assms(3)]
  have dist: "distinct (q_order q)" using assms(1) by (simp add: queue_inv_def index_inv_def)
  have ord: "q_order q' = filter (\<lambda>i. i \<noteq> rid) (q_order q)"
    by (simp add: e forget_fields distinct_remove1_removeAll [OF dist] removeAll_filter_not_eq) metis
  have same: "lane_key q' i = lane_key q i" "size_of q' i = size_of q i" if "i \<noteq> rid" for i
    using that by (simp_all add: lane_key_def size_of_def e forget_fields)
  have ids: "lane_ids q' key = filter (\<lambda>i. i \<noteq> rid) (lane_ids q key)" for key
    unfolding lane_ids_def ord filter_filter using same by (intro filter_cong) auto
  have pos: "0 \<le> size_of q i" for i using assms(1) by (simp add: queue_inv_def sums_inv_def)
  have "sum_list (map (size_of q) (filter (\<lambda>i. i \<noteq> rid) xs)) \<le> sum_list (map (size_of q) xs)" for xs
    using pos by (induction xs) (auto intro: add_mono add_increasing)
  moreover have "sum_list (map (size_of q') (lane_ids q' key)) = sum_list (map (size_of q) (filter (\<lambda>i. i \<noteq> rid) (lane_ids q key)))" for key
    unfolding ids using same by (intro arg_cong [where f = sum_list] map_cong) auto
  ultimately have bytes: "fmget 0 (q_laneBytes q') key \<le> fmget 0 (q_laneBytes q) key" for key
    by (simp add: counters(2) [OF assms(1)] counters(2) [OF assms(2)])
  have items: "fmget 0 (q_laneItems q') key \<le> fmget 0 (q_laneItems q) key" for key
    by (simp add: counters(1) [OF assms(1)] counters(1) [OF assms(2)] ids)
  have dev: "fmget 0 (q_deviceItems q') dev \<le> fmget 0 (q_deviceItems q) dev"
    "fmget 0 (q_deviceBytes q') dev \<le> fmget 0 (q_deviceBytes q) dev" for dev
    using items bytes by (simp_all add: counters(3,4) [OF assms(1)] counters(3,4) [OF assms(2)] add_mono)
  have lim: "q_shareItems q' = q_shareItems q" "q_shareBytes q' = q_shareBytes q" "q_configured q' = q_configured q"
    by (simp_all add: e forget_fields)
  show ?thesis
    unfolding within_shares_def
  proof (intro conjI allI ballI)
    show "Configured (fst (lane_key q' i)) q'" if "i \<in> set (q_order q')" for i
      using that assms(4) same(1) [of i] by (simp add: ord lim within_shares_def Configured_def)
  next
    fix dev
    note w = assms(4) [unfolded within_shares_def, THEN conjunct2, rule_format, of dev]
    show "fmget 0 (q_deviceItems q') dev \<le> q_shareItems q'" "fmget 0 (q_deviceBytes q') dev \<le> q_shareBytes q'"
      "fmget 0 (q_laneItems q') (dev, LaneEvidence) \<le> q_shareItems q' - 1"
      "fmget 0 (q_laneBytes q') (dev, LaneEvidence) \<le> q_shareBytes q' - maxQueueRecordBytes"
      using w dev [of dev] items [of "(dev, LaneEvidence)"] bytes [of "(dev, LaneEvidence)"] unfolding lim by linarith+
  qed
qed

lemma encoded_positive: "0 < int (length (encode_record r))"
  by (simp add: encode_record_def record_json_def)

lemma within_step:
  assumes "queue_inv q" "q_nextSeq q < maxInt64" "q_reserved q" "within_shares q"
  shows "within_shares (queue_step e q)"
  using assms(1)
proof (cases rule: queue_step_cases [of q e])
  case same
  then show ?thesis using core_within [of "queue_step e q" q] assms(4) by blast
next
  case (committed kind payload now r sz q1)
  have lane: "recordLane r = (recordDevice payload, LaneOf kind)"
    by (simp add: committed(2) new_record_def recordLane_def)
  note c = core_eq [OF committed(6)] core_inv [OF committed(6)]
  have "within_shares (commit_record r sz q1)"
  proof (rule within_commit)
    show "index_inv q1 \<and> order_inv q1" using assms(1) by (simp add: c queue_inv_def)
    show "within_shares q1" using core_within [OF committed(6)] assms(4) by simp
    show "qr_ID r = artifactID kind payload" by (simp add: committed(2) new_record_def)
    show "qr_QueueSeq r = q_nextSeq q1" by (simp add: committed(2) new_record_def c)
    show "0 < sz" using encoded_positive committed(4) by simp
  qed (use committed(3,7-9) assms(3) in \<open>simp_all add: c lane core_shares [OF committed(6)]\<close>)
  then show ?thesis using committed(5) by simp
next
  case (forgot rid q1)
  have "within_shares q1" using core_within [OF forgot(2)] assms(4) by simp
  then show ?thesis using within_forget [OF forgot(3) queue_step_inv [OF assms(1,2)] forgot(1)] by simp
qed

lemma within_run:
  assumes "queue_run q0 es q" "queue_inv q0" "q_reserved q0" "within_shares q0"
  shows "within_shares q"
  using assms
proof (induction rule: queue_run.induct)
  case (step es q e)
  have "q_reserved q" using queue_run_limits [OF step(1,4)] step(5) by (simp add: limits_def)
  then show ?case using within_step queue_run_inv [OF step(1,4)] step by blast
qed simp

lemma open_shares:
  assumes "openDurableQueue opts body p d = (Inr q, p', d')" "seqs_below d" "qo_ReserveDeviceShares opts"
  obtains ds where "q_configured q = Some ds" "q_reserved q" "0 < int (fcard ds)" "ds = fset_of_list (qo_Devices opts)"
    "q_shareItems q = q_maxItems q div int (fcard ds)" "q_shareBytes q = q_maxBytes q div int (fcard ds)"
    "MinDeviceShareItems \<le> q_shareItems q" "MinDeviceShareBytes \<le> q_shareBytes q"
proof -
  obtain d1 q0 where q0: "set_shares opts (empty_queue opts d1) = Inr q0" and l: "limits q = limits q0"
    using openDurableQueue_limits [OF assms(1,2)] by blast
  show ?thesis
    using q0 assms(3) l by (intro that [of "fset_of_list (qo_Devices opts)"])
      (auto simp: set_shares_def empty_queue_def limits_def Let_def split: if_splits option.splits)
qed

lemma share_sum:
  fixes g :: "'a \<Rightarrow> int"
  assumes "finite S" "dev \<in> S" "\<And>k. k \<in> S \<Longrightarrow> g k \<le> u" "g dev \<le> u - m"
  shows "sum g S \<le> int (card S) * u - m"
proof -
  have "sum g (S - {dev}) \<le> int (card (S - {dev})) * u"
    using sum_bounded_above [of "S - {dev}" g u] assms(3) by simp
  moreover have "int (card (S - {dev})) = int (card S) - 1"
    using assms(1,2) card_Suc_Diff1 [of S dev] by linarith
  moreover have "sum g S = g dev + sum g (S - {dev})" using assms(1,2) by (rule sum.remove)
  ultimately show ?thesis using assms(4) by (simp add: left_diff_distrib)
qed

lemma share_total: "0 < n \<Longrightarrow> s = m div n \<Longrightarrow> n * s \<le> (m :: int)"
  by (metis add_0_right add_increasing2 less_imp_le mult_div_mod_eq order_refl pos_mod_sign)

text \<open>The totals of the queue, when one device has no registration queued: there is room for the largest one.\<close>

lemma room_for_registration:
  assumes inv: "queue_inv q" and w: "within_shares q" and ds: "q_configured q = Some ds" "0 < int (fcard ds)" "dev |\<in>| ds"
    and s: "q_shareItems q = q_maxItems q div int (fcard ds)" "q_shareBytes q = q_maxBytes q div int (fcard ds)"
    and none: "LenLane (dev, LaneRegistration) q = 0"
  shows "int (fmsize (q_entries q)) < q_maxItems q" "q_bytes q + maxQueueRecordBytes \<le> q_maxBytes q"
    "fmget 0 (q_deviceItems q) dev < q_shareItems q" "fmget 0 (q_deviceBytes q) dev + maxQueueRecordBytes \<le> q_shareBytes q"
proof -
  note l = w [unfolded within_shares_def, THEN conjunct2, rule_format]
  have empty: "lane_ids q (dev, LaneRegistration) = []" using none counters(1) [OF inv] by (simp add: LenLane_def)
  then have reg: "fmget 0 (q_laneItems q) (dev, LaneRegistration) = 0" "fmget 0 (q_laneBytes q) (dev, LaneRegistration) = 0"
    using counters(1,2) [OF inv] by simp_all
  show 3: "fmget 0 (q_deviceItems q) dev < q_shareItems q" "fmget 0 (q_deviceBytes q) dev + maxQueueRecordBytes \<le> q_shareBytes q"
    using l [of dev] reg by (simp_all add: counters(3,4) [OF inv])
  have c: "counted (\<lambda>i. fst (lane_key q i)) (size_of q) (q_order q) (q_deviceItems q) (q_deviceBytes q)"
    and b: "q_bytes q = sum_list (map (size_of q) (q_order q))"
    using inv by (simp_all add: queue_inv_def sums_inv_def)
  note g = counted_get [OF c]
  have sub: "(\<lambda>i. fst (lane_key q i)) ` set (q_order q) \<subseteq> fset ds"
    using w ds(1) by (auto simp: within_shares_def Configured_def)
  have "int (fmsize (q_entries q)) = int (length (q_order q))"
    using inv by (auto simp: queue_inv_def index_inv_def fmsize_def fmdom'_alt_def fcard.rep_eq distinct_card [symmetric])
  also have "\<dots> = (\<Sum>k \<in> fset ds. fmget 0 (q_deviceItems q) k)"
    unfolding g(1) length_as_sum by (rule sum_over_keys [OF _ sub, symmetric]) simp
  also have "\<dots> \<le> int (fcard ds) * q_shareItems q - 1"
    unfolding fcard.rep_eq by (rule share_sum [of _ dev]) (use l 3 ds(3) in auto)
  finally show "int (fmsize (q_entries q)) < q_maxItems q" using share_total [OF ds(2) s(1)] by linarith
  have "q_bytes q = (\<Sum>k \<in> fset ds. fmget 0 (q_deviceBytes q) k)"
    unfolding g(2) b by (rule sum_over_keys [OF _ sub, symmetric]) simp
  also have "\<dots> \<le> int (fcard ds) * q_shareBytes q - maxQueueRecordBytes"
    unfolding fcard.rep_eq by (rule share_sum [of _ dev]) (use l 3 ds(3) in auto)
  finally show "q_bytes q + maxQueueRecordBytes \<le> q_maxBytes q" using share_total [OF ds(2) s(2)] by linarith
qed



end
