(* ===== verification/Queue_Durable.thy ===== *)
theory Queue_Durable
  imports Queue_Spec Queue_Codec
begin

text \<open>
  Custody across crashes, for \<open>internal/evidence/courier/queue.go\<close>. The name of every file of the queue but the records starts with a
  dot, so an operation on any of them leaves the records as they are, live and on the medium. Every queued record is on the
  medium from the moment it is admitted until its retirement, and a queue that opens after a crash has it again, in its place.
\<close>

section \<open>Files that are left alone\<close>

definition hidden :: "string \<Rightarrow> bool" where
  "hidden n \<longleftrightarrow> (case n of [] \<Rightarrow> False | c # _ \<Rightarrow> c = CHR ''.'')"

definition keeps :: "string \<Rightarrow> disk \<Rightarrow> disk \<Rightarrow> bool" where
  "keeps n d d' \<longleftrightarrow> fmlookup (dk_live d') n = fmlookup (dk_live d) n
     \<and> (fmlookup (dk_synced d') n = fmlookup (dk_synced d) n \<or> fmlookup (dk_synced d') n = fmlookup (dk_live d) n)"

definition quiet :: "disk \<Rightarrow> disk \<Rightarrow> bool" where
  "quiet d d' \<longleftrightarrow> (\<forall>n. \<not> hidden n \<longrightarrow> keeps n d d')"

lemma keeps_trans: "keeps n d d1 \<Longrightarrow> keeps n d1 d2 \<Longrightarrow> keeps n d d2"
  by (auto simp: keeps_def)

lemma quiet_refl [simp]: "quiet d d"
  by (simp add: quiet_def keeps_def)

lemma quiet_trans [trans]: "quiet d d1 \<Longrightarrow> quiet d1 d2 \<Longrightarrow> quiet d d2"
  using keeps_trans by (auto simp: quiet_def)

lemma hidden_names [simp]:
  "hidden (holdFilePrefix @ rid)" "hidden (backoffFilePrefix @ rid)" "hidden probeFileName" "hidden unconfiguredFileName"
  "hidden (temp_name queueTempPrefix k)" "hidden queueMarkerName"
  by (simp_all add: hidden_def temp_name_def holdFilePrefix_def backoffFilePrefix_def probeFileName_def unconfiguredFileName_def
      queueTempPrefix_def queueMarkerName_def)

lemma not_hidden_temp: "\<not> hidden n \<Longrightarrow> not_temp queueTempPrefix n"
  using hidden_names(5) by (auto simp: not_temp_def)

lemma sidecar_not_temp:
  "not_temp queueTempPrefix (holdFilePrefix @ rid)" "not_temp queueTempPrefix (backoffFilePrefix @ rid)"
  "not_temp queueTempPrefix probeFileName" "not_temp queueTempPrefix unconfiguredFileName"
  by (simp_all add: not_temp_def temp_name_def holdFilePrefix_def backoffFilePrefix_def probeFileName_def unconfiguredFileName_def
      queueTempPrefix_def)

lemma record_name_not_hidden [simp]: "\<not> hidden (record_name (artifactID kind payload))"
proof -
  obtain c s where i: "artifactID kind payload = c # s"
    using artifactID_length [of kind payload] by (cases "artifactID kind payload") auto
  have "list_all lower_hex (artifactID kind payload)" by (simp add: artifactID_def lower_hex_encode)
  then have "lower_hex c" by (simp add: i)
  then show ?thesis by (auto simp: hidden_def record_name_def i lower_hex_def is_digit_def byte_def)
qed

lemma write_keeps:
  assumes "write_atomic queueTempPrefix name body d = (err, d')" "not_temp queueTempPrefix name" "\<not> hidden n" "n \<noteq> name"
  shows "keeps n d d'"
  using assms(1,2)
proof (cases rule: write_atomic_cases)
  case failed
  then show ?thesis using not_hidden_temp [OF assms(3)] by (simp add: keeps_def untouched_def)
next
  case written
  then show ?thesis using not_hidden_temp [OF assms(3)] assms(4) by (simp add: keeps_def)
qed

lemma remove_keeps: "RemoveFile f d = (r, d') \<Longrightarrow> n \<noteq> f \<Longrightarrow> keeps n d d'"
  unfolding keeps_def using RemoveFile_live(1,2) by simp

lemma sync_keeps: "SyncDirectory d = (ok, d') \<Longrightarrow> keeps n d d'"
  by (cases ok) (simp_all add: keeps_def SyncDirectory_live)

lemma sync_quiet: "SyncDirectory d = (ok, d') \<Longrightarrow> quiet d d'"
  by (simp add: quiet_def sync_keeps)

lemma remove_quiet: "RemoveFile f d = (r, d') \<Longrightarrow> hidden f \<Longrightarrow> quiet d d'"
  unfolding quiet_def by (intro allI impI) (erule remove_keeps, auto)

lemma write_quiet:
  "write_atomic queueTempPrefix name body d = (err, d') \<Longrightarrow> hidden name \<Longrightarrow> not_temp queueTempPrefix name \<Longrightarrow> quiet d d'"
  unfolding quiet_def by (intro allI impI) (erule write_keeps, auto)

lemma io_quiet: "io d = (ok, d') \<Longrightarrow> quiet d d'"
  using io_fields [of d ok d'] by (simp add: quiet_def keeps_def)

lemma noteStore_disk [simp]: "q_disk (noteStore b q) = q_disk q"
  by (simp add: noteStore_def)

lemma writeFileAtomic_quiet:
  "writeFileAtomic name body q = (e, q') \<Longrightarrow> hidden name \<Longrightarrow> not_temp queueTempPrefix name \<Longrightarrow> quiet (q_disk q) (q_disk q')"
  by (auto simp: writeFileAtomic_def writeFileAtomicRaw_def Let_def split: prod.splits dest!: write_quiet)

lemma remove_sidecar_quiet:
  assumes "remove_sidecar name q = (ok, q')" "hidden name"
  shows "quiet (q_disk q) (q_disk q')"
proof -
  obtain r d where r: "RemoveFile name (q_disk q) = (r, d)" by fastforce
  obtain ok' d' where s: "SyncDirectory d = (ok', d')" by fastforce
  have "quiet (q_disk q) d'" using quiet_trans [OF remove_quiet [OF r assms(2)] sync_quiet [OF s]] .
  then show ?thesis
    using assms(1) r s remove_quiet [OF r assms(2)] by (auto simp: remove_sidecar_def split: removeResult.splits)
qed

lemma removeHoldLocked_quiet: "removeHoldLocked rid q = (e, q') \<Longrightarrow> quiet (q_disk q) (q_disk q')"
  by (auto simp: removeHoldLocked_def split: if_splits prod.splits bool.splits dest!: remove_sidecar_quiet)

lemma removeBackoffLocked_quiet: "removeBackoffLocked rid q = (e, q') \<Longrightarrow> quiet (q_disk q) (q_disk q')"
  by (auto simp: removeBackoffLocked_def split: if_splits prod.splits bool.splits dest!: remove_sidecar_quiet)

lemma Queue_Hold_quiet: "quiet (q_disk q) (q_disk (snd (Queue_Hold h q)))"
  by (auto simp: Queue_Hold_def Let_def sidecar_not_temp split: option.splits prod.splits dest!: writeFileAtomic_quiet)

lemma SetBackoff_quiet: "quiet (q_disk q) (q_disk (snd (SetBackoff b q)))"
  by (auto simp: SetBackoff_def Let_def sidecar_not_temp split: option.splits prod.splits dest!: writeFileAtomic_quiet)

lemma ClearBackoff_quiet: "quiet (q_disk q) (q_disk (snd (ClearBackoff rid q)))"
  by (auto simp: ClearBackoff_def Let_def split: prod.splits dest!: removeBackoffLocked_quiet)

lemma Probe_quiet: "quiet (q_disk q) (q_disk (snd (Probe body q)))"
proof -
  obtain ok d where i: "io (q_disk q) = (ok, d)" by fastforce
  obtain e d' where w: "write_atomic queueTempPrefix probeFileName body d = (e, d')" by fastforce
  have "quiet (q_disk q) d'" using quiet_trans [OF io_quiet [OF i] write_quiet [OF w]] by (simp add: sidecar_not_temp)
  then show ?thesis
    using io_quiet [OF i]
    by (auto simp: Probe_def probe_def i w writeFileAtomicRaw_def split: bool.splits option.splits)
qed

lemma writeUnconfiguredLocked_quiet: "quiet (q_disk q) (q_disk (snd (writeUnconfiguredLocked q)))"
  by (auto simp: writeUnconfiguredLocked_def Let_def sidecar_not_temp split: option.splits prod.splits bool.splits
      dest!: writeFileAtomic_quiet remove_sidecar_quiet)

lemma NoteUnconfiguredDevice_quiet: "quiet (q_disk q) (q_disk (snd (NoteUnconfiguredDevice dev q)))"
  using writeUnconfiguredLocked_quiet [of "q\<lparr>q_faults := f, q_unconfigured := u\<rparr>" for f u]
    writeUnconfiguredLocked_quiet [of "q\<lparr>q_faults := f, q_unconfiguredOverflow := True\<rparr>" for f]
  by (simp add: NoteUnconfiguredDevice_def Let_def)

lemma NoteAdmittedDevice_quiet: "quiet (q_disk q) (q_disk (NoteAdmittedDevice dev q))"
proof -
  obtain e q1 where w: "writeUnconfiguredLocked (q\<lparr>q_unconfigured := q_unconfigured q |-| {|dev|}\<rparr>) = (e, q1)" by fastforce
  then have "quiet (q_disk q) (q_disk q1)"
    using writeUnconfiguredLocked_quiet [of "q\<lparr>q_unconfigured := q_unconfigured q |-| {|dev|}\<rparr>"] by simp
  then show ?thesis by (simp add: NoteAdmittedDevice_def w split: option.splits)
qed

section \<open>Records on the medium\<close>

definition stored :: "string \<Rightarrow> queueRecord \<Rightarrow> disk \<Rightarrow> bool" where
  "stored rid r d \<longleftrightarrow> (\<exists>e. fmlookup (dk_live d) (record_name rid) = Some e \<and> de_kind e = Regular \<and> de_private e
     \<and> decode_record (de_body e) = Some r
     \<and> (\<exists>e'. fmlookup (dk_synced d) (record_name rid) = Some e' \<and> de_kind e' = Regular \<and> de_private e'
          \<and> decode_record (de_body e') = Some r))"

definition durable :: "DurableQueue \<Rightarrow> bool" where
  "durable q \<longleftrightarrow> (\<forall>rid r. fmlookup (q_entries q) rid = Some r \<longrightarrow> decode_record (encode_record r) = Some r \<and> stored rid r (q_disk q))"

lemma stored_keeps: "keeps (record_name rid) d d' \<Longrightarrow> stored rid r d \<Longrightarrow> stored rid r d'"
  by (auto simp: stored_def keeps_def)

lemma entry_not_hidden: "queue_inv q \<Longrightarrow> fmlookup (q_entries q) rid = Some r \<Longrightarrow> \<not> hidden (record_name rid)"
  using record_name_not_hidden [of "qr_Type r" "qr_Payload r"] by (auto simp: queue_inv_def index_inv_def record_ok_def)

lemma durable_quiet:
  assumes "queue_inv q" "durable q" "q_entries q' = q_entries q" "quiet (q_disk q) (q_disk q')"
  shows "durable q'"
  using assms(2-4) stored_keeps entry_not_hidden [OF assms(1)] unfolding durable_def quiet_def by metis

text \<open>A write of a record that succeeds stores it; one of a record that is stored keeps it stored even when it fails.\<close>

lemma write_stores:
  assumes "write_atomic queueTempPrefix (record_name rid) (encode_record r) d = (None, d')" "\<not> hidden (record_name rid)"
    and "decode_record (encode_record r) = Some r"
  shows "stored rid r d'"
  using assms(1) not_hidden_temp [OF assms(2)]
proof (cases rule: write_atomic_cases)
  case written
  then show ?thesis using not_hidden_temp [OF assms(2)] assms(3) by (simp add: stored_def private_file_def)
qed simp

lemma record_name_inj [simp]: "record_name a = record_name b \<longleftrightarrow> a = b"
  by (simp add: record_name_def)

lemma enqueue_disk:
  assumes "enqueueOrFind kind payload now q = (res, q')"
  shows "q_disk q' = q_disk q \<or> fmlookup (q_entries q) (artifactID kind payload) = None
    \<and> (\<exists>e r. write_atomic queueTempPrefix (record_name (artifactID kind payload)) (encode_record r) (q_disk q) = (e, q_disk q'))"
proof -
  let ?rid = "artifactID kind payload"
  define r where "r = new_record kind payload ?rid now q"
  obtain e d where w: "write_atomic queueTempPrefix (record_name ?rid) (encode_record r) (q_disk q) = (e, d)" by fastforce
  have "qr_ID r = ?rid" by (simp add: r_def new_record_def)
  then have wr: "writeRecord r (encode_record r) q = (e, noteStore (e \<noteq> None) (q\<lparr>q_disk := d\<rparr>))"
    by (simp add: writeRecord_def writeFileAtomic_def writeFileAtomicRaw_def w)
  have "q_disk (snd (insertLocked kind payload ?rid now q)) \<in> {q_disk q, d}"
    unfolding insertLocked_def not_configured Let_def r_def [symmetric] wr
    by (simp add: commit_fields split: option.splits)
  then have "q_disk q' = q_disk q \<or> fmlookup (q_entries q) ?rid = None \<and> q_disk q' = d"
    using assms by (auto simp: enqueueOrFind_def Let_def split: if_splits option.splits prod.splits sum.splits)
  then show ?thesis using w by blast
qed

lemma enqueue_keeps:
  assumes "queue_inv q" "enqueueOrFind kind payload now q = (res, q')" "fmlookup (q_entries q) rid = Some r"
  shows "keeps (record_name rid) (q_disk q) (q_disk q')"
  using enqueue_disk [OF assms(2)]
proof
  assume "q_disk q' = q_disk q"
  then show ?thesis by (simp add: keeps_def)
next
  let ?new = "artifactID kind payload"
  assume a: "fmlookup (q_entries q) ?new = None
    \<and> (\<exists>e r. write_atomic queueTempPrefix (record_name ?new) (encode_record r) (q_disk q) = (e, q_disk q'))"
  then have "rid \<noteq> ?new" using assms(3) by auto
  then show ?thesis
    using a write_keeps not_hidden_temp [OF record_name_not_hidden] entry_not_hidden [OF assms(1,3)] record_name_inj by metis
qed

lemma enqueue_durable:
  assumes inv: "queue_inv q" and d: "durable q" and e: "enqueueOrFind kind payload now q = (res, q')"
    and seq: "q_nextSeq q < maxInt64" and now: "now \<le> maxInt64"
  shows "durable q'"
  using e
proof (cases rule: enqueueOrFind_cases)
  case existing
  then show ?thesis using d by simp
next
  case (inserted r sz q1)
  let ?rid = "artifactID kind payload"
  have ok: "record_ok ?rid r" using new_record_ok [OF inv inserted(4,5,10)] inserted(2) by simp
  have rt: "decode_record (encode_record r) = Some r"
  proof (rule decode_encode_record)
    show "plain (qr_ID r)" "plain (qr_Type r)" using ok by (auto simp: record_ok_def validQueueArtifactType_plain)
    show "in_int64 (qr_V r)" "in_int64 (qr_QueueSeq r)" "in_int64 (qr_EnqueuedAtMS r)"
      using ok seq now inserted(2) by (auto simp: record_ok_def new_record_def queueRecordVersion_def in_int64_def minInt64_def maxInt64_def)
  qed
  have c: "core q1 = core q" using inserted(8) frame_core by blast
  have ents: "q_entries q' = fmupd ?rid r (q_entries q)" and dsk: "q_disk q' = q_disk q1"
    using inserted(7) ok commit_fields [of r ?rid] core_eq(1) [OF c] by (simp_all add: record_ok_def)
  have new: "stored ?rid r (q_disk q')"
    using write_stores [OF inserted(9) record_name_not_hidden rt] dsk by simp
  have old: "stored i s (q_disk q')" if "fmlookup (q_entries q) i = Some s" "i \<noteq> ?rid" for i s
    using stored_keeps [OF enqueue_keeps [OF inv e that(1)]] d that(1) by (simp add: durable_def)
  show ?thesis using new old rt d by (auto simp: durable_def ents)
next
  case (refused x)
  have "q_entries q' = q_entries q" using frame_core [OF refused(2)] core_eq(1) by blast
  then show ?thesis using d stored_keeps [OF enqueue_keeps [OF inv e]] by (simp add: durable_def)
qed

lemma remove_nothing: "RemoveFile f d = (r, d') \<Longrightarrow> r \<noteq> Removed \<Longrightarrow> keeps n d d'"
  unfolding keeps_def using RemoveFile_live(1,4) by simp

lemma removeLocked_disk:
  assumes inv: "queue_inv q" and d: "durable q" and e: "removeLocked rid q = (err, q')"
    and ok: "\<And>x. err \<noteq> Some (RetirementRestore x)"
  shows "\<And>i s. fmlookup (q_entries q) i = Some s \<Longrightarrow> i \<noteq> rid \<Longrightarrow> stored i s (q_disk q')"
    "err \<noteq> None \<Longrightarrow> fmlookup (q_entries q) rid = Some r \<Longrightarrow> stored rid r (q_disk q')"
proof -
  have st: "stored i s (q_disk q)" "decode_record (encode_record s) = Some s" if "fmlookup (q_entries q) i = Some s" for i s
    using d that by (simp_all add: durable_def)
  have "(\<forall>i s. fmlookup (q_entries q) i = Some s \<longrightarrow> i \<noteq> rid \<longrightarrow> stored i s (q_disk q'))
    \<and> (err \<noteq> None \<longrightarrow> (\<forall>r. fmlookup (q_entries q) rid = Some r \<longrightarrow> stored rid r (q_disk q')))"
  proof (cases "fmlookup (q_entries q) rid")
    case None
    then show ?thesis using e st by (simp add: removeLocked_def)
  next
    case (Some r)
    obtain e1 qh where h: "removeHoldLocked rid q = (e1, qh)" by fastforce
    obtain e2 qb where b: "removeBackoffLocked rid qh = (e2, qb)" by fastforce
    have q1: "quiet (q_disk q) (q_disk qh)" using removeHoldLocked_quiet [OF h] .
    have q2: "quiet (q_disk q) (q_disk qb)" using quiet_trans [OF q1 removeBackoffLocked_quiet [OF b]] .
    have sq: "stored i s d'" if "quiet (q_disk q) d'" "fmlookup (q_entries q) i = Some s" for i s d'
      using st(1) [OF that(2)] stored_keeps that(1) entry_not_hidden [OF inv that(2)] by (auto simp: quiet_def)
    obtain res d2 where rm: "RemoveFile (record_name rid) (q_disk qb) = (res, d2)" by fastforce
    obtain ok3 d3 where sy: "SyncDirectory d2 = (ok3, d3)" by fastforce
    obtain e4 d4 where wr: "write_atomic queueTempPrefix (record_name rid) (encode_record r) d3 = (e4, d4)" by fastforce
    have rid: "qr_ID r = rid" using inv Some by (auto simp: queue_inv_def index_inv_def record_ok_def)
    have w: "writeRecord r (encode_record r) (qb\<lparr>q_disk := d3\<rparr>) = (e4, noteStore (e4 \<noteq> None) (qb\<lparr>q_disk := d4\<rparr>))"
      by (simp add: writeRecord_def writeFileAtomic_def writeFileAtomicRaw_def rid wr)
    have nh: "\<not> hidden (record_name rid)" using entry_not_hidden [OF inv Some] .
    have o2: "stored i s d2" if "fmlookup (q_entries q) i = Some s" "i \<noteq> rid" for i s
      using sq [OF q2 that(1)] stored_keeps remove_keeps [OF rm] that(2) record_name_inj by metis
    have o3: "stored i s d3" if "fmlookup (q_entries q) i = Some s" "i \<noteq> rid" for i s
      using o2 [OF that] stored_keeps sync_keeps [OF sy] by metis
    have o4: "stored i s d4" if "fmlookup (q_entries q) i = Some s" "i \<noteq> rid" for i s
      using o3 [OF that] stored_keeps write_keeps [OF wr not_hidden_temp [OF nh]] entry_not_hidden [OF inv that(1)] that(2)
        record_name_inj by metis
    have own2: "stored rid r d2" if "res \<noteq> Removed"
      using sq [OF q2 Some] stored_keeps remove_nothing [OF rm that] by metis
    have own4: "stored rid r d4" if "e4 = None" using write_stores [OF wr [unfolded that] nh st(2) [OF Some]] .
    have eq: "(err, q') =
      (case e1 of Some e \<Rightarrow> (Some e, qh) | None \<Rightarrow> case e2 of Some e \<Rightarrow> (Some e, qb) | None \<Rightarrow>
       case res of Removed \<Rightarrow>
           if ok3 then (None, forget_record rid (qb\<lparr>q_disk := d3\<rparr>))
           else (case e4 of Some e \<Rightarrow> (Some (RetirementRestore e), noteStore True (qb\<lparr>q_disk := d4\<rparr>))
                 | None \<Rightarrow> (Some RetirementUnsynced, noteStore False (qb\<lparr>q_disk := d4\<rparr>)))
         | _ \<Rightarrow> (Some Retirement, qb\<lparr>q_disk := d2\<rparr>))"
      unfolding e [symmetric]
      by (cases e1; cases e2; cases res; cases ok3; cases e4) (simp_all add: removeLocked_def Some h b rm sy w)
    consider "q' = qh" | "q' = qb" | "q_disk q' = d3" "err = None" | "e4 = None" "q_disk q' = d4" | "res \<noteq> Removed" "q_disk q' = d2"
      using eq ok by (auto simp: forget_fields split: option.splits removeResult.splits if_splits)
    then show ?thesis
      by cases (use sq [OF q1] sq [OF q2] o2 o3 o4 own2 own4 Some in \<open>auto\<close>)
  qed
  then show "\<And>i s. fmlookup (q_entries q) i = Some s \<Longrightarrow> i \<noteq> rid \<Longrightarrow> stored i s (q_disk q')"
    "err \<noteq> None \<Longrightarrow> fmlookup (q_entries q) rid = Some r \<Longrightarrow> stored rid r (q_disk q')" by blast+
qed

lemma Remove_durable:
  assumes inv: "queue_inv q" and d: "durable q" and ok: "\<And>x. fst (Remove rid q) \<noteq> Some (RetirementRestore x)"
  shows "durable (snd (Remove rid q))"
proof -
  obtain err q' where e: "removeLocked rid q = (err, q')" by fastforce
  have ok': "err \<noteq> Some (RetirementRestore x)" for x using ok e by (simp add: Remove_def)
  note disk = removeLocked_disk [OF inv d e ok']
  have same: "q_disk (snd (Remove rid q)) = q_disk q'" "q_entries (snd (Remove rid q)) = q_entries q'"
    using e by (auto simp: Remove_def noteStore_def)
  have rt: "decode_record (encode_record s) = Some s" if "fmlookup (q_entries q) i = Some s" for i s
    using d that by (simp add: durable_def)
  from e inv have "durable q'"
  proof (cases rule: removeLocked_cases)
    case missing
    then show ?thesis using d by simp
  next
    case (kept x r)
    have "q_entries q' = q_entries q" using core_eq(1) [OF kept(3)] .
    moreover have "stored i s (q_disk q')" if "fmlookup (q_entries q) i = Some s" for i s
      using disk that kept(1) by (cases "i = rid") auto
    ultimately show ?thesis using rt by (simp add: durable_def)
  next
    case (forgotten r q1 d1 d2)
    have "q_entries q' = fmdrop rid (q_entries q)" using forgotten(2) core_eq(1) [OF forgotten(3)] by (simp add: forget_fields)
    then show ?thesis using rt disk(1) by (auto simp: durable_def split: if_splits)
  qed
  then show ?thesis by (simp add: durable_def same)
qed

text \<open>A run in which no retirement loses the file it could not put back. The times fit their type.\<close>

definition kept_event :: "queueEvent \<Rightarrow> DurableQueue \<Rightarrow> bool" where
  "kept_event e q \<longleftrightarrow> (case e of EnqueueEv _ _ now \<Rightarrow> now \<le> maxInt64
     | RemoveEv rid \<Rightarrow> (case fst (Remove rid q) of Some (RetirementRestore _) \<Rightarrow> False | _ \<Rightarrow> True) | _ \<Rightarrow> True)"

inductive kept_run :: "DurableQueue \<Rightarrow> queueEvent list \<Rightarrow> DurableQueue \<Rightarrow> bool" for q0 where
  start: "kept_run q0 [] q0"
| step: "kept_run q0 es q \<Longrightarrow> q_nextSeq q < maxInt64 \<Longrightarrow> kept_event e q \<Longrightarrow> kept_run q0 (es @ [e]) (queue_step e q)"

lemma kept_run_run: "kept_run q0 es q \<Longrightarrow> queue_run q0 es q"
  by (induction rule: kept_run.induct) (auto intro: queue_run.intros)

lemma step_durable:
  assumes "queue_inv q" "durable q" "q_nextSeq q < maxInt64" "kept_event e q"
  shows "durable (queue_step e q)"
proof (cases e)
  case (EnqueueEv kind payload now)
  obtain res q' where "enqueueOrFind kind payload now q = (res, q')" by fastforce
  then show ?thesis using enqueue_durable [OF assms(1,2) _ assms(3)] assms(4) EnqueueEv by (simp add: kept_event_def)
next
  case (RemoveEv rid)
  have "fst (Remove rid q) \<noteq> Some (RetirementRestore x)" for x using assms(4) RemoveEv by (auto simp: kept_event_def)
  then show ?thesis using Remove_durable [OF assms(1,2)] RemoveEv by simp
next
  case (HoldEv h)
  obtain err q' where r: "Queue_Hold h q = (err, q')" by fastforce
  then show ?thesis
    using durable_quiet [OF assms(1,2)] core_eq(1) [OF Queue_Hold_inv [OF assms(1) r, THEN conjunct1]] Queue_Hold_quiet [of q h] HoldEv by simp
next
  case (SetBackoffEv b)
  obtain err q' where r: "SetBackoff b q = (err, q')" by fastforce
  then show ?thesis
    using durable_quiet [OF assms(1,2)] core_eq(1) [OF SetBackoff_inv [OF assms(1) r, THEN conjunct1]] SetBackoff_quiet [of q b] SetBackoffEv by simp
next
  case (ClearBackoffEv rid)
  obtain err q' where r: "ClearBackoff rid q = (err, q')" by fastforce
  then show ?thesis
    using durable_quiet [OF assms(1,2)] core_eq(1) [OF ClearBackoff_inv [OF assms(1) r, THEN conjunct1]] ClearBackoff_quiet [of q rid] ClearBackoffEv by simp
next
  case (ProbeEv body)
  obtain err q' where r: "Probe body q = (err, q')" by fastforce
  then show ?thesis
    using durable_quiet [OF assms(1,2)] core_eq(1) [OF frame_core [OF Probe_frame [OF r], THEN conjunct1]] Probe_quiet [of q body] ProbeEv by simp
next
  case (UnconfiguredEv dev)
  obtain err q' where r: "NoteUnconfiguredDevice dev q = (err, q')" by fastforce
  then show ?thesis
    using durable_quiet [OF assms(1,2)] core_eq(1) [OF frame_core [OF NoteUnconfiguredDevice_frame [OF r], THEN conjunct1]]
      NoteUnconfiguredDevice_quiet [of q dev] UnconfiguredEv by simp
next
  case (AdmittedEv dev)
  then show ?thesis
    using durable_quiet [OF assms(1,2)] core_eq(1) [OF frame_core [OF NoteAdmittedDevice_frame, THEN conjunct1]]
      NoteAdmittedDevice_quiet [of q dev] by simp
qed

lemma run_durable: "kept_run q0 es q \<Longrightarrow> queue_inv q0 \<Longrightarrow> durable q0 \<Longrightarrow> durable q"
  by (induction rule: kept_run.induct) (use kept_run_run queue_run_inv step_durable in blast)+

section \<open>Loading\<close>

lemma decode_members_inv:
  assumes "decode_members names strict store ms x = Some y" "P x" "\<And>f v x y. P x \<Longrightarrow> store f v x = Some y \<Longrightarrow> P y"
  shows "P y"
  using assms(1,2) by (induction ms arbitrary: x) (auto split: option.splits if_splits, meson assms(3))

lemma decode_record_int64:
  assumes "decode_record raw = Some r"
  shows "in_int64 (qr_V r) \<and> in_int64 (qr_QueueSeq r) \<and> in_int64 (qr_EnqueuedAtMS r)"
proof -
  let ?P = "\<lambda>r. in_int64 (qr_V r) \<and> in_int64 (qr_QueueSeq r) \<and> in_int64 (qr_EnqueuedAtMS r)"
  have z: "?P zero_record" by (simp add: zero_record_def in_int64_def minInt64_def maxInt64_def)
  have s: "?P y" if "?P x" "store_record f v x = Some y" for f v x y
    using that by (auto simp: store_record_def decode_int64_def split: if_splits json.splits dest: parseInt64_range)
  obtain j where j: "decode_struct record_fields False store_record j zero_record = Some r"
    using assms by (auto simp: decode_record_def Unmarshal_def split: option.splits)
  show ?thesis
    using j z decode_members_inv [of record_fields False store_record _ zero_record r ?P, OF _ z s]
    by (auto simp: decode_struct_def split: json.splits)
qed

definition file_of :: "disk \<Rightarrow> string \<Rightarrow> queueRecord \<Rightarrow> bool" where
  "file_of d rid r \<longleftrightarrow> (\<exists>e. fmlookup (dk_live d) (record_name rid) = Some e \<and> de_kind e = Regular \<and> de_private e
     \<and> decode_record (de_body e) = Some r) \<and> record_ok rid r"

lemma file_of_quiet: "quiet d d' \<Longrightarrow> file_of d' rid r \<Longrightarrow> file_of d rid r"
  using record_name_not_hidden [of "qr_Type r" "qr_Payload r"] by (auto simp: file_of_def quiet_def keeps_def record_ok_def)

lemma readPrivate_quiet: "readPrivate n d = (res, d') \<Longrightarrow> quiet d d'"
  using readPrivate_disk(1,2) by (simp add: quiet_def keeps_def)

lemma prefix_hidden: "HasPrefix n (c # p) \<Longrightarrow> c = CHR ''.'' \<Longrightarrow> hidden n"
  by (cases n) (auto simp: HasPrefix_def hidden_def)

lemma load_entry_files:
  assumes "load_entry n l = (None, l')"
  shows "quiet (q_disk (ld_queue l)) (q_disk (ld_queue l')) \<and>
    (hidden n \<and> q_entries (ld_queue l') = q_entries (ld_queue l) \<or>
     (\<exists>r. n = record_name (qr_ID r) \<and> fmlookup (q_entries (ld_queue l)) (qr_ID r) = None
        \<and> q_entries (ld_queue l') = fmupd (qr_ID r) r (q_entries (ld_queue l)) \<and> file_of (q_disk (ld_queue l)) (qr_ID r) r))"
proof -
  let ?d = "q_disk (ld_queue l)"
  let ?other = "n = queueMarkerName \<or> HasPrefix n FilePrefix \<or> n = probeFileName \<or> n = unconfiguredFileName
      \<or> HasPrefix n holdFilePrefix \<or> HasPrefix n backoffFilePrefix \<or> HasPrefix n queueTempPrefix"
  show ?thesis
  proof (cases ?other)
    case True
    obtain res d1 where rm: "RemoveFile n ?d = (res, d1)" by fastforce
    have h: "hidden n"
      using True prefix_hidden by (auto simp: FilePrefix_def holdFilePrefix_def backoffFilePrefix_def queueTempPrefix_def)
    have "quiet ?d d1" using remove_quiet [OF rm h] .
    then have "quiet ?d (q_disk (ld_queue l')) \<and> q_entries (ld_queue l') = q_entries (ld_queue l)"
      using assms True rm by (auto simp: load_entry_def Let_def split: if_splits removeResult.splits)
    then show ?thesis using h by blast
  next
    case False
    obtain rp d2 where rd: "readPrivate n ?d = (rp, d2)" by fastforce
    from assms False rd obtain raw r where r: "rp = Inr raw"
      "record_check n raw (l\<lparr>ld_queue := ld_queue l\<lparr>q_disk := d2\<rparr>\<rparr>) = Inr r"
      "l' = load_record r (int (length raw)) (l\<lparr>ld_queue := ld_queue l\<lparr>q_disk := d2\<rparr>\<rparr>)"
      by (auto simp: load_entry_def Let_def split: if_splits sum.splits)
    have "file_of ?d (qr_ID r) r \<and> n = record_name (qr_ID r) \<and> fmlookup (q_entries (ld_queue l)) (qr_ID r) = None"
      using readPrivate_disk(3) [OF rd r(1)] record_check_Inr [OF r(2)] by (auto simp: file_of_def)
    then show ?thesis
      using readPrivate_quiet [OF rd] r(3) by (auto simp: load_record_def indexLocked_def Let_def)
  qed
qed

lemma load_entries_files:
  "load_entries ns l = (None, l') \<Longrightarrow> quiet (q_disk (ld_queue l)) (q_disk (ld_queue l'))
     \<and> (\<forall>rid r. fmlookup (q_entries (ld_queue l)) rid = Some r \<longrightarrow> fmlookup (q_entries (ld_queue l')) rid = Some r)
     \<and> (\<forall>rid r. fmlookup (q_entries (ld_queue l')) rid = Some r \<longrightarrow>
          fmlookup (q_entries (ld_queue l)) rid = Some r \<or> file_of (q_disk (ld_queue l)) rid r)
     \<and> (\<forall>n \<in> set ns. hidden n \<or> (\<exists>rid r. n = record_name rid \<and> fmlookup (q_entries (ld_queue l')) rid = Some r))"
proof (induction ns arbitrary: l)
  case (Cons n ns)
  then obtain l1 where l1: "load_entry n l = (None, l1)" "load_entries ns l1 = (None, l')"
    by (auto split: prod.splits option.splits)
  note f = load_entry_files [OF l1(1)] and ih = Cons.IH [OF l1(2)]
  have q: "quiet (q_disk (ld_queue l)) (q_disk (ld_queue l1))" using f by blast
  have keep: "fmlookup (q_entries (ld_queue l1)) rid = Some r" if "fmlookup (q_entries (ld_queue l)) rid = Some r" for rid r
    using f that by auto
  have orig: "fmlookup (q_entries (ld_queue l)) rid = Some r \<or> file_of (q_disk (ld_queue l)) rid r"
    if "fmlookup (q_entries (ld_queue l1)) rid = Some r" for rid r
    using f that by (auto split: if_splits)
  have own: "hidden n \<or> (\<exists>rid r. n = record_name rid \<and> fmlookup (q_entries (ld_queue l1)) rid = Some r)"
    using f by auto
  show ?case
    using quiet_trans [OF q] ih keep orig own file_of_quiet [OF q] by (simp, blast)
qed simp

lemma loadHolds_quiet: "loadHolds ns q = (e, q') \<Longrightarrow> quiet (q_disk q) (q_disk q') \<and> q_entries q' = q_entries q"
proof (induction ns arbitrary: q)
  case (Cons n ns)
  obtain res d where rd: "readPrivate n (q_disk q) = (res, d)" by fastforce
  have q: "quiet (q_disk q) d" using readPrivate_quiet [OF rd] .
  have ih: "quiet (q_disk q) (q_disk q') \<and> q_entries q' = q_entries q"
    if "loadHolds ns (q\<lparr>q_disk := d, q_holds := h\<rparr>) = (e, q')" for h
    using Cons.IH [OF that] quiet_trans [OF q] by simp
  show ?case
    using Cons.prems rd q ih by (auto simp: Let_def split: sum.splits option.splits if_splits)
qed simp

lemma loadBackoffs_quiet: "loadBackoffs ns q = (e, q') \<Longrightarrow> quiet (q_disk q) (q_disk q') \<and> q_entries q' = q_entries q"
proof (induction ns arbitrary: q)
  case (Cons n ns)
  obtain res d where rd: "readPrivate n (q_disk q) = (res, d)" by fastforce
  have q: "quiet (q_disk q) d" using readPrivate_quiet [OF rd] .
  have ih: "quiet (q_disk q) (q_disk q') \<and> q_entries q' = q_entries q"
    if "loadBackoffs ns (q\<lparr>q_disk := d, q_backoffs := h\<rparr>) = (e, q')" for h
    using Cons.IH [OF that] quiet_trans [OF q] by simp
  show ?case
    using Cons.prems rd q ih by (auto simp: Let_def split: sum.splits option.splits if_splits)
qed simp

lemma loadUnconfigured_quiet: "loadUnconfigured p q = (e, q') \<Longrightarrow> quiet (q_disk q) (q_disk q') \<and> q_entries q' = q_entries q"
  by (auto simp: loadUnconfigured_def Let_def readPrivate_quiet split: sum.splits option.splits if_splits prod.splits)

lemma load_files:
  assumes "load q = (None, q')" "q_entries q = fmempty"
  shows "quiet (q_disk q) (q_disk q')" "\<And>rid r. fmlookup (q_entries q') rid = Some r \<Longrightarrow> file_of (q_disk q) rid r"
    "\<And>n e. fmlookup (dk_live (q_disk q)) n = Some e \<Longrightarrow> \<not> hidden n \<Longrightarrow>
       \<exists>rid r. n = record_name rid \<and> fmlookup (q_entries q') rid = Some r"
proof -
  obtain b0 d where i: "io (q_disk q) = (b0, d)" by fastforce
  let ?l0 = "\<lparr>ld_queue = q\<lparr>q_disk := d\<rparr>, ld_seen = {||}, ld_holds = [], ld_backoffs = [], ld_unconfigured = False\<rparr>"
  obtain e1 l where l: "load_entries (dir_names d) ?l0 = (e1, l)" by fastforce
  let ?s = "sortOrder (ld_queue l)"
  obtain e2 q2 where h: "loadHolds (ld_holds l) ?s = (e2, q2)" by fastforce
  obtain e3 q3 where b: "loadBackoffs (ld_backoffs l) q2 = (e3, q3)" by fastforce
  have ok: "e1 = None" "loadUnconfigured (ld_unconfigured l) q3 = (None, q')"
    using assms(1) i l h b by (auto simp: load_def Let_def split: if_splits option.splits)
  note f = load_entries_files [OF l [unfolded ok(1)]]
  note r = loadHolds_quiet [OF h] loadBackoffs_quiet [OF b] loadUnconfigured_quiet [OF ok(2)]
  have s: "q_disk ?s = q_disk (ld_queue l)" "q_entries ?s = q_entries (ld_queue l)" by (simp_all add: sortOrder_def)
  have ents: "q_entries q' = q_entries (ld_queue l)" using r s by simp
  have "quiet d (q_disk (ld_queue l))" using f by simp
  then have "quiet d (q_disk q')" using r s(1) by (metis quiet_trans)
  then show "quiet (q_disk q) (q_disk q')" using quiet_trans [OF io_quiet [OF i]] by blast
  show "file_of (q_disk q) rid r" if "fmlookup (q_entries q') rid = Some r" for rid r
    using f that assms(2) file_of_quiet [OF io_quiet [OF i]] by (simp add: ents)
  show "\<exists>rid r. n = record_name rid \<and> fmlookup (q_entries q') rid = Some r"
    if "fmlookup (dk_live (q_disk q)) n = Some e" "\<not> hidden n" for n e
  proof -
    have "n \<in> set (dir_names d)"
      using that(1) io_fields [OF i] by (auto simp: dir_names_def sorted_list_of_fset.rep_eq fmlookup_dom_iff)
    then show ?thesis using f that(2) by (simp add: ents) blast
  qed
qed

lemma WriteFile_quiet: "WriteFile n body d = (ok, d') \<Longrightarrow> hidden n \<Longrightarrow> quiet d d'"
  unfolding quiet_def keeps_def using WriteFile_live(1,2) by metis

lemma marker_quiet: "quiet d (snd (ensureQueueMarker may d))"
proof -
  obtain ok1 d1 where 1: "WriteFile queueMarkerName [] d = (ok1, d1)" by fastforce
  obtain ok2 d2 where 2: "WriteFile queueMarkerName queueMarkerBody d1 = (ok2, d2)" by fastforce
  obtain ok3 d3 where 3: "io d2 = (ok3, d3)" by fastforce
  obtain ok4 d4 where 4: "io d3 = (ok4, d4)" by fastforce
  obtain ok5 d5 where 5: "SyncDirectory d4 = (ok5, d5)" by fastforce
  obtain ok6 d6 where 6: "io d = (ok6, d6)" by fastforce
  obtain ok7 d7 where 7: "io d6 = (ok7, d7)" by fastforce
  have q1: "quiet d d1" using WriteFile_quiet [OF 1] by simp
  have q2: "quiet d d2" using quiet_trans [OF q1 WriteFile_quiet [OF 2]] by simp
  have q3: "quiet d d3" using quiet_trans [OF q2 io_quiet [OF 3]] .
  have q4: "quiet d d4" using quiet_trans [OF q3 io_quiet [OF 4]] .
  have q5: "quiet d d5" using quiet_trans [OF q4 sync_quiet [OF 5]] .
  have q7: "quiet d d6" "quiet d d7" using quiet_trans [OF io_quiet [OF 6] io_quiet [OF 7]] io_quiet [OF 6] by simp_all
  have rm: "quiet d (snd (RemoveFile queueMarkerName d'))" if "quiet d d'" for d'
    using quiet_trans [OF that remove_quiet [of queueMarkerName d']] by (cases "RemoveFile queueMarkerName d'") simp
  show ?thesis
    unfolding ensureQueueMarker_def by (simp add: 1 2 3 4 5 6 7 q1 q2 q3 q4 q5 q7 rm split: option.splits)
qed

lemma directory_quiet: "ensurePrivateQueueDirectory p d = (e, p', d') \<Longrightarrow> quiet d d'"
proof -
  assume e: "ensurePrivateQueueDirectory p d = (e, p', d')"
  obtain ok1 d1 where 1: "io d = (ok1, d1)" by fastforce
  obtain ok2 d2 where 2: "io d1 = (ok2, d2)" by fastforce
  obtain ok3 d3 where 3: "io d2 = (ok3, d3)" by fastforce
  obtain ok4 d4 where 4: "io d3 = (ok4, d4)" by fastforce
  obtain ok5 d5 where 5: "io d4 = (ok5, d5)" by fastforce
  have q1: "quiet d d1" using io_quiet [OF 1] .
  have q2: "quiet d d2" using quiet_trans [OF q1 io_quiet [OF 2]] .
  have q3: "quiet d d3" using quiet_trans [OF q2 io_quiet [OF 3]] .
  have q4: "quiet d d4" using quiet_trans [OF q3 io_quiet [OF 4]] .
  have q5: "quiet d d5" using quiet_trans [OF q4 io_quiet [OF 5]] .
  have m: "quiet d d''" if "quiet d dd" "ensureQueueMarker may dd = (x, d'')" for dd may x d''
    using quiet_trans [OF that(1) marker_quiet [of dd may]] that(2) by simp
  show "quiet d d'"
    using e q1 q2 q3 q4 q5 by (auto simp: ensurePrivateQueueDirectory_def Let_def 1 2 3 4 5
        split: dirPath.splits if_splits prod.splits dest: m [OF q1] m [OF q5])
qed

text \<open>A directory whose records are as the medium has them, as after a restart.\<close>

definition settled :: "disk \<Rightarrow> bool" where
  "settled d \<longleftrightarrow> (\<forall>n. \<not> hidden n \<longrightarrow> fmlookup (dk_synced d) n = fmlookup (dk_live d) n)"

lemma settled_quiet: "settled d \<Longrightarrow> quiet d d' \<Longrightarrow> settled d'"
  by (auto simp: settled_def quiet_def keeps_def)

lemma open_files:
  assumes "openDurableQueue opts body p d = (Inr q, p', d')"
  shows "quiet d (q_disk q)" "\<And>rid r. fmlookup (q_entries q) rid = Some r \<Longrightarrow> file_of d rid r"
    "\<And>n e. fmlookup (dk_live d) n = Some e \<Longrightarrow> \<not> hidden n \<Longrightarrow>
       \<exists>rid r. n = record_name rid \<and> fmlookup (q_entries q) rid = Some r"
proof -
  obtain e1 p1 d1 where dir: "ensurePrivateQueueDirectory p d = (e1, p1, d1)" using prod_cases3 by blast
  have e1: "e1 = None" using assms dir by (auto simp: openDurableQueue_def split: if_splits option.splits)
  obtain q0 where q0: "set_shares opts (empty_queue opts d1) = Inr q0"
    using assms dir e1 by (auto simp: openDurableQueue_def split: if_splits sum.splits)
  have e: "q_entries q0 = fmempty" "q_disk q0 = d1"
    using q0 by (auto simp: set_shares_def empty_queue_def Let_def split: if_splits option.splits)
  obtain el q1 where l: "load q0 = (el, q1)" by fastforce
  obtain ep q2 where pr: "Probe body q1 = (ep, q2)" by fastforce
  have r: "el = None" "q = q2" using assms dir e1 q0 l pr by (auto simp: openDurableQueue_def split: if_splits option.splits)
  note f = load_files [OF l [unfolded r(1)] e(1), unfolded e(2)]
  have ents: "q_entries q = q_entries q1" using core_eq(1) frame_core [OF Probe_frame [OF pr]] r(2) by blast
  have d: "quiet d d1" using directory_quiet [OF dir] .
  have "quiet (q_disk q1) (q_disk q)" using Probe_quiet [of q1 body] pr r by simp
  then show "quiet d (q_disk q)" using f(1) d quiet_trans by blast
  show "file_of d rid r" if "fmlookup (q_entries q) rid = Some r" for rid r
    using f(2) that file_of_quiet [OF d] by (simp add: ents)
  show "\<exists>rid r. n = record_name rid \<and> fmlookup (q_entries q) rid = Some r"
    if "fmlookup (dk_live d) n = Some e" "\<not> hidden n" for n e
    using f(3) [of n e] that d by (auto simp: ents quiet_def keeps_def)
qed

lemma open_durable:
  assumes "openDurableQueue opts body p d = (Inr q, p', d')" "settled d"
  shows "durable q"
proof -
  note f = open_files [OF assms(1)]
  have "stored rid r (q_disk q) \<and> decode_record (encode_record r) = Some r" if "fmlookup (q_entries q) rid = Some r" for rid r
  proof -
    have fl: "file_of d rid r" using f(2) that .
    then have ok: "record_ok rid r" "\<not> hidden (record_name rid)" and "\<exists>raw. decode_record raw = Some r"
      using record_name_not_hidden [of "qr_Type r" "qr_Payload r"] by (auto simp: file_of_def record_ok_def)
    then have i: "in_int64 (qr_V r)" "in_int64 (qr_QueueSeq r)" "in_int64 (qr_EnqueuedAtMS r)" using decode_record_int64 by blast+
    have "stored rid r d" using fl assms(2) ok(2) by (auto simp: stored_def file_of_def settled_def)
    then have "stored rid r (q_disk q)" using stored_keeps f(1) ok(2) by (auto simp: quiet_def)
    moreover have "decode_record (encode_record r) = Some r"
      by (rule decode_encode_record)
        (use ok(1) i in \<open>auto simp: record_ok_def validQueueArtifactType_plain\<close>)
    ultimately show ?thesis by blast
  qed
  then show ?thesis by (simp add: durable_def)
qed

lemma sorted_unique:
  fixes f :: "'a \<Rightarrow> int"
  assumes "sorted_wrt (\<lambda>a b. f a < f b) xs" "sorted_wrt (\<lambda>a b. f a < f b) ys" "set xs = set ys"
  shows "xs = ys"
proof -
  have s: "sorted_wrt (<) (map f xs)" "sorted_wrt (<) (map f ys)" using assms(1,2) by (simp_all add: sorted_wrt_map)
  have "map f xs = map f ys" using strict_sorted_equal [OF s] assms(3) by simp
  moreover have "inj_on f (set xs \<union> set ys)"
    using s(1) assms(3) by (simp add: strict_sorted_iff distinct_map)
  ultimately show ?thesis by (simp add: map_inj_on)
qed


definition sample_crash :: disk where
  "sample_crash = (q_disk sample_queue)\<lparr>dk_synced := dk_live (q_disk sample_queue)\<rparr>"

lemma sample_reopens: "case openDurableQueue sample_options ''probe'' (DirAt Directory True) sample_crash of (r, p, d) \<Rightarrow> \<not> isl r"
  by code_simp


end
