(* ===== verification/Custody.thy ===== *)
theory Custody
  imports Queue_Codec
begin

text \<open>
  Custody acknowledgements, \<open>internal/evidence/custody/custody.go\<close>: the key identifier derived from a secret, the checks
  before a signature, and the bytes that are signed. HKDF and HMAC are the standard library's, written out; the canonical
  JSON writer is code of another module and a parameter.
\<close>

section \<open>Key identifiers\<close>

text \<open>\<open>hkdf.Key\<close> of the standard library: extract, then expand block by block.\<close>

fun hkdf_expand :: "string \<Rightarrow> string \<Rightarrow> nat \<Rightarrow> string \<Rightarrow> int \<Rightarrow> string" where
  "hkdf_expand prk info 0 prev i = []"
| "hkdf_expand prk info (Suc n) prev i =
     (let t = hmac_sha256 prk (prev @ info @ [char_of i]) in t @ hkdf_expand prk info n t (i + 1))"

definition hkdf_Key :: "string \<Rightarrow> string \<Rightarrow> string \<Rightarrow> nat \<Rightarrow> string" where
  "hkdf_Key secret salt info len = take len (hkdf_expand (hmac_sha256 salt secret) info ((len + 31) div 32) [] 1)"

definition Domain :: string where "Domain = ''ori.evidence_custody_ack.v1''"
definition Version :: int where "Version = 1"
definition macPrefix :: string where "macPrefix = ''hmac-sha256:''"
definition sha256HexLen :: nat where "sha256HexLen = 64"
definition custodyKeyIDSalt :: string where "custodyKeyIDSalt = ''ori.evidence_custody_key_id.v1''"
definition custodyKeyIDInfo :: string where "custodyKeyIDInfo = ''gateway_custody''"
definition custodyKeyIDPrefix :: string where "custodyKeyIDPrefix = ''hkdf-sha256:''"
definition custodyKeyIDBytes :: nat where "custodyKeyIDBytes = 16"

datatype custodyError =
    EmptySecret | SpacedSecret | NilSigner | EmptyDevice
  | DigestPrefix | DigestLength | DigestNotHex
  | SeqNotPositive | TimeNotPositive | OutsideZone string | NotCanonical

definition validateCustodySecret :: "string \<Rightarrow> custodyError option" where
  "validateCustodySecret secret =
     (if secret = [] then Some EmptySecret else if TrimSpace secret \<noteq> secret then Some SpacedSecret else None)"

definition DeriveKeyID :: "string \<Rightarrow> custodyError + string" where
  "DeriveKeyID secret =
     (case validateCustodySecret secret of
        Some e \<Rightarrow> Inl e
      | None \<Rightarrow> Inr (custodyKeyIDPrefix @ hex_encode (hkdf_Key secret custodyKeyIDSalt custodyKeyIDInfo custodyKeyIDBytes)))"

record Signer =
  sg_keyID :: string
  sg_secret :: string

definition NewSigner :: "string \<Rightarrow> custodyError + Signer" where
  "NewSigner secret =
     (case DeriveKeyID secret of Inl e \<Rightarrow> Inl e | Inr keyID \<Rightarrow> Inr \<lparr>sg_keyID = keyID, sg_secret = secret\<rparr>)"

definition KeyID :: "Signer option \<Rightarrow> string" where
  "KeyID s = (case s of None \<Rightarrow> [] | Some s \<Rightarrow> sg_keyID s)"

section \<open>Acknowledgements\<close>

record Acknowledgement =
  ck_V :: int
  ck_DeviceID :: string
  ck_LocalSeq :: int
  ck_EnvelopeDigest :: string
  ck_CustodyAtMS :: int
  ck_KeyID :: string
  ck_MAC :: string

definition d011Integer :: "int \<Rightarrow> string \<Rightarrow> custodyError + string" where
  "d011Integer n field = (if n > MaxSafeInteger \<or> n < - MaxSafeInteger then Inl (OutsideZone field) else Inr (itoa n))"

text \<open>A value of the map handed to the canonical writer, and the writer: an error, or the bytes.\<close>

datatype cvalue = CText string | CNumber string

type_synonym canonical = "(string \<times> cvalue) list \<Rightarrow> string option"

definition custodyCanonicalBody :: "canonical \<Rightarrow> Acknowledgement \<Rightarrow> custodyError + string" where
  "custodyCanonicalBody canon ack =
     (case d011Integer (ck_V ack) ''v'' of Inl e \<Rightarrow> Inl e
      | Inr version \<Rightarrow>
     (case d011Integer (ck_LocalSeq ack) ''local_seq'' of Inl e \<Rightarrow> Inl e
      | Inr localSeq \<Rightarrow>
     (case d011Integer (ck_CustodyAtMS ack) ''custody_at_ms'' of Inl e \<Rightarrow> Inl e
      | Inr custodyAt \<Rightarrow>
     (case canon [(''v'', CNumber version), (''device_id'', CText (ck_DeviceID ack)), (''local_seq'', CNumber localSeq),
        (''envelope_digest'', CText (ck_EnvelopeDigest ack)), (''custody_at_ms'', CNumber custodyAt),
        (''key_id'', CText (ck_KeyID ack))] of
        None \<Rightarrow> Inl NotCanonical | Some body \<Rightarrow> Inr body))))"

definition custodyPreimage :: "canonical \<Rightarrow> Acknowledgement \<Rightarrow> custodyError + string" where
  "custodyPreimage canon ack =
     (case custodyCanonicalBody canon ack of Inl e \<Rightarrow> Inl e | Inr body \<Rightarrow> Inr (Domain @ [CHR 0x00] @ body))"

definition validateSHA256Digest :: "string \<Rightarrow> custodyError option" where
  "validateSHA256Digest digest =
     (if \<not> HasPrefix digest ''sha256:'' then Some DigestPrefix
      else let body = drop 7 digest
      in if length body \<noteq> sha256HexLen then Some DigestLength
         else if \<not> list_all lower_hex body then Some DigestNotHex
         else None)"

definition Acknowledge ::
  "canonical \<Rightarrow> Signer option \<Rightarrow> string \<Rightarrow> int \<Rightarrow> string \<Rightarrow> int \<Rightarrow> custodyError + Acknowledgement \<times> string" where
  "Acknowledge canon signer deviceID localSeq envelopeDigest custodyAtMS =
     (case signer of None \<Rightarrow> Inl NilSigner
      | Some s \<Rightarrow>
          if TrimSpace deviceID = [] then Inl EmptyDevice
          else case validateSHA256Digest envelopeDigest of Some e \<Rightarrow> Inl e
          | None \<Rightarrow>
              if localSeq \<le> 0 then Inl SeqNotPositive
              else if custodyAtMS \<le> 0 then Inl TimeNotPositive
              else let ack = \<lparr>ck_V = Version, ck_DeviceID = deviceID, ck_LocalSeq = localSeq, ck_EnvelopeDigest = envelopeDigest,
                     ck_CustodyAtMS = custodyAtMS, ck_KeyID = sg_keyID s, ck_MAC = []\<rparr>
              in case custodyPreimage canon ack of
                   Inl e \<Rightarrow> Inl e
                 | Inr pre \<Rightarrow> Inr (ack\<lparr>ck_MAC := macPrefix @ hex_encode (hmac_sha256 (sg_secret s) pre)\<rparr>, pre))"

section \<open>Properties\<close>

text \<open>The canonical writer is faithful: its bytes decide the members.\<close>

definition canon_faithful :: "canonical \<Rightarrow> bool" where
  "canon_faithful canon \<longleftrightarrow> (\<exists>decode. \<forall>ms s. canon ms = Some s \<longrightarrow> decode s = ms)"

lemma d011_Inr: "d011Integer n f = Inr s \<longleftrightarrow> s = itoa n \<and> \<bar>n\<bar> \<le> MaxSafeInteger"
  by (auto simp: d011Integer_def MaxSafeInteger_def)

lemma custodyPreimage_Inr:
  "custodyPreimage canon ack = Inr pre \<longleftrightarrow>
     (\<exists>body. canon [(''v'', CNumber (itoa (ck_V ack))), (''device_id'', CText (ck_DeviceID ack)),
        (''local_seq'', CNumber (itoa (ck_LocalSeq ack))), (''envelope_digest'', CText (ck_EnvelopeDigest ack)),
        (''custody_at_ms'', CNumber (itoa (ck_CustodyAtMS ack))), (''key_id'', CText (ck_KeyID ack))] = Some body
      \<and> pre = Domain @ [CHR 0x00] @ body)
     \<and> \<bar>ck_V ack\<bar> \<le> MaxSafeInteger \<and> \<bar>ck_LocalSeq ack\<bar> \<le> MaxSafeInteger \<and> \<bar>ck_CustodyAtMS ack\<bar> \<le> MaxSafeInteger"
  by (auto simp: custodyPreimage_def custodyCanonicalBody_def d011_Inr split: sum.splits option.splits)
     (auto simp: d011Integer_def split: if_splits)

lemma Acknowledge_Inr:
  assumes "Acknowledge canon signer dev seq digest at = Inr (ack, pre)"
  obtains s where "signer = Some s" "TrimSpace dev \<noteq> []" "validateSHA256Digest digest = None" "0 < seq" "seq \<le> MaxSafeInteger"
    "0 < at" "at \<le> MaxSafeInteger" "custodyPreimage canon ack = Inr pre"
    "ack = \<lparr>ck_V = Version, ck_DeviceID = dev, ck_LocalSeq = seq, ck_EnvelopeDigest = digest, ck_CustodyAtMS = at,
       ck_KeyID = sg_keyID s, ck_MAC = macPrefix @ hex_encode (hmac_sha256 (sg_secret s) pre)\<rparr>"
proof -
  obtain s where s: "signer = Some s" using assms by (auto simp: Acknowledge_def split: option.splits)
  show ?thesis
    by (rule that [of s])
      (use assms s in \<open>auto simp: Acknowledge_def Let_def custodyPreimage_Inr split: if_splits option.splits sum.splits\<close>)
qed


text \<open>A faithful writer, for the witnesses: JSON text of members in the given order, for text that needs no escape.\<close>

fun cvalue_json :: "cvalue \<Rightarrow> json" where
  "cvalue_json (CText s) = JStr s"
| "cvalue_json (CNumber s) = JNum s"

fun json_cvalue :: "json \<Rightarrow> cvalue" where
  "json_cvalue (JStr s) = CText s"
| "json_cvalue (JNum s) = CNumber s"
| "json_cvalue _ = CText []"

fun plain_member :: "string \<times> cvalue \<Rightarrow> bool" where
  "plain_member (k, CText s) \<longleftrightarrow> plain k \<and> plain s"
| "plain_member (k, CNumber s) \<longleftrightarrow> plain k \<and> (case parseInt64 s of None \<Rightarrow> False | Some i \<Rightarrow> s = itoa i)"

definition plain_canon :: canonical where
  "plain_canon ms =
     (if list_all plain_member ms then Some (print_json (JObj (map (\<lambda>(k, c). (k, cvalue_json c)) ms))) else None)"

lemma plain_members_ok:
  "list_all plain_member ms \<Longrightarrow> json_ok (JObj (map (\<lambda>(k, c). (k, cvalue_json c)) ms))
     \<and> json_depth (JObj (map (\<lambda>(k, c). (k, cvalue_json c)) ms)) \<le> 1"
proof (induction ms)
  case (Cons m ms)
  obtain k c where m: "m = (k, c)" by fastforce
  show ?case using Cons by (cases c) (auto simp: m split: option.splits)
qed simp

lemma cvalue_depth [simp]: "json_depth (cvalue_json c) = 0"
  by (cases c) simp_all

lemma json_cvalue_json [simp]: "json_cvalue (cvalue_json c) = c"
  by (cases c) simp_all

lemma plain_canon_faithful: "canon_faithful plain_canon"
proof -
  define decode where "decode s = (case json_parse s of Some (JObj ms) \<Rightarrow> map (\<lambda>(k, v). (k, json_cvalue v)) ms | _ \<Rightarrow> [])" for s
  have "decode s = ms" if "plain_canon ms = Some s" for ms s
  proof -
    let ?v = "JObj (map (\<lambda>(k, c). (k, cvalue_json c)) ms)"
    have m: "list_all plain_member ms" "s = print_json ?v" using that by (auto simp: plain_canon_def split: if_splits)
    have ok: "json_ok ?v" "json_depth ?v \<le> 1" using plain_members_ok [OF m(1)] by blast+
    then have "json_depth ?v \<le> maxNestingDepth" by (simp add: maxNestingDepth_def)
    then show ?thesis using json_parse_print [OF ok(1)] by (simp add: decode_def m(2) comp_def case_prod_unfold)
  qed
  then show ?thesis unfolding canon_faithful_def by blast
qed

definition sample_digest :: string where
  "sample_digest = ''sha256:'' @ replicate 64 (CHR ''a'')"


end
