(* ===== verification/Courier.thy ===== *)
theory Courier
  imports Queue_Reserve Queue_Durable Custody
begin

text \<open>
  The courier, \<open>internal/evidence/courier/courier.go\<close>, and the durable return queue, \<open>return_queue.go\<close>: what is admitted,
  when custody is acknowledged, and which authority artifact belongs to which queued artifact.
\<close>

section \<open>Admission\<close>

datatype courierError =
    UnsupportedType | RoutingUnparseable | OutsideDomain | OverMaximum | SeqNotPositiveInt | SeqOutsideZone
  | QueueRefused queueError
  | EnvelopeUndecodable
  | CustodyConstruction custodyError

definition envelopeMembers :: "string list" where
  "envelopeMembers = [''device_id'', ''local_seq'']"

definition validateArtifactRoutingFields :: "string \<Rightarrow> string \<Rightarrow> (string \<Rightarrow> bool) \<Rightarrow> courierError option" where
  "validateArtifactRoutingFields kind payload domain =
     (if \<not> validOutboundArtifactType kind then Some UnsupportedType
      else case decodeRouting envelopeMembers payload of
        None \<Rightarrow> Some RoutingUnparseable
      | Some routing \<Rightarrow>
          if \<not> domain (rt_DeviceID routing) then Some OutsideDomain
          else if int (length payload) > maxArtifactBytes then Some OverMaximum
          else if kind = ArtifactDeliveryEnvelope \<and> rt_LocalSeq routing \<le> 0 then Some SeqNotPositiveInt
          else if kind = ArtifactDeliveryEnvelope \<and> rt_LocalSeq routing > MaxSafeInteger then Some SeqOutsideZone
          else None)"

record Admission =
  ad_Queued :: QueuedArtifact
  ad_Custody :: "Acknowledgement option"
  ad_New :: bool

definition no_artifact :: QueuedArtifact where
  "no_artifact = \<lparr>qa_ID = [], qa_Type = [], qa_Payload = [], qa_EnqueuedAtMS = 0\<rparr>"

definition no_admission :: Admission where
  "no_admission = \<lparr>ad_Queued = no_artifact, ad_Custody = None, ad_New = False\<rparr>"

text \<open>The courier is its queue and its signer, if it has one. An admission is returned with the error, as the source does.\<close>

definition Admit ::
  "canonical \<Rightarrow> Signer option \<Rightarrow> string \<Rightarrow> string \<Rightarrow> int \<Rightarrow> DurableQueue \<Rightarrow> Admission \<times> courierError option \<times> DurableQueue" where
  "Admit canon signer kind payload now q0 =
     (case validateArtifactRoutingFields kind payload (RoutingDeviceID q0) of
        Some e \<Rightarrow> (no_admission, Some e, q0)
      | None \<Rightarrow>
          (case enqueueOutbound kind payload now q0 of
             (Inl e, q) \<Rightarrow> (no_admission, Some (QueueRefused e), q)
           | (Inr (queued, isNew), q) \<Rightarrow>
               let admission = \<lparr>ad_Queued = queued, ad_Custody = None, ad_New = isNew\<rparr>
               in if kind \<noteq> ArtifactDeliveryEnvelope \<or> signer = None then (admission, None, q)
                  else case decodeRouting envelopeMembers payload of
                    None \<Rightarrow> (admission, Some EnvelopeUndecodable, q)
                  | Some envelope \<Rightarrow>
                      (case Acknowledge canon signer (rt_DeviceID envelope) (rt_LocalSeq envelope)
                              (payloadDigest payload) (qa_EnqueuedAtMS queued) of
                         Inl e \<Rightarrow> (admission, Some (CustodyConstruction e), q)
                       | Inr (ack, _) \<Rightarrow> (admission\<lparr>ad_Custody := Some ack\<rparr>, None, q))))"

section \<open>Authority artifacts\<close>

definition AuthorityDeliveryReceipt :: string where "AuthorityDeliveryReceipt = ''delivery_receipt''"
definition AuthorityEpochConfirmation :: string where "AuthorityEpochConfirmation = ''epoch_confirmation''"
definition InboundCustodyAcknowledgement :: string where "InboundCustodyAcknowledgement = ''custody_acknowledgement''"

lemmas authority_defs = AuthorityDeliveryReceipt_def AuthorityEpochConfirmation_def InboundCustodyAcknowledgement_def

record AuthorityArtifact =
  aa_Type :: string
  aa_DeviceID :: string
  aa_Payload :: string

definition validAuthorityArtifactType :: "string \<Rightarrow> bool" where
  "validAuthorityArtifactType kind \<longleftrightarrow> kind = AuthorityDeliveryReceipt \<or> kind = AuthorityEpochConfirmation"

definition authorityMembers :: "string list" where
  "authorityMembers = [''device_id'', ''from_seq'', ''to_seq'']"

datatype routingError = InvalidAuthorityRouting | InvalidReceiptRange | InvalidQueuedRouting | DifferentDevice

definition authorityRoutingProjection :: "string \<Rightarrow> string \<Rightarrow> (string \<Rightarrow> bool) \<Rightarrow> routingError + routing" where
  "authorityRoutingProjection kind payload domain =
     (case decodeRouting authorityMembers payload of
        None \<Rightarrow> Inl InvalidAuthorityRouting
      | Some routing \<Rightarrow>
          if \<not> domain (rt_DeviceID routing) then Inl InvalidAuthorityRouting
          else if kind \<noteq> AuthorityDeliveryReceipt then Inr routing
          else case (rt_FromSeq routing, rt_ToSeq routing) of
            (Some from, Some to) \<Rightarrow>
              if from \<le> 0 \<or> to < from \<or> to > MaxSafeInteger then Inl InvalidReceiptRange else Inr routing
          | _ \<Rightarrow> Inl InvalidReceiptRange)"

definition validateAuthorityRouting ::
  "QueuedArtifact \<Rightarrow> AuthorityArtifact \<Rightarrow> (string \<Rightarrow> bool) \<Rightarrow> routingError + string \<times> bool" where
  "validateAuthorityRouting queued artifact domain =
     (case decodeRouting envelopeMembers (qa_Payload queued) of
        None \<Rightarrow> Inl InvalidQueuedRouting
      | Some outbound \<Rightarrow>
          if rt_DeviceID outbound = [] then Inl InvalidQueuedRouting
          else case authorityRoutingProjection (aa_Type artifact) (aa_Payload artifact) domain of
            Inl e \<Rightarrow> Inl e
          | Inr authority \<Rightarrow>
              if rt_DeviceID authority \<noteq> rt_DeviceID outbound then Inl DifferentDevice
              else if aa_Type artifact \<noteq> AuthorityDeliveryReceipt then Inr (rt_DeviceID authority, False)
              else let covers = (qa_Type queued = ArtifactDeliveryEnvelope
                     \<and> rt_LocalSeq outbound \<ge> the (rt_FromSeq authority) \<and> rt_LocalSeq outbound \<le> the (rt_ToSeq authority))
                   in Inr (rt_DeviceID authority, covers))"

section \<open>The return queue\<close>

datatype storeError =
    UnsupportedAuthorityType | RoutingMismatch | RefusedByMemberRule memberError | NotCanonicalisable | AuthorityOverMaximum
  | StoreRefused queueError

definition OpenDurableAuthoritySink ::
  "QueueOptions \<Rightarrow> string \<Rightarrow> dirPath \<Rightarrow> disk \<Rightarrow> (openQueueError + DurableQueue) \<times> dirPath \<times> disk" where
  "OpenDurableAuthoritySink opts body path d =
     (case openDurableQueue opts body path d of
        (Inl e, path, d) \<Rightarrow> (Inl e, path, d)
      | (Inr q, path, d) \<Rightarrow>
          if list_all (\<lambda>rid. qr_Type (fmget zero_record (q_entries q) rid) \<in>
               {artifactDeliveryReceipt, artifactEpochConfirmation, artifactCustodyAcknowledgement}) (q_order q)
          then (Inr q, path, d) else (Inl OutboundInAuthority, path, d))"

definition inboundMemberRefusal ::
  "(string list \<Rightarrow> string \<Rightarrow> strictError set option) \<Rightarrow> AuthorityArtifact \<Rightarrow> memberError option" where
  "inboundMemberRefusal decodeStrict artifact =
     (let q = [quote_char]
      in AdmitPayload decodeStrict FamilyEvidenceInbound
        (''{'' @ q @ ''device_id'' @ q @ '':'' @ q @ q @ '','' @ q @ ''artifact_type'' @ q @ '':'' @ q @ aa_Type artifact
         @ q @ '','' @ q @ ''artifact'' @ q @ '':'' @ aa_Payload artifact
         @ '','' @ q @ ''auth'' @ q @ '':{'' @ q @ ''scheme'' @ q @ '':'' @ q @ ''hmac-sha256'' @ q @ '','' @ q @ ''signed_at_ms'' @ q
         @ '':1,'' @ q @ ''signature'' @ q @ '':'' @ q @ ''hmac-sha256:'' @ q @ ''}}''))"

text \<open>\<open>wire\<close> is \<open>canonicaljson.MarshalWire\<close>, code of another module.\<close>

definition sinkKind :: "string \<Rightarrow> string option" where
  "sinkKind kind =
     (if kind = AuthorityDeliveryReceipt then Some artifactDeliveryReceipt
      else if kind = AuthorityEpochConfirmation then Some artifactEpochConfirmation
      else if kind = InboundCustodyAcknowledgement then Some artifactCustodyAcknowledgement
      else None)"

definition Store ::
  "(string list \<Rightarrow> string \<Rightarrow> strictError set option) \<Rightarrow> (string \<Rightarrow> string option) \<Rightarrow> AuthorityArtifact \<Rightarrow> int \<Rightarrow> DurableQueue
     \<Rightarrow> storeError option \<times> DurableQueue" where
  "Store decodeStrict wire artifact now q =
     (case sinkKind (aa_Type artifact) of
        None \<Rightarrow> (Some UnsupportedAuthorityType, q)
      | Some kind \<Rightarrow>
          (case decodeRouting [''device_id''] (aa_Payload artifact) of
             None \<Rightarrow> (Some RoutingMismatch, q)
           | Some routing \<Rightarrow>
               if rt_DeviceID routing = [] \<or> rt_DeviceID routing \<noteq> aa_DeviceID artifact then (Some RoutingMismatch, q)
               else case inboundMemberRefusal decodeStrict artifact of
                 Some e \<Rightarrow> (Some (RefusedByMemberRule e), q)
               | None \<Rightarrow>
                   (case wire (aa_Payload artifact) of
                      None \<Rightarrow> (Some NotCanonicalisable, q)
                    | Some canonical \<Rightarrow>
                        if int (length canonical) > MaxAuthorityArtifactBytes then (Some AuthorityOverMaximum, q)
                        else case enqueueOrFind kind (aa_Payload artifact) now q of
                          (Inl e, q) \<Rightarrow> (Some (StoreRefused e), q)
                        | (Inr _, q) \<Rightarrow> (None, q))))"

section \<open>When nothing fails\<close>

text \<open>Without an I/O failure a write commits, and an artifact within the limits is admitted.\<close>

lemma io_ok: "dk_script d = [] \<Longrightarrow> io d = (True, d)"
  by (simp add: io_def)

lemma write_atomic_ok: "dk_script d = [] \<Longrightarrow> \<exists>d'. write_atomic prefix name body d = (None, d') \<and> dk_script d' = []"
  by (simp add: write_atomic_def CreateTemp_def WriteFile_def Rename_def SyncDirectory_def io_ok Let_def)

lemma enqueue_admits:
  assumes "dk_script (q_disk q) = []" "validQueueArtifactType kind" "payload \<noteq> []" "0 < now"
    and r: "r = new_record kind payload (artifactID kind payload) now q" and sz: "sz = int (length (encode_record r))"
    and "fmlookup (q_entries q) (artifactID kind payload) = None" "Configured (recordDevice payload) q"
    "int (fmsize (q_entries q)) < q_maxItems q" "q_bytes q + sz \<le> q_maxBytes q"
    "laneShareRefusalLocked (recordDevice payload, LaneOf kind) 0 q = None"
    "laneShareRefusalLocked (recordDevice payload, LaneOf kind) sz q = None"
  shows "\<exists>d. enqueueOrFind kind payload now q = (Inr (recordArtifact r, False), commit_record r sz (q\<lparr>q_disk := d\<rparr>)) \<and> dk_script d = []"
proof -
  obtain d where w: "write_atomic queueTempPrefix (record_name (artifactID kind payload)) (encode_record r) (q_disk q) = (None, d)"
    "dk_script d = []" using write_atomic_ok [OF assms(1)] by blast
  have "qr_ID r = artifactID kind payload" by (simp add: r new_record_def)
  then have "writeRecord r (encode_record r) q = (None, q\<lparr>q_disk := d\<rparr>)"
    by (simp add: writeRecord_def writeFileAtomic_def writeFileAtomicRaw_def w noteStore_def)
  then have "insertLocked kind payload (artifactID kind payload) now q = (Inr (recordArtifact r), commit_record r sz (q\<lparr>q_disk := d\<rparr>))"
    unfolding insertLocked_def not_configured Let_def using assms(4,8-12) by (simp add: r [symmetric] sz [symmetric])
  then show ?thesis using assms(2,3,7) w(2) by (intro exI [of _ d]) (simp add: enqueueOrFind_def Let_def)
qed

section \<open>Custody\<close>

lemma envelope_device: "decodeRouting envelopeMembers payload = Some r \<Longrightarrow> recordDevice payload = rt_DeviceID r"
  by (rule device_projection [where members = envelopeMembers]) (simp_all add: envelopeMembers_def)

lemma enqueueOutbound_versioned: "enqueueOutbound kind payload now q = (res, q') \<Longrightarrow> q_versioned q' = q_versioned q"
proof -
  assume a: "enqueueOutbound kind payload now q = (res, q')"
  define r where "r = new_record kind payload (artifactID kind payload) now q"
  obtain e q1 where w: "writeRecord r (encode_record r) q = (e, q1)" by fastforce
  then have v: "q_versioned q1 = q_versioned q"
    by (auto simp: writeRecord_def writeFileAtomic_def writeFileAtomicRaw_def noteStore_def split: prod.splits if_splits)
  have "q_versioned (snd (insertLocked kind payload (artifactID kind payload) now q)) = q_versioned q"
    unfolding insertLocked_def not_configured Let_def r_def [symmetric] w
    by (simp add: commit_record_def indexLocked_def sortOrder_def Let_def v split: option.splits)
  then show ?thesis
    using a by (auto simp: enqueueOutbound_def enqueueOrFind_def Let_def split: if_splits option.splits prod.splits sum.splits)
qed

lemma Admit_custody:
  assumes "Admit canon signer kind payload now q = (a, err, q')" "ad_Custody a = Some ack"
  obtains queued isNew envelope pre where "err = None" "kind = ArtifactDeliveryEnvelope"
    "enqueueOutbound kind payload now q = (Inr (queued, isNew), q')" "a = \<lparr>ad_Queued = queued, ad_Custody = Some ack, ad_New = isNew\<rparr>"
    "validateArtifactRoutingFields kind payload (RoutingDeviceID q) = None"
    "decodeRouting envelopeMembers payload = Some envelope" "signer \<noteq> None"
    "Acknowledge canon signer (rt_DeviceID envelope) (rt_LocalSeq envelope) (payloadDigest payload) (qa_EnqueuedAtMS queued) = Inr (ack, pre)"
  using assms
  by (auto simp: Admit_def no_admission_def Let_def split: option.splits prod.splits sum.splits if_splits)

lemma enqueued_record:
  assumes "queue_inv q" "enqueueOutbound kind payload now q = (Inr (queued, isNew), q')"
  shows "\<exists>r. fmlookup (q_entries q') (artifactID kind payload) = Some r \<and> queued = recordArtifact r
    \<and> (isNew \<longrightarrow> qr_Type r = kind \<and> qr_Payload r = payload) \<and> (\<not> isNew \<longrightarrow> q' = q)"
proof -
  have e: "enqueueOrFind kind payload now q = (Inr (queued, \<not> isNew), q')"
    using assms(2) by (auto simp: enqueueOutbound_def split: if_splits prod.splits sum.splits)
  then show ?thesis
  proof (cases rule: enqueueOrFind_cases)
    case (inserted r sz q1)
    then show ?thesis by (auto simp: commit_fields new_record_def)
  qed auto
qed

text \<open>The digest of the artifacts already queued names one artifact only.\<close>

definition no_collision :: "string \<Rightarrow> string \<Rightarrow> DurableQueue \<Rightarrow> bool" where
  "no_collision kind payload q \<longleftrightarrow>
     (case fmlookup (q_entries q) (artifactID kind payload) of None \<Rightarrow> True | Some r \<Rightarrow> qr_Type r = kind \<and> qr_Payload r = payload)"


text \<open>C33. Admission is idempotent: carrying the same artifact again, at any later time, finds the same entry, changes nothing
  and gives the same acknowledgement, bit for bit, reported as not new.\<close>

theorem admission_idempotent:
  assumes "queue_inv q" "Admit canon signer kind payload now q = (a, None, q')"
  shows "Admit canon signer kind payload later q' = (a\<lparr>ad_New := False\<rparr>, None, q')"
proof -
  have v: "validateArtifactRoutingFields kind payload (RoutingDeviceID q) = None"
    using assms(2) by (auto simp: Admit_def split: option.splits)
  obtain queued isNew where e: "enqueueOutbound kind payload now q = (Inr (queued, isNew), q')"
    using assms(2) v by (auto simp: Admit_def Let_def split: prod.splits sum.splits if_splits option.splits)
  obtain r where r: "fmlookup (q_entries q') (artifactID kind payload) = Some r" "queued = recordArtifact r"
    using enqueued_record [OF assms(1) e] by blast
  have ok: "validOutboundArtifactType kind" using v by (auto simp: validateArtifactRoutingFields_def split: if_splits)
  have "payload \<noteq> []" using e by (auto simp: enqueueOutbound_def enqueueOrFind_def split: if_splits)
  then have again: "enqueueOutbound kind payload later q' = (Inr (queued, False), q')"
    using r ok by (simp add: enqueueOutbound_def enqueueOrFind_def validQueueArtifactType_def)
  have same: "RoutingDeviceID q' = RoutingDeviceID q" using enqueueOutbound_versioned [OF e] by (simp add: RoutingDeviceID_def fun_eq_iff)
  show ?thesis
    using assms(2) v unfolding Admit_def e again same
    by (auto simp: Let_def split: if_splits option.splits sum.splits prod.splits)
qed

section \<open>A concrete admission\<close>

lemma payloadDigest_valid: "validateSHA256Digest (payloadDigest payload) = None"
  by (simp add: validateSHA256Digest_def payloadDigest_def HasPrefix_def sha256HexLen_def lower_hex_encode sha256_length)

lemma plain_acknowledge:
  assumes "plain dev" "TrimSpace dev \<noteq> []" "plain (sg_keyID s)" "0 < seq" "seq \<le> MaxSafeInteger" "0 < at" "at \<le> MaxSafeInteger"
  shows "\<exists>ack pre. Acknowledge plain_canon (Some s) dev seq (payloadDigest payload) at = Inr (ack, pre)"
proof -
  have n: "plain ''v''" "plain ''device_id''" "plain ''local_seq''" "plain ''envelope_digest''" "plain ''custody_at_ms''" "plain ''key_id''"
    by code_simp+
  have i: "in_int64 Version" "in_int64 seq" "in_int64 at" "Version \<le> MaxSafeInteger" "- MaxSafeInteger \<le> Version"
    using assms by (auto simp: in_int64_def minInt64_def maxInt64_def MaxSafeInteger_def Version_def)
  have "- MaxSafeInteger \<le> seq" "- MaxSafeInteger \<le> at" using assms by (auto simp: MaxSafeInteger_def)
  then show ?thesis
    using assms n i payloadDigest_valid
    by (simp add: Acknowledge_def custodyPreimage_def custodyCanonicalBody_def d011Integer_def plain_canon_def parseInt64_itoa Let_def)
qed

definition sample_record :: queueRecord where
  "sample_record = new_record ArtifactDeliveryEnvelope sample_envelope (artifactID ArtifactDeliveryEnvelope sample_envelope) 1000 sample_queue"

definition sample_signer :: Signer where
  "sample_signer = \<lparr>sg_keyID = ''hkdf-sha256:00'', sg_secret = ''secret''\<rparr>"

lemma sample_queue_facts:
  "dk_script (q_disk sample_queue) = []" "q_entries sample_queue = fmempty" "q_maxItems sample_queue = 4"
  "q_maxBytes sample_queue = 10000000" "q_bytes sample_queue = 0" "q_laneItems sample_queue = fmempty" "q_laneBytes sample_queue = fmempty"
  "q_deviceItems sample_queue = fmempty" "q_deviceBytes sample_queue = fmempty" "q_shareBytes sample_queue = 5000000"
  "Configured (recordDevice sample_envelope) sample_queue" "RoutingDeviceID sample_queue ''pump-1''"
  by code_simp+

lemma small_record:
  assumes "validQueueArtifactType kind" "payload \<noteq> []" "length payload \<le> 1000"
  shows "length (encode_record (new_record kind payload (artifactID kind payload) 1000 sample_queue)) \<le> 2000"
proof -
  have l: "(length payload + 2) div 3 \<le> 334" using assms(3) by (simp add: div_le_mono [of _ 1002, simplified])
  have k: "length kind \<le> 23" using assms(1) by (auto simp: validQueueArtifactType_def validOutboundArtifactType_def artifact_defs)
  have "length (itoa 1) = 1" "length (itoa 1000) = 4" by code_simp+
  then show ?thesis
    using assms(1,2) l k sample_queue_empty encode_record_length [of "new_record kind payload (artifactID kind payload) 1000 sample_queue"]
    by (simp add: new_record_def validQueueArtifactType_plain)
qed

lemma sample_enqueues:
  assumes "validQueueArtifactType kind" "payload \<noteq> []" "length payload \<le> 1000" "Configured (recordDevice payload) sample_queue"
    and r: "r = new_record kind payload (artifactID kind payload) 1000 sample_queue" and sz: "sz = int (length (encode_record r))"
  shows "\<exists>d. enqueueOrFind kind payload 1000 sample_queue =
     (Inr (recordArtifact r, False), commit_record r sz (sample_queue\<lparr>q_disk := d\<rparr>)) \<and> dk_script d = []"
proof -
  have "sz \<le> 2000" using small_record [OF assms(1-3)] by (simp add: r sz)
  moreover have "maxQueueRecordBytes \<le> 2000000" by code_simp
  ultimately have "0 < sz" "sz \<le> 2000000" "sz \<le> 5000000 - maxQueueRecordBytes" using encoded_positive by (simp_all add: sz)
  then show ?thesis
    using assms(1,2,4) sample_queue_facts sample_queue_empty
    by (intro enqueue_admits [OF _ _ _ _ r sz]) (simp_all add: laneShareRefusalLocked_def)
qed

lemma sample_admits:
  assumes "Acknowledge canon (Some sample_signer) ''pump-1'' 7 (payloadDigest sample_envelope) 1000 = Inr (ack, pre)"
  shows "\<exists>q'. Admit canon (Some sample_signer) ArtifactDeliveryEnvelope sample_envelope 1000 sample_queue =
     (\<lparr>ad_Queued = recordArtifact sample_record, ad_Custody = Some ack, ad_New = True\<rparr>, None, q')"
proof -
  have out: "validOutboundArtifactType ArtifactDeliveryEnvelope" by (simp add: validOutboundArtifactType_def)
  have len: "sample_envelope \<noteq> []" "length sample_envelope \<le> 1000" "int (length sample_envelope) \<le> maxArtifactBytes" by code_simp+
  have env: "decodeRouting envelopeMembers sample_envelope = Some \<lparr>rt_DeviceID = ''pump-1'', rt_LocalSeq = 7, rt_FromSeq = None, rt_ToSeq = None\<rparr>"
    using sample_envelope_routing by (simp add: envelopeMembers_def)
  have v: "validateArtifactRoutingFields ArtifactDeliveryEnvelope sample_envelope (RoutingDeviceID sample_queue) = None"
    using out len env sample_queue_facts(12) by (simp add: validateArtifactRoutingFields_def MaxSafeInteger_def)
  have "validQueueArtifactType ArtifactDeliveryEnvelope" using out by (simp add: validQueueArtifactType_def)
  from sample_enqueues [OF this len(1,2) sample_queue_facts(11) sample_record_def refl]
  obtain q' where "enqueueOrFind ArtifactDeliveryEnvelope sample_envelope 1000 sample_queue = (Inr (recordArtifact sample_record, False), q')"
    by blast
  then have e: "enqueueOutbound ArtifactDeliveryEnvelope sample_envelope 1000 sample_queue = (Inr (recordArtifact sample_record, True), q')"
    using out by (simp add: enqueueOutbound_def)
  have t: "qa_EnqueuedAtMS (recordArtifact sample_record) = 1000" by (simp add: recordArtifact_def sample_record_def new_record_def)
  show ?thesis using assms v e env t by (simp add: Admit_def)
qed

lemma sample_admitted:
  "\<exists>ack q'. Admit plain_canon (Some sample_signer) ArtifactDeliveryEnvelope sample_envelope 1000 sample_queue =
     (\<lparr>ad_Queued = recordArtifact sample_record, ad_Custody = Some ack, ad_New = True\<rparr>, None, q')"
proof -
  have p: "plain ''pump-1''" "TrimSpace ''pump-1'' \<noteq> []" "plain (sg_keyID sample_signer)" by code_simp+
  obtain ack pre where "Acknowledge plain_canon (Some sample_signer) ''pump-1'' 7 (payloadDigest sample_envelope) 1000 = Inr (ack, pre)"
    using plain_acknowledge [OF p, of 7 1000 sample_envelope] by (auto simp: MaxSafeInteger_def)
  from sample_admits [OF this] show ?thesis by blast
qed

lemma sample_queue_ready: "queue_inv sample_queue" "durable sample_queue" "q_nextSeq sample_queue < maxInt64"
proof -
  obtain p d where o: "openDurableQueue sample_options ''probe'' NoDir no_disk = (Inr sample_queue, p, d)"
    using sample_opened by blast
  show "queue_inv sample_queue" using openDurableQueue_inv(1) [OF o no_disk_below] .
  show "durable sample_queue" using open_durable [OF o] by (simp add: settled_def no_disk_def)
  show "q_nextSeq sample_queue < maxInt64" using sample_queue_empty by (simp add: maxInt64_def)
qed


theorem admission_idempotent_witness:
  "\<exists>a q'. Admit plain_canon (Some sample_signer) ArtifactDeliveryEnvelope sample_envelope 1000 sample_queue = (a, None, q')
     \<and> Admit plain_canon (Some sample_signer) ArtifactDeliveryEnvelope sample_envelope 2000 q' = (a\<lparr>ad_New := False\<rparr>, None, q')"
proof -
  obtain ack q' where a: "Admit plain_canon (Some sample_signer) ArtifactDeliveryEnvelope sample_envelope 1000 sample_queue =
      (\<lparr>ad_Queued = recordArtifact sample_record, ad_Custody = Some ack, ad_New = True\<rparr>, None, q')"
    using sample_admitted by blast
  then show ?thesis using admission_idempotent [OF sample_queue_ready(1) a] by blast
qed

section \<open>Staging\<close>

lemma sinkKind_queueable: "sinkKind t = Some kind \<Longrightarrow> validQueueArtifactType kind"
  by (auto simp: sinkKind_def validQueueArtifactType_def split: if_splits)

lemma Store_None:
  assumes "Store decodeStrict wire artifact now q = (None, q')"
  obtains kind routing canonical res where "sinkKind (aa_Type artifact) = Some kind"
    "decodeRouting [''device_id''] (aa_Payload artifact) = Some routing" "rt_DeviceID routing \<noteq> []"
    "rt_DeviceID routing = aa_DeviceID artifact" "inboundMemberRefusal decodeStrict artifact = None"
    "wire (aa_Payload artifact) = Some canonical" "int (length canonical) \<le> MaxAuthorityArtifactBytes"
    "enqueueOrFind kind (aa_Payload artifact) now q = (Inr res, q')"
  using assms by (auto simp: Store_def split: option.splits if_splits prod.splits sum.splits)

text \<open>A staged authority artifact is durable, and staging is idempotent: when \<open>Store\<close> reports success the artifact's
  record is queued and on the medium under the device the artifact names, the message that will carry it passed the
  member rule and the size bound, and storing it again changes nothing.\<close>

theorem staging_durable:
  assumes "queue_inv q" "durable q" "q_nextSeq q < maxInt64" "now \<le> maxInt64"
    and "Store decodeStrict wire artifact now q = (None, q')"
  shows "\<exists>kind r. sinkKind (aa_Type artifact) = Some kind
    \<and> fmlookup (q_entries q') (artifactID kind (aa_Payload artifact)) = Some r
    \<and> stored (artifactID kind (aa_Payload artifact)) r (q_disk q')
    \<and> recordDevice (aa_Payload artifact) = aa_DeviceID artifact \<and> aa_DeviceID artifact \<noteq> []
    \<and> inboundMemberRefusal decodeStrict artifact = None
    \<and> Store decodeStrict wire artifact later q' = (None, q')"
proof -
  from assms(5) obtain kind routing canonical res where s: "sinkKind (aa_Type artifact) = Some kind"
    "decodeRouting [''device_id''] (aa_Payload artifact) = Some routing" "rt_DeviceID routing \<noteq> []"
    "rt_DeviceID routing = aa_DeviceID artifact" "inboundMemberRefusal decodeStrict artifact = None"
    "wire (aa_Payload artifact) = Some canonical" "int (length canonical) \<le> MaxAuthorityArtifactBytes"
    "enqueueOrFind kind (aa_Payload artifact) now q = (Inr res, q')"
    by (rule Store_None)
  have dev: "recordDevice (aa_Payload artifact) = aa_DeviceID artifact" using s(2,4) by (simp add: recordDevice_def)
  have dur: "durable q'" using enqueue_durable [OF assms(1,2) s(8) assms(3,4)] .
  have ne: "aa_Payload artifact \<noteq> []" using s(8) by (auto simp: enqueueOrFind_def split: if_splits)
  from s(8) obtain r where r: "fmlookup (q_entries q') (artifactID kind (aa_Payload artifact)) = Some r"
    by (cases rule: enqueueOrFind_cases) (auto simp: commit_fields new_record_def)
  then have again: "enqueueOrFind kind (aa_Payload artifact) later q' = (Inr (recordArtifact r, True), q')"
    using ne sinkKind_queueable [OF s(1)] by (simp add: enqueueOrFind_def)
  have "Store decodeStrict wire artifact later q' = (None, q')" using s(1-7) again by (simp add: Store_def)
  then show ?thesis using s r dur dev by (auto simp: durable_def)
qed

definition sample_receipt :: AuthorityArtifact where
  "sample_receipt = \<lparr>aa_Type = AuthorityDeliveryReceipt, aa_DeviceID = ''pump-1'',
     aa_Payload = print_json (JObj [(''device_id'', JStr ''pump-1''), (''from_seq'', JNum ''5''), (''to_seq'', JNum ''9'')])\<rparr>"

theorem staging_durable_witness:
  "\<exists>q' r. Store (\<lambda>_ _. None) Some sample_receipt 1000 sample_queue = (None, q')
     \<and> stored (artifactID artifactDeliveryReceipt (aa_Payload sample_receipt)) r (q_disk q')
     \<and> Store (\<lambda>_ _. None) Some sample_receipt 2000 q' = (None, q')"
proof -
  have f: "aa_Payload sample_receipt \<noteq> []" "length (aa_Payload sample_receipt) \<le> 1000"
    "Configured (recordDevice (aa_Payload sample_receipt)) sample_queue"
    "map_option rt_DeviceID (decodeRouting [''device_id''] (aa_Payload sample_receipt)) = Some ''pump-1''"
    "aa_DeviceID sample_receipt = ''pump-1''" "sinkKind (aa_Type sample_receipt) = Some artifactDeliveryReceipt"
    "int (length (aa_Payload sample_receipt)) \<le> MaxAuthorityArtifactBytes" by code_simp+
  have m: "inboundMemberRefusal (\<lambda>_ _. None) sample_receipt = None"
    by (simp add: inboundMemberRefusal_def AdmitPayload_def admit_def Let_def definedMembers_def FamilyEvidenceInbound_def family_defs)
  have "validQueueArtifactType artifactDeliveryReceipt" by (simp add: validQueueArtifactType_def)
  from sample_enqueues [OF this f(1-3) refl refl]
  obtain a q' where e: "enqueueOrFind artifactDeliveryReceipt (aa_Payload sample_receipt) 1000 sample_queue = (Inr (a, False), q')" by blast
  obtain z where "decodeRouting [''device_id''] (aa_Payload sample_receipt) = Some z" "rt_DeviceID z = ''pump-1''"
    using f(4) by auto
  then have "Store (\<lambda>_ _. None) Some sample_receipt 1000 sample_queue = (None, q')"
    using f(5-7) m e by (simp add: Store_def)
  then show ?thesis
    using staging_durable [OF sample_queue_ready, of 1000 "\<lambda>_ _. None" Some sample_receipt q' 2000] f(6) by (auto simp: maxInt64_def)
qed

end
