(* ===== verification/Verifier.thy ===== *)
theory Verifier
  imports Replay Courier
begin

text \<open>
  Signed MQTT messages, \<open>internal/mqttauth/mqttauth.go\<close>: the signer, and the verifier with its replay state, which
  \<open>Replay\<close> models.

  The canonical JSON module is a parameter: \<open>validUnicode\<close> is \<open>ValidateWireUnicode\<close>, \<open>decodeStrict\<close> is \<open>DecodeStrict\<close> and
  \<open>canonical\<close> is \<open>Marshal\<close> on an untyped object. \<open>hmac.Equal\<close> is equality. A payload the strict decoder admits has no
  trailing data, so reading its first value is reading the whole of it.
\<close>

section \<open>Untyped values\<close>

text \<open>What \<open>encoding/json\<close> stores in an \<open>any\<close>, with numbers kept as their text; the last of two members of one name wins.\<close>

datatype gvalue =
    VNull
  | VBool bool
  | VNumber string
  | VString string
  | VList "gvalue list"
  | VMap "(string, gvalue) fmap"

fun any_of :: "json \<Rightarrow> gvalue" where
  "any_of JNull = VNull"
| "any_of (JBool b) = VBool b"
| "any_of (JNum r) = VNumber r"
| "any_of (JStr r) = VString (unquote r)"
| "any_of (JArr vs) = VList (map any_of vs)"
| "any_of (JObj ms) = VMap (fmap_of_list (rev (map (\<lambda>(k, v). (unquote k, any_of v)) ms)))"

definition any_members :: "(string \<times> json) list \<Rightarrow> (string, gvalue) fmap" where
  "any_members ms = fmap_of_list (rev (map (\<lambda>(k, v). (unquote k, any_of v)) ms))"

type_synonym canonical_map = "(string, gvalue) fmap \<Rightarrow> string option"
type_synonym strict_decoder = "string list \<Rightarrow> string \<Rightarrow> strictError set option"

section \<open>Signing\<close>

definition signaturePrefix :: string where "signaturePrefix = ''hmac-sha256:''"
definition HeartbeatAuthScheme :: string where "HeartbeatAuthScheme = ''hmac-sha256''"

definition newline :: char where "newline = CHR 0x0A"

definition SigningInput :: "string \<Rightarrow> string \<Rightarrow> string \<Rightarrow> int \<Rightarrow> string \<Rightarrow> string" where
  "SigningInput messageType deviceID requestID signedAtMS canonicalPayload =
     join_on newline [messageType, deviceID, requestID, itoa signedAtMS, canonicalPayload]"

definition computeSignature :: "string \<Rightarrow> string \<Rightarrow> string" where
  "computeSignature secret input = hex_encode (hmac_sha256 secret input)"

text \<open>The callers sign structs, which are objects.\<close>

definition CanonicalJSONWithoutAuth :: "canonical_map \<Rightarrow> json \<Rightarrow> string option" where
  "CanonicalJSONWithoutAuth canonical v = (case v of JObj ms \<Rightarrow> canonical (fmdrop ''auth'' (any_members ms)) | _ \<Rightarrow> None)"

datatype signError = EmptySecret | SignedAtNotPositive | NotCanonical

definition Sign ::
  "canonical_map \<Rightarrow> json \<Rightarrow> string \<Rightarrow> string \<Rightarrow> string \<Rightarrow> int \<Rightarrow> string \<Rightarrow> signError + HeartbeatAuth" where
  "Sign canonical v messageType deviceID requestID signedAtMS sharedSecret =
     (let secret = TrimSpace sharedSecret
      in if secret = [] then Inl EmptySecret
         else if signedAtMS \<le> 0 then Inl SignedAtNotPositive
         else case CanonicalJSONWithoutAuth canonical v of
           None \<Rightarrow> Inl NotCanonical
         | Some text \<Rightarrow> Inr \<lparr>Scheme = HeartbeatAuthScheme, SignedAtMS = signedAtMS,
             Signature = signaturePrefix @ computeSignature secret (SigningInput messageType deviceID requestID signedAtMS text)\<rparr>)"

section \<open>Verifying\<close>

definition defaultMaxSkew :: int where "defaultMaxSkew = 300000000000"
definition defaultReplayTTL :: int where "defaultReplayTTL = 300000000000"
definition defaultMaxKeys :: int where "defaultMaxKeys = 131072"

record authConfig =
  ac_SharedSecret :: string
  ac_PreviousSharedSecret :: string
  ac_MaxSkew :: int
  ac_ReplayTTL :: int
  ac_MaxKeys :: int

record Verifier =
  vf_sharedSecret :: string
  vf_previousSharedSecret :: string
  vf_replay :: replayState

datatype newVerifierError = EmptySharedSecret | SamePreviousSecret

definition NewVerifier :: "authConfig \<Rightarrow> int \<Rightarrow> newVerifierError + Verifier" where
  "NewVerifier cfg now =
     (let secret = TrimSpace (ac_SharedSecret cfg);
          maxSkew = (if ac_MaxSkew cfg \<le> 0 then defaultMaxSkew else ac_MaxSkew cfg);
          replayTTL = (if ac_ReplayTTL cfg \<le> 0 then defaultReplayTTL else ac_ReplayTTL cfg);
          previous = TrimSpace (ac_PreviousSharedSecret cfg);
          maxKeys = (if ac_MaxKeys cfg \<le> 0 then defaultMaxKeys else ac_MaxKeys cfg)
      in if secret = [] then Inl EmptySharedSecret
         else if previous \<noteq> [] \<and> previous = secret then Inl SamePreviousSecret
         else Inr \<lparr>vf_sharedSecret = secret, vf_previousSharedSecret = previous,
           vf_replay = newReplayState (maxSkew div 1000000) (replayTTL div 1000000) False maxKeys now\<rparr>)"

datatype authError =
    NotScalarText | AmbiguousPayload memberError | UndecodablePayload | MissingAuth | AuthNotObject | InexactAuthMember
  | UndecodableAuth | UnsupportedScheme | AuthSignedAtNotPositive | SignatureForm | DeviceMismatch | RequestMismatch
  | PayloadNotCanonical | SignatureMismatch

definition refuseAmbiguous :: "strict_decoder \<Rightarrow> string \<Rightarrow> memberError option" where
  "refuseAmbiguous decodeStrict payload = admit decodeStrict [] payload"

definition authMembers :: "string list" where
  "authMembers = [''scheme'', ''signed_at_ms'', ''signature'']"

definition inexact_member :: "string \<Rightarrow> bool" where
  "inexact_member name \<longleftrightarrow> list_ex (\<lambda>m. name \<noteq> m \<and> EqualFold name m) authMembers"

definition refuseInexactAuthMembers :: "gvalue \<Rightarrow> authError option" where
  "refuseInexactAuthMembers v =
     (case v of
        VMap m \<Rightarrow> if fBex (fmdom m) inexact_member then Some InexactAuthMember else None
      | _ \<Rightarrow> Some AuthNotObject)"

text \<open>The auth object written out again and read into the struct: a member that is absent or null keeps its zero value.\<close>

definition text_field :: "(string, gvalue) fmap \<Rightarrow> string \<Rightarrow> string option" where
  "text_field m k = (case fmlookup m k of None \<Rightarrow> Some [] | Some VNull \<Rightarrow> Some [] | Some (VString s) \<Rightarrow> Some s | _ \<Rightarrow> None)"

definition int_field :: "(string, gvalue) fmap \<Rightarrow> string \<Rightarrow> int option" where
  "int_field m k = (case fmlookup m k of None \<Rightarrow> Some 0 | Some VNull \<Rightarrow> Some 0 | Some (VNumber r) \<Rightarrow> parseInt64 r | _ \<Rightarrow> None)"

definition decode_auth :: "gvalue \<Rightarrow> HeartbeatAuth option" where
  "decode_auth v =
     (case v of
        VMap m \<Rightarrow>
          (case (text_field m ''scheme'', int_field m ''signed_at_ms'', text_field m ''signature'') of
             (Some scheme, Some at, Some signature) \<Rightarrow> Some \<lparr>Scheme = scheme, SignedAtMS = at, Signature = signature\<rparr>
           | _ \<Rightarrow> None)
      | _ \<Rightarrow> None)"

definition validateExpectedFields :: "(string, gvalue) fmap \<Rightarrow> string \<Rightarrow> string \<Rightarrow> authError option" where
  "validateExpectedFields m deviceID requestID =
     (if deviceID \<noteq> [] \<and> fmlookup m ''device_id'' \<noteq> Some (VString deviceID) then Some DeviceMismatch
      else if requestID \<noteq> [] \<and> fmlookup m ''request_id'' \<noteq> Some (VString requestID) then Some RequestMismatch
      else None)"

definition cloneWithoutAuth :: "(string, gvalue) fmap \<Rightarrow> (string, gvalue) fmap" where
  "cloneWithoutAuth m = fmdrop ''auth'' m"

definition signatureMatches :: "Verifier \<Rightarrow> string \<Rightarrow> string \<Rightarrow> string \<Rightarrow> string \<Rightarrow> int \<Rightarrow> string \<Rightarrow> bool" where
  "signatureMatches v signature messageType deviceID requestID signedAtMS text \<longleftrightarrow>
     (let input = SigningInput messageType deviceID requestID signedAtMS text
      in signature = signaturePrefix @ computeSignature (vf_sharedSecret v) input
         \<or> vf_previousSharedSecret v \<noteq> [] \<and> signature = signaturePrefix @ computeSignature (vf_previousSharedSecret v) input)"

text \<open>\<open>verifyJSON\<close> up to the freshness check: the auth object and the payload without it.\<close>

definition authenticate ::
  "(string \<Rightarrow> bool) \<Rightarrow> strict_decoder \<Rightarrow> canonical_map \<Rightarrow> Verifier \<Rightarrow> string \<Rightarrow> string \<Rightarrow> string \<Rightarrow> string
     \<Rightarrow> authError + HeartbeatAuth \<times> (string, gvalue) fmap" where
  "authenticate validUnicode decodeStrict canonical v payload messageType deviceID requestID =
     (if \<not> validUnicode payload then Inl NotScalarText
      else case refuseAmbiguous decodeStrict payload of Some e \<Rightarrow> Inl (AmbiguousPayload e)
      | None \<Rightarrow> case json_parse payload of
          Some (JObj ms) \<Rightarrow>
            let envelope = any_members ms
            in (case fmlookup envelope ''auth'' of
                  None \<Rightarrow> Inl MissingAuth
                | Some authValue \<Rightarrow>
                    (case refuseInexactAuthMembers authValue of Some e \<Rightarrow> Inl e
                     | None \<Rightarrow> case decode_auth authValue of None \<Rightarrow> Inl UndecodableAuth
                     | Some auth \<Rightarrow>
                         if Scheme auth \<noteq> HeartbeatAuthScheme then Inl UnsupportedScheme
                         else if SignedAtMS auth \<le> 0 then Inl AuthSignedAtNotPositive
                         else if \<not> HasPrefix (Signature auth) signaturePrefix then Inl SignatureForm
                         else case validateExpectedFields envelope deviceID requestID of Some e \<Rightarrow> Inl e
                         | None \<Rightarrow>
                             let body = cloneWithoutAuth envelope
                             in case canonical body of None \<Rightarrow> Inl PayloadNotCanonical
                             | Some text \<Rightarrow>
                                 if \<not> signatureMatches v (Signature auth) messageType deviceID requestID (SignedAtMS auth) text
                                 then Inl SignatureMismatch else Inr (auth, body)))
        | Some JNull \<Rightarrow> Inl MissingAuth
        | _ \<Rightarrow> Inl UndecodablePayload)"

definition envelope_of :: "string \<Rightarrow> string \<Rightarrow> string \<Rightarrow> HeartbeatAuth \<Rightarrow> envelope" where
  "envelope_of messageType deviceID requestID auth =
     \<lparr>ev_messageType = messageType, ev_deviceID = deviceID, ev_requestID = requestID, ev_signedAt = SignedAtMS auth,
      ev_signature = Signature auth\<rparr>"

datatype verdict = Unauthentic authError | NotFresh replayError

definition VerifyJSON ::
  "(string \<Rightarrow> bool) \<Rightarrow> strict_decoder \<Rightarrow> canonical_map \<Rightarrow> int \<Rightarrow> string \<Rightarrow> string \<Rightarrow> string \<Rightarrow> string \<Rightarrow> Verifier
     \<Rightarrow> (verdict + (string, gvalue) fmap) \<times> Verifier" where
  "VerifyJSON validUnicode decodeStrict canonical t payload messageType deviceID requestID v =
     (case authenticate validUnicode decodeStrict canonical v payload messageType deviceID requestID of
        Inl e \<Rightarrow> (Inl (Unauthentic e), v)
      | Inr (auth, body) \<Rightarrow>
          (case checkFreshAndRecord (vf_replay v) (envelope_of messageType deviceID requestID auth) t (None :: (bool \<times> unit option) option) of
             (rs, warning, err) \<Rightarrow>
               ((case err of Some (Refused e) \<Rightarrow> Inl (NotFresh e) | _ \<Rightarrow> Inr body), v\<lparr>vf_replay := rs\<rparr>)))"

text \<open>\<open>decide\<close> acts on the state of the receiver \<open>s\<close>, and is called only when the payload is fresh.\<close>

definition VerifyJSONThenDecide ::
  "(string \<Rightarrow> bool) \<Rightarrow> strict_decoder \<Rightarrow> canonical_map \<Rightarrow> int \<Rightarrow> string \<Rightarrow> string \<Rightarrow> string \<Rightarrow> string
     \<Rightarrow> ((string, gvalue) fmap \<Rightarrow> 's \<Rightarrow> (bool \<times> 'e option) \<times> 's) \<Rightarrow> Verifier \<Rightarrow> 's \<Rightarrow> (verdict + 'e option) \<times> Verifier \<times> 's" where
  "VerifyJSONThenDecide validUnicode decodeStrict canonical t payload messageType deviceID requestID decide v s =
     (case authenticate validUnicode decodeStrict canonical v payload messageType deviceID requestID of
        Inl e \<Rightarrow> (Inl (Unauthentic e), v, s)
      | Inr (auth, body) \<Rightarrow>
          (let e = envelope_of messageType deviceID requestID auth; (d, s') = decide body s
           in case checkFreshAndRecord (vf_replay v) e t (Some d) of
                (rs, warning, err) \<Rightarrow>
                  (case err of
                     Some (Refused r) \<Rightarrow> (Inl (NotFresh r), v\<lparr>vf_replay := rs\<rparr>, s)
                   | _ \<Rightarrow> (Inr (snd d), v\<lparr>vf_replay := rs\<rparr>, s'))))"

definition ReplayEntries :: "Verifier \<Rightarrow> nat" where
  "ReplayEntries v = fmsize (rs_keys (vf_replay v))"

section \<open>What a verified message is\<close>

lemma any_of_obj: "any_of (JObj ms) = VMap (any_members ms)"
  by (simp add: any_members_def)

lemma any_members_snoc: "any_members (ms @ [(k, v)]) = fmupd (unquote k) (any_of v) (any_members ms)"
  by (simp add: any_members_def)

lemma authenticate_Inr:
  assumes "authenticate validUnicode decodeStrict canonical v payload mt dev req = Inr (auth, body)"
  obtains ms authValue canon where "json_parse payload = Some (JObj ms)" "fmlookup (any_members ms) ''auth'' = Some authValue"
    "decode_auth authValue = Some auth" "Scheme auth = HeartbeatAuthScheme" "0 < SignedAtMS auth" "body = fmdrop ''auth'' (any_members ms)"
    "validateExpectedFields (any_members ms) dev req = None" "canonical body = Some canon"
    "signatureMatches v (Signature auth) mt dev req (SignedAtMS auth) canon" "refuseAmbiguous decodeStrict payload = None" "validUnicode payload"
  using assms by (auto simp: authenticate_def Let_def cloneWithoutAuth_def split: if_splits option.splits json.splits)

lemma VerifyJSON_Inr:
  assumes "VerifyJSON validUnicode decodeStrict canonical t payload mt dev req v = (Inr body, v')"
  obtains auth where "authenticate validUnicode decodeStrict canonical v payload mt dev req = Inr (auth, body)"
    "check (prune (vf_replay v) t) (replayKey (envelope_of mt dev req auth)) (SignedAtMS auth) t = None"
    "v' = v\<lparr>vf_replay := record_key (prune (vf_replay v) t) (replayKey (envelope_of mt dev req auth)) (SignedAtMS auth) t\<rparr>"
  using assms
  by (auto simp: VerifyJSON_def checkFreshAndRecord_def envelope_of_def Let_def split: sum.splits option.splits prod.splits)

text \<open>C7. A verified message was signed. When a payload is accepted for a type, a device and a request, it is one unambiguous
  object whose auth member carries the HMAC, under the current secret or the previous one, of exactly this type, device,
  request and signing time and the canonical text of all its other members; its device and request members are those of
  the topic; it was fresh, and its replay key is recorded.\<close>

theorem verified_message_signed:
  assumes "VerifyJSON validUnicode decodeStrict canonical t payload mt dev req v = (Inr body, v')"
  shows "\<exists>ms authValue auth canon secret. json_parse payload = Some (JObj ms) \<and> admit decodeStrict [] payload = None
    \<and> body = fmdrop ''auth'' (any_members ms) \<and> canonical body = Some canon
    \<and> fmlookup (any_members ms) ''auth'' = Some authValue \<and> decode_auth authValue = Some auth \<and> 0 < SignedAtMS auth
    \<and> (secret = vf_sharedSecret v \<or> secret = vf_previousSharedSecret v \<and> secret \<noteq> [])
    \<and> Signature auth = signaturePrefix @ hex_encode (hmac_sha256 secret (SigningInput mt dev req (SignedAtMS auth) canon))
    \<and> (dev \<noteq> [] \<longrightarrow> fmlookup body ''device_id'' = Some (VString dev))
    \<and> (req \<noteq> [] \<longrightarrow> fmlookup body ''request_id'' = Some (VString req))
    \<and> check (prune (vf_replay v) t) (replayKey (envelope_of mt dev req auth)) (SignedAtMS auth) t = None
    \<and> vf_replay v' = record_key (prune (vf_replay v) t) (replayKey (envelope_of mt dev req auth)) (SignedAtMS auth) t"
proof -
  obtain auth where a: "authenticate validUnicode decodeStrict canonical v payload mt dev req = Inr (auth, body)"
    and c: "check (prune (vf_replay v) t) (replayKey (envelope_of mt dev req auth)) (SignedAtMS auth) t = None"
    "v' = v\<lparr>vf_replay := record_key (prune (vf_replay v) t) (replayKey (envelope_of mt dev req auth)) (SignedAtMS auth) t\<rparr>"
    using assms by (rule VerifyJSON_Inr)
  from a obtain ms authValue canon where p: "json_parse payload = Some (JObj ms)" "fmlookup (any_members ms) ''auth'' = Some authValue"
    "decode_auth authValue = Some auth" "Scheme auth = HeartbeatAuthScheme" "0 < SignedAtMS auth" "body = fmdrop ''auth'' (any_members ms)"
    "validateExpectedFields (any_members ms) dev req = None" "canonical body = Some canon"
    "signatureMatches v (Signature auth) mt dev req (SignedAtMS auth) canon" "refuseAmbiguous decodeStrict payload = None" "validUnicode payload"
    by (rule authenticate_Inr)
  obtain secret where s: "secret = vf_sharedSecret v \<or> secret = vf_previousSharedSecret v \<and> secret \<noteq> []"
    "Signature auth = signaturePrefix @ computeSignature secret (SigningInput mt dev req (SignedAtMS auth) canon)"
    using p(9) by (auto simp: signatureMatches_def Let_def)
  have f: "dev \<noteq> [] \<longrightarrow> fmlookup body ''device_id'' = Some (VString dev)" "req \<noteq> [] \<longrightarrow> fmlookup body ''request_id'' = Some (VString req)"
    using p(6,7) by (auto simp: validateExpectedFields_def split: if_splits)
  have "admit decodeStrict [] payload = None" using p(10) by (simp add: refuseAmbiguous_def)
  then show ?thesis using p(1-3,5,6,8) s f c unfolding computeSignature_def by auto
qed

section \<open>What is signed is verified\<close>

definition auth_json :: "HeartbeatAuth \<Rightarrow> json" where
  "auth_json a = JObj [(''scheme'', JString (Scheme a)), (''signed_at_ms'', JNum (itoa (SignedAtMS a))), (''signature'', JString (Signature a))]"

lemma hex_plain: "plain (hex_encode s)"
  using lower_hex_plain lower_hex_encode by blast

lemma auth_members_exact: "\<not> inexact_member ''scheme''" "\<not> inexact_member ''signed_at_ms''" "\<not> inexact_member ''signature''"
  by code_simp+

lemma auth_plain: "plain ''scheme''" "plain ''signed_at_ms''" "plain ''signature''" "plain ''auth''" "plain ''hmac-sha256''" "plain ''hmac-sha256:''"
  by code_simp+

lemma auth_read:
  assumes "plain (Scheme a)" "plain (Signature a)" "minInt64 \<le> SignedAtMS a" "SignedAtMS a \<le> maxInt64"
  shows "refuseInexactAuthMembers (any_of (auth_json a)) = None" "decode_auth (any_of (auth_json a)) = Some a"
  using assms auth_members_exact auth_plain
  by (simp_all add: auth_json_def any_of_obj any_members_def refuseInexactAuthMembers_def decode_auth_def text_field_def int_field_def
      JString_def parseInt64_itoa in_int64_def)

lemma foldr_max_snoc: "foldr max (xs @ [x]) (0 :: nat) = max (foldr max xs 0) x"
  by (induction xs) auto

lemma signed_plain:
  assumes "Sign canonical (JObj ms) mt dev req ts secret = Inr auth"
  shows "plain (Scheme auth)" "plain (Signature auth)"
  using assms auth_plain hex_plain
  by (auto simp: Sign_def Let_def HeartbeatAuthScheme_def signaturePrefix_def computeSignature_def split: if_splits option.splits)

lemma signed_parses:
  assumes "Sign canonical (JObj ms) mt dev req ts secret = Inr auth"
    and "json_ok (JObj ms)" "json_depth (JObj ms) < maxNestingDepth"
  shows "json_parse (print_json (JObj (ms @ [(''auth'', auth_json auth)]))) = Some (JObj (ms @ [(''auth'', auth_json auth)]))"
proof (rule json_parse_print)
  have aok: "json_ok (auth_json auth)" "json_depth (auth_json auth) = 1"
    using signed_plain [OF assms(1)] auth_plain by (auto simp: auth_json_def JString_def)
  show "json_ok (JObj (ms @ [(''auth'', auth_json auth)]))" "json_depth (JObj (ms @ [(''auth'', auth_json auth)])) \<le> maxNestingDepth"
    using assms(2,3) aok auth_plain(4) by (simp_all add: raw_ok_plain foldr_max_snoc maxNestingDepth_def del: foldr_append)
qed

lemma signed_authenticates:
  assumes "Sign canonical (JObj ms) mt dev req ts secret = Inr auth" "TrimSpace secret = vf_sharedSecret v" "ts \<le> maxInt64"
    and "payload = print_json (JObj (ms @ [(''auth'', auth_json auth)]))" "json_ok (JObj ms)" "json_depth (JObj ms) < maxNestingDepth"
    and "validUnicode payload" "decodeStrict [] payload = None" "''auth'' \<notin> unquote ` fst ` set ms"
    and "validateExpectedFields (any_members ms) dev req = None"
  shows "authenticate validUnicode decodeStrict canonical v payload mt dev req = Inr (auth, any_members ms)"
proof -
  obtain canon where c: "TrimSpace secret \<noteq> []" "0 < ts" "canonical (fmdrop ''auth'' (any_members ms)) = Some canon"
    "auth = \<lparr>Scheme = HeartbeatAuthScheme, SignedAtMS = ts,
       Signature = signaturePrefix @ computeSignature (TrimSpace secret) (SigningInput mt dev req ts canon)\<rparr>"
    using assms(1) by (auto simp: Sign_def CanonicalJSONWithoutAuth_def Let_def split: if_splits option.splits)
  let ?ms = "ms @ [(''auth'', auth_json auth)]"
  note pl = signed_plain [OF assms(1)]
  have parse: "json_parse payload = Some (JObj ?ms)" unfolding assms(4) by (rule signed_parses [OF assms(1,5,6)])
  have no: "fmlookup (any_members ms) ''auth'' = None"
    using assms(9) by (auto simp: any_members_def fmlookup_of_list map_of_eq_None_iff image_iff)
  have m: "any_members ?ms = fmupd ''auth'' (any_of (auth_json auth)) (any_members ms)" using auth_plain(4) by (simp add: any_members_snoc)
  have d: "fmdrop ''auth'' (any_members ?ms) = any_members ms" "fmdrop ''auth'' (any_members ms) = any_members ms"
    using no by (auto simp: m fmap_ext)
  have au: "Scheme auth = HeartbeatAuthScheme" "SignedAtMS auth = ts" "HasPrefix (Signature auth) signaturePrefix"
    by (simp_all add: c(4) HasPrefix_append)
  have rd: "refuseInexactAuthMembers (any_of (auth_json auth)) = None" "decode_auth (any_of (auth_json auth)) = Some auth"
    using auth_read [OF pl] au(2) c(2) assms(3) by (simp_all add: minInt64_def)
  have lk: "fmlookup (any_members ?ms) ''auth'' = Some (any_of (auth_json auth))" by (simp add: m)
  have f: "validateExpectedFields (any_members ?ms) dev req = None" using assms(10) by (auto simp: m validateExpectedFields_def split: if_splits)
  have sm: "signatureMatches v (Signature auth) mt dev req ts canon" using assms(2) by (simp add: signatureMatches_def c(4) Let_def)
  show ?thesis
    using assms(7,8) rd au c(2,3) d f sm lk
    by (simp add: authenticate_def refuseAmbiguous_def admit_def parse cloneWithoutAuth_def Let_def)
qed

text \<open>C36. What the gateway signs, a verifier with the same secret accepts. Writing a signed object with its auth member and
  verifying the bytes, for the type, device and request they were signed for, reaches the freshness check and returns
  exactly the members that were signed.\<close>

theorem signed_message_verifies:
  assumes "Sign canonical (JObj ms) mt dev req ts secret = Inr auth" "TrimSpace secret = vf_sharedSecret v" "ts \<le> maxInt64"
    and "payload = print_json (JObj (ms @ [(''auth'', auth_json auth)]))" "json_ok (JObj ms)" "json_depth (JObj ms) < maxNestingDepth"
    and "validUnicode payload" "decodeStrict [] payload = None" "''auth'' \<notin> unquote ` fst ` set ms"
    and "validateExpectedFields (any_members ms) dev req = None"
  shows "VerifyJSON validUnicode decodeStrict canonical t payload mt dev req v =
    (case checkFreshAndRecord (vf_replay v) (envelope_of mt dev req auth) t (None :: (bool \<times> unit option) option) of (rs, w, err) \<Rightarrow>
       ((case err of Some (Refused e) \<Rightarrow> Inl (NotFresh e) | _ \<Rightarrow> Inr (any_members ms)), v\<lparr>vf_replay := rs\<rparr>))"
  using signed_authenticates [where validUnicode = validUnicode and decodeStrict = decodeStrict, OF assms] by (simp add: VerifyJSON_def)

definition sample_members :: "(string \<times> json) list" where
  "sample_members = [(''device_id'', JString ''pump-1''), (''ok'', JBool True)]"

definition sample_verifier :: Verifier where
  "sample_verifier = \<lparr>vf_sharedSecret = ''secret'', vf_previousSharedSecret = [], vf_replay = newReplayState 300000 300000 False 4 1000\<rparr>"

lemma sample_signed:
  "\<exists>auth. Sign (\<lambda>_. Some ''{}'') (JObj sample_members) ''runtime.heartbeat'' ''pump-1'' [] 1000 ''secret'' = Inr auth \<and> SignedAtMS auth = 1000"
proof -
  have "TrimSpace ''secret'' = ''secret''" by code_simp
  then show ?thesis by (simp add: Sign_def CanonicalJSONWithoutAuth_def Let_def)
qed

lemma sample_members_ok:
  "json_ok (JObj sample_members)" "json_depth (JObj sample_members) < maxNestingDepth" "''auth'' \<notin> unquote ` fst ` set sample_members"
  "validateExpectedFields (any_members sample_members) ''pump-1'' [] = None" "TrimSpace ''secret'' = vf_sharedSecret sample_verifier"
proof -
  have p: "plain ''device_id''" "plain ''ok''" "plain ''pump-1''" by code_simp+
  show "json_ok (JObj sample_members)" "json_depth (JObj sample_members) < maxNestingDepth" "''auth'' \<notin> unquote ` fst ` set sample_members"
    "validateExpectedFields (any_members sample_members) ''pump-1'' [] = None"
    using p by (simp_all add: sample_members_def JString_def maxNestingDepth_def any_members_def validateExpectedFields_def)
  show "TrimSpace ''secret'' = vf_sharedSecret sample_verifier" unfolding sample_verifier_def by code_simp
qed

lemma sample_fresh:
  assumes "SignedAtMS auth = 1000"
  shows "\<exists>rs. checkFreshAndRecord (vf_replay sample_verifier) (envelope_of mt dev req auth) 1000 (None :: (bool \<times> unit option) option) = (rs, None, None)"
proof -
  have "prune (newReplayState 300000 300000 False 4 1000) 1000 = newReplayState 300000 300000 False 4 1000"
    by (subst prune.simps) (simp add: newReplayState_def heap_empty_def)
  then show ?thesis
    using assms by (simp add: checkFreshAndRecord_def sample_verifier_def envelope_of_def check_def recheck_def newReplayState_def Let_def
        minInt64_def maxInt64_def)
qed

theorem signed_message_verifies_witness:
  "\<exists>auth v'. Sign (\<lambda>_. Some ''{}'') (JObj sample_members) ''runtime.heartbeat'' ''pump-1'' [] 1000 ''secret'' = Inr auth
     \<and> VerifyJSON (\<lambda>_. True) (\<lambda>_ _. None) (\<lambda>_. Some ''{}'') 1000 (print_json (JObj (sample_members @ [(''auth'', auth_json auth)])))
         ''runtime.heartbeat'' ''pump-1'' [] sample_verifier = (Inr (any_members sample_members), v')"
proof -
  obtain auth where a: "Sign (\<lambda>_. Some ''{}'') (JObj sample_members) ''runtime.heartbeat'' ''pump-1'' [] 1000 ''secret'' = Inr auth" "SignedAtMS auth = 1000"
    using sample_signed by blast
  obtain rs where r: "checkFreshAndRecord (vf_replay sample_verifier) (envelope_of ''runtime.heartbeat'' ''pump-1'' [] auth) 1000
      (None :: (bool \<times> unit option) option) = (rs, None, None)" using sample_fresh [OF a(2)] by blast
  show ?thesis
    using signed_message_verifies [where validUnicode = "\<lambda>_. True" and decodeStrict = "\<lambda>_ _. None" and t = 1000, OF a(1) sample_members_ok(5) _ refl sample_members_ok(1,2) _ _ sample_members_ok(3,4)] a(1) r
    by (simp add: maxInt64_def)
qed

theorem verified_message_signed_witness:
  "\<exists>payload v'. VerifyJSON (\<lambda>_. True) (\<lambda>_ _. None) (\<lambda>_. Some ''{}'') 1000 payload ''runtime.heartbeat'' ''pump-1'' [] sample_verifier
       = (Inr (any_members sample_members), v')
     \<and> fmlookup (any_members sample_members) ''device_id'' = Some (VString ''pump-1'')"
proof -
  obtain auth where a: "Sign (\<lambda>_. Some ''{}'') (JObj sample_members) ''runtime.heartbeat'' ''pump-1'' [] 1000 ''secret'' = Inr auth" "SignedAtMS auth = 1000"
    using sample_signed by blast
  define payload where "payload = print_json (JObj (sample_members @ [(''auth'', auth_json auth)]))"
  obtain rs where r: "checkFreshAndRecord (vf_replay sample_verifier) (envelope_of ''runtime.heartbeat'' ''pump-1'' [] auth) 1000
      (None :: (bool \<times> unit option) option) = (rs, None, None)" using sample_fresh [OF a(2)] by blast
  have "authenticate (\<lambda>_. True) (\<lambda>_ _. None) (\<lambda>_. Some ''{}'') sample_verifier payload ''runtime.heartbeat'' ''pump-1'' [] = Inr (auth, any_members sample_members)"
    by (rule signed_authenticates [where validUnicode = "\<lambda>_. True" and decodeStrict = "\<lambda>_ _. None", OF a(1) sample_members_ok(5) _ payload_def sample_members_ok(1,2) _ _ sample_members_ok(3,4)]) (simp_all add: maxInt64_def)
  then have v: "VerifyJSON (\<lambda>_. True) (\<lambda>_ _. None) (\<lambda>_. Some ''{}'') 1000 payload ''runtime.heartbeat'' ''pump-1'' [] sample_verifier
      = (Inr (any_members sample_members), sample_verifier\<lparr>vf_replay := rs\<rparr>)" using r by (simp add: VerifyJSON_def)
  then show ?thesis using verified_message_signed [OF v] by auto
qed

section \<open>What a signature covers\<close>

lemma split_signing_input:
  assumes "newline \<notin> set mt" "newline \<notin> set req" "newline \<notin> set canon"
  shows "split_on newline (SigningInput mt dev req ts canon) = mt # split_on newline dev @ [req, itoa ts, canon]"
proof -
  have nl: "\<not> is_digit newline" by code_simp
  have "all_digits s \<Longrightarrow> newline \<notin> set s" for s using nl by (auto simp: all_digits_def list_all_iff)
  then have i: "newline \<notin> set (itoa ts)" using dec_digits [of ts] dec_digits [of "- ts"] by (auto simp: itoa_def newline_def)
  have "split_on newline (d @ newline # rest) = split_on newline d @ split_on newline rest" for d rest
    by (induction d) (auto split: list.splits)
  then show ?thesis using assms i by (simp add: SigningInput_def)
qed

text \<open>A signing input has one reading. Two messages with the same signing input have the same type, device, request,
  signing time and canonical text, even when a device name has line breaks, as long as the type, the request and the
  canonical text have none; so no signature of one message is a signature of another, short of a collision of the HMAC.\<close>

theorem signing_input_binds:
  assumes "SigningInput mt dev req ts canon = SigningInput mt' dev' req' ts' canon'"
    and "newline \<notin> set mt" "newline \<notin> set req" "newline \<notin> set canon"
    and "newline \<notin> set mt'" "newline \<notin> set req'" "newline \<notin> set canon'"
  shows "mt = mt' \<and> dev = dev' \<and> req = req' \<and> ts = ts' \<and> canon = canon'"
proof -
  have "mt # split_on newline dev @ [req, itoa ts, canon] = mt' # split_on newline dev' @ [req', itoa ts', canon']"
    using assms split_signing_input by metis
  then have "mt = mt'" "split_on newline dev = split_on newline dev'" "req = req'" "itoa ts = itoa ts'" "canon = canon'" by simp_all
  moreover have "dev = dev'" using calculation(2) join_split by metis
  ultimately show ?thesis by simp
qed

theorem signing_input_binds_witness:
  "SigningInput ''t'' (''a'' @ [newline]) ''7'' 1 ''{}'' \<noteq> SigningInput ''t'' ''a'' [] 7 ''{}''"
  using signing_input_binds [of "''t''" "''a'' @ [newline]" "''7''" 1 "''{}''" "''t''" "''a''" "[]" 7 "''{}''"] by (auto simp: newline_def)

end
