(* ===== verification/Go_Mime.thy ===== *)
theory Go_Mime
  imports Base64
begin

text \<open>
  \<open>mime.ParseMediaType\<close> of the standard library, as far as its users read it: the media type, and whether the value is
  refused. The parameters are parsed and their duplicates refused; their values are not returned.
\<close>

definition is_tspecial :: "char \<Rightarrow> bool" where
  "is_tspecial c \<longleftrightarrow> c \<in> set (''()<>@,;:/[]?='' @ [backslash, quote_char])"

definition is_token_char :: "char \<Rightarrow> bool" where
  "is_token_char c \<longleftrightarrow> 32 < byte c \<and> byte c < 127 \<and> \<not> is_tspecial c"

text \<open>\<open>strings.ToLower\<close>. Two runes outside ASCII have a lower case inside it; no other rune is told apart by the checks
  that follow, which refuse every byte outside ASCII.\<close>

definition lower_ascii :: "char \<Rightarrow> char" where
  "lower_ascii c = (if 65 \<le> byte c \<and> byte c \<le> 90 then char_of (byte c + 32) else c)"

fun mime_ToLower :: "string \<Rightarrow> string" where
  "mime_ToLower (a # b # c # s) =
     (if [byte a, byte b] = [196, 176] then CHR ''i'' # mime_ToLower (c # s)
      else if [byte a, byte b, byte c] = [226, 132, 170] then CHR ''k'' # mime_ToLower s
      else lower_ascii a # mime_ToLower (b # c # s))"
| "mime_ToLower (a # b # s) =
     (if [byte a, byte b] = [196, 176] then CHR ''i'' # mime_ToLower s else lower_ascii a # mime_ToLower (b # s))"
| "mime_ToLower s = map lower_ascii s"

definition consumeToken :: "string \<Rightarrow> string \<times> string" where
  "consumeToken v = (takeWhile is_token_char v, dropWhile is_token_char v)"

text \<open>The body of a quoted string, up to the closing quote: its value and the rest, or \<open>None\<close> when a line end or the end
  of the input comes first. A backslash escapes a special character; before any other character it stands for itself.\<close>

fun quoted_value :: "string \<Rightarrow> (string \<times> string) option" where
  "quoted_value [] = None"
| "quoted_value (c # s) =
     (if c = quote_char then Some ([], s)
      else if c = backslash \<and> (case s of [] \<Rightarrow> False | d # _ \<Rightarrow> is_tspecial d)
      then (case s of [] \<Rightarrow> None | d # t \<Rightarrow> map_option (\<lambda>(v, r). (d # v, r)) (quoted_value t))
      else if c = CHR 0x0D \<or> c = CHR 0x0A then None
      else map_option (\<lambda>(v, r). (c # v, r)) (quoted_value s))"

definition consumeValue :: "string \<Rightarrow> string \<times> string" where
  "consumeValue v =
     (case v of [] \<Rightarrow> ([], [])
      | c # s \<Rightarrow> if c \<noteq> quote_char then consumeToken v
                else (case quoted_value s of None \<Rightarrow> ([], v) | Some r \<Rightarrow> r))"

text \<open>One parameter, \<open>;name=value\<close>: the name is empty when there is none.\<close>

definition consumeMediaParam :: "string \<Rightarrow> string \<times> string \<times> string" where
  "consumeMediaParam v =
     (case TrimLeft v of
        c # rest1 \<Rightarrow>
          if c \<noteq> CHR '';'' then ([], [], v)
          else let (param, rest2) = consumeToken (TrimLeft rest1); param = mime_ToLower param
          in if param = [] then ([], [], v)
             else (case TrimLeft rest2 of
                     d # rest3 \<Rightarrow>
                       if d \<noteq> CHR ''='' then ([], [], v)
                       else let rest4 = TrimLeft rest3; (val, rest5) = consumeValue rest4
                       in if val = [] \<and> rest5 = rest4 then ([], [], v) else (param, val, rest5)
                   | [] \<Rightarrow> ([], [], v))
      | [] \<Rightarrow> ([], [], v))"

text \<open>Every parameter is at least three characters, so the length of the text bounds their number. \<open>True\<close> when they are
  well formed.\<close>

fun media_params :: "nat \<Rightarrow> (string \<times> string) list \<Rightarrow> string \<Rightarrow> bool" where
  "media_params 0 seen v \<longleftrightarrow> TrimLeft v = []"
| "media_params (Suc n) seen v \<longleftrightarrow>
     (let w = TrimLeft v
      in w = [] \<or>
         (case consumeMediaParam w of (key, val, rest) \<Rightarrow>
            if key = [] then TrimSpace rest = '';''
            else (case map_of seen key of Some old \<Rightarrow> old = val | None \<Rightarrow> True)
                 \<and> media_params n ((key, val) # seen) rest))"

definition checkMediaTypeDisposition :: "string \<Rightarrow> bool" where
  "checkMediaTypeDisposition s =
     (case consumeToken s of (typ, rest) \<Rightarrow>
        if typ = [] then False
        else if rest = [] then True
        else if hd rest \<noteq> CHR ''/'' then False
        else (case consumeToken (tl rest) of (sub, rest2) \<Rightarrow> sub \<noteq> [] \<and> rest2 = []))"

definition ParseMediaType :: "string \<Rightarrow> string option" where
  "ParseMediaType v =
     (let base = takeWhile (\<lambda>c. c \<noteq> CHR '';'') v; mediatype = TrimSpace (mime_ToLower base)
      in if \<not> checkMediaTypeDisposition mediatype then None
         else if media_params (length v) [] (drop (length base) v) then Some mediatype else None)"

end
