(* ===== verification/Channel.thy ===== *)
theory Channel
  imports Courier Go_Mime
begin

text \<open>
  The evidence channel, \<open>internal/evidence/courier/channel.go\<close>: the signed ingest request and the reading of the
  authority's response. The network is a parameter from requests to replies, and the canonical JSON writer one too.
\<close>

section \<open>The request\<close>

definition ingestPath :: string where "ingestPath = ''/v1/evidence/artifacts''"
definition ingestDomain :: string where "ingestDomain = ''ori.evidence_ingest_request.v1''"
definition ingestKeyIDSalt :: string where "ingestKeyIDSalt = ''ori.evidence_ingest_key_id.v1''"
definition ingestKeyIDInfo :: string where "ingestKeyIDInfo = ''evidence_ingest''"
definition ingestKeyIDPrefix :: string where "ingestKeyIDPrefix = ''hkdf-sha256:''"
definition maxResponseBytes :: nat where "maxResponseBytes = 2 ^ 20"

definition DeriveIngestKeyID :: "string \<Rightarrow> string option" where
  "DeriveIngestKeyID secret =
     (if length secret < 32 \<or> TrimSpace secret \<noteq> secret then None
      else Some (ingestKeyIDPrefix @ hex_encode (hkdf_Key secret ingestKeyIDSalt ingestKeyIDInfo 16)))"

definition validIngestClientID :: "string \<Rightarrow> bool" where
  "validIngestClientID value \<longleftrightarrow>
     \<not> (length value < 1 \<or> length value > 128) \<and> list_all (\<lambda>c. \<not> (byte c < 32 \<or> byte c > 126)) value"

definition ingestPreimage ::
  "canonical \<Rightarrow> string \<Rightarrow> string \<Rightarrow> string \<Rightarrow> string \<Rightarrow> int \<Rightarrow> string \<Rightarrow> string option" where
  "ingestPreimage canon clientID keyID kind artifactDigest sentAtMS nonce =
     (case canon [(''artifact_digest'', CText artifactDigest), (''artifact_type'', CText kind), (''client_id'', CText clientID),
        (''key_id'', CText keyID), (''method'', CText ''POST''), (''nonce'', CText nonce), (''path'', CText ingestPath),
        (''sent_at_ms'', CNumber (itoa sentAtMS))] of
        None \<Rightarrow> None | Some body \<Rightarrow> Some (ingestDomain @ [CHR 0x00] @ body))"

record HTTPChannel =
  hc_clientID :: string
  hc_keyID :: string
  hc_secret :: string

record httpRequest =
  rq_headers :: "(string \<times> string) list"
  rq_body :: string

text \<open>What a request brings back: no response, a response whose body cannot be read, or the status, the content type,
  the Retry-After and the body.\<close>

datatype httpReply = NoReply | Unreadable | Reply int string string string

section \<open>The response\<close>

datatype deliverError = NonceFailed | ClockOutsideZone | RequestNotCanonical | RequestFailed | ResponseUnavailable | UnrecognisedOutcome

record DeliveryResult =
  dr_Accepted :: bool
  dr_Retriable :: bool
  dr_RetryAfter :: int
  dr_ReceiverState :: bool
  dr_RefusalStatus :: int
  dr_RefusalReason :: string
  dr_AuthorityArtifacts :: "AuthorityArtifact list"

record channelAuthorityArtifact =
  ca_ArtifactType :: string
  ca_ArtifactB64 :: string

record channelResponse =
  cr_V :: int
  cr_ArtifactDigest :: string
  cr_Outcome :: string
  cr_Reason :: string
  cr_Retriable :: bool
  cr_AuthorityArtifacts :: "channelAuthorityArtifact list"

definition entryMembers :: "string list" where
  "entryMembers = [''artifact_type'', ''artifact_b64'']"

definition store_entry :: "string \<Rightarrow> json \<Rightarrow> channelAuthorityArtifact \<Rightarrow> channelAuthorityArtifact option" where
  "store_entry f v x =
     (if f = ''artifact_type'' then map_option (\<lambda>s. x\<lparr>ca_ArtifactType := s\<rparr>) (decode_string v (ca_ArtifactType x))
      else map_option (\<lambda>s. x\<lparr>ca_ArtifactB64 := s\<rparr>) (decode_string v (ca_ArtifactB64 x)))"

text \<open>The \<open>UnmarshalJSON\<close> of an entry: an object, each member named once and spelled exactly, and no other.\<close>

definition UnmarshalEntry :: "json \<Rightarrow> channelAuthorityArtifact option" where
  "UnmarshalEntry v =
     (case v of
        JObj ms \<Rightarrow>
          if refuseAmbiguousMembers entryMembers [] ms then None
          else decode_members entryMembers True store_entry ms \<lparr>ca_ArtifactType = [], ca_ArtifactB64 = []\<rparr>
      | _ \<Rightarrow> None)"

definition decode_entries :: "json \<Rightarrow> channelAuthorityArtifact list option" where
  "decode_entries v = (case v of JNull \<Rightarrow> Some [] | JArr vs \<Rightarrow> those (map UnmarshalEntry vs) | _ \<Rightarrow> None)"

definition responseMembers :: "string list" where
  "responseMembers = [''v'', ''artifact_digest'', ''outcome'', ''reason'', ''retriable'', ''authority_artifacts'']"

definition store_response :: "string \<Rightarrow> json \<Rightarrow> channelResponse \<Rightarrow> channelResponse option" where
  "store_response f v x =
     (if f = ''v'' then map_option (\<lambda>i. x\<lparr>cr_V := i\<rparr>) (decode_int64 v (cr_V x))
      else if f = ''artifact_digest'' then map_option (\<lambda>s. x\<lparr>cr_ArtifactDigest := s\<rparr>) (decode_string v (cr_ArtifactDigest x))
      else if f = ''outcome'' then map_option (\<lambda>s. x\<lparr>cr_Outcome := s\<rparr>) (decode_string v (cr_Outcome x))
      else if f = ''reason'' then map_option (\<lambda>s. x\<lparr>cr_Reason := s\<rparr>) (decode_string v (cr_Reason x))
      else if f = ''retriable'' then map_option (\<lambda>b. x\<lparr>cr_Retriable := b\<rparr>) (decode_bool v (cr_Retriable x))
      else map_option (\<lambda>es. x\<lparr>cr_AuthorityArtifacts := es\<rparr>) (decode_entries v))"

definition zero_response :: channelResponse where
  "zero_response = \<lparr>cr_V = 0, cr_ArtifactDigest = [], cr_Outcome = [], cr_Reason = [], cr_Retriable = False, cr_AuthorityArtifacts = []\<rparr>"

definition decode_response :: "string \<Rightarrow> channelResponse option" where
  "decode_response body =
     (case json_parse body of
        Some (JObj ms) \<Rightarrow>
          if refuseAmbiguousMembers responseMembers [] ms then None
          else decode_members responseMembers True store_response ms zero_response
      | _ \<Rightarrow> None)"

text \<open>\<open>strconv.ParseUint(s, 10, 31)\<close>; the result in nanoseconds.\<close>

definition parseRetryAfter :: "string \<Rightarrow> int option" where
  "parseRetryAfter value =
     (let s = TrimSpace value
      in if \<not> all_digits s \<or> dec_val s \<ge> 2 ^ 31 \<or> dec_val s = 0 then None else Some (dec_val s * 1000000000))"

definition refused_form :: "int \<Rightarrow> channelResponse \<Rightarrow> string \<Rightarrow> bool" where
  "refused_form status wire artifactDigest \<longleftrightarrow>
     cr_AuthorityArtifacts wire = [] \<and>
     (if status = 400 \<or> status = 403 \<or> status = 409 \<or> status = 422
      then cr_Outcome wire = ''refused''
        \<and> (cr_ArtifactDigest wire = artifactDigest \<or> status = 400 \<and> cr_ArtifactDigest wire = [])
      else if status = 401 then cr_Outcome wire = ''refused'' \<and> cr_ArtifactDigest wire = []
      else if status = 429 \<or> status = 503
      then cr_Outcome wire = ''pending''
        \<and> (cr_ArtifactDigest wire = artifactDigest \<or> status = 503 \<and> cr_ArtifactDigest wire = [])
      else False)"

definition refusedDeliveryResult ::
  "int \<Rightarrow> string \<Rightarrow> channelResponse \<Rightarrow> string \<Rightarrow> deliverError + DeliveryResult" where
  "refusedDeliveryResult status retryAfterHeader wire artifactDigest =
     (let recorded = RecordedReason status (cr_Reason wire);
          parsed = (if status = 429 then parseRetryAfter retryAfterHeader else None);
          class = Policy status (cr_Reason wire)
      in if \<not> refused_form status wire artifactDigest then Inl UnrecognisedOutcome
         else if status = 429 \<and> (recorded = ''rate_limited'' \<or> recorded = ''pending_registration_limit'') \<and> parsed = None
         then Inl UnrecognisedOutcome
         else Inr \<lparr>dr_Accepted = False, dr_Retriable = (class = Backoff), dr_RetryAfter = (case parsed of None \<Rightarrow> 0 | Some d \<Rightarrow> d),
                   dr_ReceiverState = (class = Handoff), dr_RefusalStatus = status, dr_RefusalReason = recorded,
                   dr_AuthorityArtifacts = []\<rparr>)"

definition returned_artifact :: "channelAuthorityArtifact \<Rightarrow> AuthorityArtifact option" where
  "returned_artifact e =
     (if \<not> validAuthorityArtifactType (ca_ArtifactType e) then None
      else case b64_decode_strict (ca_ArtifactB64 e) of
        None \<Rightarrow> None
      | Some payload \<Rightarrow>
          if payload = [] then None else Some \<lparr>aa_Type = ca_ArtifactType e, aa_DeviceID = [], aa_Payload = payload\<rparr>)"

definition read_reply :: "string \<Rightarrow> httpReply \<Rightarrow> deliverError + DeliveryResult" where
  "read_reply artifactDigest reply =
     (case reply of
        NoReply \<Rightarrow> Inl RequestFailed
      | Unreadable \<Rightarrow> Inl ResponseUnavailable
      | Reply status contentType retryAfter full \<Rightarrow>
          let body = take (maxResponseBytes + 1) full
          in if length body > maxResponseBytes then Inl UnrecognisedOutcome
             else if ParseMediaType contentType \<noteq> Some ''application/json'' then Inl UnrecognisedOutcome
             else (case decode_response body of
                     None \<Rightarrow> Inl UnrecognisedOutcome
                   | Some wire \<Rightarrow>
                       if cr_V wire \<noteq> 1 then Inl UnrecognisedOutcome
                       else if status \<noteq> 200 then refusedDeliveryResult status retryAfter wire artifactDigest
                       else if cr_Outcome wire \<noteq> ''accepted'' \<or> cr_Reason wire \<noteq> [] \<or> cr_Retriable wire
                               \<or> cr_ArtifactDigest wire \<noteq> artifactDigest
                       then Inl UnrecognisedOutcome
                       else (case those (map returned_artifact (cr_AuthorityArtifacts wire)) of
                               None \<Rightarrow> Inl UnrecognisedOutcome
                             | Some authority \<Rightarrow>
                                 Inr \<lparr>dr_Accepted = True, dr_Retriable = False, dr_RetryAfter = 0, dr_ReceiverState = False,
                                      dr_RefusalStatus = 0, dr_RefusalReason = [], dr_AuthorityArtifacts = authority\<rparr>)))"

definition ingest_request ::
  "canonical \<Rightarrow> HTTPChannel \<Rightarrow> QueuedArtifact \<Rightarrow> int \<Rightarrow> string \<Rightarrow> httpRequest option" where
  "ingest_request canon c artifact sentAtMS nonce =
     (let digest = payloadDigest (qa_Payload artifact)
      in case ingestPreimage canon (hc_clientID c) (hc_keyID c) (qa_Type artifact) digest sentAtMS nonce of
           None \<Rightarrow> None
         | Some preimage \<Rightarrow>
             Some \<lparr>rq_headers =
               [(''Content-Type'', ''application/octet-stream''), (''X-Ori-Evidence-Client'', hc_clientID c),
                (''X-Ori-Evidence-Key-Id'', hc_keyID c), (''X-Ori-Evidence-Sent-At-Ms'', itoa sentAtMS),
                (''X-Ori-Evidence-Nonce'', nonce), (''X-Ori-Evidence-Artifact-Type'', qa_Type artifact),
                (''X-Ori-Evidence-Artifact-Digest'', digest),
                (''Authorization'', ''Ori-Evidence-HMAC hmac-sha256:'' @ hex_encode (hmac_sha256 (hc_secret c) preimage))],
               rq_body = qa_Payload artifact\<rparr>)"

text \<open>\<open>nonceBytes\<close> is what the random source gives, or \<open>None\<close> when it fails.\<close>

definition Deliver ::
  "canonical \<Rightarrow> (httpRequest \<Rightarrow> httpReply) \<Rightarrow> HTTPChannel \<Rightarrow> string option \<Rightarrow> int \<Rightarrow> QueuedArtifact \<Rightarrow> deliverError + DeliveryResult" where
  "Deliver canon exchange c nonceBytes nowMS artifact =
     (case nonceBytes of
        None \<Rightarrow> Inl NonceFailed
      | Some bs \<Rightarrow>
          if nowMS \<le> 0 \<or> nowMS > MaxSafeInteger then Inl ClockOutsideZone
          else case ingest_request canon c artifact nowMS (hex_encode bs) of
            None \<Rightarrow> Inl RequestNotCanonical
          | Some req \<Rightarrow> read_reply (payloadDigest (qa_Payload artifact)) (exchange req))"

section \<open>Messages with exact members\<close>

lemma ascii_text:
  "byte c < 128 \<Longrightarrow> utf8_Valid (c # s) = utf8_Valid s" "c \<noteq> backslash \<Longrightarrow> scalar_escapes (c # s) = scalar_escapes s"
  "utf8_Valid []" "scalar_escapes []"
  by (simp_all add: utf8_Valid.simps [of "c # s"] scalar_escapes.simps [of "c # s"] utf8_Valid.simps [of "[]"]
      scalar_escapes.simps [of "[]"] RuneError_def)

lemma quote_ascii: "byte quote_char < 128" "quote_char \<noteq> backslash"
  by (simp_all add: byte_literals) (simp add: quote_char_def backslash_def)

lemma plain_scalar: "plain s \<Longrightarrow> scalarValueString (quote_char # s @ [quote_char])"
proof -
  assume "plain s"
  then have "utf8_Valid (s @ [quote_char]) \<and> scalar_escapes (s @ [quote_char])"
    by (induction s) (auto simp: ascii_text quote_ascii html_safe_def)
  then show ?thesis by (simp add: scalarValueString_def ascii_text quote_ascii)
qed

definition exact_member :: "string list \<Rightarrow> string \<times> json \<Rightarrow> bool" where
  "exact_member members m \<longleftrightarrow> (case m of (k, v) \<Rightarrow> plain k \<and> k \<in> set members \<and>
     (case v of JStr r \<Rightarrow> plain r | _ \<Rightarrow> True))"

definition apart :: "string list \<Rightarrow> bool" where
  "apart members \<longleftrightarrow> distinct members \<and> list_all (\<lambda>a. list_all (\<lambda>b. a = b \<or> \<not> EqualFold a b) members) members"

lemma check_key_exact:
  assumes "distinct ms" "\<forall>m \<in> set ms. key = m \<or> \<not> EqualFold key m" "key \<notin> set seen"
  shows "check_key ms key seen rt = Some (if key \<in> set ms then (key # seen, True) else (seen, rt))"
proof -
  have gone: "check_key ms key seen rt = Some (seen, rt)" if "key \<notin> set ms" "\<forall>m \<in> set ms. key = m \<or> \<not> EqualFold key m" for ms seen rt
    using that by (induction ms) auto
  show ?thesis using assms by (induction ms) (auto simp: gone)
qed

lemma not_ambiguous:
  assumes "apart members"
  shows "list_all (exact_member members) ms \<Longrightarrow> distinct (map fst ms) \<Longrightarrow> \<forall>k \<in> fst ` set ms. k \<notin> set seen \<Longrightarrow>
    \<not> refuseAmbiguousMembers members seen ms"
proof (induction ms arbitrary: seen)
  case (Cons m ms)
  obtain k v where m: "m = (k, v)" by fastforce
  have k: "plain k" "k \<in> set members" "k \<notin> set seen" "raw_text v = [] \<or> scalarValueString (raw_text v)"
    using Cons.prems plain_scalar by (auto simp: m exact_member_def raw_text_def split: json.splits)
  have "check_key members k seen False = Some (k # seen, True)"
    using check_key_exact [of members k seen False] assms k(2,3) by (auto simp: apart_def list_all_iff)
  moreover have "\<not> refuseAmbiguousMembers members (k # seen) ms"
    using Cons.IH [of "k # seen"] Cons.prems by (auto simp: m)
  ultimately show ?case using k by (simp add: m)
qed simp

section \<open>Properties\<close>

lemma those_Some: "those xs = Some ys \<longleftrightarrow> xs = map Some ys"
  by (induction xs arbitrary: ys) (auto split: option.splits simp: Cons_eq_map_conv)

lemma returned_artifact_Some:
  "returned_artifact e = Some a \<Longrightarrow> validAuthorityArtifactType (aa_Type a) \<and> aa_Payload a \<noteq> [] \<and> b64_decode_strict (ca_ArtifactB64 e) = Some (aa_Payload a)"
  by (auto simp: returned_artifact_def split: if_splits option.splits)

text \<open>C10. Only an exact acceptance is one. When the channel reports acceptance, the authority answered the request with status
  200, a JSON body within the limit with each member named once, outcome accepted, no reason, and the digest of exactly the
  bytes that were sent; and every artifact it returned is of an authority type with bytes that are not empty.\<close>

theorem acceptance_is_exact:
  assumes "Deliver canon exchange c nonce now artifact = Inr r" "dr_Accepted r"
  shows "\<exists>bs req ct ra body wire. nonce = Some bs \<and> ingest_request canon c artifact now (hex_encode bs) = Some req
    \<and> rq_body req = qa_Payload artifact \<and> exchange req = Reply 200 ct ra body \<and> length body \<le> maxResponseBytes
    \<and> decode_response body = Some wire \<and> cr_V wire = 1 \<and> cr_Outcome wire = ''accepted'' \<and> cr_Reason wire = []
    \<and> cr_ArtifactDigest wire = payloadDigest (qa_Payload artifact)
    \<and> list_all2 (\<lambda>e a. returned_artifact e = Some a) (cr_AuthorityArtifacts wire) (dr_AuthorityArtifacts r)
    \<and> list_all (\<lambda>a. validAuthorityArtifactType (aa_Type a) \<and> aa_Payload a \<noteq> []) (dr_AuthorityArtifacts r)"
proof -
  obtain bs req where q: "nonce = Some bs" "ingest_request canon c artifact now (hex_encode bs) = Some req"
    "read_reply (payloadDigest (qa_Payload artifact)) (exchange req) = Inr r"
    using assms(1) by (auto simp: Deliver_def split: option.splits if_splits)
  obtain status ct ra full where rep: "exchange req = Reply status ct ra full"
    using q(3) by (cases "exchange req") (auto simp: read_reply_def)
  have len: "length full \<le> maxResponseBytes" using q(3) rep by (auto simp: read_reply_def Let_def split: if_splits)
  then have body: "take (maxResponseBytes + 1) full = full" by simp
  have st: "status = 200"
    using q(3) rep assms(2) by (auto simp: read_reply_def Let_def refusedDeliveryResult_def split: if_splits option.splits)
  obtain wire as where w: "decode_response full = Some wire" "cr_V wire = 1" "cr_Outcome wire = ''accepted''" "cr_Reason wire = []"
    "cr_ArtifactDigest wire = payloadDigest (qa_Payload artifact)"
    "those (map returned_artifact (cr_AuthorityArtifacts wire)) = Some as" "dr_AuthorityArtifacts r = as"
    using q(3) rep st by (auto simp: read_reply_def Let_def body split: if_splits option.splits)
  have two: "list_all2 (\<lambda>e a. returned_artifact e = Some a) (cr_AuthorityArtifacts wire) as"
    using w(6) by (auto simp: those_Some list_all2_conv_all_nth list_eq_iff_nth_eq)
  then have "list_all (\<lambda>a. validAuthorityArtifactType (aa_Type a) \<and> aa_Payload a \<noteq> []) as"
    by (auto simp: list_all_iff list_all2_conv_all_nth in_set_conv_nth dest!: returned_artifact_Some)
  moreover have "rq_body req = qa_Payload artifact" using q(2) by (auto simp: ingest_request_def Let_def split: option.splits)
  ultimately show ?thesis using q rep st len w two by blast
qed

text \<open>Every refusal the channel reports can be recorded. Its status is one of the policy table, its reason is one the
  table admits for that status or unrecognised, and exactly one of the three actions applies: held, retried on the next
  handoff, or backed off. A refusal to be held has a status and reason the hold record accepts, and a Retry-After is zero
  or within what the back-off record accepts.\<close>

theorem refusal_is_recordable:
  assumes "Deliver canon exchange c nonce now artifact = Inr r" "\<not> dr_Accepted r"
  shows "table_status (dr_RefusalStatus r) \<and> RecordedReason (dr_RefusalStatus r) (dr_RefusalReason r) = dr_RefusalReason r
    \<and> \<not> (dr_Retriable r \<and> dr_ReceiverState r)
    \<and> (\<not> dr_Retriable r \<and> \<not> dr_ReceiverState r \<longrightarrow>
         heldRefusalStatus (dr_RefusalStatus r) \<and> Held (dr_RefusalStatus r) (dr_RefusalReason r))
    \<and> (dr_RetryAfter r = 0 \<or> dr_Retriable r \<and> 1 \<le> dr_RetryAfter r div 1000000 \<and> dr_RetryAfter r div 1000000 \<le> maxRetryAfterMS)
    \<and> dr_AuthorityArtifacts r = []"
proof -
  obtain status h wire digest where q: "refusedDeliveryResult status h wire digest = Inr r"
    using assms by (auto simp: Deliver_def read_reply_def Let_def split: option.splits if_splits httpReply.splits)
  define rec where "rec = RecordedReason status (cr_Reason wire)"
  have form: "refused_form status wire digest" using q by (auto simp: refusedDeliveryResult_def Let_def split: if_splits)
  have r: "dr_RefusalStatus r = status" "dr_RefusalReason r = rec" "dr_Retriable r = (Policy status (cr_Reason wire) = Backoff)"
    "dr_ReceiverState r = (Policy status (cr_Reason wire) = Handoff)" "dr_AuthorityArtifacts r = []"
    "dr_RetryAfter r = (case if status = 429 then parseRetryAfter h else None of None \<Rightarrow> 0 | Some d \<Rightarrow> d)"
    using q by (auto simp: refusedDeliveryResult_def Let_def rec_def split: if_splits)
  have st: "status \<in> {400, 401, 403, 409, 422, 429, 503}" using form by (auto simp: refused_form_def split: if_splits)
  then have table: "table_status status" by (auto simp: table_status_def statusRefusalReasons_def)
  have rr: "RecordedReason status rec = rec"
    using st by (auto simp: rec_def RecordedReason_def admits_def table_simps)
  have held: "heldRefusalStatus status \<and> Held status rec" if "Policy status (cr_Reason wire) = Hold"
    using st that by (auto simp: rec_def Policy_def heldRefusalStatus_def Held_def RecordedReason_def split: if_splits)
  have ra: "dr_RetryAfter r = 0 \<or> status = 429 \<and> 1 \<le> dr_RetryAfter r div 1000000 \<and> dr_RetryAfter r div 1000000 \<le> maxRetryAfterMS"
    using dec_val_nonneg [of "TrimSpace h"]
    by (auto simp: r(6) parseRetryAfter_def Let_def all_digits_def maxRetryAfterMS_def split: if_splits option.splits)
  show ?thesis using table rr held ra r by (cases "Policy status (cr_Reason wire)") (auto simp: Policy_def)
qed

definition sample_channel :: HTTPChannel where
  "sample_channel = \<lparr>hc_clientID = ''gateway-1'', hc_keyID = ''hkdf-sha256:00'', hc_secret = ''secret''\<rparr>"

lemma sample_request:
  assumes "plain (qa_Type a)"
  shows "\<exists>req. ingest_request plain_canon sample_channel a 1000 (hex_encode bs) = Some req"
proof -
  have n: "plain ''artifact_digest''" "plain ''artifact_type''" "plain ''client_id''" "plain ''key_id''" "plain ''method''" "plain ''nonce''"
    "plain ''path''" "plain ''sent_at_ms''" "plain ''POST''" "plain ingestPath" "plain (hc_clientID sample_channel)"
    "plain (hc_keyID sample_channel)" by code_simp+
  have "plain (hex_encode bs)" using lower_hex_plain lower_hex_encode by blast
  then show ?thesis
    using n assms by (simp add: ingest_request_def ingestPreimage_def plain_canon_def parseInt64_itoa in_int64_def minInt64_def maxInt64_def Let_def)
qed

text \<open>A reply with no artifacts, and how it is read.\<close>

definition reply_of :: "int \<Rightarrow> string \<Rightarrow> string \<Rightarrow> string \<Rightarrow> httpReply" where
  "reply_of status digest outcome reason = Reply status ''application/json'' []
     (print_json (JObj [(''v'', JNum (itoa 1)), (''artifact_digest'', JStr digest), (''outcome'', JStr outcome),
        (''reason'', JStr reason), (''retriable'', JBool False), (''authority_artifacts'', JArr [])]))"

lemma reply_read:
  assumes "plain digest" "plain outcome" "plain reason" "length digest \<le> 100" "length outcome \<le> 100" "length reason \<le> 100"
    and wire: "wire = \<lparr>cr_V = 1, cr_ArtifactDigest = digest, cr_Outcome = outcome, cr_Reason = reason, cr_Retriable = False, cr_AuthorityArtifacts = []\<rparr>"
  shows "read_reply d (reply_of status digest outcome reason) =
    (if status \<noteq> 200 then refusedDeliveryResult status [] wire d
     else if outcome \<noteq> ''accepted'' \<or> reason \<noteq> [] \<or> digest \<noteq> d then Inl UnrecognisedOutcome
     else Inr \<lparr>dr_Accepted = True, dr_Retriable = False, dr_RetryAfter = 0,
       dr_ReceiverState = False, dr_RefusalStatus = 0, dr_RefusalReason = [], dr_AuthorityArtifacts = []\<rparr>)"
proof -
  let ?ms = "[(''v'', JNum (itoa 1)), (''artifact_digest'', JStr digest), (''outcome'', JStr outcome),
        (''reason'', JStr reason), (''retriable'', JBool False), (''authority_artifacts'', JArr [])]"
  have n: "plain ''v''" "plain ''artifact_digest''" "plain ''outcome''" "plain ''reason''" "plain ''retriable''"
    "plain ''authority_artifacts''" by code_simp+
  have parse: "json_parse (print_json (JObj ?ms)) = Some (JObj ?ms)"
    by (rule json_parse_print) (use n assms(1-3) in \<open>auto simp: maxNestingDepth_def\<close>)
  have "apart responseMembers" by code_simp
  from not_ambiguous [OF this, of ?ms "[]"] have "\<not> refuseAmbiguousMembers responseMembers [] ?ms"
    using n assms(1-3) by (simp add: exact_member_def responseMembers_def)
  then have dec: "decode_response (print_json (JObj ?ms)) = Some wire"
    using parse n assms(1-3)
    by (simp add: wire decode_response_def decode_member responseMembers_def store_response_def zero_response_def decode_string_def
        decode_int64_def decode_bool_def decode_entries_def parseInt64_itoa in_int64_def minInt64_def maxInt64_def
        del: decode_members.simps(2))
  have "length (itoa 1) = 1" by code_simp
  then have len: "length (print_json (JObj ?ms)) \<le> maxResponseBytes" using assms(4-6) by (simp add: maxResponseBytes_def quoted_def)
  have "ParseMediaType ''application/json'' = Some ''application/json''" by code_simp
  then show ?thesis using dec len by (simp add: read_reply_def reply_of_def Let_def wire del: print_json.simps)
qed

lemma sample_artifact: "qa_Payload (recordArtifact sample_record) = sample_envelope" "plain (qa_Type (recordArtifact sample_record))"
  "qa_Type (recordArtifact sample_record) = ArtifactDeliveryEnvelope"
  using validQueueArtifactType_plain [of ArtifactDeliveryEnvelope]
  by (simp_all add: recordArtifact_def sample_record_def new_record_def validQueueArtifactType_def validOutboundArtifactType_def)

theorem acceptance_is_exact_witness:
  "\<exists>r. Deliver plain_canon (\<lambda>_. reply_of 200 (payloadDigest sample_envelope) ''accepted'' []) sample_channel (Some ''nonce'') 1000
       (recordArtifact sample_record) = Inr r
     \<and> dr_Accepted r \<and> list_all (\<lambda>a. validAuthorityArtifactType (aa_Type a)) (dr_AuthorityArtifacts r)"
proof -
  let ?d = "payloadDigest sample_envelope"
  have "length ?d \<le> 100" by (simp add: payloadDigest_def sha256_length)
  moreover have "plain ''accepted''" by code_simp
  ultimately have read: "\<exists>r. read_reply ?d (reply_of 200 ?d ''accepted'' []) = Inr r \<and> dr_Accepted r"
    by (subst reply_read [OF _ _ _ _ _ _ refl]) simp_all
  obtain r where r: "Deliver plain_canon (\<lambda>_. reply_of 200 ?d ''accepted'' []) sample_channel (Some ''nonce'') 1000
      (recordArtifact sample_record) = Inr r" "dr_Accepted r"
    using read sample_request [OF sample_artifact(2), of "''nonce''"] by (auto simp: Deliver_def sample_artifact MaxSafeInteger_def)
  then show ?thesis using acceptance_is_exact [OF r] by (auto simp: list_all_iff)
qed

theorem refusal_is_recordable_witness:
  "\<exists>r. Deliver plain_canon (\<lambda>_. reply_of 400 [] ''refused'' ''malformed'') sample_channel (Some ''nonce'') 1000
       (recordArtifact sample_record) = Inr r
     \<and> \<not> dr_Accepted r \<and> table_status (dr_RefusalStatus r) \<and> heldRefusalStatus (dr_RefusalStatus r)"
proof -
  have "plain ''refused''" "plain ''malformed''" by code_simp+
  then have read: "\<exists>r. read_reply d (reply_of 400 [] ''refused'' ''malformed'') = Inr r \<and> \<not> dr_Accepted r \<and> \<not> dr_Retriable r \<and> \<not> dr_ReceiverState r" for d
    by (subst reply_read [OF _ _ _ _ _ _ refl]) (simp_all add: refusedDeliveryResult_def refused_form_def Policy_def)
  obtain r where r: "Deliver plain_canon (\<lambda>_. reply_of 400 [] ''refused'' ''malformed'') sample_channel (Some ''nonce'') 1000
      (recordArtifact sample_record) = Inr r" "\<not> dr_Accepted r" "\<not> dr_Retriable r" "\<not> dr_ReceiverState r"
    using read [of "payloadDigest sample_envelope"] sample_request [OF sample_artifact(2), of "''nonce''"]
    by (auto simp: Deliver_def sample_artifact MaxSafeInteger_def)
  then show ?thesis using refusal_is_recordable [OF r(1,2)] by blast
qed

end
