(* ===== verification/Worker.thy ===== *)
theory Worker
  imports Channel
begin

text \<open>
  The delivery worker, \<open>internal/evidence/courier/worker.go\<close>: one lane for each device and kind, each offering its oldest
  artifact to the evidence channel, holding it after a terminal refusal, waiting for a handoff or backing off.

  The channel and the sink are interfaces in the source, and parameters here. A time is in nanoseconds since the epoch and a
  duration an int64 of nanoseconds; an event of a lane reads its clocks several times, and \<open>clk i\<close> is its reading number
  \<open>i\<close>. Log output is left out.
\<close>

section \<open>Times\<close>

record clocks =
  ck_wall :: int
  ck_mono :: int
  ck_now :: int

definition zero_time :: int where "zero_time = - 62135596800000000000"

definition time_Sub :: "int \<Rightarrow> int \<Rightarrow> int" where
  "time_Sub a b = max minInt64 (min maxInt64 (a - b))"

definition UnixMilli :: "int \<Rightarrow> int" where "UnixMilli t = t div 1000000"
definition of_millis :: "int \<Rightarrow> int" where "of_millis ms = ms * 1000000"

definition ceilMilli :: "int \<Rightarrow> int" where
  "ceilMilli t = (let ms = of_millis (UnixMilli t) in if ms < t then ms + 1000000 else ms)"

section \<open>State\<close>

record DeliveryWorkerOptions =
  wo_RetryInterval :: int
  wo_BackoffBase :: int
  wo_MaxBackoff :: int
  wo_BlockedReminderInterval :: int

record timing =
  tm_retry :: int
  tm_backoffBase :: int
  tm_maxBackoff :: int
  tm_reminder :: int

record heldHead =
  hh_record :: HoldRecord
  hh_deviceID :: string
  hh_persisted :: bool

record stallState =
  st_id :: string
  st_failure :: string
  st_reason :: string
  st_waitsForHandoff :: bool
  st_since :: int
  st_lastLogged :: int

record deliveryLane =
  dl_device :: string
  dl_lane :: string
  dl_wake :: bool
  dl_lastFailureAt :: int
  dl_lastError :: string
  dl_notBefore :: int
  dl_monoDue :: int
  dl_attempts :: int
  dl_retryAfter :: int
  dl_backoffID :: string
  dl_held :: "heldHead option"
  dl_stall :: "stallState option"
  dl_attempted :: QueuedArtifact
  dl_attemptReason :: string

definition lane_key_of :: "deliveryLane \<Rightarrow> LaneKey" where
  "lane_key_of l = (dl_device l, dl_lane l)"

definition new_lane :: "LaneKey \<Rightarrow> deliveryLane" where
  "new_lane key = \<lparr>dl_device = fst key, dl_lane = snd key, dl_wake = False, dl_lastFailureAt = zero_time, dl_lastError = [],
     dl_notBefore = zero_time, dl_monoDue = 0, dl_attempts = 0, dl_retryAfter = 0, dl_backoffID = [], dl_held = None,
     dl_stall = None, dl_attempted = no_artifact, dl_attemptReason = []\<rparr>"

datatype laneError =
    HeadHeld | ChannelUnavailable | MalformedResponse | ReceiverStateRefusal | PermanentRefusal | ChannelRefused int
  | RuntimeSink | QueueRetirement

definition safeFailureReason :: "laneError \<Rightarrow> string" where
  "safeFailureReason err =
     (case err of
        ChannelUnavailable \<Rightarrow> ''channel_unavailable''
      | ChannelRefused _ \<Rightarrow> ''channel_refused''
      | PermanentRefusal \<Rightarrow> ''channel_permanent_refusal''
      | ReceiverStateRefusal \<Rightarrow> ''channel_receiver_state_refusal''
      | RuntimeSink \<Rightarrow> ''runtime_sink_unavailable''
      | MalformedResponse \<Rightarrow> ''malformed_channel_response''
      | QueueRetirement \<Rightarrow> ''queue_retirement_failed''
      | HeadHeld \<Rightarrow> ''delivery_pending'')"

section \<open>Back-off\<close>

definition defaultDeliveryRetry :: int where "defaultDeliveryRetry = 5000000000"
definition defaultBlockedReminder :: int where "defaultBlockedReminder = 900000000000"
definition defaultMaxBackoff :: int where "defaultMaxBackoff = 300000000000"

definition worker_timing :: "DeliveryWorkerOptions \<Rightarrow> timing" where
  "worker_timing opts =
     (let retry = (if wo_RetryInterval opts \<le> 0 then defaultDeliveryRetry else wo_RetryInterval opts);
          base = max (wo_BackoffBase opts) retry;
          maxBackoff = (if wo_MaxBackoff opts \<le> 0 then max defaultMaxBackoff base else wo_MaxBackoff opts)
      in \<lparr>tm_retry = retry, tm_backoffBase = base, tm_maxBackoff = max maxBackoff base,
          tm_reminder = (if wo_BlockedReminderInterval opts \<le> 0 then defaultBlockedReminder else wo_BlockedReminderInterval opts)\<rparr>)"

text \<open>The loop that doubles the delay: \<open>n\<close> more rounds.\<close>

fun doubling :: "nat \<Rightarrow> int \<Rightarrow> int \<Rightarrow> int" where
  "doubling 0 bound delay = delay"
| "doubling (Suc n) bound delay = (if delay < bound then doubling n bound (wrap64 (delay * 2)) else delay)"

definition backoffDelay :: "timing \<Rightarrow> int \<Rightarrow> int \<Rightarrow> int" where
  "backoffDelay w attempts least =
     (let d = doubling (nat (attempts - 1)) (tm_maxBackoff w) (tm_backoffBase w);
          delay = (if d > tm_maxBackoff w then tm_maxBackoff w else d)
      in max (max delay (tm_retry w)) least)"

definition waitBound :: "timing \<Rightarrow> int \<Rightarrow> int" where
  "waitBound w retryAfter = max (max (tm_maxBackoff w) (tm_retry w)) retryAfter"

definition backoff_record :: "string \<Rightarrow> int \<Rightarrow> int \<Rightarrow> int \<Rightarrow> BackoffRecord" where
  "backoff_record rid notBefore attempts retryAfter =
     \<lparr>br_V = 0, br_QueueRecord = rid, br_NotBeforeMS = UnixMilli notBefore, br_Attempts = attempts,
      br_RetryAfterMS = (if retryAfter > 0 then Some (retryAfter div 1000000) else None)\<rparr>"

definition persistClamp :: "string \<Rightarrow> int \<Rightarrow> int \<Rightarrow> int \<Rightarrow> DurableQueue \<Rightarrow> DurableQueue" where
  "persistClamp rid notBefore attempts retryAfter q =
     (if rid = [] then q else snd (SetBackoff (backoff_record rid notBefore attempts retryAfter) q))"

definition untilDue :: "timing \<Rightarrow> clocks \<Rightarrow> deliveryLane \<Rightarrow> DurableQueue \<Rightarrow> int \<times> deliveryLane \<times> DurableQueue" where
  "untilDue w c l q =
     (let now = ck_wall c; wall = time_Sub (dl_notBefore l) now; bound = waitBound w (dl_retryAfter l); clamped = (wall > bound);
          l1 = (if clamped then l\<lparr>dl_notBefore := ceilMilli (now + bound)\<rparr> else l);
          wall1 = (if clamped then time_Sub (dl_notBefore l1) now else wall);
          wait = max wall1 (wrap64 (dl_monoDue l1 - ck_mono c))
      in (wait, l1,
          if clamped then persistClamp (dl_backoffID l1) (dl_notBefore l1) (dl_attempts l1) (dl_retryAfter l1) q else q))"

definition backingOff :: "timing \<Rightarrow> clocks \<Rightarrow> deliveryLane \<Rightarrow> DurableQueue \<Rightarrow> bool \<times> deliveryLane \<times> DurableQueue" where
  "backingOff w c l q = (case untilDue w c l q of (wait, l, q) \<Rightarrow> (wait > 0, l, q))"

definition scheduleBackoff ::
  "timing \<Rightarrow> clocks \<Rightarrow> clocks \<Rightarrow> laneError \<Rightarrow> deliveryLane \<Rightarrow> DurableQueue \<Rightarrow> int \<times> deliveryLane \<times> DurableQueue" where
  "scheduleBackoff w c c' err l q =
     (let least = (case err of ChannelRefused retryAfter \<Rightarrow> retryAfter | _ \<Rightarrow> 0);
          attempts = (if dl_attempts l < maxBackoffAttempts then dl_attempts l + 1 else dl_attempts l);
          head = dl_attempted l;
          delay = backoffDelay w attempts least;
          l1 = l\<lparr>dl_attempts := attempts, dl_notBefore := ceilMilli (ck_wall c + delay), dl_monoDue := wrap64 (ck_mono c + delay),
                 dl_retryAfter := least, dl_backoffID := qa_ID head\<rparr>;
          q1 = (if qa_ID head \<noteq> [] then snd (SetBackoff (backoff_record (qa_ID head) (dl_notBefore l1) attempts least) q) else q)
      in untilDue w c' l1 q1)"

definition clearBackoff :: "deliveryLane \<Rightarrow> DurableQueue \<Rightarrow> deliveryLane \<times> DurableQueue" where
  "clearBackoff l q =
     (l\<lparr>dl_notBefore := zero_time, dl_monoDue := 0, dl_attempts := 0, dl_retryAfter := 0, dl_backoffID := []\<rparr>,
      if qa_ID (dl_attempted l) \<noteq> [] then snd (ClearBackoff (qa_ID (dl_attempted l)) q) else q)"

section \<open>Holds\<close>

definition held_lane :: "heldHead \<Rightarrow> deliveryLane \<Rightarrow> deliveryLane" where
  "held_lane h l = l\<lparr>dl_held := Some h, dl_stall := None, dl_lastError := safeFailureReason PermanentRefusal,
     dl_lastFailureAt := of_millis (hr_FirstHeldAtMS (hh_record h))\<rparr>"

definition adoptDurableHold :: "QueuedArtifact \<Rightarrow> DurableQueue \<Rightarrow> deliveryLane \<Rightarrow> deliveryLane" where
  "adoptDurableHold queued q l =
     (if (case dl_held l of None \<Rightarrow> False | Some h \<Rightarrow> hr_QueueRecord (hh_record h) = qa_ID queued) then l
      else case HoldFor (qa_ID queued) q of
        None \<Rightarrow> l
      | Some r \<Rightarrow> held_lane \<lparr>hh_record = r, hh_deviceID = artifactDeviceID (qa_Payload queued), hh_persisted = True\<rparr> l)"

definition adoptedHead :: "DurableQueue \<Rightarrow> deliveryLane \<Rightarrow> QueuedArtifact option \<times> deliveryLane" where
  "adoptedHead q l =
     (case PeekLane (lane_key_of l) q of
        None \<Rightarrow> (None, l)
      | Some queued \<Rightarrow> (Some queued, adoptDurableHold queued q l))"

definition releaseHeldUnless :: "QueuedArtifact option \<Rightarrow> deliveryLane \<Rightarrow> bool \<times> deliveryLane" where
  "releaseHeldUnless head l =
     (case (dl_held l, head) of
        (Some h, Some queued) \<Rightarrow> if qa_ID queued = hr_QueueRecord (hh_record h) then (True, l) else (False, l\<lparr>dl_held := None\<rparr>)
      | _ \<Rightarrow> (False, l\<lparr>dl_held := None\<rparr>))"

definition hold ::
  "int \<Rightarrow> QueuedArtifact \<Rightarrow> int \<Rightarrow> string \<Rightarrow> deliveryLane \<Rightarrow> DurableQueue \<Rightarrow> deliveryLane \<times> DurableQueue" where
  "hold now queued status reason l q =
     (let st = (if heldRefusalStatus status then status else 0);
          r = \<lparr>hr_V = holdRecordVersion, hr_QueueRecord = qa_ID queued, hr_ArtifactDigest = payloadDigest (qa_Payload queued),
               hr_ArtifactType = qa_Type queued, hr_RefusalStatus = st, hr_Reason = RecordedReason st reason,
               hr_FirstHeldAtMS = UnixMilli now, hr_Acknowledged = False\<rparr>;
          h = \<lparr>hh_record = r, hh_deviceID = artifactDeviceID (qa_Payload queued), hh_persisted = False\<rparr>;
          (err, q1) = Queue_Hold r q
      in ((held_lane h l)\<lparr>dl_held := Some (h\<lparr>hh_persisted := (err = None)\<rparr>)\<rparr>, q1))"

section \<open>One attempt\<close>

datatype attempt = Delivered QueuedArtifact | Idle | Failed laneError

type_synonym channel = "QueuedArtifact \<Rightarrow> deliverError + DeliveryResult"
type_synonym 's sink = "AuthorityArtifact \<Rightarrow> 's \<Rightarrow> bool \<times> 's"

text \<open>The artifacts the authority returned, each under the device its routing names, and whether one is the covering receipt.\<close>

fun route_artifacts ::
  "QueuedArtifact \<Rightarrow> (string \<Rightarrow> bool) \<Rightarrow> AuthorityArtifact list \<Rightarrow> (AuthorityArtifact list \<times> bool) option" where
  "route_artifacts queued domain [] = Some ([], False)"
| "route_artifacts queued domain (a # as) =
     (if aa_Payload a = [] \<or> \<not> validAuthorityArtifactType (aa_Type a) then None
      else case validateAuthorityRouting queued a domain of
        Inl _ \<Rightarrow> None
      | Inr (device, covers) \<Rightarrow>
          (case route_artifacts queued domain as of
             None \<Rightarrow> None
           | Some (routed, covered) \<Rightarrow> Some (a\<lparr>aa_DeviceID := device\<rparr> # routed, covers \<or> covered)))"

fun store_all :: "'s sink \<Rightarrow> AuthorityArtifact list \<Rightarrow> 's \<Rightarrow> bool \<times> 's" where
  "store_all store [] s = (True, s)"
| "store_all store (a # as) s = (case store a s of (False, s) \<Rightarrow> (False, s) | (True, s) \<Rightarrow> store_all store as s)"

definition setAttemptReason :: "string \<Rightarrow> deliveryLane \<Rightarrow> deliveryLane" where
  "setAttemptReason reason l = l\<lparr>dl_attemptReason := reason\<rparr>"

text \<open>What \<open>deliverHead\<close> does with an accepted artifact.\<close>

definition accepted ::
  "'s sink option \<Rightarrow> QueuedArtifact \<Rightarrow> AuthorityArtifact list \<Rightarrow> deliveryLane \<Rightarrow> DurableQueue \<Rightarrow> 's
     \<Rightarrow> attempt \<times> deliveryLane \<times> DurableQueue \<times> 's" where
  "accepted sink queued artifacts l q s =
     (if artifacts \<noteq> [] \<and> sink = None then (Failed RuntimeSink, l, q, s)
      else case route_artifacts queued (RoutingDeviceID q) artifacts of
        None \<Rightarrow> (Failed MalformedResponse, setAttemptReason Unrecognised l, q, s)
      | Some (routed, covered) \<Rightarrow>
          if qa_Type queued = ArtifactDeliveryEnvelope \<and> \<not> covered
          then (Failed MalformedResponse, setAttemptReason Unrecognised l, q, s)
          else case (case sink of None \<Rightarrow> (True, s) | Some store \<Rightarrow> store_all store routed s) of
            (False, s) \<Rightarrow> (Failed RuntimeSink, setAttemptReason Unrecognised l, q, s)
          | (True, s) \<Rightarrow>
              (case Remove (qa_ID queued) q of
                 (Some e, q) \<Rightarrow> (Failed QueueRetirement, l, q, s)
               | (None, q) \<Rightarrow> (Delivered queued, l\<lparr>dl_attempts := 0, dl_attempted := no_artifact\<rparr>, q, s)))"

definition begin_attempt :: "QueuedArtifact \<Rightarrow> deliveryLane \<Rightarrow> deliveryLane" where
  "begin_attempt queued l =
     (if qa_ID (dl_attempted l) \<noteq> qa_ID queued then l\<lparr>dl_attempts := 0\<rparr> else l)
     \<lparr>dl_attempted := queued, dl_attemptReason := [], dl_notBefore := zero_time, dl_monoDue := 0, dl_retryAfter := 0,
      dl_backoffID := []\<rparr>"

definition deliverHead ::
  "channel \<Rightarrow> 's sink option \<Rightarrow> clocks \<Rightarrow> deliveryLane \<Rightarrow> DurableQueue \<Rightarrow> 's \<Rightarrow> attempt \<times> deliveryLane \<times> DurableQueue \<times> 's" where
  "deliverHead deliver sink c l0 q s =
     (let (head, l1) = adoptedHead q (l0\<lparr>dl_wake := False\<rparr>);
          (held, l2) = releaseHeldUnless head l1
      in if held then (Failed HeadHeld, l2, q, s)
         else case head of
           None \<Rightarrow> (Idle, l2, q, s)
         | Some queued \<Rightarrow>
             let l = begin_attempt queued l2
             in case deliver queued of
               Inl UnrecognisedOutcome \<Rightarrow> (Failed MalformedResponse, setAttemptReason Unrecognised l, q, s)
             | Inl _ \<Rightarrow> (Failed ChannelUnavailable, l, q, s)
             | Inr r \<Rightarrow>
                 if dr_Accepted r then accepted sink queued (dr_AuthorityArtifacts r) l q s
                 else
                   let l = setAttemptReason (RecordedReason (dr_RefusalStatus r) (dr_RefusalReason r)) l
                   in if dr_Retriable r then (Failed (ChannelRefused (dr_RetryAfter r)), l, q, s)
                      else if dr_ReceiverState r then (Failed ReceiverStateRefusal, l, q, s)
                      else case hold (ck_now c) queued (dr_RefusalStatus r) (dr_RefusalReason r) l q of
                        (l, q) \<Rightarrow> (Failed PermanentRefusal, l, q, s))"

section \<open>The loop of a lane\<close>

definition remind :: "clocks \<Rightarrow> deliveryLane \<Rightarrow> bool \<times> deliveryLane" where
  "remind c l =
     (let (waiting, l') = (case dl_stall l of
            None \<Rightarrow> (False, l)
          | Some st \<Rightarrow> if st_waitsForHandoff st then (True, l\<lparr>dl_stall := Some (st\<lparr>st_lastLogged := ck_now c\<rparr>)\<rparr>) else (False, l))
      in (dl_held l \<noteq> None \<or> waiting, l'))"

definition noteStall :: "timing \<Rightarrow> clocks \<Rightarrow> laneError \<Rightarrow> deliveryLane \<Rightarrow> deliveryLane" where
  "noteStall w c err l =
     (let now = ck_now c; head = dl_attempted l; waits = (err = ReceiverStateRefusal);
          enter = (case dl_stall l of None \<Rightarrow> True | Some st \<Rightarrow> st_id st \<noteq> qa_ID head \<or> (waits \<and> \<not> st_waitsForHandoff st));
          due = (case dl_stall l of None \<Rightarrow> False | Some st \<Rightarrow> \<not> enter \<and> time_Sub now (st_lastLogged st) \<ge> tm_reminder w);
          st = (case (enter, dl_stall l) of
                  (False, Some st) \<Rightarrow> st
                | _ \<Rightarrow> \<lparr>st_id = qa_ID head, st_failure = [], st_reason = [], st_waitsForHandoff = False, st_since = now, st_lastLogged = now\<rparr>);
          st1 = st\<lparr>st_failure := safeFailureReason err, st_reason := dl_attemptReason l, st_waitsForHandoff := waits\<rparr>
      in l\<lparr>dl_stall := Some (if due then st1\<lparr>st_lastLogged := now\<rparr> else st1)\<rparr>)"

definition recordFailure :: "clocks \<Rightarrow> laneError \<Rightarrow> deliveryLane \<Rightarrow> deliveryLane" where
  "recordFailure c err l = l\<lparr>dl_lastFailureAt := ck_now c, dl_lastError := safeFailureReason err\<rparr>"

definition clearFailure :: "deliveryLane \<Rightarrow> deliveryLane" where
  "clearFailure l = l\<lparr>dl_lastError := [], dl_stall := None\<rparr>"

text \<open>What the loop does after an attempt: the timer it sets, or none when the timer keeps running.\<close>

definition after_attempt ::
  "timing \<Rightarrow> (nat \<Rightarrow> clocks) \<Rightarrow> attempt \<Rightarrow> deliveryLane \<Rightarrow> DurableQueue \<Rightarrow> int option \<times> deliveryLane \<times> DurableQueue" where
  "after_attempt w clk a l q =
     (case a of
        Delivered _ \<Rightarrow> (Some 0, clearFailure l, q)
      | Idle \<Rightarrow> (Some (tm_retry w), clearFailure l, q)
      | Failed err \<Rightarrow>
          if err = HeadHeld then (None, l, q)
          else let l1 = recordFailure (clk 2) err l
          in if err = PermanentRefusal then (case clearBackoff l1 q of (l, q) \<Rightarrow> (Some (tm_reminder w), l, q))
             else let l2 = noteStall w (clk 3) err l1
             in if err = ReceiverStateRefusal then (case clearBackoff l2 q of (l, q) \<Rightarrow> (Some (tm_reminder w), l, q))
                else case scheduleBackoff w (clk 4) (clk 5) err l2 q of (wait, l, q) \<Rightarrow> (Some wait, l, q))"

datatype laneEvent = Wake | Timer

text \<open>One pass through the loop: the timer, and the attempt if one was made.\<close>

definition run_attempt ::
  "timing \<Rightarrow> channel \<Rightarrow> 's sink option \<Rightarrow> (nat \<Rightarrow> clocks) \<Rightarrow> deliveryLane \<Rightarrow> DurableQueue \<Rightarrow> 's
     \<Rightarrow> int option \<times> attempt option \<times> deliveryLane \<times> DurableQueue \<times> 's" where
  "run_attempt w deliver sink clk l q s =
     (case deliverHead deliver sink (clk 1) l q s of (a, l, q, s) \<Rightarrow>
       (case after_attempt w clk a l q of (timer, l, q) \<Rightarrow> (timer, Some a, l, q, s)))"

definition run_pass ::
  "timing \<Rightarrow> channel \<Rightarrow> 's sink option \<Rightarrow> (nat \<Rightarrow> clocks) \<Rightarrow> laneEvent \<Rightarrow> deliveryLane \<Rightarrow> DurableQueue \<Rightarrow> 's
     \<Rightarrow> int option \<times> attempt option \<times> deliveryLane \<times> DurableQueue \<times> 's" where
  "run_pass w deliver sink clk e l q s =
     (case e of
        Wake \<Rightarrow>
          (case backingOff w (clk 0) (l\<lparr>dl_wake := False\<rparr>) q of (backing, l, q) \<Rightarrow>
             if backing then (None, None, l, q, s) else run_attempt w deliver sink clk l q s)
      | Timer \<Rightarrow>
          (case remind (clk 0) l of (reminded, l) \<Rightarrow>
             if reminded then (Some (tm_reminder w), None, l, q, s)
             else case untilDue w (clk 0) l q of (wait, l, q) \<Rightarrow>
               if wait > 0 then (Some wait, None, l, q, s) else run_attempt w deliver sink clk l q s))"

section \<open>The worker\<close>

definition restore :: "timing \<Rightarrow> clocks \<Rightarrow> deliveryLane \<Rightarrow> DurableQueue \<Rightarrow> deliveryLane \<times> DurableQueue" where
  "restore w c l0 q =
     (case adoptedHead q l0 of
        (None, l) \<Rightarrow> (l, q)
      | (Some head, l) \<Rightarrow>
          (case BackoffFor (qa_ID head) q of
             None \<Rightarrow> (l, q)
           | Some r \<Rightarrow>
               let retryAfter = (case br_RetryAfterMS r of None \<Rightarrow> 0 | Some ms \<Rightarrow> wrap64 (ms * 1000000));
                   now = ck_wall c; latest = now + waitBound w retryAfter;
                   clamped = (of_millis (br_NotBeforeMS r) > latest);
                   notBefore = (if clamped then ceilMilli latest else of_millis (br_NotBeforeMS r))
               in (l\<lparr>dl_notBefore := notBefore, dl_attempts := br_Attempts r, dl_retryAfter := retryAfter, dl_backoffID := qa_ID head,
                     dl_monoDue := wrap64 (ck_mono c + max (time_Sub notBefore now) 0),
                     dl_lastError := safeFailureReason (ChannelRefused 0), dl_lastFailureAt := ck_now c\<rparr>,
                   if clamped then persistClamp (qa_ID head) notBefore (br_Attempts r) retryAfter q else q)))"

type_synonym lanes = "(LaneKey, deliveryLane) fmap"

definition lane :: "LaneKey \<Rightarrow> lanes \<Rightarrow> lanes" where
  "lane key ls = (if fmlookup ls key = None then fmupd key (new_lane key) ls else ls)"

definition notify :: "LaneKey \<Rightarrow> lanes \<Rightarrow> lanes" where
  "notify key ls = fmupd key ((fmget (new_lane key) ls key)\<lparr>dl_wake := True\<rparr>) ls"

definition NotifyDevice :: "string \<Rightarrow> lanes \<Rightarrow> lanes" where
  "NotifyDevice device ls =
     fold (\<lambda>k ls. notify (device, k) (lane (device, k) ls)) [LaneRegistration, LaneEvidence] ls"

definition retired :: "QueuedArtifact \<Rightarrow> string \<Rightarrow> lanes \<Rightarrow> lanes" where
  "retired queued device ls =
     (if qa_Type queued = ArtifactAnchorRegistration then notify (device, LaneEvidence) (lane (device, LaneEvidence) ls) else ls)"

record 's DeliveryWorker =
  dw_timing :: timing
  dw_lanes :: lanes
  dw_running :: bool
  dw_queue :: DurableQueue
  dw_sink :: 's

definition restore_lane :: "timing \<Rightarrow> (LaneKey \<Rightarrow> clocks) \<Rightarrow> LaneKey \<Rightarrow> lanes \<times> DurableQueue \<Rightarrow> lanes \<times> DurableQueue" where
  "restore_lane w clk key st =
     (let ls = lane key (fst st); (l, q) = restore w (clk key) (fmget (new_lane key) ls key) (snd st) in (fmupd key l ls, q))"

definition NewDeliveryWorker :: "(LaneKey \<Rightarrow> clocks) \<Rightarrow> DeliveryWorkerOptions \<Rightarrow> DurableQueue \<Rightarrow> 's \<Rightarrow> 's DeliveryWorker" where
  "NewDeliveryWorker clk opts q s =
     (let w = worker_timing opts; (ls, q1) = fold (restore_lane w clk) (Lanes q) (fmempty, q)
      in \<lparr>dw_timing = w, dw_lanes = ls, dw_running = False, dw_queue = q1, dw_sink = s\<rparr>)"

text \<open>\<open>Run\<close> starts the loop of every lane, once; \<open>None\<close> is its error.\<close>

definition Run :: "'s DeliveryWorker \<Rightarrow> 's DeliveryWorker option" where
  "Run W = (if dw_running W then None else Some (W\<lparr>dw_running := True\<rparr>))"

text \<open>One pass of the loop of a lane of the worker, with the handoff a retirement gives.\<close>

definition worker_pass ::
  "channel \<Rightarrow> 's sink option \<Rightarrow> (nat \<Rightarrow> clocks) \<Rightarrow> LaneKey \<Rightarrow> laneEvent \<Rightarrow> 's DeliveryWorker \<Rightarrow> 's DeliveryWorker" where
  "worker_pass deliver sink clk key e W =
     (case fmlookup (dw_lanes W) key of
        None \<Rightarrow> W
      | Some l \<Rightarrow>
          (case run_pass (dw_timing W) deliver sink clk e l (dw_queue W) (dw_sink W) of (timer, a, l', q', s') \<Rightarrow>
             let ls = fmupd key l' (dw_lanes W)
             in W\<lparr>dw_lanes := (case a of Some (Delivered queued) \<Rightarrow> retired queued (dl_device l') ls | _ \<Rightarrow> ls),
                  dw_queue := q', dw_sink := s'\<rparr>))"

section \<open>Status\<close>

definition DeviceHeld :: string where "DeviceHeld = ''held''"
definition DeviceWaitingHandoff :: string where "DeviceWaitingHandoff = ''waiting_handoff''"
definition DeviceBackingOff :: string where "DeviceBackingOff = ''backing_off''"

record HeldStatus =
  hs_record :: HoldRecord
  hs_Persisted :: bool

record DeviceDeliveryStatus =
  ds_DeviceID :: string
  ds_Lane :: string
  ds_Pending :: int
  ds_State :: string
  ds_Held :: "HeldStatus option"

record DeliveryStatus =
  dst_Pending :: nat
  dst_Degraded :: bool
  dst_Blocked :: bool
  dst_LastFailureAt :: int
  dst_LastError :: string
  dst_Held :: "HeldStatus option"
  dst_Devices :: "DeviceDeliveryStatus list"
  dst_Faults :: "string list"

definition lane_entry :: "int \<Rightarrow> deliveryLane \<Rightarrow> DeviceDeliveryStatus" where
  "lane_entry pending l =
     (let entry = \<lparr>ds_DeviceID = dl_device l, ds_Lane = dl_lane l, ds_Pending = pending, ds_State = [], ds_Held = None\<rparr>
      in if pending = 0 then entry
         else case dl_held l of
           Some h \<Rightarrow> entry\<lparr>ds_State := DeviceHeld, ds_Held := Some \<lparr>hs_record = hh_record h, hs_Persisted = hh_persisted h\<rparr>\<rparr>
         | None \<Rightarrow>
             if (case dl_stall l of None \<Rightarrow> False | Some st \<Rightarrow> st_waitsForHandoff st) then entry\<lparr>ds_State := DeviceWaitingHandoff\<rparr>
             else if dl_lastError l \<noteq> [] then entry\<lparr>ds_State := DeviceBackingOff\<rparr>
             else entry)"

definition status_lane ::
  "(LaneKey, int) fmap \<Rightarrow> deliveryLane \<Rightarrow> DeliveryStatus \<times> int \<times> bool \<Rightarrow> DeliveryStatus \<times> int \<times> bool" where
  "status_lane counts l acc =
     (case acc of (st, listed, heldAll) \<Rightarrow>
        let entry = lane_entry (fmget 0 counts (lane_key_of l)) l;
            st1 = (if dl_lastError l \<noteq> [] \<and> dl_lastFailureAt l > dst_LastFailureAt st
                   then st\<lparr>dst_LastFailureAt := dl_lastFailureAt l, dst_LastError := dl_lastError l\<rparr> else st)
        in if ds_State entry = [] then (st1, listed, heldAll)
           else (st1\<lparr>dst_Devices := dst_Devices st1 @ [entry],
                     dst_Held := (if ds_Held entry \<noteq> None \<and> dst_Held st1 = None then ds_Held entry else dst_Held st1)\<rparr>,
                 listed + ds_Pending entry, heldAll \<and> ds_State entry = DeviceHeld))"

definition sorted_lanes :: "lanes \<Rightarrow> deliveryLane list" where
  "sorted_lanes ls = map (\<lambda>k. fmget (new_lane k) ls k) (sorted_list_of_fset (fmdom ls))"

definition Status :: "Recorder \<Rightarrow> lanes \<Rightarrow> DurableQueue \<Rightarrow> DeliveryStatus" where
  "Status faults ls q =
     (let (total, counts) = laneCounts q;
          zero = \<lparr>dst_Pending = total, dst_Degraded = False, dst_Blocked = False, dst_LastFailureAt = zero_time, dst_LastError = [],
                  dst_Held = None, dst_Devices = [], dst_Faults = []\<rparr>;
          (st, listed, heldAll) = fold (status_lane counts) (sorted_lanes ls) (zero, 0, True)
      in st\<lparr>dst_Blocked := (total > 0 \<and> listed = int total \<and> heldAll), dst_Faults := Active faults,
            dst_Degraded := (Active faults \<noteq> [] \<or> dst_Devices st \<noteq> [])\<rparr>)"

end
