(* ===== verification/Delivery.thy ===== *)
theory Delivery
  imports Worker
begin

text \<open>
  What the delivery worker promises: an artifact leaves its lane only when the authority accepted exactly it and everything the
  authority returned is staged; a refused head is never sent again; a back-off is never brought forward, and never stretched
  past its bound by a clock that was set back; and the status says blocked exactly when every queued artifact is held.
\<close>

named_theorems lane_rules

section \<open>What leaves the lanes alone\<close>

text \<open>Every change of the queue but a retirement is one of these.\<close>

definition calm :: "DurableQueue \<Rightarrow> DurableQueue \<Rightarrow> bool" where
  "calm q q' \<longleftrightarrow> (queue_inv q \<longrightarrow> core q' = core q \<and> queue_inv q')"

lemma calm_refl [simp, intro]: "calm q q"
  by (simp add: calm_def)

lemma calm_trans: "calm q q' \<Longrightarrow> calm q' q'' \<Longrightarrow> calm q q''"
  by (simp add: calm_def)

lemma calm_lane: "calm q q' \<Longrightarrow> queue_inv q \<Longrightarrow> lane_of q' = lane_of q"
  using core_lane [of q' q] by (simp add: calm_def)

lemma calm_inv: "calm q q' \<Longrightarrow> queue_inv q \<Longrightarrow> queue_inv q'"
  by (simp add: calm_def)

lemma calm_SetBackoff: "calm q (snd (SetBackoff b q))"
  using SetBackoff_inv [of q b] by (cases "SetBackoff b q") (simp add: calm_def)

lemma calm_ClearBackoff: "calm q (snd (ClearBackoff i q))"
  using ClearBackoff_inv [of q i] by (cases "ClearBackoff i q") (simp add: calm_def)

lemma calm_Queue_Hold: "calm q (snd (Queue_Hold h q))"
  using Queue_Hold_inv [of q h] by (cases "Queue_Hold h q") (simp add: calm_def)

lemma calm_persistClamp: "calm q (persistClamp i n a r q)"
  by (simp add: persistClamp_def calm_SetBackoff)

lemma calm_untilDue: "untilDue w c l q = (wait, l', q') \<Longrightarrow> calm q q'"
  by (auto simp: untilDue_def Let_def calm_persistClamp split: if_splits)

lemma calm_scheduleBackoff: "scheduleBackoff w c c' err l q = (wait, l', q') \<Longrightarrow> calm q q'"
  unfolding scheduleBackoff_def Let_def
  by (drule calm_untilDue) (auto intro: calm_trans calm_SetBackoff split: if_splits)

lemma calm_clearBackoff: "clearBackoff l q = (l', q') \<Longrightarrow> calm q q'"
  by (auto simp: clearBackoff_def calm_ClearBackoff)

lemma calm_hold: "hold now queued st reason l q = (l', q') \<Longrightarrow> calm q q'"
  unfolding hold_def Let_def by (metis (no_types, lifting) calm_Queue_Hold prod.case_eq_if prod.inject)

lemma calm_after_attempt: "after_attempt w clk a l q = (t, l', q') \<Longrightarrow> calm q q'"
  by (cases a) (auto simp: after_attempt_def Let_def calm_clearBackoff calm_scheduleBackoff split: if_splits prod.splits)

text \<open>A lane keeps its key.\<close>

lemma key_untilDue: "untilDue w c l q = (wait, l', q') \<Longrightarrow> lane_key_of l' = lane_key_of l \<and> dl_held l' = dl_held l \<and> dl_monoDue l' = dl_monoDue l"
  by (auto simp: untilDue_def Let_def lane_key_of_def split: if_splits)

lemma key_adoptedHead: "adoptedHead q l = (h, l') \<Longrightarrow> h = PeekLane (lane_key_of l) q \<and> lane_key_of l' = lane_key_of l"
  by (auto simp: adoptedHead_def adoptDurableHold_def held_lane_def lane_key_of_def split: option.splits if_splits)

lemma key_releaseHeldUnless: "releaseHeldUnless h l = (b, l') \<Longrightarrow> lane_key_of l' = lane_key_of l"
  by (auto simp: releaseHeldUnless_def lane_key_of_def split: option.splits if_splits)

section \<open>One attempt\<close>

lemma Remove_lane:
  assumes "queue_inv q" "Remove rid q = (err, q')"
  shows "lane_of q' = (if err = None then (\<lambda>k. filter (\<lambda>a. qa_ID a \<noteq> rid) (lane_of q k)) else lane_of q)"
proof -
  have "retire rid q = (err = None, q')" using assms(2) by (simp add: retire_def)
  from retire_cases(2) [OF assms(1) this] show ?thesis .
qed

definition store_routed :: "'s sink option \<Rightarrow> AuthorityArtifact list \<Rightarrow> 's \<Rightarrow> bool \<times> 's" where
  "store_routed sink routed s = (case sink of None \<Rightarrow> (True, s) | Some store \<Rightarrow> store_all store routed s)"

lemma accepted_cases:
  assumes "accepted sink queued artifacts l q s = (a, l', q', s')" "queue_inv q"
  obtains (kept) e where "a = Failed e" "lane_of q' = lane_of q" "queue_inv q'" "dl_held l' = dl_held l" "e \<noteq> HeadHeld" "e \<noteq> PermanentRefusal" "lane_key_of l' = lane_key_of l"
  | (gone) routed covered where "a = Delivered queued" "artifacts \<noteq> [] \<Longrightarrow> sink \<noteq> None"
      "route_artifacts queued (RoutingDeviceID q) artifacts = Some (routed, covered)"
      "qa_Type queued = ArtifactDeliveryEnvelope \<Longrightarrow> covered" "store_routed sink routed s = (True, s')"
      "Remove (qa_ID queued) q = (None, q')" "lane_key_of l' = lane_key_of l"
proof -
  consider "artifacts \<noteq> [] \<and> sink = None" | "\<not> (artifacts \<noteq> [] \<and> sink = None)" by blast
  then show ?thesis
  proof cases
    case 1
    then show ?thesis using assms kept [of RuntimeSink] by (simp add: accepted_def)
  next
    case 2
    show ?thesis
    proof (cases "route_artifacts queued (RoutingDeviceID q) artifacts")
      case None
      then show ?thesis using assms 2 kept [of MalformedResponse] by (auto simp add: accepted_def setAttemptReason_def lane_key_of_def)
    next
      case (Some p)
      obtain routed covered where p: "p = (routed, covered)" by fastforce
      obtain ok s1 where st: "store_routed sink routed s = (ok, s1)" by fastforce
      obtain err q1 where rm: "Remove (qa_ID queued) q = (err, q1)" by fastforce
      have inv: "queue_inv q1" using Remove_inv [OF assms(2) rm] .
      have "err \<noteq> None \<Longrightarrow> lane_of q1 = lane_of q"
        using Remove_lane [OF assms(2) rm] by (cases err) simp_all
      then show ?thesis
        using assms 2 Some p st rm inv kept gone [of routed covered]
        by (cases ok; cases err) (auto simp: accepted_def setAttemptReason_def lane_key_of_def store_routed_def [symmetric] split: if_splits)
    qed
  qed
qed

lemma begin_key [simp]: "lane_key_of (begin_attempt a l) = lane_key_of l" "dl_held (begin_attempt a l) = dl_held l"
  by (simp_all add: begin_attempt_def lane_key_of_def)

lemma reason_key [simp]: "lane_key_of (setAttemptReason x l) = lane_key_of l" "dl_held (setAttemptReason x l) = dl_held l"
  by (simp_all add: setAttemptReason_def lane_key_of_def)

lemma hold_lane:
  assumes "hold now queued st reason l q = (l', q')"
  shows "lane_key_of l' = lane_key_of l"
    "\<exists>h. dl_held l' = Some h \<and> hr_QueueRecord (hh_record h) = qa_ID queued \<and> (hh_persisted h \<longrightarrow> HoldFor (qa_ID queued) q' \<noteq> None)"
proof -
  define s1 where "s1 = (if heldRefusalStatus st then st else 0)"
  define r where "r = \<lparr>hr_V = holdRecordVersion, hr_QueueRecord = qa_ID queued, hr_ArtifactDigest = payloadDigest (qa_Payload queued),
    hr_ArtifactType = qa_Type queued, hr_RefusalStatus = s1, hr_Reason = RecordedReason s1 reason, hr_FirstHeldAtMS = UnixMilli now, hr_Acknowledged = False\<rparr>"
  obtain err q1 where h: "Queue_Hold r q = (err, q1)" by fastforce
  have "err = None \<Longrightarrow> HoldFor (qa_ID queued) q1 \<noteq> None"
    using h by (auto simp: Queue_Hold_def HoldFor_def r_def Let_def split: option.splits if_splits prod.splits)
  moreover have e: "q' = q1" "l' = (held_lane \<lparr>hh_record = r, hh_deviceID = artifactDeviceID (qa_Payload queued), hh_persisted = False\<rparr> l)
      \<lparr>dl_held := Some \<lparr>hh_record = r, hh_deviceID = artifactDeviceID (qa_Payload queued), hh_persisted = (err = None)\<rparr>\<rparr>"
    using assms h by (simp_all add: hold_def Let_def r_def s1_def)
  ultimately show "\<exists>h. dl_held l' = Some h \<and> hr_QueueRecord (hh_record h) = qa_ID queued \<and> (hh_persisted h \<longrightarrow> HoldFor (qa_ID queued) q' \<noteq> None)"
    by (simp add: r_def)
  show "lane_key_of l' = lane_key_of l" using e(2) by (simp add: held_lane_def lane_key_of_def)
qed

text \<open>The attempt on a head that is not held, from the moment the channel is called.\<close>

definition attempt_head ::
  "channel \<Rightarrow> 's sink option \<Rightarrow> clocks \<Rightarrow> QueuedArtifact \<Rightarrow> deliveryLane \<Rightarrow> DurableQueue \<Rightarrow> 's
     \<Rightarrow> attempt \<times> deliveryLane \<times> DurableQueue \<times> 's" where
  "attempt_head deliver sink c queued l q s =
     (case deliver queued of
        Inl UnrecognisedOutcome \<Rightarrow> (Failed MalformedResponse, setAttemptReason Unrecognised l, q, s)
      | Inl _ \<Rightarrow> (Failed ChannelUnavailable, l, q, s)
      | Inr r \<Rightarrow>
          if dr_Accepted r then accepted sink queued (dr_AuthorityArtifacts r) l q s
          else
            let l = setAttemptReason (RecordedReason (dr_RefusalStatus r) (dr_RefusalReason r)) l
            in if dr_Retriable r then (Failed (ChannelRefused (dr_RetryAfter r)), l, q, s)
               else if dr_ReceiverState r then (Failed ReceiverStateRefusal, l, q, s)
               else case hold (ck_now c) queued (dr_RefusalStatus r) (dr_RefusalReason r) l q of
                 (l, q) \<Rightarrow> (Failed PermanentRefusal, l, q, s))"

lemma deliverHead_attempt:
  "deliverHead deliver sink c l q s =
     (case adoptedHead q (l\<lparr>dl_wake := False\<rparr>) of (head, l1) \<Rightarrow>
       (case releaseHeldUnless head l1 of (held, l2) \<Rightarrow>
         if held then (Failed HeadHeld, l2, q, s)
         else case head of None \<Rightarrow> (Idle, l2, q, s) | Some queued \<Rightarrow> attempt_head deliver sink c queued (begin_attempt queued l2) q s))"
  by (simp add: deliverHead_def attempt_head_def Let_def split: prod.splits option.splits)

lemma attempt_cases:
  assumes "attempt_head deliver sink c queued l q s = (a, l', q', s')" "queue_inv q"
  obtains (kept) e where "a = Failed e" "e \<noteq> HeadHeld" "e \<noteq> PermanentRefusal" "lane_of q' = lane_of q" "queue_inv q'" "lane_key_of l' = lane_key_of l"
  | (refused) h where "a = Failed PermanentRefusal" "calm q q'" "s' = s" "dl_held l' = Some h" "hr_QueueRecord (hh_record h) = qa_ID queued"
      "lane_key_of l' = lane_key_of l"
  | (gone) r routed covered where "a = Delivered queued" "deliver queued = Inr r" "dr_Accepted r"
      "dr_AuthorityArtifacts r \<noteq> [] \<Longrightarrow> sink \<noteq> None"
      "route_artifacts queued (RoutingDeviceID q) (dr_AuthorityArtifacts r) = Some (routed, covered)"
      "qa_Type queued = ArtifactDeliveryEnvelope \<Longrightarrow> covered" "store_routed sink routed s = (True, s')"
      "Remove (qa_ID queued) q = (None, q')" "lane_key_of l' = lane_key_of l"
proof (cases "deliver queued")
  case (Inl e)
  then show ?thesis using assms kept
    by (cases e) (auto simp: attempt_head_def)
next
  case (Inr r)
  show ?thesis
  proof (cases "dr_Accepted r")
    case True
    then have "accepted sink queued (dr_AuthorityArtifacts r) l q s = (a, l', q', s')" using assms(1) Inr by (simp add: attempt_head_def)
    from this assms(2) show ?thesis
      by (cases rule: accepted_cases) (use kept gone Inr True in blast)+
  next
    case False
    let ?l = "setAttemptReason (RecordedReason (dr_RefusalStatus r) (dr_RefusalReason r)) l"
    obtain l2 q2 where h: "hold (ck_now c) queued (dr_RefusalStatus r) (dr_RefusalReason r) ?l q = (l2, q2)" by fastforce
    show ?thesis
    proof (cases "dr_Retriable r \<or> dr_ReceiverState r")
      case True
      then show ?thesis using assms kept Inr False by (auto simp: attempt_head_def Let_def split: if_splits)
    next
      case F: False
      then have "a = Failed PermanentRefusal" "l' = l2" "q' = q2" "s' = s"
        using assms(1) Inr False h by (auto simp: attempt_head_def Let_def)
      then show ?thesis using refused hold_lane [OF h] calm_hold [OF h] by auto
    qed
  qed
qed

section \<open>Staging\<close>

text \<open>What the worker relies on of its sink: as long as the sink is ready for one more artifact, a success means the artifact
  is staged, and nothing staged before is lost.\<close>

locale staging_sink =
  fixes store :: "'s sink"
    and ready :: "nat \<Rightarrow> 's \<Rightarrow> bool"
    and staged :: "'s \<Rightarrow> AuthorityArtifact \<Rightarrow> bool"
  assumes store_ready: "ready (Suc n) s \<Longrightarrow> store a s = (ok, s') \<Longrightarrow> ready n s'"
    and store_stages: "ready (Suc n) s \<Longrightarrow> store a s = (True, s') \<Longrightarrow> staged s' a"
    and store_keeps: "ready (Suc n) s \<Longrightarrow> store a s = (ok, s') \<Longrightarrow> staged s b \<Longrightarrow> staged s' b"
begin

lemma all_staged:
  "ready (length as) s \<Longrightarrow> store_all store as s = (ok, s') \<Longrightarrow> (\<forall>b. staged s b \<longrightarrow> staged s' b) \<and> (ok \<longrightarrow> (\<forall>a\<in>set as. staged s' a))"
proof (induction as arbitrary: s)
  case (Cons a as)
  obtain ok1 s1 where st: "store a s = (ok1, s1)" by fastforce
  have r: "ready (Suc (length as)) s" using Cons.prems(1) by simp
  note keeps = store_keeps [OF r st] and next_ready = store_ready [OF r st]
  show ?case
  proof (cases ok1)
    case True
    then have "store_all store as s1 = (ok, s')" using Cons.prems(2) st by simp
    from Cons.IH [OF next_ready this] show ?thesis using keeps store_stages [OF r] st True by auto
  next
    case False
    then show ?thesis using Cons.prems(2) st keeps by auto
  qed
qed simp

end

text \<open>The durable return queue as a sink.\<close>

definition durable_sink ::
  "(string list \<Rightarrow> string \<Rightarrow> strictError set option) \<Rightarrow> (string \<Rightarrow> string option) \<Rightarrow> int \<Rightarrow> DurableQueue sink" where
  "durable_sink decodeStrict wire now artifact s = (let (e, s') = Store decodeStrict wire artifact now s in (e = None, s'))"

definition sink_ready :: "int \<Rightarrow> nat \<Rightarrow> DurableQueue \<Rightarrow> bool" where
  "sink_ready now n s \<longleftrightarrow> queue_inv s \<and> durable s \<and> q_nextSeq s + int n \<le> maxInt64 \<and> now \<le> maxInt64"

definition staged :: "DurableQueue \<Rightarrow> AuthorityArtifact \<Rightarrow> bool" where
  "staged s a \<longleftrightarrow> (\<exists>kind r. sinkKind (aa_Type a) = Some kind \<and> fmlookup (q_entries s) (artifactID kind (aa_Payload a)) = Some r
     \<and> stored (artifactID kind (aa_Payload a)) r (q_disk s))"

lemma enqueue_keeps_entries:
  assumes e: "enqueueOrFind kind payload now q = (res, q')" and inv: "queue_inv q" "q_nextSeq q < maxInt64"
  shows "(fmlookup (q_entries q) i = Some r \<longrightarrow> fmlookup (q_entries q') i = Some r) \<and> q_nextSeq q' \<le> q_nextSeq q + 1"
  using e
proof (cases rule: enqueueOrFind_cases)
  case (refused e)
  then show ?thesis using frame_core [of q' q] core_eq [of q' q] by simp
next
  case (inserted x sz q1)
  have id: "qr_ID x = artifactID kind payload" using inserted(2) by (simp add: new_record_def)
  have same: "q_entries q1 = q_entries q" "q_nextSeq q1 = q_nextSeq q"
    using frame_core [OF inserted(8)] core_eq [of q1 q] by auto
  have "0 < q_nextSeq q" using inv(1) by (simp add: queue_inv_def order_inv_def)
  then have "q_nextSeq q' = q_nextSeq q + 1"
    using inv(2) same unfolding inserted(7) by (simp add: commit_fields [OF id] minInt64_def)
  moreover have "fmlookup (q_entries q') i = (if i = artifactID kind payload then Some x else fmlookup (q_entries q) i)"
    using same unfolding inserted(7) by (simp add: commit_fields [OF id])
  ultimately show ?thesis using inserted(3) by simp
qed simp

lemma Store_enqueues:
  assumes "Store decodeStrict wire a now s = (e, s')"
  obtains (same) "s' = s" "e \<noteq> None"
  | (enqueued) kind res where "sinkKind (aa_Type a) = Some kind" "enqueueOrFind kind (aa_Payload a) now s = (res, s')" "e = None \<Longrightarrow> \<exists>x. res = Inr x"
  using assms by (auto simp: Store_def split: option.splits if_splits prod.splits sum.splits)

lemma enqueue_found: "enqueueOrFind kind payload now q = (Inr x, q') \<Longrightarrow> \<exists>r. fmlookup (q_entries q') (artifactID kind payload) = Some r"
  by (erule enqueueOrFind_cases) (auto simp: commit_fields new_record_def)

lemma Store_ready:
  assumes "sink_ready now (Suc n) s" "Store decodeStrict wire a now s = (e, s')"
  shows "sink_ready now n s'" "e = None \<Longrightarrow> staged s' a" "staged s b \<Longrightarrow> staged s' b"
proof -
  have r: "queue_inv s" "durable s" "q_nextSeq s < maxInt64" "now \<le> maxInt64" "q_nextSeq s + int n + 1 \<le> maxInt64"
    using assms(1) by (auto simp: sink_ready_def)
  from assms(2) have "sink_ready now n s' \<and> (e = None \<longrightarrow> staged s' a) \<and> (staged s b \<longrightarrow> staged s' b)"
  proof (cases rule: Store_enqueues)
    case same
    then show ?thesis using r by (auto simp: sink_ready_def)
  next
    case (enqueued kind res)
    have inv: "queue_inv s'" "durable s'"
      using enqueueOrFind_inv [OF r(1,3) enqueued(2)] enqueue_durable [OF r(1,2) enqueued(2) r(3,4)] by auto
    have "staged s b \<longrightarrow> staged s' b"
      using enqueue_keeps_entries [OF enqueued(2) r(1,3)] inv(2) unfolding staged_def durable_def by blast
    moreover have "e = None \<longrightarrow> staged s' a"
      using enqueued inv(2) enqueue_found unfolding staged_def durable_def by blast
    moreover have "q_nextSeq s' \<le> q_nextSeq s + 1" using enqueue_keeps_entries [OF enqueued(2) r(1,3)] by blast
    ultimately show ?thesis using inv r(4,5) by (simp add: sink_ready_def)
  qed
  then show "sink_ready now n s'" "e = None \<Longrightarrow> staged s' a" "staged s b \<Longrightarrow> staged s' b" by auto
qed

interpretation rs: staging_sink "durable_sink decodeStrict wire now" "sink_ready now" staged for decodeStrict wire now
proof
  show "sink_ready now n s'" if "sink_ready now (Suc n) s" "durable_sink decodeStrict wire now a s = (ok, s')" for n s a ok s'
    using that Store_ready(1) by (auto simp: durable_sink_def split: prod.splits)
  show "staged s' a" if "sink_ready now (Suc n) s" "durable_sink decodeStrict wire now a s = (True, s')" for n s a s'
    using that Store_ready(2) by (auto simp: durable_sink_def split: prod.splits)
  show "staged s' b" if "sink_ready now (Suc n) s" "durable_sink decodeStrict wire now a s = (ok, s')" "staged s b" for n s a ok s' b
    using that Store_ready(3) by (auto simp: durable_sink_def split: prod.splits)
qed

section \<open>One pass\<close>

lemma key_after_attempt: "after_attempt w clk a l q = (t, l', q') \<Longrightarrow> lane_key_of l' = lane_key_of l"
  unfolding after_attempt_def Let_def clearFailure_def recordFailure_def noteStall_def clearBackoff_def scheduleBackoff_def
  by (auto simp: lane_key_of_def [of "deliveryLane.extend _ _"] lane_key_of_def split: attempt.splits if_splits prod.splits
      dest!: key_untilDue)

lemma key_remind: "remind c l = (b, l') \<Longrightarrow> lane_key_of l' = lane_key_of l"
  by (auto simp: remind_def Let_def lane_key_of_def split: option.splits if_splits)

lemma remind_held: "dl_held l \<noteq> None \<Longrightarrow> \<exists>l0. remind c l = (True, l0) \<and> lane_key_of l0 = lane_key_of l \<and> dl_held l0 = dl_held l"
  by (cases "dl_stall l") (auto simp: remind_def Let_def lane_key_of_def)

lemma run_pass_cases:
  assumes "run_pass w deliver sink clk e l q s = (t, a, l', q', s')"
  obtains (silent) "a = None" "calm q q'" "s' = s" "lane_key_of l' = lane_key_of l"
  | (tried) l1 q1 a1 l2 q2 where "lane_key_of l1 = lane_key_of l" "calm q q1" "deliverHead deliver sink (clk 1) l1 q1 s = (a1, l2, q2, s')"
      "a = Some a1" "calm q2 q'" "lane_key_of l' = lane_key_of l2"
proof -
  have attempt: thesis if k: "lane_key_of l1 = lane_key_of l" "calm q q1" and r: "run_attempt w deliver sink clk l1 q1 s = (t, a, l', q', s')" for l1 q1
  proof -
    obtain a1 l2 q2 s2 where d: "deliverHead deliver sink (clk 1) l1 q1 s = (a1, l2, q2, s2)" by (metis prod_cases4)
    obtain t3 l3 q3 where f: "after_attempt w clk a1 l2 q2 = (t3, l3, q3)" by (metis prod_cases3)
    show thesis using tried [OF k] d f r calm_after_attempt [OF f] key_after_attempt [OF f] by (simp add: run_attempt_def)
  qed
  show thesis
  proof (cases e)
    case Wake
    obtain wait l1 q1 where u: "untilDue w (clk 0) (l\<lparr>dl_wake := False\<rparr>) q = (wait, l1, q1)" by (metis prod_cases3)
    have k: "lane_key_of l1 = lane_key_of l" "calm q q1" using key_untilDue [OF u] calm_untilDue [OF u] by (simp_all add: lane_key_of_def)
    show thesis using assms u Wake silent k attempt [OF k] by (auto simp: run_pass_def backingOff_def split: if_splits)
  next
    case Timer
    obtain b l0 where r: "remind (clk 0) l = (b, l0)" by fastforce
    obtain wait l1 q1 where u: "untilDue w (clk 0) l0 q = (wait, l1, q1)" by (metis prod_cases3)
    have k: "lane_key_of l1 = lane_key_of l" "calm q q1" using key_untilDue [OF u] calm_untilDue [OF u] key_remind [OF r] by simp_all
    show thesis using assms u r Timer silent k key_remind [OF r] attempt [OF k] by (auto simp: run_pass_def split: if_splits)
  qed
qed

lemma deliverHead_cases:
  assumes "deliverHead deliver sink c l q s = (a, l', q', s')" "queue_inv q"
  obtains (kept) "\<forall>x. a \<noteq> Delivered x" "lane_of q' = lane_of q" "queue_inv q'" "lane_key_of l' = lane_key_of l"
  | (gone) queued r routed covered where "a = Delivered queued" "PeekLane (lane_key_of l) q = Some queued" "deliver queued = Inr r" "dr_Accepted r"
      "dr_AuthorityArtifacts r \<noteq> [] \<Longrightarrow> sink \<noteq> None"
      "route_artifacts queued (RoutingDeviceID q) (dr_AuthorityArtifacts r) = Some (routed, covered)"
      "qa_Type queued = ArtifactDeliveryEnvelope \<Longrightarrow> covered" "store_routed sink routed s = (True, s')"
      "Remove (qa_ID queued) q = (None, q')" "lane_key_of l' = lane_key_of l"
proof -
  obtain head l1 where h: "adoptedHead q (l\<lparr>dl_wake := False\<rparr>) = (head, l1)" by fastforce
  obtain held l2 where r: "releaseHeldUnless head l1 = (held, l2)" by fastforce
  have k: "head = PeekLane (lane_key_of l) q" "lane_key_of l2 = lane_key_of l"
    using key_adoptedHead [OF h] key_releaseHeldUnless [OF r] by (simp_all add: lane_key_of_def)
  show thesis
  proof (cases "held \<or> head = None")
    case True
    then show thesis using assms h r kept k by (auto simp: deliverHead_attempt split: if_splits)
  next
    case False
    then obtain queued where q: "head = Some queued" by auto
    then have "attempt_head deliver sink c queued (begin_attempt queued l2) q s = (a, l', q', s')"
      using assms(1) h r False by (simp add: deliverHead_attempt)
    from this assms(2) show thesis
    proof (cases rule: attempt_cases)
      case (refused h)
      then show thesis using kept k(2) calm_lane [of q q'] calm_inv [of q q'] assms(2) by simp
    next
      case g: (gone r routed covered)
      show thesis by (rule gone [OF g(1) _ g(2-8)]) (use k q g in simp_all)
    qed (use kept k in auto)
  qed
qed

lemma key_deliverHead: "deliverHead deliver sink c l q s = (a, l', q', s') \<Longrightarrow> lane_key_of l' = lane_key_of l"
proof -
  assume d: "deliverHead deliver sink c l q s = (a, l', q', s')"
  obtain head l1 where h: "adoptedHead q (l\<lparr>dl_wake := False\<rparr>) = (head, l1)" by fastforce
  obtain held l2 where r: "releaseHeldUnless head l1 = (held, l2)" by fastforce
  have "lane_key_of l2 = lane_key_of l"
    using key_adoptedHead [OF h] key_releaseHeldUnless [OF r] by (simp add: lane_key_of_def)
  moreover have "attempt_head deliver sink c queued x q s = (a, l', q', s') \<Longrightarrow> lane_key_of l' = lane_key_of x" for queued x
    by (auto simp: attempt_head_def accepted_def Let_def setAttemptReason_def lane_key_of_def
        split: sum.splits deliverError.splits if_splits option.splits prod.splits bool.splits dest!: hold_lane(1))
  ultimately show ?thesis using d h r by (auto simp: deliverHead_attempt split: if_splits option.splits)
qed

section \<open>Retirement\<close>

text \<open>The receipt that covers an envelope: it names the same device, and its range holds the sequence number of the envelope.\<close>

definition covers :: "QueuedArtifact \<Rightarrow> AuthorityArtifact \<Rightarrow> bool" where
  "covers queued a \<longleftrightarrow>
     (case (decodeRouting envelopeMembers (qa_Payload queued), decodeRouting authorityMembers (aa_Payload a)) of
        (Some outbound, Some authority) \<Rightarrow>
          (case (rt_FromSeq authority, rt_ToSeq authority) of
             (Some from, Some to) \<Rightarrow> aa_Type a = AuthorityDeliveryReceipt \<and> rt_DeviceID authority = rt_DeviceID outbound
               \<and> from \<le> rt_LocalSeq outbound \<and> rt_LocalSeq outbound \<le> to
           | _ \<Rightarrow> False)
      | _ \<Rightarrow> False)"

lemma validate_covers: "validateAuthorityRouting queued a domain = Inr (device, True) \<Longrightarrow> covers queued a"
  by (auto simp: validateAuthorityRouting_def authorityRoutingProjection_def covers_def Let_def
      split: option.splits if_splits sum.splits)

lemma route_covers: "route_artifacts queued domain as = Some (routed, True) \<Longrightarrow> \<exists>a\<in>set as. covers queued a"
proof (induction as arbitrary: routed)
  case (Cons a as)
  then show ?case using validate_covers [of queued a domain] by (fastforce split: if_splits sum.splits option.splits)
qed simp

lemma route_staged: "route_artifacts queued domain as = Some (routed, c) \<Longrightarrow> (\<forall>b\<in>set routed. staged s b) \<Longrightarrow> a \<in> set as \<Longrightarrow> staged s a"
  by (induction as arbitrary: routed c) (auto simp: staged_def split: if_splits sum.splits option.splits)

lemma route_length: "route_artifacts queued domain as = Some (routed, c) \<Longrightarrow> length routed = length as"
  by (induction as arbitrary: routed c) (auto split: if_splits sum.splits option.splits)

definition lanes_keyed :: "lanes \<Rightarrow> bool" where
  "lanes_keyed ls \<longleftrightarrow> (\<forall>key l. fmlookup ls key = Some l \<longrightarrow> lane_key_of l = key)"

lemma head_removed:
  assumes "queue_inv q" "PeekLane key q = Some a" "Remove (qa_ID a) q = (None, q')"
  shows "lane_of q key = a # lane_of q' key" "k \<noteq> key \<Longrightarrow> lane_of q' k = lane_of q k"
  using lf.head_retired [OF assms(1,2), of q'] assms(3) by (simp_all add: retire_def)

text \<open>C4. An artifact leaves the queue only when the authority accepted it. A pass of the worker either leaves every lane as it
  is, or takes the oldest artifact of its own lane: then the channel answered this artifact with an acceptance, everything
  the authority returned with it is staged on the medium, and an envelope has its covering receipt among them.\<close>

theorem retired_only_when_accepted:
  assumes "queue_inv (dw_queue W)" "lanes_keyed (dw_lanes W)"
    and "\<And>queued r. deliver queued = Inr r \<Longrightarrow> sink_ready now (length (dr_AuthorityArtifacts r)) (dw_sink W)"
    and W': "W' = worker_pass deliver (Some (durable_sink decodeStrict wire now)) clk key e W"
  shows "lane_of (dw_queue W') = lane_of (dw_queue W)
    \<or> (\<exists>queued r. lane_of (dw_queue W) key = queued # lane_of (dw_queue W') key
         \<and> (\<forall>k. k \<noteq> key \<longrightarrow> lane_of (dw_queue W') k = lane_of (dw_queue W) k)
         \<and> deliver queued = Inr r \<and> dr_Accepted r
         \<and> (\<forall>a\<in>set (dr_AuthorityArtifacts r). staged (dw_sink W') a)
         \<and> (qa_Type queued = ArtifactDeliveryEnvelope \<longrightarrow> (\<exists>a\<in>set (dr_AuthorityArtifacts r). covers queued a)))"
proof (cases "fmlookup (dw_lanes W) key")
  case None
  then show ?thesis using W' by (simp add: worker_pass_def)
next
  case (Some l)
  let ?sink = "Some (durable_sink decodeStrict wire now)"
  obtain t a l' q' s' where p: "run_pass (dw_timing W) deliver ?sink clk e l (dw_queue W) (dw_sink W) = (t, a, l', q', s')"
    by (metis prod_cases5)
  have e: "dw_queue W' = q'" "dw_sink W' = s'" using W' Some p by (simp_all add: worker_pass_def Let_def)
  have key: "lane_key_of l = key" using assms(2) Some unfolding lanes_keyed_def by blast
  from p show ?thesis
  proof (cases rule: run_pass_cases)
    case silent
    then show ?thesis using e calm_lane assms(1) by simp
  next
    case (tried l1 q1 a1 l2 q2)
    have i1: "queue_inv q1" "lane_of q1 = lane_of (dw_queue W)" using tried(2) assms(1) calm_inv calm_lane by blast+
    from tried(3) i1(1) show ?thesis
    proof (cases rule: deliverHead_cases)
      case kept
      then show ?thesis using e i1 calm_lane [OF tried(5)] by simp
    next
      case (gone queued r routed covered)
      have peek: "PeekLane key q1 = Some queued" using gone(2) tried(1) key by simp
      note out = head_removed [OF i1(1) peek gone(9)]
      have "queue_inv q2" using Remove_inv [OF i1(1) gone(9)] .
      then have l2: "lane_of q' = lane_of q2" using calm_lane [OF tried(5)] by simp
      have "sink_ready now (length routed) (dw_sink W)" using assms(3) [OF gone(3)] route_length [OF gone(6)] by simp
      moreover have "store_all (durable_sink decodeStrict wire now) routed (dw_sink W) = (True, s')"
        using gone(8) by (simp add: store_routed_def)
      ultimately have st: "\<forall>a\<in>set routed. staged s' a" using rs.all_staged by blast
      have "\<forall>a\<in>set (dr_AuthorityArtifacts r). staged (dw_sink W') a" using route_staged [OF gone(6) st] e(2) by simp
      moreover have "qa_Type queued = ArtifactDeliveryEnvelope \<longrightarrow> (\<exists>a\<in>set (dr_AuthorityArtifacts r). covers queued a)"
        using route_covers gone(6,7) by (cases covered) auto
      ultimately show ?thesis using out e i1(2) l2 gone(3,4) by (intro disjI2 exI [of _ queued] exI [of _ r]) simp
    qed
  qed
qed

section \<open>Invariants of the worker\<close>

lemma keyedD: "lanes_keyed ls \<Longrightarrow> fmlookup ls key = Some l \<Longrightarrow> lane_key_of l = key"
  unfolding lanes_keyed_def by blast

lemma keyed_get: "lanes_keyed ls \<Longrightarrow> lane_key_of (fmget (new_lane key) ls key) = key"
  by (cases "fmlookup ls key") (simp_all add: fmget_def keyedD, simp add: new_lane_def lane_key_of_def)

lemma keyed_upd: "lanes_keyed ls \<Longrightarrow> lane_key_of l = key \<Longrightarrow> lanes_keyed (fmupd key l ls)"
  unfolding lanes_keyed_def by simp

lemma keyed_lane: "lanes_keyed ls \<Longrightarrow> lanes_keyed (lane key ls)"
  by (simp add: lane_def keyed_upd new_lane_def lane_key_of_def)

lemma keyed_notify: "lanes_keyed ls \<Longrightarrow> lanes_keyed (notify key ls)"
  unfolding notify_def
  using keyed_upd [OF _ keyed_get [of ls key]] keyed_upd [of ls "(fmget (new_lane key) ls key)\<lparr>dl_wake := True\<rparr>" key] keyed_get [of ls key]
  by (simp add: lane_key_of_def)

lemma keyed_NotifyDevice: "lanes_keyed ls \<Longrightarrow> lanes_keyed (NotifyDevice device ls)"
  by (simp add: NotifyDevice_def keyed_notify keyed_lane)

lemma keyed_retired: "lanes_keyed ls \<Longrightarrow> lanes_keyed (retired queued device ls)"
  by (simp add: retired_def keyed_notify keyed_lane)

lemma keyed_restore: "restore w c l q = (l', q') \<Longrightarrow> lane_key_of l' = lane_key_of l \<and> calm q q'"
  by (auto simp: restore_def Let_def lane_key_of_def calm_persistClamp dest!: key_adoptedHead
      split: prod.splits option.splits if_splits)

lemma restore_lane_step:
  assumes "lanes_keyed ls" "restore_lane w clk key (ls, q) = (ls', q')"
  shows "lanes_keyed ls' \<and> calm q q' \<and> key |\<in>| fmdom ls' \<and> fmdom ls |\<subseteq>| fmdom ls'"
proof -
  obtain l q1 where r: "restore w (clk key) (fmget (new_lane key) (lane key ls) key) q = (l, q1)" by fastforce
  have e: "ls' = fmupd key l (lane key ls)" "q' = q1" using assms(2) r by (simp_all add: restore_lane_def Let_def)
  have "lane_key_of (fmget (new_lane key) (lane key ls) key) = key"
    using keyed_get [OF keyed_lane [OF assms(1), of key]] .
  then have "lane_key_of l = key" "calm q q1" using keyed_restore [OF r] by auto
  then show ?thesis using e keyed_upd keyed_lane assms(1) by (auto simp: lane_def)
qed

lemma restore_lanes:
  "lanes_keyed ls \<Longrightarrow> fold (restore_lane w clk) keys (ls, q) = (ls', q') \<Longrightarrow>
     lanes_keyed ls' \<and> calm q q' \<and> fset_of_list keys |\<union>| fmdom ls |\<subseteq>| fmdom ls'"
proof (induction keys arbitrary: ls q)
  case (Cons key keys)
  obtain ls1 q1 where r: "restore_lane w clk key (ls, q) = (ls1, q1)" by fastforce
  note st = restore_lane_step [OF Cons.prems(1) r]
  have f: "fold (restore_lane w clk) keys (ls1, q1) = (ls', q')" using Cons.prems(2) r by simp
  have ih: "lanes_keyed ls' \<and> calm q1 q' \<and> fset_of_list keys |\<union>| fmdom ls1 |\<subseteq>| fmdom ls'"
    by (rule Cons.IH [OF _ f]) (use st in simp)
  have "calm q q'" using calm_trans [of q q1 q'] st ih by blast
  then show ?case using ih st by auto
qed simp

lemma worker_pass_inv:
  assumes "queue_inv (dw_queue W)" "lanes_keyed (dw_lanes W)"
  shows "queue_inv (dw_queue (worker_pass deliver sink clk key e W)) \<and> lanes_keyed (dw_lanes (worker_pass deliver sink clk key e W))"
proof (cases "fmlookup (dw_lanes W) key")
  case None
  then show ?thesis using assms by (simp add: worker_pass_def)
next
  case (Some l)
  obtain t a l' q' s' where p: "run_pass (dw_timing W) deliver sink clk e l (dw_queue W) (dw_sink W) = (t, a, l', q', s')"
    by (metis prod_cases5)
  have key: "lane_key_of l = key" using assms(2) Some unfolding lanes_keyed_def by blast
  from p have "queue_inv q' \<and> lane_key_of l' = key"
  proof (cases rule: run_pass_cases)
    case (tried l1 q1 a1 l2 q2)
    have i1: "queue_inv q1" using tried(2) assms(1) calm_inv by blast
    from tried(3) i1(1) have "queue_inv q2 \<and> lane_key_of l2 = lane_key_of l1"
      by (cases rule: deliverHead_cases) (use Remove_inv [OF i1] in auto)
    then show ?thesis using tried key calm_inv by auto
  qed (use assms(1) key calm_inv in auto)
  then have k: "lanes_keyed (fmupd key l' (dw_lanes W))" "queue_inv q'" using keyed_upd [OF assms(2)] by auto
  show ?thesis using p Some k by (simp add: worker_pass_def Let_def keyed_retired split: option.splits attempt.splits)
qed

section \<open>What a lane may not send\<close>

text \<open>What can happen to a lane: a pass of its loop, a handoff, and an admission to the queue, in any order and with any
  clock readings. \<open>mute\<close> replaces the channel by one that never answers: where the outcome is the same, the channel was
  not called.\<close>

datatype input = Pass channel "nat \<Rightarrow> clocks" laneEvent | Handoff | Admitted string string int

fun lane_input :: "timing \<Rightarrow> 's sink option \<Rightarrow> input \<Rightarrow> deliveryLane \<times> DurableQueue \<times> 's \<Rightarrow> deliveryLane \<times> DurableQueue \<times> 's" where
  "lane_input w sink (Pass deliver clk e) (l, q, s) = (case run_pass w deliver sink clk e l q s of (t, a, l, q, s) \<Rightarrow> (l, q, s))"
| "lane_input w sink Handoff (l, q, s) = (l\<lparr>dl_wake := True\<rparr>, q, s)"
| "lane_input w sink (Admitted kind payload now) (l, q, s) = (l, snd (enqueueOrFind kind payload now q), s)"

fun lane_inputs :: "timing \<Rightarrow> 's sink option \<Rightarrow> input list \<Rightarrow> deliveryLane \<times> DurableQueue \<times> 's \<Rightarrow> deliveryLane \<times> DurableQueue \<times> 's" where
  "lane_inputs w sink [] st = st"
| "lane_inputs w sink (i # is) st = lane_inputs w sink is (lane_input w sink i st)"

fun mute :: "input \<Rightarrow> input" where
  "mute (Pass deliver clk e) = Pass (\<lambda>_. Inl RequestFailed) clk e"
| "mute i = i"

definition blocked :: "QueuedArtifact \<Rightarrow> deliveryLane \<Rightarrow> DurableQueue \<Rightarrow> bool" where
  "blocked queued l q \<longleftrightarrow> PeekLane (lane_key_of l) q = Some queued
     \<and> (\<exists>h. dl_held l = Some h \<and> hr_QueueRecord (hh_record h) = qa_ID queued)"

lemma PeekLane_lanes: "lane_of q' = lane_of q \<Longrightarrow> PeekLane k q' = PeekLane k q"
  by (simp add: PeekLane_head)

lemma deliverHead_blocked: "blocked queued l q \<Longrightarrow> deliverHead deliver sink c l q s = (Failed HeadHeld, l\<lparr>dl_wake := False\<rparr>, q, s)"
  by (auto simp: deliverHead_def blocked_def adoptedHead_def adoptDurableHold_def releaseHeldUnless_def lane_key_of_def)

lemma blocked_moved:
  assumes "blocked queued l q" "queue_inv q" "calm q q'" "lane_key_of l' = lane_key_of l" "dl_held l' = dl_held l"
  shows "blocked queued l' q'"
  using assms PeekLane_lanes [OF calm_lane [OF assms(3,2)]] by (simp add: blocked_def)

lemma pass_blocked:
  assumes "blocked queued l q" "queue_inv q" "run_pass w deliver sink clk e l q s = (t, a, l', q', s')"
  shows "run_pass w deliver' sink clk e l q s = (t, a, l', q', s')" "calm q q'" "blocked queued l' q'"
proof -
  have "run_pass w deliver' sink clk e l q s = (t, a, l', q', s') \<and> calm q q' \<and> blocked queued l' q'"
  proof (cases e)
    case Wake
    obtain wait l1 q1 where u: "untilDue w (clk 0) (l\<lparr>dl_wake := False\<rparr>) q = (wait, l1, q1)" by (metis prod_cases3)
    have k: "calm q q1" "lane_key_of l1 = lane_key_of l" "dl_held l1 = dl_held l"
      using key_untilDue [OF u] calm_untilDue [OF u] by (simp_all add: lane_key_of_def)
    have b: "blocked queued l1 q1" by (rule blocked_moved [OF assms(1,2) k])
    then have b': "blocked queued (l1\<lparr>dl_wake := False\<rparr>) q1" by (simp add: blocked_def lane_key_of_def)
    show ?thesis using assms(3) Wake u k(1) b b'
      by (auto simp: run_pass_def backingOff_def run_attempt_def after_attempt_def deliverHead_blocked [OF b] split: if_splits)
  next
    case Timer
    obtain l0 where "remind (clk 0) l = (True, l0)" "lane_key_of l0 = lane_key_of l" "dl_held l0 = dl_held l"
      using remind_held [of l "clk 0"] assms(1) by (auto simp: blocked_def)
    then show ?thesis using assms Timer blocked_moved [OF assms(1,2) calm_refl, of l0] by (auto simp: run_pass_def)
  qed
  then show "run_pass w deliver' sink clk e l q s = (t, a, l', q', s')" "calm q q'" "blocked queued l' q'" by auto
qed

lemma enqueue_head:
  assumes "queue_inv q" "PeekLane k q = Some a"
  shows "PeekLane k (snd (enqueueOrFind kind payload now q)) = Some a"
proof -
  obtain res q' where e: "enqueueOrFind kind payload now q = (res, q')" by fastforce
  have "\<exists>as. lane_of q k = a # as" using assms(2) by (auto simp: PeekLane_head split: list.splits)
  moreover have "lane_step (EnqueueEv kind payload now) (lane_of q) (lane_of q')" by (rule enqueue_lane [OF assms(1) e])
  ultimately show ?thesis using e by (auto simp: PeekLane_head elim!: lane_step.cases split: list.splits if_splits)
qed

lemma input_blocked:
  assumes "blocked queued l q" "queue_inv q" "q_nextSeq q < maxInt64" "lane_input w sink i (l, q, s) = (l', q', s')"
  shows "lane_input w sink (mute i) (l, q, s) = (l', q', s') \<and> queue_inv q' \<and> blocked queued l' q' \<and> q_nextSeq q' \<le> q_nextSeq q + 1
    \<and> lane_key_of l' = lane_key_of l"
proof (cases i)
  case (Pass deliver clk e)
  obtain t a l1 q1 s1 where p: "run_pass w deliver sink clk e l q s = (t, a, l1, q1, s1)" by (metis prod_cases5)
  note b = pass_blocked [OF assms(1,2) p]
  have "q_nextSeq q1 = q_nextSeq q" "queue_inv q1" using b(2) assms(2) core_eq(5) [of q1 q] by (auto simp: calm_def)
  moreover have "lane_key_of l1 = lane_key_of l"
    using p by (cases rule: run_pass_cases) (auto dest: key_deliverHead)
  ultimately show ?thesis using assms(4) Pass p b by simp
next
  case Handoff
  then show ?thesis using assms by (auto simp: blocked_def lane_key_of_def)
next
  case (Admitted kind payload now)
  obtain res q1 where e: "enqueueOrFind kind payload now q = (res, q1)" by fastforce
  have "PeekLane (lane_key_of l) q1 = Some queued" using enqueue_head [OF assms(2), of "lane_key_of l" queued kind payload now] assms(1) e
    by (simp add: blocked_def)
  moreover have "q_nextSeq q1 \<le> q_nextSeq q + 1" using enqueue_keeps_entries [OF e assms(2,3)] by blast
  ultimately show ?thesis using assms Admitted e enqueueOrFind_inv [OF assms(2,3) e] by (auto simp: blocked_def)
qed

lemma inputs_blocked:
  "blocked queued l q \<Longrightarrow> queue_inv q \<Longrightarrow> q_nextSeq q + int (length is) \<le> maxInt64 \<Longrightarrow> lane_inputs w sink is (l, q, s) = (l', q', s') \<Longrightarrow>
     lane_inputs w sink (map mute is) (l, q, s) = (l', q', s') \<and> blocked queued l' q' \<and> lane_key_of l' = lane_key_of l"
proof (induction "is" arbitrary: l q s)
  case (Cons i "is")
  obtain l1 q1 s1 where i: "lane_input w sink i (l, q, s) = (l1, q1, s1)" by (metis prod_cases3)
  have st: "lane_input w sink (mute i) (l, q, s) = (l1, q1, s1) \<and> queue_inv q1 \<and> blocked queued l1 q1 \<and> q_nextSeq q1 \<le> q_nextSeq q + 1 \<and> lane_key_of l1 = lane_key_of l"
    by (rule input_blocked [OF Cons.prems(1,2) _ i]) (use Cons.prems(3) in simp)
  have "lane_inputs w sink (map mute is) (l1, q1, s1) = (l', q', s') \<and> blocked queued l' q' \<and> lane_key_of l' = lane_key_of l1"
    by (rule Cons.IH) (use st Cons.prems i in auto)
  then show ?case using st by simp
qed simp

lemma refused_blocked:
  assumes "queue_inv q" "deliverHead deliver sink c l q s = (Failed PermanentRefusal, l1, q1, s1)"
  shows "\<exists>queued. PeekLane (lane_key_of l) q = Some queued \<and> blocked queued l1 q1 \<and> calm q q1"
proof -
  obtain head l2 where h: "adoptedHead q (l\<lparr>dl_wake := False\<rparr>) = (head, l2)" by fastforce
  obtain held l3 where r: "releaseHeldUnless head l2 = (held, l3)" by fastforce
  have k: "head = PeekLane (lane_key_of l) q" "lane_key_of l3 = lane_key_of l"
    using key_adoptedHead [OF h] key_releaseHeldUnless [OF r] by (simp_all add: lane_key_of_def)
  obtain queued where q: "head = Some queued" "attempt_head deliver sink c queued (begin_attempt queued l3) q s = (Failed PermanentRefusal, l1, q1, s1)"
    using assms(2) h r by (auto simp: deliverHead_attempt split: if_splits option.splits)
  from q(2) assms(1) obtain x where x: "calm q q1" "dl_held l1 = Some x" "hr_QueueRecord (hh_record x) = qa_ID queued" "lane_key_of l1 = lane_key_of l"
    by (cases rule: attempt_cases) (use k in auto)
  have "PeekLane (lane_key_of l) q1 = Some queued" using PeekLane_lanes [OF calm_lane [OF x(1) assms(1)]] k q(1) by simp
  then show ?thesis using x k q(1) by (intro exI [of _ queued]) (auto simp: blocked_def)
qed


section \<open>Back-off\<close>

definition timing_ok :: "timing \<Rightarrow> bool" where
  "timing_ok w \<longleftrightarrow> 0 < tm_retry w \<and> tm_retry w \<le> tm_backoffBase w \<and> tm_backoffBase w \<le> tm_maxBackoff w \<and> 0 < tm_reminder w"

lemma worker_timing_ok: "timing_ok (worker_timing opts)"
  by (simp add: timing_ok_def worker_timing_def Let_def defaultDeliveryRetry_def defaultBlockedReminder_def defaultMaxBackoff_def)

lemma doubling_min:
  assumes "0 < d" "bound \<le> 2 ^ 62"
  shows "min (doubling n bound d) bound = min (d * 2 ^ n) bound"
  using assms(1)
proof (induction n arbitrary: d)
  case (Suc n)
  show ?case
  proof (cases "d < bound")
    case True
    then have w: "wrap64 (d * 2) = d * 2" using Suc.prems assms(2) by (simp add: minInt64_def maxInt64_def)
    have "min (doubling n bound (d * 2)) bound = min (d * 2 * 2 ^ n) bound" by (rule Suc.IH) (use Suc.prems in simp)
    then show ?thesis using True w by (simp add: ac_simps)
  next
    case False
    have "d * 1 \<le> d * 2 ^ Suc n" by (rule mult_left_mono [OF one_le_power]) (use Suc.prems in simp_all)
    then show ?thesis using False by simp
  qed
qed simp

text \<open>The back-off has a closed form: the base doubled once for each earlier attempt, cut at the bound, and never below the
  delivery interval or the Retry-After; so it never exceeds the wait the lane may be clamped to. The overflow of the
  doubling cannot be reached while the bound is at most \<open>2 ^ 62\<close> nanoseconds.\<close>

theorem backoff_closed_form:
  assumes "w = worker_timing opts" "tm_maxBackoff w \<le> 2 ^ 62"
  shows "backoffDelay w attempts least
      = max (max (min (tm_backoffBase w * 2 ^ nat (attempts - 1)) (tm_maxBackoff w)) (tm_retry w)) least
    \<and> backoffDelay w attempts least \<le> waitBound w least \<and> backoffDelay w attempts least \<ge> tm_backoffBase w"
proof -
  let ?m = "min (tm_backoffBase w * 2 ^ nat (attempts - 1)) (tm_maxBackoff w)"
  have t: "timing_ok w" using worker_timing_ok assms(1) by simp
  have "min (doubling (nat (attempts - 1)) (tm_maxBackoff w) (tm_backoffBase w)) (tm_maxBackoff w) = ?m"
    by (rule doubling_min) (use t assms(2) in \<open>simp_all add: timing_ok_def\<close>)
  then have d: "backoffDelay w attempts least = max (max ?m (tm_retry w)) least"
    by (simp add: backoffDelay_def Let_def min_def split: if_splits)
  have "tm_backoffBase w * 1 \<le> tm_backoffBase w * 2 ^ nat (attempts - 1)"
    by (rule mult_left_mono) (use t in \<open>simp_all add: timing_ok_def\<close>)
  then have "tm_backoffBase w \<le> ?m" "?m \<le> tm_maxBackoff w" using t by (simp_all add: timing_ok_def)
  then show ?thesis unfolding d waitBound_def by (auto simp: max_def)
qed

theorem backoff_closed_form_witness:
  "backoffDelay (worker_timing \<lparr>wo_RetryInterval = 0, wo_BackoffBase = 0, wo_MaxBackoff = 0, wo_BlockedReminderInterval = 0\<rparr>) 4 0
     = 40000000000"
  using backoff_closed_form [OF refl, of "\<lparr>wo_RetryInterval = 0, wo_BackoffBase = 0, wo_MaxBackoff = 0, wo_BlockedReminderInterval = 0\<rparr>" 4 0]
  by (simp add: worker_timing_def Let_def defaultDeliveryRetry_def defaultMaxBackoff_def)

text \<open>Neither clock brings a back-off forward, and no clock stretches it past the bound.\<close>

lemma untilDue_wait:
  assumes "untilDue w c l q = (wait, l', q')" "0 \<le> ck_mono c" "dl_monoDue l \<le> maxInt64" "minInt64 \<le> dl_monoDue l - ck_mono c"
  shows "dl_monoDue l - ck_mono c \<le> wait"
    and "0 \<le> waitBound w (dl_retryAfter l) \<Longrightarrow> wait \<le> max (waitBound w (dl_retryAfter l) + 999999) (dl_monoDue l - ck_mono c)"
proof -
  let ?b = "waitBound w (dl_retryAfter l)"
  have m: "wrap64 (dl_monoDue l - ck_mono c) = dl_monoDue l - ck_mono c" using assms(2-4) by simp
  have c: "ceilMilli (ck_wall c + ?b) - ck_wall c \<le> ?b + 999999"
    by (simp add: ceilMilli_def of_millis_def UnixMilli_def Let_def) (use minus_mod_eq_div_mult [of "ck_wall c + ?b" 1000000] pos_mod_bound [of 1000000 "ck_wall c + ?b"] in arith)
  obtain wall where w: "wait = max wall (dl_monoDue l - ck_mono c)"
    "wall \<le> ?b \<or> wall = time_Sub (ceilMilli (ck_wall c + ?b)) (ck_wall c)"
    using assms(1) m by (fastforce simp: untilDue_def Let_def split: if_splits)
  then show "dl_monoDue l - ck_mono c \<le> wait" by simp
  show "wait \<le> max (?b + 999999) (dl_monoDue l - ck_mono c)" if "0 \<le> ?b"
    using w c that by (auto simp: time_Sub_def minInt64_def)
qed

fun before :: "int \<Rightarrow> input \<Rightarrow> bool" where
  "before due (Pass deliver clk e) \<longleftrightarrow> 0 \<le> ck_mono (clk 0) \<and> ck_mono (clk 0) < due"
| "before due i \<longleftrightarrow> True"

lemma remind_mono: "remind c l = (b, l') \<Longrightarrow> dl_monoDue l' = dl_monoDue l"
  by (cases "dl_stall l") (auto simp: remind_def Let_def split: if_splits)

lemma input_backing:
  assumes "dl_monoDue l = due" "due \<le> maxInt64" "before due i" "lane_input w sink i (l, q, s) = (l', q', s')"
  shows "lane_input w sink (mute i) (l, q, s) = (l', q', s') \<and> dl_monoDue l' = due"
proof (cases i)
  case (Pass deliver clk e)
  have t: "0 \<le> ck_mono (clk 0)" "ck_mono (clk 0) < due" using assms(3) Pass by simp_all
  have pos: "0 < wait \<and> dl_monoDue l2 = due" if "untilDue w (clk 0) l1 q = (wait, l2, q2)" "dl_monoDue l1 = due" for l1 wait l2 q2
    using untilDue_wait(1) [OF that(1)] key_untilDue [OF that(1)] t that(2) assms(2) by (simp add: minInt64_def)
  show ?thesis
  proof (cases e)
    case Wake
    obtain wait l1 q1 where u: "untilDue w (clk 0) (l\<lparr>dl_wake := False\<rparr>) q = (wait, l1, q1)" by (metis prod_cases3)
    then show ?thesis using assms(1,4) Pass Wake pos [OF u] by (simp add: run_pass_def backingOff_def)
  next
    case Timer
    obtain b l0 where r: "remind (clk 0) l = (b, l0)" by fastforce
    obtain wait l1 q1 where u: "untilDue w (clk 0) l0 q = (wait, l1, q1)" by (metis prod_cases3)
    show ?thesis using assms(1,4) Pass Timer r u pos [OF u] remind_mono [OF r] by (auto simp: run_pass_def split: if_splits)
  qed
qed (use assms in auto)

lemma inputs_backing:
  "dl_monoDue l = due \<Longrightarrow> due \<le> maxInt64 \<Longrightarrow> list_all (before due) is \<Longrightarrow> lane_inputs w sink (map mute is) (l, q, s) = lane_inputs w sink is (l, q, s)"
proof (induction "is" arbitrary: l q s)
  case (Cons i "is")
  obtain l1 q1 s1 where i: "lane_input w sink i (l, q, s) = (l1, q1, s1)" by (metis prod_cases3)
  have "lane_input w sink (mute i) (l, q, s) = (l1, q1, s1) \<and> dl_monoDue l1 = due"
    by (rule input_backing [OF Cons.prems(1,2) _ i]) (use Cons.prems(3) in simp)
  then show ?case using Cons.IH [of l1 q1 s1] Cons.prems i by simp
qed simp

lemma schedule_lane:
  assumes "scheduleBackoff w c c' err l q = (wait, l', q')"
  shows "dl_monoDue l' = wrap64 (ck_mono c + backoffDelay w (dl_attempts l') (dl_retryAfter l'))"
    "dl_retryAfter l' = (case err of ChannelRefused after \<Rightarrow> after | _ \<Rightarrow> 0)"
    "dl_attempts l' = (if dl_attempts l < maxBackoffAttempts then dl_attempts l + 1 else dl_attempts l)"
proof -
  let ?least = "case err of ChannelRefused after \<Rightarrow> after | _ \<Rightarrow> 0"
  let ?n = "if dl_attempts l < maxBackoffAttempts then dl_attempts l + 1 else dl_attempts l"
  have k: "dl_monoDue l2 = dl_monoDue l1 \<and> dl_retryAfter l2 = dl_retryAfter l1 \<and> dl_attempts l2 = dl_attempts l1"
    if "untilDue w c' l1 q1 = (wait, l2, q2)" for l1 q1 l2 q2
    using that by (auto simp: untilDue_def Let_def split: if_splits)
  show "dl_retryAfter l' = ?least" "dl_attempts l' = ?n"
    "dl_monoDue l' = wrap64 (ck_mono c + backoffDelay w (dl_attempts l') (dl_retryAfter l'))"
    using assms unfolding scheduleBackoff_def Let_def by (auto dest!: k)
qed

text \<open>A back-off is never brought forward. From the moment it is scheduled until the monotonic clock has advanced by the
  whole delay, which is at least the delivery interval and any Retry-After, no pass, handoff or admission calls the
  channel, however the wall clock is set.\<close>

theorem backoff_not_brought_forward:
  assumes "scheduleBackoff w c c' err l q = (wait, l1, q1)" "0 \<le> ck_mono c"
    and "due = ck_mono c + backoffDelay w (dl_attempts l1) (dl_retryAfter l1)" "due \<le> maxInt64" "list_all (before due) is"
    and "timing_ok w" "0 \<le> dl_retryAfter l1"
  shows "lane_inputs w sink (map mute is) (l1, q1, s) = lane_inputs w sink is (l1, q1, s)
    \<and> due - ck_mono c \<ge> tm_retry w \<and> (\<forall>after. err = ChannelRefused after \<longrightarrow> due - ck_mono c \<ge> after)"
proof -
  note sl = schedule_lane [OF assms(1)]
  have d: "due - ck_mono c \<ge> tm_retry w" "due - ck_mono c \<ge> dl_retryAfter l1" using assms(3) by (auto simp: backoffDelay_def Let_def)
  then have "wrap64 due = due" using assms(2,4,6) by (simp add: minInt64_def timing_ok_def)
  then have "dl_monoDue l1 = due" using sl(1) assms(3) by simp
  from inputs_backing [OF this assms(4,5)] show ?thesis using d sl(2) by auto
qed

text \<open>A back-off is never stretched: whatever the wall clock reads, the wait a lane computes is at most the bound on any
  back-off rounded up to a millisecond, or what remains on the monotonic clock, and the deadline the lane keeps afterwards
  is no further away than the bound.\<close>

theorem backoff_wait_bounded:
  assumes "w = worker_timing opts" "untilDue w c l q = (wait, l', q')" "0 \<le> ck_mono c" "0 \<le> dl_monoDue l" "dl_monoDue l \<le> maxInt64"
    "ck_mono c \<le> maxInt64" "waitBound w (dl_retryAfter l) < maxInt64"
  shows "dl_monoDue l - ck_mono c \<le> wait \<and> wait \<le> max (waitBound w (dl_retryAfter l) + 999999) (dl_monoDue l - ck_mono c)
    \<and> dl_notBefore l' \<le> ck_wall c + waitBound w (dl_retryAfter l) + 999999"
proof -
  let ?b = "waitBound w (dl_retryAfter l)"
  have b: "0 \<le> ?b" using worker_timing_ok [of opts] assms(1) by (simp add: waitBound_def timing_ok_def le_max_iff_disj)
  have c: "ceilMilli (ck_wall c + ?b) \<le> ck_wall c + ?b + 999999"
    by (simp add: ceilMilli_def of_millis_def UnixMilli_def Let_def) (use minus_mod_eq_div_mult [of "ck_wall c + ?b" 1000000] pos_mod_bound [of 1000000 "ck_wall c + ?b"] in arith)
  have "time_Sub (dl_notBefore l) (ck_wall c) \<le> ?b \<Longrightarrow> dl_notBefore l \<le> ck_wall c + ?b"
    using assms(7) by (simp add: time_Sub_def min_le_iff_disj)
  moreover have "dl_notBefore l' = (if time_Sub (dl_notBefore l) (ck_wall c) > ?b then ceilMilli (ck_wall c + ?b) else dl_notBefore l)"
    using assms(2) by (auto simp: untilDue_def Let_def)
  ultimately have n: "dl_notBefore l' \<le> ck_wall c + ?b + 999999" using c by (auto split: if_splits)
  have m: "minInt64 \<le> dl_monoDue l - ck_mono c" using assms(4,6) by (simp add: minInt64_def maxInt64_def)
  show ?thesis using untilDue_wait [OF assms(2,3,5) m] n b by blast
qed

section \<open>A concrete lane\<close>

definition carried_queue :: DurableQueue where
  "carried_queue = snd (enqueueOrFind ArtifactDeliveryEnvelope sample_envelope 1000 sample_queue)"

definition pump_lane :: LaneKey where "pump_lane = (''pump-1'', LaneEvidence)"

lemma carried:
  "\<exists>d sz. carried_queue = commit_record sample_record sz (sample_queue\<lparr>q_disk := d\<rparr>) \<and> dk_script d = []
     \<and> enqueueOrFind ArtifactDeliveryEnvelope sample_envelope 1000 sample_queue = (Inr (recordArtifact sample_record, False), carried_queue)"
proof -
  have k: "validQueueArtifactType ArtifactDeliveryEnvelope" by (simp add: validQueueArtifactType_def validOutboundArtifactType_def)
  have l: "sample_envelope \<noteq> []" "length sample_envelope \<le> 1000" by code_simp+
  from sample_enqueues [OF k l sample_queue_facts(11) sample_record_def refl] show ?thesis unfolding carried_queue_def by (metis snd_conv)
qed

lemma carried_inv: "queue_inv carried_queue" "durable carried_queue"
proof -
  obtain res where e: "enqueueOrFind ArtifactDeliveryEnvelope sample_envelope 1000 sample_queue = (res, carried_queue)" using carried by blast
  show "queue_inv carried_queue" using enqueueOrFind_inv [OF sample_queue_ready(1,3) e] .
  show "durable carried_queue" using enqueue_durable [OF sample_queue_ready(1,2) e sample_queue_ready(3)] by (simp add: maxInt64_def)
qed

lemma sample_record_fields:
  "qr_ID sample_record = artifactID ArtifactDeliveryEnvelope sample_envelope" "recordLane sample_record = pump_lane"
proof -
  have "recordDevice sample_envelope = ''pump-1''" using envelope_device [of sample_envelope] sample_envelope_routing by (simp add: envelopeMembers_def)
  then show "recordLane sample_record = pump_lane" "qr_ID sample_record = artifactID ArtifactDeliveryEnvelope sample_envelope"
    by (simp_all add: sample_record_def new_record_def recordLane_def LaneOf_def pump_lane_def artifact_defs)
qed

lemma carried_fields:
  "q_holds carried_queue = q_holds sample_queue" "q_nextSeq carried_queue = 2" "lane_of carried_queue pump_lane = [recordArtifact sample_record]"
  "q_laneItems carried_queue = fmupd pump_lane 1 fmempty" "Len carried_queue = 1"
proof -
  obtain d sz where c: "carried_queue = commit_record sample_record sz (sample_queue\<lparr>q_disk := d\<rparr>)" using carried by blast
  note f = commit_fields [OF refl, of sample_record sz "sample_queue\<lparr>q_disk := d\<rparr>"]
  show "q_holds carried_queue = q_holds sample_queue" using f c by simp
  show "q_nextSeq carried_queue = 2" using f c sample_queue_empty by (simp add: minInt64_def maxInt64_def)
  have o: "q_order carried_queue = [qr_ID sample_record]" "q_entries carried_queue = fmupd (qr_ID sample_record) sample_record fmempty"
    "lane_key carried_queue (qr_ID sample_record) = pump_lane"
    using f c sample_queue_empty sample_queue_facts by (simp_all add: lane_key_def sample_record_fields)
  then show "lane_of carried_queue pump_lane = [recordArtifact sample_record]" "Len carried_queue = 1"
    by (simp_all add: lane_of_def lane_ids_def entry_of_def Len_def fmsize_upd)
  show "q_laneItems carried_queue = fmupd pump_lane 1 fmempty"
    unfolding c using sample_queue_facts by (simp add: commit_record_def indexLocked_def sortOrder_def Let_def sample_record_fields)
qed

lemma carried_head: "PeekLane pump_lane carried_queue = Some (recordArtifact sample_record)"
  by (simp add: PeekLane_head carried_fields(3))

definition ticking :: "nat \<Rightarrow> clocks" where "ticking n = \<lparr>ck_wall = 1000000000, ck_mono = 7, ck_now = 1000000000\<rparr>"

definition pump :: deliveryLane where "pump = new_lane pump_lane"

definition sample_worker :: "DurableQueue DeliveryWorker" where
  "sample_worker = \<lparr>dw_timing = worker_timing \<lparr>wo_RetryInterval = 0, wo_BackoffBase = 0, wo_MaxBackoff = 0, wo_BlockedReminderInterval = 0\<rparr>,
     dw_lanes = fmupd pump_lane pump fmempty, dw_running = True, dw_queue = carried_queue, dw_sink = sample_queue\<rparr>"

definition answer :: "bool \<Rightarrow> AuthorityArtifact list \<Rightarrow> DeliveryResult" where
  "answer ok as = \<lparr>dr_Accepted = ok, dr_Retriable = False, dr_RetryAfter = 0, dr_ReceiverState = False, dr_RefusalStatus = 422,
     dr_RefusalReason = Unrecognised, dr_AuthorityArtifacts = as\<rparr>"

lemma pump_key [simp]: "lane_key_of pump = pump_lane" "lanes_keyed (fmupd pump_lane pump fmempty)"
  by (simp_all add: pump_def new_lane_def lane_key_of_def lanes_keyed_def pump_lane_def)

lemma answer_artifacts [simp]: "dr_AuthorityArtifacts (answer ok as) = as"
  by (simp add: answer_def)

theorem retired_only_when_accepted_witness:
  "\<exists>W'. W' = worker_pass (\<lambda>_. Inr (answer True [sample_receipt])) (Some (durable_sink (\<lambda>_ _. None) Some 1000)) ticking pump_lane Timer sample_worker
     \<and> lane_of (dw_queue sample_worker) pump_lane = [recordArtifact sample_record]
     \<and> (lane_of (dw_queue W') = lane_of carried_queue
        \<or> lane_of (dw_queue W') pump_lane = [] \<and> staged (dw_sink W') sample_receipt \<and> covers (recordArtifact sample_record) sample_receipt)"
proof -
  define W' where "W' = worker_pass (\<lambda>_. Inr (answer True [sample_receipt])) (Some (durable_sink (\<lambda>_ _. None) Some 1000)) ticking pump_lane Timer sample_worker"
  have w: "queue_inv (dw_queue sample_worker)" "lanes_keyed (dw_lanes sample_worker)" "dw_queue sample_worker = carried_queue"
    by (simp_all add: sample_worker_def carried_inv)
  have r: "sink_ready 1000 (length (dr_AuthorityArtifacts r)) (dw_sink sample_worker)"
    if "(\<lambda>_. Inr (answer True [sample_receipt])) (queued :: QueuedArtifact) = (Inr r :: deliverError + DeliveryResult)" for queued r
    using that sample_queue_ready sample_queue_empty by (auto simp: sink_ready_def sample_worker_def answer_def maxInt64_def)
  have t: "qa_Type (recordArtifact sample_record) = ArtifactDeliveryEnvelope" by (simp add: recordArtifact_def sample_record_def new_record_def)
  have "lane_of (dw_queue W') = lane_of carried_queue
      \<or> lane_of (dw_queue W') pump_lane = [] \<and> staged (dw_sink W') sample_receipt \<and> covers (recordArtifact sample_record) sample_receipt"
    using retired_only_when_accepted [OF w(1,2) r W'_def] carried_fields(3) t by (auto simp: w(3))
  then show ?thesis using W'_def w(3) carried_fields(3) by auto
qed

lemma pump_refused:
  "\<exists>l q s. deliverHead (\<lambda>_. Inr (answer False [])) None (ticking 0) pump carried_queue () = (Failed PermanentRefusal, l, q, s)"
proof -
  have h: "HoldFor i carried_queue = None" for i
  proof -
    have "q_holds sample_queue = fmempty" by code_simp
    then show ?thesis by (simp add: HoldFor_def carried_fields(1))
  qed
  have "adoptedHead carried_queue (pump\<lparr>dl_wake := False\<rparr>) = (Some (recordArtifact sample_record), pump\<lparr>dl_wake := False\<rparr>)"
    using carried_head pump_key(1) by (simp add: adoptedHead_def adoptDurableHold_def h lane_key_of_def split: option.splits)
  then show ?thesis
    by (simp add: deliverHead_attempt releaseHeldUnless_def pump_def new_lane_def attempt_head_def answer_def Let_def split: prod.splits)
qed


theorem backoff_not_brought_forward_witness:
  "\<exists>wait l1 q1. scheduleBackoff (dw_timing sample_worker) (ticking 0) (ticking 1) (ChannelRefused 60000000000) pump carried_queue = (wait, l1, q1)
     \<and> lane_inputs (dw_timing sample_worker) (None :: unit sink option) [Pass (\<lambda>_. Inl RequestFailed) ticking Timer] (l1, q1, ())
       = lane_inputs (dw_timing sample_worker) None [Pass (\<lambda>_. Inr (answer True [])) ticking Timer] (l1, q1, ())"
proof -
  let ?w = "dw_timing sample_worker"
  obtain wait l1 q1 where s: "scheduleBackoff ?w (ticking 0) (ticking 1) (ChannelRefused 60000000000) pump carried_queue = (wait, l1, q1)"
    by (metis prod_cases3)
  have a: "dl_attempts l1 = 1" "dl_retryAfter l1 = 60000000000"
    using schedule_lane(2,3) [OF s] by (simp_all add: pump_def new_lane_def maxBackoffAttempts_def)
  have w: "timing_ok ?w" by (simp add: sample_worker_def worker_timing_ok)
  have due: "ck_mono (ticking 0) + backoffDelay ?w (dl_attempts l1) (dl_retryAfter l1) = 60000000007"
    by (simp add: a sample_worker_def worker_timing_def Let_def backoffDelay_def ticking_def defaultDeliveryRetry_def defaultMaxBackoff_def)
  show ?thesis
    using backoff_not_brought_forward [OF s _ due [symmetric] _ _ w, of "[Pass (\<lambda>_. Inr (answer True [])) ticking Timer]" "None :: unit sink option" "()"] s a
    by (auto simp: ticking_def maxInt64_def)
qed

theorem backoff_wait_bounded_witness:
  "\<exists>wait l' q'. untilDue (dw_timing sample_worker) (ticking 0) (pump\<lparr>dl_notBefore := 9000000000000000000\<rparr>) carried_queue = (wait, l', q')
     \<and> wait \<le> 300000999999 \<and> dl_notBefore l' \<le> 301000999999"
proof -
  let ?l = "pump\<lparr>dl_notBefore := 9000000000000000000\<rparr>"
  obtain wait l' q' where u: "untilDue (dw_timing sample_worker) (ticking 0) ?l carried_queue = (wait, l', q')"
    by (metis prod_cases3)
  have b: "waitBound (dw_timing sample_worker) (dl_retryAfter ?l) = 300000000000"
    by (simp add: sample_worker_def worker_timing_def waitBound_def pump_def new_lane_def Let_def defaultDeliveryRetry_def defaultMaxBackoff_def)
  have w: "dw_timing sample_worker = worker_timing \<lparr>wo_RetryInterval = 0, wo_BackoffBase = 0, wo_MaxBackoff = 0, wo_BlockedReminderInterval = 0\<rparr>"
    by (simp add: sample_worker_def)
  show ?thesis using backoff_wait_bounded [OF w u] b u by (simp add: ticking_def pump_def new_lane_def maxInt64_def)
qed

end
