(* ===== verification/Delivery_Status.thy ===== *)
theory Delivery_Status
  imports Delivery
begin

text \<open>
  The delivery status of \<open>worker.go\<close> against the state it summarises: the lanes it lists, its counts, and when it says
  blocked or degraded.
\<close>

section \<open>The entries\<close>

definition unclean :: "DurableQueue \<Rightarrow> deliveryLane \<Rightarrow> bool" where
  "unclean q l \<longleftrightarrow> LenLane (lane_key_of l) q \<noteq> 0 \<and> (dl_held l \<noteq> None \<or> dl_lastError l \<noteq> []
     \<or> (case dl_stall l of None \<Rightarrow> False | Some st \<Rightarrow> st_waitsForHandoff st))"

definition entry_for :: "DurableQueue \<Rightarrow> deliveryLane \<Rightarrow> DeviceDeliveryStatus" where
  "entry_for q l = lane_entry (LenLane (lane_key_of l) q) l"

lemmas state_defs = DeviceHeld_def DeviceWaitingHandoff_def DeviceBackingOff_def

lemma entry_facts:
  "ds_State (entry_for q l) \<noteq> [] \<longleftrightarrow> unclean q l"
  "(ds_DeviceID (entry_for q l), ds_Lane (entry_for q l)) = lane_key_of l"
  "ds_Pending (entry_for q l) = LenLane (lane_key_of l) q"
  "ds_State (entry_for q l) = DeviceHeld \<longleftrightarrow> LenLane (lane_key_of l) q \<noteq> 0 \<and> dl_held l \<noteq> None"
  by (auto simp: entry_for_def lane_entry_def unclean_def state_defs lane_key_of_def Let_def split: option.splits)

lemma status_fold:
  assumes "fold (status_lane (q_laneItems q)) ls (st, listed, heldAll) = (st', listed', heldAll')"
  defines "es \<equiv> map (entry_for q) (filter (unclean q) ls)"
  shows "dst_Devices st' = dst_Devices st @ es" "dst_Pending st' = dst_Pending st" "listed' = listed + sum_list (map ds_Pending es)"
    "heldAll' \<longleftrightarrow> heldAll \<and> list_all (\<lambda>l. dl_held l \<noteq> None) (filter (unclean q) ls)"
proof -
  have "dst_Devices st' = dst_Devices st @ map (entry_for q) (filter (unclean q) ls) \<and> dst_Pending st' = dst_Pending st
    \<and> listed' = listed + sum_list (map ds_Pending (map (entry_for q) (filter (unclean q) ls)))
    \<and> (heldAll' \<longleftrightarrow> heldAll \<and> list_all (\<lambda>l. dl_held l \<noteq> None) (filter (unclean q) ls))"
    using assms(1)
  proof (induction ls arbitrary: st listed heldAll)
    case (Cons l ls)
    obtain st1 listed1 h1 where s1: "status_lane (q_laneItems q) l (st, listed, heldAll) = (st1, listed1, h1)" by (metis prod_cases3)
    have ih: "dst_Devices st' = dst_Devices st1 @ map (entry_for q) (filter (unclean q) ls) \<and> dst_Pending st' = dst_Pending st1
      \<and> listed' = listed1 + sum_list (map ds_Pending (map (entry_for q) (filter (unclean q) ls)))
      \<and> (heldAll' \<longleftrightarrow> h1 \<and> list_all (\<lambda>l. dl_held l \<noteq> None) (filter (unclean q) ls))"
      by (rule Cons.IH) (use Cons.prems s1 in simp)
    have e: "lane_entry (fmget 0 (q_laneItems q) (lane_key_of l)) l = entry_for q l" by (simp add: entry_for_def LenLane_def)
    have "dst_Pending st1 = dst_Pending st \<and> (if unclean q l
        then dst_Devices st1 = dst_Devices st @ [entry_for q l] \<and> listed1 = listed + ds_Pending (entry_for q l) \<and> (h1 \<longleftrightarrow> heldAll \<and> dl_held l \<noteq> None)
        else dst_Devices st1 = dst_Devices st \<and> listed1 = listed \<and> h1 = heldAll)"
      using s1 entry_facts(1,4) [of q l] unfolding status_lane_def Let_def e by (auto simp: unclean_def split: if_splits)
    then show ?case using ih by (auto split: if_splits)
  qed simp
  then show "dst_Devices st' = dst_Devices st @ es" "dst_Pending st' = dst_Pending st" "listed' = listed + sum_list (map ds_Pending es)"
    "heldAll' \<longleftrightarrow> heldAll \<and> list_all (\<lambda>l. dl_held l \<noteq> None) (filter (unclean q) ls)" by (simp_all add: es_def)
qed

lemma sum_counts: "finite K \<Longrightarrow> (\<Sum>k\<in>K. int (length (filter (\<lambda>i. f i = k) xs))) = int (length (filter (\<lambda>i. f i \<in> K) xs))"
proof (induction xs)
  case (Cons x xs)
  have "(\<Sum>k\<in>K. int (length (filter (\<lambda>i. f i = k) (x # xs))))
      = (\<Sum>k\<in>K. (if f x = k then 1 else 0) + int (length (filter (\<lambda>i. f i = k) xs)))"
    by (rule sum.cong) auto
  also have "\<dots> = (if f x \<in> K then 1 else 0) + int (length (filter (\<lambda>i. f i \<in> K) xs))"
    using Cons by (simp add: sum.distrib)
  finally show ?case by simp
qed simp

lemma filter_all: "length (filter P xs) = length xs \<longleftrightarrow> (\<forall>x\<in>set xs. P x)"
proof (induction xs)
  case (Cons x xs)
  have "length (filter P xs) \<le> length xs" by (rule length_filter_le)
  then have "length (filter P xs) \<noteq> Suc (length xs)" by linarith
  then show ?case using Cons by auto
qed simp

lemma lane_counts:
  assumes "queue_inv q"
  shows "LenLane k q = int (length (filter (\<lambda>i. lane_key q i = k) (q_order q)))" "set (Lanes q) = lane_key q ` set (q_order q)"
    "Len q = length (q_order q)"
proof -
  have c: "counted (lane_key q) (size_of q) (q_order q) (q_laneItems q) (q_laneBytes q)" using assms by (simp add: queue_inv_def sums_inv_def)
  show "LenLane k q = int (length (filter (\<lambda>i. lane_key q i = k) (q_order q)))" using counted_get(1) [OF c] by (simp add: LenLane_def)
  show "set (Lanes q) = lane_key q ` set (q_order q)" using counted_get(3) [OF c] by (auto simp: Lanes_def)
  show "Len q = length (q_order q)" unfolding Len_def
    by (rule fmsize_set) (use assms in \<open>simp_all add: queue_inv_def index_inv_def\<close>)
qed

lemma sorted_lanes_keys:
  assumes "lanes_keyed ls"
  shows "map lane_key_of (sorted_lanes ls) = sorted_list_of_fset (fmdom ls)"
  unfolding sorted_lanes_def by (simp add: keyed_get [OF assms] comp_def)

lemma status_listed:
  assumes "queue_inv q" "lanes_keyed ls"
  defines "K \<equiv> lane_key_of ` set (filter (unclean q) (sorted_lanes ls))"
  shows "sum_list (map ds_Pending (map (entry_for q) (filter (unclean q) (sorted_lanes ls))))
    = int (length (filter (\<lambda>i. lane_key q i \<in> K) (q_order q)))"
proof -
  let ?us = "filter (unclean q) (sorted_lanes ls)"
  have d: "distinct (map lane_key_of ?us)"
    by (rule distinct_map_filter) (simp add: sorted_lanes_keys [OF assms(2)])
  have "sum_list (map ds_Pending (map (entry_for q) ?us)) = sum_list (map (\<lambda>k. LenLane k q) (map lane_key_of ?us))"
    by (simp add: comp_def entry_facts(3))
  also have "\<dots> = (\<Sum>k\<in>K. LenLane k q)" unfolding sum_list_distinct_conv_sum_set [OF d] by (simp add: K_def)
  also have "\<dots> = int (length (filter (\<lambda>i. lane_key q i \<in> K) (q_order q)))"
    unfolding lane_counts(1) [OF assms(1)] by (rule sum_counts) (simp add: K_def)
  finally show ?thesis .
qed

lemma in_sorted_lanes:
  assumes "lanes_keyed ls"
  shows "l \<in> set (sorted_lanes ls) \<longleftrightarrow> fmlookup ls (lane_key_of l) = Some l"
proof
  assume "l \<in> set (sorted_lanes ls)"
  then obtain k where k: "k |\<in>| fmdom ls" "l = fmget (new_lane k) ls k" by (auto simp: sorted_lanes_def)
  then have "fmlookup ls k = Some l" by (cases "fmlookup ls k") (auto simp: fmget_def fmlookup_dom_iff)
  then show "fmlookup ls (lane_key_of l) = Some l" using keyedD [OF assms] by simp
next
  assume l: "fmlookup ls (lane_key_of l) = Some l"
  then have "lane_key_of l |\<in>| fmdom ls" "fmget (new_lane (lane_key_of l)) ls (lane_key_of l) = l" by (simp_all add: fmget_def fmdomI)
  then show "l \<in> set (sorted_lanes ls)" unfolding sorted_lanes_def by (auto simp: image_iff intro!: bexI [of _ "lane_key_of l"])
qed

lemma status_blocked:
  assumes "queue_inv q" "lanes_keyed ls"
  defines "us \<equiv> filter (unclean q) (sorted_lanes ls)"
  shows "set (Lanes q) \<subseteq> lane_key_of ` set us \<and> list_all (\<lambda>l. dl_held l \<noteq> None) us
    \<longleftrightarrow> (\<forall>key\<in>set (Lanes q). \<exists>l. fmlookup ls key = Some l \<and> dl_held l \<noteq> None)"
proof -
  have us: "l \<in> set us \<longleftrightarrow> fmlookup ls (lane_key_of l) = Some l \<and> unclean q l" for l
    using in_sorted_lanes [OF assms(2)] by (auto simp: us_def)
  have pos: "key \<in> set (Lanes q) \<longleftrightarrow> LenLane key q \<noteq> 0" for key
    unfolding lane_counts(1,2) [OF assms(1)] by (auto simp: filter_empty_conv)
  show ?thesis (is "?L \<longleftrightarrow> ?R")
  proof
    assume L: ?L
    show ?R
    proof
      fix key
      assume "key \<in> set (Lanes q)"
      then obtain l where "l \<in> set us" "key = lane_key_of l" using L by blast
      then show "\<exists>l. fmlookup ls key = Some l \<and> dl_held l \<noteq> None" using us L by (auto simp: list_all_iff)
    qed
  next
    assume R: ?R
    have "key \<in> lane_key_of ` set us" if k: "key \<in> set (Lanes q)" for key
    proof -
      obtain l where l: "fmlookup ls key = Some l" "dl_held l \<noteq> None" using R k by blast
      have "lane_key_of l = key" using keyedD [OF assms(2) l(1)] .
      then show ?thesis using us l k pos by (auto simp: unclean_def image_iff intro!: bexI [of _ l])
    qed
    moreover have "dl_held l \<noteq> None" if l: "l \<in> set us" for l
    proof -
      have "lane_key_of l \<in> set (Lanes q)" "fmlookup ls (lane_key_of l) = Some l" using l us pos by (auto simp: unclean_def)
      then show ?thesis using R by fastforce
    qed
    ultimately show ?L by (auto simp: list_all_iff)
  qed
qed

lemma status_keys:
  assumes "lanes_keyed ls"
  shows "map (\<lambda>d. (ds_DeviceID d, ds_Lane d)) (map (entry_for q) (filter (unclean q) (sorted_lanes ls)))
    = filter (\<lambda>key. unclean q (fmget (new_lane key) ls key)) (sorted_list_of_fset (fmdom ls))"
proof -
  have "map (\<lambda>d. (ds_DeviceID d, ds_Lane d)) (map (entry_for q) (filter (unclean q) (sorted_lanes ls)))
      = map lane_key_of (filter (unclean q) (sorted_lanes ls))" by (simp add: entry_facts(2))
  also have "\<dots> = map (\<lambda>key. lane_key_of (fmget (new_lane key) ls key))
      (filter (\<lambda>key. unclean q (fmget (new_lane key) ls key)) (sorted_list_of_fset (fmdom ls)))"
    unfolding sorted_lanes_def by (simp add: filter_map comp_def)
  finally show ?thesis by (simp add: keyed_get [OF assms])
qed

text \<open>The status is exact. It says blocked exactly when something is queued and every lane with a queued artifact is held; it
  lists exactly the lanes with queued artifacts whose delivery is not clean, each once, in device and lane order, with
  its own count; it says degraded exactly when a fault is active or a lane is listed.\<close>

theorem status_exact:
  assumes "queue_inv q" "lanes_keyed ls"
  shows "(dst_Blocked (Status faults ls q) \<longleftrightarrow> 0 < Len q \<and> (\<forall>key\<in>set (Lanes q). \<exists>l. fmlookup ls key = Some l \<and> dl_held l \<noteq> None))
    \<and> map (\<lambda>d. (ds_DeviceID d, ds_Lane d)) (dst_Devices (Status faults ls q))
        = filter (\<lambda>key. unclean q (fmget (new_lane key) ls key)) (sorted_list_of_fset (fmdom ls))
    \<and> (\<forall>d\<in>set (dst_Devices (Status faults ls q)). ds_Pending d = LenLane (ds_DeviceID d, ds_Lane d) q \<and> 0 < ds_Pending d)
    \<and> (dst_Degraded (Status faults ls q) \<longleftrightarrow> Active faults \<noteq> [] \<or> dst_Devices (Status faults ls q) \<noteq> [])"
proof -
  let ?us = "filter (unclean q) (sorted_lanes ls)"
  define zero where "zero = \<lparr>dst_Pending = fmsize (q_entries q), dst_Degraded = False, dst_Blocked = False, dst_LastFailureAt = zero_time,
    dst_LastError = [], dst_Held = None, dst_Devices = [], dst_Faults = []\<rparr>"
  obtain st listed held where f: "fold (status_lane (q_laneItems q)) (sorted_lanes ls) (zero, 0, True) = (st, listed, held)" by (metis prod_cases3)
  note sf = status_fold [OF f]
  have S: "Status faults ls q = st\<lparr>dst_Blocked := (Len q > 0 \<and> listed = int (Len q) \<and> held), dst_Faults := Active faults,
      dst_Degraded := (Active faults \<noteq> [] \<or> dst_Devices st \<noteq> [])\<rparr>"
    unfolding Status_def laneCounts_def Let_def prod.case zero_def [symmetric] f Len_def ..
  have dev: "dst_Devices st = map (entry_for q) ?us" using sf(1) by (simp add: zero_def)
  have "listed = int (length (filter (\<lambda>i. lane_key q i \<in> lane_key_of ` set ?us) (q_order q)))" using sf(3) status_listed [OF assms] by simp
  then have "listed = int (Len q) \<longleftrightarrow> (\<forall>i\<in>set (q_order q). lane_key q i \<in> lane_key_of ` set ?us)"
    unfolding lane_counts(3) [OF assms(1)] filter_all [symmetric] by simp
  then have "listed = int (Len q) \<longleftrightarrow> set (Lanes q) \<subseteq> lane_key_of ` set ?us" unfolding lane_counts(2) [OF assms(1)] by blast
  then have "listed = int (Len q) \<and> held \<longleftrightarrow> (\<forall>key\<in>set (Lanes q). \<exists>l. fmlookup ls key = Some l \<and> dl_held l \<noteq> None)"
    using sf(4) status_blocked [OF assms] by blast
  moreover have "\<forall>d\<in>set (dst_Devices st). ds_Pending d = LenLane (ds_DeviceID d, ds_Lane d) q \<and> 0 < ds_Pending d"
  proof
    fix d
    assume d: "d \<in> set (dst_Devices st)"
    obtain l where l: "d = entry_for q l" "unclean q l" using d unfolding dev by auto
    have "0 \<le> LenLane (lane_key_of l) q" using lane_counts(1) [OF assms(1)] by simp
    then show "ds_Pending d = LenLane (ds_DeviceID d, ds_Lane d) q \<and> 0 < ds_Pending d"
      using l entry_facts(2,3) [of q l] by (simp add: unclean_def)
  qed
  ultimately show ?thesis unfolding S dev [symmetric] status_keys [OF assms(2), of q, symmetric] by auto
qed

theorem status_exact_witness:
  "dst_Blocked (Status NewRecorder (fmupd pump_lane
     (held_lane \<lparr>hh_record = \<lparr>hr_V = 1, hr_QueueRecord = [], hr_ArtifactDigest = [], hr_ArtifactType = [], hr_RefusalStatus = 422,
        hr_Reason = Unrecognised, hr_FirstHeldAtMS = 1, hr_Acknowledged = False\<rparr>, hh_deviceID = [], hh_persisted = True\<rparr> pump) fmempty) carried_queue)"
    (is "dst_Blocked (Status NewRecorder (fmupd pump_lane ?l fmempty) carried_queue)")
proof -
  have "lane_key_of ?l = pump_lane" using pump_key(1) by (simp add: held_lane_def lane_key_of_def)
  then have k: "lanes_keyed (fmupd pump_lane ?l fmempty)" by (simp add: keyed_upd lanes_keyed_def)
  have "set (Lanes carried_queue) = {pump_lane}" by (simp add: Lanes_def carried_fields(4))
  moreover have "dl_held ?l \<noteq> None" by (simp add: held_lane_def)
  ultimately show ?thesis using status_exact [OF carried_inv(1) k, of NewRecorder] carried_fields(5) by simp
qed

end
