(* ===== verification/Returns.thy ===== *)
theory Returns
  imports Verifier Delivery_Status Evidence_Clock
begin

text \<open>
  The return publisher, \<open>internal/evidence/courier/return_publisher.go\<close>: it carries the head of the return queue to the
  runtime in a signed message, and applies the runtime's acknowledgements to it.

  \<open>wire\<close> is \<open>MarshalWire\<close> of the canonical JSON module; whether the broker took a message is an argument.
\<close>

section \<open>Messages\<close>

definition EvidenceInboundMessageType :: string where "EvidenceInboundMessageType = ''evidence_inbound''"
definition EvidenceInboundAckMessageType :: string where "EvidenceInboundAckMessageType = ''evidence_inbound_ack''"

text \<open>\<open>json.Marshal\<close> writes a raw message compactly, with the characters HTML treats specially escaped.\<close>

fun html_raw :: "string \<Rightarrow> string" where
  "html_raw [] = []"
| "html_raw (a # s) =
     (if a \<in> set ''<>&'' then u_escape (byte a) @ html_raw s
      else case s of
        b # c # t \<Rightarrow>
          if byte a = 226 \<and> byte b = 128 \<and> (byte c = 168 \<or> byte c = 169) then u_escape (8232 + (byte c - 168)) @ html_raw t
          else a # html_raw s
      | _ \<Rightarrow> a # html_raw s)"

fun html_json :: "json \<Rightarrow> json" where
  "html_json (JStr r) = JStr (html_raw r)"
| "html_json (JArr vs) = JArr (map html_json vs)"
| "html_json (JObj ms) = JObj (map (\<lambda>(k, v). (html_raw k, html_json v)) ms)"
| "html_json v = v"

definition inbound_members :: "string \<Rightarrow> string \<Rightarrow> json \<Rightarrow> (string \<times> json) list" where
  "inbound_members deviceID kind artifact =
     [(''device_id'', JString deviceID), (''artifact_type'', JString kind), (''artifact'', html_json artifact)]"

datatype inboundError = QueuedNotCanonical | InboundOverMaximum | InboundRefusedByMemberRule

definition encodeInbound ::
  "canonical_map \<Rightarrow> (string \<Rightarrow> string option) \<Rightarrow> strict_decoder \<Rightarrow> string \<Rightarrow> string \<Rightarrow> string \<Rightarrow> int \<Rightarrow> string \<Rightarrow> inboundError + string" where
  "encodeInbound canonical wire decodeStrict deviceID kind artifact signedAt secret =
     (case json_parse artifact of None \<Rightarrow> Inl QueuedNotCanonical
      | Some v \<Rightarrow>
          let ms = inbound_members deviceID kind v
          in case Sign canonical (JObj ms) EvidenceInboundMessageType deviceID [] signedAt secret of
               Inl _ \<Rightarrow> Inl QueuedNotCanonical
             | Inr auth \<Rightarrow>
                 (case wire (print_json (JObj (ms @ [(''auth'', auth_json auth)]))) of
                    None \<Rightarrow> Inl QueuedNotCanonical
                  | Some payload \<Rightarrow>
                      if int (length payload) > the (map_of PayloadMaxima FamilyEvidenceInbound) then Inl InboundOverMaximum
                      else case AdmitPayload decodeStrict FamilyEvidenceInbound payload of
                        Some _ \<Rightarrow> Inl InboundRefusedByMemberRule
                      | None \<Rightarrow> Inr payload))"

definition authorityQueueRouting :: "QueuedArtifact \<Rightarrow> (string \<times> string) option" where
  "authorityQueueRouting queued =
     (case decodeRouting [''device_id''] (qa_Payload queued) of
        None \<Rightarrow> None
      | Some r \<Rightarrow>
          if rt_DeviceID r = [] then None
          else if qa_Type queued = artifactDeliveryReceipt then Some (rt_DeviceID r, AuthorityDeliveryReceipt)
          else if qa_Type queued = artifactEpochConfirmation then Some (rt_DeviceID r, AuthorityEpochConfirmation)
          else if qa_Type queued = artifactCustodyAcknowledgement then Some (rt_DeviceID r, InboundCustodyAcknowledgement)
          else None)"

section \<open>The publisher\<close>

record ReturnPublisher =
  rp_retry :: int
  rp_wake :: bool
  rp_heldID :: string
  rp_heldDevice :: string
  rp_stuckID :: string
  rp_lastID :: string
  rp_lastAt :: int

text \<open>The publisher with the queue of its sink, its signing clock and the directory of the clock.\<close>

record returns =
  rn_publisher :: ReturnPublisher
  rn_queue :: DurableQueue
  rn_clock :: evClock
  rn_disk :: disk

definition NewReturnPublisher :: "int \<Rightarrow> ReturnPublisher" where
  "NewReturnPublisher retry =
     \<lparr>rp_retry = (if retry \<le> 0 then 5000000000 else retry), rp_wake = False, rp_heldID = [], rp_heldDevice = [], rp_stuckID = [],
      rp_lastID = [], rp_lastAt = zero_time\<rparr>"

definition Notify :: "ReturnPublisher \<Rightarrow> ReturnPublisher" where
  "Notify p = p\<lparr>rp_wake := True\<rparr>"

definition ReceiverStateChanged :: "string \<Rightarrow> ReturnPublisher \<Rightarrow> ReturnPublisher" where
  "ReceiverStateChanged deviceID p =
     Notify (if rp_heldDevice p = deviceID then p\<lparr>rp_heldID := [], rp_heldDevice := []\<rparr> else p)"

definition reportStuck :: "QueuedArtifact \<Rightarrow> ReturnPublisher \<Rightarrow> ReturnPublisher" where
  "reportStuck queued p = p\<lparr>rp_stuckID := qa_ID queued\<rparr>"

text \<open>One carriage of the head: the message handed to the broker, if any. \<open>taken\<close> is whether the broker took it.\<close>

definition publishHead ::
  "canonical_map \<Rightarrow> (string \<Rightarrow> string option) \<Rightarrow> strict_decoder \<Rightarrow> string \<Rightarrow> int \<Rightarrow> int \<Rightarrow> bool \<Rightarrow> returns
     \<Rightarrow> (string \<times> string) option \<times> returns" where
  "publishHead canonical wire decodeStrict secret now now' taken r =
     (let p = rn_publisher r
      in case Peek (rn_queue r) of
           None \<Rightarrow> (None, r)
         | Some queued \<Rightarrow>
             if qa_ID queued = rp_heldID p \<or> qa_ID queued = rp_lastID p \<and> time_Sub now (rp_lastAt p) < rp_retry p then (None, r)
             else case authorityQueueRouting queued of
               None \<Rightarrow> (None, r)
             | Some (deviceID, kind) \<Rightarrow>
                 (case ec_Next (rn_clock r) (UnixMilli now) (rn_disk r) of
                    (Inl _, clk, d) \<Rightarrow> (None, r\<lparr>rn_clock := clk, rn_disk := d\<rparr>)
                  | (Inr signedAt, clk, d) \<Rightarrow>
                      let r1 = r\<lparr>rn_clock := clk, rn_disk := d\<rparr>
                      in case encodeInbound canonical wire decodeStrict deviceID kind (qa_Payload queued) signedAt secret of
                           Inl _ \<Rightarrow> (None, r1\<lparr>rn_publisher := reportStuck queued p\<rparr>)
                         | Inr payload \<Rightarrow>
                             (case EvidenceInboundTopic deviceID of
                                Inl _ \<Rightarrow> (None, r1)
                              | Inr topic \<Rightarrow>
                                  (Some (topic, payload),
                                   if taken then r1\<lparr>rn_publisher := p\<lparr>rp_lastID := qa_ID queued, rp_lastAt := now'\<rparr>\<rparr> else r1))))"

section \<open>Acknowledgements\<close>

record inboundAck =
  ia_DeviceID :: string
  ia_ArtifactType :: string
  ia_ArtifactDigest :: string
  ia_Outcome :: string
  ia_Reason :: string
  ia_AcknowledgedAtMS :: int
  ia_Auth :: "HeartbeatAuth option"

definition inboundAckStrings :: "string list" where
  "inboundAckStrings = [''device_id'', ''artifact_type'', ''artifact_digest'', ''outcome'', ''reason'']"

definition inboundAckMembers :: "string list" where
  "inboundAckMembers = inboundAckStrings @ [''acknowledged_at_ms'', ''auth'']"

definition requireInboundAckTypes :: "(string \<times> json) list \<Rightarrow> bool" where
  "requireInboundAckTypes ms \<longleftrightarrow>
     list_all (\<lambda>name. case map_of (rev (map (\<lambda>(k, v). (unquote k, v)) ms)) name of Some (JStr _) \<Rightarrow> True | _ \<Rightarrow> False) inboundAckStrings"

definition store_auth :: "string \<Rightarrow> json \<Rightarrow> HeartbeatAuth \<Rightarrow> HeartbeatAuth option" where
  "store_auth f v a =
     (if f = ''scheme'' then map_option (\<lambda>s. a\<lparr>Scheme := s\<rparr>) (decode_string v (Scheme a))
      else if f = ''signed_at_ms'' then map_option (\<lambda>i. a\<lparr>SignedAtMS := i\<rparr>) (decode_int64 v (SignedAtMS a))
      else map_option (\<lambda>s. a\<lparr>Signature := s\<rparr>) (decode_string v (Signature a)))"

definition no_auth :: HeartbeatAuth where
  "no_auth = \<lparr>Scheme = [], SignedAtMS = 0, Signature = []\<rparr>"

definition store_ack :: "string \<Rightarrow> json \<Rightarrow> inboundAck \<Rightarrow> inboundAck option" where
  "store_ack f v a =
     (if f = ''device_id'' then map_option (\<lambda>s. a\<lparr>ia_DeviceID := s\<rparr>) (decode_string v (ia_DeviceID a))
      else if f = ''artifact_type'' then map_option (\<lambda>s. a\<lparr>ia_ArtifactType := s\<rparr>) (decode_string v (ia_ArtifactType a))
      else if f = ''artifact_digest'' then map_option (\<lambda>s. a\<lparr>ia_ArtifactDigest := s\<rparr>) (decode_string v (ia_ArtifactDigest a))
      else if f = ''outcome'' then map_option (\<lambda>s. a\<lparr>ia_Outcome := s\<rparr>) (decode_string v (ia_Outcome a))
      else if f = ''reason'' then map_option (\<lambda>s. a\<lparr>ia_Reason := s\<rparr>) (decode_string v (ia_Reason a))
      else if f = ''acknowledged_at_ms'' then map_option (\<lambda>i. a\<lparr>ia_AcknowledgedAtMS := i\<rparr>) (decode_int64 v (ia_AcknowledgedAtMS a))
      else case v of
        JNull \<Rightarrow> Some (a\<lparr>ia_Auth := None\<rparr>)
      | _ \<Rightarrow> map_option (\<lambda>x. a\<lparr>ia_Auth := Some x\<rparr>)
          (decode_struct authMembers True store_auth v (case ia_Auth a of None \<Rightarrow> no_auth | Some x \<Rightarrow> x)))"

definition no_ack :: inboundAck where
  "no_ack = \<lparr>ia_DeviceID = [], ia_ArtifactType = [], ia_ArtifactDigest = [], ia_Outcome = [], ia_Reason = [],
     ia_AcknowledgedAtMS = 0, ia_Auth = None\<rparr>"

definition decode_ack :: "string \<Rightarrow> inboundAck option" where
  "decode_ack payload =
     (case json_parse payload of
        Some (JObj ms) \<Rightarrow>
          if refuseAmbiguousMembers inboundAckMembers [] ms \<or> \<not> requireInboundAckTypes ms then None
          else decode_members inboundAckMembers True store_ack ms no_ack
      | _ \<Rightarrow> None)"

definition inboundRefusalRetires :: "(string \<times> bool) list" where
  "inboundRefusalRetires =
     [(''malformed'', True), (''bad_authenticator'', True), (''binding_mismatch'', True), (''non_contiguous_range'', True),
      (''unrecognised_version'', False), (''wrong_purpose'', False), (''unknown_key'', False), (''retired_key'', False),
      (''unknown_sequence'', False), (''superseded'', True), (''restatement_conflict'', True)]"

text \<open>Whether the decision retires the artifact and whether its reason is recognised, or \<open>None\<close> when it is no decision.\<close>

definition inboundDecision :: "string \<Rightarrow> string \<Rightarrow> (bool \<times> bool) option" where
  "inboundDecision outcome reason =
     (if outcome = ''applied'' then (if reason \<noteq> [] then None else Some (True, True))
      else if outcome = ''refused''
      then (case map_of inboundRefusalRetires reason of None \<Rightarrow> Some (False, False) | Some retires \<Rightarrow> Some (retires, True))
      else None)"

datatype ackError =
    MalformedAck | AckBindingMismatch | EmptyReturnQueue | InvalidQueuedArtifact | QueuedArtifactNotCanonical | NotTheQueuedArtifact
  | InvalidOutcome | RetireFailed queueError | UnrecognisedReason string

definition decideAck ::
  "(string \<Rightarrow> string option) \<Rightarrow> string \<Rightarrow> string \<Rightarrow> returns \<Rightarrow> (bool \<times> ackError option) \<times> returns" where
  "decideAck wire deviceID payload r =
     (case decode_ack payload of None \<Rightarrow> ((False, Some MalformedAck), r)
      | Some ack \<Rightarrow>
          if ia_DeviceID ack \<noteq> deviceID \<or> ia_AcknowledgedAtMS ack \<le> 0 then ((False, Some AckBindingMismatch), r)
          else case Peek (rn_queue r) of None \<Rightarrow> ((False, Some EmptyReturnQueue), r)
          | Some queued \<Rightarrow>
              (case authorityQueueRouting queued of None \<Rightarrow> ((False, Some InvalidQueuedArtifact), r)
               | Some (queuedDevice, queuedType) \<Rightarrow>
                   (case wire (qa_Payload queued) of None \<Rightarrow> ((False, Some QueuedArtifactNotCanonical), r)
                    | Some canon \<Rightarrow>
                        if queuedDevice \<noteq> deviceID \<or> queuedType \<noteq> ia_ArtifactType ack \<or> ia_ArtifactDigest ack \<noteq> payloadDigest canon
                        then ((False, Some NotTheQueuedArtifact), r)
                        else case inboundDecision (ia_Outcome ack) (ia_Reason ack) of None \<Rightarrow> ((False, Some InvalidOutcome), r)
                        | Some (retires, recognised) \<Rightarrow>
                            let p = rn_publisher r
                            in if \<not> retires
                               then ((True, if recognised then None else Some (UnrecognisedReason (ia_Reason ack))),
                                     r\<lparr>rn_publisher := p\<lparr>rp_heldID := qa_ID queued, rp_heldDevice := queuedDevice\<rparr>\<rparr>)
                               else case Remove (qa_ID queued) (rn_queue r) of
                                 (Some e, q) \<Rightarrow> ((False, Some (RetireFailed e)), r\<lparr>rn_queue := q\<rparr>)
                               | (None, q) \<Rightarrow>
                                   ((True, None),
                                    r\<lparr>rn_queue := q, rn_publisher := Notify
                                        (if rp_heldID p = qa_ID queued then p\<lparr>rp_heldID := [], rp_heldDevice := []\<rparr> else p)\<rparr>))))"

datatype handleAckResult = AckTopic contractError | AckVerdict "verdict + ackError option"

definition HandleAck ::
  "(string \<Rightarrow> bool) \<Rightarrow> strict_decoder \<Rightarrow> canonical_map \<Rightarrow> (string \<Rightarrow> string option) \<Rightarrow> int \<Rightarrow> string \<Rightarrow> string \<Rightarrow> Verifier \<Rightarrow> returns
     \<Rightarrow> handleAckResult \<times> Verifier \<times> returns" where
  "HandleAck validUnicode decodeStrict canonical wire t topic payload v r =
     (case DeviceIDFromEvidenceInboundAckTopic topic of Inl e \<Rightarrow> (AckTopic e, v, r)
      | Inr deviceID \<Rightarrow>
          (case VerifyJSONThenDecide validUnicode decodeStrict canonical t payload EvidenceInboundAckMessageType deviceID []
                  (\<lambda>_. decideAck wire deviceID payload) v r of
             (res, v', r') \<Rightarrow> (AckVerdict res, v', r')))"

section \<open>The order of the return queue\<close>

definition contents :: "DurableQueue \<Rightarrow> QueuedArtifact list" where
  "contents q = map (entry_of q) (q_order q)"

lemma Peek_contents: "Peek q = (case contents q of [] \<Rightarrow> None | a # _ \<Rightarrow> Some a)"
  by (simp add: Peek_def contents_def entry_of_def split: list.splits)

lemma core_contents: "core q' = core q \<Longrightarrow> contents q' = contents q"
  using core_eq [of q' q] by (simp add: contents_def entry_of_def)

lemma head_forgotten:
  assumes "queue_inv q" "Remove (qa_ID a) q = (err, q')" "Peek q = Some a"
  shows "contents q' = (if err = None then tl (contents q) else contents q)" "queue_inv q'"
proof -
  obtain e q1 where l: "removeLocked (qa_ID a) q = (e, q1)" by fastforce
  then have q': "err = e" "frame q' = frame q1" using assms(2) by (auto simp: Remove_def split: if_splits)
  have same: "contents q' = contents q1" using core_contents [of q' q1] frame_core [OF q'(2)] by simp
  show "queue_inv q'" using Remove_inv [OF assms(1,2)] .
  obtain rid rest where o: "q_order q = rid # rest" "a = entry_of q rid" using assms(3) by (auto simp: Peek_def entry_of_def split: list.splits)
  have d: "rid \<notin> set rest" "qa_ID a = rid" using assms(1) o entry_id [OF assms(1)] by (auto simp: queue_inv_def index_inv_def)
  from l assms(1) have "contents q1 = (if e = None then tl (contents q) else contents q)"
  proof (cases rule: removeLocked_cases)
    case (forgotten r q2 d1 d2)
    have "q_order q2 = rid # rest" "entry_of q2 = entry_of q" using core_eq [OF forgotten(3)] o by (simp_all add: entry_of_def fun_eq_iff)
    then have "contents q1 = map (entry_of (forget_record rid q2)) rest" using forgotten(2) d by (simp add: contents_def forget_fields)
    also have "\<dots> = map (entry_of q2) rest" using d(1) by (intro map_cong) (auto simp: entry_of_def forget_fields)
    finally show ?thesis using forgotten(1) o \<open>entry_of q2 = entry_of q\<close> by (simp add: contents_def)
  next
    case (kept e r)
    then show ?thesis using core_contents [of q1 q] by simp
  qed simp
  then show "contents q' = (if err = None then tl (contents q) else contents q)" using same q'(1) by simp
qed

section \<open>Acknowledgements decide the head\<close>

lemma decideAck_cases:
  assumes "decideAck wire dev payload r = ((ap, err), r')" "queue_inv (rn_queue r)"
  obtains (kept) "contents (rn_queue r') = contents (rn_queue r)" "queue_inv (rn_queue r')"
  | (gone) queued ack canon recognised where "contents (rn_queue r) = queued # contents (rn_queue r')" "queue_inv (rn_queue r')" "ap"
      "decode_ack payload = Some ack" "ia_DeviceID ack = dev" "0 < ia_AcknowledgedAtMS ack"
      "authorityQueueRouting queued = Some (dev, ia_ArtifactType ack)" "wire (qa_Payload queued) = Some canon"
      "ia_ArtifactDigest ack = payloadDigest canon" "inboundDecision (ia_Outcome ack) (ia_Reason ack) = Some (True, recognised)"
proof (cases "rn_queue r' = rn_queue r")
  case True
  then show thesis using kept assms(2) by simp
next
  case False
  then obtain ack queued canon recognised e q where f: "decode_ack payload = Some ack" "ia_DeviceID ack = dev" "0 < ia_AcknowledgedAtMS ack"
    "Peek (rn_queue r) = Some queued" "authorityQueueRouting queued = Some (dev, ia_ArtifactType ack)" "wire (qa_Payload queued) = Some canon"
    "ia_ArtifactDigest ack = payloadDigest canon" "inboundDecision (ia_Outcome ack) (ia_Reason ack) = Some (True, recognised)"
    "Remove (qa_ID queued) (rn_queue r) = (e, q)" "rn_queue r' = q" "ap \<longleftrightarrow> e = None"
    using assms(1) by (auto simp: decideAck_def Let_def split: option.splits if_splits prod.splits)
  note h = head_forgotten [OF assms(2) f(9,4)]
  show thesis
  proof (cases e)
    case None
    have "contents (rn_queue r) \<noteq> []" "hd (contents (rn_queue r)) = queued" using f(4) by (auto simp: Peek_contents split: list.splits)
    then have "contents (rn_queue r) = queued # contents (rn_queue r')" using h(1) None f(10) by (cases "contents (rn_queue r)") auto
    then show thesis using gone f h None by blast
  next
    case (Some x)
    then show thesis using kept h f(10) by simp
  qed
qed

text \<open>C9. A returned artifact leaves the return queue only on the runtime's own word. Handling an acknowledgement leaves the
  queue as it is, or takes its head: then the message was authentic for the device of its topic and fresh, names the head
  by that device, its type and the digest of its canonical bytes, and says it was applied, or refused for a reason that
  retires it.\<close>

theorem ack_retires_named_head:
  assumes "queue_inv (rn_queue r)" "HandleAck validUnicode decodeStrict canonical wire t topic payload v r = (res, v', r')"
  shows "contents (rn_queue r') = contents (rn_queue r)
    \<or> (\<exists>queued dev auth body ack canon recognised. contents (rn_queue r) = queued # contents (rn_queue r')
         \<and> DeviceIDFromEvidenceInboundAckTopic topic = Inr dev
         \<and> authenticate validUnicode decodeStrict canonical v payload EvidenceInboundAckMessageType dev [] = Inr (auth, body)
         \<and> check (prune (vf_replay v) t) (replayKey (envelope_of EvidenceInboundAckMessageType dev [] auth)) (SignedAtMS auth) t = None
         \<and> decode_ack payload = Some ack \<and> authorityQueueRouting queued = Some (dev, ia_ArtifactType ack)
         \<and> wire (qa_Payload queued) = Some canon \<and> ia_ArtifactDigest ack = payloadDigest canon
         \<and> inboundDecision (ia_Outcome ack) (ia_Reason ack) = Some (True, recognised))"
proof (cases "r' = r")
  case False
  then obtain dev auth body d where f: "DeviceIDFromEvidenceInboundAckTopic topic = Inr dev"
    "authenticate validUnicode decodeStrict canonical v payload EvidenceInboundAckMessageType dev [] = Inr (auth, body)"
    "decideAck wire dev payload r = (d, r')"
    "check (prune (vf_replay v) t) (replayKey (envelope_of EvidenceInboundAckMessageType dev [] auth)) (SignedAtMS auth) t = None"
    using assms(2)
    by (auto simp: HandleAck_def VerifyJSONThenDecide_def checkFreshAndRecord_def envelope_of_def Let_def
        split: sum.splits prod.splits option.splits if_splits verifyError.splits)
  obtain ap err where d: "d = (ap, err)" by fastforce
  from f(3) [unfolded d] assms(1) show ?thesis
  proof (cases rule: decideAck_cases)
    case (gone queued ack canon recognised)
    then show ?thesis using f(1,2,4) by blast
  qed simp
qed simp

section \<open>Held artifacts\<close>

text \<open>What happens around the publisher while no acknowledgement arrives: a pass of its loop, a wake, a change of the state
  of a device, an artifact staged for return.\<close>

datatype returnEvent = Carry int int bool | WakeUp | StateChange string | Staging string string int

fun return_step ::
  "canonical_map \<Rightarrow> (string \<Rightarrow> string option) \<Rightarrow> strict_decoder \<Rightarrow> string \<Rightarrow> returnEvent \<Rightarrow> returns \<Rightarrow> (string \<times> string) list \<times> returns" where
  "return_step canonical wire decodeStrict secret (Carry now now' taken) r =
     (case publishHead canonical wire decodeStrict secret now now' taken (r\<lparr>rn_publisher := (rn_publisher r)\<lparr>rp_wake := False\<rparr>\<rparr>) of
        (m, r) \<Rightarrow> (case m of None \<Rightarrow> [] | Some x \<Rightarrow> [x], r))"
| "return_step canonical wire decodeStrict secret WakeUp r = ([], r\<lparr>rn_publisher := Notify (rn_publisher r)\<rparr>)"
| "return_step canonical wire decodeStrict secret (StateChange device) r = ([], r\<lparr>rn_publisher := ReceiverStateChanged device (rn_publisher r)\<rparr>)"
| "return_step canonical wire decodeStrict secret (Staging kind payload now) r =
     ([], r\<lparr>rn_queue := snd (enqueueOrFind kind payload now (rn_queue r))\<rparr>)"

fun return_run ::
  "canonical_map \<Rightarrow> (string \<Rightarrow> string option) \<Rightarrow> strict_decoder \<Rightarrow> string \<Rightarrow> returnEvent list \<Rightarrow> returns \<Rightarrow> (string \<times> string) list \<times> returns" where
  "return_run canonical wire decodeStrict secret [] r = ([], r)"
| "return_run canonical wire decodeStrict secret (e # es) r =
     (case return_step canonical wire decodeStrict secret e r of (ms, r1) \<Rightarrow>
       (case return_run canonical wire decodeStrict secret es r1 of (ms', r2) \<Rightarrow> (ms @ ms', r2)))"

definition held_return :: "string \<Rightarrow> QueuedArtifact \<Rightarrow> returns \<Rightarrow> bool" where
  "held_return dev queued r \<longleftrightarrow> Peek (rn_queue r) = Some queued \<and> rp_heldID (rn_publisher r) = qa_ID queued \<and> rp_heldDevice (rn_publisher r) = dev"

lemma enqueue_peek:
  assumes "queue_inv q" "Peek q = Some a"
  shows "Peek (snd (enqueueOrFind kind payload now q)) = Some a"
proof -
  obtain res q' where e: "enqueueOrFind kind payload now q = (res, q')" by fastforce
  obtain as where c: "contents q = a # as" using assms(2) by (auto simp: Peek_contents split: list.splits)
  from e have "\<exists>x. contents q' = contents q @ x"
  proof (cases rule: enqueueOrFind_cases)
    case (refused e)
    then show ?thesis using frame_core [of q' q] core_contents [of q' q] by auto
  next
    case (inserted r sz q1)
    have same: "core q1 = core q" "queue_inv q1" using frame_core [OF inserted(8)] frame_inv [OF inserted(8)] assms(1) by auto
    have id: "qr_ID r = artifactID kind payload" "qr_QueueSeq r = q_nextSeq q1"
      using inserted(2) core_eq(5) [OF same(1)] by (simp_all add: new_record_def)
    have new: "fmlookup (q_entries q1) (artifactID kind payload) = None" using inserted(3) core_eq(1) [OF same(1)] by simp
    have parts: "index_inv q1" "order_inv q1" using same(2) by (auto simp: queue_inv_def)
    have o: "q_order q' = q_order q1 @ [artifactID kind payload]" unfolding inserted(7) by (rule commit_order(1) [OF parts new id])
    have nin: "artifactID kind payload \<notin> set (q_order q1)" using not_in_order parts(1) new by blast
    have m: "map (entry_of q') (q_order q1) = map (entry_of q1) (q_order q1)"
      unfolding inserted(7) using nin by (intro map_cong) (auto simp: entry_of_def commit_fields [OF id(1)])
    have "contents q' = contents q1 @ [entry_of q' (artifactID kind payload)]"
      unfolding contents_def o map_append m by (simp only: list.map)
    then show ?thesis using core_contents [OF same(1)] by auto
  qed auto
  then show ?thesis using c e by (auto simp: Peek_contents)
qed

lemma return_step_held:
  assumes "held_return dev queued r" "queue_inv (rn_queue r)" "e \<noteq> StateChange dev" "q_nextSeq (rn_queue r) < maxInt64"
    and s: "return_step canonical wire decodeStrict secret e r = (ms, r')"
  shows "ms = [] \<and> held_return dev queued r' \<and> queue_inv (rn_queue r') \<and> q_nextSeq (rn_queue r') \<le> q_nextSeq (rn_queue r) + 1"
proof (cases e)
  case (Carry now now' taken)
  then show ?thesis using assms by (auto simp: held_return_def publishHead_def Let_def)
next
  case WakeUp
  then show ?thesis using assms by (auto simp: held_return_def Notify_def)
next
  case (StateChange device)
  then show ?thesis using assms by (auto simp: held_return_def ReceiverStateChanged_def Notify_def)
next
  case (Staging kind payload now)
  obtain res q' where e: "enqueueOrFind kind payload now (rn_queue r) = (res, q')" by fastforce
  have "Peek q' = Some queued" using enqueue_peek [OF assms(2), of queued kind payload now] assms(1) e by (simp add: held_return_def)
  moreover have "q_nextSeq q' \<le> q_nextSeq (rn_queue r) + 1" using enqueue_keeps_entries [OF e assms(2,4)] by blast
  ultimately show ?thesis using Staging assms e enqueueOrFind_inv [OF assms(2,4) e] by (auto simp: held_return_def)
qed

text \<open>A held return is carried again only on a change of the state of its own device. While no such change and no
  acknowledgement arrives, no pass of the loop, wake, change on another device or artifact staged behind it puts a
  message on the wire, and the artifact stays at the head, held.\<close>

theorem held_return_not_carried:
  assumes "held_return dev queued r" "queue_inv (rn_queue r)" "StateChange dev \<notin> set es" "q_nextSeq (rn_queue r) + int (length es) \<le> maxInt64"
    and "return_run canonical wire decodeStrict secret es r = (ms, r')"
  shows "ms = [] \<and> held_return dev queued r'"
  using assms
proof (induction es arbitrary: r ms r')
  case (Cons e es)
  obtain ms1 r1 where s: "return_step canonical wire decodeStrict secret e r = (ms1, r1)" by fastforce
  obtain ms2 r2 where t: "return_run canonical wire decodeStrict secret es r1 = (ms2, r2)" by fastforce
  have h: "ms1 = [] \<and> held_return dev queued r1 \<and> queue_inv (rn_queue r1) \<and> q_nextSeq (rn_queue r1) \<le> q_nextSeq (rn_queue r) + 1"
    by (rule return_step_held [OF Cons.prems(1,2) _ _ s]) (use Cons.prems(3,4) in auto)
  have "ms2 = [] \<and> held_return dev queued r2" by (rule Cons.IH [OF _ _ _ _ t]) (use h Cons.prems(3,4) in auto)
  then show ?case using Cons.prems(5) s t h by simp
qed simp

section \<open>A concrete return queue\<close>

definition sample_returns :: returns where
  "sample_returns = \<lparr>rn_publisher = (NewReturnPublisher 0)\<lparr>rp_heldID := qa_ID (recordArtifact sample_record), rp_heldDevice := ''pump-1''\<rparr>,
     rn_queue = carried_queue, rn_clock = \<lparr>ec_name = ''clock'', ec_last = 0\<rparr>, rn_disk = empty_disk\<rparr>"

lemma sample_returns_contents: "contents carried_queue = [recordArtifact sample_record]"
proof -
  obtain d sz where c: "carried_queue = commit_record sample_record sz (sample_queue\<lparr>q_disk := d\<rparr>)" using carried by blast
  note f = commit_fields [OF refl, of sample_record sz "sample_queue\<lparr>q_disk := d\<rparr>"]
  show ?thesis using f c sample_queue_empty sample_queue_facts by (simp add: contents_def entry_of_def)
qed

theorem ack_retires_named_head_witness:
  "\<exists>res v' r'. HandleAck (\<lambda>_. True) (\<lambda>_ _. None) (\<lambda>_. None) Some 1000 ''ori/pump-1/evidence/inbound/ack'' ''{}'' sample_verifier sample_returns = (res, v', r')
     \<and> contents (rn_queue r') = [recordArtifact sample_record]"
proof -
  obtain res v' r' where h: "HandleAck (\<lambda>_. True) (\<lambda>_ _. None) (\<lambda>_. None) Some 1000 ''ori/pump-1/evidence/inbound/ack'' ''{}'' sample_verifier sample_returns = (res, v', r')"
    by (metis prod_cases3)
  have "queue_inv (rn_queue sample_returns)" by (simp add: sample_returns_def carried_inv)
  moreover have "decode_ack ''{}'' = None" by code_simp
  ultimately show ?thesis
    using ack_retires_named_head [OF _ h] h by (auto simp: sample_returns_def sample_returns_contents)
qed

theorem held_return_not_carried_witness:
  "\<exists>r'. return_run (\<lambda>_. None) Some (\<lambda>_ _. None) ''secret'' [WakeUp, Carry 9000000000 9000000000 True, StateChange ''fan-2'', Carry 90000000000 90000000000 True] sample_returns = ([], r')
     \<and> held_return ''pump-1'' (recordArtifact sample_record) r'"
proof -
  let ?es = "[WakeUp, Carry 9000000000 9000000000 True, StateChange ''fan-2'', Carry 90000000000 90000000000 True]"
  obtain ms r' where r: "return_run (\<lambda>_. None) Some (\<lambda>_ _. None) ''secret'' ?es sample_returns = (ms, r')" by fastforce
  have h: "held_return ''pump-1'' (recordArtifact sample_record) sample_returns" "queue_inv (rn_queue sample_returns)"
    "q_nextSeq (rn_queue sample_returns) = 2"
    by (simp_all add: held_return_def sample_returns_def carried_inv Peek_contents sample_returns_contents carried_fields(2) NewReturnPublisher_def)
  show ?thesis using held_return_not_carried [OF h(1,2) _ _ r] r h(3) by (auto simp: maxInt64_def)
qed

end
