(* ===== verification/Ingress.thy ===== *)
theory Ingress
  imports Returns
begin

text \<open>
  The runtime-facing side of the courier, \<open>internal/evidence/courier/runtime_ingress.go\<close>: an outbound carriage is admitted
  to the queue, acknowledged to the runtime, and for a delivery envelope the custody return is staged; and the handoffs
  this gives the delivery worker and the return publisher.

  The clocks are arguments, and so is whether the broker took the acknowledgement. The canonical writer is the one of
  \<open>Verifier\<close>.
\<close>

section \<open>Messages\<close>

definition EvidenceOutboundAckMessageType :: string where "EvidenceOutboundAckMessageType = ''evidence_outbound_ack''"

record outboundAck =
  oa_DeviceID :: string
  oa_ArtifactType :: string
  oa_ArtifactDigest :: string
  oa_Outcome :: string
  oa_Reason :: string
  oa_AcknowledgedAtMS :: int

definition ack_members :: "outboundAck \<Rightarrow> (string \<times> json) list" where
  "ack_members a =
     [(''device_id'', JString (oa_DeviceID a)), (''artifact_type'', JString (oa_ArtifactType a)),
      (''artifact_digest'', JString (oa_ArtifactDigest a)), (''outcome'', JString (oa_Outcome a)),
      (''reason'', JString (oa_Reason a)), (''acknowledged_at_ms'', JNum (itoa (oa_AcknowledgedAtMS a)))]"

definition encodeOutboundAck :: "canonical_map \<Rightarrow> outboundAck \<Rightarrow> int \<Rightarrow> string \<Rightarrow> signError + string" where
  "encodeOutboundAck canonical ack signedAt secret =
     (case Sign canonical (JObj (ack_members ack)) EvidenceOutboundAckMessageType (oa_DeviceID ack) [] signedAt secret of
        Inl e \<Rightarrow> Inl e
      | Inr auth \<Rightarrow> Inr (print_json (JObj (ack_members ack @ [(''auth'', auth_json auth)]))))"

record outboundCarriage =
  oc_DeviceID :: string
  oc_ArtifactType :: string
  oc_ArtifactB64 :: string

definition carriageMembers :: "string list" where
  "carriageMembers = [''device_id'', ''artifact_type'', ''artifact_b64'']"

definition store_carriage :: "string \<Rightarrow> json \<Rightarrow> outboundCarriage \<Rightarrow> outboundCarriage option" where
  "store_carriage f v c =
     (if f = ''device_id'' then map_option (\<lambda>s. c\<lparr>oc_DeviceID := s\<rparr>) (decode_string v (oc_DeviceID c))
      else if f = ''artifact_type'' then map_option (\<lambda>s. c\<lparr>oc_ArtifactType := s\<rparr>) (decode_string v (oc_ArtifactType c))
      else map_option (\<lambda>s. c\<lparr>oc_ArtifactB64 := s\<rparr>) (decode_string v (oc_ArtifactB64 c)))"

definition decode_carriage :: "string \<Rightarrow> outboundCarriage option" where
  "decode_carriage payload =
     (case json_parse payload of
        Some (JObj ms) \<Rightarrow>
          if refuseAmbiguousMembers carriageMembers [] ms then None
          else decode_members carriageMembers True store_carriage ms \<lparr>oc_DeviceID = [], oc_ArtifactType = [], oc_ArtifactB64 = []\<rparr>
      | _ \<Rightarrow> None)"

text \<open>The custody acknowledgement as the struct is written.\<close>

definition custody_json :: "Acknowledgement \<Rightarrow> json" where
  "custody_json a = JObj
     [(''v'', JNum (itoa (ck_V a))), (''device_id'', JString (ck_DeviceID a)), (''local_seq'', JNum (itoa (ck_LocalSeq a))),
      (''envelope_digest'', JString (ck_EnvelopeDigest a)), (''custody_at_ms'', JNum (itoa (ck_CustodyAtMS a))),
      (''key_id'', JString (ck_KeyID a)), (''mac'', JString (ck_MAC a))]"

text \<open>The canonical writer as the custody signer calls it.\<close>

fun cvalue_any :: "cvalue \<Rightarrow> gvalue" where
  "cvalue_any (CText s) = VString s"
| "cvalue_any (CNumber n) = VNumber n"

definition canon_of :: "canonical_map \<Rightarrow> canonical" where
  "canon_of canonical ms = canonical (fmap_of_list (map (\<lambda>(k, v). (k, cvalue_any v)) ms))"

section \<open>Handling\<close>

datatype HandoffKind = HandoffAdmitted | HandoffQueueFull

definition Handoff :: "string \<Rightarrow> HandoffKind \<Rightarrow> lanes \<times> ReturnPublisher \<Rightarrow> lanes \<times> ReturnPublisher" where
  "Handoff deviceID kind st =
     (NotifyDevice deviceID (fst st), if kind = HandoffAdmitted then ReceiverStateChanged deviceID (snd st) else snd st)"

definition admissionQueueSource :: string where "admissionQueueSource = ''admission.queue''"
definition admissionCustodySource :: string where "admissionCustodySource = ''admission.custody''"

record RuntimeIngress =
  ri_queue :: DurableQueue
  ri_returns :: DurableQueue
  ri_clock :: evClock
  ri_disk :: disk
  ri_faults :: Recorder

datatype ingressError =
    BadTopic contractError | UnconfiguredTopic | MalformedCarriage | MalformedBytes | AckClock ioError | AckSign signError
  | AckTopicError contractError | AckNotTaken | AdmissionRefused courierError | CustodyEncoding | CustodyStaging storeError

text \<open>What a carriage led to: the error, the acknowledgement handed to the broker, the handoffs in order, and whether the return
  publisher is woken.\<close>

record outcome =
  oc_err :: "ingressError option"
  oc_ack :: "outboundAck option"
  oc_handoffs :: "(string \<times> HandoffKind) list"
  oc_notify :: bool

record readings =
  rd_now :: int
  rd_queue :: int
  rd_returns :: int
  rd_clock :: int
  rd_taken :: bool

definition failed :: "ingressError \<Rightarrow> (string \<times> HandoffKind) list \<Rightarrow> outcome" where
  "failed e hs = \<lparr>oc_err = Some e, oc_ack = None, oc_handoffs = hs, oc_notify = False\<rparr>"

definition publishOutboundAck ::
  "canonical_map \<Rightarrow> string \<Rightarrow> readings \<Rightarrow> string \<Rightarrow> string \<Rightarrow> string \<Rightarrow> string \<Rightarrow> string \<Rightarrow> int \<Rightarrow> RuntimeIngress
     \<Rightarrow> ingressError option \<times> outboundAck option \<times> RuntimeIngress" where
  "publishOutboundAck canonical secret rd deviceID artifactType artifactBytes result reason at h =
     (let ack = \<lparr>oa_DeviceID = deviceID, oa_ArtifactType = artifactType, oa_ArtifactDigest = payloadDigest artifactBytes,
            oa_Outcome = result, oa_Reason = reason, oa_AcknowledgedAtMS = at\<rparr>
      in case ec_Next (ri_clock h) (rd_clock rd) (ri_disk h) of
           (Inl e, clk, d) \<Rightarrow> (Some (AckClock e), None, h\<lparr>ri_clock := clk, ri_disk := d\<rparr>)
         | (Inr signedAt, clk, d) \<Rightarrow>
             let h = h\<lparr>ri_clock := clk, ri_disk := d\<rparr>
             in case encodeOutboundAck canonical ack signedAt secret of
                  Inl e \<Rightarrow> (Some (AckSign e), None, h)
                | Inr encoded \<Rightarrow>
                    (case EvidenceOutboundAckTopic deviceID of
                       Inl e \<Rightarrow> (Some (AckTopicError e), None, h)
                     | Inr topic \<Rightarrow> (if rd_taken rd then None else Some AckNotTaken, Some ack, h)))"

definition refuse_carriage ::
  "canonical_map \<Rightarrow> string \<Rightarrow> readings \<Rightarrow> string \<Rightarrow> string \<Rightarrow> string \<Rightarrow> string \<Rightarrow> (string \<times> HandoffKind) list \<Rightarrow> RuntimeIngress
     \<Rightarrow> outcome \<times> RuntimeIngress" where
  "refuse_carriage canonical secret rd deviceID artifactType artifactBytes reason hs h =
     (case publishOutboundAck canonical secret rd deviceID artifactType artifactBytes ''refused'' reason (rd_now rd) h of
        (err, ack, h) \<Rightarrow> (\<lparr>oc_err = err, oc_ack = ack, oc_handoffs = hs, oc_notify = False\<rparr>, h))"

definition note_admission :: "string \<Rightarrow> bool \<Rightarrow> RuntimeIngress \<Rightarrow> RuntimeIngress" where
  "note_admission source err h = h\<lparr>ri_faults := Note AdmissionFailed source err (ri_faults h)\<rparr>"

text \<open>The custody return, after the queued acknowledgement went out.\<close>

definition stage_custody ::
  "canonical_map \<Rightarrow> (string \<Rightarrow> string option) \<Rightarrow> strict_decoder \<Rightarrow> readings \<Rightarrow> string \<Rightarrow> Acknowledgement \<Rightarrow> RuntimeIngress
     \<Rightarrow> ingressError option \<times> RuntimeIngress" where
  "stage_custody canonical wire decodeStrict rd deviceID custody h =
     (case CanonicalJSONWithoutAuth canonical (custody_json custody) of
        None \<Rightarrow> (Some CustodyEncoding, note_admission admissionCustodySource True h)
      | Some artifact \<Rightarrow>
          (case Store decodeStrict wire \<lparr>aa_Type = InboundCustodyAcknowledgement, aa_DeviceID = deviceID, aa_Payload = artifact\<rparr>
                  (rd_returns rd) (ri_returns h) of
             (Some e, q) \<Rightarrow> (Some (CustodyStaging e), note_admission admissionCustodySource True (h\<lparr>ri_returns := q\<rparr>))
           | (None, q) \<Rightarrow> (None, note_admission admissionCustodySource False (h\<lparr>ri_returns := q\<rparr>))))"

definition noted_device :: "string \<Rightarrow> RuntimeIngress \<Rightarrow> RuntimeIngress" where
  "noted_device deviceID h = h\<lparr>ri_queue := NoteAdmittedDevice deviceID (ri_queue h)\<rparr>"

text \<open>From the admission on.\<close>

definition admit_carriage ::
  "canonical_map \<Rightarrow> (string \<Rightarrow> string option) \<Rightarrow> strict_decoder \<Rightarrow> Signer option \<Rightarrow> string \<Rightarrow> readings \<Rightarrow> string \<Rightarrow> string \<Rightarrow> string \<Rightarrow> RuntimeIngress
     \<Rightarrow> outcome \<times> RuntimeIngress" where
  "admit_carriage canonical wire decodeStrict signer secret rd deviceID kind bytes h0 =
     (case Admit (canon_of canonical) signer kind bytes (rd_queue rd) (ri_queue h0) of (admission, err, q) \<Rightarrow>
        let h = h0\<lparr>ri_queue := q\<rparr>; hs = (if ad_New admission then [(deviceID, HandoffAdmitted)] else [])
        in case err of
             Some e \<Rightarrow>
               (case e of
                  QueueRefused UnconfiguredDevice \<Rightarrow>
                    (failed (AdmissionRefused e) hs, h\<lparr>ri_queue := snd (NoteUnconfiguredDevice deviceID (ri_queue h))\<rparr>)
                | QueueRefused (QueueFull _) \<Rightarrow>
                    refuse_carriage canonical secret rd deviceID kind bytes ''queue_full'' (hs @ [(deviceID, HandoffQueueFull)]) h
                | CustodyConstruction _ \<Rightarrow>
                    (failed (AdmissionRefused e) hs, note_admission admissionCustodySource True (note_admission admissionQueueSource False h))
                | _ \<Rightarrow> (failed (AdmissionRefused e) hs, note_admission admissionQueueSource True h))
           | None \<Rightarrow>
               let h = note_admission admissionQueueSource False h
               in case publishOutboundAck canonical secret rd deviceID kind bytes ''queued'' [] (qa_EnqueuedAtMS (ad_Queued admission)) h of
                    (Some e, ack, h) \<Rightarrow> (\<lparr>oc_err = Some e, oc_ack = ack, oc_handoffs = hs, oc_notify = False\<rparr>, h)
                  | (None, ack, h) \<Rightarrow>
                      (case ad_Custody admission of
                         None \<Rightarrow> (\<lparr>oc_err = None, oc_ack = ack, oc_handoffs = hs, oc_notify = False\<rparr>, noted_device deviceID h)
                       | Some custody \<Rightarrow>
                           (case stage_custody canonical wire decodeStrict rd deviceID custody h of
                              (Some e, h) \<Rightarrow> (\<lparr>oc_err = Some e, oc_ack = ack, oc_handoffs = hs, oc_notify = False\<rparr>, h)
                            | (None, h) \<Rightarrow> (\<lparr>oc_err = None, oc_ack = ack, oc_handoffs = hs, oc_notify = True\<rparr>, noted_device deviceID h))))"

definition Handle ::
  "canonical_map \<Rightarrow> (string \<Rightarrow> string option) \<Rightarrow> strict_decoder \<Rightarrow> Signer option \<Rightarrow> string \<Rightarrow> readings \<Rightarrow> string \<Rightarrow> string \<Rightarrow> RuntimeIngress
     \<Rightarrow> outcome \<times> RuntimeIngress" where
  "Handle canonical wire decodeStrict signer secret rd topic payload h =
     (case DeviceIDFromEvidenceOutboundTopic topic of Inl e \<Rightarrow> (failed (BadTopic e) [], h)
      | Inr deviceID \<Rightarrow>
          if \<not> Configured deviceID (ri_queue h)
          then (failed UnconfiguredTopic [], h\<lparr>ri_queue := snd (NoteUnconfiguredDevice deviceID (ri_queue h))\<rparr>)
          else case decode_carriage payload of None \<Rightarrow> (failed MalformedCarriage [], h)
          | Some c \<Rightarrow>
              (case b64_decode_strict (oc_ArtifactB64 c) of None \<Rightarrow> (failed MalformedBytes [], h)
               | Some bytes \<Rightarrow>
                   let refused = (\<lambda>reason. refuse_carriage canonical secret rd deviceID (oc_ArtifactType c) bytes reason [] h)
                   in if bytes = [] then (failed MalformedBytes [], h)
                      else if oc_DeviceID c \<noteq> deviceID then refused ''binding_mismatch''
                      else case decodeRouting [''device_id''] bytes of None \<Rightarrow> refused ''malformed''
                      | Some routing \<Rightarrow>
                          if rt_DeviceID routing = [] then refused ''malformed''
                          else if rt_DeviceID routing \<noteq> deviceID then refused ''binding_mismatch''
                          else if validateArtifactRoutingFields (oc_ArtifactType c) bytes (RoutingDeviceID (ri_queue h)) \<noteq> None
                          then refused ''malformed''
                          else admit_carriage canonical wire decodeStrict signer secret rd deviceID (oc_ArtifactType c) bytes h))"

section \<open>Admission and the lanes\<close>

lemma enqueueOutbound_lanes:
  assumes "queue_inv q" "q_nextSeq q < maxInt64" "enqueueOutbound kind payload now q = (res, q')"
  shows "queue_inv q'" "lane_of q' \<noteq> lane_of q \<longleftrightarrow> (\<exists>a. res = Inr (a, True))"
proof -
  obtain res0 q0 where e: "enqueueOrFind kind payload now q = (res0, q0)" by fastforce
  have "queue_inv q' \<and> (lane_of q' \<noteq> lane_of q \<longleftrightarrow> (\<exists>a. res = Inr (a, True)))"
  proof (cases "validOutboundArtifactType kind")
    case False
    then show ?thesis using assms by (auto simp: enqueueOutbound_def)
  next
    case True
    then have q': "q' = q0" "res = (case res0 of Inl e \<Rightarrow> Inl e | Inr (a, existing) \<Rightarrow> Inr (a, \<not> existing))"
      using assms(3) e by (auto simp: enqueueOutbound_def split: sum.splits prod.splits)
    have inv: "queue_inv q0" using enqueueOrFind_inv [OF assms(1,2) e] .
    from e show ?thesis
    proof (cases rule: enqueueOrFind_cases)
      case (refused x)
      then show ?thesis using frame_lane [of q0 q] q' inv by simp
    next
      case (inserted r sz q1)
      have same: "core q1 = core q" "queue_inv q1" using frame_core [OF inserted(8)] frame_inv [OF inserted(8)] assms(1) by auto
      have id: "qr_ID r = artifactID kind payload" "qr_QueueSeq r = q_nextSeq q1" using inserted(2) core_eq(5) [OF same(1)] by (simp_all add: new_record_def)
      have new: "fmlookup (q_entries q1) (artifactID kind payload) = None" using inserted(3) core_eq(1) [OF same(1)] by simp
      have "lane_of q0 (recordLane r) = lane_of q (recordLane r) @ [recordArtifact r]"
        unfolding inserted(7) using lane_commit [OF same(2) new id] core_lane [OF same(1)] by simp
      then have "lane_of q0 \<noteq> lane_of q" by (metis append_self_conv list.distinct(1))
      then show ?thesis using inserted(1) q' inv by simp
    qed (use q' inv in simp)
  qed
  then show "queue_inv q'" "lane_of q' \<noteq> lane_of q \<longleftrightarrow> (\<exists>a. res = Inr (a, True))" by auto
qed

lemma Admit_lanes:
  assumes "queue_inv q" "q_nextSeq q < maxInt64" "Admit canon signer kind payload now q = (a, err, q')"
  shows "queue_inv q' \<and> (lane_of q' \<noteq> lane_of q \<longleftrightarrow> ad_New a) \<and> (\<forall>e. err = Some (QueueRefused e) \<longrightarrow> \<not> ad_New a)"
proof (cases "validateArtifactRoutingFields kind payload (RoutingDeviceID q)")
  case (Some e)
  then show ?thesis using assms by (auto simp: Admit_def no_admission_def)
next
  case None
  obtain res q1 where e: "enqueueOutbound kind payload now q = (res, q1)" by fastforce
  have r: "q' = q1" "ad_New a \<longleftrightarrow> (\<exists>x. res = Inr (x, True))" "\<And>e. err = Some (QueueRefused e) \<Longrightarrow> res = Inl e"
    using assms(3) None e by (auto simp: Admit_def no_admission_def Let_def split: sum.splits if_splits option.splits)
  show ?thesis using enqueueOutbound_lanes [OF assms(1,2) e] r by auto
qed

lemma Admit_queued:
  assumes "Admit canon signer kind payload now q = (a, None, q')"
  obtains isNew where "enqueueOutbound kind payload now q = (Inr (ad_Queued a, isNew), q')"
    "kind = ArtifactDeliveryEnvelope \<and> signer \<noteq> None \<longrightarrow> ad_Custody a \<noteq> None"
  using assms by (auto simp: Admit_def no_admission_def Let_def split: option.splits prod.splits sum.splits if_splits)

lemma ack_only_clock:
  assumes "publishOutboundAck canonical secret rd dev kind bytes result reason at h = (err, ack, h')"
  shows "ri_queue h' = ri_queue h \<and> ri_returns h' = ri_returns h
    \<and> (ack \<noteq> None \<longrightarrow> ack = Some \<lparr>oa_DeviceID = dev, oa_ArtifactType = kind, oa_ArtifactDigest = payloadDigest bytes,
          oa_Outcome = result, oa_Reason = reason, oa_AcknowledgedAtMS = at\<rparr>)"
  using assms by (auto simp: publishOutboundAck_def Let_def split: prod.splits sum.splits)

lemma noted_lanes [simp]: "lane_of (ri_queue (noted_device dev h)) = lane_of (ri_queue h)" "ri_returns (noted_device dev h) = ri_returns h"
  using frame_lane [OF NoteAdmittedDevice_frame] by (simp_all add: noted_device_def)

lemma note_admission_queues [simp]: "ri_queue (note_admission src e h) = ri_queue h" "ri_returns (note_admission src e h) = ri_returns h"
  by (simp_all add: note_admission_def)

lemma unconfigured_lanes: "lane_of (snd (NoteUnconfiguredDevice dev q)) = lane_of q"
proof -
  obtain err q' where "NoteUnconfiguredDevice dev q = (err, q')" by fastforce
  then show ?thesis using frame_lane [OF NoteUnconfiguredDevice_frame] by simp
qed

lemma stage_custody_queue: "stage_custody canonical wire decodeStrict rd dev custody h = (err, h') \<Longrightarrow> ri_queue h' = ri_queue h"
  by (auto simp: stage_custody_def split: option.splits prod.splits)

section \<open>What a carriage leads to\<close>

text \<open>A refusal leaves the queues alone and names a reason of the contract; and a handoff of a new artifact is given exactly when
  the lanes changed.\<close>

definition tells_truth :: "RuntimeIngress \<Rightarrow> outcome \<Rightarrow> RuntimeIngress \<Rightarrow> bool" where
  "tells_truth h out h' \<longleftrightarrow>
     (list_ex (\<lambda>(d, k). k = HandoffAdmitted) (oc_handoffs out) \<longleftrightarrow> lane_of (ri_queue h') \<noteq> lane_of (ri_queue h))
     \<and> (case oc_ack out of None \<Rightarrow> True
        | Some ack \<Rightarrow> oa_Outcome ack = ''queued'' \<and> oa_Reason ack = []
            \<or> oa_Outcome ack = ''refused'' \<and> oa_Reason ack \<in> {''binding_mismatch'', ''malformed'', ''queue_full''}
              \<and> lane_of (ri_queue h') = lane_of (ri_queue h) \<and> ri_returns h' = ri_returns h)"

lemma refuse_truth:
  assumes "refuse_carriage canonical secret rd dev kind bytes reason hs h1 = (out, h')" "ri_queue h1 = q" "ri_returns h1 = ri_returns h"
    "lane_of q = lane_of (ri_queue h)" "reason \<in> {''binding_mismatch'', ''malformed'', ''queue_full''}" "\<not> list_ex (\<lambda>(d, k). k = HandoffAdmitted) hs"
  shows "tells_truth h out h'"
proof -
  obtain err ack h2 where p: "publishOutboundAck canonical secret rd dev kind bytes ''refused'' reason (rd_now rd) h1 = (err, ack, h2)" by (metis prod_cases3)
  show ?thesis using assms p ack_only_clock [OF p] by (auto simp: refuse_carriage_def tells_truth_def split: option.splits)
qed

lemma failed_truth:
  assumes "lane_of (ri_queue h') \<noteq> lane_of (ri_queue h) \<longleftrightarrow> list_ex (\<lambda>(d, k). k = HandoffAdmitted) hs"
  shows "tells_truth h (failed e hs) h'"
  using assms by (simp add: tells_truth_def failed_def)

lemma queued_truth:
  assumes "publishOutboundAck canonical secret rd dev kind bytes ''queued'' [] at h1 = (err, ack, h2)"
    and "lane_of q' \<noteq> lane_of (ri_queue h) \<longleftrightarrow> list_ex (\<lambda>(d, k). k = HandoffAdmitted) hs" "ri_queue h' = q'"
  shows "tells_truth h \<lparr>oc_err = e, oc_ack = ack, oc_handoffs = hs, oc_notify = n\<rparr> h'"
  using assms(2,3) ack_only_clock [OF assms(1)] by (auto simp: tells_truth_def split: option.splits)

lemma admit_truth:
  assumes inv: "queue_inv (ri_queue h)" "q_nextSeq (ri_queue h) < maxInt64"
    and a: "admit_carriage canonical wire decodeStrict signer secret rd dev kind bytes h = (out, h')"
  shows "tells_truth h out h'"
proof -
  obtain admission err q where ad: "Admit (canon_of canonical) signer kind bytes (rd_queue rd) (ri_queue h) = (admission, err, q)" by (metis prod_cases3)
  define hs where "hs = (if ad_New admission then [(dev, HandoffAdmitted)] else [])"
  define h1 where "h1 = h\<lparr>ri_queue := q\<rparr>"
  have h1: "ri_queue h1 = q" "ri_returns h1 = ri_returns h" by (simp_all add: h1_def)
  have l: "lane_of q \<noteq> lane_of (ri_queue h) \<longleftrightarrow> list_ex (\<lambda>(d, k). k = HandoffAdmitted) hs"
    "\<And>e. err = Some (QueueRefused e) \<Longrightarrow> hs = []"
    using Admit_lanes [OF inv ad] by (auto simp: hs_def)
  note body = a [unfolded admit_carriage_def ad prod.case Let_def, folded hs_def h1_def]
  show ?thesis
  proof (cases err)
    case None
    define h2 where "h2 = note_admission admissionQueueSource False h1"
    obtain e ack h3 where p: "publishOutboundAck canonical secret rd dev kind bytes ''queued'' [] (qa_EnqueuedAtMS (ad_Queued admission)) h2 = (e, ack, h3)"
      by (metis prod_cases3)
    have q3: "ri_queue h3 = q" using ack_only_clock [OF p] h1 by (simp add: h2_def)
    note qt = queued_truth [OF p _ refl, where h = h and hs = hs]
    show ?thesis
    proof (cases e)
      case (Some x)
      then show ?thesis using body None p q3 l(1) qt [of h3] by (auto simp: h2_def)
    next
      case eNone: None
      show ?thesis
      proof (cases "ad_Custody admission")
        case no: None
        then show ?thesis using body None eNone p q3 l(1) qt [of "noted_device dev h3"] by (auto simp: h2_def)
      next
        case (Some custody)
        obtain e2 h4 where st: "stage_custody canonical wire decodeStrict rd dev custody h3 = (e2, h4)" by fastforce
        have q4: "ri_queue h4 = q" using stage_custody_queue [OF st] q3 by simp
        show ?thesis using body None eNone Some p st q4 l(1) qt [of h4] qt [of "noted_device dev h4"] by (cases e2) (auto simp: h2_def)
      qed
    qed
  next
    case (Some e)
    show ?thesis
    proof (cases e)
      case (QueueRefused qe)
      have hs: "hs = []" "lane_of q = lane_of (ri_queue h)" using l Some QueueRefused by auto
      show ?thesis
      proof (cases "\<exists>x. qe = QueueFull x")
        case True
        then have "refuse_carriage canonical secret rd dev kind bytes ''queue_full'' (hs @ [(dev, HandoffQueueFull)]) h1 = (out, h')"
          using body Some QueueRefused by auto
        then show ?thesis by (rule refuse_truth [OF _ h1 hs(2)]) (simp_all add: hs(1))
      next
        case False
        then show ?thesis using body Some QueueRefused hs h1 unconfigured_lanes [of dev q]
          by (cases qe) (auto intro!: failed_truth)
      qed
    qed (use body Some l(1) h1 in \<open>auto intro!: failed_truth\<close>)
  qed
qed


section \<open>What an acknowledgement promises\<close>

definition carried_artifact :: "string \<Rightarrow> (string \<times> string) option" where
  "carried_artifact payload =
     (case decode_carriage payload of None \<Rightarrow> None
      | Some c \<Rightarrow> map_option (\<lambda>bytes. (oc_ArtifactType c, bytes)) (b64_decode_strict (oc_ArtifactB64 c)))"

lemma refused_ack:
  assumes "refuse_carriage canonical secret rd dev kind bytes reason hs h = (out, h')" "oc_ack out = Some ack"
  shows "oa_Outcome ack = ''refused''"
proof -
  obtain err a h2 where p: "publishOutboundAck canonical secret rd dev kind bytes ''refused'' reason (rd_now rd) h = (err, a, h2)" by (metis prod_cases3)
  show ?thesis using assms p ack_only_clock [OF p] by (auto simp: refuse_carriage_def)
qed

lemma Handle_admits:
  assumes "Handle canonical wire decodeStrict signer secret rd topic payload h = (out, h')" "oc_ack out = Some ack" "oa_Outcome ack = ''queued''"
    and "carried_artifact payload = Some (kind, bytes)"
  obtains dev where "DeviceIDFromEvidenceOutboundTopic topic = Inr dev" "Configured dev (ri_queue h)" "recordDevice bytes = dev"
    "admit_carriage canonical wire decodeStrict signer secret rd dev kind bytes h = (out, h')"
proof -
  have no: False if "refuse_carriage canonical secret rd dev k b reason [] h = (out, h')" for dev k b reason
    using refused_ack [OF that assms(2)] assms(3) by simp
  show thesis
    using assms(1,2,4) no
    by (auto simp: Handle_def carried_artifact_def failed_def recordDevice_def Let_def split: sum.splits option.splits if_splits intro!: that)
qed

lemma stage_custody_staged:
  assumes "stage_custody canonical wire decodeStrict rd dev custody h = (None, h')" "sink_ready (rd_returns rd) 1 (ri_returns h)"
  shows "\<exists>a. aa_Type a = InboundCustodyAcknowledgement \<and> aa_DeviceID a = dev \<and> staged (ri_returns h') a
    \<and> CanonicalJSONWithoutAuth canonical (custody_json custody) = Some (aa_Payload a)"
proof -
  obtain artifact q where st: "CanonicalJSONWithoutAuth canonical (custody_json custody) = Some artifact"
    "Store decodeStrict wire \<lparr>aa_Type = InboundCustodyAcknowledgement, aa_DeviceID = dev, aa_Payload = artifact\<rparr> (rd_returns rd) (ri_returns h) = (None, q)"
    "ri_returns h' = q"
    using assms(1) by (auto simp: stage_custody_def split: option.splits prod.splits)
  have "sink_ready (rd_returns rd) (Suc 0) (ri_returns h)" using assms(2) by simp
  from Store_ready(2) [OF this st(2)] st(1,3) show ?thesis
    by (intro exI [of _ "\<lparr>aa_Type = InboundCustodyAcknowledgement, aa_DeviceID = dev, aa_Payload = artifact\<rparr>"]) simp
qed

lemma admit_queued:
  assumes "admit_carriage canonical wire decodeStrict signer secret rd dev kind bytes h = (out, h')" "oc_ack out = Some ack" "oa_Outcome ack = ''queued''"
  obtains admission q where "Admit (canon_of canonical) signer kind bytes (rd_queue rd) (ri_queue h) = (admission, None, q)"
    "ri_queue h' = q \<or> ri_queue h' = NoteAdmittedDevice dev q" "oa_DeviceID ack = dev" "oa_ArtifactType ack = kind" "oa_ArtifactDigest ack = payloadDigest bytes"
    "oa_AcknowledgedAtMS ack = qa_EnqueuedAtMS (ad_Queued admission)"
    "oc_err out = None \<and> sink_ready (rd_returns rd) 1 (ri_returns h) \<and> ad_Custody admission \<noteq> None \<longrightarrow>
       (\<exists>a. aa_Type a = InboundCustodyAcknowledgement \<and> aa_DeviceID a = dev \<and> staged (ri_returns h') a)"
proof -
  obtain admission err q where ad: "Admit (canon_of canonical) signer kind bytes (rd_queue rd) (ri_queue h) = (admission, err, q)" by (metis prod_cases3)
  define hs where "hs = (if ad_New admission then [(dev, HandoffAdmitted)] else [])"
  define h1 where "h1 = h\<lparr>ri_queue := q\<rparr>"
  define h2 where "h2 = note_admission admissionQueueSource False h1"
  note body = assms(1) [unfolded admit_carriage_def ad prod.case Let_def, folded hs_def h1_def h2_def]
  have err: "err = None"
    using body assms(2,3) refused_ack [of canonical secret rd dev kind bytes _ _ _ out h' ack]
    by (auto simp: failed_def split: option.splits courierError.splits queueError.splits)
  obtain e a h3 where p: "publishOutboundAck canonical secret rd dev kind bytes ''queued'' [] (qa_EnqueuedAtMS (ad_Queued admission)) h2 = (e, a, h3)"
    by (metis prod_cases3)
  have h3: "ri_queue h3 = q" "ri_returns h3 = ri_returns h" using ack_only_clock [OF p] by (simp_all add: h2_def h1_def)
  have out: "oc_ack out = a" using body err p by (auto split: option.splits prod.splits)
  have ack: "ack = \<lparr>oa_DeviceID = dev, oa_ArtifactType = kind, oa_ArtifactDigest = payloadDigest bytes,
          oa_Outcome = ''queued'', oa_Reason = [], oa_AcknowledgedAtMS = qa_EnqueuedAtMS (ad_Queued admission)\<rparr>"
    using ack_only_clock [OF p] out assms(2) by auto
  have q': "ri_queue h' = q \<or> ri_queue h' = NoteAdmittedDevice dev q"
    using body err p h3 by (auto simp: noted_device_def split: option.splits prod.splits dest!: stage_custody_queue)
  have staged: "\<exists>a. aa_Type a = InboundCustodyAcknowledgement \<and> aa_DeviceID a = dev \<and> staged (ri_returns h') a"
    if c: "oc_err out = None \<and> sink_ready (rd_returns rd) 1 (ri_returns h)" "ad_Custody admission \<noteq> None"
  proof -
    obtain custody where cu: "ad_Custody admission = Some custody" using c(2) by blast
    obtain h4 where "stage_custody canonical wire decodeStrict rd dev custody h3 = (None, h4)" "ri_returns h' = ri_returns h4"
      using body err p c(1) cu by (auto split: option.splits prod.splits)
    from stage_custody_staged [OF this(1)] this(2) c(1) h3(2) show ?thesis by auto
  qed
  show thesis
  proof (rule that [OF ad [unfolded err] q'])
    show "oa_DeviceID ack = dev" "oa_ArtifactType ack = kind" "oa_ArtifactDigest ack = payloadDigest bytes"
      "oa_AcknowledgedAtMS ack = qa_EnqueuedAtMS (ad_Queued admission)" by (simp_all add: ack)
  qed (use staged in blast)
qed

lemma noted_keeps:
  assumes "queue_inv q" "durable q" "fmlookup (q_entries q) i = Some r"
  shows "fmlookup (q_entries (NoteAdmittedDevice dev q)) i = Some r" "stored i r (q_disk (NoteAdmittedDevice dev q))"
proof -
  have c: "core (NoteAdmittedDevice dev q) = core q" using frame_core [OF NoteAdmittedDevice_frame] by blast
  show "fmlookup (q_entries (NoteAdmittedDevice dev q)) i = Some r" using core_eq(1) [OF c] assms(3) by simp
  have "durable (NoteAdmittedDevice dev q)"
    using durable_quiet [OF assms(1,2)] core_eq(1) [OF c] NoteAdmittedDevice_quiet [of q dev] by simp
  then show "stored i r (q_disk (NoteAdmittedDevice dev q))" using core_eq(1) [OF c] assms(3) by (simp add: durable_def)
qed


section \<open>A concrete carriage\<close>

definition sample_ingress :: RuntimeIngress where
  "sample_ingress = \<lparr>ri_queue = sample_queue, ri_returns = sample_queue, ri_clock = ack_clock 0, ri_disk = empty_disk, ri_faults = NewRecorder\<rparr>"

definition sample_readings :: readings where
  "sample_readings = \<lparr>rd_now = 1000, rd_queue = 1000, rd_returns = 1000, rd_clock = 1000, rd_taken = True\<rparr>"

definition sample_carriage :: string where
  "sample_carriage = print_json (JObj [(''device_id'', JString ''pump-1''), (''artifact_type'', JString ArtifactDeliveryEnvelope),
     (''artifact_b64'', JString (b64_encode sample_envelope))])"

definition sample_custody_text :: string where
  "sample_custody_text = print_json (JObj [(''device_id'', JStr ''pump-1'')])"

definition sample_canonical :: canonical_map where
  "sample_canonical m = Some sample_custody_text"

lemma sample_carried:
  "carried_artifact sample_carriage = Some (ArtifactDeliveryEnvelope, sample_envelope)"
  "map_option oc_DeviceID (decode_carriage sample_carriage) = Some ''pump-1''"
  by code_simp+

lemma sample_stage:
  "\<exists>h'. stage_custody sample_canonical Some (\<lambda>_ _. None) sample_readings ''pump-1'' custody (h\<lparr>ri_returns := sample_queue\<rparr>) = (None, h')"
proof -
  let ?a = "\<lparr>aa_Type = InboundCustodyAcknowledgement, aa_DeviceID = ''pump-1'', aa_Payload = sample_custody_text\<rparr>"
  have f: "sample_custody_text \<noteq> []" "length sample_custody_text \<le> 1000" "Configured (recordDevice sample_custody_text) sample_queue"
    "map_option rt_DeviceID (decodeRouting [''device_id''] sample_custody_text) = Some ''pump-1''"
    "map_option validQueueArtifactType (sinkKind InboundCustodyAcknowledgement) = Some True"
    "int (length sample_custody_text) \<le> MaxAuthorityArtifactBytes" by code_simp+
  have m: "inboundMemberRefusal (\<lambda>_ _. None) ?a = None"
    by (simp add: inboundMemberRefusal_def AdmitPayload_def admit_def Let_def definedMembers_def FamilyEvidenceInbound_def family_defs)
  obtain kind where k: "sinkKind InboundCustodyAcknowledgement = Some kind" "validQueueArtifactType kind" using f(5) by auto
  obtain z where z: "decodeRouting [''device_id''] sample_custody_text = Some z" "rt_DeviceID z = ''pump-1''" using f(4) by auto
  from sample_enqueues [OF k(2) f(1-3) refl refl]
  obtain a q' where "enqueueOrFind kind sample_custody_text 1000 sample_queue = (Inr (a, False), q')" by blast
  then have "Store (\<lambda>_ _. None) Some ?a 1000 sample_queue = (None, q')" using f(6) m k z by (simp add: Store_def)
  then show ?thesis
    by (simp add: stage_custody_def CanonicalJSONWithoutAuth_def sample_canonical_def custody_json_def sample_readings_def)
qed

lemma sample_publishes:
  "\<exists>ack clk d. publishOutboundAck sample_canonical ''secret'' sample_readings ''pump-1'' kind bytes result reason at
      (h\<lparr>ri_clock := ack_clock 0, ri_disk := empty_disk\<rparr>) = (None, Some ack, h\<lparr>ri_clock := clk, ri_disk := d\<rparr>) \<and> oa_Outcome ack = result"
proof -
  have n: "\<exists>clk d. ec_Next (ack_clock 0) 1000 empty_disk = (Inr 1000, clk, d)"
    using sample_steps(2) by (auto split: prod.splits sum.splits)
  have t: "\<not> isl (EvidenceOutboundAckTopic ''pump-1'')" "TrimSpace ''secret'' = ''secret''" by code_simp+
  show ?thesis
    using n t by (auto simp: publishOutboundAck_def sample_readings_def encodeOutboundAck_def Sign_def CanonicalJSONWithoutAuth_def sample_canonical_def
        Let_def isl_def split: sum.splits) blast
qed

lemma sample_handled:
  "\<exists>out h' ack. Handle sample_canonical Some (\<lambda>_ _. None) (Some sample_signer) ''secret'' sample_readings ''ori/pump-1/evidence/outbound'' sample_carriage sample_ingress
     = (out, h') \<and> oc_err out = None \<and> oc_ack out = Some ack \<and> oa_Outcome ack = ''queued''"
proof -
  let ?rest = "admit_carriage sample_canonical Some (\<lambda>_ _. None) (Some sample_signer) ''secret'' sample_readings ''pump-1'' ArtifactDeliveryEnvelope sample_envelope sample_ingress"
  have t: "DeviceIDFromEvidenceOutboundTopic ''ori/pump-1/evidence/outbound'' = Inr ''pump-1''" "sample_envelope \<noteq> []" "TrimSpace ''pump-1'' \<noteq> []"
    "map_option rt_DeviceID (decodeRouting [''device_id''] sample_envelope) = Some ''pump-1''"
    "validateArtifactRoutingFields ArtifactDeliveryEnvelope sample_envelope (RoutingDeviceID sample_queue) = None" by code_simp+
  have dev: "Configured ''pump-1'' sample_queue"
    using sample_queue_facts(11) t(4) by (auto simp: recordDevice_def)
  obtain c where c: "decode_carriage sample_carriage = Some c" "oc_DeviceID c = ''pump-1''" "oc_ArtifactType c = ArtifactDeliveryEnvelope"
    "b64_decode_strict (oc_ArtifactB64 c) = Some sample_envelope"
    using sample_carried by (auto simp: carried_artifact_def split: option.splits)
  obtain z where z: "decodeRouting [''device_id''] sample_envelope = Some z" "rt_DeviceID z = ''pump-1''" using t(4) by auto
  have h: "Handle sample_canonical Some (\<lambda>_ _. None) (Some sample_signer) ''secret'' sample_readings ''ori/pump-1/evidence/outbound'' sample_carriage sample_ingress = ?rest"
    using t dev c z by (simp add: Handle_def sample_ingress_def)
  obtain custody pre where "Acknowledge (canon_of sample_canonical) (Some sample_signer) ''pump-1'' 7 (payloadDigest sample_envelope) 1000 = Inr (custody, pre)"
    using t(3) payloadDigest_valid by (simp add: Acknowledge_def custodyPreimage_def custodyCanonicalBody_def d011Integer_def
        canon_of_def sample_canonical_def MaxSafeInteger_def Version_def Let_def)
  from sample_admits [OF this] obtain q where q: "Admit (canon_of sample_canonical) (Some sample_signer) ArtifactDeliveryEnvelope sample_envelope 1000 sample_queue =
     (\<lparr>ad_Queued = recordArtifact sample_record, ad_Custody = Some custody, ad_New = True\<rparr>, None, q)" by blast
  define h1 where "h1 = note_admission admissionQueueSource False (sample_ingress\<lparr>ri_queue := q\<rparr>)"
  have h1: "h1\<lparr>ri_clock := ack_clock 0, ri_disk := empty_disk\<rparr> = h1" "ri_returns h1 = sample_queue"
    by (simp_all add: h1_def note_admission_def sample_ingress_def)
  obtain ack clk d where p: "publishOutboundAck sample_canonical ''secret'' sample_readings ''pump-1'' ArtifactDeliveryEnvelope sample_envelope ''queued'' []
      (qa_EnqueuedAtMS (recordArtifact sample_record)) h1 = (None, Some ack, h1\<lparr>ri_clock := clk, ri_disk := d\<rparr>)" "oa_Outcome ack = ''queued''"
    using sample_publishes [of ArtifactDeliveryEnvelope sample_envelope "''queued''" "[]" _ h1] unfolding h1(1) by blast
  define h2 where "h2 = h1\<lparr>ri_clock := clk, ri_disk := d\<rparr>"
  have "h2\<lparr>ri_returns := sample_queue\<rparr> = h2" using h1(2) by (simp add: h2_def)
  then obtain h3 where "stage_custody sample_canonical Some (\<lambda>_ _. None) sample_readings ''pump-1'' custody h2 = (None, h3)"
    using sample_stage [of custody h2] by auto
  then have "?rest = (\<lparr>oc_err = None, oc_ack = Some ack, oc_handoffs = [(''pump-1'', HandoffAdmitted)], oc_notify = True\<rparr>, noted_device ''pump-1'' h3)"
    using q p(1) unfolding admit_carriage_def h1_def h2_def by (simp add: sample_readings_def sample_ingress_def Let_def)
  then show ?thesis using h p(2) by simp
qed



end
