(* ===== verification/Site.thy ===== *)
theory Site
  imports Contracts
begin

text \<open>
  The site registry and its projection, \<open>internal/site\<close>: the severities and the vocabulary of \<open>degradation.go\<close>, the evidence
  memory of \<open>evidence.go\<close>, the registry of \<open>site.go\<close> and the projection of \<open>health.go\<close> that \<open>healthhandler.go\<close> serves.

  The two clock readings are arguments: \<open>wall\<close> in milliseconds, \<open>tick\<close> in nanoseconds since the registry was made. The
  parts of a posture but its severity are carried unread, so their type is a parameter; so is the rest of the gateway view. A Go
  map is read in any order, so what an eviction returns is a map of the devices it concerns. Copies of what the registry
  holds are the values themselves.
\<close>

section \<open>Severities\<close>

definition severityHealthy :: int where "severityHealthy = 0"
definition severityDegraded :: int where "severityDegraded = 1"
definition severityCritical :: int where "severityCritical = 2"

definition NodeStatusHealthy :: string where "NodeStatusHealthy = ''healthy''"
definition NodeStatusDegraded :: string where "NodeStatusDegraded = ''degraded''"
definition NodeStatusCritical :: string where "NodeStatusCritical = ''critical''"

definition statusSeverity :: "string \<Rightarrow> int option" where
  "statusSeverity status =
     (if status = NodeStatusHealthy then Some severityHealthy
      else if status = NodeStatusDegraded then Some severityDegraded
      else if status = NodeStatusCritical then Some severityCritical
      else None)"

definition ExportSeverityOK :: string where "ExportSeverityOK = ''ok''"
definition ExportSeverityDegraded :: string where "ExportSeverityDegraded = ''degraded''"
definition ExportSeverityCritical :: string where "ExportSeverityCritical = ''critical''"
definition ExportSeverityUnknown :: string where "ExportSeverityUnknown = ''unknown''"

definition exportSeverityFloor :: "string \<Rightarrow> int" where
  "exportSeverityFloor severity =
     (if severity = [] \<or> severity = ExportSeverityOK then severityHealthy
      else if severity = ExportSeverityCritical then severityCritical
      else severityDegraded)"

definition projectedSeverity :: "string \<Rightarrow> int" where
  "projectedSeverity status = (case statusSeverity status of Some sev \<Rightarrow> sev | None \<Rightarrow> severityDegraded)"

definition siteStatusName :: "int \<Rightarrow> string" where
  "siteStatusName severity =
     (if severity = severityHealthy then ''healthy'' else if severity = severityDegraded then ''degraded'' else ''critical'')"

lemmas severity_defs = severityHealthy_def severityDegraded_def severityCritical_def
lemmas node_status_defs = NodeStatusHealthy_def NodeStatusDegraded_def NodeStatusCritical_def
lemmas export_severity_defs = ExportSeverityOK_def ExportSeverityDegraded_def ExportSeverityCritical_def ExportSeverityUnknown_def

section \<open>Evidence memory\<close>

record NodeEvidence =
  ne_ChainHeadHash :: string
  ne_AttestationGapCount :: int
  ne_Available :: bool
  ne_ActionEventType :: string
  ne_TruncationSuspected :: bool
  ne_HeadRegressed :: bool

definition evidenceHeadHistorySize :: nat where "evidenceHeadHistorySize = 16"

record evidenceTrack =
  et_recentHeads :: "string list"
  et_truncationSuspected :: bool
  et_headRegressed :: bool

definition no_track :: evidenceTrack where
  "no_track = \<lparr>et_recentHeads = [], et_truncationSuspected = False, et_headRegressed = False\<rparr>"

definition currentHead :: "evidenceTrack \<Rightarrow> string" where
  "currentHead t = (if et_recentHeads t = [] then [] else last (et_recentHeads t))"

definition sawHeadBeforeCurrent :: "string \<Rightarrow> evidenceTrack \<Rightarrow> bool" where
  "sawHeadBeforeCurrent head t \<longleftrightarrow> length (et_recentHeads t) \<ge> 2 \<and> head \<in> set (butlast (et_recentHeads t))"

definition recordHead :: "string \<Rightarrow> evidenceTrack \<Rightarrow> evidenceTrack" where
  "recordHead head t =
     (let heads = et_recentHeads t @ [head]
      in t\<lparr>et_recentHeads := (if length heads > evidenceHeadHistorySize then drop (length heads - evidenceHeadHistorySize) heads else heads)\<rparr>)"

definition observeMissing :: "evidenceTrack \<Rightarrow> NodeEvidence" where
  "observeMissing t =
     \<lparr>ne_ChainHeadHash = currentHead t, ne_AttestationGapCount = 0, ne_Available = False, ne_ActionEventType = [],
      ne_TruncationSuspected = et_truncationSuspected t, ne_HeadRegressed = et_headRegressed t\<rparr>"

definition observe :: "NodeEvidence \<Rightarrow> evidenceTrack \<Rightarrow> NodeEvidence \<times> evidenceTrack" where
  "observe reported t =
     (let head = ne_ChainHeadHash reported;
          t' = (if head = [] then (if currentHead t \<noteq> [] then t\<lparr>et_truncationSuspected := True\<rparr> else t)
                else if head \<noteq> currentHead t
                then recordHead head (if sawHeadBeforeCurrent head t then t\<lparr>et_headRegressed := True\<rparr> else t)
                else t)
      in (reported\<lparr>ne_TruncationSuspected := et_truncationSuspected t', ne_HeadRegressed := et_headRegressed t'\<rparr>, t'))"

section \<open>The registry\<close>

record 'p SiteNodePosture =
  ps_ExportSeverity :: string
  ps_parts :: 'p

record 'p NodeHeartbeat =
  nh_DeviceID :: string
  nh_Status :: string
  nh_LastSeenMS :: int
  nh_GatewaySeen :: int
  nh_ActiveTriggers :: "string list"
  nh_DegradationReasons :: "string list option"
  nh_Posture :: "'p SiteNodePosture option"
  nh_Evidence :: "NodeEvidence option"
  nh_ExportSeverity :: string
  nh_receivedMono :: int
  nh_advancedMono :: int

record 'p Registry =
  rg_nodes :: "(string, 'p NodeHeartbeat) fmap"
  rg_evidence :: "(string, evidenceTrack) fmap"
  rg_exportSeverity :: "(string, string) fmap"
  rg_silentCritical :: "string fset"

definition newRegistry :: "'p Registry" where
  "newRegistry = \<lparr>rg_nodes = fmempty, rg_evidence = fmempty, rg_exportSeverity = fmempty, rg_silentCritical = {||}\<rparr>"

text \<open>What becomes of the evidence of a heartbeat.\<close>

definition track_evidence ::
  "string \<Rightarrow> NodeEvidence option \<Rightarrow> (string, evidenceTrack) fmap \<Rightarrow> NodeEvidence option \<times> (string, evidenceTrack) fmap" where
  "track_evidence dev reported tracks =
     (case reported of
        Some e \<Rightarrow> (case observe e (fmget no_track tracks dev) of (enriched, t) \<Rightarrow> (Some enriched, fmupd dev t tracks))
      | None \<Rightarrow> (case fmlookup tracks dev of Some t \<Rightarrow> (Some (observeMissing t), tracks) | None \<Rightarrow> (None, tracks)))"

definition Upsert :: "int \<Rightarrow> int \<Rightarrow> 'p NodeHeartbeat \<Rightarrow> 'p Registry \<Rightarrow> 'p Registry" where
  "Upsert wall tick hb r =
     (let dev = nh_DeviceID hb;
          advanced = (case fmlookup (rg_nodes r) dev of
             Some previous \<Rightarrow> if nh_LastSeenMS hb \<le> nh_LastSeenMS previous then nh_advancedMono previous else tick
           | None \<Rightarrow> tick);
          (evidence, tracks) = track_evidence dev (nh_Evidence hb) (rg_evidence r);
          hb' = hb\<lparr>nh_GatewaySeen := wall, nh_receivedMono := tick, nh_advancedMono := advanced, nh_Evidence := evidence,
                  nh_ExportSeverity := fmget [] (rg_exportSeverity r) dev\<rparr>
      in r\<lparr>rg_nodes := fmupd dev hb' (rg_nodes r), rg_evidence := tracks, rg_silentCritical := rg_silentCritical r |-| {|dev|}\<rparr>)"

definition snapshotWithExportSeverity :: "'p Registry \<Rightarrow> (string, 'p NodeHeartbeat) fmap \<times> (string, string) fmap" where
  "snapshotWithExportSeverity r = (rg_nodes r, fmfilter (\<lambda>dev. fmget [] (rg_exportSeverity r) dev \<noteq> []) (rg_exportSeverity r))"

definition UpsertPosture :: "string \<Rightarrow> 'p SiteNodePosture \<Rightarrow> 'p Registry \<Rightarrow> 'p Registry" where
  "UpsertPosture dev posture r0 =
     (let r = (if ps_ExportSeverity posture \<noteq> [] then r0\<lparr>rg_exportSeverity := fmupd dev (ps_ExportSeverity posture) (rg_exportSeverity r0)\<rparr> else r0)
      in case fmlookup (rg_nodes r) dev of
           None \<Rightarrow> r
         | Some hb \<Rightarrow>
             r\<lparr>rg_nodes := fmupd dev (hb\<lparr>nh_ExportSeverity := fmget [] (rg_exportSeverity r) dev, nh_Posture := Some posture\<rparr>) (rg_nodes r)\<rparr>)"

definition receiptStale :: "'p NodeHeartbeat \<Rightarrow> int \<Rightarrow> int \<Rightarrow> bool" where
  "receiptStale hb now ttl \<longleftrightarrow> wrap64 (now - nh_receivedMono hb) > ttl"

definition reportStale :: "'p NodeHeartbeat \<Rightarrow> int \<Rightarrow> int \<Rightarrow> bool" where
  "reportStale hb now ttl \<longleftrightarrow> wrap64 (now - nh_advancedMono hb) > ttl"

definition kept_critical :: "'p NodeHeartbeat \<Rightarrow> bool" where
  "kept_critical hb \<longleftrightarrow> nh_Status hb = NodeStatusCritical \<or> nh_ExportSeverity hb = ExportSeverityCritical"

definition nodes_where :: "('p NodeHeartbeat \<Rightarrow> bool) \<Rightarrow> 'p Registry \<Rightarrow> (string, 'p NodeHeartbeat) fmap" where
  "nodes_where p r = fmfilter (\<lambda>dev. case fmlookup (rg_nodes r) dev of None \<Rightarrow> False | Some hb \<Rightarrow> p hb) (rg_nodes r)"

definition EvictStaleRetainingCritical ::
  "int \<Rightarrow> int \<Rightarrow> 'p Registry \<Rightarrow> (string, 'p NodeHeartbeat) fmap \<times> (string, 'p NodeHeartbeat) fmap \<times> 'p Registry" where
  "EvictStaleRetainingCritical ttl now r =
     (let silent = nodes_where (\<lambda>hb. receiptStale hb now ttl) r;
          evicted = nodes_where (\<lambda>hb. receiptStale hb now ttl \<and> \<not> kept_critical hb) r;
          retained = fmfilter (\<lambda>dev. dev |\<notin>| rg_silentCritical r) (nodes_where (\<lambda>hb. receiptStale hb now ttl \<and> kept_critical hb) r)
      in (evicted, retained,
          r\<lparr>rg_nodes := fmdrop_fset (fmdom evicted) (rg_nodes r), rg_evidence := fmdrop_fset (fmdom evicted) (rg_evidence r),
            rg_silentCritical := rg_silentCritical r |\<union>| fmdom retained\<rparr>))"

definition EvictStale :: "int \<Rightarrow> int \<Rightarrow> 'p Registry \<Rightarrow> (string, 'p NodeHeartbeat) fmap \<times> 'p Registry" where
  "EvictStale ttl now r = (case EvictStaleRetainingCritical ttl now r of (evicted, _, r') \<Rightarrow> (evicted, r'))"

section \<open>The projection\<close>

record 'p SiteNode =
  sn_DeviceID :: string
  sn_Status :: string
  sn_LastSeenMS :: int
  sn_GatewayObserved :: bool
  sn_Stale :: bool
  sn_ActiveTriggerCount :: nat
  sn_DegradationReasons :: "string list option"
  sn_Posture :: "'p SiteNodePosture option"
  sn_Evidence :: "NodeEvidence option"

record MQTTIngressCount =
  mi_PayloadTooLarge :: int
  mi_VolumeDropped :: int

record GatewayEvidenceDeliveryView =
  ed_Degraded :: bool
  ed_Blocked :: bool

record 'g GatewayView =
  gv_Status :: string
  gv_EvidenceDelivery :: "GatewayEvidenceDeliveryView option"
  gv_MQTTIngress :: "(string, MQTTIngressCount) fmap"
  gv_rest :: 'g

record ('p, 'g) SiteHealth =
  sh_GeneratedAtMS :: int
  sh_Status :: string
  sh_Nodes :: "'p SiteNode list"
  sh_Gateway :: "'g GatewayView"

definition NodeTTL :: int where "NodeTTL = 90000000000"

definition evidence_problem :: "NodeEvidence option \<Rightarrow> bool" where
  "evidence_problem e \<longleftrightarrow>
     (case e of None \<Rightarrow> False | Some e \<Rightarrow> ne_TruncationSuspected e \<or> ne_HeadRegressed e \<or> \<not> ne_Available e)"

definition project_node :: "int \<Rightarrow> int \<Rightarrow> (string, 'p NodeHeartbeat) fmap \<Rightarrow> (string, string) fmap \<Rightarrow> string \<Rightarrow> 'p SiteNode" where
  "project_node ttl now observed severity dev =
     (case fmlookup observed dev of
        None \<Rightarrow>
          \<lparr>sn_DeviceID = dev, sn_Status = siteStatusName (max severityDegraded (exportSeverityFloor (fmget [] severity dev))),
           sn_LastSeenMS = 0, sn_GatewayObserved = False, sn_Stale = True, sn_ActiveTriggerCount = 0, sn_DegradationReasons = None,
           sn_Posture = None, sn_Evidence = None\<rparr>
      | Some n \<Rightarrow>
          let stale = reportStale n now ttl;
              s1 = projectedSeverity (nh_Status n);
              s2 = (if stale then max s1 severityDegraded else s1);
              s3 = max s2 (exportSeverityFloor (nh_ExportSeverity n));
              s4 = (if evidence_problem (nh_Evidence n) then max s3 severityDegraded else s3)
          in \<lparr>sn_DeviceID = dev, sn_Status = siteStatusName s4, sn_LastSeenMS = nh_LastSeenMS n, sn_GatewayObserved = True,
              sn_Stale = stale, sn_ActiveTriggerCount = length (nh_ActiveTriggers n), sn_DegradationReasons = nh_DegradationReasons n,
              sn_Posture = nh_Posture n, sn_Evidence = nh_Evidence n\<rparr>)"

definition delivery_severity :: "'g GatewayView \<Rightarrow> int" where
  "delivery_severity gateway =
     (let status = projectedSeverity (gv_Status gateway)
      in case gv_EvidenceDelivery gateway of
           Some d \<Rightarrow> if ed_Degraded d \<or> ed_Blocked d then max status severityDegraded else status
         | None \<Rightarrow> status)"

definition no_count :: MQTTIngressCount where "no_count = \<lparr>mi_PayloadTooLarge = 0, mi_VolumeDropped = 0\<rparr>"

definition Project :: "string list \<Rightarrow> int \<Rightarrow> int \<Rightarrow> int \<Rightarrow> 'g GatewayView \<Rightarrow> 'p Registry \<Rightarrow> ('p, 'g) SiteHealth" where
  "Project expected ttl nowMS tick gateway r =
     (case snapshotWithExportSeverity r of (observed, severity) \<Rightarrow>
        let nodes = map (project_node ttl tick observed severity) expected;
            status = fold (\<lambda>n s. max s (projectedSeverity (sn_Status n))) nodes (delivery_severity gateway);
            ingress = fmap_of_list (map (\<lambda>family. (family, fmget no_count (gv_MQTTIngress gateway) family)) ReceivedFamilies)
        in \<lparr>sh_GeneratedAtMS = nowMS, sh_Status = siteStatusName status, sh_Nodes = nodes,
            sh_Gateway = gateway\<lparr>gv_MQTTIngress := ingress\<rparr>\<rparr>)"

datatype 'h healthAnswer = HealthNotFound | HealthMethodNotAllowed | HealthServed 'h

definition ServeHTTP :: "string \<Rightarrow> string \<Rightarrow> 'h \<Rightarrow> 'h healthAnswer" where
  "ServeHTTP path verb projection =
     (if path \<noteq> ''/health'' then HealthNotFound else if verb \<noteq> ''GET'' then HealthMethodNotAllowed else HealthServed projection)"

section \<open>What the evidence memory suspects\<close>

definition track_run :: "NodeEvidence list \<Rightarrow> evidenceTrack" where
  "track_run es = fold (\<lambda>e t. snd (observe e t)) es no_track"

text \<open>The heads a chain moved through: the reported heads without the empty ones and without repetitions of the head before.\<close>

definition head_moves :: "NodeEvidence list \<Rightarrow> string list" where
  "head_moves es = remdups_adj (filter (\<lambda>h. h \<noteq> []) (map ne_ChainHeadHash es))"

definition truncated :: "NodeEvidence list \<Rightarrow> bool" where
  "truncated es \<longleftrightarrow>
     (\<exists>before e after. es = before @ e # after \<and> ne_ChainHeadHash e = [] \<and> list_ex (\<lambda>f. ne_ChainHeadHash f \<noteq> []) before)"

definition rolled_back :: "NodeEvidence list \<Rightarrow> bool" where
  "rolled_back es \<longleftrightarrow>
     (\<exists>before h after. head_moves es = before @ h # after \<and> h \<in> set (drop (length before - evidenceHeadHistorySize) before))"

lemma remdups_adj_snoc:
  "remdups_adj (xs @ [x]) = (if xs \<noteq> [] \<and> last xs = x then remdups_adj xs else remdups_adj xs @ [x])"
  by (induction xs rule: remdups_adj.induct) auto

lemma head_moves_snoc:
  "head_moves (es @ [e]) =
     (if ne_ChainHeadHash e = [] \<or> head_moves es \<noteq> [] \<and> last (head_moves es) = ne_ChainHeadHash e then head_moves es
      else head_moves es @ [ne_ChainHeadHash e])"
  by (auto simp: head_moves_def remdups_adj_snoc)

lemma head_moves_adjacent: "Suc i < length (head_moves es) \<Longrightarrow> head_moves es ! i \<noteq> head_moves es ! Suc i"
  unfolding head_moves_def by (rule remdups_adj_adjacent)

lemma truncated_snoc:
  "truncated (es @ [e]) \<longleftrightarrow> truncated es \<or> ne_ChainHeadHash e = [] \<and> head_moves es \<noteq> []"
proof -
  have ms: "head_moves es \<noteq> [] \<longleftrightarrow> list_ex (\<lambda>f. ne_ChainHeadHash f \<noteq> []) es"
    by (simp add: head_moves_def filter_empty_conv list_ex_iff)
  show ?thesis
  proof
    assume "truncated (es @ [e])"
    then obtain before f after where f: "es @ [e] = before @ f # after" "ne_ChainHeadHash f = []" "list_ex (\<lambda>f. ne_ChainHeadHash f \<noteq> []) before"
      unfolding truncated_def by blast
    show "truncated es \<or> ne_ChainHeadHash e = [] \<and> head_moves es \<noteq> []"
    proof (cases after rule: rev_cases)
      case Nil
      then show ?thesis using f ms by simp
    next
      case (snoc ys y)
      then have "es = before @ f # ys" using f(1) by simp
      then show ?thesis using f(2,3) unfolding truncated_def by blast
    qed
  next
    assume "truncated es \<or> ne_ChainHeadHash e = [] \<and> head_moves es \<noteq> []"
    then show "truncated (es @ [e])"
    proof
      assume "truncated es"
      then show ?thesis unfolding truncated_def by (metis append.assoc append_Cons)
    next
      assume "ne_ChainHeadHash e = [] \<and> head_moves es \<noteq> []"
      then show ?thesis unfolding truncated_def using ms by blast
    qed
  qed
qed

lemma rolled_back_snoc:
  assumes "head_moves (es @ [e]) = head_moves es @ [h]"
  shows "rolled_back (es @ [e]) \<longleftrightarrow> rolled_back es \<or> h \<in> set (drop (length (head_moves es) - evidenceHeadHistorySize) (head_moves es))"
    (is "_ \<longleftrightarrow> _ \<or> ?new")
proof
  assume "rolled_back (es @ [e])"
  then obtain before k after where k: "head_moves es @ [h] = before @ k # after" "k \<in> set (drop (length before - evidenceHeadHistorySize) before)"
    unfolding rolled_back_def assms by blast
  show "rolled_back es \<or> ?new"
  proof (cases after rule: rev_cases)
    case Nil
    then show ?thesis using k by simp
  next
    case (snoc ys y)
    then have "head_moves es = before @ k # ys" using k(1) by simp
    then show ?thesis using k(2) unfolding rolled_back_def by blast
  qed
next
  assume "rolled_back es \<or> ?new"
  then show "rolled_back (es @ [e])"
  proof
    assume "rolled_back es"
    then show ?thesis unfolding rolled_back_def assms by (metis append.assoc append_Cons)
  next
    assume ?new
    then show ?thesis unfolding rolled_back_def assms by blast
  qed
qed

lemma recent_last:
  assumes "xs \<noteq> []" "0 < n"
  shows "drop (length xs - n) xs \<noteq> []" "last (drop (length xs - n) xs) = last xs"
proof -
  have "length xs - n < length xs" using assms by (simp add: diff_less)
  then show "drop (length xs - n) xs \<noteq> []" "last (drop (length xs - n) xs) = last xs" by auto
qed

lemma in_recent:
  assumes "xs \<noteq> []" "last xs \<noteq> h" "0 < n"
  shows "h \<in> set (butlast (drop (length xs - n) xs)) \<longleftrightarrow> h \<in> set (drop (length xs - n) xs)"
proof (cases "drop (length xs - n) xs" rule: rev_cases)
  case (snoc ys y)
  have "y = last xs" using recent_last(2) [OF assms(1,3)] unfolding snoc by simp
  then show ?thesis using snoc assms(2) by auto
qed simp

lemma track_run_recent: "et_recentHeads (track_run es) = drop (length (head_moves es) - evidenceHeadHistorySize) (head_moves es)"
proof (induction es rule: rev_induct)
  case Nil
  then show ?case by (simp add: track_run_def no_track_def head_moves_def)
next
  case (snoc e es)
  let ?t = "track_run es" and ?ms = "head_moves es" and ?h = "ne_ChainHeadHash e"
  have cur: "currentHead ?t = (if ?ms = [] then [] else last ?ms)"
    using snoc recent_last [of ?ms 16] by (auto simp: currentHead_def evidenceHeadHistorySize_def)
  have "track_run (es @ [e]) = snd (observe e ?t)" by (simp add: track_run_def)
  moreover have "et_recentHeads (snd (observe e ?t)) =
      (if ?h = [] \<or> ?h = currentHead ?t then et_recentHeads ?t
       else drop (length (et_recentHeads ?t) + 1 - 16) (et_recentHeads ?t @ [?h]))"
    by (simp add: observe_def recordHead_def Let_def evidenceHeadHistorySize_def)
  moreover have "drop (length (drop (length ?ms - 16) ?ms) + 1 - 16) (drop (length ?ms - 16) ?ms @ [?h]) = drop (length (?ms @ [?h]) - 16) (?ms @ [?h])"
  proof (cases "length ?ms \<ge> 16")
    case True
    then obtain k where "length ?ms = k + 16" by (metis add.commute le_Suc_ex)
    then show ?thesis by simp
  qed simp
  ultimately show ?case
    using snoc cur by (simp add: head_moves_snoc evidenceHeadHistorySize_def)
qed

lemma currentHead_run: "currentHead (track_run es) = (if head_moves es = [] then [] else last (head_moves es))"
  using recent_last [of "head_moves es" 16] by (auto simp: currentHead_def track_run_recent evidenceHeadHistorySize_def)

text \<open>The evidence memory suspects exactly what the reported heads show. Over any heartbeats that carry evidence, the truncation
  flag is set exactly when an empty chain was reported after a chain with a head; and the regression flag exactly when the
  chain moved to a head it had held within its last sixteen moves and had left. Both flags stay set whatever is reported later.\<close>

theorem evidence_suspicion_exact:
  "(et_truncationSuspected (track_run es) \<longleftrightarrow> truncated es) \<and> (et_headRegressed (track_run es) \<longleftrightarrow> rolled_back es)"
proof (induction es rule: rev_induct)
  case Nil
  then show ?case by (simp add: track_run_def no_track_def truncated_def rolled_back_def head_moves_def)
next
  case (snoc e es)
  let ?t = "track_run es" and ?ms = "head_moves es" and ?h = "ne_ChainHeadHash e"
  have step: "track_run (es @ [e]) = snd (observe e ?t)" by (simp add: track_run_def)
  have t: "et_truncationSuspected (snd (observe e ?t)) \<longleftrightarrow> et_truncationSuspected ?t \<or> ?h = [] \<and> currentHead ?t \<noteq> []"
    "et_headRegressed (snd (observe e ?t)) \<longleftrightarrow> et_headRegressed ?t \<or> ?h \<noteq> [] \<and> ?h \<noteq> currentHead ?t \<and> sawHeadBeforeCurrent ?h ?t"
    by (simp_all add: observe_def recordHead_def Let_def)
  have ne: "last ?ms \<noteq> []" if "?ms \<noteq> []"
  proof -
    have "last ?ms \<in> set ?ms" using that by simp
    then show ?thesis by (auto simp: head_moves_def)
  qed
  have "et_truncationSuspected (track_run (es @ [e])) \<longleftrightarrow> truncated (es @ [e])"
    unfolding step t(1) truncated_snoc currentHead_run using snoc.IH ne by auto
  moreover have "et_headRegressed (track_run (es @ [e])) \<longleftrightarrow> rolled_back (es @ [e])"
  proof (cases "?h = [] \<or> ?ms \<noteq> [] \<and> last ?ms = ?h")
    case True
    then have "head_moves (es @ [e]) = ?ms" by (auto simp: head_moves_snoc)
    then have "rolled_back (es @ [e]) \<longleftrightarrow> rolled_back es" by (simp add: rolled_back_def)
    then show ?thesis unfolding step t(2) currentHead_run using snoc.IH True by auto
  next
    case False
    then have m: "head_moves (es @ [e]) = ?ms @ [?h]" by (auto simp: head_moves_snoc)
    have "sawHeadBeforeCurrent ?h ?t \<longleftrightarrow> ?h \<in> set (drop (length ?ms - evidenceHeadHistorySize) ?ms)"
    proof (cases "?ms = []")
      case True
      then show ?thesis by (simp add: sawHeadBeforeCurrent_def track_run_recent)
    next
      case ms: False
      have two: "length xs \<ge> 2" if "x \<in> set (butlast xs)" for x and xs :: "string list" using that by (cases xs rule: rev_cases) (auto simp: Suc_le_eq)
      have "last ?ms \<noteq> ?h" "0 < evidenceHeadHistorySize" using False ms by (auto simp: evidenceHeadHistorySize_def)
      from in_recent [OF ms this] show ?thesis
        unfolding sawHeadBeforeCurrent_def track_run_recent using two by blast
    qed
    then show ?thesis unfolding step t(2) currentHead_run rolled_back_snoc [OF m] using snoc.IH False by auto
  qed
  ultimately show ?case ..
qed

section \<open>Runs of the registry\<close>

datatype 'p siteEvent = Beat int int "'p NodeHeartbeat" | Export string "'p SiteNodePosture" | Sweep int int

fun site_step :: "'p siteEvent \<Rightarrow> 'p Registry \<Rightarrow> 'p Registry" where
  "site_step (Beat wall tick hb) r = Upsert wall tick hb r"
| "site_step (Export dev posture) r = UpsertPosture dev posture r"
| "site_step (Sweep ttl tick) r = snd (EvictStale ttl tick r)"

definition site_run :: "'p siteEvent list \<Rightarrow> 'p Registry" where
  "site_run es = fold site_step es newRegistry"

text \<open>What the run last said of a device: its last heartbeat, and the severity its health export last read.\<close>

fun beat_of :: "string \<Rightarrow> 'p siteEvent \<Rightarrow> 'p NodeHeartbeat option" where
  "beat_of dev (Beat wall tick hb) = (if nh_DeviceID hb = dev then Some hb else None)"
| "beat_of dev _ = None"

fun reading_of :: "string \<Rightarrow> 'p siteEvent \<Rightarrow> string option" where
  "reading_of dev (Export d posture) = (if d = dev \<and> ps_ExportSeverity posture \<noteq> [] then Some (ps_ExportSeverity posture) else None)"
| "reading_of dev _ = None"

definition last_of :: "('e \<Rightarrow> 'a option) \<Rightarrow> 'e list \<Rightarrow> 'a option" where
  "last_of f es = fold (\<lambda>e a. case f e of None \<Rightarrow> a | Some b \<Rightarrow> Some b) es None"

definition last_reading :: "string \<Rightarrow> 'p siteEvent list \<Rightarrow> string" where
  "last_reading dev es = (case last_of (reading_of dev) es of None \<Rightarrow> [] | Some s \<Rightarrow> s)"

definition beat_ticks :: "string \<Rightarrow> 'p siteEvent list \<Rightarrow> int set" where
  "beat_ticks dev es = {tick. \<exists>wall hb. Beat wall tick hb \<in> set es \<and> nh_DeviceID hb = dev}"

lemma last_of_simps [simp]:
  "last_of f [] = None" "last_of f (es @ [e]) = (case f e of None \<Rightarrow> last_of f es | Some b \<Rightarrow> Some b)"
  by (simp_all add: last_of_def cong: option.case_cong)

lemma last_reading_simps [simp]:
  "last_reading dev [] = []" "last_reading dev (es @ [e]) = (case reading_of dev e of None \<Rightarrow> last_reading dev es | Some s \<Rightarrow> s)"
  by (simp_all add: last_reading_def split: option.splits)

lemma beat_ticks_snoc:
  "beat_ticks dev es \<subseteq> beat_ticks dev (es @ [e])"
  "e = Beat wall tick hb \<Longrightarrow> nh_DeviceID hb = dev \<Longrightarrow> tick \<in> beat_ticks dev (es @ [e])"
  by (auto simp: beat_ticks_def)

text \<open>What a node's record owes to the run.\<close>

definition record_of :: "string \<Rightarrow> 'p siteEvent list \<Rightarrow> 'p NodeHeartbeat \<Rightarrow> bool" where
  "record_of dev es n \<longleftrightarrow> nh_ExportSeverity n = last_reading dev es \<and> nh_advancedMono n \<in> beat_ticks dev es
     \<and> (\<exists>hb. last_of (beat_of dev) es = Some hb \<and> nh_Status n = nh_Status hb
         \<and> (\<forall>e. nh_Evidence hb = Some e \<longrightarrow> (\<exists>e'. nh_Evidence n = Some e' \<and> ne_Available e' = ne_Available e)))"

definition site_inv :: "'p siteEvent list \<Rightarrow> 'p Registry \<Rightarrow> bool" where
  "site_inv es r \<longleftrightarrow>
     (\<forall>dev. fmget [] (rg_exportSeverity r) dev = last_reading dev es)
     \<and> (\<forall>dev n. fmlookup (rg_nodes r) dev = Some n \<longrightarrow> record_of dev es n)
     \<and> (\<forall>dev hb. last_of (beat_of dev) es = Some hb \<and> nh_Status hb = NodeStatusCritical \<longrightarrow> fmlookup (rg_nodes r) dev \<noteq> None)"

lemma site_invD:
  assumes "site_inv es r"
  shows "fmget [] (rg_exportSeverity r) dev = last_reading dev es" "fmlookup (rg_nodes r) dev = Some n \<Longrightarrow> record_of dev es n"
    "last_of (beat_of dev) es = Some hb \<Longrightarrow> nh_Status hb = NodeStatusCritical \<Longrightarrow> fmlookup (rg_nodes r) dev \<noteq> None"
  using assms by (auto simp: site_inv_def)

lemma site_invI:
  assumes "\<And>dev. fmget [] (rg_exportSeverity r) dev = last_reading dev es" "\<And>dev n. fmlookup (rg_nodes r) dev = Some n \<Longrightarrow> record_of dev es n"
    "\<And>dev hb. last_of (beat_of dev) es = Some hb \<Longrightarrow> nh_Status hb = NodeStatusCritical \<Longrightarrow> fmlookup (rg_nodes r) dev \<noteq> None"
  shows "site_inv es r"
  using assms by (auto simp: site_inv_def)

lemma record_other:
  assumes "record_of dev es n" "beat_of dev e = None" "reading_of dev e = None"
  shows "record_of dev (es @ [e]) n"
  using assms beat_ticks_snoc(1) [of dev es e] by (auto simp: record_of_def)

lemma track_available:
  "track_evidence dev (Some e) tracks = (ev, tracks') \<Longrightarrow> \<exists>e'. ev = Some e' \<and> ne_Available e' = ne_Available e"
  by (auto simp: track_evidence_def observe_def Let_def split: prod.splits)

lemma Upsert_inv:
  assumes "site_inv es r"
  shows "site_inv (es @ [Beat wall tick hb]) (Upsert wall tick hb r)"
proof -
  let ?dev = "nh_DeviceID hb" and ?e = "Beat wall tick hb"
  obtain ev tracks where t: "track_evidence ?dev (nh_Evidence hb) (rg_evidence r) = (ev, tracks)" by fastforce
  define adv where "adv = (case fmlookup (rg_nodes r) ?dev of
      Some previous \<Rightarrow> if nh_LastSeenMS hb \<le> nh_LastSeenMS previous then nh_advancedMono previous else tick | None \<Rightarrow> tick)"
  define n where "n = hb\<lparr>nh_GatewaySeen := wall, nh_receivedMono := tick, nh_advancedMono := adv, nh_Evidence := ev,
      nh_ExportSeverity := fmget [] (rg_exportSeverity r) ?dev\<rparr>"
  have u: "rg_nodes (Upsert wall tick hb r) = fmupd ?dev n (rg_nodes r)" "rg_exportSeverity (Upsert wall tick hb r) = rg_exportSeverity r"
    by (simp_all add: Upsert_def Let_def t n_def adv_def)
  have "adv \<in> beat_ticks ?dev (es @ [?e])"
  proof (cases "fmlookup (rg_nodes r) ?dev")
    case (Some previous)
    have "nh_advancedMono previous \<in> beat_ticks ?dev es" using site_invD(2) [OF assms Some] by (simp add: record_of_def)
    then show ?thesis using Some beat_ticks_snoc(1) [of ?dev es ?e] beat_ticks_snoc(2) [of ?e wall tick hb ?dev es] by (auto simp: adv_def)
  qed (use beat_ticks_snoc(2) [of ?e wall tick hb ?dev es] in \<open>simp add: adv_def\<close>)
  then have mine: "record_of ?dev (es @ [?e]) n"
    using t track_available site_invD(1) [OF assms, of ?dev] by (fastforce simp: record_of_def n_def)
  show ?thesis
  proof (rule site_invI)
    show "record_of dev (es @ [?e]) m" if "fmlookup (rg_nodes (Upsert wall tick hb r)) dev = Some m" for dev m
      using that mine record_other [OF site_invD(2) [OF assms], of dev m ?e] unfolding u by (auto split: if_splits)
    show "fmlookup (rg_nodes (Upsert wall tick hb r)) dev \<noteq> None"
      if "last_of (beat_of dev) (es @ [?e]) = Some b" "nh_Status b = NodeStatusCritical" for dev b
      using that site_invD(3) [OF assms, of dev b] unfolding u by (auto split: if_splits)
  qed (use site_invD(1) [OF assms] u in simp)
qed

lemma UpsertPosture_inv:
  assumes "site_inv es r"
  shows "site_inv (es @ [Export d posture]) (UpsertPosture d posture r)"
proof -
  let ?e = "Export d posture" and ?r = "UpsertPosture d posture r"
  have sev: "rg_exportSeverity ?r = (if ps_ExportSeverity posture \<noteq> [] then fmupd d (ps_ExportSeverity posture) (rg_exportSeverity r) else rg_exportSeverity r)"
    by (auto simp: UpsertPosture_def Let_def split: option.splits)
  have nodes: "fmlookup (rg_nodes ?r) dev =
      (if dev = d then map_option (\<lambda>n. n\<lparr>nh_ExportSeverity := fmget [] (rg_exportSeverity ?r) d, nh_Posture := Some posture\<rparr>) (fmlookup (rg_nodes r) d)
       else fmlookup (rg_nodes r) dev)" for dev
    by (auto simp: UpsertPosture_def Let_def split: option.splits)
  have read: "fmget [] (rg_exportSeverity ?r) dev = last_reading dev (es @ [?e])" for dev
    using site_invD(1) [OF assms, of dev] by (simp add: sev)
  show ?thesis
  proof (rule site_invI)
    show "record_of dev (es @ [?e]) m" if m: "fmlookup (rg_nodes ?r) dev = Some m" for dev m
    proof (cases "dev = d")
      case True
      then obtain n where n: "fmlookup (rg_nodes r) d = Some n" "m = n\<lparr>nh_ExportSeverity := fmget [] (rg_exportSeverity ?r) d, nh_Posture := Some posture\<rparr>"
        using m unfolding nodes by auto
      show ?thesis
        using site_invD(2) [OF assms n(1)] read [of d] beat_ticks_snoc(1) [of d es ?e] True n(2) by (auto simp: record_of_def)
    next
      case False
      then have "fmlookup (rg_nodes r) dev = Some m" using m unfolding nodes by simp
      from record_other [OF site_invD(2) [OF assms this], of ?e] False show ?thesis by simp
    qed
    show "fmlookup (rg_nodes ?r) dev \<noteq> None"
      if "last_of (beat_of dev) (es @ [?e]) = Some b" "nh_Status b = NodeStatusCritical" for dev b
      using that site_invD(3) [OF assms, of dev b] unfolding nodes by auto
  qed (rule read)
qed

lemma EvictStale_nodes:
  "fmlookup (rg_nodes (snd (EvictStale ttl tick r))) dev =
     (case fmlookup (rg_nodes r) dev of None \<Rightarrow> None | Some n \<Rightarrow> if receiptStale n tick ttl \<and> \<not> kept_critical n then None else Some n)"
  by (auto simp: EvictStale_def EvictStaleRetainingCritical_def nodes_where_def Let_def fmdomI split: option.splits if_splits)

lemma EvictStale_inv:
  assumes "site_inv es r"
  shows "site_inv (es @ [Sweep ttl tick]) (snd (EvictStale ttl tick r))"
proof (rule site_invI)
  fix dev
  have "rg_exportSeverity (snd (EvictStale ttl tick r)) = rg_exportSeverity r"
    by (simp add: EvictStale_def EvictStaleRetainingCritical_def Let_def)
  then show "fmget [] (rg_exportSeverity (snd (EvictStale ttl tick r))) dev = last_reading dev (es @ [Sweep ttl tick])"
    using site_invD(1) [OF assms, of dev] by simp
next
  fix dev m assume "fmlookup (rg_nodes (snd (EvictStale ttl tick r))) dev = Some m"
  then have "fmlookup (rg_nodes r) dev = Some m" by (auto simp: EvictStale_nodes split: option.splits if_splits)
  from record_other [OF site_invD(2) [OF assms this], of "Sweep ttl tick"] show "record_of dev (es @ [Sweep ttl tick]) m" by simp
next
  fix dev b assume b: "last_of (beat_of dev) (es @ [Sweep ttl tick]) = Some b" "nh_Status b = NodeStatusCritical"
  then obtain n where n: "fmlookup (rg_nodes r) dev = Some n" using site_invD(3) [OF assms, of dev b] by auto
  have "nh_Status n = NodeStatusCritical" using site_invD(2) [OF assms n] b by (auto simp: record_of_def)
  then show "fmlookup (rg_nodes (snd (EvictStale ttl tick r))) dev \<noteq> None" using n by (simp add: EvictStale_nodes kept_critical_def)
qed

lemma site_run_inv: "site_inv es (site_run es)"
proof (induction es rule: rev_induct)
  case Nil
  then show ?case by (simp add: site_inv_def site_run_def newRegistry_def)
next
  case (snoc e es)
  have "site_run (es @ [e]) = site_step e (site_run es)" by (simp add: site_run_def)
  with snoc show ?case by (cases e) (simp_all add: Upsert_inv UpsertPosture_inv EvictStale_inv)
qed

section \<open>What the projection says\<close>

lemma siteStatusName_critical: "severityCritical \<le> s \<Longrightarrow> siteStatusName s = ''critical''"
  by (simp add: siteStatusName_def severity_defs)

lemma projected_critical: "projectedSeverity ''critical'' = severityCritical"
  by (simp add: projectedSeverity_def statusSeverity_def node_status_defs)

lemma fold_max_init: "(init :: int) \<le> fold (\<lambda>n s. max s (f n)) ns init"
  by (induction ns arbitrary: init) (auto intro: order_trans [OF max.cobounded1])

lemma fold_max_ge: "n \<in> set ns \<Longrightarrow> (f n :: int) \<le> fold (\<lambda>n s. max s (f n)) ns init"
proof (induction ns arbitrary: init)
  case (Cons m ns)
  then show ?case using order_trans [OF max.cobounded2 fold_max_init] by auto
qed simp

lemma recorded_severity: "fmget [] (snd (snapshotWithExportSeverity r)) dev = fmget [] (rg_exportSeverity r) dev"
  by (auto simp: snapshotWithExportSeverity_def fmget_def split: option.splits)

lemma project_critical:
  assumes "site_inv es r" "last_reading dev es = ExportSeverityCritical \<or> (\<exists>hb. last_of (beat_of dev) es = Some hb \<and> nh_Status hb = NodeStatusCritical)"
  shows "sn_Status (project_node ttl tick (rg_nodes r) (snd (snapshotWithExportSeverity r)) dev) = ''critical''"
proof (cases "fmlookup (rg_nodes r) dev")
  case None
  then have "last_reading dev es = ExportSeverityCritical" using assms site_invD(3) [OF assms(1), of dev] by auto
  then show ?thesis
    using None site_invD(1) [OF assms(1), of dev]
    by (simp add: project_node_def recorded_severity exportSeverityFloor_def export_severity_defs siteStatusName_critical)
next
  case (Some n)
  have "exportSeverityFloor (nh_ExportSeverity n) = severityCritical \<or> projectedSeverity (nh_Status n) = severityCritical"
    using site_invD(2) [OF assms(1) Some] assms(2)
    by (auto simp: record_of_def exportSeverityFloor_def export_severity_defs NodeStatusCritical_def projected_critical)
  then show ?thesis using Some by (auto simp: project_node_def Let_def intro!: siteStatusName_critical)
qed

text \<open>C22. Critical is never folded. After any run of heartbeats, export readings and evictions, a device whose last heartbeat was
  critical, or whose health export last read critical, is projected critical, and so is the site, at whatever time, with
  whatever TTL, and whatever evictions the silence since then has led to.\<close>

theorem critical_never_folded:
  assumes "dev \<in> set expected" "last_reading dev es = ExportSeverityCritical \<or> (\<exists>hb. last_of (beat_of dev) es = Some hb \<and> nh_Status hb = NodeStatusCritical)"
  shows "(\<exists>n \<in> set (sh_Nodes (Project expected ttl nowMS tick gateway (site_run es))). sn_DeviceID n = dev \<and> sn_Status n = ''critical'')
    \<and> sh_Status (Project expected ttl nowMS tick gateway (site_run es)) = ''critical''"
proof -
  let ?r = "site_run es" and ?p = "Project expected ttl nowMS tick gateway (site_run es)"
  let ?n = "project_node ttl tick (rg_nodes ?r) (snd (snapshotWithExportSeverity ?r)) dev"
  have c: "sn_Status ?n = ''critical''" using project_critical [OF site_run_inv assms(2)] .
  have d: "sn_DeviceID ?n = dev" by (auto simp: project_node_def Let_def split: option.splits)
  have mem: "?n \<in> set (sh_Nodes ?p)" using assms(1) by (auto simp: Project_def snapshotWithExportSeverity_def Let_def)
  have "sh_Status ?p = siteStatusName (fold (\<lambda>n s. max s (projectedSeverity (sn_Status n))) (sh_Nodes ?p) (delivery_severity gateway))"
    by (simp add: Project_def snapshotWithExportSeverity_def Let_def)
  moreover have "severityCritical \<le> fold (\<lambda>n s. max s (projectedSeverity (sn_Status n))) (sh_Nodes ?p) (delivery_severity gateway)"
    using fold_max_ge [OF mem, of "\<lambda>n. projectedSeverity (sn_Status n)"] c projected_critical by simp
  ultimately show ?thesis using mem c d siteStatusName_critical by auto
qed

text \<open>C23. Healthy is never presumed. When a device is projected healthy, it is reporting: its last heartbeat said healthy and that its
  evidence, if it has any, is available, one of its heartbeats arrived within the TTL on the monotonic clock, and no reading of its
  health export was anything but ok.\<close>

theorem healthy_means_reporting:
  assumes "\<forall>t \<in> beat_ticks dev es. 0 \<le> t \<and> t \<le> tick" "tick \<le> maxInt64"
    and "n \<in> set (sh_Nodes (Project expected ttl nowMS tick gateway (site_run es)))" "sn_DeviceID n = dev" "sn_Status n = ''healthy''"
  shows "\<exists>hb. last_of (beat_of dev) es = Some hb \<and> nh_Status hb = NodeStatusHealthy \<and> (\<forall>e. nh_Evidence hb = Some e \<longrightarrow> ne_Available e)
    \<and> last_reading dev es \<in> {[], ExportSeverityOK} \<and> (\<exists>t \<in> beat_ticks dev es. tick - t \<le> ttl)"
proof -
  let ?r = "site_run es" and ?sev = "snd (snapshotWithExportSeverity (site_run es))"
  have n: "n = project_node ttl tick (rg_nodes ?r) ?sev dev"
    using assms(3,4) by (auto simp: Project_def snapshotWithExportSeverity_def Let_def project_node_def split: option.splits)
  have s: "siteStatusName x = ''healthy'' \<longleftrightarrow> x = 0" for x by (simp add: siteStatusName_def severity_defs)
  have f: "0 \<le> exportSeverityFloor x" "0 \<le> projectedSeverity x" for x
    by (auto simp: exportSeverityFloor_def projectedSeverity_def statusSeverity_def severity_defs split: option.splits)
  obtain m where m: "fmlookup (rg_nodes ?r) dev = Some m"
    using assms(5) n by (auto simp: project_node_def s severity_defs split: option.splits)
  have z: "projectedSeverity (nh_Status m) = 0" "exportSeverityFloor (nh_ExportSeverity m) = 0" "\<not> reportStale m tick ttl" "\<not> evidence_problem (nh_Evidence m)"
    using assms(5) f [of "nh_ExportSeverity m"] f(2) [of "nh_Status m"] unfolding n
    by (auto simp: project_node_def m s Let_def severity_defs max_def split: if_splits)
  have st: "nh_Status m = NodeStatusHealthy" using z(1)
    by (auto simp: projectedSeverity_def statusSeverity_def severity_defs split: option.splits if_splits)
  have ex: "nh_ExportSeverity m \<in> {[], ExportSeverityOK}" using z(2) by (auto simp: exportSeverityFloor_def severity_defs split: if_splits)
  note rec = site_invD(2) [OF site_run_inv m, unfolded record_of_def]
  then have t: "nh_advancedMono m \<in> beat_ticks dev es" by blast
  have "tick - nh_advancedMono m \<le> ttl"
    using z(3) assms(1,2) t by (auto simp: reportStale_def minInt64_def)
  with t have "\<exists>t \<in> beat_ticks dev es. tick - t \<le> ttl" by blast
  then show ?thesis using rec st ex z(4) by (auto simp: evidence_problem_def)
qed

definition sample_beat :: "string \<Rightarrow> unit NodeHeartbeat" where
  "sample_beat status =
     \<lparr>nh_DeviceID = ''pump-1'', nh_Status = status, nh_LastSeenMS = 1000, nh_GatewaySeen = 0, nh_ActiveTriggers = [], nh_DegradationReasons = None,
      nh_Posture = None, nh_Evidence = None, nh_ExportSeverity = [], nh_receivedMono = 0, nh_advancedMono = 0\<rparr>"

definition sample_gateway :: "unit GatewayView" where
  "sample_gateway = \<lparr>gv_Status = ''healthy'', gv_EvidenceDelivery = None, gv_MQTTIngress = fmempty, gv_rest = ()\<rparr>"

theorem critical_never_folded_witness:
  "sh_Status (Project [''pump-1''] NodeTTL 5000 400000000000 sample_gateway
     (site_run [Beat 1000 5 (sample_beat ''critical''), Sweep NodeTTL 300000000000])) = ''critical''"
  by (rule critical_never_folded [of "''pump-1''", THEN conjunct2]) (simp_all add: sample_beat_def NodeStatusCritical_def last_of_def)

theorem healthy_means_reporting_witness:
  "sh_Status (Project [''pump-1''] NodeTTL 5000 6 sample_gateway (site_run [Beat 1000 5 (sample_beat ''healthy'')])) = ''healthy''
   \<and> (\<exists>t. t \<in> beat_ticks ''pump-1'' [Beat 1000 5 (sample_beat ''healthy'')] \<and> 6 - t \<le> NodeTTL)"
proof -
  let ?es = "[Beat 1000 5 (sample_beat ''healthy'')]"
  let ?p = "Project [''pump-1''] NodeTTL 5000 6 sample_gateway (site_run ?es)"
  have p: "map (\<lambda>n. (sn_DeviceID n, sn_Status n)) (sh_Nodes ?p) = [(''pump-1'', ''healthy'')]" "sh_Status ?p = ''healthy''" by code_simp+
  then obtain n where n: "n \<in> set (sh_Nodes ?p)" "sn_DeviceID n = ''pump-1''" "sn_Status n = ''healthy''"
    by (cases "sh_Nodes ?p") auto
  have "\<forall>t \<in> beat_ticks ''pump-1'' ?es. 0 \<le> t \<and> t \<le> 6" by (auto simp: beat_ticks_def)
  from healthy_means_reporting [OF this _ n] p(2) show ?thesis by (auto simp: maxInt64_def)
qed

end
