(* ===== verification/Site_Heartbeat.thy ===== *)
theory Site_Heartbeat
  imports Site Verifier
begin

text \<open>
  Runtime heartbeats, \<open>internal/site/heartbeat.go\<close> and \<open>members.go\<close>, with the rules of \<open>degradation.go\<close> for the status and the
  reasons: what the handler accepts, and what it writes to the registry.

  The members are read of the verified object itself: writing it out and reading it again as raw members gives each
  member the value it had. The member rule reads the payload in order and stops at the first fault, so on a payload that is no
  JSON the code may name a member it read before the text broke where the model names the broken text; both refuse it.
\<close>

section \<open>Member names\<close>

definition runtimeHeartbeatMembers :: "string list" where
  "runtimeHeartbeatMembers =
     [''device_id'', ''status'', ''last_seen_ms'', ''gateway_seen_ms'', ''active_triggers'', ''degradation_reasons'', ''evidence'', ''auth'']"

definition runtimeHeartbeatEvidenceMembers :: "string list" where
  "runtimeHeartbeatEvidenceMembers = [''chain_head_hash'', ''attestation_gap_count'', ''available'', ''action_event_type'']"

datatype heartbeatVerdict =
    VerdictRuntimeStatusInvalid | VerdictDegradationReasonsNotArray | VerdictDegradationReasonsLengthInvalid
  | VerdictDegradationReasonNotString | VerdictDegradationReasonsNotUnique | VerdictDegradationReasonsNotOrdered
  | VerdictDegradationReasonUnknown | VerdictDegradationReasonNotAlone | VerdictDegradationReasonsStatusMismatch
  | VerdictDegradationSeverityUnderstated | VerdictHeartbeatMemberCaseVariant | VerdictHeartbeatMemberDuplicate

text \<open>The members in turn; \<open>nested\<close> looks at the value of a contract member.\<close>

fun refuseInexactMembers ::
  "string list \<Rightarrow> (string \<Rightarrow> json \<Rightarrow> heartbeatVerdict option) \<Rightarrow> string list \<Rightarrow> (string \<times> json) list \<Rightarrow> heartbeatVerdict option" where
  "refuseInexactMembers members nested seen [] = None"
| "refuseInexactMembers members nested seen ((k, v) # ms) =
     (let name = unquote k
      in if list_ex (\<lambda>m. name \<noteq> m \<and> EqualFold name m) members then Some VerdictHeartbeatMemberCaseVariant
         else if name \<notin> set members then refuseInexactMembers members nested seen ms
         else if name \<in> set seen then Some VerdictHeartbeatMemberDuplicate
         else case nested name v of Some e \<Rightarrow> Some e | None \<Rightarrow> refuseInexactMembers members nested (name # seen) ms)"

definition evidence_members :: "string \<Rightarrow> json \<Rightarrow> heartbeatVerdict option" where
  "evidence_members name v =
     (case v of JObj ms \<Rightarrow> if name = ''evidence'' then refuseInexactMembers runtimeHeartbeatEvidenceMembers (\<lambda>_ _. None) [] ms else None
      | _ \<Rightarrow> None)"

text \<open>The first value of the payload: what a \<open>json.Decoder\<close> reads, whatever follows it.\<close>

definition first_value :: "string \<Rightarrow> json option" where
  "first_value payload = map_option fst (parse_value (json_fuel payload) 0 (skip_ws payload))"

datatype memberFault = UndecodableHeartbeat | HeartbeatNotObject | FaultVerdict heartbeatVerdict

definition refuseInexactHeartbeatMembers :: "string \<Rightarrow> memberFault option" where
  "refuseInexactHeartbeatMembers payload =
     (case first_value payload of
        None \<Rightarrow> Some UndecodableHeartbeat
      | Some (JObj ms) \<Rightarrow> map_option FaultVerdict (refuseInexactMembers runtimeHeartbeatMembers evidence_members [] ms)
      | Some _ \<Rightarrow> Some HeartbeatNotObject)"

section \<open>Status and reasons\<close>

definition maxDegradationReasons :: nat where "maxDegradationReasons = 32"
definition healthSnapshotInvalid :: string where "healthSnapshotInvalid = ''health_snapshot_invalid''"

definition degradationReasonSeverity :: "(string \<times> int) list" where
  "degradationReasonSeverity =
     [(''action_log_records_lost'', severityDegraded), (''action_log_records_stalled'', severityDegraded),
      (''alert_delivery_overdue'', severityDegraded), (''commissioning_problem'', severityDegraded),
      (''community_skills_refused'', severityDegraded), (''config_unsigned_value_source'', severityDegraded),
      (''decision_record_lost'', severityCritical), (''evidence_contributor_link_unresolved'', severityDegraded),
      (''evidence_courier_answer_unrecognised'', severityDegraded), (''evidence_posture_problem'', severityDegraded),
      (''firmware_liveness_degraded'', severityHealthy), (''firmware_liveness_device_expired'', severityCritical),
      (''firmware_liveness_over_capacity'', severityDegraded), (''firmware_liveness_stopped'', severityCritical),
      (''firmware_liveness_tick_failures'', severityDegraded), (''firmware_liveness_tick_stale'', severityCritical),
      (healthSnapshotInvalid, severityCritical), (''safety_zone_activation_refused'', severityDegraded),
      (''safety_zone_active_unprotected'', severityDegraded), (''safety_zone_trip_unresolved'', severityCritical),
      (''sensor_measurement_degraded'', severityDegraded), (''sensor_stale'', severityDegraded),
      (''sensor_unconnected'', severityDegraded), (''skill_optional_hooks_unavailable'', severityDegraded),
      (''skill_required_hooks_unavailable'', severityCritical), (''subsystem_starting'', severityDegraded),
      (''subsystem_state_unknown'', severityDegraded), (''subsystem_state_unknown_critical'', severityCritical),
      (''tier_c_records_degraded'', severityDegraded), (''tier_c_recovery_failed'', severityDegraded),
      (''tier_d_alert_delivery_unconfirmed'', severityCritical)]"

definition reason_token :: "gvalue \<Rightarrow> string option" where
  "reason_token v = (case v of VString s \<Rightarrow> Some s | _ \<Rightarrow> None)"

definition reason_severity :: "string \<Rightarrow> int" where
  "reason_severity token = (case map_of degradationReasonSeverity token of Some s \<Rightarrow> s | None \<Rightarrow> 0)"

definition validateDegradationReasons :: "gvalue option \<Rightarrow> string \<Rightarrow> heartbeatVerdict + string list option" where
  "validateDegradationReasons raw status =
     (case raw of
        None \<Rightarrow> Inr None
      | Some (VList elements) \<Rightarrow>
          if length elements < 1 \<or> length elements > maxDegradationReasons then Inl VerdictDegradationReasonsLengthInvalid
          else (case those (map reason_token elements) of
             None \<Rightarrow> Inl VerdictDegradationReasonNotString
           | Some tokens \<Rightarrow>
               if \<not> distinct tokens then Inl VerdictDegradationReasonsNotUnique
               else if \<not> sorted tokens then Inl VerdictDegradationReasonsNotOrdered
               else if list_ex (\<lambda>t. map_of degradationReasonSeverity t = None) tokens then Inl VerdictDegradationReasonUnknown
               else if healthSnapshotInvalid \<in> set tokens \<and> (length tokens \<noteq> 1 \<or> status \<noteq> NodeStatusCritical)
               then Inl VerdictDegradationReasonNotAlone
               else if status \<noteq> NodeStatusDegraded \<and> status \<noteq> NodeStatusCritical then Inl VerdictDegradationReasonsStatusMismatch
               else if list_ex (\<lambda>t. reason_severity t > (case statusSeverity status of Some s \<Rightarrow> s | None \<Rightarrow> 0)) tokens
               then Inl VerdictDegradationSeverityUnderstated
               else Inr (Some tokens))
      | Some _ \<Rightarrow> Inl VerdictDegradationReasonsNotArray)"

definition validateRuntimeStatus :: "gvalue option \<Rightarrow> heartbeatVerdict + string" where
  "validateRuntimeStatus raw =
     (case raw of
        Some (VString status) \<Rightarrow> if statusSeverity status = None then Inl VerdictRuntimeStatusInvalid else Inr status
      | _ \<Rightarrow> Inl VerdictRuntimeStatusInvalid)"

section \<open>The typed heartbeat\<close>

record RuntimeNodeHeartbeatEvidence =
  he_ChainHeadHash :: string
  he_AttestationGapCount :: int
  he_Available :: bool
  he_ActionEventType :: string

record RuntimeNodeHeartbeat =
  rb_DeviceID :: string
  rb_Status :: string
  rb_LastSeenMS :: int
  rb_ActiveTriggers :: "string list"
  rb_Evidence :: "RuntimeNodeHeartbeatEvidence option"

definition bool_field :: "(string, gvalue) fmap \<Rightarrow> string \<Rightarrow> bool option" where
  "bool_field m k = (case fmlookup m k of None \<Rightarrow> Some False | Some VNull \<Rightarrow> Some False | Some (VBool b) \<Rightarrow> Some b | _ \<Rightarrow> None)"

definition element_text :: "gvalue \<Rightarrow> string option" where
  "element_text v = (case v of VNull \<Rightarrow> Some [] | VString s \<Rightarrow> Some s | _ \<Rightarrow> None)"

definition strings_field :: "(string, gvalue) fmap \<Rightarrow> string \<Rightarrow> string list option" where
  "strings_field m k =
     (case fmlookup m k of None \<Rightarrow> Some [] | Some VNull \<Rightarrow> Some [] | Some (VList vs) \<Rightarrow> those (map element_text vs) | _ \<Rightarrow> None)"

datatype heartbeatError =
    HbTopic contractError | HbMembers memberFault | HbUnauthentic verdict | HbUndecodable | HbVerdict heartbeatVerdict | HbMember string
  | HbEvidenceNotObject | HbDevice | HbStatus | HbLastSeen | HbFuture | HbTooManyTriggers | HbTriggerForm | HbTriggerLength | HbEvidence

definition decode_evidence :: "(string, gvalue) fmap \<Rightarrow> heartbeatError + RuntimeNodeHeartbeatEvidence" where
  "decode_evidence m =
     (case text_field m ''chain_head_hash'' of None \<Rightarrow> Inl (HbMember ''chain_head_hash'')
      | Some head \<Rightarrow>
     (case int_field m ''attestation_gap_count'' of None \<Rightarrow> Inl (HbMember ''attestation_gap_count'')
      | Some gaps \<Rightarrow>
     (case bool_field m ''available'' of None \<Rightarrow> Inl (HbMember ''available'')
      | Some available \<Rightarrow>
     (case text_field m ''action_event_type'' of None \<Rightarrow> Inl (HbMember ''action_event_type'')
      | Some event \<Rightarrow>
          Inr \<lparr>he_ChainHeadHash = head, he_AttestationGapCount = gaps, he_Available = available, he_ActionEventType = event\<rparr>))))"

definition decodeRuntimeHeartbeat :: "(string, gvalue) fmap \<Rightarrow> heartbeatError + RuntimeNodeHeartbeat" where
  "decodeRuntimeHeartbeat m =
     (case text_field m ''device_id'' of None \<Rightarrow> Inl (HbMember ''device_id'')
      | Some dev \<Rightarrow>
     (case text_field m ''status'' of None \<Rightarrow> Inl (HbMember ''status'')
      | Some status \<Rightarrow>
     (case int_field m ''last_seen_ms'' of None \<Rightarrow> Inl (HbMember ''last_seen_ms'')
      | Some seen \<Rightarrow>
     (case int_field m ''gateway_seen_ms'' of None \<Rightarrow> Inl (HbMember ''gateway_seen_ms'')
      | Some _ \<Rightarrow>
     (case strings_field m ''active_triggers'' of None \<Rightarrow> Inl (HbMember ''active_triggers'')
      | Some triggers \<Rightarrow>
          let beat = \<lparr>rb_DeviceID = dev, rb_Status = status, rb_LastSeenMS = seen, rb_ActiveTriggers = triggers, rb_Evidence = None\<rparr>
          in case fmlookup m ''evidence'' of
               None \<Rightarrow> Inr beat
             | Some VNull \<Rightarrow> Inr beat
             | Some (VMap em) \<Rightarrow> (case decode_evidence em of Inl e \<Rightarrow> Inl e | Inr ev \<Rightarrow> Inr (beat\<lparr>rb_Evidence := Some ev\<rparr>))
             | Some _ \<Rightarrow> Inl HbEvidenceNotObject)))))"

definition parseRuntimeHeartbeat :: "(string, gvalue) fmap \<Rightarrow> heartbeatError + RuntimeNodeHeartbeat \<times> string list option" where
  "parseRuntimeHeartbeat m =
     (case validateRuntimeStatus (fmlookup m ''status'') of Inl v \<Rightarrow> Inl (HbVerdict v)
      | Inr status \<Rightarrow>
     (case validateDegradationReasons (fmlookup m ''degradation_reasons'') status of Inl v \<Rightarrow> Inl (HbVerdict v)
      | Inr reasons \<Rightarrow>
     (case decodeRuntimeHeartbeat m of Inl e \<Rightarrow> Inl e | Inr beat \<Rightarrow> Inr (beat, reasons))))"

definition defaultMaxActiveTriggers :: int where "defaultMaxActiveTriggers = 64"
definition maxActiveTriggerLength :: nat where "maxActiveTriggerLength = 128"
definition maxActionEventTypeLength :: nat where "maxActionEventTypeLength = 64"
definition defaultMaxFutureSkew :: int where "defaultMaxFutureSkew = 300000000000"

definition screaming :: "char \<Rightarrow> bool" where
  "screaming c \<longleftrightarrow> 65 \<le> byte c \<and> byte c \<le> 90 \<or> c = CHR ''_''"

definition validateEvidenceSignal :: "RuntimeNodeHeartbeatEvidence \<Rightarrow> bool" where
  "validateEvidenceSignal e \<longleftrightarrow>
     (he_ChainHeadHash e = [] \<or> length (he_ChainHeadHash e) = 64 \<and> list_all lower_hex (he_ChainHeadHash e))
     \<and> he_AttestationGapCount e \<ge> 0
     \<and> length (he_ActionEventType e) \<le> maxActionEventTypeLength \<and> list_all screaming (he_ActionEventType e)"

section \<open>The handler\<close>

record RuntimeHeartbeatHandler =
  rh_authVerifier :: "Verifier option"
  rh_maxActiveTriggers :: int
  rh_maxFutureSkew :: int

definition NewRuntimeHeartbeatHandler :: "Verifier option \<Rightarrow> int \<Rightarrow> int \<Rightarrow> RuntimeHeartbeatHandler" where
  "NewRuntimeHeartbeatHandler verifier triggers skew =
     \<lparr>rh_authVerifier = verifier, rh_maxActiveTriggers = (if triggers \<le> 0 then defaultMaxActiveTriggers else triggers),
      rh_maxFutureSkew = (if skew \<le> 0 then defaultMaxFutureSkew else skew)\<rparr>"

fun trigger_fault :: "string list \<Rightarrow> heartbeatError option" where
  "trigger_fault [] = None"
| "trigger_fault (t # ts) =
     (if TrimSpace t \<noteq> t \<or> t = [] then Some HbTriggerForm
      else if length t > maxActiveTriggerLength then Some HbTriggerLength
      else trigger_fault ts)"

definition validate_beat :: "RuntimeHeartbeatHandler \<Rightarrow> int \<Rightarrow> string \<Rightarrow> RuntimeNodeHeartbeat \<Rightarrow> heartbeatError option" where
  "validate_beat h now dev beat =
     (if rb_DeviceID beat \<noteq> dev then Some HbDevice
      else if rb_Status beat \<notin> {NodeStatusHealthy, NodeStatusDegraded, NodeStatusCritical} then Some HbStatus
      else if rb_LastSeenMS beat \<le> 0 then Some HbLastSeen
      else if rb_LastSeenMS beat * 1000000 > now + rh_maxFutureSkew h then Some HbFuture
      else if int (length (rb_ActiveTriggers beat)) > rh_maxActiveTriggers h then Some HbTooManyTriggers
      else case trigger_fault (rb_ActiveTriggers beat) of Some e \<Rightarrow> Some e
      | None \<Rightarrow> case rb_Evidence beat of None \<Rightarrow> None | Some e \<Rightarrow> if validateEvidenceSignal e then None else Some HbEvidence)"

definition RuntimeHeartbeatMessageType :: string where "RuntimeHeartbeatMessageType = ''runtime.heartbeat''"

definition unsignedPayload ::
  "(string \<Rightarrow> bool) \<Rightarrow> strict_decoder \<Rightarrow> canonical_map \<Rightarrow> int \<Rightarrow> string \<Rightarrow> string \<Rightarrow> RuntimeHeartbeatHandler
     \<Rightarrow> (heartbeatError + (string, gvalue) fmap) \<times> RuntimeHeartbeatHandler" where
  "unsignedPayload validUnicode decodeStrict canonical t dev payload h =
     (case rh_authVerifier h of
        Some v \<Rightarrow>
          (case VerifyJSON validUnicode decodeStrict canonical t payload RuntimeHeartbeatMessageType dev [] v of
             (Inl e, v') \<Rightarrow> (Inl (HbUnauthentic e), h\<lparr>rh_authVerifier := Some v'\<rparr>)
           | (Inr m, v') \<Rightarrow> (Inr m, h\<lparr>rh_authVerifier := Some v'\<rparr>))
      | None \<Rightarrow>
          (case first_value payload of
             Some (JObj ms) \<Rightarrow> (Inr (fmdrop ''auth'' (any_members ms)), h)
           | Some JNull \<Rightarrow> (Inr fmempty, h)
           | _ \<Rightarrow> (Inl HbUndecodable, h)))"

definition node_evidence :: "RuntimeNodeHeartbeatEvidence \<Rightarrow> NodeEvidence" where
  "node_evidence e =
     \<lparr>ne_ChainHeadHash = he_ChainHeadHash e, ne_AttestationGapCount = he_AttestationGapCount e, ne_Available = he_Available e,
      ne_ActionEventType = he_ActionEventType e, ne_TruncationSuspected = False, ne_HeadRegressed = False\<rparr>"

definition node_heartbeat :: "RuntimeNodeHeartbeat \<Rightarrow> string list option \<Rightarrow> 'p NodeHeartbeat" where
  "node_heartbeat beat reasons =
     \<lparr>nh_DeviceID = rb_DeviceID beat, nh_Status = rb_Status beat, nh_LastSeenMS = rb_LastSeenMS beat, nh_GatewaySeen = 0,
      nh_ActiveTriggers = rb_ActiveTriggers beat, nh_DegradationReasons = reasons, nh_Posture = None,
      nh_Evidence = map_option node_evidence (rb_Evidence beat), nh_ExportSeverity = [], nh_receivedMono = 0, nh_advancedMono = 0\<rparr>"

text \<open>The clocks at a message: the verifier's in milliseconds, the handler's in nanoseconds, and the registry's two.\<close>

record beatReadings =
  br_verify :: int
  br_now :: int
  br_wall :: int
  br_tick :: int

definition HandleHeartbeat ::
  "(string \<Rightarrow> bool) \<Rightarrow> strict_decoder \<Rightarrow> canonical_map \<Rightarrow> beatReadings \<Rightarrow> string \<Rightarrow> string \<Rightarrow> RuntimeHeartbeatHandler \<Rightarrow> 'p Registry
     \<Rightarrow> heartbeatError option \<times> RuntimeHeartbeatHandler \<times> 'p Registry" where
  "HandleHeartbeat validUnicode decodeStrict canonical rd topic payload h r =
     (case DeviceIDFromRuntimeNodeHeartbeatTopic topic of Inl e \<Rightarrow> (Some (HbTopic e), h, r)
      | Inr dev \<Rightarrow>
     (case refuseInexactHeartbeatMembers payload of Some e \<Rightarrow> (Some (HbMembers e), h, r)
      | None \<Rightarrow>
     (case unsignedPayload validUnicode decodeStrict canonical (br_verify rd) dev payload h of
        (Inl e, h) \<Rightarrow> (Some e, h, r)
      | (Inr m, h) \<Rightarrow>
     (case parseRuntimeHeartbeat m of Inl e \<Rightarrow> (Some e, h, r)
      | Inr (beat, reasons) \<Rightarrow>
     (case validate_beat h (br_now rd) dev beat of Some e \<Rightarrow> (Some e, h, r)
      | None \<Rightarrow> (None, h, Upsert (br_wall rd) (br_tick rd) (node_heartbeat beat reasons) r))))))"

section \<open>The reasons accepted\<close>

definition reasons_ok :: "string \<Rightarrow> string list \<Rightarrow> bool" where
  "reasons_ok status tokens \<longleftrightarrow> tokens \<noteq> [] \<and> sorted_wrt (<) tokens \<and> list_all (\<lambda>t. t \<in> fst ` set degradationReasonSeverity) tokens
     \<and> (status = NodeStatusCritical \<or> status = NodeStatusDegraded \<and> list_all (\<lambda>t. reason_severity t \<le> severityDegraded) tokens)
     \<and> (healthSnapshotInvalid \<in> set tokens \<longrightarrow> tokens = [healthSnapshotInvalid])"

lemma those_tokens: "those (map reason_token vs) = Some tokens \<longleftrightarrow> vs = map VString tokens"
proof (induction vs arbitrary: tokens)
  case (Cons v vs)
  then show ?case by (cases tokens) (auto simp: reason_token_def split: gvalue.splits option.splits)
qed auto

lemma vocabulary: "distinct (map fst degradationReasonSeverity)" "length degradationReasonSeverity = 31"
  "list_all (\<lambda>(t, s). s \<le> severityCritical) degradationReasonSeverity" "reason_severity healthSnapshotInvalid = severityCritical"
  by code_simp+

lemma reason_severity_le: "reason_severity t \<le> severityCritical"
  using vocabulary(3) by (auto simp: reason_severity_def list_all_iff severity_defs split: option.splits dest!: map_of_SomeD)

lemma vocabulary_bound:
  assumes "distinct tokens" "set tokens \<subseteq> fst ` set degradationReasonSeverity"
  shows "length tokens \<le> maxDegradationReasons"
proof -
  have "length tokens = card (set tokens)" using assms(1) by (simp add: distinct_card)
  also have "\<dots> \<le> card (fst ` set degradationReasonSeverity)" using assms(2) by (intro card_mono) auto
  also have "\<dots> \<le> 31" using card_length [of "map fst degradationReasonSeverity"] vocabulary(2) by simp
  finally show ?thesis by (simp add: maxDegradationReasons_def)
qed

lemma alone: "h \<in> set tokens \<Longrightarrow> length tokens = 1 \<longleftrightarrow> tokens = [h]"
  by (cases tokens) auto

lemma reasons_accepted:
  "validateDegradationReasons raw status = Inr (Some tokens) \<longleftrightarrow> raw = Some (VList (map VString tokens)) \<and> reasons_ok status tokens"
proof -
  have neq: "NodeStatusDegraded \<noteq> NodeStatusCritical" by (simp add: node_status_defs)
  have sev: "(case statusSeverity status of Some s \<Rightarrow> s | None \<Rightarrow> 0) = (if status = NodeStatusCritical then severityCritical else severityDegraded)"
    if "status = NodeStatusDegraded \<or> status = NodeStatusCritical"
    using that by (auto simp: statusSeverity_def node_status_defs)
  have hsi: "tokens = [healthSnapshotInvalid] \<and> status = NodeStatusDegraded \<Longrightarrow> \<not> list_all (\<lambda>t. reason_severity t \<le> severityDegraded) tokens"
    using vocabulary(4) by (auto simp: severity_defs)
  have known: "list_ex (\<lambda>t. map_of degradationReasonSeverity t = None) tokens \<longleftrightarrow> \<not> list_all (\<lambda>t. t \<in> fst ` set degradationReasonSeverity) tokens"
    by (auto simp: list_ex_iff list_all_iff map_of_eq_None_iff)
  have ord: "sorted_wrt (<) tokens \<longleftrightarrow> sorted tokens \<and> distinct tokens" by (rule strict_sorted_iff)
  have key: "validateDegradationReasons (Some (VList (map VString tokens))) status = Inr (Some tokens) \<longleftrightarrow> reasons_ok status tokens"
  proof (cases "tokens \<noteq> [] \<and> sorted_wrt (<) tokens \<and> list_all (\<lambda>t. t \<in> fst ` set degradationReasonSeverity) tokens")
    case True
    then have "length tokens \<le> maxDegradationReasons" using vocabulary_bound [of tokens] ord by (auto simp: list_all_iff)
    then have v: "validateDegradationReasons (Some (VList (map VString tokens))) status = Inr (Some tokens) \<longleftrightarrow>
        \<not> (healthSnapshotInvalid \<in> set tokens \<and> (length tokens \<noteq> 1 \<or> status \<noteq> NodeStatusCritical))
        \<and> (status = NodeStatusDegraded \<or> status = NodeStatusCritical)
        \<and> \<not> list_ex (\<lambda>t. reason_severity t > (case statusSeverity status of Some s \<Rightarrow> s | None \<Rightarrow> 0)) tokens"
      using True ord known those_tokens [of "map VString tokens" tokens] by (auto simp: validateDegradationReasons_def Suc_le_eq)
    show ?thesis
    proof (cases "status = NodeStatusDegraded \<or> status = NodeStatusCritical")
      case st: True
      show ?thesis unfolding v sev [OF st] reasons_ok_def using True st neq hsi alone [of healthSnapshotInvalid tokens] reason_severity_le
        by (auto simp: list_ex_iff list_all_iff not_less)
    qed (simp add: v reasons_ok_def)
  next
    case False
    then show ?thesis
      using ord known those_tokens [of "map VString tokens" tokens]
      by (auto simp: validateDegradationReasons_def reasons_ok_def split: if_splits)
  qed
  show ?thesis
  proof
    assume a: "validateDegradationReasons raw status = Inr (Some tokens)"
    then have "raw = Some (VList (map VString tokens))"
      by (auto simp: validateDegradationReasons_def those_tokens split: option.splits gvalue.splits if_splits)
    with a key show "raw = Some (VList (map VString tokens)) \<and> reasons_ok status tokens" by simp
  qed (use key in simp)
qed

text \<open>The reasons a heartbeat may give are exactly these. A list of reasons is accepted with a status when it is an array of
  strings, not empty, in strictly increasing order, of the closed vocabulary, none more severe than the status, and with
  the fallback token only alone on a critical heartbeat; so a set of reasons has one accepted spelling, and the limit of 32
  entries never decides on its own. No reasons are accepted exactly when the member is absent.\<close>

theorem degradation_reasons_exact:
  "(validateDegradationReasons raw status = Inr (Some tokens) \<longleftrightarrow> raw = Some (VList (map VString tokens)) \<and> reasons_ok status tokens)
   \<and> (validateDegradationReasons raw status = Inr None \<longleftrightarrow> raw = None)"
  unfolding reasons_accepted
  by (auto simp: validateDegradationReasons_def split: option.splits gvalue.splits if_splits)

section \<open>What a heartbeat may write\<close>

lemma HandleHeartbeat_cases:
  assumes "HandleHeartbeat validUnicode decodeStrict canonical rd topic payload h r = (e, h', r')"
  obtains (refused) x where "e = Some x" "r' = r"
  | (accepted) dev m beat reasons where "e = None" "DeviceIDFromRuntimeNodeHeartbeatTopic topic = Inr dev"
      "unsignedPayload validUnicode decodeStrict canonical (br_verify rd) dev payload h = (Inr m, h')"
      "parseRuntimeHeartbeat m = Inr (beat, reasons)" "validate_beat h' (br_now rd) dev beat = None"
      "r' = Upsert (br_wall rd) (br_tick rd) (node_heartbeat beat reasons) r"
  using assms by (auto simp: HandleHeartbeat_def split: sum.splits option.splits prod.splits) metis+

lemma unsigned_keeps:
  assumes "unsignedPayload validUnicode decodeStrict canonical t dev payload h = (res, h')"
  shows "rh_maxActiveTriggers h' = rh_maxActiveTriggers h"
  using assms by (auto simp: unsignedPayload_def split: option.splits prod.splits sum.splits json.splits)

lemma handler_keeps:
  assumes "HandleHeartbeat validUnicode decodeStrict canonical rd topic payload h r = (e, h', r')"
  shows "rh_maxActiveTriggers h' = rh_maxActiveTriggers h"
  using assms by (auto simp: HandleHeartbeat_def split: sum.splits option.splits prod.splits dest!: unsigned_keeps)

lemma Upsert_other: "dev \<noteq> nh_DeviceID hb \<Longrightarrow> fmlookup (rg_nodes (Upsert wall tick hb r)) dev = fmlookup (rg_nodes r) dev"
  by (simp add: Upsert_def Let_def split: prod.splits)

lemma Upsert_node:
  obtains n where "fmlookup (rg_nodes (Upsert wall tick hb r)) (nh_DeviceID hb) = Some n"
    "nh_DeviceID n = nh_DeviceID hb" "nh_Status n = nh_Status hb" "nh_receivedMono n = tick"
  by (cases "track_evidence (nh_DeviceID hb) (nh_Evidence hb) (rg_evidence r)") (simp add: Upsert_def Let_def)


section \<open>The type of the registry\<close>

definition head_form :: "string \<Rightarrow> bool" where
  "head_form s \<longleftrightarrow> s = [] \<or> length s = 64 \<and> list_all lower_hex s"

definition evidence_wf :: "NodeEvidence \<Rightarrow> bool" where
  "evidence_wf e \<longleftrightarrow> head_form (ne_ChainHeadHash e) \<and> ne_AttestationGapCount e \<ge> 0
     \<and> length (ne_ActionEventType e) \<le> maxActionEventTypeLength \<and> list_all screaming (ne_ActionEventType e)"

definition node_wf :: "int \<Rightarrow> string \<Rightarrow> 'p NodeHeartbeat \<Rightarrow> bool" where
  "node_wf triggers dev n \<longleftrightarrow> nh_DeviceID n = dev \<and> validateMQTTDeviceID dev = None
     \<and> nh_Status n \<in> {NodeStatusHealthy, NodeStatusDegraded, NodeStatusCritical} \<and> 0 < nh_LastSeenMS n
     \<and> int (length (nh_ActiveTriggers n)) \<le> triggers
     \<and> list_all (\<lambda>t. t \<noteq> [] \<and> TrimSpace t = t \<and> length t \<le> maxActiveTriggerLength) (nh_ActiveTriggers n)
     \<and> pred_option (reasons_ok (nh_Status n)) (nh_DegradationReasons n) \<and> pred_option evidence_wf (nh_Evidence n)"

definition registry_wf :: "int \<Rightarrow> 'p Registry \<Rightarrow> bool" where
  "registry_wf triggers r \<longleftrightarrow> fmpred (node_wf triggers) (rg_nodes r) \<and> fmpred (\<lambda>_ t. list_all head_form (et_recentHeads t)) (rg_evidence r)"

lemma topic_device: "DeviceIDFromRuntimeNodeHeartbeatTopic topic = Inr dev \<Longrightarrow> validateMQTTDeviceID dev = None"
  by (auto simp: DeviceIDFromRuntimeNodeHeartbeatTopic_def checked_device_def Let_def split: if_splits option.splits)

lemma trigger_fault_None:
  "trigger_fault ts = None \<longleftrightarrow> list_all (\<lambda>t. t \<noteq> [] \<and> TrimSpace t = t \<and> length t \<le> maxActiveTriggerLength) ts"
  by (induction ts) auto

lemma observe_wf:
  assumes "evidence_wf e" "list_all head_form (et_recentHeads t)"
  shows "evidence_wf (fst (observe e t))" "list_all head_form (et_recentHeads (snd (observe e t)))"
  using assms by (auto simp: observe_def recordHead_def evidence_wf_def Let_def list_all_iff dest!: in_set_dropD)

lemma observeMissing_wf:
  assumes "list_all head_form (et_recentHeads t)"
  shows "evidence_wf (observeMissing t)"
  using assms by (auto simp: observeMissing_def evidence_wf_def currentHead_def list_all_iff head_form_def)

lemma track_wf:
  assumes "track_evidence dev reported tracks = (ev, tracks')" "pred_option evidence_wf reported"
    and "fmpred (\<lambda>_ t. list_all head_form (et_recentHeads t)) tracks"
  shows "pred_option evidence_wf ev" "fmpred (\<lambda>_ t. list_all head_form (et_recentHeads t)) tracks'"
proof -
  have t: "list_all head_form (et_recentHeads (fmget no_track tracks dev))"
    using assms(3) by (cases "fmlookup tracks dev") (auto simp: fmget_def no_track_def fmlookup_dom_iff dest!: fmpredD)
  have "pred_option evidence_wf ev \<and> fmpred (\<lambda>_ t. list_all head_form (et_recentHeads t)) tracks'"
  proof (cases reported)
    case (Some e)
    then show ?thesis using assms observe_wf [of e, OF _ t]
      by (auto simp: track_evidence_def split: prod.splits)
  next
    case None
    then show ?thesis using assms observeMissing_wf by (auto simp: track_evidence_def split: option.splits dest!: fmpredD)
  qed
  then show "pred_option evidence_wf ev" "fmpred (\<lambda>_ t. list_all head_form (et_recentHeads t)) tracks'" by auto
qed

lemma Upsert_wf:
  assumes "registry_wf k r" "node_wf k (nh_DeviceID hb) hb"
  shows "registry_wf k (Upsert wall tick hb r)"
proof -
  obtain ev tracks where t: "track_evidence (nh_DeviceID hb) (nh_Evidence hb) (rg_evidence r) = (ev, tracks)" by fastforce
  have "pred_option evidence_wf ev" "fmpred (\<lambda>_ t. list_all head_form (et_recentHeads t)) tracks"
    using track_wf [OF t] assms by (auto simp: registry_wf_def node_wf_def)
  then show ?thesis using assms t by (auto simp: registry_wf_def Upsert_def node_wf_def Let_def)
qed

lemma node_wf_posture [simp]: "node_wf k dev (n\<lparr>nh_ExportSeverity := s, nh_Posture := p\<rparr>) = node_wf k dev n"
  by (simp add: node_wf_def)

lemma UpsertPosture_wf:
  assumes "registry_wf k r"
  shows "registry_wf k (UpsertPosture dev posture r)"
proof (cases "fmlookup (rg_nodes r) dev")
  case (Some n)
  then have "node_wf k dev n" using assms by (auto simp: registry_wf_def dest: fmpredD)
  then show ?thesis using assms Some by (auto simp: registry_wf_def UpsertPosture_def Let_def intro!: fmpred_upd)
qed (use assms in \<open>auto simp: registry_wf_def UpsertPosture_def Let_def\<close>)

lemma EvictStale_wf: "registry_wf k r \<Longrightarrow> registry_wf k (snd (EvictStale ttl tick r))"
  by (auto simp: registry_wf_def EvictStale_def EvictStaleRetainingCritical_def Let_def)

lemma beat_wf:
  assumes "DeviceIDFromRuntimeNodeHeartbeatTopic topic = Inr dev" "parseRuntimeHeartbeat m = Inr (beat, reasons)"
    and "validate_beat h now dev beat = None"
  shows "node_wf (rh_maxActiveTriggers h) (nh_DeviceID (node_heartbeat beat reasons)) (node_heartbeat beat reasons :: 'p NodeHeartbeat)"
proof -
  note v = assms(3) [unfolded validate_beat_def]
  have b: "rb_DeviceID beat = dev" "rb_Status beat \<in> {NodeStatusHealthy, NodeStatusDegraded, NodeStatusCritical}" "0 < rb_LastSeenMS beat"
    "int (length (rb_ActiveTriggers beat)) \<le> rh_maxActiveTriggers h" "trigger_fault (rb_ActiveTriggers beat) = None"
    using v by (auto split: if_splits option.splits)
  have e: "pred_option evidence_wf (map_option node_evidence (rb_Evidence beat))"
    using v by (auto simp: evidence_wf_def node_evidence_def head_form_def validateEvidenceSignal_def split: if_splits option.splits)
  obtain status where p: "validateRuntimeStatus (fmlookup m ''status'') = Inr status"
    "validateDegradationReasons (fmlookup m ''degradation_reasons'') status = Inr reasons" "decodeRuntimeHeartbeat m = Inr beat"
    using assms(2) by (auto simp: parseRuntimeHeartbeat_def split: sum.splits)
  have st: "fmlookup m ''status'' = Some (VString status)"
    using p(1) by (auto simp: validateRuntimeStatus_def split: option.splits gvalue.splits if_splits)
  have "rb_Status beat = status"
    using p(3) st by (auto simp: decodeRuntimeHeartbeat_def text_field_def Let_def split: option.splits gvalue.splits sum.splits)
  moreover have "pred_option (reasons_ok status) reasons"
  proof (cases reasons)
    case (Some tokens)
    then show ?thesis using p(2) reasons_accepted by auto
  qed simp
  ultimately show ?thesis
    using b e topic_device [OF assms(1)] trigger_fault_None by (auto simp: node_wf_def node_heartbeat_def)
qed

datatype 'p handlerEvent = Message beatReadings string string | Reading string "'p SiteNodePosture" | Silence int int

fun handler_step ::
  "(string \<Rightarrow> bool) \<Rightarrow> strict_decoder \<Rightarrow> canonical_map \<Rightarrow> 'p handlerEvent \<Rightarrow> RuntimeHeartbeatHandler \<times> 'p Registry \<Rightarrow> RuntimeHeartbeatHandler \<times> 'p Registry" where
  "handler_step validUnicode decodeStrict canonical (Message rd topic payload) (h, r) =
     snd (HandleHeartbeat validUnicode decodeStrict canonical rd topic payload h r)"
| "handler_step validUnicode decodeStrict canonical (Reading dev posture) (h, r) = (h, UpsertPosture dev posture r)"
| "handler_step validUnicode decodeStrict canonical (Silence ttl tick) (h, r) = (h, snd (EvictStale ttl tick r))"

lemma step_wf:
  assumes "handler_step validUnicode decodeStrict canonical ev (h, r) = (h', r')" "registry_wf (rh_maxActiveTriggers h) r"
  shows "rh_maxActiveTriggers h' = rh_maxActiveTriggers h \<and> registry_wf (rh_maxActiveTriggers h) r'"
proof (cases ev)
  case (Message rd topic payload)
  obtain e where hd: "HandleHeartbeat validUnicode decodeStrict canonical rd topic payload h r = (e, h', r')"
    using assms(1) Message by (cases "HandleHeartbeat validUnicode decodeStrict canonical rd topic payload h r") auto
  note k = handler_keeps [OF hd]
  from hd have "registry_wf (rh_maxActiveTriggers h) r'"
  proof (cases rule: HandleHeartbeat_cases)
    case (accepted dev m beat reasons)
    show ?thesis unfolding accepted(6) using Upsert_wf [OF assms(2)] beat_wf [OF accepted(2,4,5)] k by simp
  qed (use assms(2) in simp)
  with k show ?thesis by simp
qed (use assms UpsertPosture_wf EvictStale_wf in auto)

text \<open>C25. The registry is well typed. Whatever messages arrive, signed or not, and whatever readings and evictions come between them,
  every record of the registry is of a valid device, under its own name, with one of the three statuses, a positive time, at most the
  allowed triggers, each named and trimmed and bounded, reasons the rule admits for its status, and evidence whose head is
  empty or a digest in lower-case hex.\<close>

theorem registry_well_typed:
  "registry_wf (rh_maxActiveTriggers h) (snd (fold (handler_step validUnicode decodeStrict canonical) evs (h, newRegistry)))"
proof -
  have "rh_maxActiveTriggers (fst s) = rh_maxActiveTriggers h \<and> registry_wf (rh_maxActiveTriggers h) (snd s)"
    if "s = fold (handler_step validUnicode decodeStrict canonical) evs (h, newRegistry)" for s
    using that
  proof (induction evs arbitrary: s rule: rev_induct)
    case Nil
    then show ?case by (simp add: registry_wf_def newRegistry_def)
  next
    case (snoc ev evs)
    obtain h1 r1 where p: "fold (handler_step validUnicode decodeStrict canonical) evs (h, newRegistry) = (h1, r1)" by fastforce
    obtain h2 r2 where q: "handler_step validUnicode decodeStrict canonical ev (h1, r1) = (h2, r2)" by fastforce
    have ih: "rh_maxActiveTriggers h1 = rh_maxActiveTriggers h" "registry_wf (rh_maxActiveTriggers h) r1" using snoc.IH [OF p [symmetric]] by auto
    have "s = (h2, r2)" using snoc.prems p q by simp
    then show ?case using step_wf [OF q] ih by simp
  qed
  then show ?thesis by blast
qed

section \<open>A concrete heartbeat\<close>

definition sample_heartbeat :: "(string \<times> json) list" where
  "sample_heartbeat = [(''device_id'', JString ''pump-1''), (''status'', JString ''healthy''), (''last_seen_ms'', JNum ''1000'')]"

definition sample_handler :: RuntimeHeartbeatHandler where
  "sample_handler = NewRuntimeHeartbeatHandler (Some sample_verifier) 0 0"

definition sample_clocks :: beatReadings where
  "sample_clocks = \<lparr>br_verify = 1000, br_now = 1000000000, br_wall = 1000, br_tick = 5\<rparr>"

lemma first_value_parse: "json_parse s = Some v \<Longrightarrow> first_value s = Some v"
  by (auto simp: json_parse_def first_value_def split: option.splits if_splits)

lemma members_admitted:
  assumes "distinct (map (unquote \<circ> fst) ms)" "set (map (unquote \<circ> fst) ms) \<subseteq> set members" "set (map (unquote \<circ> fst) ms) \<inter> set seen = {}"
    and "list_all (\<lambda>(k, v). nested (unquote k) v = None) ms" "list_all (\<lambda>a. list_all (\<lambda>b. a \<noteq> b \<longrightarrow> \<not> EqualFold a b) members) members"
  shows "refuseInexactMembers members nested seen ms = None"
  using assms
proof (induction ms arbitrary: seen)
  case (Cons m ms)
  obtain k v where m: "m = (k, v)" by fastforce
  have "\<not> list_ex (\<lambda>b. unquote k \<noteq> b \<and> EqualFold (unquote k) b) members"
    using Cons.prems(2,5) m by (auto simp: list_ex_iff list_all_iff)
  then show ?case using Cons.IH [of "unquote k # seen"] Cons.prems m by auto
qed simp

lemma sample_signed_heartbeat:
  "\<exists>payload h' r'. HandleHeartbeat (\<lambda>_. True) (\<lambda>_ _. None) (\<lambda>_. Some ''{}'') sample_clocks ''ori/pump-1/runtime/heartbeat'' payload sample_handler
     (newRegistry :: unit Registry) = (None, h', r')"
proof -
  have q: "plain ''device_id''" "plain ''status''" "plain ''last_seen_ms''" "plain ''pump-1''" "plain ''healthy''" "plain ''auth''" by code_simp+
  have i: "itoa 1000 = ''1000''" by code_simp
  then have n: "json_ok (JNum ''1000'')" by (auto intro: exI [of _ 1000])
  have ok: "json_ok (JObj sample_heartbeat)" "json_depth (JObj sample_heartbeat) < maxNestingDepth" "''auth'' \<notin> unquote ` fst ` set sample_heartbeat"
    "validateExpectedFields (any_members sample_heartbeat) ''pump-1'' [] = None" "TrimSpace ''secret'' = vf_sharedSecret sample_verifier"
    using q n sample_members_ok(5) by (simp_all add: sample_heartbeat_def JString_def maxNestingDepth_def any_members_def validateExpectedFields_def)
  obtain auth where a: "Sign (\<lambda>_. Some ''{}'') (JObj sample_heartbeat) RuntimeHeartbeatMessageType ''pump-1'' [] 1000 ''secret'' = Inr auth" "SignedAtMS auth = 1000"
    using ok(5) by (auto simp: Sign_def CanonicalJSONWithoutAuth_def Let_def sample_verifier_def)
  let ?ms = "sample_heartbeat @ [(''auth'', auth_json auth)]"
  define payload where "payload = print_json (JObj ?ms)"
  have fv: "first_value payload = Some (JObj ?ms)" unfolding payload_def by (rule first_value_parse [OF signed_parses [OF a(1) ok(1,2)]])
  have names: "map (unquote \<circ> fst) ?ms = [''device_id'', ''status'', ''last_seen_ms'', ''auth'']" using q by (simp add: sample_heartbeat_def)
  have far: "list_all (\<lambda>a. list_all (\<lambda>b. a \<noteq> b \<longrightarrow> \<not> EqualFold a b) runtimeHeartbeatMembers) runtimeHeartbeatMembers" by code_simp
  have "refuseInexactMembers runtimeHeartbeatMembers evidence_members [] ?ms = None"
    by (rule members_admitted [OF _ _ _ _ far]) (use q in \<open>simp_all add: sample_heartbeat_def runtimeHeartbeatMembers_def evidence_members_def split: json.splits\<close>)
  then have mem: "refuseInexactHeartbeatMembers payload = None" by (simp add: refuseInexactHeartbeatMembers_def fv)
  have "authenticate (\<lambda>_. True) (\<lambda>_ _. None) (\<lambda>_. Some ''{}'') sample_verifier payload RuntimeHeartbeatMessageType ''pump-1'' [] = Inr (auth, any_members sample_heartbeat)"
    by (rule signed_authenticates [where validUnicode = "\<lambda>_. True" and decodeStrict = "\<lambda>_ _. None", OF a(1) ok(5) _ payload_def ok(1,2) _ _ ok(3,4)]) (simp_all add: maxInt64_def)
  moreover obtain rs where "checkFreshAndRecord (vf_replay sample_verifier) (envelope_of RuntimeHeartbeatMessageType ''pump-1'' [] auth) 1000
      (None :: (bool \<times> unit option) option) = (rs, None, None)" using sample_fresh [OF a(2)] by blast
  ultimately have "VerifyJSON (\<lambda>_. True) (\<lambda>_ _. None) (\<lambda>_. Some ''{}'') 1000 payload RuntimeHeartbeatMessageType ''pump-1'' [] sample_verifier
      = (Inr (any_members sample_heartbeat), sample_verifier\<lparr>vf_replay := rs\<rparr>)" by (simp add: VerifyJSON_def)
  then obtain h' where u: "unsignedPayload (\<lambda>_. True) (\<lambda>_ _. None) (\<lambda>_. Some ''{}'') (br_verify sample_clocks) ''pump-1'' payload sample_handler = (Inr (any_members sample_heartbeat), h')"
    "rh_maxActiveTriggers h' = 64" "rh_maxFutureSkew h' = 300000000000"
    by (simp add: unsignedPayload_def sample_handler_def NewRuntimeHeartbeatHandler_def sample_clocks_def defaultMaxActiveTriggers_def defaultMaxFutureSkew_def)
  have p: "case parseRuntimeHeartbeat (any_members sample_heartbeat) of Inl _ \<Rightarrow> False | Inr (b, rs) \<Rightarrow> rb_DeviceID b = ''pump-1'' \<and> rb_Status b = ''healthy'' \<and> rb_LastSeenMS b = 1000
      \<and> rb_ActiveTriggers b = [] \<and> rb_Evidence b = None" by code_simp
  then obtain b reasons where b: "parseRuntimeHeartbeat (any_members sample_heartbeat) = Inr (b, reasons)" "rb_DeviceID b = ''pump-1''" "rb_Status b = ''healthy''"
    "rb_LastSeenMS b = 1000" "rb_ActiveTriggers b = []" "rb_Evidence b = None" by (auto split: sum.splits)
  have "validate_beat h' (br_now sample_clocks) ''pump-1'' b = None"
    using b u by (simp add: validate_beat_def sample_clocks_def node_status_defs)
  moreover have "DeviceIDFromRuntimeNodeHeartbeatTopic ''ori/pump-1/runtime/heartbeat'' = Inr ''pump-1''" by code_simp
  ultimately show ?thesis using mem u(1) b(1) by (intro exI [of _ payload] exI [of _ h']) (simp add: HandleHeartbeat_def)
qed


end
