(* ===== verification/Go_Float.thy ===== *)
theory Go_Float
  imports Complex_Main "HOL-Library.Log_Nat" Go_Prelude
begin

text \<open>
  Go's \<open>float64\<close>: a rational number rounded to 53 binary digits, to nearest with ties to even, after every operation. The
  programs here compute with values between a billionth and \<open>2 ^ 63\<close>, or zero, so neither the subnormal numbers nor the
  infinities of IEEE 754 are reached, and neither is modelled.
\<close>

section \<open>Rounding\<close>

definition round_even :: "rat \<Rightarrow> int" where
  "round_even y =
     (let f = \<lfloor>y\<rfloor>; d = y - of_int f
      in if d < 1 / 2 then f else if d > 1 / 2 then f + 1 else if even f then f else f + 1)"

text \<open>The exponent of the last binary digit of a positive number: \<open>2 ^ 52 \<le> x / 2 ^ e < 2 ^ 53\<close>.\<close>

definition floor_log2 :: "rat \<Rightarrow> int" where
  "floor_log2 x =
     (case quotient_of x of (p, q) \<Rightarrow>
        let k = bitlen p - bitlen q
        in if 2 powi k \<le> x then k else k - 1)"

definition last_digit :: "rat \<Rightarrow> int" where
  "last_digit x = floor_log2 x - 52"

definition fl64 :: "rat \<Rightarrow> rat" where
  "fl64 x =
     (if x = 0 then 0
      else let a = \<bar>x\<bar>; u = 2 powi last_digit a; m = of_int (round_even (a / u)) * u
      in if x < 0 then - m else m)"

lemma round_even_bounds: "of_int (round_even y) \<le> y + 1 / 2" "y - 1 / 2 \<le> of_int (round_even y)"
proof -
  have b: "of_int \<lfloor>y\<rfloor> \<le> y" "y < of_int \<lfloor>y\<rfloor> + 1" by linarith+
  show "of_int (round_even y) \<le> y + 1 / 2" "y - 1 / 2 \<le> of_int (round_even y)"
    unfolding round_even_def Let_def using b by (auto simp: not_less) linarith+
qed

lemma round_even_int [simp]: "round_even (of_int n) = n"
  by (simp add: round_even_def)

lemma round_even_mono:
  assumes "x \<le> y"
  shows "round_even x \<le> round_even y"
proof (cases "\<lfloor>x\<rfloor> = \<lfloor>y\<rfloor>")
  case True
  then show ?thesis using assms by (auto simp: round_even_def Let_def)
next
  case False
  then have "\<lfloor>x\<rfloor> + 1 \<le> \<lfloor>y\<rfloor>" using floor_mono [OF assms] by linarith
  moreover have "round_even x \<le> \<lfloor>x\<rfloor> + 1" "\<lfloor>y\<rfloor> \<le> round_even y" by (auto simp: round_even_def Let_def)
  ultimately show ?thesis by linarith
qed

lemma floorlog_pow: "0 < n \<Longrightarrow> 2 ^ (floorlog 2 n - 1) \<le> n \<and> n < 2 ^ floorlog 2 n"
  using floorlog_bounds [of n 2] by auto

lemma floor_log2_bounds:
  assumes "0 < x"
  shows "2 powi floor_log2 x \<le> x" "x < 2 powi (floor_log2 x + 1)"
proof -
  obtain p q where q: "quotient_of x = (p, q)" by fastforce
  have pq: "0 < q" "x = of_int p / of_int q" using q quotient_of_denom_pos quotient_of_div by auto
  then have p: "0 < p" using assms by (simp add: zero_less_divide_iff)
  let ?a = "floorlog 2 (nat p)" and ?b = "floorlog 2 (nat q)"
  have a: "2 ^ (?a - 1) \<le> p" "p < 2 ^ ?a" "1 \<le> ?a" using floorlog_pow [of "nat p"] p by (auto simp: floorlog_def nat_less_iff le_nat_iff)
  have b: "2 ^ (?b - 1) \<le> q" "q < 2 ^ ?b" "1 \<le> ?b" using floorlog_pow [of "nat q"] pq(1) by (auto simp: floorlog_def nat_less_iff le_nat_iff)
  define k where "k = int ?a - int ?b"
  have up: "x < 2 powi (k + 1)"
  proof -
    have "x < 2 ^ ?a / 2 ^ (?b - 1)"
    proof -
      have "of_int p < (2 ^ ?a :: rat)" using a(2) by (metis of_int_less_iff of_int_numeral of_int_power)
      moreover have "(2 ^ (?b - 1) :: rat) \<le> of_int q" using b(1) by (metis of_int_le_iff of_int_numeral of_int_power)
      ultimately show ?thesis unfolding pq(2) using p by (intro frac_less) (auto)
    qed
    also have "\<dots> = 2 powi (int ?a - int (?b - 1))" by (simp add: power_int_diff)
    also have "int ?a - int (?b - 1) = k + 1" using b(3) by (simp add: k_def of_nat_diff)
    finally show ?thesis .
  qed
  have low: "2 powi (k - 1) \<le> x"
  proof -
    have "k - 1 = int (?a - 1) - int ?b" using a(3) by (simp add: k_def of_nat_diff)
    then have "2 powi (k - 1) = (2 powi (int (?a - 1) - int ?b) :: rat)" by (rule arg_cong)
    also have "\<dots> = 2 ^ (?a - 1) / 2 ^ ?b" by (simp add: power_int_diff)
    also have "\<dots> \<le> x"
    proof -
      have "(2 ^ (?a - 1) :: rat) \<le> of_int p" using a(1) by (metis of_int_le_iff of_int_numeral of_int_power)
      moreover have "of_int q \<le> (2 ^ ?b :: rat)" using b(2) by (metis of_int_le_iff of_int_numeral of_int_power less_imp_le)
      ultimately show ?thesis unfolding pq(2) using pq(1) p by (intro frac_le) auto
    qed
    finally show ?thesis .
  qed
  show "2 powi floor_log2 x \<le> x" "x < 2 powi (floor_log2 x + 1)"
    using up low by (auto simp: floor_log2_def bitlen_def q Let_def k_def [symmetric] not_le)
qed

lemma last_digit_bounds:
  assumes "0 < x"
  shows "2 ^ 52 \<le> x / 2 powi last_digit x" "x / 2 powi last_digit x < 2 ^ 53"
proof -
  have e: "floor_log2 x = last_digit x + 52" by (simp add: last_digit_def)
  have "2 powi (last_digit x + 52) = 2 powi last_digit x * (2 ^ 52 :: rat)" "2 powi (last_digit x + 52 + 1) = 2 powi last_digit x * (2 ^ 53 :: rat)"
    by (simp_all add: power_int_add)
  then show "2 ^ 52 \<le> x / 2 powi last_digit x" "x / 2 powi last_digit x < 2 ^ 53"
    using floor_log2_bounds [OF assms] unfolding e by (simp_all add: field_simps)
qed

lemma fl64_pos: "0 < x \<Longrightarrow> fl64 x = of_int (round_even (x / 2 powi last_digit x)) * 2 powi last_digit x"
  by (simp add: fl64_def Let_def)

lemma fl64_0 [simp]: "fl64 0 = 0"
  by (simp add: fl64_def)

lemma fl64_range:
  assumes "0 < x"
  shows "2 ^ 52 * 2 powi last_digit x \<le> fl64 x" "fl64 x \<le> 2 ^ 53 * 2 powi last_digit x"
proof -
  let ?y = "x / 2 powi last_digit x"
  have "round_even (of_int (2 ^ 52)) \<le> round_even ?y" "round_even ?y \<le> round_even (of_int (2 ^ 53))"
    using last_digit_bounds [OF assms] by (auto intro!: round_even_mono)
  then have "2 ^ 52 \<le> round_even ?y" "round_even ?y \<le> 2 ^ 53" unfolding round_even_int .
  then have "(2 ^ 52 :: rat) \<le> of_int (round_even ?y)" "of_int (round_even ?y) \<le> (2 ^ 53 :: rat)"
    by (metis of_int_le_iff of_int_numeral of_int_power)+
  then show "2 ^ 52 * 2 powi last_digit x \<le> fl64 x" "fl64 x \<le> 2 ^ 53 * 2 powi last_digit x"
    unfolding fl64_pos [OF assms] by (auto intro!: mult_right_mono)
qed

lemma fl64_nonneg [simp]: "0 \<le> x \<Longrightarrow> 0 \<le> fl64 x"
  using fl64_range(1) [of x] by (cases "x = 0") (auto intro: order_trans [rotated])

lemma powi_less: "e < f \<Longrightarrow> 2 ^ 53 * 2 powi e \<le> (2 ^ 52 * 2 powi f :: rat)"
proof -
  assume "e < f"
  then have "2 powi (e + 1) \<le> (2 powi f :: rat)" by (intro power_int_increasing) auto
  then show ?thesis by (simp add: power_int_add)
qed

lemma fl64_mono:
  assumes "0 \<le> x" "x \<le> y"
  shows "fl64 x \<le> fl64 y"
proof (cases "x = 0")
  case True
  then show ?thesis using assms by simp
next
  case False
  then have x: "0 < x" and y: "0 < y" using assms by auto
  consider "last_digit x = last_digit y" | "last_digit x < last_digit y" | "last_digit y < last_digit x" by linarith
  then show ?thesis
  proof cases
    case 1
    then show ?thesis unfolding fl64_pos [OF x] fl64_pos [OF y]
      using assms(2) by (auto intro!: mult_right_mono round_even_mono divide_right_mono simp: of_int_le_iff)
  next
    case 2
    then show ?thesis using fl64_range(2) [OF x] fl64_range(1) [OF y] powi_less [OF 2] by linarith
  next
    case 3
    have "y < 2 ^ 53 * 2 powi last_digit y" "2 ^ 52 * 2 powi last_digit x \<le> x"
      using last_digit_bounds(2) [OF y] last_digit_bounds(1) [OF x] by (simp_all add: field_simps)
    then show ?thesis using powi_less [OF 3] assms(2) by linarith
  qed
qed

lemma fl64_int:
  assumes "0 \<le> n" "n < 2 ^ 53"
  shows "fl64 (of_int n) = of_int n"
proof (cases "n = 0")
  case False
  then have p: "0 < (of_int n :: rat)" using assms by simp
  let ?e = "last_digit (of_int n)"
  have "?e \<le> 0"
  proof (rule ccontr)
    assume "\<not> ?e \<le> 0"
    then have "2 powi 1 \<le> (2 powi ?e :: rat)" by (intro power_int_increasing) auto
    moreover have "2 ^ 52 * 2 powi ?e \<le> (of_int n :: rat)" using last_digit_bounds(1) [OF p] by (simp add: field_simps)
    moreover have "(of_int n :: rat) < 2 ^ 53" using assms(2) by (metis of_int_less_iff of_int_numeral of_int_power)
    ultimately show False by simp
  qed
  then have "of_int n / 2 powi ?e = (of_int (n * 2 ^ nat (- ?e)) :: rat)"
    by (simp add: power_int_def inverse_eq_divide field_simps)
  then show ?thesis unfolding fl64_pos [OF p] by (simp only: round_even_int) (simp add: power_int_def inverse_eq_divide field_simps)
qed simp

text \<open>A number with at most 53 significant binary digits is not rounded; so rounding again changes nothing, and one taken from such a number
  that is at least one, and below \<open>2 ^ 53\<close>, is exact.\<close>

lemma fl64_whole:
  assumes "0 < x" "x / 2 powi last_digit x = of_int k"
  shows "fl64 x = x"
proof -
  have "fl64 x = of_int k * 2 powi last_digit x" unfolding fl64_pos [OF assms(1)] assms(2) by simp
  also have "\<dots> = x" unfolding assms(2) [symmetric] by simp
  finally show ?thesis .
qed

lemma fl64_repr:
  assumes "0 \<le> m" "m \<le> 2 ^ 53"
  shows "fl64 (of_int m * 2 powi e) = of_int m * 2 powi e"
proof (cases "m = 0")
  case False
  define x where "x = (of_int m * 2 powi e :: rat)"
  define d where "d = last_digit x"
  have x: "0 < x" using assms(1) False by (simp add: x_def)
  have q: "x / 2 powi d = of_int m * 2 powi (e - d)" by (simp add: x_def power_int_diff)
  have m: "of_int m \<le> (2 ^ 53 :: rat)" using assms(2) by (metis of_int_le_iff of_int_numeral of_int_power)
  have "\<exists>k. x / 2 powi d = of_int k"
  proof (cases "d \<le> e")
    case True
    then have "of_int m * 2 powi (e - d) = (of_int (m * 2 ^ nat (e - d)) :: rat)" by (simp add: power_int_def)
    then show ?thesis unfolding q by blast
  next
    case False
    then have "2 powi (e - d) \<le> (2 powi (-1) :: rat)" by (intro power_int_increasing) auto
    then have h: "2 powi (e - d) \<le> (1 / 2 :: rat)" by simp
    have "of_int m * 2 powi (e - d) \<le> (2 ^ 53 * (1 / 2) :: rat)" by (rule mult_mono [OF m h]) auto
    then have "x / 2 powi d = 2 ^ 52" using last_digit_bounds(1) [OF x] unfolding d_def [symmetric] q by simp
    then show ?thesis by (metis of_int_numeral of_int_power)
  qed
  then show ?thesis using fl64_whole [OF x] unfolding d_def x_def by blast
qed simp

lemma fl64_idem [simp]: "0 \<le> x \<Longrightarrow> fl64 (fl64 x) = fl64 x"
proof (cases "x = 0")
  case False
  assume "0 \<le> x"
  then have x: "0 < x" using False by simp
  let ?u = "2 powi last_digit x :: rat" and ?m = "round_even (x / 2 powi last_digit x)"
  have "2 ^ 52 * ?u \<le> of_int ?m * ?u" "of_int ?m * ?u \<le> 2 ^ 53 * ?u" using fl64_range [OF x] unfolding fl64_pos [OF x] .
  then have "(0 :: rat) \<le> of_int ?m" "of_int ?m \<le> (2 ^ 53 :: rat)" by (simp_all del: power_int_eq_0_iff)
  then have "0 \<le> ?m" "?m \<le> 2 ^ 53" by (simp, metis of_int_le_iff of_int_numeral of_int_power)
  from fl64_repr [OF this] show ?thesis unfolding fl64_pos [OF x] .
qed simp

lemma fl64_pred:
  assumes "fl64 t = t" "1 \<le> t" "t < 2 ^ 53"
  shows "fl64 (t - 1) = t - 1"
proof -
  define d where "d = last_digit t"
  define m where "m = round_even (t / 2 powi d)"
  have t: "0 < t" using assms(2) by simp
  have tm: "t = of_int m * 2 powi d" using assms(1) fl64_pos [OF t] by (simp add: m_def d_def)
  have d: "d \<le> 0"
  proof (rule ccontr)
    assume "\<not> d \<le> 0"
    then have "2 powi 1 \<le> (2 powi d :: rat)" by (intro power_int_increasing) auto
    moreover have "2 ^ 52 * 2 powi d \<le> t" using last_digit_bounds(1) [OF t] by (simp add: d_def field_simps)
    ultimately show False using assms(3) by simp
  qed
  have "of_int (m - 2 ^ nat (- d)) * 2 powi d = t - 1" unfolding tm using d by (simp add: power_int_def algebra_simps inverse_eq_divide power_mult_distrib [symmetric])
  moreover have "t - 1 < 2 ^ 53 * 2 powi d" using last_digit_bounds(2) [OF t] assms(2) by (simp add: d_def field_simps)
  ultimately have b: "0 \<le> (of_int (m - 2 ^ nat (- d)) * 2 powi d :: rat)" "of_int (m - 2 ^ nat (- d)) * 2 powi d < (2 ^ 53 * 2 powi d :: rat)" and e: "of_int (m - 2 ^ nat (- d)) * 2 powi d = t - 1"
    using assms(2) by simp_all
  have pos: "0 < (2 powi d :: rat)" by simp
  have "0 \<le> (of_int (m - 2 ^ nat (- d)) :: rat)" using b(1) pos by (simp only: zero_le_mult_iff) linarith
  then have "0 \<le> m - 2 ^ nat (- d)" by (simp only: of_int_0_le_iff)
  moreover have "(of_int (m - 2 ^ nat (- d)) :: rat) < 2 ^ 53" using b(2) by (simp only: mult_less_cancel_right) auto
  then have "m - 2 ^ nat (- d) \<le> 2 ^ 53" by (metis of_int_less_iff of_int_numeral of_int_power order_less_imp_le)
  ultimately show ?thesis using fl64_repr [of "m - 2 ^ nat (- d)" d] unfolding e by blast
qed

lemma fl64_upper:
  assumes "0 \<le> x"
  shows "fl64 x \<le> x * (1 + 1 / 2 ^ 53)"
proof (cases "x = 0")
  case False
  then have p: "0 < x" using assms by simp
  let ?u = "2 powi last_digit x :: rat"
  have "fl64 x \<le> (x / ?u + 1 / 2) * ?u" unfolding fl64_pos [OF p] using round_even_bounds(1) by (intro mult_right_mono) auto
  also have "\<dots> = x + ?u / 2" by (simp add: field_simps)
  also have "?u / 2 \<le> x / 2 ^ 53" using last_digit_bounds(1) [OF p] by (simp add: field_simps)
  finally show ?thesis by (simp add: field_simps)
qed simp

section \<open>Durations\<close>

text \<open>The difference of two clock readings saturates; \<open>Duration.Seconds\<close> adds the whole seconds and the rest.\<close>

definition time_Sub :: "int \<Rightarrow> int \<Rightarrow> int" where
  "time_Sub t u = max minInt64 (min maxInt64 (t - u))"

definition Seconds :: "int \<Rightarrow> rat" where
  "Seconds d =
     (let s = (\<lambda>n. fl64 (fl64 (of_int (n div 1000000000)) + fl64 (fl64 (of_int (n mod 1000000000)) / 1000000000)))
      in if d < 0 then - s (- d) else s d)"

lemma Seconds_nonneg: "0 \<le> d \<Longrightarrow> 0 \<le> Seconds d"
  by (simp add: Seconds_def Let_def)

lemma Seconds_le_0: "d \<le> 0 \<Longrightarrow> Seconds d \<le> 0"
  using Seconds_nonneg [of "- d"] by (cases "d = 0") (auto simp: Seconds_def Let_def)

lemma Seconds_upper:
  assumes "0 \<le> d" "d \<le> maxInt64"
  shows "Seconds d \<le> of_int d / 1000000000 * (1 + 1 / 2 ^ 51)"
proof -
  let ?u = "1 + 1 / 2 ^ 53 :: rat" and ?s = "of_int (d div 1000000000) :: rat" and ?n = "of_int (d mod 1000000000) / 1000000000 :: rat"
  have i: "fl64 ?s = ?s" "fl64 (of_int (d mod 1000000000)) = of_int (d mod 1000000000)"
    using assms by (auto intro!: fl64_int simp: maxInt64_def)
  have pos: "0 \<le> ?s" "0 \<le> ?n" using assms by (auto intro!: pos_imp_zdiv_nonneg_iff [THEN iffD2] divide_nonneg_nonneg)
  have "fl64 ?n \<le> ?n * ?u" using pos by (intro fl64_upper)
  then have "?s + fl64 ?n \<le> (?s + ?n) * ?u" using pos by (simp add: algebra_simps)
  then have "Seconds d \<le> ((?s + ?n) * ?u) * ?u"
    using fl64_upper [of "?s + fl64 ?n"] pos assms(1) i
    by (auto simp: Seconds_def Let_def intro: order_trans [OF _ mult_right_mono])
  moreover have "?s + ?n = of_int d / 1000000000"
  proof -
    have "(of_int d :: rat) = of_int (d div 1000000000 * 1000000000 + d mod 1000000000)" by simp
    then show ?thesis by (simp only: of_int_add of_int_mult) (simp add: field_simps)
  qed
  moreover have "of_int d / 1000000000 * ?u * ?u \<le> of_int d / 1000000000 * (1 + 1 / 2 ^ 51 :: rat)" using assms(1) by simp
  ultimately show ?thesis by simp
qed

end
