(* ===== verification/Token_Bucket.thy ===== *)
theory Token_Bucket
  imports Go_Float
begin

text \<open>
  The token buckets the broker's ingress gate and the webhook bridge both compute in \<open>float64\<close>: a level that refills with the time
  since it was last read, up to a cap, and that an admitted request is charged to. The bounds here take every rounding into account.
\<close>

section \<open>One bucket\<close>

definition refill :: "rat \<Rightarrow> rat \<Rightarrow> rat \<Rightarrow> rat \<Rightarrow> rat" where
  "refill cap rate elapsed v = (if elapsed > 0 then min cap (fl64 (v + fl64 (elapsed * rate))) else v)"

definition spend :: "rat \<Rightarrow> rat \<Rightarrow> rat" where
  "spend v cost = fl64 (v - cost)"

lemma refill_range:
  assumes "0 \<le> v" "v \<le> cap" "0 \<le> rate"
  shows "0 \<le> refill cap rate elapsed v" "refill cap rate elapsed v \<le> cap"
  using assms by (auto simp: refill_def)

lemma refill_grows:
  assumes "0 \<le> v" "v \<le> cap" "0 \<le> rate" "cap = of_int c" "c < 2 ^ 53" "0 < elapsed" "cap \<le> elapsed * rate"
  shows "refill cap rate elapsed v = cap"
proof -
  have "fl64 cap \<le> fl64 (elapsed * rate)" using assms by (intro fl64_mono) auto
  moreover have f: "fl64 cap = cap" using assms fl64_int [of c] by (simp add: assms(4))
  ultimately have "cap \<le> v + fl64 (elapsed * rate)" using assms(1) by simp
  then have "fl64 cap \<le> fl64 (v + fl64 (elapsed * rate))" using assms by (intro fl64_mono) auto
  then show ?thesis using f assms(6) by (simp add: refill_def)
qed

lemma refill_upper:
  assumes "0 \<le> v" "v \<le> cap" "0 \<le> rate" "0 \<le> elapsed"
  shows "refill cap rate elapsed v \<le> v + elapsed * rate * (1 + 1 / 2 ^ 51) + cap / 2 ^ 53"
proof (cases "elapsed > 0")
  case True
  let ?u = "1 + 1 / 2 ^ 53 :: rat"
  have a: "fl64 (elapsed * rate) \<le> elapsed * rate * ?u" using assms by (intro fl64_upper) simp
  have "refill cap rate elapsed v \<le> fl64 (v + fl64 (elapsed * rate))" using True by (simp add: refill_def)
  also have "\<dots> \<le> (v + fl64 (elapsed * rate)) * ?u" using assms by (intro fl64_upper) (auto intro!: add_nonneg_nonneg)
  also have "\<dots> \<le> (v + elapsed * rate * ?u) * ?u" using a by (intro mult_right_mono) auto
  also have "\<dots> = v + v / 2 ^ 53 + elapsed * rate * (?u * ?u)" by (simp add: algebra_simps)
  also have "elapsed * rate * (?u * ?u) \<le> elapsed * rate * (1 + 1 / 2 ^ 51)" using assms by (intro mult_left_mono) auto
  finally show ?thesis using assms(2) by simp
qed (use assms in \<open>auto simp: refill_def\<close>)

lemma spend_range:
  assumes "0 \<le> cost" "cost \<le> v" "v \<le> cap" "cap = of_int c" "c < 2 ^ 53"
  shows "0 \<le> spend v cost" "spend v cost \<le> cap" "spend v cost \<le> v - cost + cap / 2 ^ 53"
proof -
  have v: "0 \<le> v - cost" "v - cost \<le> cap" using assms by auto
  then have c: "0 \<le> c" using assms(4) by (metis of_int_0_le_iff order_trans)
  show "0 \<le> spend v cost" using v by (simp add: spend_def)
  have "fl64 (v - cost) \<le> fl64 cap" using v by (intro fl64_mono)
  then show "spend v cost \<le> cap" using fl64_int [OF c assms(5)] by (simp add: spend_def assms(4))
  have "fl64 (v - cost) \<le> (v - cost) * (1 + 1 / 2 ^ 53)" using v by (intro fl64_upper)
  also have "\<dots> = v - cost + (v - cost) / 2 ^ 53" by (simp add: field_simps)
  also have "\<dots> \<le> v - cost + cap / 2 ^ 53" using v by (simp add: divide_right_mono)
  finally show "spend v cost \<le> v - cost + cap / 2 ^ 53" by (simp add: spend_def)
qed

section \<open>A run\<close>

text \<open>A bucket as its client reads it: at each reading of the clock it refills, and is charged or not.\<close>

definition bucket_turn :: "rat \<Rightarrow> rat \<Rightarrow> rat \<times> int \<Rightarrow> int \<times> rat option \<Rightarrow> rat \<times> int" where
  "bucket_turn cap rate b e =
     (let w = refill cap rate (Seconds (time_Sub (fst e) (snd b))) (fst b)
      in (case snd e of None \<Rightarrow> w | Some c \<Rightarrow> spend w c, fst e))"

text \<open>Every charge is within the level it is charged to, and the clock does not go back.\<close>

fun affordable :: "rat \<Rightarrow> rat \<Rightarrow> rat \<times> int \<Rightarrow> (int \<times> rat option) list \<Rightarrow> bool" where
  "affordable cap rate b [] = True"
| "affordable cap rate b (e # es) \<longleftrightarrow>
     snd b \<le> fst e \<and> (case snd e of None \<Rightarrow> True | Some c \<Rightarrow> 0 \<le> c \<and> c \<le> refill cap rate (Seconds (time_Sub (fst e) (snd b))) (fst b))
     \<and> affordable cap rate (bucket_turn cap rate b e) es"

definition charged :: "(int \<times> rat option) list \<Rightarrow> rat" where
  "charged es = sum_list (map (\<lambda>e. case snd e of None \<Rightarrow> 0 | Some c \<Rightarrow> c) es)"

definition end_of :: "int \<Rightarrow> (int \<times> 'a) list \<Rightarrow> int" where
  "end_of t es = (if es = [] then t else fst (last es))"

lemma time_Sub_upper: "0 \<le> d \<Longrightarrow> time_Sub (t + d) t \<le> d" "0 \<le> d \<Longrightarrow> 0 \<le> time_Sub (t + d) t" "time_Sub t u \<le> maxInt64"
  by (auto simp: time_Sub_def minInt64_def maxInt64_def)

lemma affordable_total:
  assumes "affordable cap rate b es" "0 \<le> fst b" "fst b \<le> cap" "0 \<le> rate" "cap = of_int c" "c < 2 ^ 53"
  shows "charged es \<le> fst b + rate * of_int (end_of (snd b) es - snd b) / 1000000000 * (1 + 1 / 2 ^ 49) + of_nat (length es) * cap / 2 ^ 52
    \<and> snd b \<le> end_of (snd b) es"
  using assms(1-3)
proof (induction es arbitrary: b)
  case Nil
  then show ?case by (simp add: end_of_def charged_def)
next
  case (Cons e es)
  let ?t = "snd b" and ?now = "fst e"
  let ?d = "time_Sub ?now ?t" and ?w = "refill cap rate (Seconds (time_Sub ?now ?t)) (fst b)"
  define pay where "pay = (case snd e of None \<Rightarrow> 0 | Some c \<Rightarrow> c)"
  define v where "v = fst (bucket_turn cap rate b e)"
  have a: "?t \<le> ?now" "affordable cap rate (bucket_turn cap rate b e) es" using Cons.prems(1) by auto
  have now: "snd (bucket_turn cap rate b e) = ?now" by (simp add: bucket_turn_def Let_def)
  have d: "0 \<le> ?d" "?d \<le> ?now - ?t" "?d \<le> maxInt64" using time_Sub_upper [of "?now - ?t" ?t] time_Sub_upper(3) a(1) by auto
  have w: "0 \<le> ?w" "?w \<le> cap" using refill_range Cons.prems assms(4) by auto
  have sp: "0 \<le> v" "v \<le> cap" "v \<le> ?w - pay + cap / 2 ^ 53"
  proof -
    have cap: "0 \<le> cap" using w by linarith
    show "0 \<le> v" "v \<le> cap" "v \<le> ?w - pay + cap / 2 ^ 53"
      using Cons.prems(1) w cap spend_range [OF _ _ w(2) assms(5,6)] by (auto simp: v_def pay_def bucket_turn_def Let_def split: option.splits)
  qed
  have ih: "charged es \<le> v + rate * of_int (end_of ?now es - ?now) / 1000000000 * (1 + 1 / 2 ^ 49) + of_nat (length es) * cap / 2 ^ 52"
    "?now \<le> end_of ?now es" using Cons.IH [OF a(2)] sp now by (auto simp: v_def)
  have s: "0 \<le> Seconds ?d" "Seconds ?d \<le> of_int (?now - ?t) / 1000000000 * (1 + 1 / 2 ^ 51)"
    using Seconds_nonneg [OF d(1)] order_trans [OF Seconds_upper [OF d(1,3)] mult_right_mono [of "of_int ?d / 1000000000" "of_int (?now - ?t) / 1000000000"]] d
    by (auto simp: divide_right_mono)
  have "?w \<le> fst b + Seconds ?d * rate * (1 + 1 / 2 ^ 51) + cap / 2 ^ 53" using refill_upper Cons.prems assms(4) s(1) by auto
  also have "Seconds ?d * rate * (1 + 1 / 2 ^ 51) \<le> (of_int (?now - ?t) / 1000000000 * (1 + 1 / 2 ^ 51)) * rate * (1 + 1 / 2 ^ 51)"
    using s assms(4) by (intro mult_right_mono) auto
  also have "\<dots> = rate * of_int (?now - ?t) / 1000000000 * ((1 + 1 / 2 ^ 51) * (1 + 1 / 2 ^ 51))" by (simp add: field_simps)
  also have "\<dots> \<le> rate * of_int (?now - ?t) / 1000000000 * (1 + 1 / 2 ^ 49)" using assms(4) a(1) by (intro mult_left_mono) auto
  finally have w2: "?w \<le> fst b + rate * of_int (?now - ?t) / 1000000000 * (1 + 1 / 2 ^ 49) + cap / 2 ^ 53" by simp
  have last: "end_of ?t (e # es) = end_of ?now es" by (simp add: end_of_def)
  define K where "K = (1 + 1 / 2 ^ 49 :: rat)"
  define A where "A = rate * of_int (?now - ?t) / 1000000000"
  define B where "B = rate * of_int (end_of ?now es - ?now) / 1000000000"
  have ab: "rate * of_int (end_of ?now es - ?t) / 1000000000 = A + B" by (simp add: A_def B_def field_simps)
  have n: "of_nat (length (e # es)) * cap / 2 ^ 52 = cap / 2 ^ 52 + of_nat (length es) * cap / 2 ^ 52" by (simp add: field_simps)
  have sum: "charged (e # es) = pay + charged es" by (simp add: charged_def pay_def)
  have "pay + charged es \<le> fst b + (A + B) * K + (cap / 2 ^ 52 + of_nat (length es) * cap / 2 ^ 52)"
    using ih(1) [folded K_def B_def] w2 [folded K_def A_def] sp(3) unfolding distrib_right by simp
  then show ?case using ih(2) a(1) unfolding last sum n ab K_def by simp
qed

text \<open>What a bucket that starts full can pay for within some nanoseconds, read a number of times.\<close>

definition allowance :: "rat \<Rightarrow> rat \<Rightarrow> int \<Rightarrow> nat \<Rightarrow> rat" where
  "allowance burst perSecond ns n =
     burst + perSecond * of_int ns / 1000000000 * (1 + 1 / 2 ^ 49) + of_nat n * burst / 2 ^ 52"

lemma allowance_mono:
  assumes "ns \<le> ns'" "n \<le> n'" "0 \<le> burst" "0 \<le> per"
  shows "allowance burst per ns n \<le> allowance burst per ns' n'"
proof -
  have "per * of_int ns / 1000000000 * (1 + 1 / 2 ^ 49) \<le> per * of_int ns' / 1000000000 * (1 + 1 / 2 ^ 49)"
    using assms by (intro mult_right_mono divide_right_mono mult_left_mono) auto
  moreover have "of_nat n * burst / 2 ^ 52 \<le> of_nat n' * burst / 2 ^ 52"
    using assms by (intro divide_right_mono mult_right_mono) auto
  ultimately show ?thesis unfolding allowance_def by (intro add_mono order_refl)
qed

lemma affordable_allowance:
  assumes "affordable cap rate (cap, start) es" "0 \<le> rate" "0 \<le> c" "cap = of_int c" "c < 2 ^ 53"
    "list_all (\<lambda>e. fst e \<le> finish) es" "start \<le> finish" "length es \<le> n"
  shows "charged es \<le> allowance cap rate (finish - start) n"
proof -
  have "charged es \<le> allowance cap rate (end_of start es - start) (length es)"
    using affordable_total [OF assms(1) _ _ assms(2,4,5)] assms(3,4) by (simp add: allowance_def)
  also have "\<dots> \<le> allowance cap rate (finish - start) n"
  proof (rule allowance_mono)
    show "end_of start es - start \<le> finish - start" using assms(6,7) by (cases es rule: rev_cases) (auto simp: end_of_def)
  qed (use assms in auto)
  finally show ?thesis .
qed

end
