(* ===== verification/Broker.thy ===== *)
theory Broker
  imports Contracts Token_Bucket
begin

text \<open>
  The broker client, \<open>internal/broker\<close>: the ingress gate that bounds what a subscription hands to its handler (\<open>ingress.go\<close>), with
  the refusals it counts and logs, and the client's connection and subscriptions (\<open>broker.go\<close>).

  The MQTT library is a parameter: whether a call to it succeeded is an argument. Clock readings are nanoseconds. What the
  logger is handed is a result; the queue in front of the logger is left out.
\<close>

section \<open>Refusals\<close>

definition RefusalPayloadTooLarge :: string where "RefusalPayloadTooLarge = ''payload_too_large''"
definition RefusalVolumeDropped :: string where "RefusalVolumeDropped = ''volume_dropped''"
definition refusalHeldLimit :: string where "refusalHeldLimit = ''held_limit''"
definition ingressLogInterval :: int where "ingressLogInterval = 1000000000"

record IngressCount =
  ic_PayloadTooLarge :: int
  ic_VolumeDropped :: int

record ingressPending =
  ip_count :: int
  ip_classes :: "int fset"
  ip_loggedAt :: "int option"
  ip_flushing :: bool

record IngressStats =
  is_counts :: "(string, IngressCount) fmap"
  is_unlogged :: "(string \<times> string, ingressPending) fmap"

definition NewIngressStats :: IngressStats where
  "NewIngressStats = \<lparr>is_counts = fmempty, is_unlogged = fmempty\<rparr>"

record ingressLine =
  il_count :: int
  il_classes :: "int list"

definition uint64 :: "int \<Rightarrow> int" where "uint64 n = n mod 2 ^ 64"

definition no_pending :: ingressPending where
  "no_pending = \<lparr>ip_count = 0, ip_classes = {||}, ip_loggedAt = None, ip_flushing = False\<rparr>"

definition takeLocked :: "string \<times> string \<Rightarrow> int \<Rightarrow> IngressStats \<Rightarrow> ingressLine \<times> IngressStats" where
  "takeLocked key now s =
     (let p = fmget no_pending (is_unlogged s) key
      in (\<lparr>il_count = ip_count p, il_classes = sorted_list_of_fset (ip_classes p)\<rparr>,
          s\<lparr>is_unlogged := fmupd key (p\<lparr>ip_count := 0, ip_classes := {||}, ip_loggedAt := Some now\<rparr>) (is_unlogged s)\<rparr>))"

definition written :: "string \<times> string \<Rightarrow> ingressLine \<Rightarrow> ((string \<times> string) \<times> ingressLine) option" where
  "written key line = (if il_count line = 0 then None else Some (key, line))"

definition count_refusal :: "string \<Rightarrow> string \<Rightarrow> IngressStats \<Rightarrow> IngressStats" where
  "count_refusal family reason s =
     (let c = fmget \<lparr>ic_PayloadTooLarge = 0, ic_VolumeDropped = 0\<rparr> (is_counts s) family;
          c' = (if reason = RefusalPayloadTooLarge then c\<lparr>ic_PayloadTooLarge := uint64 (ic_PayloadTooLarge c + 1)\<rparr>
                else if reason = RefusalVolumeDropped \<or> reason = refusalHeldLimit then c\<lparr>ic_VolumeDropped := uint64 (ic_VolumeDropped c + 1)\<rparr>
                else c)
      in s\<lparr>is_counts := fmupd family c' (is_counts s)\<rparr>)"

definition refuse_message ::
  "string \<Rightarrow> string \<Rightarrow> int \<Rightarrow> int \<Rightarrow> IngressStats \<Rightarrow> ((string \<times> string) \<times> ingressLine) option \<times> IngressStats" where
  "refuse_message family reason len now s0 =
     (let s = count_refusal family reason s0; key = (family, reason);
          p = fmget no_pending (is_unlogged s) key;
          p1 = p\<lparr>ip_count := uint64 (ip_count p + 1),
                 ip_classes := (if reason = RefusalPayloadTooLarge then finsert (SizeClass len) (ip_classes p) else ip_classes p)\<rparr>;
          s1 = s\<lparr>is_unlogged := fmupd key p1 (is_unlogged s)\<rparr>
      in if ip_flushing p1 then (None, s1)
         else if (case ip_loggedAt p1 of None \<Rightarrow> False | Some t \<Rightarrow> time_Sub (t + ingressLogInterval) now > 0)
         then (None, s1\<lparr>is_unlogged := fmupd key (p1\<lparr>ip_flushing := True\<rparr>) (is_unlogged s1)\<rparr>)
         else case takeLocked key now s1 of (line, s2) \<Rightarrow> (written key line, s2))"

text \<open>The timer a pending line waits for.\<close>

definition flush :: "string \<times> string \<Rightarrow> int \<Rightarrow> IngressStats \<Rightarrow> ((string \<times> string) \<times> ingressLine) option \<times> IngressStats" where
  "flush key now s =
     (let p = fmget no_pending (is_unlogged s) key;
          s1 = s\<lparr>is_unlogged := fmupd key (p\<lparr>ip_flushing := False\<rparr>) (is_unlogged s)\<rparr>
      in case takeLocked key now s1 of (line, s2) \<Rightarrow> (written key line, s2))"

section \<open>The gate\<close>

record IngressRate =
  ir_PerSecond :: int
  ir_Burst :: int
  ir_BytesPerSecond :: int
  ir_BurstBytes :: int

definition IngressRates :: "(string \<times> IngressRate) list" where
  "IngressRates =
     [(FamilyRuntimeHeartbeat, \<lparr>ir_PerSecond = 1, ir_Burst = 5, ir_BytesPerSecond = 131072, ir_BurstBytes = 262144\<rparr>),
      (FamilyReasoningRequest, \<lparr>ir_PerSecond = 10, ir_Burst = 20, ir_BytesPerSecond = 524288, ir_BurstBytes = 1048576\<rparr>),
      (FamilyEnrichmentRequest, \<lparr>ir_PerSecond = 2, ir_Burst = 10, ir_BytesPerSecond = 262144, ir_BurstBytes = 524288\<rparr>),
      (FamilyExportResponse, \<lparr>ir_PerSecond = 20, ir_Burst = 64, ir_BytesPerSecond = 4194304, ir_BurstBytes = 16777216\<rparr>),
      (FamilyEvidenceOutbound, \<lparr>ir_PerSecond = 20, ir_Burst = 160, ir_BytesPerSecond = 2097152, ir_BurstBytes = 4194304\<rparr>),
      (FamilyEvidenceInboundAck, \<lparr>ir_PerSecond = 20, ir_Burst = 64, ir_BytesPerSecond = 65536, ir_BurstBytes = 262144\<rparr>)]"

datatype brokerError =
    ContextEnded | EmptyTopic | InvalidQoS | NilHandler | NoPayloadMaximum | NoIngressRate | NotConnected | SubscriptionExists
  | AlreadyConnected | TransportFailed

definition CheckSubscription :: "string \<Rightarrow> brokerError option" where
  "CheckSubscription topic =
     (case PayloadFamily topic of None \<Rightarrow> Some NoPayloadMaximum
      | Some family \<Rightarrow> if map_of IngressRates family = None then Some NoIngressRate else None)"

record ingressBucket =
  ib_tokens :: rat
  ib_bytes :: rat
  ib_last :: int

definition newIngressBucket :: "IngressRate \<Rightarrow> int \<Rightarrow> ingressBucket" where
  "newIngressBucket rate now = \<lparr>ib_tokens = of_int (ir_Burst rate), ib_bytes = of_int (ir_BurstBytes rate), ib_last = now\<rparr>"

record ingressGate =
  ig_family :: string
  ig_maximum :: int
  ig_rate :: IngressRate
  ig_perDevice :: bool
  ig_buckets :: "(string, ingressBucket) fmap"
  ig_overflow :: ingressBucket

definition deviceSegment :: "string \<Rightarrow> string" where
  "deviceSegment topic = (let segments = split_on CHR ''/'' topic in if length segments < 3 then [] else segments ! 1)"

definition newIngressGate :: "string \<Rightarrow> string list \<Rightarrow> int \<Rightarrow> brokerError + ingressGate" where
  "newIngressGate topic devices start =
     (case PayloadFamily topic of None \<Rightarrow> Inl NoPayloadMaximum
      | Some family \<Rightarrow>
          (case map_of IngressRates family of None \<Rightarrow> Inl NoIngressRate
           | Some rate \<Rightarrow>
               let each = deviceSegment topic = ''+''
               in Inr \<lparr>ig_family = family, ig_maximum = (case map_of PayloadMaxima family of Some m \<Rightarrow> m | None \<Rightarrow> 0), ig_rate = rate,
                    ig_perDevice = each,
                    ig_buckets = (if each then fmap_of_list (map (\<lambda>d. (d, newIngressBucket rate start)) devices) else fmempty),
                    ig_overflow = newIngressBucket rate start\<rparr>))"

text \<open>The bucket a topic draws on, named by its device segment, or the shared one.\<close>

definition bucket_key :: "ingressGate \<Rightarrow> string \<Rightarrow> string option" where
  "bucket_key g topic =
     (if ig_perDevice g \<and> fmlookup (ig_buckets g) (deviceSegment topic) \<noteq> None then Some (deviceSegment topic) else None)"

definition bucket_at :: "ingressGate \<Rightarrow> string option \<Rightarrow> ingressBucket" where
  "bucket_at g key = (case key of None \<Rightarrow> ig_overflow g | Some d \<Rightarrow> fmget (ig_overflow g) (ig_buckets g) d)"

definition put_bucket :: "string option \<Rightarrow> ingressBucket \<Rightarrow> ingressGate \<Rightarrow> ingressGate" where
  "put_bucket key b g = (case key of None \<Rightarrow> g\<lparr>ig_overflow := b\<rparr> | Some d \<Rightarrow> g\<lparr>ig_buckets := fmupd d b (ig_buckets g)\<rparr>)"

definition charge_bucket :: "IngressRate \<Rightarrow> int \<Rightarrow> int \<Rightarrow> ingressBucket \<Rightarrow> bool \<times> ingressBucket" where
  "charge_bucket rate len now b =
     (let elapsed = Seconds (time_Sub now (ib_last b));
          tokens = refill (of_int (ir_Burst rate)) (of_int (ir_PerSecond rate)) elapsed (ib_tokens b);
          bytes = refill (of_int (ir_BurstBytes rate)) (of_int (ir_BytesPerSecond rate)) elapsed (ib_bytes b)
      in if tokens \<ge> 1 \<and> bytes \<ge> fl64 (of_int len)
         then (True, \<lparr>ib_tokens = spend tokens 1, ib_bytes = spend bytes (fl64 (of_int len)), ib_last = now\<rparr>)
         else (False, \<lparr>ib_tokens = tokens, ib_bytes = bytes, ib_last = now\<rparr>))"

definition gate_decide :: "string \<Rightarrow> int \<Rightarrow> int \<Rightarrow> ingressGate \<Rightarrow> bool \<times> ingressGate" where
  "gate_decide topic len now g =
     (if len > ig_maximum g then (False, g)
      else let key = bucket_key g topic
           in case charge_bucket (ig_rate g) len now (bucket_at g key) of (ok, b) \<Rightarrow> (ok, put_bucket key b g))"

definition admitVolume ::
  "string \<Rightarrow> int \<Rightarrow> int \<Rightarrow> ingressGate \<Rightarrow> IngressStats \<Rightarrow> bool \<times> ingressGate \<times> ((string \<times> string) \<times> ingressLine) option \<times> IngressStats" where
  "admitVolume topic len now g s =
     (case gate_decide topic len now g of (ok, g') \<Rightarrow>
        if ok then (True, g', None, s)
        else (False, g', refuse_message (ig_family g) (if len > ig_maximum g then RefusalPayloadTooLarge else RefusalVolumeDropped) len now s))"

definition admitMembers ::
  "(string list \<Rightarrow> string \<Rightarrow> strictError set option) \<Rightarrow> int \<Rightarrow> string \<Rightarrow> ingressGate \<Rightarrow> IngressStats
     \<Rightarrow> bool \<times> ((string \<times> string) \<times> ingressLine) option \<times> IngressStats" where
  "admitMembers decodeStrict now payload g s =
     (case AdmitPayload decodeStrict (ig_family g) payload of
        None \<Rightarrow> (True, None, s)
      | Some (MemberRuleError reason) \<Rightarrow> (False, refuse_message (ig_family g) reason (int (length payload)) now s)
      | Some NotAFamily \<Rightarrow> (False, refuse_message (ig_family g) ''malformed_json'' (int (length payload)) now s))"

section \<open>The client\<close>

record 'h subscription =
  sb_qos :: int
  sb_handler :: 'h
  sb_gate :: ingressGate

record 'h Client =
  cl_connected :: bool
  cl_subscriptions :: "(string, 'h subscription) fmap"
  cl_devices :: "string list"
  cl_ingress :: IngressStats

definition New_Client :: "string list \<Rightarrow> IngressStats \<Rightarrow> 'h Client" where
  "New_Client devices ingress = \<lparr>cl_connected = False, cl_subscriptions = fmempty, cl_devices = devices, cl_ingress = ingress\<rparr>"

text \<open>\<open>live\<close> says that the context has not ended, \<open>ok\<close> that the transport did what it was asked.\<close>

definition Connect :: "bool \<Rightarrow> bool \<Rightarrow> 'h Client \<Rightarrow> brokerError option \<times> 'h Client" where
  "Connect live ok c =
     (if \<not> live then (Some ContextEnded, c)
      else if cl_connected c then (Some AlreadyConnected, c)
      else if ok then (None, c\<lparr>cl_connected := True\<rparr>) else (Some TransportFailed, c))"

definition Disconnect :: "bool \<Rightarrow> 'h Client \<Rightarrow> brokerError option \<times> 'h Client" where
  "Disconnect live c = (if \<not> live then (Some ContextEnded, c) else (None, c\<lparr>cl_connected := False\<rparr>))"

definition connection_event :: "bool \<Rightarrow> 'h Client \<Rightarrow> 'h Client" where
  "connection_event up c = c\<lparr>cl_connected := up\<rparr>"

definition Subscribe :: "bool \<Rightarrow> bool \<Rightarrow> int \<Rightarrow> string \<Rightarrow> int \<Rightarrow> 'h option \<Rightarrow> 'h Client \<Rightarrow> brokerError option \<times> 'h Client" where
  "Subscribe live ok start topic qos handler c =
     (if \<not> live then (Some ContextEnded, c)
      else if topic = [] then (Some EmptyTopic, c)
      else if qos > 2 then (Some InvalidQoS, c)
      else case handler of None \<Rightarrow> (Some NilHandler, c)
      | Some h \<Rightarrow>
     (case newIngressGate topic (cl_devices c) start of Inl e \<Rightarrow> (Some e, c)
      | Inr gate \<Rightarrow>
          if \<not> cl_connected c then (Some NotConnected, c)
          else case fmlookup (cl_subscriptions c) topic of
            Some existing \<Rightarrow> (if sb_qos existing = qos \<and> sb_handler existing = h then None else Some SubscriptionExists, c)
          | None \<Rightarrow>
              if ok then (None, c\<lparr>cl_subscriptions := fmupd topic \<lparr>sb_qos = qos, sb_handler = h, sb_gate = gate\<rparr> (cl_subscriptions c)\<rparr>)
              else (Some TransportFailed, c\<lparr>cl_subscriptions := fmdrop topic (cl_subscriptions c)\<rparr>)))"

definition Publish :: "bool \<Rightarrow> bool \<Rightarrow> string \<Rightarrow> int \<Rightarrow> 'h Client \<Rightarrow> brokerError option" where
  "Publish live ok topic qos c =
     (if \<not> live then Some ContextEnded
      else if topic = [] then Some EmptyTopic
      else if qos > 2 then Some InvalidQoS
      else if \<not> cl_connected c then Some NotConnected
      else if ok then None else Some TransportFailed)"

text \<open>A message on a subscription: the handler it is given to, if it is, and the lines the logger is handed.\<close>

definition wrapHandler ::
  "(string list \<Rightarrow> string \<Rightarrow> strictError set option) \<Rightarrow> int \<Rightarrow> string \<Rightarrow> string \<Rightarrow> bool \<Rightarrow> 'h subscription \<Rightarrow> IngressStats
     \<Rightarrow> 'h option \<times> ((string \<times> string) \<times> ingressLine) option \<times> 'h subscription \<times> IngressStats" where
  "wrapHandler decodeStrict now topic payload retained sub s =
     (case admitVolume topic (int (length payload)) now (sb_gate sub) s of
        (False, g, line, s) \<Rightarrow> (None, line, sub\<lparr>sb_gate := g\<rparr>, s)
      | (True, g, line, s) \<Rightarrow>
          if retained then (None, None, sub\<lparr>sb_gate := g\<rparr>, s)
          else (case admitMembers decodeStrict now payload g s of
                  (False, line, s) \<Rightarrow> (None, line, sub\<lparr>sb_gate := g\<rparr>, s)
                | (True, _, s) \<Rightarrow> (Some (sb_handler sub), None, sub\<lparr>sb_gate := g\<rparr>, s)))"

definition on_message ::
  "(string list \<Rightarrow> string \<Rightarrow> strictError set option) \<Rightarrow> int \<Rightarrow> string \<Rightarrow> string \<Rightarrow> string \<Rightarrow> bool \<Rightarrow> 'h Client \<Rightarrow> 'h option \<times> 'h Client" where
  "on_message decodeStrict now filter_topic topic payload retained c =
     (case fmlookup (cl_subscriptions c) filter_topic of
        None \<Rightarrow> (None, c)
      | Some sub \<Rightarrow>
          (case wrapHandler decodeStrict now topic payload retained sub (cl_ingress c) of (h, _, sub', s) \<Rightarrow>
             (h, c\<lparr>cl_subscriptions := fmupd filter_topic sub' (cl_subscriptions c), cl_ingress := s\<rparr>)))"

section \<open>Buckets do not share\<close>

type_synonym message = "string \<times> int \<times> int"

fun gate_run :: "ingressGate \<Rightarrow> message list \<Rightarrow> bool list" where
  "gate_run g [] = []"
| "gate_run g ((topic, len, now) # ms) = (case gate_decide topic len now g of (ok, g') \<Rightarrow> ok # gate_run g' ms)"

definition gate_keys :: "ingressGate \<Rightarrow> bool \<times> string fset" where
  "gate_keys g = (ig_perDevice g, fmdom (ig_buckets g))"

definition gate_view :: "string option \<Rightarrow> ingressGate \<Rightarrow> int \<times> IngressRate \<times> ingressBucket" where
  "gate_view k g = (ig_maximum g, ig_rate g, bucket_at g k)"

lemma bucket_key_dom: "bucket_key g topic = (if ig_perDevice g \<and> deviceSegment topic |\<in>| fmdom (ig_buckets g) then Some (deviceSegment topic) else None)"
  by (auto simp: bucket_key_def fmlookup_dom_iff)

lemma bucket_key_keys: "gate_keys g = gate_keys h \<Longrightarrow> bucket_key g topic = bucket_key h topic"
  by (simp add: bucket_key_dom gate_keys_def)

lemma decide_keys:
  assumes "gate_decide topic len now g = (ok, g')"
  shows "gate_keys g' = gate_keys g" "ig_maximum g' = ig_maximum g" "ig_rate g' = ig_rate g"
proof -
  have "gate_keys g' = gate_keys g \<and> ig_maximum g' = ig_maximum g \<and> ig_rate g' = ig_rate g"
    using assms by (auto simp: gate_decide_def gate_keys_def put_bucket_def bucket_key_def Let_def finsert_absorb fmdomI split: if_splits prod.splits)
  then show "gate_keys g' = gate_keys g" "ig_maximum g' = ig_maximum g" "ig_rate g' = ig_rate g" by auto
qed

lemma bucket_at_put:
  "bucket_at (put_bucket (bucket_key g u) b g) (bucket_key g t) = (if bucket_key g u = bucket_key g t then b else bucket_at g (bucket_key g t))"
  by (auto simp: bucket_at_def put_bucket_def bucket_key_def fmget_def split: option.splits if_splits)

lemma decide_other:
  assumes "gate_decide topic len now g = (ok, g')" "k = bucket_key g t" "bucket_key g topic \<noteq> k"
  shows "gate_view k g' = gate_view k g"
  using assms decide_keys [OF assms(1)]
  by (auto simp: gate_view_def gate_decide_def Let_def bucket_at_put split: if_splits prod.splits)

lemma decide_same:
  assumes "gate_decide topic len now g = (ok, g')" "bucket_key g topic = k"
  shows "(ok, gate_view k g') =
    (let (m, rate, b) = gate_view k g
     in if len > m then (False, gate_view k g) else (case charge_bucket rate len now b of (ok, b') \<Rightarrow> (ok, m, rate, b')))"
  using assms decide_keys [OF assms(1)]
  by (auto simp: gate_view_def gate_decide_def Let_def bucket_at_put split: if_splits prod.splits)

lemma runs_agree:
  assumes "gate_keys g = gate_keys h" "gate_view k g = gate_view k h" "k = bucket_key g t"
  shows "map snd (filter (\<lambda>(m, ok). bucket_key g (fst m) = k) (zip ms (gate_run g ms))) = gate_run h (filter (\<lambda>m. bucket_key g (fst m) = k) ms)"
  using assms
proof (induction ms arbitrary: g h)
  case (Cons m ms)
  obtain topic len now where m: "m = (topic, len, now)" by (metis prod_cases3)
  obtain ok g' where d: "gate_decide topic len now g = (ok, g')" by fastforce
  have gk: "gate_keys g' = gate_keys g" using decide_keys(1) [OF d] .
  have same: "bucket_key g' u = bucket_key g u" for u by (rule bucket_key_keys [OF gk])
  show ?case
  proof (cases "bucket_key g topic = k")
    case True
    obtain ok2 h' where e: "gate_decide topic len now h = (ok2, h')" by fastforce
    have hk: "bucket_key h topic = k" using bucket_key_keys [OF Cons.prems(1)] True by metis
    have "(ok, gate_view k g') = (ok2, gate_view k h')" unfolding decide_same [OF d True] decide_same [OF e hk] Cons.prems(2) ..
    then have v: "ok = ok2" "gate_view k g' = gate_view k h'" by auto
    have keys: "gate_keys g' = gate_keys h'" using gk decide_keys(1) [OF e] Cons.prems(1) by simp
    show ?thesis using Cons.IH [OF keys v(2)] Cons.prems(3) same True d e v(1) by (simp add: m)
  next
    case False
    have "gate_view k g' = gate_view k h" using decide_other [OF d Cons.prems(3) False] Cons.prems(2) by simp
    from Cons.IH [OF _ this] show ?thesis using gk Cons.prems(1,3) same False d by (simp add: m)
  qed
qed simp

text \<open>No sender spends another's allowance. Whatever messages arrive, in whatever order and number, the messages that draw on one
  bucket of a subscription's gate, in particular those of one configured device on a wildcard subscription, are admitted and
  refused exactly as they would be if no other message had arrived.\<close>

theorem gate_isolates_devices:
  "map snd (filter (\<lambda>(m, ok). bucket_key g (fst m) = bucket_key g t) (zip ms (gate_run g ms)))
     = gate_run g (filter (\<lambda>m. bucket_key g (fst m) = bucket_key g t) ms)"
  by (rule runs_agree [OF refl refl refl])

section \<open>What a gate admits\<close>

text \<open>The messages of one bucket as charges to its two levels; a message over the maximum is none.\<close>

definition charges :: "(int \<Rightarrow> rat) \<Rightarrow> int \<Rightarrow> (message \<times> bool) list \<Rightarrow> (int \<times> rat option) list" where
  "charges cost limit rs =
     map (\<lambda>((topic, len, now), ok). (now, if ok then Some (cost len) else None)) (filter (\<lambda>((topic, len, now), ok). len \<le> limit) rs)"

definition bucket_ok :: "IngressRate \<Rightarrow> ingressBucket \<Rightarrow> bool" where
  "bucket_ok rate b \<longleftrightarrow> 0 \<le> ib_tokens b \<and> ib_tokens b \<le> of_int (ir_Burst rate) \<and> 0 \<le> ib_bytes b \<and> ib_bytes b \<le> of_int (ir_BurstBytes rate)"

definition rate_ok :: "IngressRate \<Rightarrow> bool" where
  "rate_ok rate \<longleftrightarrow> 0 \<le> ir_PerSecond rate \<and> 0 \<le> ir_BytesPerSecond rate \<and> 0 \<le> ir_Burst rate \<and> ir_Burst rate < 2 ^ 53
     \<and> 0 \<le> ir_BurstBytes rate \<and> ir_BurstBytes rate < 2 ^ 53"

lemma charge_bucket_turn:
  assumes "charge_bucket rate len now b = (ok, b')" "bucket_ok rate b" "rate_ok rate" "0 \<le> len" "len < 2 ^ 53"
  shows "bucket_ok rate b'" "ib_last b' = now"
    "(ib_tokens b', now) = bucket_turn (of_int (ir_Burst rate)) (of_int (ir_PerSecond rate)) (ib_tokens b, ib_last b) (now, if ok then Some 1 else None)"
    "(ib_bytes b', now) = bucket_turn (of_int (ir_BurstBytes rate)) (of_int (ir_BytesPerSecond rate)) (ib_bytes b, ib_last b) (now, if ok then Some (of_int len) else None)"
    "ok \<Longrightarrow> 1 \<le> refill (of_int (ir_Burst rate)) (of_int (ir_PerSecond rate)) (Seconds (time_Sub now (ib_last b))) (ib_tokens b)"
    "ok \<Longrightarrow> of_int len \<le> refill (of_int (ir_BurstBytes rate)) (of_int (ir_BytesPerSecond rate)) (Seconds (time_Sub now (ib_last b))) (ib_bytes b)"
proof -
  let ?e = "Seconds (time_Sub now (ib_last b))"
  let ?t = "refill (of_int (ir_Burst rate)) (of_int (ir_PerSecond rate)) ?e (ib_tokens b)"
  let ?y = "refill (of_int (ir_BurstBytes rate)) (of_int (ir_BytesPerSecond rate)) ?e (ib_bytes b)"
  have l: "fl64 (of_int len) = of_int len" using assms(4,5) by (rule fl64_int)
  have r: "0 \<le> ?t" "?t \<le> of_int (ir_Burst rate)" "0 \<le> ?y" "?y \<le> of_int (ir_BurstBytes rate)"
    using assms(2,3) refill_range by (auto simp: bucket_ok_def rate_ok_def)
  note s = spend_range [OF _ _ r(2) refl, of 1] spend_range [OF _ _ r(4) refl, of "of_int len"]
  show "bucket_ok rate b'" using assms(1,3,4) r s l by (auto simp: charge_bucket_def Let_def bucket_ok_def rate_ok_def split: if_splits)
  show "ib_last b' = now" using assms(1) by (auto simp: charge_bucket_def Let_def split: if_splits)
  show "(ib_tokens b', now) = bucket_turn (of_int (ir_Burst rate)) (of_int (ir_PerSecond rate)) (ib_tokens b, ib_last b) (now, if ok then Some 1 else None)"
    "(ib_bytes b', now) = bucket_turn (of_int (ir_BurstBytes rate)) (of_int (ir_BytesPerSecond rate)) (ib_bytes b, ib_last b) (now, if ok then Some (of_int len) else None)"
    using assms(1) l by (auto simp: charge_bucket_def bucket_turn_def Let_def split: if_splits)
  show "1 \<le> ?t" "of_int len \<le> ?y" if ok using that assms(1) l by (auto simp: charge_bucket_def Let_def split: if_splits)
qed

lemma run_affordable:
  assumes "gate_view k g = (limit, rate, b)" "bucket_ok rate b" "rate_ok rate" "limit < 2 ^ 53"
    and "list_all (\<lambda>(topic, len, now). bucket_key g topic = k \<and> 0 \<le> len) ms" "sorted (ib_last b # map (\<lambda>(topic, len, now). now) ms)"
  shows "affordable (of_int (ir_Burst rate)) (of_int (ir_PerSecond rate)) (ib_tokens b, ib_last b) (charges (\<lambda>_. 1) limit (zip ms (gate_run g ms)))
    \<and> affordable (of_int (ir_BurstBytes rate)) (of_int (ir_BytesPerSecond rate)) (ib_bytes b, ib_last b) (charges of_int limit (zip ms (gate_run g ms)))
    \<and> list_all (\<lambda>((topic, len, now), ok). ok \<longrightarrow> len \<le> limit) (zip ms (gate_run g ms))"
  using assms
proof (induction ms arbitrary: g b)
  case (Cons m ms)
  obtain topic len now where m: "m = (topic, len, now)" by (metis prod_cases3)
  obtain ok g' where d: "gate_decide topic len now g = (ok, g')" by fastforce
  have key: "bucket_key g topic = k" "0 \<le> len" using Cons.prems(5) m by auto
  have same: "bucket_key g' u = bucket_key g u" for u by (rule bucket_key_keys [OF decide_keys(1) [OF d]])
  have rest: "list_all (\<lambda>(topic, len, now). bucket_key g' topic = k \<and> 0 \<le> len) ms" using Cons.prems(5) same by simp
  note step = decide_same [OF d key(1), unfolded Cons.prems(1)]
  show ?case
  proof (cases "len > limit")
    case True
    then have "ok = False" "gate_view k g' = (limit, rate, b)" using step by auto
    moreover have "sorted (ib_last b # map (\<lambda>(topic, len, now). now) ms)" using Cons.prems(6) by simp
    ultimately show ?thesis using Cons.IH [OF _ Cons.prems(2-4) rest] True d by (simp add: m charges_def)
  next
    case False
    obtain b' where c: "charge_bucket rate len now b = (ok, b')" "gate_view k g' = (limit, rate, b')"
      using step False by (cases "charge_bucket rate len now b") auto
    have "len < 2 ^ 53" using False Cons.prems(4) by simp
    note t = charge_bucket_turn [OF c(1) Cons.prems(2,3) key(2) this]
    have "sorted (ib_last b' # map (\<lambda>(topic, len, now). now) ms)" "ib_last b \<le> now" using Cons.prems(6) t(2) m by auto
    moreover note Cons.IH [OF c(2) t(1) Cons.prems(3,4) rest this(1)]
    ultimately show ?thesis using t False d key(2) by (auto simp: m charges_def)
  qed
qed (simp add: charges_def)

lemma tables_ok: "list_all (\<lambda>(f, r). rate_ok r) IngressRates" "list_all (\<lambda>(f, m). 0 \<le> m \<and> m < 2 ^ 53) PayloadMaxima"
  by code_simp+

lemma fresh_gate:
  assumes "newIngressGate topic devices start = Inr g"
  shows "rate_ok (ig_rate g)" "ig_maximum g < 2 ^ 53" "bucket_at g k = newIngressBucket (ig_rate g) start" "bucket_ok (ig_rate g) (newIngressBucket (ig_rate g) start)"
proof -
  obtain family rate where f: "map_of IngressRates family = Some rate" "ig_rate g = rate"
    "ig_maximum g = (case map_of PayloadMaxima family of Some m \<Rightarrow> m | None \<Rightarrow> 0)"
    "ig_overflow g = newIngressBucket rate start"
    "ig_buckets g = (if ig_perDevice g then fmap_of_list (map (\<lambda>d. (d, newIngressBucket rate start)) devices) else fmempty)"
    using assms by (auto simp: newIngressGate_def Let_def split: option.splits)
  show r: "rate_ok (ig_rate g)" using tables_ok(1) map_of_SomeD [OF f(1)] f(2) by (auto simp: list_all_iff)
  show "ig_maximum g < 2 ^ 53" using tables_ok(2) f(3) by (auto simp: list_all_iff split: option.splits dest!: map_of_SomeD)
  show "bucket_at g k = newIngressBucket (ig_rate g) start"
    using f by (auto simp: bucket_at_def fmget_def fmlookup_of_list split: option.splits dest!: map_of_SomeD)
  show "bucket_ok (ig_rate g) (newIngressBucket (ig_rate g) start)" using r by (simp add: bucket_ok_def newIngressBucket_def rate_ok_def)
qed

text \<open>The messages of a bucket, with what became of each.\<close>

definition of_bucket :: "ingressGate \<Rightarrow> string option \<Rightarrow> message list \<Rightarrow> (message \<times> bool) list" where
  "of_bucket g k ms = filter (\<lambda>(m, ok). bucket_key g (fst m) = k) (zip ms (gate_run g ms))"

lemma gate_run_length [simp]: "length (gate_run g ms) = length ms"
  by (induction g ms rule: gate_run.induct) (auto split: prod.splits)

lemma map_fst_filter_zip: "length xs = length ms \<Longrightarrow> map fst (filter (\<lambda>(m, ok). P m) (zip ms xs)) = filter P ms"
  by (induction xs ms rule: list_induct2) auto

lemma of_bucket_run:
  "of_bucket g (bucket_key g t) ms = (let mine = filter (\<lambda>m. bucket_key g (fst m) = bucket_key g t) ms in zip mine (gate_run g mine))"
proof -
  let ?k = "bucket_key g t"
  have "map fst (of_bucket g ?k ms) = filter (\<lambda>m. bucket_key g (fst m) = ?k) ms"
    unfolding of_bucket_def by (rule map_fst_filter_zip) simp
  moreover have "map snd (of_bucket g ?k ms) = gate_run g (filter (\<lambda>m. bucket_key g (fst m) = ?k) ms)"
    unfolding of_bucket_def by (rule runs_agree [OF refl refl refl])
  ultimately show ?thesis by (metis zip_map_fst_snd)
qed

lemma charged_charges:
  assumes "list_all (\<lambda>((topic, len, now), ok). ok \<longrightarrow> len \<le> limit) rs"
  shows "charged (charges cost limit rs) = sum_list (map (\<lambda>((topic, len, now), ok). cost len) (filter snd rs))"
  using assms by (induction rs) (auto simp: charges_def charged_def)

lemma admitted_bound:
  assumes "affordable (of_int burst) (of_int per) (of_int burst, start) (charges cost limit rs)"
    "list_all (\<lambda>((topic, len, now), ok). ok \<longrightarrow> len \<le> limit) rs" "list_all (\<lambda>((topic, len, now), ok). now \<le> finish) rs" "start \<le> finish"
    "0 \<le> burst" "burst < 2 ^ 53" "0 \<le> per"
  shows "sum_list (map (\<lambda>((topic, len, now), ok). cost len) (filter snd rs)) \<le> allowance (of_int burst) (of_int per) (finish - start) (length rs)"
proof -
  have "list_all (\<lambda>e. fst e \<le> finish) (charges cost limit rs)" using assms(3) by (auto simp: charges_def list_all_iff)
  moreover have "length (charges cost limit rs) \<le> length rs" by (simp add: charges_def)
  ultimately have "charged (charges cost limit rs) \<le> allowance (of_int burst) (of_int per) (finish - start) (length rs)"
    using affordable_allowance [OF assms(1) _ assms(5) refl assms(6) _ assms(4)] assms(7) by simp
  then show ?thesis unfolding charged_charges [OF assms(2)] .
qed

text \<open>C26. What a gate admits is bounded. From the moment a gate is made, over any messages with a clock that does not go back, the
  messages admitted to one bucket number at most the burst plus the rate times the seconds elapsed, and their payloads together
  are at most the byte burst plus the byte rate times the seconds elapsed; the factor \<open>1 + 2 ^ -49\<close> and the last term are
  what the rounding of the \<open>float64\<close> arithmetic can add. No admitted payload is over the family's maximum.\<close>

theorem ingress_rate_bound:
  assumes "newIngressGate topic devices start = Inr g" "sorted (start # map (\<lambda>(topic, len, now). now) ms)" "start \<le> finish"
    and "list_all (\<lambda>(topic, len, now). 0 \<le> len \<and> now \<le> finish) ms" "rs = of_bucket g (bucket_key g t) ms"
  shows "of_nat (length (filter snd rs)) \<le> allowance (of_int (ir_Burst (ig_rate g))) (of_int (ir_PerSecond (ig_rate g))) (finish - start) (length rs)
    \<and> sum_list (map (\<lambda>((topic, len, now), ok). of_int len) (filter snd rs))
        \<le> allowance (of_int (ir_BurstBytes (ig_rate g))) (of_int (ir_BytesPerSecond (ig_rate g))) (finish - start) (length rs)
    \<and> list_all (\<lambda>((topic, len, now), ok). ok \<longrightarrow> len \<le> ig_maximum g) rs"
proof -
  note fg = fresh_gate [OF assms(1)]
  let ?rate = "ig_rate g" and ?k = "bucket_key g t"
  define mine where "mine = filter (\<lambda>m. bucket_key g (fst m) = ?k) ms"
  have rs: "rs = zip mine (gate_run g mine)" unfolding assms(5) of_bucket_run mine_def Let_def ..
  have view: "gate_view ?k g = (ig_maximum g, ?rate, newIngressBucket ?rate start)" by (simp add: gate_view_def fg(3))
  have all: "list_all (\<lambda>(topic, len, now). bucket_key g topic = ?k \<and> 0 \<le> len) mine" "list_all (\<lambda>(topic, len, now). now \<le> finish) mine"
    using assms(4) by (auto simp: mine_def list_all_iff)
  have "sorted (map (\<lambda>(topic, len, now). now) mine)" unfolding mine_def using assms(2) by (auto intro: sorted_filter)
  then have srt: "sorted (ib_last (newIngressBucket ?rate start) # map (\<lambda>(topic, len, now). now) mine)"
    using assms(2) by (auto simp: newIngressBucket_def mine_def)
  have fin: "list_all (\<lambda>((topic, len, now), ok). now \<le> finish) rs" using all(2) by (auto simp: rs list_all_iff dest!: set_zip_leftD)
  note aff = run_affordable [OF view fg(4,1,2) all(1) srt, folded rs, unfolded newIngressBucket_def, simplified]
  have r: "0 \<le> ir_Burst ?rate" "ir_Burst ?rate < 2 ^ 53" "0 \<le> ir_BurstBytes ?rate" "ir_BurstBytes ?rate < 2 ^ 53" "0 \<le> ir_PerSecond ?rate" "0 \<le> ir_BytesPerSecond ?rate"
    using fg(1) by (auto simp: rate_ok_def)
  have ok: "list_all (\<lambda>((topic, len, now), ok). ok \<longrightarrow> len \<le> ig_maximum g) rs" using aff by simp
  have n: "sum_list (map (\<lambda>((topic, len, now), ok). 1) (filter snd rs)) = (of_nat (length (filter snd rs)) :: rat)"
    by (induction rs) auto
  show ?thesis
    using admitted_bound [where cost = "\<lambda>_. 1", OF _ ok fin assms(3) r(1,2,5)] admitted_bound [where cost = of_int, OF _ ok fin assms(3) r(3,4,6)] aff ok
    unfolding n by blast
qed

definition demo_gate :: ingressGate where
  "demo_gate = projr (newIngressGate ''ori/+/runtime/heartbeat'' [''dev-1'', ''dev-2''] 0)"

definition demo_messages :: "message list" where
  "demo_messages = replicate 5 (''ori/dev-1/runtime/heartbeat'', 65536, 0) @ [(''ori/dev-2/runtime/heartbeat'', 65536, 0)]"

lemma demo_run:
  "newIngressGate ''ori/+/runtime/heartbeat'' [''dev-1'', ''dev-2''] 0 = Inr demo_gate"
  "gate_run demo_gate demo_messages = [True, True, True, True, False, True]"
proof -
  have "\<not> isl (newIngressGate ''ori/+/runtime/heartbeat'' [''dev-1'', ''dev-2''] 0)" by code_simp
  then show "newIngressGate ''ori/+/runtime/heartbeat'' [''dev-1'', ''dev-2''] 0 = Inr demo_gate"
    unfolding demo_gate_def by (metis sum.collapse(2))
  show "gate_run demo_gate demo_messages = [True, True, True, True, False, True]" by code_simp
qed

theorem ingress_rate_bound_witness:
  "gate_run demo_gate demo_messages = [True, True, True, True, False, True]
    \<and> of_nat (length (filter snd (of_bucket demo_gate (bucket_key demo_gate ''ori/dev-1/runtime/heartbeat'') demo_messages)))
        \<le> allowance (of_int (ir_Burst (ig_rate demo_gate))) (of_int (ir_PerSecond (ig_rate demo_gate))) (0 - 0)
            (length (of_bucket demo_gate (bucket_key demo_gate ''ori/dev-1/runtime/heartbeat'') demo_messages))"
  using ingress_rate_bound [OF demo_run(1) _ order_refl _ refl, of demo_messages "''ori/dev-1/runtime/heartbeat''"] demo_run(2)
  by (simp add: demo_messages_def eval_nat_numeral)

end
