(* ===== verification/Ingress_Log.thy ===== *)
theory Ingress_Log
  imports Broker
begin

text \<open>The refusal log of \<open>broker/ingress.go\<close>: one line per family and reason at most each second, and every refusal in one of
  them or waiting for a timer that is set.\<close>

section \<open>Runs of the log\<close>

datatype log_event = Refused "string \<times> string" | Line "string \<times> string" int ingressLine

definition line_event :: "int \<Rightarrow> ((string \<times> string) \<times> ingressLine) option \<Rightarrow> log_event list" where
  "line_event now out = (case out of None \<Rightarrow> [] | Some (key, line) \<Rightarrow> [Line key now line])"

text \<open>What the log did, oldest first. A refusal comes at any time; the timer of a key fires only while it is set, and not before the
  interval since the key's last line is over.\<close>

inductive logs :: "log_event list \<Rightarrow> IngressStats \<Rightarrow> bool" where
  logs_new: "logs [] NewIngressStats"
| logs_refuse: "logs tr s \<Longrightarrow> refuse_message family reason len now s = (out, s') \<Longrightarrow> logs (tr @ Refused (family, reason) # line_event now out) s'"
| logs_flush: "logs tr s \<Longrightarrow> fmlookup (is_unlogged s) key = Some p \<Longrightarrow> ip_flushing p \<Longrightarrow> ip_loggedAt p = Some t \<Longrightarrow> t + ingressLogInterval \<le> now
    \<Longrightarrow> flush key now s = (out, s') \<Longrightarrow> logs (tr @ line_event now out) s'"

definition pending_of :: "IngressStats \<Rightarrow> string \<times> string \<Rightarrow> ingressPending" where
  "pending_of s key = fmget no_pending (is_unlogged s) key"

definition refusals :: "string \<times> string \<Rightarrow> log_event list \<Rightarrow> int" where
  "refusals key tr = int (length (filter (\<lambda>e. e = Refused key) tr))"

primrec line_count :: "string \<times> string \<Rightarrow> log_event \<Rightarrow> int" where
  "line_count key (Refused k) = 0"
| "line_count key (Line k now line) = (if k = key then il_count line else 0)"

definition lines_total :: "string \<times> string \<Rightarrow> log_event list \<Rightarrow> int" where
  "lines_total key tr = sum_list (map (line_count key) tr)"

primrec line_time :: "string \<times> string \<Rightarrow> log_event \<Rightarrow> int list" where
  "line_time key (Refused k) = []"
| "line_time key (Line k now line) = (if k = key then [now] else [])"

definition line_times :: "string \<times> string \<Rightarrow> log_event list \<Rightarrow> int list" where
  "line_times key tr = concat (map (line_time key) tr)"

definition paced :: "int list \<Rightarrow> bool" where
  "paced ts = successively (\<lambda>a b. a + ingressLogInterval \<le> b) ts"

lemma trace_append [simp]:
  "refusals key (tr @ tr') = refusals key tr + refusals key tr'"
  "lines_total key (tr @ tr') = lines_total key tr + lines_total key tr'"
  "line_times key (tr @ tr') = line_times key tr @ line_times key tr'"
  by (simp_all add: refusals_def lines_total_def line_times_def)

lemma trace_Cons [simp]:
  "refusals key (e # tr) = (if e = Refused key then 1 else 0) + refusals key tr"
  "lines_total key (e # tr) = line_count key e + lines_total key tr"
  "line_times key (e # tr) = line_time key e @ line_times key tr"
  by (simp_all add: refusals_def lines_total_def line_times_def)

lemma trace_Nil [simp]: "refusals key [] = 0" "lines_total key [] = 0" "line_times key [] = []"
  by (simp_all add: refusals_def lines_total_def line_times_def)

section \<open>What a step does to a key\<close>

lemma pending_count_refusal [simp]: "pending_of (count_refusal family reason s) key = pending_of s key"
  by (simp add: count_refusal_def Let_def pending_of_def)

lemma take_key:
  assumes "takeLocked key now s = (line, s')"
  shows "il_count line = ip_count (pending_of s key)" "ip_count (pending_of s' key) = 0" "ip_loggedAt (pending_of s' key) = Some now"
    "ip_flushing (pending_of s' key) = ip_flushing (pending_of s key)" "k \<noteq> key \<Longrightarrow> pending_of s' k = pending_of s k"
  using assms by (auto simp: takeLocked_def Let_def pending_of_def fmget_def)

lemma written_event:
  "lines_total k (line_event now (written key line)) = (if k = key then il_count line else 0)"
  "line_times k (line_event now (written key line)) = (if k = key \<and> il_count line \<noteq> 0 then [now] else [])"
  "refusals k (line_event now (written key line)) = 0"
  by (auto simp: written_def line_event_def)

text \<open>The account of one key, and the time its next line may come.\<close>

definition accounted :: "string \<times> string \<Rightarrow> log_event list \<Rightarrow> IngressStats \<Rightarrow> bool" where
  "accounted key tr s \<longleftrightarrow>
     (refusals key tr - lines_total key tr - ip_count (pending_of s key)) mod 2 ^ 64 = 0
     \<and> (ip_count (pending_of s key) \<noteq> 0 \<longrightarrow> ip_flushing (pending_of s key))
     \<and> (ip_flushing (pending_of s key) \<longrightarrow> ip_loggedAt (pending_of s key) \<noteq> None)
     \<and> paced (line_times key tr)
     \<and> (line_times key tr \<noteq> [] \<longrightarrow> (\<exists>t. ip_loggedAt (pending_of s key) = Some t \<and> List.last (line_times key tr) \<le> t))"

lemma time_Sub_pos [simp]: "time_Sub a b > 0 \<longleftrightarrow> a > b"
  by (auto simp: time_Sub_def maxInt64_def minInt64_def)

definition due :: "ingressPending \<Rightarrow> int \<Rightarrow> bool" where
  "due p now \<longleftrightarrow> (case ip_loggedAt p of None \<Rightarrow> True | Some t \<Rightarrow> t + ingressLogInterval \<le> now)"

lemma pending_upd [simp]: "pending_of (s\<lparr>is_unlogged := fmupd key p (is_unlogged s0)\<rparr>) k = (if k = key then p else pending_of (s\<lparr>is_unlogged := is_unlogged s0\<rparr>) k)"
  by (simp add: pending_of_def fmget_def)

lemma pending_same [simp]: "pending_of (s\<lparr>is_unlogged := is_unlogged s\<rparr>) k = pending_of s k"
  by (simp add: pending_of_def)

definition noted :: "string \<Rightarrow> int \<Rightarrow> ingressPending \<Rightarrow> ingressPending" where
  "noted reason len p = p\<lparr>ip_count := uint64 (ip_count p + 1),
     ip_classes := (if reason = RefusalPayloadTooLarge then finsert (SizeClass len) (ip_classes p) else ip_classes p)\<rparr>"

lemma noted_simps [simp]:
  "ip_count (noted reason len p) = uint64 (ip_count p + 1)" "ip_flushing (noted reason len p) = ip_flushing p" "ip_loggedAt (noted reason len p) = ip_loggedAt p"
  by (simp_all add: noted_def)

text \<open>A refusal, by what its key waits for.\<close>

lemma refuse_cases:
  assumes "refuse_message family reason len now s = (out, s')"
  defines "key \<equiv> (family, reason)"
  defines "p1 \<equiv> noted reason len (pending_of s key)"
  obtains (flushing) "ip_flushing p1" "out = None" "pending_of s' = (pending_of s)(key := p1)"
  | (held) "\<not> ip_flushing p1" "\<not> due p1 now" "out = None" "pending_of s' = (pending_of s)(key := p1\<lparr>ip_flushing := True\<rparr>)"
  | (written) line where "\<not> ip_flushing p1" "due p1 now" "out = written key line" "il_count line = ip_count p1"
      "pending_of s' = (pending_of s)(key := p1\<lparr>ip_count := 0, ip_classes := {||}, ip_loggedAt := Some now\<rparr>)"
proof -
  have keep: "fmget no_pending (is_unlogged (count_refusal family reason s)) key = pending_of s key"
    "pending_of (count_refusal family reason s) k = pending_of s k" for k
    using pending_count_refusal [of family reason s] by (simp_all add: pending_of_def)
  have d: "due p1 now \<longleftrightarrow> \<not> (case ip_loggedAt p1 of None \<Rightarrow> False | Some t \<Rightarrow> time_Sub (t + ingressLogInterval) now > 0)"
    by (simp add: due_def not_less split: option.split)
  define s1 where "s1 = (count_refusal family reason s)\<lparr>is_unlogged := fmupd key p1 (is_unlogged (count_refusal family reason s))\<rparr>"
  have s1: "pending_of s1 = (pending_of s)(key := p1)" by (rule ext) (simp add: s1_def keep)
  have r: "refuse_message family reason len now s =
    (if ip_flushing p1 then (None, s1)
     else if \<not> due p1 now then (None, s1\<lparr>is_unlogged := fmupd key (p1\<lparr>ip_flushing := True\<rparr>) (is_unlogged s1)\<rparr>)
     else case takeLocked key now s1 of (line, s2) \<Rightarrow> (written key line, s2))"
    unfolding refuse_message_def Let_def key_def [symmetric] keep noted_def [symmetric] p1_def [symmetric] s1_def [symmetric] d not_not ..
  consider "ip_flushing p1" | "\<not> ip_flushing p1" "\<not> due p1 now" | "\<not> ip_flushing p1" "due p1 now" by blast
  then show thesis
  proof cases
    case 1
    then show thesis using flushing assms(1) s1 by (simp add: r)
  next
    case 2
    then have "out = None" "s' = s1\<lparr>is_unlogged := fmupd key (p1\<lparr>ip_flushing := True\<rparr>) (is_unlogged s1)\<rparr>" using assms(1) by (simp_all add: r)
    then show thesis using held 2 s1 by (simp add: fun_eq_iff)
  next
    case 3
    obtain line s2 where t: "takeLocked key now s1 = (line, s2)" by fastforce
    then have o: "out = written key line" "s' = s2" using assms(1) 3 by (simp_all add: r)
    have "fmget no_pending (is_unlogged s1) key = p1" using s1 by (simp add: pending_of_def [symmetric])
    then have "il_count line = ip_count p1" "s2 = s1\<lparr>is_unlogged := fmupd key (p1\<lparr>ip_count := 0, ip_classes := {||}, ip_loggedAt := Some now\<rparr>) (is_unlogged s1)\<rparr>"
      using t by (auto simp: takeLocked_def Let_def)
    then show thesis using written 3 o s1 by (simp add: fun_eq_iff)
  qed
qed

lemma flush_cases:
  assumes "flush key now s = (out, s')"
  obtains line where "out = written key line" "il_count line = ip_count (pending_of s key)"
    "pending_of s' = (pending_of s)(key := (pending_of s key)\<lparr>ip_flushing := False, ip_count := 0, ip_classes := {||}, ip_loggedAt := Some now\<rparr>)"
proof -
  define p where "p = (pending_of s key)\<lparr>ip_flushing := False\<rparr>"
  define s1 where "s1 = s\<lparr>is_unlogged := fmupd key p (is_unlogged s)\<rparr>"
  obtain line s2 where t: "takeLocked key now s1 = (line, s2)" by fastforce
  have f: "flush key now s = (case takeLocked key now s1 of (line, s2) \<Rightarrow> (written key line, s2))"
    unfolding flush_def Let_def s1_def p_def pending_of_def ..
  have "fmget no_pending (is_unlogged s1) key = p" by (simp add: s1_def fmget_def)
  then have "il_count line = ip_count p" "s2 = s1\<lparr>is_unlogged := fmupd key (p\<lparr>ip_count := 0, ip_classes := {||}, ip_loggedAt := Some now\<rparr>) (is_unlogged s1)\<rparr>"
    using t by (auto simp: takeLocked_def Let_def)
  moreover have "out = written key line" "s' = s2" using assms t by (simp_all add: f)
  ultimately show thesis using that by (simp add: p_def s1_def fun_eq_iff)
qed

lemma paced_snoc: "paced (ts @ [now]) \<longleftrightarrow> paced ts \<and> (ts \<noteq> [] \<longrightarrow> List.last ts + ingressLogInterval \<le> now)"
  by (auto simp: paced_def successively_append_iff)

text \<open>A line of a key, when one may come, keeps the account.\<close>

lemma accounted_line:
  assumes "accounted key tr s" "due (pending_of s key) now" "il_count line = c" "(c - (ip_count (pending_of s key) + r)) mod 2 ^ 64 = 0"
    "ip_count (pending_of s' key) = 0" "\<not> ip_flushing (pending_of s' key)" "ip_loggedAt (pending_of s' key) = Some now" "refusals key tr' = r" "line_times key tr' = []" "lines_total key tr' = 0"
  shows "accounted key (tr @ tr' @ line_event now (written key line)) s'"
proof -
  let ?ts = "line_times key tr"
  have a: "(refusals key tr - lines_total key tr - ip_count (pending_of s key)) mod 2 ^ 64 = 0" "paced ?ts"
    "?ts \<noteq> [] \<Longrightarrow> \<exists>t. ip_loggedAt (pending_of s key) = Some t \<and> List.last ?ts \<le> t"
    using assms(1) by (auto simp: accounted_def)
  have late: "List.last ?ts + ingressLogInterval \<le> now" if "?ts \<noteq> []" using a(3) [OF that] assms(2) by (auto simp: due_def)
  then have le: "List.last ?ts \<le> now" if "?ts \<noteq> []" using that by (auto simp: ingressLogInterval_def)
  have "2 ^ 64 dvd refusals key tr - lines_total key tr - ip_count (pending_of s key)" "2 ^ 64 dvd c - (ip_count (pending_of s key) + r)"
    using a(1) assms(4) by (simp_all only: dvd_eq_mod_eq_0)
  from dvd_diff [OF this] have "(refusals key tr + r - (lines_total key tr + c)) mod 2 ^ 64 = 0" by (simp add: dvd_eq_mod_eq_0 algebra_simps)
  then show ?thesis using assms a(2) late le by (simp add: accounted_def written_event paced_snoc algebra_simps)
qed

lemma accounted_other:
  assumes "accounted key tr s" "pending_of s' key = pending_of s key" "refusals key tr' = 0" "line_times key tr' = []" "lines_total key tr' = 0"
  shows "accounted key (tr @ tr') s'"
  using assms by (simp add: accounted_def)

lemma uint64_mod: "(a - uint64 a) mod 2 ^ 64 = 0"
  by (simp add: uint64_def mod_diff_right_eq)

lemma accounted_held:
  assumes "accounted key tr s" "pending_of s' key = p" "ip_count p = uint64 (ip_count (pending_of s key) + 1)" "ip_flushing p"
    "ip_loggedAt p = ip_loggedAt (pending_of s key)" "ip_loggedAt p \<noteq> None"
  shows "accounted key (tr @ [Refused key]) s'"
proof -
  let ?c = "ip_count (pending_of s key)"
  have "2 ^ 64 dvd refusals key tr - lines_total key tr - ?c" "2 ^ 64 dvd ?c + 1 - uint64 (?c + 1)"
    using assms(1) uint64_mod [of "?c + 1"] by (simp_all only: dvd_eq_mod_eq_0 accounted_def)
  from dvd_add [OF this] have "(refusals key tr + 1 - lines_total key tr - uint64 (?c + 1)) mod 2 ^ 64 = 0" by (simp add: dvd_eq_mod_eq_0 algebra_simps)
  then show ?thesis using assms by (simp add: accounted_def algebra_simps)
qed

lemma line_event_other: "key \<noteq> k \<Longrightarrow> line_times key (line_event now (written k line)) = []" "key \<noteq> k \<Longrightarrow> lines_total key (line_event now (written k line)) = 0"
  by (simp_all add: written_event)

lemma line_event_None [simp]: "line_event now None = []"
  by (simp add: line_event_def)

lemma refuse_accounted:
  assumes "accounted key tr s" "refuse_message family reason len now s = (out, s')"
  shows "accounted key (tr @ Refused (family, reason) # line_event now out) s'"
  using assms(2)
proof (cases rule: refuse_cases)
  case flushing
  have "ip_loggedAt (pending_of s key) \<noteq> None" if "key = (family, reason)" using assms(1) flushing(1) that by (auto simp: accounted_def)
  then show ?thesis using flushing accounted_held [OF assms(1)] accounted_other [OF assms(1)] by (cases "key = (family, reason)") simp_all
next
  case held
  then have "ip_loggedAt (pending_of s (family, reason)) \<noteq> None" by (auto simp: due_def split: option.splits)
  then show ?thesis using held accounted_held [OF assms(1)] accounted_other [OF assms(1)] by (cases "key = (family, reason)") simp_all
next
  case (written line)
  have d: "due (pending_of s (family, reason)) now" using written(2) by (simp add: due_def)
  show ?thesis
  proof (cases "key = (family, reason)")
    case True
    have "(uint64 (ip_count (pending_of s key) + 1) - (ip_count (pending_of s key) + 1)) mod 2 ^ 64 = 0" by (simp add: uint64_def mod_diff_left_eq)
    from accounted_line [OF assms(1) d [folded True] _ this, of line s' "[Refused key]"] show ?thesis using written True by simp
  next
    case False
    then show ?thesis using accounted_other [OF assms(1)] written by (simp add: written_event)
  qed
qed

lemma flush_accounted:
  assumes "accounted key tr s" "fmlookup (is_unlogged s) k = Some p" "ip_loggedAt p = Some t" "t + ingressLogInterval \<le> now" "flush k now s = (out, s')"
  shows "accounted key (tr @ line_event now out) s'"
  using assms(5)
proof (cases rule: flush_cases)
  case (1 line)
  have d: "due (pending_of s k) now" using assms(2-4) by (simp add: due_def pending_of_def fmget_def)
  show ?thesis
  proof (cases "key = k")
    case True
    show ?thesis using accounted_line [OF assms(1) d [folded True] 1(2) [folded True], of 0 s' "[]"] 1 True by simp
  next
    case False
    then show ?thesis using accounted_other [OF assms(1)] 1 by (simp add: written_event)
  qed
qed

lemma logs_accounted: "logs tr s \<Longrightarrow> accounted key tr s"
proof (induction rule: logs.induct)
  case logs_new
  show ?case by (simp add: accounted_def NewIngressStats_def pending_of_def fmget_def no_pending_def paced_def)
qed (auto intro: refuse_accounted flush_accounted)

text \<open>No refusal is lost to the pacing of the log. Whatever refusals come and whenever the timers fire, the lines written for a
  family and reason and the count that waits add up to the refusals of that family and reason, in the arithmetic of \<open>uint64\<close>; a count that
  waits has a timer set for it; and two lines of a family and reason are at least a second apart.\<close>

theorem refusals_all_logged:
  assumes "logs tr s"
  shows "(refusals key tr - lines_total key tr - ip_count (pending_of s key)) mod 2 ^ 64 = 0
    \<and> (ip_count (pending_of s key) \<noteq> 0 \<longrightarrow> ip_flushing (pending_of s key))
    \<and> paced (line_times key tr)"
  using logs_accounted [OF assms, of key] by (simp add: accounted_def)

definition demo_key :: "string \<times> string" where "demo_key = (FamilyRuntimeHeartbeat, RefusalVolumeDropped)"

definition demo_stats1 :: IngressStats where "demo_stats1 = snd (refuse_message FamilyRuntimeHeartbeat RefusalVolumeDropped 64 0 NewIngressStats)"
definition demo_stats2 :: IngressStats where "demo_stats2 = snd (refuse_message FamilyRuntimeHeartbeat RefusalVolumeDropped 64 100 demo_stats1)"
definition demo_stats3 :: IngressStats where "demo_stats3 = snd (flush demo_key ingressLogInterval demo_stats2)"

definition demo_trace :: "log_event list" where
  "demo_trace = (let one = \<lparr>il_count = 1, il_classes = []\<rparr>
     in [Refused demo_key, Line demo_key 0 one, Refused demo_key, Line demo_key ingressLogInterval one])"

lemma demo_logs: "logs demo_trace demo_stats3"
proof -
  let ?l = "\<lparr>il_count = 1, il_classes = []\<rparr>"
  have "fst (refuse_message FamilyRuntimeHeartbeat RefusalVolumeDropped 64 0 NewIngressStats) = Some (demo_key, ?l)" by code_simp
  then have "refuse_message FamilyRuntimeHeartbeat RefusalVolumeDropped 64 0 NewIngressStats = (Some (demo_key, ?l), demo_stats1)"
    unfolding demo_stats1_def by (simp add: prod_eq_iff)
  from logs_refuse [OF logs_new this] have l1: "logs [Refused demo_key, Line demo_key 0 ?l] demo_stats1" by (simp add: line_event_def demo_key_def)
  have "fst (refuse_message FamilyRuntimeHeartbeat RefusalVolumeDropped 64 100 demo_stats1) = None" by code_simp
  then have "refuse_message FamilyRuntimeHeartbeat RefusalVolumeDropped 64 100 demo_stats1 = (None, demo_stats2)"
    unfolding demo_stats2_def by (simp add: prod_eq_iff)
  from logs_refuse [OF l1 this] have l2: "logs [Refused demo_key, Line demo_key 0 ?l, Refused demo_key] demo_stats2" by (simp add: demo_key_def)
  have p: "map_option (\<lambda>p. (ip_flushing p, ip_loggedAt p)) (fmlookup (is_unlogged demo_stats2) demo_key) = Some (True, Some 0)" by code_simp
  then obtain q where q: "fmlookup (is_unlogged demo_stats2) demo_key = Some q" "ip_flushing q" "ip_loggedAt q = Some 0" by auto
  have "fst (flush demo_key ingressLogInterval demo_stats2) = Some (demo_key, ?l)" by code_simp
  then have "flush demo_key ingressLogInterval demo_stats2 = (Some (demo_key, ?l), demo_stats3)"
    unfolding demo_stats3_def by (simp add: prod_eq_iff)
  from logs_flush [OF l2 q _ this] show ?thesis by (simp add: line_event_def demo_trace_def Let_def)
qed

theorem refusals_all_logged_witness:
  "(refusals demo_key demo_trace - lines_total demo_key demo_trace - ip_count (pending_of demo_stats3 demo_key)) mod 2 ^ 64 = 0
    \<and> refusals demo_key demo_trace = 2 \<and> line_times demo_key demo_trace = [0, 1000000000] \<and> paced (line_times demo_key demo_trace)"
  using refusals_all_logged [OF demo_logs, of demo_key] by (simp add: demo_trace_def Let_def ingressLogInterval_def)

end
