(* ===== verification/Go_Net.thy ===== *)
theory Go_Net
  imports Json_Text Go_Strconv Routing
begin

text \<open>
  The parts of \<open>net/url\<close>, \<open>net\<close> and \<open>net/netip\<close> the webhook bridge uses: form bodies, host and port, addresses and
  prefixes.
\<close>

section \<open>Substrings\<close>

fun Contains :: "string \<Rightarrow> string \<Rightarrow> bool" where
  "Contains needle [] \<longleftrightarrow> needle = []"
| "Contains needle (c # cs) \<longleftrightarrow> HasPrefix (c # cs) needle \<or> Contains needle cs"

text \<open>\<open>strings.Cut\<close> at a character, and \<open>strings.LastIndexByte\<close> as the text before and after it.\<close>

definition Cut :: "char \<Rightarrow> string \<Rightarrow> string \<times> string \<times> bool" where
  "Cut sep s = (takeWhile (\<lambda>c. c \<noteq> sep) s, tl (dropWhile (\<lambda>c. c \<noteq> sep) s), sep \<in> set s)"

definition cut_last :: "char \<Rightarrow> string \<Rightarrow> (string \<times> string) option" where
  "cut_last sep s =
     (if sep \<in> set s
      then Some (rev (tl (dropWhile (\<lambda>c. c \<noteq> sep) (rev s))), rev (takeWhile (\<lambda>c. c \<noteq> sep) (rev s)))
      else None)"

section \<open>Form bodies\<close>

fun QueryUnescape :: "string \<Rightarrow> string option" where
  "QueryUnescape [] = Some []"
| "QueryUnescape (c # cs) =
     (if c = CHR ''%'' then
        (case cs of a # b # rest \<Rightarrow>
           (case (hex_val a, hex_val b, QueryUnescape rest) of
              (Some x, Some y, Some out) \<Rightarrow> Some (char_of (x * 16 + y) # out)
            | _ \<Rightarrow> None)
         | _ \<Rightarrow> None)
      else map_option ((#) (if c = CHR ''+'' then CHR '' '' else c)) (QueryUnescape cs))"

text \<open>The most pairs a form may have, \<open>urlmaxqueryparams\<close>.\<close>

definition maxQueryParams :: nat where "maxQueryParams = 10000"

definition query_pair :: "string \<Rightarrow> (string \<times> string) option" where
  "query_pair pair =
     (case Cut CHR ''='' pair of (key, value, _) \<Rightarrow>
        (case (QueryUnescape key, QueryUnescape value) of (Some k, Some v) \<Rightarrow> Some (k, v) | _ \<Rightarrow> None))"

text \<open>\<open>url.ParseQuery\<close>: the pairs it keeps in order, and whether it reports an error. A pair with a semicolon or with an escape it cannot
  decode is dropped and reported; an empty one is skipped; a form with too many pairs is not read at all.\<close>

definition ParseQuery :: "string \<Rightarrow> (string \<times> string) list \<times> bool" where
  "ParseQuery query =
     (let pairs = split_on CHR ''&'' query;
          bad = (\<lambda>pair. pair \<noteq> [] \<and> (CHR '';'' \<in> set pair \<or> query_pair pair = None));
          good = (\<lambda>pair. pair \<noteq> [] \<and> CHR '';'' \<notin> set pair \<and> query_pair pair \<noteq> None)
      in if length pairs > maxQueryParams then ([], True)
         else (map (the \<circ> query_pair) (filter good pairs), list_ex bad pairs))"

definition Values_Get :: "(string \<times> string) list \<Rightarrow> string \<Rightarrow> string" where
  "Values_Get vs k = (case map_of vs k of None \<Rightarrow> [] | Some v \<Rightarrow> v)"

definition Values_Has :: "(string \<times> string) list \<Rightarrow> string \<Rightarrow> bool" where
  "Values_Has vs k \<longleftrightarrow> k \<in> fst ` set vs"

section \<open>Addresses\<close>

definition SplitHostPort :: "string \<Rightarrow> (string \<times> string) option" where
  "SplitHostPort hostport =
     (case cut_last CHR '':'' hostport of
        None \<Rightarrow> None
      | Some (before, port) \<Rightarrow>
          if hd hostport = CHR ''['' then
            (case Cut CHR '']'' hostport of (host, rest, found) \<Rightarrow>
               if found \<and> length before = length host + 1 \<and> CHR ''['' \<notin> set (tl hostport) \<and> CHR '']'' \<notin> set rest
               then Some (tl host, port) else None)
          else if CHR '':'' \<in> set before \<or> CHR ''['' \<in> set hostport \<or> CHR '']'' \<in> set hostport then None
          else Some (before, port))"

text \<open>An address is its number, of 32 bits or of 128 with a zone.\<close>

datatype Addr = Addr4 int | Addr6 int string

definition octet :: "string \<Rightarrow> int option" where
  "octet s = (if s \<noteq> [] \<and> list_all is_digit s \<and> (length s = 1 \<or> hd s \<noteq> CHR ''0'') \<and> dec_val s \<le> 255 then Some (dec_val s) else None)"

definition parseIPv4 :: "string \<Rightarrow> int list option" where
  "parseIPv4 s =
     (let fs = map octet (split_on CHR ''.'' s)
      in if length fs = 4 \<and> None \<notin> set fs then Some (map the fs) else None)"

definition be_number :: "int \<Rightarrow> int list \<Rightarrow> int" where
  "be_number b ds = foldl (\<lambda>n d. n * b + d) 0 ds"

definition hex_group :: "string \<Rightarrow> string \<times> string" where
  "hex_group s = (takeWhile (\<lambda>c. hex_val c \<noteq> None) s, dropWhile (\<lambda>c. hex_val c \<noteq> None) s)"

text \<open>The sixteen-bit groups read so far, where the ellipsis stands among them, and the rest of the text; an embedded IPv4 address gives the
  last two groups.\<close>

fun ipv6_groups :: "nat \<Rightarrow> string \<Rightarrow> int list \<Rightarrow> nat option \<Rightarrow> (int list \<times> nat option \<times> string) option" where
  "ipv6_groups 0 s gs e = Some (gs, e, s)"
| "ipv6_groups (Suc n) s gs e =
     (case hex_group s of (digits, rest) \<Rightarrow>
        if digits = [] \<or> length digits > 4 then None
        else case rest of
          [] \<Rightarrow> Some (gs @ [be_number 16 (map (the \<circ> hex_val) digits)], e, [])
        | c # rest' \<Rightarrow>
            if c = CHR ''.'' then
              (if (e = None \<and> length gs \<noteq> 6) \<or> length gs > 6 then None
               else case parseIPv4 s of None \<Rightarrow> None
                    | Some [a, b, c, d] \<Rightarrow> Some (gs @ [a * 256 + b, c * 256 + d], e, [])
                    | Some _ \<Rightarrow> None)
            else
              let gs' = gs @ [be_number 16 (map (the \<circ> hex_val) digits)]
              in if c \<noteq> CHR '':'' \<or> rest' = [] then None
                 else if hd rest' = CHR '':'' then
                   (if e \<noteq> None then None
                    else if tl rest' = [] then Some (gs', Some (length gs'), [])
                    else ipv6_groups n (tl rest') gs' (Some (length gs')))
                 else ipv6_groups n rest' gs' e)"

definition parseIPv6 :: "string \<Rightarrow> Addr option" where
  "parseIPv6 text =
     (case Cut CHR ''%'' text of (s, zone, zoned) \<Rightarrow>
        if zoned \<and> zone = [] then None
        else let lead = HasPrefix s ''::''; s' = (if lead then drop 2 s else s)
        in if lead \<and> s' = [] then Some (Addr6 0 zone)
        else case ipv6_groups 8 s' [] (if lead then Some 0 else None) of
          None \<Rightarrow> None
        | Some (gs, e, rest) \<Rightarrow>
            if rest \<noteq> [] then None
            else if length gs < 8 then
              (case e of None \<Rightarrow> None
               | Some k \<Rightarrow> Some (Addr6 (be_number 65536 (take k gs @ replicate (8 - length gs) 0 @ drop k gs)) zone))
            else if e \<noteq> None then None
            else Some (Addr6 (be_number 65536 gs) zone))"

fun ParseAddr_at :: "string \<Rightarrow> string \<Rightarrow> Addr option" where
  "ParseAddr_at text [] = None"
| "ParseAddr_at text (c # cs) =
     (if c = CHR ''.'' then map_option (Addr4 \<circ> be_number 256) (parseIPv4 text)
      else if c = CHR '':'' then parseIPv6 text
      else if c = CHR ''%'' then None
      else ParseAddr_at text cs)"

definition ParseAddr :: "string \<Rightarrow> Addr option" where
  "ParseAddr s = ParseAddr_at s s"

record Prefix =
  px_addr :: Addr
  px_bits :: int

definition ParsePrefix :: "string \<Rightarrow> Prefix option" where
  "ParsePrefix s =
     (case cut_last CHR ''/'' s of None \<Rightarrow> None
      | Some (a, bits) \<Rightarrow>
          (case ParseAddr a of None \<Rightarrow> None
           | Some ip \<Rightarrow>
               if (case ip of Addr6 n zone \<Rightarrow> zone \<noteq> [] | Addr4 n \<Rightarrow> False) then None
               else if bits = [] \<or> \<not> list_all is_digit bits \<or> (length bits > 1 \<and> hd bits = CHR ''0'') then None
               else if dec_val bits > (case ip of Addr4 n \<Rightarrow> 32 | Addr6 n z \<Rightarrow> 128) then None
               else Some \<lparr>px_addr = ip, px_bits = dec_val bits\<rparr>))"

definition Prefix_Contains :: "Prefix \<Rightarrow> Addr \<Rightarrow> bool" where
  "Prefix_Contains p ip =
     (case (px_addr p, ip) of
        (Addr4 a, Addr4 b) \<Rightarrow> a div 2 ^ nat (32 - px_bits p) = b div 2 ^ nat (32 - px_bits p)
      | (Addr6 a _, Addr6 b zone) \<Rightarrow> zone = [] \<and> a div 2 ^ nat (128 - px_bits p) = b div 2 ^ nat (128 - px_bits p)
      | _ \<Rightarrow> False)"

text \<open>An IPv4 address mapped into IPv6 is a loopback address when the address it maps is.\<close>

definition IsLoopback :: "Addr \<Rightarrow> bool" where
  "IsLoopback ip =
     (case ip of
        Addr4 n \<Rightarrow> n div 2 ^ 24 = 127
      | Addr6 n zone \<Rightarrow> if n div 2 ^ 32 = 65535 then n mod 2 ^ 32 div 2 ^ 24 = 127 else n = 1)"

end
