(* ===== verification/Limiter.thy ===== *)
theory Limiter
  imports Go_Net Token_Bucket Sha256
begin

text \<open>
  The volume bound of the webhook bridge, \<open>webhookbridge/limit.go\<close>: who a body says its sender is, a token bucket for each
  sender, of which the least recently seen is evicted, and a bucket for the bridge.
\<close>

section \<open>The sender of a body\<close>

definition unreadSender :: string where "unreadSender = ''unread''"

text \<open>\<open>unicode.IsDigit\<close>: the runes of category Nd, ten to a range but for the mathematical ones.\<close>

definition digit_zeros :: "int list" where
  "digit_zeros =
     [48, 1632, 1776, 1984, 2406, 2534, 2662, 2790, 2918, 3046, 3174, 3302, 3430, 3558, 3664, 3792, 3872, 4160, 4240, 6112,
      6160, 6470, 6608, 6784, 6800, 6992, 7088, 7232, 7248, 42528, 43216, 43264, 43472, 43504, 43600, 44016, 65296, 66720,
      68912, 69734, 69872, 69942, 70096, 70384, 70736, 70864, 71248, 71360, 71472, 71904, 72016, 72784, 73040, 73120, 73552,
      92768, 92864, 93008, 123200, 123632, 124144, 125264, 130032]"

definition IsDigit :: "int \<Rightarrow> bool" where
  "IsDigit r \<longleftrightarrow> list_ex (\<lambda>z. z \<le> r \<and> r \<le> z + 9) digit_zeros \<or> 120782 \<le> r \<and> r \<le> 120831"

definition normalizeSender :: "string \<Rightarrow> string" where
  "normalizeSender value = concat (map encodeRune (filter (\<lambda>r. IsDigit r \<or> r = 43) (runes value)))"

definition readSender :: "string \<Rightarrow> bool \<Rightarrow> string" where
  "readSender value present =
     (let sender = normalizeSender value
      in if sender \<noteq> [] then sender else if present then unreadSender else [])"

definition namesSenderField :: "string \<Rightarrow> bool" where
  "namesSenderField body = list_ex (\<lambda>pair.
     case Cut CHR ''='' pair of (key, value, _) \<Rightarrow>
       (case QueryUnescape key of
          None \<Rightarrow> True
        | Some unescapedKey \<Rightarrow>
            CHR '';'' \<in> set key
            \<or> HasPrefix unescapedKey ''from'' \<and> (QueryUnescape value = None \<or> CHR '';'' \<in> set value)))
     (split_on CHR ''&'' body)"

definition formSender :: "string \<Rightarrow> string" where
  "formSender body =
     (case ParseQuery body of (values, err) \<Rightarrow>
        if err \<and> namesSenderField body then unreadSender
        else let from = Values_Get values ''from'';
                 from = (if from = [] then Values_Get values ''from_number'' else from)
             in readSender from (Values_Has values ''from'' \<or> Values_Has values ''from_number''))"

text \<open>A value of the decoded object as a string: nothing and \<open>null\<close> leave the sender as it was.\<close>

definition string_member :: "json option \<Rightarrow> string option" where
  "string_member v = (case v of None \<Rightarrow> Some [] | Some JNull \<Rightarrow> Some [] | Some (JStr raw) \<Rightarrow> Some (unquote raw) | Some _ \<Rightarrow> None)"

definition last_member :: "(string \<times> json) list \<Rightarrow> string \<Rightarrow> json option" where
  "last_member ms k = map_of (rev (map (\<lambda>(key, v). (unquote key, v)) ms)) k"

definition jsonSender :: "string \<Rightarrow> string" where
  "jsonSender body =
     (let payload = (case json_parse body of Some (JObj ms) \<Rightarrow> Some ms | Some JNull \<Rightarrow> Some [] | _ \<Rightarrow> None)
      in case payload of
        None \<Rightarrow> if Contains ''from'' body \<or> Contains [CHR 0x5C, CHR ''u''] body then unreadSender else []
      | Some ms \<Rightarrow>
          let from = last_member ms ''from''; fromNumber = last_member ms ''from_number''
          in if from = None \<and> fromNumber = None
             then (if list_ex (\<lambda>(key, v). HasPrefix (unquote key) ''from'') ms then unreadSender else [])
             else case string_member from of
               None \<Rightarrow> unreadSender
             | Some sender \<Rightarrow>
                 if sender \<noteq> [] then readSender sender True
                 else case string_member fromNumber of
                   None \<Rightarrow> unreadSender
                 | Some sender \<Rightarrow> readSender sender True)"

text \<open>\<open>strings.ToLower\<close>, as far as a search for ASCII text can tell: beside the ASCII letters, two runes have an ASCII letter as their
  lower case.\<close>

definition lower_rune :: "int \<Rightarrow> int" where
  "lower_rune r = (if 65 \<le> r \<and> r \<le> 90 then r + 32 else if r = 304 then 105 else if r = 8490 then 107 else r)"

definition ToLower :: "string \<Rightarrow> string" where
  "ToLower s = concat (map (encodeRune \<circ> lower_rune) (runes s))"

definition senderOf :: "string \<Rightarrow> string \<Rightarrow> string" where
  "senderOf contentType body = (if Contains ''application/json'' (ToLower contentType) then jsonSender body else formSender body)"

section \<open>The limiter\<close>

record bucket =
  bk_tokens :: rat
  bk_last :: int

definition refund :: "rat \<Rightarrow> bucket \<Rightarrow> bucket" where
  "refund burst b = b\<lparr>bk_tokens := min burst (fl64 (bk_tokens b + 1))\<rparr>"

definition take_token :: "int \<Rightarrow> rat \<Rightarrow> rat \<Rightarrow> bucket \<Rightarrow> bool \<times> bucket" where
  "take_token now perSecond burst b =
     (let level = refill burst perSecond (Seconds (time_Sub now (bk_last b))) (bk_tokens b)
      in if level < 1 then (False, \<lparr>bk_tokens = level, bk_last = now\<rparr>)
         else (True, \<lparr>bk_tokens = spend level 1, bk_last = now\<rparr>))"

text \<open>The list of senders has the most recently seen first; the map from keys to its elements is the set of the keys it has.\<close>

record limiter =
  lm_hashKey :: string
  lm_senderPerSecond :: rat
  lm_senderBurst :: rat
  lm_globalPerSecond :: rat
  lm_globalBurst :: rat
  lm_maxSenders :: int
  lm_order :: "(string \<times> bucket) list"
  lm_senders :: "string fset"
  lm_global :: bucket

definition newLimiter :: "string \<Rightarrow> int \<Rightarrow> int \<Rightarrow> int \<Rightarrow> int \<Rightarrow> int \<Rightarrow> int \<Rightarrow> limiter" where
  "newLimiter hashKey senderPerMinute senderBurst globalPerMinute globalBurst maxSenders now =
     \<lparr>lm_hashKey = hashKey,
      lm_senderPerSecond = fl64 (fl64 (of_int senderPerMinute) / 60),
      lm_senderBurst = fl64 (of_int senderBurst),
      lm_globalPerSecond = fl64 (fl64 (of_int globalPerMinute) / 60),
      lm_globalBurst = fl64 (of_int globalBurst),
      lm_maxSenders = maxSenders, lm_order = [], lm_senders = {||},
      lm_global = \<lparr>bk_tokens = fl64 (of_int globalBurst), bk_last = now\<rparr>\<rparr>"

definition keyOf :: "limiter \<Rightarrow> string \<Rightarrow> string" where
  "keyOf l sender = hmac_sha256 (lm_hashKey l) sender"

datatype verdict = Admitted | RefusedBySender | RefusedByGlobal

text \<open>The element of a sender, brought to the front, or made there after the oldest has gone.\<close>

definition touch_sender :: "string \<Rightarrow> int \<Rightarrow> limiter \<Rightarrow> limiter" where
  "touch_sender key now l =
     (if key |\<in>| lm_senders l
      then l\<lparr>lm_order := filter (\<lambda>e. fst e = key) (lm_order l) @ filter (\<lambda>e. fst e \<noteq> key) (lm_order l)\<rparr>
      else let full = int (length (lm_order l)) \<ge> lm_maxSenders l;
               order = (if full then butlast (lm_order l) else lm_order l);
               senders = (if full then lm_senders l |-| {|fst (List.last (lm_order l))|} else lm_senders l)
           in l\<lparr>lm_order := (key, \<lparr>bk_tokens = lm_senderBurst l, bk_last = now\<rparr>) # order, lm_senders := finsert key senders\<rparr>)"

definition set_own :: "bucket \<Rightarrow> limiter \<Rightarrow> limiter" where
  "set_own b l = l\<lparr>lm_order := (fst (hd (lm_order l)), b) # tl (lm_order l)\<rparr>"

definition limiter_admit :: "string \<Rightarrow> int \<Rightarrow> limiter \<Rightarrow> verdict \<times> limiter" where
  "limiter_admit sender now l0 =
     (if sender = [] then
        (case take_token now (lm_globalPerSecond l0) (lm_globalBurst l0) (lm_global l0) of
           (ok, g) \<Rightarrow> (if ok then Admitted else RefusedByGlobal, l0\<lparr>lm_global := g\<rparr>))
      else
        let l = touch_sender (keyOf l0 sender) now l0
        in case take_token now (lm_senderPerSecond l) (lm_senderBurst l) (snd (hd (lm_order l))) of
             (False, own) \<Rightarrow> (RefusedBySender, set_own own l)
           | (True, own) \<Rightarrow>
               (case take_token now (lm_globalPerSecond l) (lm_globalBurst l) (lm_global l) of
                  (False, g) \<Rightarrow> (RefusedByGlobal, (set_own (refund (lm_senderBurst l) own) l)\<lparr>lm_global := g\<rparr>)
                | (True, g) \<Rightarrow> (Admitted, (set_own own l)\<lparr>lm_global := g\<rparr>)))"

fun admit_run :: "limiter \<Rightarrow> (string \<times> int) list \<Rightarrow> verdict list \<times> limiter" where
  "admit_run l [] = ([], l)"
| "admit_run l ((sender, now) # rs) =
     (case limiter_admit sender now l of (v, l') \<Rightarrow> case admit_run l' rs of (vs, l'') \<Rightarrow> (v # vs, l''))"

section \<open>The senders that hold state\<close>

text \<open>The parts of a limiter that never change.\<close>

definition limits_of :: "limiter \<Rightarrow> (string \<times> rat \<times> rat) \<times> rat \<times> rat \<times> int" where
  "limits_of l = ((lm_hashKey l, lm_senderPerSecond l, lm_senderBurst l), lm_globalPerSecond l, lm_globalBurst l, lm_maxSenders l)"

lemma limits_same [simp]:
  "limits_of (touch_sender key now l) = limits_of l" "limits_of (set_own b l) = limits_of l"
  by (simp_all add: limits_of_def touch_sender_def set_own_def Let_def)

lemma admit_limits [simp]: "limits_of (snd (limiter_admit sender now l)) = limits_of l"
proof (cases "sender = []")
  case True
  then show ?thesis by (simp add: limiter_admit_def limits_of_def split: prod.split)
next
  case False
  let ?l = "touch_sender (keyOf l sender) now l"
  have "limits_of ?l = limits_of l" by simp
  then show ?thesis using False by (simp add: limiter_admit_def Let_def limits_of_def set_own_def split: prod.split bool.split)
qed

definition senders_ok :: "limiter \<Rightarrow> bool" where
  "senders_ok l \<longleftrightarrow> distinct (map fst (lm_order l)) \<and> fset (lm_senders l) = set (map fst (lm_order l)) \<and> int (length (lm_order l)) \<le> lm_maxSenders l"

text \<open>The keys seen so far, the most recent first.\<close>

definition seen :: "'a \<Rightarrow> 'a list \<Rightarrow> 'a list" where
  "seen k ks = k # removeAll k ks"

lemma seen_distinct: "distinct ks \<Longrightarrow> distinct (seen k ks)"
  by (auto simp: seen_def distinct_removeAll)

lemma take_removeAll: "distinct ks \<Longrightarrow> k \<in> set (take m ks) \<Longrightarrow> take m (seen k ks) = k # removeAll k (take m ks)"
proof (induction ks arbitrary: m)
  case (Cons x xs)
  then obtain n where m: "m = Suc n" by (cases m) auto
  show ?case
  proof (cases "x = k")
    case True
    then have "k \<notin> set xs" using Cons.prems(1) by simp
    then have "removeAll k xs = xs" "removeAll k (take n xs) = take n xs" by (metis removeAll_id in_set_takeD)+
    then show ?thesis using True m by (simp add: seen_def)
  next
    case False
    then have kin: "k \<in> set (take n xs)" using Cons.prems(2) m by auto
    then obtain n' where n: "n = Suc n'" by (cases n) auto
    have "take n (seen k xs) = k # removeAll k (take n xs)" by (rule Cons.IH [OF _ kin]) (use Cons.prems(1) in simp)
    then have "take n' (removeAll k xs) = removeAll k (take n xs)" by (simp add: seen_def n)
    then show ?thesis using False by (simp add: seen_def m n)
  qed
qed simp

lemma take_fresh: "k \<notin> set (take m ks) \<Longrightarrow> 0 < m \<Longrightarrow> take m (seen k ks) = k # take (m - 1) ks"
proof -
  assume a: "k \<notin> set (take m ks)" "0 < m"
  then obtain n where m: "m = Suc n" by (cases m) auto
  have "take n (removeAll k ks) = take n ks" using a(1) unfolding m
  proof (induction ks arbitrary: n)
    case (Cons x xs)
    then show ?case by (cases n) auto
  qed simp
  then show ?thesis by (simp add: seen_def m)
qed

lemma keyed_others: "map fst (filter (\<lambda>e. fst e \<noteq> k) xs) = removeAll k (map fst xs)"
  by (induction xs) auto

lemma keyed_one: "distinct (map fst xs) \<Longrightarrow> k \<in> fst ` set xs \<Longrightarrow> \<exists>b. filter (\<lambda>e. fst e = k) xs = [(k, b)] \<and> (k, b) \<in> set xs"
proof (induction xs)
  case (Cons e xs)
  show ?case
  proof (cases "fst e = k")
    case True
    then have "filter (\<lambda>e. fst e = k) xs = []" using Cons.prems(1) unfolding filter_empty_conv by (metis distinct.simps(2) image_eqI list.set_map list.simps(9))
    then show ?thesis using True by (cases e) auto
  qed (use Cons in auto)
qed simp

lemma touch_keys:
  assumes "senders_ok l" "0 < lm_maxSenders l" "distinct ks" "map fst (lm_order l) = take (nat (lm_maxSenders l)) ks"
  shows "map fst (lm_order (touch_sender k now l)) = take (nat (lm_maxSenders l)) (seen k ks)"
proof -
  let ?m = "nat (lm_maxSenders l)"
  have mem: "k |\<in>| lm_senders l \<longleftrightarrow> k \<in> set (take ?m ks)" using assms(1,4) by (simp add: senders_ok_def)
  show ?thesis
  proof (cases "k |\<in>| lm_senders l")
    case True
    then have kin: "k \<in> set (map fst (lm_order l))" using mem assms(4) by simp
    have d: "distinct (map fst (lm_order l))" using assms(1) by (simp add: senders_ok_def)
    have "map fst (filter (\<lambda>e. fst e = k) (lm_order l)) = [k]" using keyed_one [OF d, of k] kin by auto
    then show ?thesis using True take_removeAll [OF assms(3), of k ?m] mem assms(4) by (simp add: touch_sender_def keyed_others)
  next
    case False
    have l: "length (lm_order l) = min (length ks) ?m" using arg_cong [OF assms(4), of length] by simp
    have "take (?m - 1) ks = (if int (length (lm_order l)) \<ge> lm_maxSenders l then butlast (take ?m ks) else take ?m ks)"
      using l assms(2) by (auto simp: butlast_take)
    then show ?thesis using False mem take_fresh [of k ?m ks] assms(2,4) by (simp add: touch_sender_def Let_def map_butlast)
  qed
qed

lemma distinct_snoc_set: "distinct xs \<Longrightarrow> xs = map f ys @ [z] \<Longrightarrow> f ` set ys = set xs - {z}"
  by auto

lemma touch_ok:
  assumes "senders_ok l" "0 < lm_maxSenders l"
  shows "senders_ok (touch_sender k now l)"
proof -
  let ?l = "touch_sender k now l"
  let ?ks = "map fst (lm_order l)"
  have d: "distinct ?ks" "nat (lm_maxSenders l) \<ge> length ?ks" using assms(1) by (auto simp: senders_ok_def)
  have keys: "map fst (lm_order ?l) = take (nat (lm_maxSenders l)) (seen k ?ks)" using touch_keys [OF assms d(1), of k now] d(2) by simp
  have dist: "distinct (map fst (lm_order ?l))" unfolding keys by (intro distinct_take seen_distinct d(1))
  have "length (map fst (lm_order ?l)) \<le> nat (lm_maxSenders l)" unfolding keys by simp
  moreover have "lm_maxSenders ?l = lm_maxSenders l" using limits_same(1) [of k now l] by (simp add: limits_of_def)
  ultimately have len: "int (length (lm_order ?l)) \<le> lm_maxSenders ?l" using assms(2) by simp
  have "fset (lm_senders ?l) = set (map fst (lm_order ?l))"
  proof (cases "k |\<in>| lm_senders l")
    case True
    then have "lm_senders ?l = lm_senders l" "set (lm_order ?l) = set (lm_order l)" by (auto simp: touch_sender_def)
    then show ?thesis using assms(1) by (simp add: senders_ok_def)
  next
    case False
    have "fst ` set (butlast (lm_order l)) = fst ` set (lm_order l) - {fst (List.last (lm_order l))}" if "lm_order l \<noteq> []"
    proof -
      have "map fst (lm_order l) = map fst (butlast (lm_order l)) @ [fst (List.last (lm_order l))]" using that by (metis append_butlast_last_id list.simps(8,9) map_append)
      from distinct_snoc_set [OF d(1) this] show ?thesis by simp
    qed
    moreover have "lm_order l \<noteq> []" if "int (length (lm_order l)) \<ge> lm_maxSenders l" using that assms(2) by auto
    ultimately show ?thesis using False assms(1) by (auto simp: touch_sender_def Let_def senders_ok_def)
  qed
  then show ?thesis using dist len by (simp add: senders_ok_def)
qed

section \<open>The levels\<close>

definition cap_ok :: "rat \<Rightarrow> bool" where
  "cap_ok cap \<longleftrightarrow> cap = of_int \<lfloor>cap\<rfloor> \<and> 1 \<le> cap \<and> \<lfloor>cap\<rfloor> < 2 ^ 53"

definition level_ok :: "rat \<Rightarrow> bucket \<Rightarrow> bool" where
  "level_ok cap b \<longleftrightarrow> 0 \<le> bk_tokens b \<and> bk_tokens b \<le> cap \<and> fl64 (bk_tokens b) = bk_tokens b"

definition level_at :: "int \<Rightarrow> rat \<Rightarrow> rat \<Rightarrow> bucket \<Rightarrow> rat" where
  "level_at now perSecond burst b = refill burst perSecond (Seconds (time_Sub now (bk_last b))) (bk_tokens b)"

lemma cap_exact: "cap_ok cap \<Longrightarrow> fl64 cap = cap" "cap_ok cap \<Longrightarrow> cap < 2 ^ 53" "cap_ok cap \<Longrightarrow> 1 \<le> cap"
proof -
  assume c: "cap_ok cap"
  then have i: "cap = of_int \<lfloor>cap\<rfloor>" "0 \<le> \<lfloor>cap\<rfloor>" "\<lfloor>cap\<rfloor> < 2 ^ 53" by (auto simp: cap_ok_def)
  show "fl64 cap = cap" using fl64_int [OF i(2,3)] i(1) by metis
  show "cap < 2 ^ 53" using i(1,3) by (metis of_int_less_iff of_int_numeral of_int_power)
  show "1 \<le> cap" using c by (simp add: cap_ok_def)
qed

lemma level_at_ok:
  assumes "level_ok burst b" "cap_ok burst" "0 \<le> perSecond"
  shows "0 \<le> level_at now perSecond burst b" "level_at now perSecond burst b \<le> burst"
    "fl64 (level_at now perSecond burst b) = level_at now perSecond burst b"
proof -
  have b: "0 \<le> bk_tokens b" "bk_tokens b \<le> burst" "fl64 (bk_tokens b) = bk_tokens b" using assms(1) by (auto simp: level_ok_def)
  show "0 \<le> level_at now perSecond burst b" "level_at now perSecond burst b \<le> burst"
    unfolding level_at_def using refill_range [OF b(1,2) assms(3)] by auto
  show "fl64 (level_at now perSecond burst b) = level_at now perSecond burst b"
    using b(1,3) cap_exact(1) [OF assms(2)] assms(3) by (auto simp: level_at_def refill_def min_def)
qed

text \<open>A token is taken, and given back, exactly.\<close>

lemma take_token_exact:
  fixes now :: int
  assumes "level_ok burst b" "cap_ok burst" "0 \<le> perSecond"
  defines "level \<equiv> level_at now perSecond burst b"
  shows "take_token now perSecond burst b =
    (if 1 \<le> level then (True, \<lparr>bk_tokens = level - 1, bk_last = now\<rparr>) else (False, \<lparr>bk_tokens = level, bk_last = now\<rparr>))"
proof -
  note l = level_at_ok [OF assms(1-3), of now, folded level_def]
  have "fl64 (level - 1) = level - 1" if "1 \<le> level" using fl64_pred [OF l(3) that] l(2) cap_exact(2) [OF assms(2)] by simp
  then show ?thesis by (auto simp: take_token_def spend_def level_def level_at_def Let_def not_less)
qed

lemma take_token_ok:
  assumes "level_ok burst b" "cap_ok burst" "0 \<le> perSecond"
  shows "level_ok burst (snd (take_token now perSecond burst b))"
proof -
  let ?level = "level_at now perSecond burst b"
  note l = level_at_ok [OF assms, of now]
  have "fl64 (?level - 1) = ?level - 1" if "1 \<le> ?level" using fl64_pred [OF l(3) that] l(2) cap_exact(2) [OF assms(2)] by simp
  then show ?thesis using l take_token_exact [OF assms, of now] by (auto simp: level_ok_def)
qed

lemma refund_exact:
  assumes "level_ok burst b" "cap_ok burst" "0 \<le> perSecond" "take_token now perSecond burst b = (True, own)"
  shows "refund burst own = \<lparr>bk_tokens = level_at now perSecond burst b, bk_last = now\<rparr>"
proof -
  note l = level_at_ok [OF assms(1-3), of now]
  have "own = \<lparr>bk_tokens = level_at now perSecond burst b - 1, bk_last = now\<rparr>"
    using assms(4) take_token_exact [OF assms(1-3), of now] by (auto split: if_splits)
  then show ?thesis using l by (simp add: refund_def)
qed

section \<open>What a request does\<close>

definition limiter_ok :: "limiter \<Rightarrow> bool" where
  "limiter_ok l \<longleftrightarrow> senders_ok l \<and> 0 < lm_maxSenders l \<and> cap_ok (lm_senderBurst l) \<and> cap_ok (lm_globalBurst l)
     \<and> 0 \<le> lm_senderPerSecond l \<and> 0 \<le> lm_globalPerSecond l
     \<and> list_all (\<lambda>e. level_ok (lm_senderBurst l) (snd e)) (lm_order l) \<and> level_ok (lm_globalBurst l) (lm_global l)"

lemma touch_first: "senders_ok l \<Longrightarrow> \<exists>b rest. lm_order (touch_sender k now l) = (k, b) # rest \<and> (\<forall>e\<in>set rest. e \<in> set (lm_order l))
    \<and> (k |\<in>| lm_senders l \<longrightarrow> (k, b) \<in> set (lm_order l)) \<and> (k |\<notin>| lm_senders l \<longrightarrow> b = \<lparr>bk_tokens = lm_senderBurst l, bk_last = now\<rparr>)"
proof (cases "k |\<in>| lm_senders l")
  case True
  assume "senders_ok l"
  then have "distinct (map fst (lm_order l))" "k \<in> fst ` set (lm_order l)" using True by (auto simp: senders_ok_def)
  from keyed_one [OF this] obtain b where b: "filter (\<lambda>e. fst e = k) (lm_order l) = [(k, b)]" "(k, b) \<in> set (lm_order l)" by blast
  then show ?thesis using True by (auto simp: touch_sender_def)
next
  case False
  then show ?thesis by (auto simp: touch_sender_def Let_def dest: in_set_butlastD)
qed

lemma touch_limiter_ok:
  assumes "limiter_ok l"
  shows "limiter_ok (touch_sender k now l)" "lm_global (touch_sender k now l) = lm_global l"
proof -
  have s: "senders_ok l" "0 < lm_maxSenders l" using assms by (auto simp: limiter_ok_def)
  let ?l = "touch_sender k now l"
  have same: "lm_senderBurst ?l = lm_senderBurst l" "lm_globalBurst ?l = lm_globalBurst l" "lm_senderPerSecond ?l = lm_senderPerSecond l"
    "lm_globalPerSecond ?l = lm_globalPerSecond l" "lm_maxSenders ?l = lm_maxSenders l" using limits_same(1) [of k now l] by (auto simp: limits_of_def)
  show g: "lm_global ?l = lm_global l" by (simp add: touch_sender_def Let_def)
  obtain b rest where b: "lm_order ?l = (k, b) # rest" "\<forall>e\<in>set rest. e \<in> set (lm_order l)"
    "k |\<in>| lm_senders l \<longrightarrow> (k, b) \<in> set (lm_order l)" "k |\<notin>| lm_senders l \<longrightarrow> b = \<lparr>bk_tokens = lm_senderBurst l, bk_last = now\<rparr>"
    using touch_first [OF s(1), of k now] by blast
  have "level_ok (lm_senderBurst l) \<lparr>bk_tokens = lm_senderBurst l, bk_last = now\<rparr>"
    using assms cap_exact [of "lm_senderBurst l"] by (auto simp: limiter_ok_def level_ok_def)
  moreover have lv: "\<forall>e\<in>set (lm_order l). level_ok (lm_senderBurst l) (snd e)" using assms by (simp add: limiter_ok_def list_all_iff)
  ultimately have "level_ok (lm_senderBurst l) b" using b(3,4) by fastforce
  then show "limiter_ok ?l" using touch_ok [OF s] assms b lv g same by (auto simp: limiter_ok_def list_all_iff)
qed

text \<open>The outcome of a request by the levels it finds.\<close>

definition global_level :: "int \<Rightarrow> limiter \<Rightarrow> rat" where
  "global_level now l = level_at now (lm_globalPerSecond l) (lm_globalBurst l) (lm_global l)"

definition own_level :: "int \<Rightarrow> limiter \<Rightarrow> rat" where
  "own_level now l = level_at now (lm_senderPerSecond l) (lm_senderBurst l) (snd (hd (lm_order l)))"

lemma admit_ceiling_only:
  assumes "limiter_ok l"
  shows "limiter_admit [] now l =
    (if 1 \<le> global_level now l then (Admitted, l\<lparr>lm_global := \<lparr>bk_tokens = global_level now l - 1, bk_last = now\<rparr>\<rparr>)
     else (RefusedByGlobal, l\<lparr>lm_global := \<lparr>bk_tokens = global_level now l, bk_last = now\<rparr>\<rparr>))"
  using assms by (auto simp: limiter_admit_def limiter_ok_def take_token_exact global_level_def)

lemma admit_levels:
  fixes now :: int
  assumes "limiter_ok l0" "sender \<noteq> []"
  defines "l \<equiv> touch_sender (keyOf l0 sender) now l0"
  shows "limiter_admit sender now l0 =
    (if own_level now l < 1 then (RefusedBySender, set_own \<lparr>bk_tokens = own_level now l, bk_last = now\<rparr> l)
     else if global_level now l < 1 then
       (RefusedByGlobal, (set_own \<lparr>bk_tokens = own_level now l, bk_last = now\<rparr> l)\<lparr>lm_global := \<lparr>bk_tokens = global_level now l, bk_last = now\<rparr>\<rparr>)
     else (Admitted, (set_own \<lparr>bk_tokens = own_level now l - 1, bk_last = now\<rparr> l)\<lparr>lm_global := \<lparr>bk_tokens = global_level now l - 1, bk_last = now\<rparr>\<rparr>))"
proof -
  have ok: "limiter_ok l" unfolding l_def by (rule touch_limiter_ok(1) [OF assms(1)])
  obtain b rest where o: "lm_order l = (keyOf l0 sender, b) # rest" using touch_first [of l0 "keyOf l0 sender" now] assms(1) by (auto simp: l_def limiter_ok_def)
  have lv: "level_ok (lm_senderBurst l) b" "cap_ok (lm_senderBurst l)" "0 \<le> lm_senderPerSecond l" using ok o by (auto simp: limiter_ok_def)
  have gl: "level_ok (lm_globalBurst l) (lm_global l)" "cap_ok (lm_globalBurst l)" "0 \<le> lm_globalPerSecond l" using ok by (auto simp: limiter_ok_def)
  note own = take_token_exact [OF lv, of now] and glob = take_token_exact [OF gl, of now]
  have "refund (lm_senderBurst l) \<lparr>bk_tokens = own_level now l - 1, bk_last = now\<rparr> = \<lparr>bk_tokens = own_level now l, bk_last = now\<rparr>"
    if "1 \<le> own_level now l" using refund_exact [OF lv, of now] own that o by (simp add: own_level_def)
  then show ?thesis using assms(2) own glob o unfolding limiter_admit_def l_def [symmetric] Let_def by (auto simp: own_level_def global_level_def)
qed

lemma set_own_ok:
  assumes "limiter_ok l" "lm_order l \<noteq> []" "level_ok (lm_senderBurst l) b"
  shows "limiter_ok (set_own b l)" "map fst (lm_order (set_own b l)) = map fst (lm_order l)"
proof -
  show m: "map fst (lm_order (set_own b l)) = map fst (lm_order l)" using assms(2) by (cases "lm_order l") (auto simp: set_own_def)
  have "length (lm_order (set_own b l)) = length (lm_order l)" using arg_cong [OF m, of length] by simp
  moreover have "lm_senders (set_own b l) = lm_senders l" "lm_global (set_own b l) = lm_global l" by (simp_all add: set_own_def)
  moreover have "list_all (\<lambda>e. level_ok (lm_senderBurst l) (snd e)) (lm_order (set_own b l))"
    using assms by (cases "lm_order l") (auto simp: set_own_def limiter_ok_def)
  ultimately show "limiter_ok (set_own b l)" using assms(1) limits_same(2) [of b l] m by (auto simp: limiter_ok_def senders_ok_def limits_of_def simp del: set_map)
qed

lemma level_ok_pred: "level_ok cap b \<Longrightarrow> cap_ok cap \<Longrightarrow> 0 \<le> per \<Longrightarrow> x = level_at now per cap b \<Longrightarrow>
    level_ok cap \<lparr>bk_tokens = x, bk_last = now\<rparr> \<and> (1 \<le> x \<longrightarrow> level_ok cap \<lparr>bk_tokens = x - 1, bk_last = now\<rparr>)"
  using take_token_ok [of cap b per now] take_token_exact [of cap b per now] level_at_ok [of cap b per now] by (auto simp: level_ok_def)

lemma global_upd_ok: "limiter_ok l \<Longrightarrow> level_ok (lm_globalBurst l) g \<Longrightarrow> limiter_ok (l\<lparr>lm_global := g\<rparr>)"
  by (simp add: limiter_ok_def senders_ok_def)

lemma global_level_ok:
  assumes "limiter_ok l" "x = global_level now l"
  shows "level_ok (lm_globalBurst l) \<lparr>bk_tokens = x, bk_last = now\<rparr>" "1 \<le> x \<Longrightarrow> level_ok (lm_globalBurst l) \<lparr>bk_tokens = x - 1, bk_last = now\<rparr>"
  using level_ok_pred [of "lm_globalBurst l" "lm_global l" "lm_globalPerSecond l" x now] assms by (auto simp: limiter_ok_def global_level_def)

lemma own_level_ok:
  assumes "limiter_ok l" "lm_order l \<noteq> []" "x = own_level now l"
  shows "level_ok (lm_senderBurst l) \<lparr>bk_tokens = x, bk_last = now\<rparr>" "1 \<le> x \<Longrightarrow> level_ok (lm_senderBurst l) \<lparr>bk_tokens = x - 1, bk_last = now\<rparr>"
proof -
  have "level_ok (lm_senderBurst l) (snd (hd (lm_order l)))" using assms(1,2) by (cases "lm_order l") (auto simp: limiter_ok_def)
  from level_ok_pred [OF this, of "lm_senderPerSecond l" x now] show "level_ok (lm_senderBurst l) \<lparr>bk_tokens = x, bk_last = now\<rparr>"
    "1 \<le> x \<Longrightarrow> level_ok (lm_senderBurst l) \<lparr>bk_tokens = x - 1, bk_last = now\<rparr>"
    using assms by (auto simp: limiter_ok_def own_level_def)
qed

lemma admit_ok:
  assumes "limiter_ok l"
  shows "limiter_ok (snd (limiter_admit sender now l))"
    "map fst (lm_order (snd (limiter_admit sender now l))) = (if sender = [] then map fst (lm_order l) else map fst (lm_order (touch_sender (keyOf l sender) now l)))"
proof -
  have both: "limiter_ok (snd (limiter_admit sender now l)) \<and> map fst (lm_order (snd (limiter_admit sender now l)))
      = (if sender = [] then map fst (lm_order l) else map fst (lm_order (touch_sender (keyOf l sender) now l)))"
  proof (cases "sender = []")
    case True
    then show ?thesis using global_level_ok [OF assms refl, of now] global_upd_ok [OF assms] by (simp add: admit_ceiling_only [OF assms])
  next
    case False
    let ?l = "touch_sender (keyOf l sender) now l"
    have t: "limiter_ok ?l" "lm_order ?l \<noteq> []" using touch_limiter_ok(1) [OF assms] touch_first [of l "keyOf l sender" now] assms by (auto simp: limiter_ok_def)
    note own = own_level_ok [OF t refl, of now] and glob = global_level_ok [OF t(1) refl, of now]
    have upd: "limiter_ok ((set_own b ?l)\<lparr>lm_global := g\<rparr>)" if "level_ok (lm_senderBurst ?l) b" "level_ok (lm_globalBurst ?l) g" for b g
      using global_upd_ok [OF set_own_ok(1) [OF t that(1)], of g] that(2) limits_same(2) [of b ?l] by (simp add: limits_of_def)
    show ?thesis using False own glob upd set_own_ok [OF t] by (simp add: admit_levels [OF assms False] not_less)
  qed
  then show "limiter_ok (snd (limiter_admit sender now l))" by blast
  show "map fst (lm_order (snd (limiter_admit sender now l))) = (if sender = [] then map fst (lm_order l) else map fst (lm_order (touch_sender (keyOf l sender) now l)))"
    using both by blast
qed

lemma admit_hashKey [simp]: "keyOf (snd (limiter_admit sender now l)) = keyOf l" "lm_maxSenders (snd (limiter_admit sender now l)) = lm_maxSenders l"
  "lm_globalPerSecond (snd (limiter_admit sender now l)) = lm_globalPerSecond l" "lm_globalBurst (snd (limiter_admit sender now l)) = lm_globalBurst l"
  using admit_limits [of sender now l] by (auto simp: limits_of_def keyOf_def fun_eq_iff)

text \<open>The keys of the senders of some requests, the most recent first.\<close>

definition recent_keys :: "limiter \<Rightarrow> string list \<Rightarrow> (string \<times> int) list \<Rightarrow> string list" where
  "recent_keys l ks rs = foldl (\<lambda>ks (sender, now). if sender = [] then ks else seen (keyOf l sender) ks) ks rs"

lemma run_keys:
  assumes "limiter_ok l" "distinct ks" "map fst (lm_order l) = take (nat (lm_maxSenders l)) ks"
  shows "limiter_ok (snd (admit_run l rs)) \<and> map fst (lm_order (snd (admit_run l rs))) = take (nat (lm_maxSenders l)) (recent_keys l ks rs)
    \<and> lm_maxSenders (snd (admit_run l rs)) = lm_maxSenders l"
  using assms
proof (induction rs arbitrary: l ks)
  case Nil
  then show ?case by (simp add: recent_keys_def)
next
  case (Cons r rs)
  obtain sender now where r: "r = (sender, now)" by fastforce
  let ?l = "snd (limiter_admit sender now l)"
  let ?ks = "if sender = [] then ks else seen (keyOf l sender) ks"
  have "map fst (lm_order ?l) = take (nat (lm_maxSenders l)) ?ks"
    using Cons.prems admit_ok(2) [OF Cons.prems(1), of sender now] touch_keys [OF _ _ Cons.prems(2,3)] by (simp add: limiter_ok_def)
  moreover have "distinct ?ks" using seen_distinct [OF Cons.prems(2)] Cons.prems(2) by simp
  ultimately have ih: "limiter_ok (snd (admit_run ?l rs)) \<and> map fst (lm_order (snd (admit_run ?l rs))) = take (nat (lm_maxSenders ?l)) (recent_keys ?l ?ks rs)
    \<and> lm_maxSenders (snd (admit_run ?l rs)) = lm_maxSenders ?l"
    using Cons.IH [OF admit_ok(1) [OF Cons.prems(1)]] by simp
  have "recent_keys ?l ?ks rs = recent_keys l ks (r # rs)" unfolding r recent_keys_def admit_hashKey by simp
  then show ?case using ih r by (simp add: split_beta)
qed

section \<open>The bridge as a whole\<close>

definition gpair :: "limiter \<Rightarrow> rat \<times> int" where
  "gpair l = (bk_tokens (lm_global l), bk_last (lm_global l))"

primrec ceiling_event :: "verdict \<Rightarrow> int \<Rightarrow> (int \<times> rat option) list" where
  "ceiling_event Admitted now = [(now, Some 1)]"
| "ceiling_event RefusedByGlobal now = [(now, None)]"
| "ceiling_event RefusedBySender now = []"

lemma take_turn:
  assumes "take_token now per burst b = (ok, b')"
  shows "(bk_tokens b', bk_last b') = bucket_turn burst per (bk_tokens b, bk_last b) (now, if ok then Some 1 else None)"
    "ok \<Longrightarrow> 1 \<le> refill burst per (Seconds (time_Sub now (bk_last b))) (bk_tokens b)"
  using assms by (auto simp: take_token_def bucket_turn_def Let_def split: if_splits)

lemma admit_turn:
  assumes "limiter_admit sender now l = (v, l')" "bk_last (lm_global l) \<le> now"
  shows "affordable (lm_globalBurst l) (lm_globalPerSecond l) (gpair l) (ceiling_event v now @ es)
    \<longleftrightarrow> affordable (lm_globalBurst l) (lm_globalPerSecond l) (gpair l') es"
    "bk_last (lm_global l') \<le> now"
proof -
  let ?t = "touch_sender (keyOf l sender) now l"
  have g: "lm_global ?t = lm_global l" "lm_globalBurst ?t = lm_globalBurst l" "lm_globalPerSecond ?t = lm_globalPerSecond l" by (auto simp: touch_sender_def Let_def)
  obtain ok b where t: "take_token now (lm_globalPerSecond l) (lm_globalBurst l) (lm_global l) = (ok, b)" by fastforce
  note turn = take_turn [OF t]
  have last: "bk_last b = now" using t by (auto simp: take_token_def Let_def split: if_splits)
  have so: "lm_global (set_own x y) = lm_global y" for x y by (simp add: set_own_def)
  obtain fits own where o: "take_token now (lm_senderPerSecond ?t) (lm_senderBurst ?t) (snd (hd (lm_order ?t))) = (fits, own)" by fastforce
  have "limiter_admit sender now l =
    (if sender = [] then (if ok then Admitted else RefusedByGlobal, l\<lparr>lm_global := b\<rparr>)
     else if \<not> fits then (RefusedBySender, set_own own ?t)
     else if \<not> ok then (RefusedByGlobal, (set_own (refund (lm_senderBurst ?t) own) ?t)\<lparr>lm_global := b\<rparr>)
     else (Admitted, (set_own own ?t)\<lparr>lm_global := b\<rparr>))"
    unfolding limiter_admit_def Let_def o g t by (cases fits; cases ok) simp_all
  then have "v = RefusedBySender \<and> lm_global l' = lm_global l \<or> ok \<and> v = Admitted \<and> lm_global l' = b \<or> \<not> ok \<and> v = RefusedByGlobal \<and> lm_global l' = b"
    using assms(1) by (cases "sender = []"; cases fits; cases ok) (auto simp: so g)
  then show "affordable (lm_globalBurst l) (lm_globalPerSecond l) (gpair l) (ceiling_event v now @ es) \<longleftrightarrow> affordable (lm_globalBurst l) (lm_globalPerSecond l) (gpair l') es"
    "bk_last (lm_global l') \<le> now"
    using turn last assms(2) by (auto simp: gpair_def)
qed

fun ceiling_events :: "(string \<times> int) list \<Rightarrow> verdict list \<Rightarrow> (int \<times> rat option) list" where
  "ceiling_events ((sender, now) # rs) (v # vs) = ceiling_event v now @ ceiling_events rs vs"
| "ceiling_events _ _ = []"

lemma run_turns:
  assumes "sorted (bk_last (lm_global l) # map snd rs)"
  shows "affordable (lm_globalBurst l) (lm_globalPerSecond l) (gpair l) (ceiling_events rs (fst (admit_run l rs)))"
  using assms
proof (induction l rs rule: admit_run.induct)
  case (2 l sender now rs)
  obtain v l' where a: "limiter_admit sender now l = (v, l')" by fastforce
  have same: "lm_globalBurst l' = lm_globalBurst l" "lm_globalPerSecond l' = lm_globalPerSecond l"
    using admit_hashKey(3,4) [of sender now l] by (simp_all add: a)
  have "bk_last (lm_global l) \<le> now" using 2(2) by simp
  note turn = admit_turn [OF a this]
  have "sorted (bk_last (lm_global l') # map snd rs)" using 2(2) turn(2) by auto
  from 2(1) [OF a [symmetric] this] show ?case using a turn(1) same by (simp add: split_beta)
qed simp

lemma run_limits: "limits_of (snd (admit_run l rs)) = limits_of l" and run_length [simp]: "length (fst (admit_run l rs)) = length rs"
proof (induction rs arbitrary: l)
  case (Cons r rs)
  { case 1 show ?case using Cons(1) [of "snd (limiter_admit (fst r) (snd r) l)"] by (cases r) (simp add: split_beta) }
  { case 2 show ?case using Cons(2) [of "snd (limiter_admit (fst r) (snd r) l)"] by (cases r) (simp add: split_beta) }
qed simp_all

lemma new_limiter_ok:
  assumes "0 < senderPerMinute" "0 < senderBurst" "senderBurst < 2 ^ 53" "0 < globalPerMinute" "0 < globalBurst" "globalBurst < 2 ^ 53" "0 < maxSenders"
  shows "limiter_ok (newLimiter hashKey senderPerMinute senderBurst globalPerMinute globalBurst maxSenders now)"
  using assms fl64_int [of senderBurst] fl64_int [of globalBurst]
  by (auto simp: newLimiter_def limiter_ok_def senders_ok_def cap_ok_def level_ok_def)

text \<open>The configurations the bridge takes; a burst that is not below \<open>2 ^ 53\<close> is not exact as a \<open>float64\<close>.\<close>

definition limits_positive :: "int \<Rightarrow> int \<Rightarrow> int \<Rightarrow> int \<Rightarrow> int \<Rightarrow> bool" where
  "limits_positive senderPerMinute senderBurst globalPerMinute globalBurst maxSenders \<longleftrightarrow>
     0 < senderPerMinute \<and> 0 < senderBurst \<and> senderBurst < 2 ^ 53 \<and> 0 < globalPerMinute \<and> 0 < globalBurst \<and> globalBurst < 2 ^ 53 \<and> 0 < maxSenders"

lemma new_ok: "limits_positive spm sb gpm gb ms \<Longrightarrow> limiter_ok (newLimiter hashKey spm sb gpm gb ms now)"
  by (auto simp: limits_positive_def intro: new_limiter_ok)

text \<open>The senders that hold state are the ones seen last. After any requests, the list of senders is the keys of the requests' senders, each
  once, the latest first, cut at the most senders there may be; the map has exactly those keys; and no bucket is below nothing or
  above its burst.\<close>

theorem tracked_senders_are_the_latest:
  assumes "limits_positive spm sb gpm gb ms" "l = newLimiter hashKey spm sb gpm gb ms start" "l' = snd (admit_run l rs)"
  shows "map fst (lm_order l') = take (nat ms) (recent_keys l [] rs) \<and> fset (lm_senders l') = set (map fst (lm_order l'))
    \<and> list_all (\<lambda>(key, b). 0 \<le> bk_tokens b \<and> bk_tokens b \<le> of_int sb) (lm_order l') \<and> 0 \<le> bk_tokens (lm_global l') \<and> bk_tokens (lm_global l') \<le> of_int gb"
proof -
  have ok: "limiter_ok l" unfolding assms(2) by (rule new_ok [OF assms(1)])
  have f: "fl64 (of_int sb) = of_int sb" "fl64 (of_int gb) = of_int gb" using assms(1) fl64_int by (auto simp: limits_positive_def)
  have l: "lm_maxSenders l = ms" "map fst (lm_order l) = []" by (simp_all add: assms(2) newLimiter_def)
  have r: "limiter_ok l'" "map fst (lm_order l') = take (nat ms) (recent_keys l [] rs)" using run_keys [OF ok, of "[]" rs] l by (auto simp: assms(3))
  have "limits_of l' = limits_of l" unfolding assms(3) by (rule run_limits)
  then have "lm_senderBurst l' = of_int sb" "lm_globalBurst l' = of_int gb" using f by (auto simp: assms(2) newLimiter_def limits_of_def)
  then show ?thesis using r by (auto simp: limiter_ok_def senders_ok_def level_ok_def list_all_iff split_beta)
qed

definition demo_requests :: "(string \<times> int) list" where
  "demo_requests = [(''+1'', 0), (''+2'', 1), ([], 2), (''+1'', 3), (''+3'', 4)]"

definition demo_limiter :: limiter where
  "demo_limiter = newLimiter ''key'' 60 5 600 10 2 0"

theorem tracked_senders_are_the_latest_witness:
  "map fst (lm_order (snd (admit_run demo_limiter demo_requests))) = take (nat 2) (recent_keys demo_limiter [] demo_requests)"
  using tracked_senders_are_the_latest [of 60 5 600 10 2 demo_limiter "''key''" 0, OF _ _ refl, of demo_requests]
  by (simp add: limits_positive_def demo_limiter_def)

lemma ceiling_events_shape:
  assumes "length vs = length rs" "list_all (\<lambda>(sender, now). now \<le> finish) rs"
  shows "length (ceiling_events rs vs) \<le> length rs" "list_all (\<lambda>e. fst e \<le> finish) (ceiling_events rs vs)"
    "charged (ceiling_events rs vs) = of_nat (length (filter (\<lambda>v. v = Admitted) vs))"
proof -
  have "length (ceiling_events rs vs) \<le> length rs \<and> list_all (\<lambda>e. fst e \<le> finish) (ceiling_events rs vs)
    \<and> charged (ceiling_events rs vs) = of_nat (length (filter (\<lambda>v. v = Admitted) vs))"
    using assms
  proof (induction vs rs rule: list_induct2)
    case (Cons v vs r rs)
    then show ?case by (cases r; cases v) (auto simp: charged_def)
  qed (simp add: charged_def)
  then show "length (ceiling_events rs vs) \<le> length rs" "list_all (\<lambda>e. fst e \<le> finish) (ceiling_events rs vs)"
    "charged (ceiling_events rs vs) = of_nat (length (filter (\<lambda>v. v = Admitted) vs))" by auto
qed

text \<open>However many senders there are and whatever they send, the requests the limiter admits from its start to some time number at most the ceiling's
  burst plus its rate times the seconds elapsed; as for the ingress gate, the factor and the last term are what rounding can add.\<close>

lemma admission_bound:
  assumes "limits_positive spm sb gpm gb ms" "sorted (start # map snd rs)" "list_all (\<lambda>(sender, now). now \<le> finish) rs" "start \<le> finish"
  shows "of_nat (length (filter (\<lambda>v. v = Admitted) (fst (admit_run (newLimiter hashKey spm sb gpm gb ms start) rs))))
    \<le> allowance (of_int gb) (fl64 (fl64 (of_int gpm) / 60)) (finish - start) (length rs)"
proof -
  let ?l = "newLimiter hashKey spm sb gpm gb ms start"
  have gb: "fl64 (of_int gb) = of_int gb" "0 \<le> gb" "gb < 2 ^ 53" "0 \<le> fl64 (fl64 (of_int gpm) / 60)" using assms(1) fl64_int by (auto simp: limits_positive_def)
  have g: "gpair ?l = (of_int gb, start)" "lm_globalBurst ?l = of_int gb" "lm_globalPerSecond ?l = fl64 (fl64 (of_int gpm) / 60)" "bk_last (lm_global ?l) = start"
    using gb(1) by (simp_all add: gpair_def newLimiter_def)
  note shape = ceiling_events_shape [OF run_length assms(3)]
  have "affordable (of_int gb) (fl64 (fl64 (of_int gpm) / 60)) (of_int gb, start) (ceiling_events rs (fst (admit_run ?l rs)))"
    using run_turns [of ?l rs] assms(2) by (simp add: g)
  from affordable_allowance [OF this gb(4,2) refl gb(3) shape(2) assms(4) shape(1)] show ?thesis unfolding shape(3) .
qed

section \<open>A refusal costs nothing elsewhere\<close>

definition bucket_of :: "limiter \<Rightarrow> string \<Rightarrow> bucket option" where
  "bucket_of l sender = map_of (lm_order l) (keyOf l sender)"

text \<open>The level a request of a sender finds: a sender that holds no state starts with a full bucket.\<close>

definition sender_level :: "int \<Rightarrow> limiter \<Rightarrow> string \<Rightarrow> rat" where
  "sender_level now l sender =
     (case bucket_of l sender of None \<Rightarrow> lm_senderBurst l | Some b \<Rightarrow> level_at now (lm_senderPerSecond l) (lm_senderBurst l) b)"

lemma touched_level:
  assumes "limiter_ok l"
  shows "own_level now (touch_sender (keyOf l sender) now l) = sender_level now l sender"
proof -
  let ?k = "keyOf l sender" and ?l = "touch_sender (keyOf l sender) now l"
  have ok: "senders_ok l" using assms by (simp add: limiter_ok_def)
  obtain b rest where b: "lm_order ?l = (?k, b) # rest" "?k |\<in>| lm_senders l \<longrightarrow> (?k, b) \<in> set (lm_order l)"
    "?k |\<notin>| lm_senders l \<longrightarrow> b = \<lparr>bk_tokens = lm_senderBurst l, bk_last = now\<rparr>" using touch_first [OF ok, of ?k now] by blast
  have same: "lm_senderPerSecond ?l = lm_senderPerSecond l" "lm_senderBurst ?l = lm_senderBurst l" using limits_same(1) [of ?k now l] by (auto simp: limits_of_def)
  have mem: "?k |\<in>| lm_senders l \<longleftrightarrow> map_of (lm_order l) ?k \<noteq> None" using ok by (auto simp: senders_ok_def map_of_eq_None_iff)
  have fresh: "level_at now per cap \<lparr>bk_tokens = cap, bk_last = now\<rparr> = cap" for per cap
    using Seconds_le_0 [of 0] by (simp add: level_at_def refill_def time_Sub_def minInt64_def maxInt64_def)
  show ?thesis
  proof (cases "?k |\<in>| lm_senders l")
    case True
    then have "map_of (lm_order l) ?k = Some b" using b(2) ok by (auto simp: senders_ok_def)
    then show ?thesis using b(1) same by (simp add: own_level_def sender_level_def bucket_of_def)
  next
    case False
    then have "bucket_of l sender = None" using mem by (simp add: bucket_of_def)
    then show ?thesis using b(1,3) False same fresh by (simp add: own_level_def sender_level_def)
  qed
qed

lemma set_own_bucket:
  assumes "lm_order l \<noteq> []" "fst (hd (lm_order l)) = k"
  shows "map_of (lm_order (set_own b l)) k = Some b"
  using assms by (simp add: set_own_def)

text \<open>A request refused in one place costs nothing in the other. In any state the bridge reaches, a request the sender's own bucket refuses
  leaves the ceiling as it was; one the ceiling refuses leaves its sender with exactly the level it found, to the last bit of the
  \<open>float64\<close>; and one that is admitted is charged one token in each.\<close>

theorem refusal_costs_nothing_elsewhere:
  assumes "limits_positive spm sb gpm gb ms" "l = snd (admit_run (newLimiter hashKey spm sb gpm gb ms start) rs)" "sender \<noteq> []"
    and "limiter_admit sender now l = (v, l')"
  shows "(v = RefusedBySender \<longrightarrow> lm_global l' = lm_global l)
    \<and> (v = RefusedByGlobal \<longrightarrow> bucket_of l' sender = Some \<lparr>bk_tokens = sender_level now l sender, bk_last = now\<rparr>)
    \<and> (v = Admitted \<longrightarrow> bucket_of l' sender = Some \<lparr>bk_tokens = sender_level now l sender - 1, bk_last = now\<rparr>
          \<and> lm_global l' = \<lparr>bk_tokens = global_level now l - 1, bk_last = now\<rparr>)"
proof -
  let ?l0 = "newLimiter hashKey spm sb gpm gb ms start"
  have ok: "limiter_ok l" using run_keys [OF new_ok [OF assms(1)], of "[]"] by (simp add: assms(2) newLimiter_def)
  let ?k = "keyOf l sender" and ?t = "touch_sender (keyOf l sender) now l"
  have o: "lm_order ?t \<noteq> []" "fst (hd (lm_order ?t)) = ?k" using touch_first [of l ?k now] ok by (auto simp: limiter_ok_def)
  have key: "keyOf l' sender = ?k" using admit_hashKey(1) [of sender now l] by (simp add: assms(4))
  have g: "lm_global ?t = lm_global l" "global_level now ?t = global_level now l" by (auto simp: touch_sender_def Let_def global_level_def)
  have glob: "lm_global (set_own b ?t) = lm_global l" for b by (simp add: set_own_def g(1))
  have own: "map_of (lm_order ((set_own b ?t)\<lparr>lm_global := x\<rparr>)) ?k = Some b" for b x using set_own_bucket [OF o] by simp
  show ?thesis
    using assms(4) own glob unfolding admit_levels [OF ok assms(3)] touched_level [OF ok] g(2) bucket_of_def key
    by (cases "sender_level now l sender < 1"; cases "global_level now l < 1") auto
qed

definition demo_spent :: limiter where
  "demo_spent = snd (admit_run (newLimiter ''key'' 60 2 60 1 5 0) [([], 0)])"

lemma demo_spent_levels:
  "limiter_ok demo_spent" "sender_level 0 demo_spent ''+1'' = 2" "global_level 0 demo_spent = 0"
proof -
  let ?l = "newLimiter ''key'' 60 2 60 1 5 0"
  have ok: "limiter_ok ?l" by (intro new_limiter_ok) auto
  then show "limiter_ok demo_spent" using admit_ok(1) [OF ok] by (simp add: demo_spent_def split_beta)
  have f: "fl64 1 = 1" "fl64 2 = 2" using fl64_int [of 1] fl64_int [of 2] by auto
  have z: "level_at 0 per cap \<lparr>bk_tokens = x, bk_last = 0\<rparr> = x" for per cap x
    using Seconds_le_0 [of 0] by (simp add: level_at_def refill_def time_Sub_def minInt64_def maxInt64_def)
  have g: "global_level 0 ?l = 1" using f z by (simp add: global_level_def newLimiter_def)
  have d: "demo_spent = ?l\<lparr>lm_global := \<lparr>bk_tokens = 0, bk_last = 0\<rparr>\<rparr>" using admit_ceiling_only [OF ok, of 0] g by (simp add: demo_spent_def)
  show "sender_level 0 demo_spent ''+1'' = 2" using f by (simp add: d sender_level_def bucket_of_def newLimiter_def)
  show "global_level 0 demo_spent = 0" using z by (simp add: d global_level_def)
qed

theorem refusal_costs_nothing_elsewhere_witness:
  "fst (limiter_admit ''+1'' 0 demo_spent) = RefusedByGlobal
    \<and> bucket_of (snd (limiter_admit ''+1'' 0 demo_spent)) ''+1'' = Some \<lparr>bk_tokens = 2, bk_last = 0\<rparr>"
proof -
  let ?t = "touch_sender (keyOf demo_spent ''+1'') 0 demo_spent"
  have "global_level 0 ?t = 0" using demo_spent_levels(3) by (simp add: global_level_def touch_sender_def Let_def)
  then have "fst (limiter_admit ''+1'' 0 demo_spent) = RefusedByGlobal"
    using admit_levels [OF demo_spent_levels(1), of "''+1''" 0] touched_level [OF demo_spent_levels(1), of 0 "''+1''"] demo_spent_levels(2) by simp
  then show ?thesis
    using refusal_costs_nothing_elsewhere [of 60 2 60 1 5, OF _ demo_spent_def, of "''+1''" 0] demo_spent_levels(2)
    by (auto simp: limits_positive_def prod_eq_iff)
qed

section \<open>Reading the sender\<close>

definition is_json :: "string \<Rightarrow> bool" where
  "is_json contentType \<longleftrightarrow> Contains ''application/json'' (ToLower contentType)"

text \<open>A body that names a sender: an object with a member whose name begins as the sender's does, or a form with a pair for one of the two
  names.\<close>

definition names_sender :: "string \<Rightarrow> string \<Rightarrow> bool" where
  "names_sender contentType body \<longleftrightarrow>
     (if is_json contentType
      then (\<exists>before key v after. json_parse body = Some (JObj (before @ (key, v) # after)) \<and> HasPrefix (unquote key) ''from'')
      else (\<exists>before pair after. split_on CHR ''&'' body = before @ pair # after \<and> QueryUnescape (fst (Cut CHR ''='' pair)) \<in> {Some ''from'', Some ''from_number''}))"

lemma readSender_present: "readSender value True \<noteq> []"
  by (simp add: readSender_def unreadSender_def Let_def)

lemma json_reads_sender:
  assumes "json_parse body = Some (JObj (before @ (key, v) # after))" "HasPrefix (unquote key) ''from''"
  shows "jsonSender body \<noteq> []"
  using assms readSender_present by (auto simp: jsonSender_def Let_def unreadSender_def split: option.split)

lemma unescape_no_semicolon: "QueryUnescape s = Some t \<Longrightarrow> CHR '';'' \<in> set s \<Longrightarrow> CHR '';'' \<in> set t"
proof (induction s arbitrary: t rule: QueryUnescape.induct)
  case (2 c cs)
  show ?case
  proof (cases "c = CHR ''%''")
    case False
    then obtain u where u: "QueryUnescape cs = Some u" "t = (if c = CHR ''+'' then CHR '' '' else c) # u" using 2(3) by (simp split: if_splits) blast+
    show ?thesis using 2(2) [OF False u(1)] u(2) 2(4) by auto
  next
    case True
    then obtain a b rest x y out where e: "cs = a # b # rest" "hex_val a = Some x" "hex_val b = Some y" "QueryUnescape rest = Some out" "t = char_of (x * 16 + y) # out"
      using 2(3) by (simp split: list.splits option.splits)
    have "a \<noteq> CHR '';''" "b \<noteq> CHR '';''" using e(2,3) by (auto simp: hex_val_def is_digit_def byte_def)
    then have "CHR '';'' \<in> set rest" using 2(4) True e(1) by auto
    then show ?thesis using 2(1) [OF True e(1) refl e(4)] e(5) by simp
  qed
qed simp

lemma Cut_chars: "Cut sep s = (before, after, found) \<Longrightarrow> c \<in> set s \<Longrightarrow> c \<noteq> sep \<Longrightarrow> c \<in> set before \<or> c \<in> set after"
proof -
  assume a: "Cut sep s = (before, after, found)" "c \<in> set s" "c \<noteq> sep"
  let ?p = "\<lambda>c. c \<noteq> sep"
  have "set s = set (takeWhile ?p s) \<union> set (dropWhile ?p s)" by (metis set_append takeWhile_dropWhile_id)
  moreover have "set (dropWhile ?p s) \<subseteq> {sep} \<union> set (tl (dropWhile ?p s))"
    by (induction s) auto
  ultimately show ?thesis using a by (auto simp: Cut_def)
qed

lemma form_reads_sender:
  assumes "split_on CHR ''&'' body = before @ pair # after" "QueryUnescape (fst (Cut CHR ''='' pair)) \<in> {Some ''from'', Some ''from_number''}"
    "length (split_on CHR ''&'' body) \<le> maxQueryParams"
  shows "formSender body \<noteq> []"
proof -
  obtain key val found where c: "Cut CHR ''='' pair = (key, val, found)" by (metis prod_cases3)
  obtain k where k: "QueryUnescape key = Some k" "k \<in> {''from'', ''from_number''}" using assms(2) c by auto
  have ne: "pair \<noteq> []" using k c by (cases pair) (auto simp: Cut_def)
  have pair: "pair \<in> set (split_on CHR ''&'' body)" using assms(1) by simp
  have semi: "CHR '';'' \<notin> set key" using unescape_no_semicolon [OF k(1)] k(2) by auto
  have prefix: "HasPrefix k ''from''" using k(2) by (auto simp: HasPrefix_def)
  show ?thesis
  proof (cases "QueryUnescape val = None \<or> CHR '';'' \<in> set pair")
    case True
    then have "QueryUnescape val = None \<or> CHR '';'' \<in> set val" using Cut_chars [OF c, of "CHR '';''"] semi by auto
    then have "namesSenderField body" using pair c k(1) prefix unfolding namesSenderField_def list_ex_iff by (intro bexI [of _ pair]) auto
    moreover have "snd (ParseQuery body)" using assms(3) pair ne True c k(1) unfolding ParseQuery_def Let_def list_ex_iff
      by (auto simp: query_pair_def split: option.split intro!: bexI [of _ pair])
    ultimately show ?thesis by (simp add: formSender_def split_beta unreadSender_def)
  next
    case False
    then obtain v where v: "QueryUnescape val = Some v" by auto
    then have q: "query_pair pair = Some (k, v)" using c k(1) by (simp add: query_pair_def)
    then have "(k, v) \<in> set (fst (ParseQuery body))" using False pair ne assms(3) by (force simp: ParseQuery_def Let_def)
    then have "Values_Has (fst (ParseQuery body)) ''from'' \<or> Values_Has (fst (ParseQuery body)) ''from_number''"
      using k(2) by (force simp: Values_Has_def)
    then show ?thesis using readSender_present by (auto simp: formSender_def split_beta Let_def unreadSender_def)
  qed
qed


definition demo_form :: string where
  "demo_form = ''a=1&%66rom=%zz''"


lemma split_separators: "CHR ''&'' \<notin> set s \<Longrightarrow> split_on CHR ''&'' (s @ replicate n CHR ''&'') = s # replicate n []"
proof (induction s)
  case Nil
  show ?case by (induction n) auto
next
  case (Cons c s)
  then show ?case by auto
qed

definition wide_form :: "nat \<Rightarrow> string" where
  "wide_form n = ''from=1'' @ replicate n CHR ''&''"

lemma wide_split: "split_on CHR ''&'' (wide_form n) = ''from=1'' # replicate n []"
  unfolding wide_form_def by (rule split_separators) simp

lemma wide_names: "\<not> namesSenderField (wide_form n)"
proof -
  have "\<not> namesSenderField ''from=1''" "\<not> namesSenderField []" by code_simp+
  then show ?thesis by (simp add: namesSenderField_def wide_split list_ex_iff del: split_on.simps)
qed


end
