(* ===== verification/Bridge.thy ===== *)
theory Bridge
  imports Limiter
begin

text \<open>
  The webhook bridge, \<open>webhookbridge/bridge.go\<close>: a provider's request is checked, limited, signed and forwarded to the runtime. The HTTP
  server and client are the library's: a request is what the handler reads of it, and what became of a forwarded one is told.
\<close>

section \<open>The refusal log\<close>

record limit_log =
  rl_last :: "int option"
  rl_pending :: int
  rl_flushing :: bool

type_synonym refusalLog = "(string, limit_log) fmap"

definition no_log :: limit_log where
  "no_log = \<lparr>rl_last = None, rl_pending = 0, rl_flushing = False\<rparr>"

text \<open>A refusal, and the timer of a limit; the count of the line the logger is given, if it is.\<close>

definition note_refusal :: "int \<Rightarrow> string \<Rightarrow> refusalLog \<Rightarrow> int option \<times> refusalLog" where
  "note_refusal now limit r =
     (let p = fmget no_log r limit; p = p\<lparr>rl_pending := wrap64 (rl_pending p + 1)\<rparr>
      in if (case rl_last p of None \<Rightarrow> False | Some t \<Rightarrow> wrap64 (1000000000 - time_Sub now t) > 0)
         then (None, fmupd limit (p\<lparr>rl_flushing := True\<rparr>) r)
         else (Some (rl_pending p), fmupd limit (p\<lparr>rl_pending := 0, rl_last := Some now\<rparr>) r))"

definition flush_refusals :: "string \<Rightarrow> refusalLog \<Rightarrow> int option \<times> refusalLog" where
  "flush_refusals limit r =
     (let p = fmget no_log r limit
      in (if rl_pending p > 0 then Some (rl_pending p) else None,
          fmupd limit \<lparr>rl_last = map_option (\<lambda>t. t + 1000000000) (rl_last p), rl_pending = 0, rl_flushing = False\<rparr> r))"

section \<open>The server\<close>

record WebhookBridgeConfig =
  wb_Enabled :: bool
  wb_ListenAddr :: string
  wb_Path :: string
  wb_TargetURL :: string
  wb_ProviderSourceCIDRs :: "string list"
  wb_RuntimeTokenEnv :: string
  wb_HMACSecretEnv :: string
  wb_RequestTimeoutMS :: int
  wb_MaxBodyBytes :: int
  wb_SenderPerMinute :: int
  wb_SenderBurst :: int
  wb_GlobalPerMinute :: int
  wb_GlobalBurst :: int
  wb_MaxSenders :: int

record Refusals =
  rf_sender :: int
  rf_global :: int

record Server =
  sv_path :: string
  sv_providerPrefixes :: "Prefix list"
  sv_loopbackOnly :: bool
  sv_runtimeToken :: string
  sv_hmacSecret :: string
  sv_maxBodyBytes :: int
  sv_limiter :: limiter
  sv_refusals :: Refusals
  sv_refusalLog :: refusalLog

datatype bridgeError = BridgeDisabled | EmptyRuntimeToken | EmptyHMACSecret | BadTargetURL | BadCIDR string | BadRateLimits | NoSenderKey

text \<open>\<open>uri_ok\<close> is \<open>url.ParseRequestURI\<close>, which the server uses only to refuse a target; \<open>random\<close> is the key of the limiter, or nothing when the
  system's randomness fails.\<close>

definition New_Server :: "(string \<Rightarrow> bool) \<Rightarrow> (string \<Rightarrow> string) \<Rightarrow> string option \<Rightarrow> int \<Rightarrow> WebhookBridgeConfig \<Rightarrow> bridgeError + Server" where
  "New_Server uri_ok getenv random now cfg =
     (let runtimeToken = TrimSpace (getenv (wb_RuntimeTokenEnv cfg));
          hmacSecret = TrimSpace (getenv (wb_HMACSecretEnv cfg));
          prefixes = map ParsePrefix (wb_ProviderSourceCIDRs cfg)
      in if \<not> wb_Enabled cfg then Inl BridgeDisabled
         else if runtimeToken = [] then Inl EmptyRuntimeToken
         else if hmacSecret = [] then Inl EmptyHMACSecret
         else if \<not> uri_ok (wb_TargetURL cfg) then Inl BadTargetURL
         else case find (\<lambda>cidr. ParsePrefix cidr = None) (wb_ProviderSourceCIDRs cfg) of
           Some cidr \<Rightarrow> Inl (BadCIDR cidr)
         | None \<Rightarrow>
             if wb_SenderPerMinute cfg \<le> 0 \<or> wb_SenderBurst cfg \<le> 0 \<or> wb_GlobalPerMinute cfg \<le> 0 \<or> wb_GlobalBurst cfg \<le> 0 \<or> wb_MaxSenders cfg \<le> 0
             then Inl BadRateLimits
             else case random of
               None \<Rightarrow> Inl NoSenderKey
             | Some hashKey \<Rightarrow>
                 Inr \<lparr>sv_path = wb_Path cfg, sv_providerPrefixes = map the prefixes, sv_loopbackOnly = (prefixes = []),
                      sv_runtimeToken = runtimeToken, sv_hmacSecret = hmacSecret, sv_maxBodyBytes = wb_MaxBodyBytes cfg,
                      sv_limiter = newLimiter hashKey (wb_SenderPerMinute cfg) (wb_SenderBurst cfg) (wb_GlobalPerMinute cfg) (wb_GlobalBurst cfg) (wb_MaxSenders cfg) now,
                      sv_refusals = \<lparr>rf_sender = 0, rf_global = 0\<rparr>, sv_refusalLog = fmempty\<rparr>)"

definition sourceAllowed :: "Server \<Rightarrow> string \<Rightarrow> bool" where
  "sourceAllowed s remoteAddr =
     (case SplitHostPort remoteAddr of None \<Rightarrow> False
      | Some (host, _) \<Rightarrow>
          (case ParseAddr host of None \<Rightarrow> False
           | Some addr \<Rightarrow> if sv_loopbackOnly s then IsLoopback addr else list_ex (\<lambda>prefix. Prefix_Contains prefix addr) (sv_providerPrefixes s)))"

definition signed_text :: "string \<Rightarrow> int \<Rightarrow> string \<Rightarrow> string" where
  "signed_text body signedAtMS nonce = itoa signedAtMS @ [CHR 0x0A] @ nonce @ [CHR 0x0A] @ body"

definition signBody :: "string \<Rightarrow> string \<Rightarrow> int \<Rightarrow> string \<Rightarrow> string" where
  "signBody body secret signedAtMS nonce = ''hmac-sha256:'' @ hex_encode (hmac_sha256 secret (signed_text body signedAtMS nonce))"

text \<open>A request: its path, method, remote address and content type, the bytes of its body, and whether reading fails after them.\<close>

record http_request =
  rq_Path :: string
  rq_Method :: string
  rq_RemoteAddr :: string
  rq_ContentType :: string
  rq_Body :: string
  rq_broken :: bool

record forward_request =
  fw_ContentType :: "string option"
  fw_Token :: string
  fw_Signature :: string
  fw_Timestamp :: string
  fw_Nonce :: string
  fw_Body :: string

text \<open>What the handler meets beside the request: whether the gateway has decided to stop, the readings of the clock for the limiter and after it,
  the nonce, whether the forward request could be built, and the runtime's status, if it answered.\<close>

record serve_env =
  en_stopping :: bool
  en_now :: int
  en_later :: int
  en_nonce :: "string option"
  en_built :: bool
  en_status :: "int option"

definition count_bridge_refusal :: "verdict \<Rightarrow> Server \<Rightarrow> Server" where
  "count_bridge_refusal v s =
     (let r = sv_refusals s
      in s\<lparr>sv_refusals := (case v of RefusedBySender \<Rightarrow> r\<lparr>rf_sender := (rf_sender r + 1) mod 2 ^ 64\<rparr>
                            | RefusedByGlobal \<Rightarrow> r\<lparr>rf_global := (rf_global r + 1) mod 2 ^ 64\<rparr>
                            | Admitted \<Rightarrow> r)\<rparr>)"

definition limit_name :: "verdict \<Rightarrow> string" where
  "limit_name v = (if v = RefusedBySender then ''sender'' else ''global'')"

definition Bridge_ServeHTTP :: "serve_env \<Rightarrow> http_request \<Rightarrow> Server \<Rightarrow> int \<times> forward_request option \<times> Server" where
  "Bridge_ServeHTTP env r s =
     (if en_stopping env then (503, None, s)
      else if rq_Path r \<noteq> sv_path s then (404, None, s)
      else if rq_Method r \<noteq> ''POST'' then (405, None, s)
      else if \<not> sourceAllowed s (rq_RemoteAddr r) then (403, None, s)
      else if int (length (rq_Body r)) > sv_maxBodyBytes s then (413, None, s)
      else if rq_broken r then (400, None, s)
      else case limiter_admit (senderOf (rq_ContentType r) (rq_Body r)) (en_now env) (sv_limiter s) of
        (v, l) \<Rightarrow>
          let s = s\<lparr>sv_limiter := l\<rparr>
          in if v \<noteq> Admitted
             then (429, None, (count_bridge_refusal v s)\<lparr>sv_refusalLog := snd (note_refusal (en_later env) (limit_name v) (sv_refusalLog s))\<rparr>)
             else let signedAtMS = en_later env div 1000000
             in case en_nonce env of
               None \<Rightarrow> (500, None, s)
             | Some nonce \<Rightarrow>
                 if \<not> en_built env then (500, None, s)
                 else let forward = \<lparr>fw_ContentType = (if rq_ContentType r = [] then None else Some (rq_ContentType r)),
                            fw_Token = sv_runtimeToken s, fw_Signature = signBody (rq_Body r) (sv_hmacSecret s) signedAtMS nonce,
                            fw_Timestamp = itoa signedAtMS, fw_Nonce = nonce, fw_Body = rq_Body r\<rparr>
                 in case en_status env of
                   None \<Rightarrow> (502, Some forward, s)
                 | Some status \<Rightarrow> (if status < 200 \<or> status \<ge> 300 then 502 else 200, Some forward, s))"

section \<open>What is forwarded\<close>

text \<open>What a request must be for its body to go on.\<close>

definition forwardable :: "serve_env \<Rightarrow> http_request \<Rightarrow> Server \<Rightarrow> bool" where
  "forwardable env r s \<longleftrightarrow>
     \<not> en_stopping env \<and> rq_Path r = sv_path s \<and> rq_Method r = ''POST'' \<and> sourceAllowed s (rq_RemoteAddr r)
     \<and> int (length (rq_Body r)) \<le> sv_maxBodyBytes s \<and> \<not> rq_broken r
     \<and> fst (limiter_admit (senderOf (rq_ContentType r) (rq_Body r)) (en_now env) (sv_limiter s)) = Admitted
     \<and> en_nonce env \<noteq> None \<and> en_built env"

text \<open>Any requests, one after another.\<close>

fun bridge_run :: "Server \<Rightarrow> (serve_env \<times> http_request) list \<Rightarrow> forward_request option list \<times> Server" where
  "bridge_run s [] = ([], s)"
| "bridge_run s ((env, r) # rs) =
     (case Bridge_ServeHTTP env r s of (_, f, s') \<Rightarrow> case bridge_run s' rs of (fs, s'') \<Rightarrow> (f # fs, s''))"

definition reached :: "serve_env \<Rightarrow> http_request \<Rightarrow> Server \<Rightarrow> bool" where
  "reached env r s \<longleftrightarrow>
     \<not> en_stopping env \<and> rq_Path r = sv_path s \<and> rq_Method r = ''POST'' \<and> sourceAllowed s (rq_RemoteAddr r)
     \<and> int (length (rq_Body r)) \<le> sv_maxBodyBytes s \<and> \<not> rq_broken r"

lemma serve_config:
  assumes "Bridge_ServeHTTP env r s = (status, forward, s')"
  shows "sv_loopbackOnly s' = sv_loopbackOnly s" "sv_providerPrefixes s' = sv_providerPrefixes s"
  using assms by (auto simp: Bridge_ServeHTTP_def count_bridge_refusal_def Let_def split: if_splits option.splits prod.splits)

lemma run_config: "sv_loopbackOnly (snd (bridge_run s rs)) = sv_loopbackOnly s \<and> sv_providerPrefixes (snd (bridge_run s rs)) = sv_providerPrefixes s"
proof (induction rs arbitrary: s)
  case (Cons q rs)
  obtain env r where q: "q = (env, r)" by fastforce
  obtain st f s' where f: "Bridge_ServeHTTP env r s = (st, f, s')" by (metis prod_cases3)
  show ?case using Cons [of s'] serve_config [OF f] unfolding q bridge_run.simps f by (simp add: split_beta)
qed simp

lemma serve_limiter:
  assumes "Bridge_ServeHTTP env r s = (status, forward, s')"
    and "limiter_admit (senderOf (rq_ContentType r) (rq_Body r)) (en_now env) (sv_limiter s) = (v, l)"
  shows "sv_limiter s' = (if reached env r s then l else sv_limiter s)" "forward \<noteq> None \<Longrightarrow> reached env r s \<and> v = Admitted"
  using assms by (auto simp: Bridge_ServeHTTP_def reached_def count_bridge_refusal_def Let_def split: if_splits option.splits)

text \<open>C27. Only what the bridge admits reaches the runtime, as it came. A request is forwarded exactly when the gateway is not stopping, it is a POST to the
  configured path from an allowed source, its body is whole and within the limit, and the limiter admits it; what is forwarded is its
  body unchanged, signed with the time and nonce sent beside it; and it is answered 200 exactly when the runtime then answered with
  success. This holds after any requests before. A bridge configured with no source networks allows loopback addresses only.\<close>

theorem only_admitted_requests_forwarded:
  assumes "New_Server uri_ok getenv random start cfg = Inr s0" "s = snd (bridge_run s0 history)" "Bridge_ServeHTTP env r s = (status, forward, s')"
  shows "(forward \<noteq> None \<longleftrightarrow> forwardable env r s)
    \<and> (\<forall>f. forward = Some f \<longrightarrow> fw_Body f = rq_Body r \<and> fw_Timestamp f = itoa (en_later env div 1000000) \<and> en_nonce env = Some (fw_Nonce f)
          \<and> fw_Signature f = signBody (rq_Body r) (sv_hmacSecret s) (en_later env div 1000000) (fw_Nonce f))
    \<and> (status = 200 \<longleftrightarrow> forward \<noteq> None \<and> (\<exists>c. en_status env = Some c \<and> 200 \<le> c \<and> c < 300))
    \<and> (forward \<noteq> None \<and> wb_ProviderSourceCIDRs cfg = [] \<longrightarrow>
          (\<exists>host port ip. SplitHostPort (rq_RemoteAddr r) = Some (host, port) \<and> ParseAddr host = Some ip \<and> IsLoopback ip))"
proof -
  obtain v l where l: "limiter_admit (senderOf (rq_ContentType r) (rq_Body r)) (en_now env) (sv_limiter s) = (v, l)" by fastforce
  have main: "(forward \<noteq> None \<longleftrightarrow> forwardable env r s)
    \<and> (\<forall>f. forward = Some f \<longrightarrow> fw_Body f = rq_Body r \<and> fw_Timestamp f = itoa (en_later env div 1000000) \<and> en_nonce env = Some (fw_Nonce f)
          \<and> fw_Signature f = signBody (rq_Body r) (sv_hmacSecret s) (en_later env div 1000000) (fw_Nonce f))
    \<and> (status = 200 \<longleftrightarrow> forward \<noteq> None \<and> (\<exists>c. en_status env = Some c \<and> 200 \<le> c \<and> c < 300))"
    using assms(3) by (auto simp: Bridge_ServeHTTP_def l forwardable_def Let_def split: if_splits option.splits)
  have lo: "sv_loopbackOnly s" if "wb_ProviderSourceCIDRs cfg = []"
    using that assms(1) run_config [of s0 history] by (auto simp: assms(2) New_Server_def Let_def split: if_splits option.splits)
  have "\<exists>host port ip. SplitHostPort (rq_RemoteAddr r) = Some (host, port) \<and> ParseAddr host = Some ip \<and> IsLoopback ip"
    if "forwardable env r s" "wb_ProviderSourceCIDRs cfg = []"
    using that(1) lo [OF that(2)] by (auto simp: forwardable_def sourceAllowed_def split: option.splits)
  then show ?thesis using main by blast
qed

definition demo_cfg :: WebhookBridgeConfig where
  "demo_cfg = \<lparr>wb_Enabled = True, wb_ListenAddr = ''127.0.0.1:8090'', wb_Path = ''/sms'', wb_TargetURL = ''http://127.0.0.1:8080/webhook'', wb_ProviderSourceCIDRs = [],
     wb_RuntimeTokenEnv = ''TOKEN'', wb_HMACSecretEnv = ''SECRET'', wb_RequestTimeoutMS = 3000, wb_MaxBodyBytes = 65536,
     wb_SenderPerMinute = 60, wb_SenderBurst = 5, wb_GlobalPerMinute = 600, wb_GlobalBurst = 10, wb_MaxSenders = 2\<rparr>"

definition demo_server :: Server where
  "demo_server = projr (New_Server (\<lambda>_. True) (\<lambda>v. v) (Some ''key'') 0 demo_cfg)"

definition demo_env :: serve_env where
  "demo_env = \<lparr>en_stopping = False, en_now = 0, en_later = 5000000, en_nonce = Some ''ab'', en_built = True, en_status = Some 204\<rparr>"

definition demo_report :: http_request where
  "demo_report = \<lparr>rq_Path = ''/sms'', rq_Method = ''POST'', rq_RemoteAddr = ''[::1]:4711'', rq_ContentType = [], rq_Body = ''status=sent'', rq_broken = False\<rparr>"

lemma demo_server_new: "New_Server (\<lambda>_. True) (\<lambda>v. v) (Some ''key'') 0 demo_cfg = Inr demo_server"
proof -
  have "\<not> isl (New_Server (\<lambda>_. True) (\<lambda>v. v) (Some ''key'') 0 demo_cfg)" by code_simp
  then show ?thesis unfolding demo_server_def by (metis sum.collapse(2))
qed

lemma demo_forwardable: "forwardable demo_env demo_report demo_server"
  by code_simp

theorem only_admitted_requests_forwarded_witness:
  "fst (Bridge_ServeHTTP demo_env demo_report demo_server) = 200
    \<and> (\<exists>host port ip. SplitHostPort (rq_RemoteAddr demo_report) = Some (host, port) \<and> ParseAddr host = Some ip \<and> IsLoopback ip)"
proof -
  obtain st f s' where s: "Bridge_ServeHTTP demo_env demo_report demo_server = (st, f, s')" by (metis prod_cases3)
  have c: "wb_ProviderSourceCIDRs demo_cfg = []" "en_status demo_env = Some 204" by (simp_all add: demo_cfg_def demo_env_def)
  note t = only_admitted_requests_forwarded [OF demo_server_new _ s, of "[]"]
  show ?thesis using t demo_forwardable c by (simp add: s del: split_paired_Ex)
qed

section \<open>How much is forwarded\<close>

lemma run_limiter:
  assumes "bridge_run s reqs = (fs, s')" "sorted (start # map (en_now \<circ> fst) reqs)" "list_all (\<lambda>q. en_now (fst q) \<le> finish) reqs"
  shows "\<exists>rs. sorted (start # map snd rs) \<and> list_all (\<lambda>(sender, now). now \<le> finish) rs \<and> length rs \<le> length reqs
    \<and> length (filter (\<lambda>f. f \<noteq> None) fs) \<le> length (filter (\<lambda>v. v = Admitted) (fst (admit_run (sv_limiter s) rs)))"
  using assms
proof (induction reqs arbitrary: s fs start)
  case Nil
  then show ?case by (intro exI [of _ "[]"]) auto
next
  case (Cons q reqs)
  obtain env r where q: "q = (env, r)" by fastforce
  obtain st f s1 where f: "Bridge_ServeHTTP env r s = (st, f, s1)" by (metis prod_cases3)
  obtain fs1 where fs1: "bridge_run s1 reqs = (fs1, s')" "fs = f # fs1" using Cons.prems(1) unfolding q bridge_run.simps f by (auto split: prod.splits)
  obtain v l where l: "limiter_admit (senderOf (rq_ContentType r) (rq_Body r)) (en_now env) (sv_limiter s) = (v, l)" by fastforce
  note lim = serve_limiter [OF f l]
  have "sorted (en_now env # map (en_now \<circ> fst) reqs)" "start \<le> en_now env" using Cons.prems(2) by (auto simp: q comp_def)
  from Cons.IH [OF fs1(1) this(1)] obtain rs where rs: "sorted (en_now env # map snd rs)" "list_all (\<lambda>(sender, now). now \<le> finish) rs" "length rs \<le> length reqs"
    "length (filter (\<lambda>f. f \<noteq> None) fs1) \<le> length (filter (\<lambda>v. v = Admitted) (fst (admit_run (sv_limiter s1) rs)))" using Cons.prems(3) by auto
  show ?case
  proof (cases "reached env r s")
    case True
    let ?rs = "(senderOf (rq_ContentType r) (rq_Body r), en_now env) # rs"
    have "length (filter (\<lambda>f. f \<noteq> None) fs) \<le> length (filter (\<lambda>v. v = Admitted) (fst (admit_run (sv_limiter s) ?rs)))"
      using rs(4) lim True fs1(2) l by (auto simp: split_beta)
    then show ?thesis using rs(1-3) \<open>start \<le> en_now env\<close> Cons.prems(3) q by (intro exI [of _ ?rs]) auto
  next
    case False
    then show ?thesis using rs lim fs1(2) \<open>start \<le> en_now env\<close> by (intro exI [of _ rs]) auto
  qed
qed



section \<open>The lines of the log\<close>

datatype bridge_log_step = Noted string int | TimerFires string

definition log_step :: "bridge_log_step \<Rightarrow> refusalLog \<Rightarrow> (string \<times> int) list \<times> refusalLog" where
  "log_step e r =
     (case e of
        Noted limit now \<Rightarrow> (case note_refusal now limit r of (line, r') \<Rightarrow> (case line of None \<Rightarrow> [] | Some n \<Rightarrow> [(limit, n)], r'))
      | TimerFires limit \<Rightarrow> (case flush_refusals limit r of (line, r') \<Rightarrow> (case line of None \<Rightarrow> [] | Some n \<Rightarrow> [(limit, n)], r')))"

fun log_steps :: "bridge_log_step list \<Rightarrow> refusalLog \<Rightarrow> (string \<times> int) list \<times> refusalLog" where
  "log_steps [] r = ([], r)"
| "log_steps (e # es) r = (case log_step e r of (ls, r') \<Rightarrow> case log_steps es r' of (ls', r'') \<Rightarrow> (ls @ ls', r''))"

definition noted_count :: "string \<Rightarrow> bridge_log_step list \<Rightarrow> int" where
  "noted_count limit es = int (length (filter (\<lambda>e. case e of Noted l _ \<Rightarrow> l = limit | TimerFires _ \<Rightarrow> False) es))"

definition line_sum :: "string \<Rightarrow> (string \<times> int) list \<Rightarrow> int" where
  "line_sum limit ls = sum_list (map snd (filter (\<lambda>l. fst l = limit) ls))"

definition waiting :: "refusalLog \<Rightarrow> string \<Rightarrow> int" where
  "waiting r limit = rl_pending (fmget no_log r limit)"

lemma log_step_account:
  assumes "log_step e r = (ls, r')" "0 \<le> waiting r limit" "waiting r limit < maxInt64"
    and "waiting r limit > 0 \<Longrightarrow> rl_flushing (fmget no_log r limit)"
  shows "waiting r' limit + line_sum limit ls = waiting r limit + noted_count limit [e]" "0 \<le> waiting r' limit"
    "waiting r' limit > 0 \<Longrightarrow> rl_flushing (fmget no_log r' limit)"
proof -
  have w: "wrap64 (waiting r limit + 1) = waiting r limit + 1" using assms(2,3) by (intro wrap64_id) (auto simp: minInt64_def)
  have "waiting r' limit + line_sum limit ls = waiting r limit + noted_count limit [e] \<and> 0 \<le> waiting r' limit
    \<and> (waiting r' limit > 0 \<longrightarrow> rl_flushing (fmget no_log r' limit))"
  proof (cases e)
    case (Noted l now)
    show ?thesis using assms Noted w
      by (cases "l = limit") (auto simp: log_step_def note_refusal_def Let_def waiting_def fmget_def line_sum_def noted_count_def split: if_splits)
  next
    case (TimerFires l)
    show ?thesis using assms TimerFires
      by (cases "l = limit") (auto simp: log_step_def flush_refusals_def Let_def waiting_def fmget_def line_sum_def noted_count_def split: if_splits)
  qed
  then show "waiting r' limit + line_sum limit ls = waiting r limit + noted_count limit [e]" "0 \<le> waiting r' limit"
    "waiting r' limit > 0 \<Longrightarrow> rl_flushing (fmget no_log r' limit)" by blast+
qed

text \<open>Every refusal is in a line or waits behind a timer that is set.\<close>

lemma bridge_refusals_all_logged:
  assumes "log_steps es r = (ls, r')" "0 \<le> waiting r limit" "waiting r limit + int (length es) < maxInt64"
    and "waiting r limit > 0 \<Longrightarrow> rl_flushing (fmget no_log r limit)"
  shows "waiting r' limit + line_sum limit ls = waiting r limit + noted_count limit es \<and> (waiting r' limit > 0 \<longrightarrow> rl_flushing (fmget no_log r' limit))"
  using assms
proof (induction es arbitrary: r ls)
  case Nil
  then show ?case by (simp add: line_sum_def noted_count_def)
next
  case (Cons e es)
  obtain l1 r1 where e: "log_step e r = (l1, r1)" by fastforce
  obtain l2 where l2: "log_steps es r1 = (l2, r')" "ls = l1 @ l2" using Cons.prems(1) e by (auto split: prod.splits)
  have small: "waiting r limit < maxInt64" using Cons.prems(3) by simp
  note step = log_step_account [OF e Cons.prems(2) small Cons.prems(4)]
  have n: "noted_count limit (e # es) = noted_count limit [e] + noted_count limit es" "noted_count limit [e] \<le> 1" by (auto simp: noted_count_def)
  have pos: "0 \<le> line_sum limit l1" using e Cons.prems(2) wrap64_id [of "waiting r limit + 1"] small
    by (auto simp: log_step_def line_sum_def note_refusal_def flush_refusals_def Let_def waiting_def minInt64_def split: bridge_log_step.splits if_splits option.splits)
  have "waiting r1 limit + int (length es) < maxInt64" using step(1) n(2) pos Cons.prems(3) by simp
  from Cons.IH [OF l2(1) step(2) this step(3)] show ?case using step(1) n(1) l2(2) by (simp add: line_sum_def)
qed

text \<open>Two lines of a limit can come within a second. When the timer of a limit is late, a refusal that finds the second over writes a line, the next one
  relies on the late timer, and the timer then writes a second line at once: here the lines of the third and fifth steps are two
  nanoseconds apart.\<close>

theorem bridge_log_lines_crowd:
  "map (\<lambda>n. fst (log_steps (take n
      [Noted ''sender'' 0, Noted ''sender'' 500000000, Noted ''sender'' 1000000000, Noted ''sender'' 1000000001, TimerFires ''sender'']) fmempty)) [1, 2, 3, 4, 5]
   = [[(''sender'', 1)], [(''sender'', 1)], [(''sender'', 1), (''sender'', 2)], [(''sender'', 1), (''sender'', 2)], [(''sender'', 1), (''sender'', 2), (''sender'', 1)]]"
  by code_simp

end
