(* ===== verification/Request_Pool.thy ===== *)
theory Request_Pool
  imports Broker "HOL-Library.Multiset"
begin

text \<open>
  The request pool of \<open>cmd/ori-gateway/requests.go\<close> and the callback gate of \<open>app.go\<close>. The pool takes a message off the broker's callback
  and runs its handler on a goroutine; an ordered pool runs each device's messages one at a time in the order they came.

  A step of the model is a section of the code between two points where another goroutine can run: what a lock covers, and each
  statement after it that another goroutine can see. The goroutines are tasks, named by where they stand.
\<close>

section \<open>The callback gate\<close>

record callbackGate =
  cg_closed :: bool
  cg_running :: int

definition newCallbackGate :: callbackGate where
  "newCallbackGate = \<lparr>cg_closed = False, cg_running = 0\<rparr>"

definition gate_enter :: "callbackGate \<Rightarrow> bool \<times> callbackGate" where
  "gate_enter g = (if cg_closed g then (False, g) else (True, g\<lparr>cg_running := cg_running g + 1\<rparr>))"

definition gate_refuse :: "callbackGate \<Rightarrow> callbackGate" where
  "gate_refuse g = g\<lparr>cg_closed := True\<rparr>"

definition gate_done :: "callbackGate \<Rightarrow> callbackGate" where
  "gate_done g = g\<lparr>cg_running := cg_running g - 1\<rparr>"

section \<open>The pool\<close>

record pendingRequest =
  pr_topic :: string
  pr_payload :: string
  pr_family :: string

record requestPool =
  po_ordered :: bool
  po_limits :: "(string, int) fmap"
  po_configured :: "string list"
  po_gate :: callbackGate
  po_held :: "(string \<times> string, int) fmap"
  po_queued :: "(string, pendingRequest list) fmap"
  po_draining :: "string fset"

definition newRequestPool :: "bool \<Rightarrow> string list \<Rightarrow> string list \<Rightarrow> requestPool" where
  "newRequestPool ordered devices families =
     \<lparr>po_ordered = ordered,
      po_limits = fmap_of_list (map (\<lambda>f. (f, case map_of IngressRates f of None \<Rightarrow> 0 | Some r \<Rightarrow> ir_Burst r)) families),
      po_configured = devices, po_gate = newCallbackGate, po_held = fmempty, po_queued = fmempty, po_draining = {||}\<rparr>"

text \<open>The families a pool takes a subscription for.\<close>

definition pool_serves :: "requestPool \<Rightarrow> string \<Rightarrow> string option" where
  "pool_serves p topic =
     (case PayloadFamily topic of None \<Rightarrow> None
      | Some family \<Rightarrow> if fmlookup (po_limits p) family = None then None else Some family)"

definition requestDeviceSegment :: "string \<Rightarrow> string" where
  "requestDeviceSegment topic = (if HasPrefix topic ''ori/'' then takeWhile (\<lambda>c. c \<noteq> CHR ''/'') (drop 4 topic) else [])"

datatype task =
    Dropping                                   \<comment> \<open>a callback whose message is over the bound, before it releases its admission\<close>
  | Draining string                            \<comment> \<open>\<open>drain\<close>, before it takes the next message of a device\<close>
  | Running string pendingRequest              \<comment> \<open>\<open>run\<close>, before it asks the gate\<close>
  | Handling string pendingRequest             \<comment> \<open>the handler\<close>
  | Finishing string pendingRequest            \<comment> \<open>\<open>run\<close>, before its deferred function takes the lock\<close>
  | Releasing string pendingRequest bool       \<comment> \<open>\<open>run\<close>, before it releases its admission; whether it was the last message\<close>

text \<open>The broker's callback for a message of a family: the goroutines it leaves, and the message with its device when it accepts it.\<close>

definition pool_handler ::
  "string \<Rightarrow> string \<Rightarrow> string \<Rightarrow> requestPool \<Rightarrow> (string \<times> pendingRequest) option \<times> task list \<times> requestPool" where
  "pool_handler family topic payload p =
     (let segment = requestDeviceSegment topic;
          device = (if segment \<in> set (po_configured p) then segment else []);
          key = (device, family)
      in case gate_enter (po_gate p) of
           (False, _) \<Rightarrow> (None, [], p)
         | (True, g) \<Rightarrow>
             let p = p\<lparr>po_gate := g\<rparr>; n = fmget 0 (po_held p) key; req = \<lparr>pr_topic = topic, pr_payload = payload, pr_family = family\<rparr>
             in if n \<ge> fmget 0 (po_limits p) family then (None, [Dropping], p)
                else let p = p\<lparr>po_held := fmupd key (n + 1) (po_held p)\<rparr>
                in if \<not> po_ordered p then (Some (device, req), [Running device req], p)
                   else let start = device |\<notin>| po_draining p
                        in (Some (device, req), if start then [Draining device] else [],
                            p\<lparr>po_queued := fmupd device (fmget [] (po_queued p) device @ [req]) (po_queued p),
                              po_draining := finsert device (po_draining p)\<rparr>))"

text \<open>A goroutine's next step: the message it takes off the queue or is refused, if it does, what it goes on as, and the pool. \<open>None\<close> is a panic.\<close>

definition drain_next :: "string \<Rightarrow> requestPool \<Rightarrow> (task list \<times> requestPool) option" where
  "drain_next device p =
     (case fmget [] (po_queued p) device of
        [] \<Rightarrow> None
      | req # rest \<Rightarrow> Some ([Running device req], p\<lparr>po_queued := fmupd device rest (po_queued p)\<rparr>))"

definition run_finish :: "string \<Rightarrow> pendingRequest \<Rightarrow> requestPool \<Rightarrow> bool \<times> requestPool" where
  "run_finish device req p =
     (let key = (device, pr_family req);
          n = fmget 0 (po_held p) key - 1;
          p = p\<lparr>po_held := (if n = 0 then fmdrop key (po_held p) else fmupd key n (po_held p))\<rparr>
      in if po_ordered p \<and> fmget [] (po_queued p) device = []
         then (True, p\<lparr>po_queued := fmdrop device (po_queued p), po_draining := po_draining p |-| {|device|}\<rparr>)
         else (False, p))"

definition task_step :: "task \<Rightarrow> requestPool \<Rightarrow> (task list \<times> requestPool) option" where
  "task_step t p =
     (case t of
        Dropping \<Rightarrow> Some ([], p\<lparr>po_gate := gate_done (po_gate p)\<rparr>)
      | Draining device \<Rightarrow> drain_next device p
      | Running device req \<Rightarrow> Some (if cg_closed (po_gate p) then [Finishing device req] else [Handling device req], p)
      | Handling device req \<Rightarrow> Some ([Finishing device req], p)
      | Finishing device req \<Rightarrow> (case run_finish device req p of (last_one, p') \<Rightarrow> Some ([Releasing device req last_one], p'))
      | Releasing device req last_one \<Rightarrow>
          Some (if po_ordered p \<and> \<not> last_one then [Draining device] else [], p\<lparr>po_gate := gate_done (po_gate p)\<rparr>))"

section \<open>Runs of a pool\<close>

record system =
  sy_pool :: requestPool
  sy_tasks :: "task multiset"
  sy_accepted :: "(string \<times> pendingRequest) list"
  sy_taken :: "(string \<times> pendingRequest) list"

definition queue_of :: "requestPool \<Rightarrow> string \<Rightarrow> pendingRequest list" where
  "queue_of p d = fmget [] (po_queued p) d"

definition taken_by :: "task \<Rightarrow> requestPool \<Rightarrow> (string \<times> pendingRequest) list" where
  "taken_by t p = (case t of Draining d \<Rightarrow> [(d, hd (queue_of p d))] | _ \<Rightarrow> [])"

definition arrive :: "string \<Rightarrow> string \<Rightarrow> string \<Rightarrow> system \<Rightarrow> system" where
  "arrive family topic payload y =
     (case pool_handler family topic payload (sy_pool y) of (acc, ts, p) \<Rightarrow>
        y\<lparr>sy_pool := p, sy_tasks := sy_tasks y + mset ts, sy_accepted := sy_accepted y @ (case acc of None \<Rightarrow> [] | Some m \<Rightarrow> [m])\<rparr>)"

definition go_on :: "task \<Rightarrow> task list \<Rightarrow> requestPool \<Rightarrow> system \<Rightarrow> system" where
  "go_on t ts p y = y\<lparr>sy_pool := p, sy_tasks := sy_tasks y - {#t#} + mset ts, sy_taken := sy_taken y @ taken_by t (sy_pool y)\<rparr>"

definition stop_admitting :: "system \<Rightarrow> system" where
  "stop_admitting y = y\<lparr>sy_pool := (sy_pool y)\<lparr>po_gate := gate_refuse (po_gate (sy_pool y))\<rparr>\<rparr>"

text \<open>What a pool can come to: messages of the families it serves arrive, its goroutines take steps in any order, and the gate closes.\<close>

inductive pool_reaches :: "requestPool \<Rightarrow> system \<Rightarrow> bool" for p0 where
  pool_start: "pool_reaches p0 \<lparr>sy_pool = p0, sy_tasks = {#}, sy_accepted = [], sy_taken = []\<rparr>"
| pool_arrive: "pool_reaches p0 y \<Longrightarrow> fmlookup (po_limits p0) family \<noteq> None \<Longrightarrow> pool_reaches p0 (arrive family topic payload y)"
| pool_work: "pool_reaches p0 y \<Longrightarrow> t \<in># sy_tasks y \<Longrightarrow> task_step t (sy_pool y) = Some (ts, p) \<Longrightarrow> pool_reaches p0 (go_on t ts p y)"
| pool_stop: "pool_reaches p0 y \<Longrightarrow> pool_reaches p0 (stop_admitting y)"

section \<open>Invariants\<close>

text \<open>The goroutines that work on a device's queue, those that hold a place of a device and family, and those that hold an admission.\<close>

fun on_device :: "string \<Rightarrow> task \<Rightarrow> bool" where
  "on_device d Dropping = False"
| "on_device d (Draining e) = (e = d)"
| "on_device d (Running e r) = (e = d)"
| "on_device d (Handling e r) = (e = d)"
| "on_device d (Finishing e r) = (e = d)"
| "on_device d (Releasing e r l) = (e = d \<and> \<not> l)"

fun holds_place :: "string \<times> string \<Rightarrow> task \<Rightarrow> bool" where
  "holds_place k (Running e r) = ((e, pr_family r) = k)"
| "holds_place k (Handling e r) = ((e, pr_family r) = k)"
| "holds_place k (Finishing e r) = ((e, pr_family r) = k)"
| "holds_place k _ = False"

fun admitted_task :: "task \<Rightarrow> bool" where
  "admitted_task (Draining d) = False"
| "admitted_task _ = True"

definition tasks_where :: "(task \<Rightarrow> bool) \<Rightarrow> task multiset \<Rightarrow> int" where
  "tasks_where P ts = int (size (filter_mset P ts))"

lemma tasks_where_simps [simp]:
  "tasks_where P {#} = 0" "tasks_where P (ts + us) = tasks_where P ts + tasks_where P us"
  "tasks_where P (add_mset t ts) = (if P t then 1 else 0) + tasks_where P ts" "0 \<le> tasks_where P ts"
  by (auto simp: tasks_where_def)

lemma tasks_where_diff: "t \<in># ts \<Longrightarrow> tasks_where P (ts - {#t#}) = tasks_where P ts - (if P t then 1 else 0)"
proof -
  assume "t \<in># ts"
  then have "tasks_where P ts = tasks_where P (add_mset t (ts - {#t#}))" by simp
  then show ?thesis unfolding tasks_where_simps by simp
qed

definition queued_total :: "(string, pendingRequest list) fmap \<Rightarrow> int" where
  "queued_total m = (\<Sum>d\<in>fset (fmdom m). int (length (fmget [] m d)))"

lemma queued_total_upd: "queued_total (fmupd d q m) = queued_total m - int (length (fmget [] m d)) + int (length q)"
proof -
  let ?S = "fset (fmdom m) - {d}"
  have "queued_total (fmupd d q m) = int (length q) + (\<Sum>e\<in>?S. int (length (fmget [] (fmupd d q m) e)))"
    unfolding queued_total_def by (simp add: sum.insert_remove fmget_def)
  also have "(\<Sum>e\<in>?S. int (length (fmget [] (fmupd d q m) e))) = (\<Sum>e\<in>?S. int (length (fmget [] m e)))"
    by (rule sum.cong) (auto simp: fmget_def)
  also have "\<dots> = queued_total m - int (length (fmget [] m d))"
    unfolding queued_total_def by (cases "d |\<in>| fmdom m") (auto simp: sum_diff1 fmget_def fmdom_notD)
  finally show ?thesis by simp
qed

lemma queued_total_drop: "queued_total (fmdrop d m) = queued_total m - int (length (fmget [] m d))"
proof -
  have "queued_total (fmdrop d m) = (\<Sum>e\<in>fset (fmdom m) - {d}. int (length (fmget [] m e)))"
    unfolding queued_total_def by (rule sum.cong) (auto simp: fmget_def)
  then show ?thesis unfolding queued_total_def by (cases "d |\<in>| fmdom m") (auto simp: sum_diff1 fmget_def fmdom_notD)
qed

lemma queued_total_0: "queued_total m = 0 \<longleftrightarrow> (\<forall>d. fmget [] m d = [])"
  unfolding queued_total_def by (subst sum_nonneg_eq_0_iff) (auto simp: fmget_def split: option.splits intro: fmdomI)

lemma queued_total_nonneg [simp]: "0 \<le> queued_total m" "queued_total fmempty = 0"
  unfolding queued_total_def by (auto intro: sum_nonneg)

fun needs_queue :: "string \<Rightarrow> task \<Rightarrow> bool" where
  "needs_queue d (Draining e) = (e = d)"
| "needs_queue d (Releasing e r l) = (e = d \<and> \<not> l)"
| "needs_queue d _ = False"

fun is_draining :: "task \<Rightarrow> bool" where
  "is_draining (Draining d) = True"
| "is_draining _ = False"

definition thread_ok :: "requestPool \<Rightarrow> task multiset \<Rightarrow> string \<Rightarrow> bool" where
  "thread_ok p ts d \<longleftrightarrow>
     tasks_where (on_device d) ts = (if d |\<in>| po_draining p then 1 else 0)
     \<and> (d |\<notin>| po_draining p \<longrightarrow> queue_of p d = [])
     \<and> (tasks_where (needs_queue d) ts > 0 \<longrightarrow> queue_of p d \<noteq> [])"

definition plain_ok :: "requestPool \<Rightarrow> task multiset \<Rightarrow> bool" where
  "plain_ok p ts \<longleftrightarrow> po_queued p = fmempty \<and> tasks_where is_draining ts = 0"

definition place_ok :: "requestPool \<Rightarrow> task multiset \<Rightarrow> string \<Rightarrow> string \<Rightarrow> bool" where
  "place_ok p ts d f \<longleftrightarrow>
     fmget 0 (po_held p) (d, f) = tasks_where (holds_place (d, f)) ts + int (length (filter (\<lambda>r. pr_family r = f) (queue_of p d)))
     \<and> (fmget 0 (po_held p) (d, f) = 0 \<or> fmget 0 (po_held p) (d, f) \<le> fmget 0 (po_limits p) f)"

definition gate_counts :: "requestPool \<Rightarrow> task multiset \<Rightarrow> bool" where
  "gate_counts p ts \<longleftrightarrow> cg_running (po_gate p) = tasks_where admitted_task ts + queued_total (po_queued p)"

definition of_device :: "string \<Rightarrow> (string \<times> pendingRequest) list \<Rightarrow> pendingRequest list" where
  "of_device d ms = map snd (filter (\<lambda>m. fst m = d) ms)"

definition order_ok :: "system \<Rightarrow> string \<Rightarrow> bool" where
  "order_ok y d \<longleftrightarrow> of_device d (sy_accepted y) = of_device d (sy_taken y) @ queue_of (sy_pool y) d"

definition pool_ok :: "system \<Rightarrow> bool" where
  "pool_ok y \<longleftrightarrow>
     (if po_ordered (sy_pool y) then \<forall>d. thread_ok (sy_pool y) (sy_tasks y) d \<and> order_ok y d else plain_ok (sy_pool y) (sy_tasks y))
     \<and> (\<forall>d f. place_ok (sy_pool y) (sy_tasks y) d f) \<and> gate_counts (sy_pool y) (sy_tasks y)"

lemma pool_okI:
  assumes "\<And>d. po_ordered (sy_pool y) \<Longrightarrow> thread_ok (sy_pool y) (sy_tasks y) d" "\<And>d. po_ordered (sy_pool y) \<Longrightarrow> order_ok y d"
    "\<not> po_ordered (sy_pool y) \<Longrightarrow> plain_ok (sy_pool y) (sy_tasks y)" "\<And>d f. place_ok (sy_pool y) (sy_tasks y) d f" "gate_counts (sy_pool y) (sy_tasks y)"
  shows "pool_ok y"
  using assms by (simp add: pool_ok_def)

lemma pool_okD:
  assumes "pool_ok y"
  shows "po_ordered (sy_pool y) \<Longrightarrow> thread_ok (sy_pool y) (sy_tasks y) d" "po_ordered (sy_pool y) \<Longrightarrow> order_ok y d"
    "\<not> po_ordered (sy_pool y) \<Longrightarrow> plain_ok (sy_pool y) (sy_tasks y)" "place_ok (sy_pool y) (sy_tasks y) d f" "gate_counts (sy_pool y) (sy_tasks y)"
  using assms by (auto simp: pool_ok_def split: if_splits)

definition one_more :: "requestPool \<Rightarrow> requestPool" where
  "one_more p = p\<lparr>po_gate := (po_gate p)\<lparr>cg_running := cg_running (po_gate p) + 1\<rparr>\<rparr>"

lemma pool_handler_cases:
  assumes "pool_handler family topic payload p = (acc, ts, p')"
  obtains (closed) "acc = None" "ts = []" "p' = p"
  | (over) "acc = None" "ts = [Dropping]" "p' = one_more p"
  | (alone) d r where "\<not> po_ordered p" "pr_family r = family" "fmget 0 (po_held p) (d, family) < fmget 0 (po_limits p) family" "acc = Some (d, r)" "ts = [Running d r]"
      "p' = (one_more p)\<lparr>po_held := fmupd (d, family) (fmget 0 (po_held p) (d, family) + 1) (po_held p)\<rparr>"
  | (waits) d r where "po_ordered p" "pr_family r = family" "fmget 0 (po_held p) (d, family) < fmget 0 (po_limits p) family" "acc = Some (d, r)"
      "ts = (if d |\<notin>| po_draining p then [Draining d] else [])"
      "p' = (one_more p)\<lparr>po_held := fmupd (d, family) (fmget 0 (po_held p) (d, family) + 1) (po_held p),
         po_queued := fmupd d (queue_of p d @ [r]) (po_queued p), po_draining := finsert d (po_draining p)\<rparr>"
proof (cases "cg_closed (po_gate p)")
  case True
  then show thesis using assms closed by (simp add: pool_handler_def gate_enter_def Let_def)
next
  case False
  define d where "d = (if requestDeviceSegment topic \<in> set (po_configured p) then requestDeviceSegment topic else [])"
  define r where "r = \<lparr>pr_topic = topic, pr_payload = payload, pr_family = family\<rparr>"
  have "pool_handler family topic payload p =
    (if fmget 0 (po_held p) (d, family) \<ge> fmget 0 (po_limits p) family then (None, [Dropping], one_more p)
     else if \<not> po_ordered p
     then (Some (d, r), [Running d r], (one_more p)\<lparr>po_held := fmupd (d, family) (fmget 0 (po_held p) (d, family) + 1) (po_held p)\<rparr>)
     else (Some (d, r), if d |\<notin>| po_draining p then [Draining d] else [],
       (one_more p)\<lparr>po_held := fmupd (d, family) (fmget 0 (po_held p) (d, family) + 1) (po_held p),
         po_queued := fmupd d (queue_of p d @ [r]) (po_queued p), po_draining := finsert d (po_draining p)\<rparr>))"
    using False unfolding pool_handler_def Let_def gate_enter_def d_def [symmetric] r_def [symmetric] by (simp add: one_more_def queue_of_def)
  note eq = this [unfolded assms]
  have fam: "pr_family r = family" by (simp add: r_def)
  consider "fmget 0 (po_held p) (d, family) \<ge> fmget 0 (po_limits p) family"
    | "fmget 0 (po_held p) (d, family) < fmget 0 (po_limits p) family" "\<not> po_ordered p"
    | "fmget 0 (po_held p) (d, family) < fmget 0 (po_limits p) family" "po_ordered p" by linarith
  then show thesis
  proof cases
    case 1
    then have "acc = None" "ts = [Dropping]" "p' = one_more p" using eq by simp_all
    then show thesis by (rule over)
  next
    case 2
    show thesis by (rule alone [OF 2(2) fam 2(1)]) (use eq 2 in \<open>simp_all add: not_le [symmetric]\<close>)
  next
    case 3
    show thesis by (rule waits [OF 3(2) fam 3(1)]) (use eq 3 in \<open>simp_all add: not_le [symmetric]\<close>)
  qed
qed

lemma pool_simps [simp]:
  "queue_of (p\<lparr>po_gate := g\<rparr>) d = queue_of p d" "queue_of (p\<lparr>po_held := h\<rparr>) d = queue_of p d" "queue_of (one_more p) d = queue_of p d"
  "queue_of (p\<lparr>po_draining := ds\<rparr>) d = queue_of p d" "queue_of (p\<lparr>po_queued := fmupd e q m\<rparr>) d = (if d = e then q else fmget [] m d)"
  "queue_of (p\<lparr>po_queued := fmdrop e m\<rparr>) d = (if d = e then [] else fmget [] m d)"
  by (auto simp: queue_of_def fmget_def one_more_def)

lemma queue_of_get [simp]: "fmget [] (po_queued p) d = queue_of p d"
  by (simp add: queue_of_def)

lemma one_more_simps [simp]:
  "po_ordered (one_more p) = po_ordered p" "po_held (one_more p) = po_held p" "po_queued (one_more p) = po_queued p" "po_draining (one_more p) = po_draining p"
  "po_limits (one_more p) = po_limits p" "cg_running (po_gate (one_more p)) = cg_running (po_gate p) + 1"
  by (simp_all add: one_more_def)

lemma held_get: "fmget z (fmupd k v m) k' = (if k' = k then v else fmget z m k')" "fmget z (fmdrop k m) k' = (if k' = k then z else fmget z m k')"
  by (auto simp: fmget_def)

lemma of_device_simps [simp]: "of_device d [] = []" "of_device d (ms @ ns) = of_device d ms @ of_device d ns" "of_device d (m # ms) = (if fst m = d then [snd m] else []) @ of_device d ms"
  by (auto simp: of_device_def)

lemma arrive_ok:
  assumes "pool_ok y"
  shows "pool_ok (arrive family topic payload y)"
proof -
  obtain acc ts p' where h: "pool_handler family topic payload (sy_pool y) = (acc, ts, p')" by (metis prod_cases3)
  note ok = pool_okD [OF assms]
  have y': "sy_pool (arrive family topic payload y) = p'" "sy_tasks (arrive family topic payload y) = sy_tasks y + mset ts"
    "sy_taken (arrive family topic payload y) = sy_taken y" "sy_accepted (arrive family topic payload y) = sy_accepted y @ (case acc of None \<Rightarrow> [] | Some m \<Rightarrow> [m])"
    by (simp_all add: arrive_def h)
  show ?thesis using h
  proof (cases rule: pool_handler_cases)
    case closed
    then show ?thesis using assms by (simp add: arrive_def h)
  next
    case over
    show ?thesis
    proof (rule pool_okI)
      fix d show "thread_ok (sy_pool (arrive family topic payload y)) (sy_tasks (arrive family topic payload y)) d" if "po_ordered (sy_pool (arrive family topic payload y))"
        using ok(1) [of d] that over by (simp add: y' thread_ok_def)
      show "order_ok (arrive family topic payload y) d" if "po_ordered (sy_pool (arrive family topic payload y))"
        using ok(2) [of d] that over by (simp add: y' order_ok_def)
      fix f show "place_ok (sy_pool (arrive family topic payload y)) (sy_tasks (arrive family topic payload y)) d f"
        using ok(4) [of d f] over by (auto simp: y' place_ok_def)
    qed (use ok(3,5) over in \<open>simp_all add: y' plain_ok_def gate_counts_def\<close>)
  next
    case (alone d r)
    show ?thesis
    proof (rule pool_okI)
      fix e f show "place_ok (sy_pool (arrive family topic payload y)) (sy_tasks (arrive family topic payload y)) e f"
        using ok(4) [of e f] alone by (auto simp: y' place_ok_def held_get)
    qed (use ok(3,5) alone in \<open>simp_all add: y' plain_ok_def gate_counts_def\<close>)
  next
    case (waits d r)
    show ?thesis
    proof (rule pool_okI)
      fix e show "thread_ok (sy_pool (arrive family topic payload y)) (sy_tasks (arrive family topic payload y)) e"
        using ok(1) [of e] waits by (auto simp: y' thread_ok_def)
      show "order_ok (arrive family topic payload y) e" using ok(2) [of e] waits by (auto simp: y' order_ok_def)
      fix f show "place_ok (sy_pool (arrive family topic payload y)) (sy_tasks (arrive family topic payload y)) e f"
        using ok(4) [of e f] waits by (auto simp: y' place_ok_def held_get)
    qed (use ok(5) waits in \<open>simp_all add: y' gate_counts_def queued_total_upd\<close>)
  qed
qed

lemma tasks_where_mono: "(\<And>t. P t \<Longrightarrow> Q t) \<Longrightarrow> tasks_where P ts \<le> tasks_where Q ts"
  by (induction ts) (auto simp: add_mono)

lemma needs_queue_on_device: "tasks_where (needs_queue d) ts \<le> tasks_where (on_device d) ts"
proof (rule tasks_where_mono)
  fix t show "needs_queue d t \<Longrightarrow> on_device d t" by (cases t) auto
qed

lemma tasks_where_pos: "t \<in># ts \<Longrightarrow> P t \<Longrightarrow> 1 \<le> tasks_where P ts"
  using tasks_where_diff [of t ts P] tasks_where_simps(4) [of P "ts - {#t#}"] by simp

lemma go_on_simps [simp]:
  "sy_pool (go_on t ts p y) = p" "sy_tasks (go_on t ts p y) = sy_tasks y - {#t#} + mset ts" "sy_accepted (go_on t ts p y) = sy_accepted y"
  "sy_taken (go_on t ts p y) = sy_taken y @ taken_by t (sy_pool y)"
  by (simp_all add: go_on_def)

lemma drain_ok:
  assumes "pool_ok y" "Draining d \<in># sy_tasks y" "task_step (Draining d) (sy_pool y) = Some (ts, p)"
  shows "pool_ok (go_on (Draining d) ts p y)"
proof -
  note ok = pool_okD [OF assms(1)] and diff = tasks_where_diff [OF assms(2)]
  obtain r rest where q: "queue_of (sy_pool y) d = r # rest" "ts = [Running d r]" "p = (sy_pool y)\<lparr>po_queued := fmupd d rest (po_queued (sy_pool y))\<rparr>"
    using assms(3) by (auto simp: task_step_def drain_next_def split: list.splits)
  have ord: "po_ordered (sy_pool y)"
    using ok(3) tasks_where_pos [OF assms(2), of is_draining] by (auto simp: plain_ok_def)
  show ?thesis
  proof (rule pool_okI)
    fix e
    have "tasks_where (needs_queue d) (sy_tasks y) \<le> 1" using needs_queue_on_device [of d "sy_tasks y"] ok(1) [OF ord, of d] by (auto simp: thread_ok_def split: if_splits)
    then show "thread_ok (sy_pool (go_on (Draining d) ts p y)) (sy_tasks (go_on (Draining d) ts p y)) e"
      using ok(1) [OF ord, of e] q tasks_where_pos [OF assms(2), of "on_device d"] by (auto simp: thread_ok_def diff split: if_splits)
    show "order_ok (go_on (Draining d) ts p y) e" using ok(2) [OF ord, of e] q by (auto simp: order_ok_def taken_by_def)
    fix f show "place_ok (sy_pool (go_on (Draining d) ts p y)) (sy_tasks (go_on (Draining d) ts p y)) e f"
      using ok(4) [of e f] q by (auto simp: place_ok_def diff)
  qed (use ok(5) q ord in \<open>simp_all add: gate_counts_def queued_total_upd diff\<close>)
qed

lemma finish_ok:
  assumes "pool_ok y" "Finishing d r \<in># sy_tasks y" "task_step (Finishing d r) (sy_pool y) = Some (ts, p)"
  shows "pool_ok (go_on (Finishing d r) ts p y)"
proof -
  note ok = pool_okD [OF assms(1)] and diff = tasks_where_diff [OF assms(2)]
  let ?q = "sy_pool y" and ?y = "go_on (Finishing d r) ts p y"
  let ?k = "(d, pr_family r)"
  define h where "h = (if fmget 0 (po_held ?q) ?k - 1 = 0 then fmdrop ?k (po_held ?q) else fmupd ?k (fmget 0 (po_held ?q) ?k - 1) (po_held ?q))"
  have held: "fmget 0 h k = (if k = ?k then fmget 0 (po_held ?q) ?k - 1 else fmget 0 (po_held ?q) k)" for k by (simp add: h_def held_get)
  have taken: "taken_by (Finishing d r) ?q = []" by (simp add: taken_by_def)
  have place: "place_ok p' (sy_tasks y - {#Finishing d r#} + mset [Releasing d r l]) e f"
    if "po_held p' = h" "po_limits p' = po_limits ?q" "queue_of p' e = queue_of ?q e" for p' l e f
    using ok(4) [of e f] that tasks_where_pos [OF assms(2), of "holds_place ?k"] by (auto simp: place_ok_def held diff)
  have s: "task_step (Finishing d r) ?q = Some (if po_ordered ?q \<and> queue_of ?q d = []
      then ([Releasing d r True], ?q\<lparr>po_held := h, po_queued := fmdrop d (po_queued ?q), po_draining := po_draining ?q |-| {|d|}\<rparr>)
      else ([Releasing d r False], ?q\<lparr>po_held := h\<rparr>))"
    by (simp add: task_step_def run_finish_def Let_def h_def)
  show ?thesis
  proof (cases "po_ordered ?q \<and> queue_of ?q d = []")
    case True
    then have p: "ts = [Releasing d r True]" "p = ?q\<lparr>po_held := h, po_queued := fmdrop d (po_queued ?q), po_draining := po_draining ?q |-| {|d|}\<rparr>"
      using assms(3) s by simp_all
    have same: "queue_of p e = queue_of ?q e" for e using True p(2) by simp
    show ?thesis
    proof (rule pool_okI)
      fix e
      have one: "tasks_where (on_device d) (sy_tasks y) = 1" "d |\<in>| po_draining ?q"
        using ok(1) [of d] True tasks_where_pos [OF assms(2), of "on_device d"] by (auto simp: thread_ok_def split: if_splits)
      have "tasks_where (needs_queue d) (sy_tasks y - {#Finishing d r#}) \<le> 0"
        using needs_queue_on_device [of d "sy_tasks y - {#Finishing d r#}"] one(1) by (simp add: diff)
      then show "thread_ok (sy_pool ?y) (sy_tasks ?y) e" using ok(1) [of e] True p one by (auto simp: thread_ok_def diff)
      show "order_ok ?y e" using ok(2) [of e] True by (simp add: order_ok_def taken same)
      fix f show "place_ok (sy_pool ?y) (sy_tasks ?y) e f" using place [of p e True f] p same by simp
    qed (use ok(5) True p in \<open>simp_all add: gate_counts_def diff queued_total_drop\<close>)
  next
    case False
    then have p: "ts = [Releasing d r False]" "p = ?q\<lparr>po_held := h\<rparr>" using assms(3) s by (simp_all split: if_splits)
    show ?thesis
    proof (rule pool_okI)
      fix e
      show "thread_ok (sy_pool ?y) (sy_tasks ?y) e" if "po_ordered (sy_pool ?y)" using ok(1) [of e] that False p by (auto simp: thread_ok_def diff)
      show "order_ok ?y e" if "po_ordered (sy_pool ?y)" using ok(2) [of e] that p by (simp add: order_ok_def taken)
      fix f show "place_ok (sy_pool ?y) (sy_tasks ?y) e f" using place [of p e False f] p by simp
    qed (use ok(3,5) False p in \<open>simp_all add: plain_ok_def gate_counts_def diff\<close>)
  qed
qed

text \<open>The steps that leave the queues and the places alone.\<close>

lemma quiet_ok:
  assumes "pool_ok y" "t \<in># sy_tasks y" "taken_by t (sy_pool y) = []"
    and p: "po_ordered p = po_ordered (sy_pool y)" "po_queued p = po_queued (sy_pool y)" "po_held p = po_held (sy_pool y)" "po_limits p = po_limits (sy_pool y)"
      "po_draining p = po_draining (sy_pool y)"
    and run: "cg_running (po_gate p) = cg_running (po_gate (sy_pool y)) + tasks_where admitted_task (mset ts) - (if admitted_task t then 1 else 0)"
    and same: "\<And>d. po_ordered (sy_pool y) \<Longrightarrow> tasks_where (on_device d) (mset ts) = (if on_device d t then 1 else 0)"
      "\<And>d. po_ordered (sy_pool y) \<Longrightarrow> tasks_where (needs_queue d) (mset ts) = (if needs_queue d t then 1 else 0)"
      "\<And>k. tasks_where (holds_place k) (mset ts) = (if holds_place k t then 1 else 0)"
      "\<not> po_ordered (sy_pool y) \<Longrightarrow> tasks_where is_draining (mset ts) = 0"
  shows "pool_ok (go_on t ts p y)"
proof -
  note ok = pool_okD [OF assms(1)] and diff = tasks_where_diff [OF assms(2)]
  have q: "queue_of p e = queue_of (sy_pool y) e" for e unfolding queue_of_def p(2) ..
  let ?y = "go_on t ts p y"
  show ?thesis
  proof (rule pool_okI)
    fix e
    show "thread_ok (sy_pool ?y) (sy_tasks ?y) e" if "po_ordered (sy_pool ?y)" using ok(1) [of e] that p same(1,2) [of e] by (simp add: thread_ok_def diff q)
    show "order_ok ?y e" if "po_ordered (sy_pool ?y)" using ok(2) [of e] that p(1) assms(3) by (simp add: order_ok_def q)
    fix f
    have e1: "tasks_where (holds_place (e, f)) (sy_tasks ?y) = tasks_where (holds_place (e, f)) (sy_tasks y)" by (simp add: diff same(3))
    show "place_ok (sy_pool ?y) (sy_tasks ?y) e f" using ok(4) [of e f] unfolding place_ok_def go_on_simps p q e1 [unfolded go_on_simps] .
  next
    show "plain_ok (sy_pool ?y) (sy_tasks ?y)" if "\<not> po_ordered (sy_pool ?y)"
      using ok(3) that p same(4) tasks_where_pos [OF assms(2), of is_draining] by (auto simp: plain_ok_def diff)
  qed (use ok(5) p run in \<open>simp add: gate_counts_def diff\<close>)
qed

lemma work_ok:
  assumes "pool_ok y" "t \<in># sy_tasks y" "task_step t (sy_pool y) = Some (ts, p)"
  shows "pool_ok (go_on t ts p y)"
proof (cases t)
  case Dropping
  show ?thesis by (rule quiet_ok [OF assms(1,2)]) (use assms(3) Dropping in \<open>auto simp: task_step_def taken_by_def gate_done_def\<close>)
next
  case (Draining d)
  show ?thesis using drain_ok assms unfolding Draining by blast
next
  case (Running d r)
  show ?thesis by (rule quiet_ok [OF assms(1,2)]) (use assms(3) Running in \<open>auto simp: task_step_def taken_by_def split: if_splits\<close>)
next
  case (Handling d r)
  show ?thesis by (rule quiet_ok [OF assms(1,2)]) (use assms(3) Handling in \<open>auto simp: task_step_def taken_by_def split: if_splits\<close>)
next
  case (Finishing d r)
  show ?thesis using finish_ok assms unfolding Finishing by blast
next
  case (Releasing d r l)
  show ?thesis by (rule quiet_ok [OF assms(1,2)]) (use assms(3) Releasing in \<open>auto simp: task_step_def taken_by_def gate_done_def split: if_splits\<close>)
qed

lemma stop_ok: "pool_ok y \<Longrightarrow> pool_ok (stop_admitting y)"
proof -
  assume a: "pool_ok y"
  have s: "sy_pool (stop_admitting y) = (sy_pool y)\<lparr>po_gate := gate_refuse (po_gate (sy_pool y))\<rparr>" "sy_tasks (stop_admitting y) = sy_tasks y"
    "sy_accepted (stop_admitting y) = sy_accepted y" "sy_taken (stop_admitting y) = sy_taken y" by (simp_all add: stop_admitting_def)
  note ok = pool_okD [OF a]
  show ?thesis
  proof (rule pool_okI)
    fix e
    show "thread_ok (sy_pool (stop_admitting y)) (sy_tasks (stop_admitting y)) e" if "po_ordered (sy_pool (stop_admitting y))" using ok(1) [of e] that by (simp add: s thread_ok_def)
    show "order_ok (stop_admitting y) e" if "po_ordered (sy_pool (stop_admitting y))" using ok(2) [of e] that by (simp add: s order_ok_def)
    fix f show "place_ok (sy_pool (stop_admitting y)) (sy_tasks (stop_admitting y)) e f" using ok(4) [of e f] by (auto simp: s place_ok_def)
  qed (use ok(3,5) in \<open>simp_all add: s plain_ok_def gate_counts_def gate_refuse_def\<close>)
qed

lemma reaches_ok:
  assumes "pool_reaches (newRequestPool ordered devices families) y"
  shows "pool_ok y"
  using assms
proof (induction rule: pool_reaches.induct)
  case pool_start
  show ?case by (rule pool_okI) (simp_all add: newRequestPool_def newCallbackGate_def thread_ok_def plain_ok_def order_ok_def place_ok_def gate_counts_def queue_of_def fmget_def del: queue_of_get)
qed (auto intro: arrive_ok work_ok stop_ok)

lemma handler_config:
  assumes "pool_handler family topic payload p = (acc, ts, p')"
  shows "po_ordered p' = po_ordered p \<and> po_limits p' = po_limits p"
  using assms by (cases rule: pool_handler_cases) auto

lemma task_config: "task_step t p = Some (ts, p') \<Longrightarrow> po_ordered p' = po_ordered p \<and> po_limits p' = po_limits p"
  by (auto simp: task_step_def drain_next_def run_finish_def Let_def split: task.splits list.splits if_splits)

lemma reaches_config:
  assumes "pool_reaches p0 y"
  shows "po_ordered (sy_pool y) = po_ordered p0" "po_limits (sy_pool y) = po_limits p0"
proof -
  have "po_ordered (sy_pool y) = po_ordered p0 \<and> po_limits (sy_pool y) = po_limits p0" using assms
  proof (induction rule: pool_reaches.induct)
    case (pool_arrive y family topic payload)
    obtain acc ts p' where h: "pool_handler family topic payload (sy_pool y) = (acc, ts, p')" by (metis prod_cases3)
    show ?case using handler_config [OF h] pool_arrive.IH by (simp add: arrive_def h)
  next
    case (pool_work y t ts p)
    then show ?case using task_config [OF pool_work.hyps(3)] by simp
  qed (simp_all add: stop_admitting_def)
  then show "po_ordered (sy_pool y) = po_ordered p0" "po_limits (sy_pool y) = po_limits p0" by auto
qed

section \<open>What a pool promises\<close>

text \<open>C16. An ordered pool handles each device's messages one at a time in the order they came. However messages arrive and the goroutines interleave, the
  messages taken up for a device so far are, in order, the first of those accepted for it, the rest wait in its queue, and at
  most one goroutine has a message of the device in hand; a goroutine that goes to the queue finds a message there, so it never
  panics.\<close>

theorem ordered_pool_keeps_order:
  assumes "pool_reaches (newRequestPool True devices families) y"
  shows "of_device d (sy_accepted y) = of_device d (sy_taken y) @ queue_of (sy_pool y) d
    \<and> tasks_where (on_device d) (sy_tasks y) \<le> 1
    \<and> (Draining d \<in># sy_tasks y \<longrightarrow> task_step (Draining d) (sy_pool y) \<noteq> None)"
proof -
  have ord: "po_ordered (sy_pool y)" using reaches_config(1) [OF assms] by (simp add: newRequestPool_def)
  note ok = pool_okD [OF reaches_ok [OF assms]]
  have "queue_of (sy_pool y) d \<noteq> []" if "Draining d \<in># sy_tasks y"
    using ok(1) [OF ord, of d] tasks_where_pos [OF that, of "needs_queue d"] by (auto simp: thread_ok_def)
  then have "Draining d \<in># sy_tasks y \<longrightarrow> task_step (Draining d) (sy_pool y) \<noteq> None"
    by (auto simp: task_step_def drain_next_def split: list.split)
  then show ?thesis using ok(1,2) [OF ord, of d] by (auto simp: thread_ok_def order_ok_def)
qed

text \<open>What a device holds is bounded by its family's burst and counted exactly. In any state a pool reaches, the count a device and family hold is the
  number of its messages waiting or in hand, and never more than the burst of the family.\<close>

theorem held_messages_bounded:
  assumes "pool_reaches (newRequestPool ordered devices families) y"
  shows "fmget 0 (po_held (sy_pool y)) (d, f)
      = tasks_where (holds_place (d, f)) (sy_tasks y) + int (length (filter (\<lambda>r. pr_family r = f) (queue_of (sy_pool y) d)))
    \<and> fmget 0 (po_held (sy_pool y)) (d, f) \<le> max 0 (case map_of IngressRates f of None \<Rightarrow> 0 | Some r \<Rightarrow> ir_Burst r)"
proof -
  note lim = reaches_config(2) [OF assms]
  have "fmget 0 (po_limits (sy_pool y)) f \<le> max 0 (case map_of IngressRates f of None \<Rightarrow> 0 | Some r \<Rightarrow> ir_Burst r)"
    unfolding lim by (auto simp: newRequestPool_def fmget_def fmlookup_of_list map_of_map_restrict restrict_map_def split: option.splits)
  then show ?thesis using pool_okD(4) [OF reaches_ok [OF assms], of d f] by (auto simp: place_ok_def)
qed

lemma no_admission_left:
  assumes "pool_ok y" "cg_running (po_gate (sy_pool y)) = 0"
  shows "sy_tasks y = {#}" "queue_of (sy_pool y) d = []"
proof -
  note ok = pool_okD [OF assms(1)]
  have z: "tasks_where admitted_task (sy_tasks y) = 0" "queued_total (po_queued (sy_pool y)) = 0"
    using ok(5) assms(2) tasks_where_simps(4) [of admitted_task "sy_tasks y"] queued_total_nonneg(1) [of "po_queued (sy_pool y)"] unfolding gate_counts_def by linarith+
  have q: "queue_of (sy_pool y) e = []" for e using z(2) unfolding queued_total_0 by simp
  show "queue_of (sy_pool y) d = []" by (rule q)
  show "sy_tasks y = {#}"
  proof (rule ccontr)
    assume "sy_tasks y \<noteq> {#}"
    then obtain t where t: "t \<in># sy_tasks y" by blast
    have "\<not> admitted_task t" using tasks_where_pos [OF t, of admitted_task] z(1) by linarith
    then obtain e where e: "t = Draining e" by (cases t) auto
    show False
    proof (cases "po_ordered (sy_pool y)")
      case True
      then show False using ok(1) [OF True, of e] q [of e] tasks_where_pos [OF t, of "needs_queue e"] e by (simp add: thread_ok_def)
    next
      case False
      then show False using ok(3) tasks_where_pos [OF t, of is_draining] e by (simp add: plain_ok_def)
    qed
  qed
qed

text \<open>C18. The gate joins everything the pool accepted. When the gate's count of running admissions is zero, no goroutine of the pool is left and no message
  waits, so nothing touches the pool after the gate has been joined; and once the gate refuses, a message that arrives changes
  nothing.\<close>

theorem gate_joins_pool:
  assumes "pool_reaches (newRequestPool ordered devices families) y"
  shows "(cg_running (po_gate (sy_pool y)) = 0 \<longrightarrow> sy_tasks y = {#} \<and> queue_of (sy_pool y) d = [])
    \<and> (cg_closed (po_gate (sy_pool y)) \<longrightarrow> arrive family topic payload y = y)"
  using no_admission_left [OF reaches_ok [OF assms]] by (auto simp: arrive_def pool_handler_def gate_enter_def Let_def)

section \<open>Stopping ends\<close>

definition works :: "system \<Rightarrow> system \<Rightarrow> bool" where
  "works y z \<longleftrightarrow> (\<exists>t ts p. t \<in># sy_tasks y \<and> task_step t (sy_pool y) = Some (ts, p) \<and> z = go_on t ts p y)"

primrec task_effort :: "task \<Rightarrow> int" where
  "task_effort Dropping = 1"
| "task_effort (Draining d) = 1"
| "task_effort (Running d r) = 5"
| "task_effort (Handling d r) = 4"
| "task_effort (Finishing d r) = 3"
| "task_effort (Releasing d r l) = 2"

definition effort :: "system \<Rightarrow> int" where
  "effort y = sum_mset (image_mset task_effort (sy_tasks y)) + 5 * queued_total (po_queued (sy_pool y))"

lemma effort_nonneg: "0 \<le> effort y"
proof -
  have "0 \<le> task_effort t" for t by (cases t) auto
  then have "0 \<le> sum_mset (image_mset task_effort ts)" for ts by (induction ts) (auto simp: add_nonneg_nonneg)
  then show ?thesis by (simp add: effort_def)
qed

lemma effort_go_on:
  assumes "t \<in># sy_tasks y"
  shows "effort (go_on t ts p y) = effort y - task_effort t + sum_mset (image_mset task_effort (mset ts)) + 5 * (queued_total (po_queued p) - queued_total (po_queued (sy_pool y)))"
proof -
  have "sum_mset (image_mset task_effort (sy_tasks y)) = task_effort t + sum_mset (image_mset task_effort (sy_tasks y - {#t#}))"
    using assms by (metis insert_DiffM image_mset_add_mset sum_mset.insert)
  then show ?thesis by (simp add: effort_def)
qed

lemma works_less:
  assumes "works y z"
  shows "effort z < effort y"
proof -
  obtain t ts p where t: "t \<in># sy_tasks y" "task_step t (sy_pool y) = Some (ts, p)" "z = go_on t ts p y" using assms by (auto simp: works_def)
  have "sum_mset (image_mset task_effort (mset ts)) + 5 * (queued_total (po_queued p) - queued_total (po_queued (sy_pool y))) < task_effort t"
    using t(2) by (cases t) (auto simp: task_step_def drain_next_def run_finish_def Let_def queued_total_upd queued_total_drop split: list.splits if_splits)
  then show ?thesis using effort_go_on [OF t(1), of ts p] unfolding t(3) by linarith
qed

lemma works_bounded: "(works ^^ n) y z \<Longrightarrow> int n + effort z \<le> effort y"
proof (induction n arbitrary: z)
  case (Suc n)
  then obtain x where "(works ^^ n) y x" "works x z" by auto
  then show ?case using Suc.IH [of x] works_less [of x z] by simp
qed simp

lemma works_reaches: "pool_reaches p0 y \<Longrightarrow> (works ^^ n) y z \<Longrightarrow> pool_reaches p0 z"
proof (induction n arbitrary: z)
  case (Suc n)
  then obtain x where "pool_reaches p0 x" "works x z" by auto
  then show ?case by (auto simp: works_def intro: pool_work)
qed simp

lemma works_progress:
  assumes "pool_ok y" "\<nexists>z. works y z"
  shows "cg_running (po_gate (sy_pool y)) = 0"
proof -
  note ok = pool_okD [OF assms(1)]
  have "sy_tasks y = {#}"
  proof (rule ccontr)
    assume "sy_tasks y \<noteq> {#}"
    then obtain t where t: "t \<in># sy_tasks y" by blast
    have "task_step t (sy_pool y) \<noteq> None"
    proof (cases t)
      case (Draining d)
      have "queue_of (sy_pool y) d \<noteq> []"
      proof (cases "po_ordered (sy_pool y)")
        case True
        then show ?thesis using ok(1) [OF True, of d] tasks_where_pos [OF t, of "needs_queue d"] Draining by (simp add: thread_ok_def)
      next
        case False
        then show ?thesis using ok(3) tasks_where_pos [OF t, of is_draining] Draining by (simp add: plain_ok_def)
      qed
      then show ?thesis by (simp add: Draining task_step_def drain_next_def split: list.split)
    qed (auto simp: task_step_def split: prod.split)
    then show False using assms(2) t by (auto simp: works_def)
  qed
  moreover have "queue_of (sy_pool y) d = []" for d
  proof (cases "po_ordered (sy_pool y)")
    case True
    then show ?thesis using ok(1) [OF True, of d] \<open>sy_tasks y = {#}\<close> by (auto simp: thread_ok_def split: if_splits)
  next
    case False
    then show ?thesis using ok(3) by (simp add: plain_ok_def queue_of_def fmget_def del: queue_of_get)
  qed
  ultimately show ?thesis using ok(5) queued_total_0 [of "po_queued (sy_pool y)"] by (simp add: gate_counts_def)
qed

text \<open>C17. Stopping ends. From any state a pool reaches, when no more messages come, as once the gate refuses, its goroutines take only a bounded number of
  steps, each handler's return being one, in whatever order they run; and when none can take a step every admission has been
  released, so closing the gate returns.\<close>

theorem stopping_terminates:
  assumes "pool_reaches (newRequestPool ordered devices families) y" "(works ^^ n) y z"
  shows "int n \<le> effort y \<and> ((\<nexists>x. works z x) \<longrightarrow> cg_running (po_gate (sy_pool z)) = 0)"
  using works_bounded [OF assms(2)] effort_nonneg [of z] works_progress [OF reaches_ok [OF works_reaches [OF assms]]] by auto

section \<open>Examples\<close>

definition demo_request :: "string \<Rightarrow> pendingRequest" where
  "demo_request payload = \<lparr>pr_topic = ''ori/dev-1/evidence/outbound'', pr_payload = payload, pr_family = FamilyEvidenceOutbound\<rparr>"

definition demo_pool :: requestPool where
  "demo_pool = newRequestPool True [''dev-1''] [FamilyEvidenceOutbound, FamilyEvidenceInboundAck]"

definition demo_start :: system where
  "demo_start = \<lparr>sy_pool = demo_pool, sy_tasks = {#}, sy_accepted = [], sy_taken = []\<rparr>"

definition demo_two :: system where
  "demo_two = arrive FamilyEvidenceOutbound ''ori/dev-1/evidence/outbound'' ''b'' (arrive FamilyEvidenceOutbound ''ori/dev-1/evidence/outbound'' ''a'' demo_start)"

lemma demo_two_reached: "pool_reaches demo_pool demo_two"
proof -
  have "fmlookup (po_limits demo_pool) FamilyEvidenceOutbound \<noteq> None" by code_simp
  then show ?thesis unfolding demo_two_def demo_start_def by (intro pool_arrive pool_start)
qed

lemma demo_two_state:
  "sy_accepted demo_two = [(''dev-1'', demo_request ''a''), (''dev-1'', demo_request ''b'')]" "sy_tasks demo_two = {#Draining ''dev-1''#}"
  "queue_of (sy_pool demo_two) ''dev-1'' = [demo_request ''a'', demo_request ''b'']" "fmget 0 (po_held (sy_pool demo_two)) (''dev-1'', FamilyEvidenceOutbound) = 2"
  by code_simp+

theorem ordered_pool_keeps_order_witness:
  "of_device ''dev-1'' (sy_accepted demo_two) = of_device ''dev-1'' (sy_taken demo_two) @ queue_of (sy_pool demo_two) ''dev-1''
    \<and> task_step (Draining ''dev-1'') (sy_pool demo_two) \<noteq> None"
  using ordered_pool_keeps_order [OF demo_two_reached [unfolded demo_pool_def], of "''dev-1''"] demo_two_state(2) by simp

theorem held_messages_bounded_witness:
  "fmget 0 (po_held (sy_pool demo_two)) (''dev-1'', FamilyEvidenceOutbound) = 2
    \<and> fmget 0 (po_held (sy_pool demo_two)) (''dev-1'', FamilyEvidenceOutbound)
      \<le> max 0 (case map_of IngressRates FamilyEvidenceOutbound of None \<Rightarrow> 0 | Some r \<Rightarrow> ir_Burst r)"
  using held_messages_bounded [OF demo_two_reached [unfolded demo_pool_def], of "''dev-1''" FamilyEvidenceOutbound] demo_two_state(4) by simp

theorem gate_joins_pool_witness:
  "sy_tasks demo_start = {#} \<and> queue_of (sy_pool demo_start) ''dev-1'' = []"
proof -
  have "pool_reaches (newRequestPool True [''dev-1''] [FamilyEvidenceOutbound, FamilyEvidenceInboundAck]) demo_start"
    unfolding demo_start_def demo_pool_def by (rule pool_start)
  moreover have "cg_running (po_gate (sy_pool demo_start)) = 0" by code_simp
  ultimately show ?thesis using gate_joins_pool by blast
qed

definition demo_step :: system where
  "demo_step = (case task_step (Draining ''dev-1'') (sy_pool demo_two) of Some (ts, p) \<Rightarrow> go_on (Draining ''dev-1'') ts p demo_two | None \<Rightarrow> demo_two)"

lemma demo_works: "works demo_two demo_step"
proof -
  have "task_step (Draining ''dev-1'') (sy_pool demo_two) \<noteq> None" using demo_two_state(3) by (simp add: task_step_def drain_next_def)
  then obtain ts p where "task_step (Draining ''dev-1'') (sy_pool demo_two) = Some (ts, p)" by fastforce
  then show ?thesis using demo_two_state(2) unfolding works_def demo_step_def by auto
qed

theorem stopping_terminates_witness:
  "works demo_two demo_step \<and> int 1 \<le> effort demo_two \<and> cg_running (po_gate (sy_pool demo_start)) = 0"
proof -
  have s: "pool_reaches (newRequestPool True [''dev-1''] [FamilyEvidenceOutbound, FamilyEvidenceInboundAck]) demo_start"
    unfolding demo_start_def demo_pool_def by (rule pool_start)
  have w: "(works ^^ 1) demo_two demo_step" "(works ^^ 0) demo_start demo_start" using demo_works by (simp_all add: relcompp_apply)
  have "\<nexists>x. works demo_start x" by (simp add: works_def demo_start_def)
  then show ?thesis
    using stopping_terminates [OF s w(2)] stopping_terminates [OF demo_two_reached [unfolded demo_pool_def] w(1)] demo_works by blast
qed

end
