(* ===== verification/Configuration.thy ===== *)
theory Configuration
  imports Bridge Queue
begin

text \<open>
  The configuration, \<open>config/config.go\<close>: defaults, normalisation and validation of what the YAML file gives. The file is decoded by a library, so the
  model begins with the decoded values; an optional value is absent or given. An error is the key it names.
\<close>

section \<open>Paths\<close>

text \<open>\<open>filepath.Clean\<close> and \<open>filepath.IsAbs\<close> on a system with one separator. The components that are left of a path, the last first: an empty one and a
  dot are nothing, and two dots take back the one before, if there is one to take back.\<close>

definition clean_step :: "bool \<Rightarrow> string list \<Rightarrow> string \<Rightarrow> string list" where
  "clean_step rooted out c =
     (if c = [] \<or> c = ''.'' then out
      else if c = ''..'' then
        (case out of [] \<Rightarrow> if rooted then [] else [''..'']
         | x # rest \<Rightarrow> if x = ''..'' then ''..'' # out else rest)
      else c # out)"

definition IsAbs :: "string \<Rightarrow> bool" where
  "IsAbs path \<longleftrightarrow> HasPrefix path ''/''"

definition clean_components :: "string \<Rightarrow> string list" where
  "clean_components path = rev (foldl (clean_step (IsAbs path)) [] (split_on CHR ''/'' path))"

fun join_slash :: "string list \<Rightarrow> string" where
  "join_slash [] = []"
| "join_slash [c] = c"
| "join_slash (c # cs) = c @ ''/'' @ join_slash cs"

definition Clean :: "string \<Rightarrow> string" where
  "Clean path =
     (let body = join_slash (clean_components path)
      in if IsAbs path then ''/'' @ body else if body = [] then ''.'' else body)"

definition pathWithin :: "string \<Rightarrow> string \<Rightarrow> bool" where
  "pathWithin a dir \<longleftrightarrow> a = dir \<or> HasPrefix a (if HasSuffix dir ''/'' then dir else dir @ ''/'')"

definition pathsOverlap :: "string \<Rightarrow> string \<Rightarrow> bool" where
  "pathsOverlap a b \<longleftrightarrow> pathWithin a b \<or> pathWithin b a"

section \<open>The values of the file\<close>

record fileGatewayConfig =
  fg_BrokerURL :: string
  fg_DeviceIDs :: "string list"
  fg_HeartbeatIntervalS :: "int option"
  fg_AuthEnabled :: bool
  fg_SharedSecretEnv :: string
  fg_PreviousSharedSecretEnv :: string
  fg_CustodySecretEnv :: string
  fg_EncryptionEnabled :: bool
  fg_StateDirectory :: string

record ProviderConfig =
  pc_Name :: string
  pc_TimeoutMS :: int
  pc_LlamaURL :: string
  pc_LlamaModel :: string
  pc_Vendor :: string
  pc_APIKeyEnv :: string
  pc_Model :: string
  pc_BaseURL :: string

record WeeklyReportConfig =
  wr_Enabled :: bool
  wr_Day :: string
  wr_Time :: string
  wr_Timezone :: string
  wr_DeviceID :: string
  wr_SensorIDs :: "string list"
  wr_CustomerName :: string
  wr_SiteName :: string
  wr_FileEnabled :: bool
  wr_FilePath :: string
  wr_CloudEnabled :: bool
  wr_CloudEndpoint :: string
  wr_CloudAuthEnv :: string

record ReportingConfig =
  rc_Provider :: string
  rc_GeminiAPIKeyEnv :: string
  rc_GeminiModel :: string
  rc_GeminiBaseURL :: string
  rc_WeeklyReport :: WeeklyReportConfig
  rc_TierCEnabled :: bool

record fileWebhookBridgeConfig =
  fw_Enabled :: bool
  fw_ListenAddr :: string
  fw_Path :: string
  fw_TargetURL :: string
  fw_ProviderSourceCIDRs :: "string list"
  fw_RuntimeTokenEnv :: string
  fw_HMACSecretEnv :: string
  fw_RequestTimeoutMS :: "int option"
  fw_MaxBodyBytes :: "int option"
  fw_SenderPerMinute :: "int option"
  fw_SenderBurst :: "int option"
  fw_GlobalPerMinute :: "int option"
  fw_GlobalBurst :: "int option"
  fw_MaxSenders :: "int option"

record fileEvidenceConfig =
  fe_Enabled :: bool
  fe_QueueDirectory :: string
  fe_ReturnQueueDirectory :: string
  fe_MaxItems :: "int option"
  fe_MaxBytes :: "int option"
  fe_RetryIntervalS :: "int option"
  fe_BackoffBaseS :: "int option"
  fe_BackoffMaxS :: "int option"
  fe_StoreProbeIntervalS :: "int option"
  fe_EndpointEnv :: string
  fe_ClientIDEnv :: string
  fe_SecretEnv :: string
  fe_AuthorityCAFile :: string
  fe_DeviceCarriage :: "(string, string) fmap"

record SIMConfig =
  sm_Enabled :: bool
  sm_ModemPath :: string

record FleetConfig =
  fc_Enabled :: bool
  fc_CloudURL :: string

record SiteHealthConfig =
  sh_Enabled :: bool
  sh_ListenAddr :: string

record fileConfig =
  ff_Gateway :: fileGatewayConfig
  ff_Provider :: ProviderConfig
  ff_ProviderTimeoutMS :: "int option"
  ff_Reporting :: ReportingConfig
  ff_WebhookBridge :: fileWebhookBridgeConfig
  ff_SIM :: SIMConfig
  ff_Fleet :: FleetConfig
  ff_SiteHealth :: SiteHealthConfig
  ff_Evidence :: fileEvidenceConfig

section \<open>The configuration\<close>

record GatewayConfig =
  gc_BrokerURL :: string
  gc_DeviceIDs :: "string list"
  gc_HeartbeatIntervalS :: int
  gc_AuthEnabled :: bool
  gc_SharedSecretEnv :: string
  gc_PreviousSharedSecretEnv :: string
  gc_CustodySecretEnv :: string
  gc_EncryptionEnabled :: bool
  gc_StateDirectory :: string

record EvidenceConfig =
  ec_Enabled :: bool
  ec_QueueDirectory :: string
  ec_ReturnQueueDirectory :: string
  ec_MaxItems :: int
  ec_MaxBytes :: int
  ec_RetryIntervalS :: int
  ec_BackoffBaseS :: int
  ec_BackoffMaxS :: int
  ec_StoreProbeIntervalS :: int
  ec_EndpointEnv :: string
  ec_ClientIDEnv :: string
  ec_SecretEnv :: string
  ec_AuthorityCAFile :: string
  ec_DeviceCarriage :: "(string, string) fmap"

record Config =
  cf_Gateway :: GatewayConfig
  cf_Provider :: ProviderConfig
  cf_Reporting :: ReportingConfig
  cf_WebhookBridge :: WebhookBridgeConfig
  cf_SIM :: SIMConfig
  cf_Fleet :: FleetConfig
  cf_SiteHealth :: SiteHealthConfig
  cf_Evidence :: EvidenceConfig

section \<open>Normalisation\<close>

definition intOrDefault :: "int option \<Rightarrow> int \<Rightarrow> int" where
  "intOrDefault v fallback = (case v of None \<Rightarrow> fallback | Some n \<Rightarrow> n)"

definition defaultIfBlank :: "string \<Rightarrow> string \<Rightarrow> string" where
  "defaultIfBlank v fallback = (let trimmed = TrimSpace v in if trimmed = [] then fallback else trimmed)"

definition normalizeEvidence :: "fileEvidenceConfig \<Rightarrow> EvidenceConfig" where
  "normalizeEvidence raw =
     (let retry = intOrDefault (fe_RetryIntervalS raw) 5;
          base = intOrDefault (fe_BackoffBaseS raw) retry
      in \<lparr>ec_Enabled = fe_Enabled raw,
          ec_QueueDirectory = TrimSpace (fe_QueueDirectory raw),
          ec_ReturnQueueDirectory = TrimSpace (fe_ReturnQueueDirectory raw),
          ec_MaxItems = intOrDefault (fe_MaxItems raw) 10000,
          ec_MaxBytes = intOrDefault (fe_MaxBytes raw) 268435456,
          ec_RetryIntervalS = retry,
          ec_BackoffBaseS = base,
          ec_BackoffMaxS = intOrDefault (fe_BackoffMaxS raw) (max 300 base),
          ec_StoreProbeIntervalS = intOrDefault (fe_StoreProbeIntervalS raw) 900,
          ec_EndpointEnv = TrimSpace (fe_EndpointEnv raw),
          ec_ClientIDEnv = TrimSpace (fe_ClientIDEnv raw),
          ec_SecretEnv = TrimSpace (fe_SecretEnv raw),
          ec_AuthorityCAFile = fe_AuthorityCAFile raw,
          ec_DeviceCarriage = fe_DeviceCarriage raw\<rparr>)"

definition normalizeSiteHealth :: "SiteHealthConfig \<Rightarrow> SiteHealthConfig" where
  "normalizeSiteHealth cfg =
     (if \<not> sh_Enabled cfg then cfg else \<lparr>sh_Enabled = True, sh_ListenAddr = defaultIfBlank (sh_ListenAddr cfg) ''127.0.0.1:8765''\<rparr>)"

fun keep_first :: "string list \<Rightarrow> string list \<Rightarrow> string list" where
  "keep_first old [] = []"
| "keep_first old (d # ds) = (if d \<in> set old then keep_first old ds else d # keep_first (d # old) ds)"

definition normalizeGatewayDeviceIDs :: "string list \<Rightarrow> string list" where
  "normalizeGatewayDeviceIDs deviceIDs = keep_first [] deviceIDs"

definition normalizeProviderStrings :: "ProviderConfig \<Rightarrow> ProviderConfig" where
  "normalizeProviderStrings p =
     p\<lparr>pc_Name := TrimSpace (pc_Name p), pc_LlamaURL := TrimSpace (pc_LlamaURL p), pc_LlamaModel := TrimSpace (pc_LlamaModel p),
       pc_Vendor := TrimSpace (pc_Vendor p), pc_APIKeyEnv := TrimSpace (pc_APIKeyEnv p), pc_Model := TrimSpace (pc_Model p),
       pc_BaseURL := TrimSpace (pc_BaseURL p)\<rparr>"

definition normalizeWebhookBridge :: "fileWebhookBridgeConfig \<Rightarrow> WebhookBridgeConfig" where
  "normalizeWebhookBridge raw =
     \<lparr>wb_Enabled = fw_Enabled raw,
      wb_ListenAddr = defaultIfBlank (fw_ListenAddr raw) ''127.0.0.1:8090'',
      wb_Path = defaultIfBlank (fw_Path raw) ''/webhooks/sms/africastalking'',
      wb_TargetURL = TrimSpace (fw_TargetURL raw),
      wb_ProviderSourceCIDRs = filter (\<lambda>c. c \<noteq> []) (map TrimSpace (fw_ProviderSourceCIDRs raw)),
      wb_RuntimeTokenEnv = TrimSpace (fw_RuntimeTokenEnv raw),
      wb_HMACSecretEnv = TrimSpace (fw_HMACSecretEnv raw),
      wb_RequestTimeoutMS = intOrDefault (fw_RequestTimeoutMS raw) 3000,
      wb_MaxBodyBytes = intOrDefault (fw_MaxBodyBytes raw) 65536,
      wb_SenderPerMinute = intOrDefault (fw_SenderPerMinute raw) 10,
      wb_SenderBurst = intOrDefault (fw_SenderBurst raw) 5,
      wb_GlobalPerMinute = intOrDefault (fw_GlobalPerMinute raw) 120,
      wb_GlobalBurst = intOrDefault (fw_GlobalBurst raw) 20,
      wb_MaxSenders = intOrDefault (fw_MaxSenders raw) 4096\<rparr>"

definition normalizeReportingStrings :: "ReportingConfig \<Rightarrow> ReportingConfig" where
  "normalizeReportingStrings r =
     (let w = rc_WeeklyReport r
      in r\<lparr>rc_Provider := TrimSpace (rc_Provider r), rc_GeminiAPIKeyEnv := TrimSpace (rc_GeminiAPIKeyEnv r),
           rc_GeminiModel := TrimSpace (rc_GeminiModel r), rc_GeminiBaseURL := TrimSpace (rc_GeminiBaseURL r),
           rc_WeeklyReport := w\<lparr>wr_Day := TrimSpace (wr_Day w), wr_Time := TrimSpace (wr_Time w), wr_Timezone := TrimSpace (wr_Timezone w),
             wr_DeviceID := TrimSpace (wr_DeviceID w), wr_CustomerName := TrimSpace (wr_CustomerName w), wr_SiteName := TrimSpace (wr_SiteName w),
             wr_FilePath := TrimSpace (wr_FilePath w), wr_CloudEndpoint := TrimSpace (wr_CloudEndpoint w),
             wr_CloudAuthEnv := TrimSpace (wr_CloudAuthEnv w), wr_SensorIDs := map TrimSpace (wr_SensorIDs w)\<rparr>\<rparr>)"

section \<open>Validation\<close>

text \<open>\<open>None\<close> is a configuration that is accepted; an error is the key it names.\<close>

definition check_all :: "(bool \<times> string) list \<Rightarrow> string option" where
  "check_all cs = map_option snd (find fst cs)"

definition ContainsAny :: "string \<Rightarrow> string \<Rightarrow> bool" where
  "ContainsAny s chars \<longleftrightarrow> list_ex (\<lambda>c. c \<in> set chars) s"

definition env_breakers :: string where
  "env_breakers = [CHR '' '', CHR 0x09, CHR 0x0D, CHR 0x0A, CHR ''='']"

definition bad_env_name :: "string \<Rightarrow> bool" where
  "bad_env_name v \<longleftrightarrow> v = [] \<or> ContainsAny v env_breakers"

definition validateGatewayDeviceID :: "string \<Rightarrow> bool" where
  "validateGatewayDeviceID deviceID \<longleftrightarrow> deviceID \<noteq> [] \<and> TrimSpace deviceID = deviceID \<and> \<not> ContainsAny deviceID ''/+#|''"

definition validateSiteHealth :: "SiteHealthConfig \<Rightarrow> string option" where
  "validateSiteHealth cfg = (if sh_Enabled cfg \<and> SplitHostPort (sh_ListenAddr cfg) = None then Some ''site_health.listen_addr'' else None)"

definition validateProvider :: "ProviderConfig \<Rightarrow> string option" where
  "validateProvider p =
     (if pc_Name p = ''llama_cpp'' then check_all [(pc_LlamaURL p = [], ''provider.llama_cpp.url'')]
      else if pc_Name p \<noteq> ''cloud_llm'' then None
      else check_all
        [(pc_Vendor p = [], ''provider.cloud_llm.vendor''),
         (pc_Vendor p \<notin> {''claude'', ''openai'', ''gemini'', ''deepseek'', ''openai_compatible''}, ''provider.cloud_llm.vendor''),
         (pc_APIKeyEnv p = [], ''provider.cloud_llm.api_key_env''),
         (ContainsAny (pc_APIKeyEnv p) [CHR '' '', CHR 0x09, CHR 0x0D, CHR 0x0A], ''provider.cloud_llm.api_key_env''),
         (pc_Model p = [], ''provider.cloud_llm.model''),
         (pc_Vendor p = ''openai_compatible'' \<and> pc_BaseURL p = [], ''provider.cloud_llm.base_url'')])"

text \<open>\<open>time.Parse\<close> with the layout \<open>15:04\<close>: an hour of one or two digits, a colon, and a minute of two.\<close>

definition clock_time :: "string \<Rightarrow> bool" where
  "clock_time s \<longleftrightarrow>
     (let h = takeWhile is_digit s; h = take 2 h; rest = drop (length h) s
      in h \<noteq> [] \<and> dec_val h < 24 \<and> length rest = 3 \<and> hd rest = CHR '':'' \<and> list_all is_digit (tl rest) \<and> dec_val (tl rest) < 60)"

text \<open>\<open>strings.ToLower\<close> matters here only for the names of the days.\<close>

definition isValidWeekday :: "string \<Rightarrow> bool" where
  "isValidWeekday day \<longleftrightarrow> ToLower day \<in> {''monday'', ''tuesday'', ''wednesday'', ''thursday'', ''friday'', ''saturday'', ''sunday''}"

text \<open>\<open>parse_url\<close> is the scheme and host \<open>url.Parse\<close> finds, \<open>tz\<close> the names \<open>time.LoadLocation\<close> finds on the system.\<close>

definition validateReporting :: "(string \<Rightarrow> (string \<times> string) option) \<Rightarrow> (string \<Rightarrow> bool) \<Rightarrow> ReportingConfig \<Rightarrow> string option" where
  "validateReporting parse_url tz r =
     (let w = rc_WeeklyReport r
      in if rc_Provider r \<noteq> [] \<and> rc_Provider r \<noteq> ''gemini'' then Some ''reporting.provider''
         else if \<not> wr_Enabled w \<and> \<not> rc_TierCEnabled r then None
         else check_all
          ([(rc_Provider r = [], ''reporting.provider''),
            (rc_GeminiAPIKeyEnv r = [], ''reporting.gemini.api_key_env''),
            (ContainsAny (rc_GeminiAPIKeyEnv r) [CHR '' '', CHR 0x09, CHR 0x0D, CHR 0x0A], ''reporting.gemini.api_key_env''),
            (rc_GeminiModel r = [], ''reporting.gemini.model'')]
           @ (if \<not> wr_Enabled w then [] else
           [(\<not> isValidWeekday (wr_Day w), ''reporting.weekly_report.day''),
            (\<not> clock_time (wr_Time w), ''reporting.weekly_report.time''),
            (wr_Timezone w = [] \<or> \<not> tz (wr_Timezone w), ''reporting.weekly_report.timezone''),
            (wr_DeviceID w = [] \<or> ContainsAny (wr_DeviceID w) ''/+#'', ''reporting.weekly_report.device_id''),
            (wr_SensorIDs w = [] \<or> [] \<in> set (wr_SensorIDs w), ''reporting.weekly_report.sensor_ids'')]
           @ (if \<not> wr_FileEnabled w then [] else
           [(wr_FilePath w = [] \<or> \<not> IsAbs (wr_FilePath w) \<or> ''..'' \<in> set (split_on CHR ''/'' (wr_FilePath w)), ''reporting.weekly_report.delivery.file.path'')])
           @ (if \<not> wr_CloudEnabled w then [] else
           [(wr_CloudEndpoint w = [] \<or> (case parse_url (wr_CloudEndpoint w) of None \<Rightarrow> True | Some (scheme, host) \<Rightarrow> scheme \<noteq> ''https'' \<or> host = []),
             ''reporting.weekly_report.delivery.cloud.endpoint''),
            (bad_env_name (wr_CloudAuthEnv w), ''reporting.weekly_report.delivery.cloud.auth_env'')]))))"

definition listenAddrIsLoopback :: "string \<Rightarrow> bool" where
  "listenAddrIsLoopback listenAddr =
     (case SplitHostPort listenAddr of None \<Rightarrow> False
      | Some (host, _) \<Rightarrow> host = ''localhost'' \<or> (case ParseAddr host of None \<Rightarrow> False | Some addr \<Rightarrow> IsLoopback addr))"

definition bad_provider_cidr :: "string \<Rightarrow> bool" where
  "bad_provider_cidr cidr =
     (case ParsePrefix cidr of None \<Rightarrow> True
      | Some p \<Rightarrow> px_bits p = 0 \<or> (case px_addr p of Addr4 _ \<Rightarrow> px_bits p < 8 | Addr6 _ _ \<Rightarrow> px_bits p < 32))"

definition validateWebhookBridge :: "(string \<Rightarrow> (string \<times> string) option) \<Rightarrow> WebhookBridgeConfig \<Rightarrow> string option" where
  "validateWebhookBridge parse_url cfg =
     (if \<not> wb_Enabled cfg then None
      else check_all
        [(SplitHostPort (wb_ListenAddr cfg) = None, ''webhook_bridge.listen_addr''),
         (\<not> HasPrefix (wb_Path cfg) ''/'', ''webhook_bridge.path''),
         (wb_TargetURL cfg = [] \<or> (case parse_url (wb_TargetURL cfg) of None \<Rightarrow> True
            | Some (scheme, host) \<Rightarrow> scheme = [] \<or> host = [] \<or> scheme \<noteq> ''http'' \<and> scheme \<noteq> ''https''), ''webhook_bridge.target_url''),
         (bad_env_name (wb_RuntimeTokenEnv cfg), ''webhook_bridge.runtime_token_env''),
         (bad_env_name (wb_HMACSecretEnv cfg), ''webhook_bridge.hmac_secret_env''),
         (wb_RequestTimeoutMS cfg \<le> 0, ''webhook_bridge.request_timeout_ms''),
         (wb_MaxBodyBytes cfg \<le> 0 \<or> wb_MaxBodyBytes cfg > 1048576, ''webhook_bridge.max_body_bytes''),
         (wb_SenderPerMinute cfg < 10 \<or> wb_SenderBurst cfg < 5, ''webhook_bridge.sender_per_minute''),
         (wb_GlobalPerMinute cfg < wb_SenderPerMinute cfg \<or> wb_GlobalBurst cfg < wb_SenderBurst cfg, ''webhook_bridge.global_per_minute''),
         (wb_MaxSenders cfg < 1 \<or> wb_MaxSenders cfg > 65536, ''webhook_bridge.max_senders''),
         (list_ex bad_provider_cidr (wb_ProviderSourceCIDRs cfg), ''webhook_bridge.provider_source_cidrs''),
         (\<not> listenAddrIsLoopback (wb_ListenAddr cfg) \<and> wb_ProviderSourceCIDRs cfg = [], ''webhook_bridge.provider_source_cidrs'')])"

definition CarriageGatewayAPIV1 :: string where "CarriageGatewayAPIV1 = ''gateway-api/v1''"
definition CarriageEvidenceCarriageV1 :: string where "CarriageEvidenceCarriageV1 = ''gateway-evidence-carriage/v1''"

definition DeclaresVersionedCarriage :: "EvidenceConfig \<Rightarrow> bool" where
  "DeclaresVersionedCarriage c \<longleftrightarrow> CarriageEvidenceCarriageV1 |\<in>| fmran (ec_DeviceCarriage c)"

definition StoreProbeInterval :: "EvidenceConfig \<Rightarrow> int" where
  "StoreProbeInterval c = (if \<not> DeclaresVersionedCarriage c then 900000000000 else wrap64 (ec_StoreProbeIntervalS c * 1000000000))"

definition Backoff :: "EvidenceConfig \<Rightarrow> int \<times> int" where
  "Backoff c =
     (if \<not> DeclaresVersionedCarriage c
      then let base = wrap64 (ec_RetryIntervalS c * 1000000000) in (base, max 300000000000 base)
      else (wrap64 (ec_BackoffBaseS c * 1000000000), wrap64 (ec_BackoffMaxS c * 1000000000)))"

definition resolveDeviceCarriage :: "(string, string) fmap \<Rightarrow> string list \<Rightarrow> (string, string) fmap option" where
  "resolveDeviceCarriage declared deviceIDs =
     (if fBex (fmdom declared) (\<lambda>d. d \<notin> set deviceIDs \<or> fmget [] declared d \<notin> {CarriageGatewayAPIV1, CarriageEvidenceCarriageV1})
      then None
      else Some (fmap_of_list (map (\<lambda>d. (d, fmget CarriageGatewayAPIV1 declared d)) deviceIDs)))"

text \<open>The courier's own rules, and those of the versioned carriage.\<close>

definition courier_rules :: "EvidenceConfig \<Rightarrow> string option" where
  "courier_rules cfg = check_all
     [(\<not> IsAbs (ec_QueueDirectory cfg) \<or> \<not> IsAbs (ec_ReturnQueueDirectory cfg), ''evidence.queue_directory''),
      (Clean (ec_QueueDirectory cfg) = Clean (ec_ReturnQueueDirectory cfg), ''evidence.return_queue_directory''),
      (ec_AuthorityCAFile cfg \<noteq> [] \<and> (\<not> IsAbs (ec_AuthorityCAFile cfg) \<or> Clean (ec_AuthorityCAFile cfg) \<noteq> ec_AuthorityCAFile cfg
          \<or> TrimSpace (ec_AuthorityCAFile cfg) \<noteq> ec_AuthorityCAFile cfg), ''evidence.authority_ca_file''),
      (ec_MaxItems cfg \<le> 0 \<or> ec_MaxBytes cfg \<le> 0 \<or> ec_RetryIntervalS cfg \<le> 0, ''evidence.max_items''),
      (bad_env_name (ec_EndpointEnv cfg) \<or> bad_env_name (ec_ClientIDEnv cfg) \<or> bad_env_name (ec_SecretEnv cfg), ''evidence.endpoint_env'')]"

definition versioned_rules :: "EvidenceConfig \<Rightarrow> string list \<Rightarrow> string option" where
  "versioned_rules cfg deviceIDs = check_all
     [(list_ex (\<lambda>d. fmlookup (ec_DeviceCarriage cfg) d = Some CarriageEvidenceCarriageV1 \<and> \<not> ValidEvidenceRoutingDeviceID d) deviceIDs, ''gateway.device_ids''),
      (ec_BackoffMaxS cfg < ec_BackoffBaseS cfg \<or> ec_BackoffBaseS cfg < ec_RetryIntervalS cfg, ''evidence.backoff_max_s''),
      (deviceIDs \<noteq> [] \<and> (ec_MaxItems cfg div int (length deviceIDs) < MinDeviceShareItems
          \<or> ec_MaxBytes cfg div int (length deviceIDs) < MinDeviceShareBytes), ''evidence.max_items''),
      (ec_StoreProbeIntervalS cfg < 300 \<or> ec_StoreProbeIntervalS cfg > 900, ''evidence.store_probe_interval_s'')]"

definition validateEvidence :: "EvidenceConfig \<Rightarrow> string list \<Rightarrow> string + EvidenceConfig" where
  "validateEvidence cfg deviceIDs =
     (if \<not> ec_Enabled cfg then Inr (cfg\<lparr>ec_DeviceCarriage := fmempty\<rparr>)
      else case courier_rules cfg of Some e \<Rightarrow> Inl e
      | None \<Rightarrow>
      (case resolveDeviceCarriage (ec_DeviceCarriage cfg) deviceIDs of None \<Rightarrow> Inl ''evidence.device_carriage''
       | Some carriage \<Rightarrow>
           let cfg = cfg\<lparr>ec_DeviceCarriage := carriage\<rparr>
           in if \<not> DeclaresVersionedCarriage cfg then Inr cfg
              else case versioned_rules cfg deviceIDs of Some e \<Rightarrow> Inl e | None \<Rightarrow> Inr cfg))"

definition validateStateDirectory :: "Config \<Rightarrow> bool" where
  "validateStateDirectory cfg \<longleftrightarrow>
     gc_StateDirectory (cf_Gateway cfg) = [] \<or> \<not> ec_Enabled (cf_Evidence cfg)
     \<or> list_all (\<lambda>queue. queue = [] \<or> \<not> pathsOverlap (Clean (gc_StateDirectory (cf_Gateway cfg))) (Clean queue))
         [ec_QueueDirectory (cf_Evidence cfg), ec_ReturnQueueDirectory (cf_Evidence cfg)]"

definition normalizeGateway :: "fileGatewayConfig \<Rightarrow> GatewayConfig" where
  "normalizeGateway f =
     \<lparr>gc_BrokerURL = TrimSpace (fg_BrokerURL f), gc_DeviceIDs = normalizeGatewayDeviceIDs (fg_DeviceIDs f),
      gc_HeartbeatIntervalS = intOrDefault (fg_HeartbeatIntervalS f) 30, gc_AuthEnabled = fg_AuthEnabled f,
      gc_SharedSecretEnv = defaultIfBlank (fg_SharedSecretEnv f) ''GATEWAY_SHARED_SECRET'',
      gc_PreviousSharedSecretEnv = TrimSpace (fg_PreviousSharedSecretEnv f), gc_CustodySecretEnv = TrimSpace (fg_CustodySecretEnv f),
      gc_EncryptionEnabled = fg_EncryptionEnabled f, gc_StateDirectory = TrimSpace (fg_StateDirectory f)\<rparr>"

definition gateway_rules :: "GatewayConfig \<Rightarrow> string option" where
  "gateway_rules g = check_all
     [(gc_BrokerURL g = [], ''gateway.broker_url''),
      (gc_DeviceIDs g = [] \<or> \<not> list_all validateGatewayDeviceID (gc_DeviceIDs g), ''gateway.device_ids''),
      (ContainsAny (gc_SharedSecretEnv g) env_breakers, ''gateway.auth.shared_secret_env''),
      (ContainsAny (gc_PreviousSharedSecretEnv g) env_breakers, ''gateway.auth.previous_shared_secret_env''),
      (ContainsAny (gc_CustodySecretEnv g) env_breakers, ''gateway.custody.secret_env''),
      (gc_CustodySecretEnv g \<noteq> [] \<and> (gc_CustodySecretEnv g = gc_SharedSecretEnv g \<or> gc_CustodySecretEnv g = gc_PreviousSharedSecretEnv g), ''gateway.custody.secret_env''),
      (gc_EncryptionEnabled g \<and> \<not> gc_AuthEnabled g, ''gateway.encryption.enabled''),
      (gc_AuthEnabled g \<and> gc_StateDirectory g = [], ''gateway.state_directory''),
      (gc_StateDirectory g \<noteq> [] \<and> \<not> IsAbs (gc_StateDirectory g), ''gateway.state_directory''),
      (gc_HeartbeatIntervalS g \<le> 0, ''gateway.heartbeat_interval_s'')]"

definition normalize_config :: "(string \<Rightarrow> (string \<times> string) option) \<Rightarrow> (string \<Rightarrow> bool) \<Rightarrow> fileConfig \<Rightarrow> string + Config" where
  "normalize_config parse_url tz f =
     (let g = normalizeGateway (ff_Gateway f);
          provider = (normalizeProviderStrings (ff_Provider f))\<lparr>pc_TimeoutMS := intOrDefault (ff_ProviderTimeoutMS f) 10000\<rparr>;
          reporting = normalizeReportingStrings (ff_Reporting f);
          bridge = normalizeWebhookBridge (ff_WebhookBridge f);
          health = normalizeSiteHealth (ff_SiteHealth f)
      in case gateway_rules g of Some e \<Rightarrow> Inl e | None \<Rightarrow>
         (case check_all [(pc_TimeoutMS provider \<le> 0, ''provider.timeout_ms''),
              (pc_Name provider \<notin> {''echo'', ''llama_cpp'', ''cloud_llm''}, ''provider.name'')] of Some e \<Rightarrow> Inl e | None \<Rightarrow>
         (case validateProvider provider of Some e \<Rightarrow> Inl e | None \<Rightarrow>
         (case validateReporting parse_url tz reporting of Some e \<Rightarrow> Inl e | None \<Rightarrow>
         (case validateWebhookBridge parse_url bridge of Some e \<Rightarrow> Inl e | None \<Rightarrow>
         (case check_all [(sm_Enabled (ff_SIM f) \<and> TrimSpace (sm_ModemPath (ff_SIM f)) = [], ''sim.modem_path''),
              (fc_Enabled (ff_Fleet f) \<and> TrimSpace (fc_CloudURL (ff_Fleet f)) = [], ''fleet.cloud_url'')] of Some e \<Rightarrow> Inl e | None \<Rightarrow>
         (case validateSiteHealth health of Some e \<Rightarrow> Inl e | None \<Rightarrow>
         (case validateEvidence (normalizeEvidence (ff_Evidence f)) (gc_DeviceIDs g) of Inl e \<Rightarrow> Inl e
          | Inr evidence \<Rightarrow>
              Inr \<lparr>cf_Gateway = g, cf_Provider = provider, cf_Reporting = reporting, cf_WebhookBridge = bridge,
                   cf_SIM = ff_SIM f, cf_Fleet = ff_Fleet f, cf_SiteHealth = health, cf_Evidence = evidence\<rparr>))))))))"

text \<open>\<open>Load\<close> once the file has been read and decoded.\<close>

definition Load_config :: "(string \<Rightarrow> (string \<times> string) option) \<Rightarrow> (string \<Rightarrow> bool) \<Rightarrow> fileConfig \<Rightarrow> string + Config" where
  "Load_config parse_url tz f =
     (case normalize_config parse_url tz f of Inl e \<Rightarrow> Inl e
      | Inr cfg \<Rightarrow> if validateStateDirectory cfg then Inr cfg else Inl ''gateway.state_directory'')"

end
