(* ===== verification/Config_Rules.thy ===== *)
theory Config_Rules
  imports Configuration Queue_Spec Custody "HOL-Library.Sublist"
begin

text \<open>
  What a configuration that loads is good for: the gateway's state is apart from the evidence queues, the shares of the queue fit, a site that declares no
  versioned carriage is judged by the courier's own rules alone; and the secrets of \<open>cmd/ori-gateway/app.go\<close>, which are resolved from the
  environment and kept apart.
\<close>

section \<open>Checks\<close>

lemma check_all_simps [simp]: "check_all [] = None" "check_all ((b, k) # cs) = (if b then Some k else check_all cs)"
  by (simp_all add: check_all_def)

lemma check_all_append [simp]: "check_all (xs @ ys) = (case check_all xs of None \<Rightarrow> check_all ys | Some k \<Rightarrow> Some k)"
  by (induction xs) auto

lemma load_parts:
  assumes "Load_config parse_url tz f = Inr cfg"
  shows "cf_Gateway cfg = normalizeGateway (ff_Gateway f)" "gateway_rules (cf_Gateway cfg) = None"
    "cf_WebhookBridge cfg = normalizeWebhookBridge (ff_WebhookBridge f)" "validateWebhookBridge parse_url (cf_WebhookBridge cfg) = None"
    "validateEvidence (normalizeEvidence (ff_Evidence f)) (gc_DeviceIDs (cf_Gateway cfg)) = Inr (cf_Evidence cfg)" "validateStateDirectory cfg"
  using assms unfolding Load_config_def normalize_config_def Let_def
  by (auto split: sum.splits option.splits if_splits)

section \<open>Paths\<close>

definition plain_component :: "string \<Rightarrow> bool" where
  "plain_component c \<longleftrightarrow> c \<noteq> [] \<and> CHR ''/'' \<notin> set c"

lemma split_on_parts: "c \<in> set (split_on x s) \<Longrightarrow> x \<notin> set c"
  by (induction s arbitrary: c rule: split_on.induct) (auto split: if_splits list.splits)

lemma clean_step_plain: "list_all plain_component out \<Longrightarrow> CHR ''/'' \<notin> set c \<Longrightarrow> list_all plain_component (clean_step rooted out c)"
  by (auto simp: clean_step_def plain_component_def split: list.splits)

lemma clean_components_plain: "list_all plain_component (clean_components path)"
proof -
  have "list_all plain_component (foldl (clean_step r) out cs)" if "list_all plain_component out" "\<forall>c\<in>set cs. CHR ''/'' \<notin> set c" for r out cs
    using that
  proof (induction cs arbitrary: out)
    case (Cons c cs)
    have "list_all plain_component (clean_step r out c)" by (rule clean_step_plain) (use Cons.prems in auto)
    then show ?case using Cons by simp
  qed simp
  from this [of "[]" "split_on CHR ''/'' path" "IsAbs path"] show ?thesis
    using split_on_parts by (auto simp: clean_components_def list_all_iff)
qed

text \<open>An absolute path as its components, each behind a separator.\<close>

definition abs_text :: "string list \<Rightarrow> string" where
  "abs_text cs = concat (map ((#) CHR ''/'') cs)"

lemma abs_text_simps [simp]: "abs_text [] = []" "abs_text (c # cs) = CHR ''/'' # c @ abs_text cs"
  by (simp_all add: abs_text_def)

lemma Clean_abs: "IsAbs path \<Longrightarrow> Clean path = (if clean_components path = [] then ''/'' else abs_text (clean_components path))"
proof -
  have "''/'' @ join_slash cs = abs_text cs" if "cs \<noteq> []" for cs using that by (induction cs rule: join_slash.induct) auto
  then show "IsAbs path \<Longrightarrow> ?thesis" by (simp add: Clean_def Let_def)
qed

lemma takeWhile_upto: "z \<notin> set x \<Longrightarrow> takeWhile (\<lambda>c. c \<noteq> z) (x @ z # r) = x" "z \<notin> set x \<Longrightarrow> takeWhile (\<lambda>c. c \<noteq> z) x = x"
  by (induction x) auto

lemma abs_text_prefix:
  assumes "list_all plain_component xs" "list_all plain_component ys"
  shows "prefix (abs_text xs @ ''/'') (abs_text ys) \<longleftrightarrow> strict_prefix xs ys"
  using assms
proof (induction xs arbitrary: ys)
  case Nil
  then show ?case by (cases ys) (auto simp: strict_prefix_def)
next
  case (Cons x xs)
  show ?case
  proof (cases ys)
    case (Cons y zs)
    have x: "CHR ''/'' \<notin> set x" "CHR ''/'' \<notin> set y" using Cons.prems Cons by (auto simp: plain_component_def)
    have tw: "takeWhile (\<lambda>c. c \<noteq> CHR ''/'') (x @ abs_text xs @ ''/'' @ r) = x" for r
      using x(1) by (cases xs) (simp_all add: takeWhile_upto)
    have ty: "takeWhile (\<lambda>c. c \<noteq> CHR ''/'') (y @ abs_text zs) = y" using x(2) by (cases zs) (simp_all add: takeWhile_upto)
    have "prefix (x @ abs_text xs @ ''/'') (y @ abs_text zs) \<longleftrightarrow> x = y \<and> prefix (abs_text xs @ ''/'') (abs_text zs)"
    proof
      assume "prefix (x @ abs_text xs @ ''/'') (y @ abs_text zs)"
      then obtain r where r: "y @ abs_text zs = x @ abs_text xs @ ''/'' @ r" by (auto simp: prefix_def)
      then have "y = x" using tw [of r] ty by simp
      then show "x = y \<and> prefix (abs_text xs @ ''/'') (abs_text zs)" using r by (auto simp: prefix_def)
    qed auto
    then show ?thesis using Cons Cons.IH [of zs] Cons.prems by (auto simp: strict_prefix_def)
  qed simp
qed

text \<open>A clean absolute path lies within another exactly when its components begin with the other's.\<close>

lemma pathWithin_components:
  assumes "IsAbs a" "IsAbs b"
  shows "pathWithin (Clean a) (Clean b) \<longleftrightarrow> prefix (clean_components b) (clean_components a)"
proof -
  let ?a = "clean_components a" and ?b = "clean_components b"
  have pl: "list_all plain_component ?a" "list_all plain_component ?b" by (rule clean_components_plain)+
  have hp: "HasPrefix s t \<longleftrightarrow> prefix t s" for s t by (auto simp: HasPrefix_def prefix_def) (metis append_take_drop_id)
  show ?thesis
  proof (cases "?b = []")
    case True
    then show ?thesis using assms by (cases ?a) (auto simp: pathWithin_def Clean_abs hp HasSuffix_def)
  next
    case False
    have last: "\<not> HasSuffix (abs_text ?b) ''/''"
    proof -
      have "list_all plain_component cs \<Longrightarrow> cs \<noteq> [] \<Longrightarrow> \<exists>c r. abs_text cs = r @ [c] \<and> c \<noteq> CHR ''/''" for cs
      proof (induction cs)
        case (Cons d cs)
        show ?case
        proof (cases "cs = []")
          case True
          have "d \<noteq> []" "CHR ''/'' \<notin> set d" using Cons.prems(1) by (auto simp: plain_component_def)
          then show ?thesis using True by (intro exI [of _ "List.last d"] exI [of _ "CHR ''/'' # butlast d"]) (auto dest: last_in_set)
        next
          case False
          then obtain c r where "abs_text cs = r @ [c]" "c \<noteq> CHR ''/''" using Cons by auto
          then show ?thesis by (intro exI [of _ c] exI [of _ "CHR ''/'' # d @ r"]) simp
        qed
      qed simp
      from this [OF pl(2) False] show ?thesis by (auto simp: HasSuffix_def)
    qed
    have inj: "abs_text xs = abs_text ys \<longleftrightarrow> xs = ys" if "list_all plain_component xs" "list_all plain_component ys" for xs ys
    proof -
      have "strict_prefix xs (ys @ [''x'']) \<longleftrightarrow> prefix xs ys" "strict_prefix ys (xs @ [''x'']) \<longleftrightarrow> prefix ys xs" by (auto simp: strict_prefix_def)
      moreover have "prefix (abs_text xs @ ''/'') (abs_text (ys @ [''x'']))" "prefix (abs_text ys @ ''/'') (abs_text (xs @ [''x'']))" if "abs_text xs = abs_text ys"
        using that by (simp_all add: abs_text_def prefix_def)
      ultimately show ?thesis using abs_text_prefix [of xs "ys @ [''x'']"] abs_text_prefix [of ys "xs @ [''x'']"] that
        by (auto simp: plain_component_def intro: prefix_order.antisym)
    qed
    have "Clean a = abs_text ?b \<longleftrightarrow> ?a = ?b"
    proof (cases "?a = []")
      case True
      have "HasSuffix ''/'' ''/''" by (simp add: HasSuffix_def)
      then have "''/'' \<noteq> abs_text ?b" using last by metis
      then show ?thesis using True False assms(1) by (auto simp: Clean_abs)
    qed (use inj [OF pl] assms(1) in \<open>simp add: Clean_abs\<close>)
    moreover have "prefix (abs_text ?b @ ''/'') (Clean a) \<longleftrightarrow> strict_prefix ?b ?a"
    proof (cases "?a = []")
      case True
      then show ?thesis using False assms(1) by (cases ?b) (auto simp: Clean_abs)
    qed (use abs_text_prefix [OF pl(2,1)] assms(1) in \<open>simp add: Clean_abs\<close>)
    moreover have "pathWithin (Clean a) (Clean b) \<longleftrightarrow> Clean a = abs_text ?b \<or> prefix (abs_text ?b @ ''/'') (Clean a)"
      unfolding pathWithin_def hp Clean_abs [OF assms(2)] using False last by simp
    ultimately show ?thesis unfolding strict_prefix_def by (metis prefix_order.order_refl)
  qed
qed

lemma evidence_accepted:
  assumes "validateEvidence c ds = Inr e" "ec_Enabled e"
  obtains carriage where "e = c\<lparr>ec_DeviceCarriage := carriage\<rparr>" "courier_rules c = None" "resolveDeviceCarriage (ec_DeviceCarriage c) ds = Some carriage"
    "DeclaresVersionedCarriage e \<longrightarrow> versioned_rules e ds = None"
proof (cases "ec_Enabled c")
  case True
  then obtain carriage where "courier_rules c = None" "resolveDeviceCarriage (ec_DeviceCarriage c) ds = Some carriage"
    using assms(1) by (auto simp: validateEvidence_def split: option.splits)
  then show thesis using assms(1) True that by (auto simp: validateEvidence_def Let_def split: if_splits option.splits)
qed (use assms in \<open>auto simp: validateEvidence_def\<close>)

text \<open>C21. The gateway's state is apart from the evidence queues. When a configuration with the courier enabled and a state directory loads, the state directory
  is not an evidence queue's directory, nor within one, nor around one, compared component by component after both paths are made
  clean.\<close>

theorem state_directory_apart:
  assumes "Load_config parse_url tz f = Inr cfg" "ec_Enabled (cf_Evidence cfg)" "gc_StateDirectory (cf_Gateway cfg) \<noteq> []"
    and "queue \<in> {ec_QueueDirectory (cf_Evidence cfg), ec_ReturnQueueDirectory (cf_Evidence cfg)}"
  shows "\<not> prefix (clean_components queue) (clean_components (gc_StateDirectory (cf_Gateway cfg)))
    \<and> \<not> prefix (clean_components (gc_StateDirectory (cf_Gateway cfg))) (clean_components queue)"
proof -
  note parts = load_parts [OF assms(1)]
  have st: "IsAbs (gc_StateDirectory (cf_Gateway cfg))" using parts(2) assms(3) by (auto simp: gateway_rules_def split: if_splits)
  obtain carriage where e: "cf_Evidence cfg = (normalizeEvidence (ff_Evidence f))\<lparr>ec_DeviceCarriage := carriage\<rparr>" "courier_rules (normalizeEvidence (ff_Evidence f)) = None"
    using evidence_accepted [OF parts(5) assms(2)] by metis
  have "IsAbs (ec_QueueDirectory (cf_Evidence cfg))" "IsAbs (ec_ReturnQueueDirectory (cf_Evidence cfg))"
    using e by (auto simp: courier_rules_def split: if_splits)
  then have q: "IsAbs queue" using assms(4) by auto
  then have "queue \<noteq> []" by (auto simp: IsAbs_def HasPrefix_def)
  then have "\<not> pathsOverlap (Clean (gc_StateDirectory (cf_Gateway cfg))) (Clean queue)"
    using parts(6) assms(2-4) by (auto simp: validateStateDirectory_def)
  then show ?thesis using pathWithin_components [OF st q] pathWithin_components [OF q st] by (auto simp: pathsOverlap_def)
qed

section \<open>The shares of the queue\<close>

lemma keep_first_distinct: "distinct (keep_first old ds) \<and> set (keep_first old ds) = set ds - set old"
  by (induction old ds rule: keep_first.induct) auto

definition VersionedDevices :: "EvidenceConfig \<Rightarrow> string list" where
  "VersionedDevices c = sorted_list_of_fset (ffilter (\<lambda>d. fmlookup (ec_DeviceCarriage c) d = Some CarriageEvidenceCarriageV1) (fmdom (ec_DeviceCarriage c)))"

text \<open>The options \<open>runGateway\<close> opens the outbound queue with.\<close>

definition outbound_options :: "Config \<Rightarrow> Recorder \<Rightarrow> QueueOptions" where
  "outbound_options cfg evidenceFaults =
     \<lparr>qo_MaxItems = ec_MaxItems (cf_Evidence cfg), qo_MaxBytes = ec_MaxBytes (cf_Evidence cfg), qo_Devices = gc_DeviceIDs (cf_Gateway cfg),
      qo_ReserveDeviceShares = DeclaresVersionedCarriage (cf_Evidence cfg), qo_VersionedDevices = VersionedDevices (cf_Evidence cfg),
      qo_Faults = evidenceFaults, qo_FaultSource = ''outbound''\<rparr>"

lemma load_devices:
  assumes "Load_config parse_url tz f = Inr cfg"
  shows "distinct (gc_DeviceIDs (cf_Gateway cfg))" "gc_DeviceIDs (cf_Gateway cfg) \<noteq> []"
  using load_parts(1,2) [OF assms] keep_first_distinct
  by (auto simp: normalizeGateway_def normalizeGatewayDeviceIDs_def gateway_rules_def split: if_splits)

lemma load_evidence:
  assumes "Load_config parse_url tz f = Inr cfg" "ec_Enabled (cf_Evidence cfg)"
  shows "0 < ec_MaxItems (cf_Evidence cfg)" "0 < ec_MaxBytes (cf_Evidence cfg)"
    "DeclaresVersionedCarriage (cf_Evidence cfg) \<longrightarrow> versioned_rules (cf_Evidence cfg) (gc_DeviceIDs (cf_Gateway cfg)) = None"
proof -
  obtain carriage where e: "cf_Evidence cfg = (normalizeEvidence (ff_Evidence f))\<lparr>ec_DeviceCarriage := carriage\<rparr>"
    "courier_rules (normalizeEvidence (ff_Evidence f)) = None"
    "DeclaresVersionedCarriage (cf_Evidence cfg) \<longrightarrow> versioned_rules (cf_Evidence cfg) (gc_DeviceIDs (cf_Gateway cfg)) = None"
    using evidence_accepted [OF load_parts(5) [OF assms(1)] assms(2)] by metis
  show "0 < ec_MaxItems (cf_Evidence cfg)" "0 < ec_MaxBytes (cf_Evidence cfg)" using e(1,2) by (auto simp: courier_rules_def split: if_splits)
  show "DeclaresVersionedCarriage (cf_Evidence cfg) \<longrightarrow> versioned_rules (cf_Evidence cfg) (gc_DeviceIDs (cf_Gateway cfg)) = None" by (rule e(3))
qed

lemma configured_shares:
  assumes "Load_config parse_url tz f = Inr cfg" "ec_Enabled (cf_Evidence cfg)"
  obtains q where "set_shares (outbound_options cfg fr) (empty_queue (outbound_options cfg fr) d) = Inr q"
    "q_reserved q = DeclaresVersionedCarriage (cf_Evidence cfg)"
    "q_maxItems q = ec_MaxItems (cf_Evidence cfg)" "q_maxBytes q = ec_MaxBytes (cf_Evidence cfg)"
    "q_reserved q \<longrightarrow> MinDeviceShareItems \<le> q_shareItems q \<and> MinDeviceShareBytes \<le> q_shareBytes q
      \<and> int (length (gc_DeviceIDs (cf_Gateway cfg))) * q_shareItems q \<le> q_maxItems q
      \<and> int (length (gc_DeviceIDs (cf_Gateway cfg))) * q_shareBytes q \<le> q_maxBytes q"
proof -
  let ?ids = "gc_DeviceIDs (cf_Gateway cfg)"
  have n: "int (fcard (fset_of_list ?ids)) = int (length ?ids)" "?ids \<noteq> []" "0 < int (length ?ids)"
    using load_devices [OF assms(1)] by (simp_all add: fcard.rep_eq fset_of_list.rep_eq distinct_card)
  have le: "k * (m div k) \<le> m" if "0 < k" for k m :: int
    using that by (metis add_le_same_cancel1 mult_div_mod_eq pos_mod_sign add.commute le_add_same_cancel2)
  show thesis
  proof (cases "DeclaresVersionedCarriage (cf_Evidence cfg)")
    case True
    then have r: "MinDeviceShareItems \<le> ec_MaxItems (cf_Evidence cfg) div int (length ?ids)" "MinDeviceShareBytes \<le> ec_MaxBytes (cf_Evidence cfg) div int (length ?ids)"
      using load_evidence(3) [OF assms] n(2) by (auto simp: versioned_rules_def split: if_splits)
    have "set_shares (outbound_options cfg fr) (empty_queue (outbound_options cfg fr) d)
        = Inr ((empty_queue (outbound_options cfg fr) d)\<lparr>q_reserved := True, q_shareItems := ec_MaxItems (cf_Evidence cfg) div int (length ?ids),
            q_shareBytes := ec_MaxBytes (cf_Evidence cfg) div int (length ?ids)\<rparr>)"
      using True r n by (simp add: set_shares_def empty_queue_def outbound_options_def Let_def)
    then show thesis by (rule that) (use True r le [OF n(3)] in \<open>simp_all add: empty_queue_def outbound_options_def\<close>)
  next
    case False
    have "set_shares (outbound_options cfg fr) (empty_queue (outbound_options cfg fr) d) = Inr (empty_queue (outbound_options cfg fr) d)"
      using False by (simp add: set_shares_def outbound_options_def)
    then show thesis by (rule that) (use False in \<open>simp_all add: empty_queue_def outbound_options_def\<close>)
  qed
qed

lemma openDurableQueue_error:
  assumes "openDurableQueue opts body path d = (Inl e, path', d')" "0 < qo_MaxItems opts" "0 < qo_MaxBytes opts"
    and "ensurePrivateQueueDirectory path d = (e1, p1, d1)" "set_shares opts (empty_queue opts d1) = Inr q"
  shows "e1 = Some e \<or> fst (load q) = Some e"
proof -
  obtain el q1 ep q2 where l: "load q = (el, q1)" "Probe body q1 = (ep, q2)" by fastforce
  have "(case e1 of Some e \<Rightarrow> (Inl e, p1, d1)
      | None \<Rightarrow> (case el of Some e \<Rightarrow> (Inl e, p1, q_disk q1) | None \<Rightarrow> (Inr q2, p1, q_disk q2))) = (Inl e, path', d')"
    unfolding assms(1) [symmetric] openDurableQueue_def assms(4) using assms(2,3,5) l by (simp split: option.splits)
  then show ?thesis using l(1) by (simp split: option.splits)
qed

text \<open>C19. A configuration that loads opens its queue, but for what is on the disk. With the courier enabled, opening the outbound queue fails only because of the
  directory or of what is loaded from it, never because the bounds or the shares of the devices are too small; and the queue that opens
  reserves shares exactly if a device declares the versioned carriage, each share of the least size at least, all of them together
  within the bounds of the queue.\<close>

theorem configured_queue_opens:
  assumes "Load_config parse_url tz f = Inr cfg" "ec_Enabled (cf_Evidence cfg)" "seqs_below d"
    and "openDurableQueue (outbound_options cfg fr) body path d = (r, path', d')"
  shows "case r of
      Inl e \<Rightarrow> fst (ensurePrivateQueueDirectory path d) = Some e
        \<or> (\<exists>d1 q. set_shares (outbound_options cfg fr) (empty_queue (outbound_options cfg fr) d1) = Inr q \<and> fst (load q) = Some e)
    | Inr q \<Rightarrow> q_reserved q = DeclaresVersionedCarriage (cf_Evidence cfg)
        \<and> (q_reserved q \<longrightarrow> MinDeviceShareItems \<le> q_shareItems q \<and> MinDeviceShareBytes \<le> q_shareBytes q
            \<and> int (length (gc_DeviceIDs (cf_Gateway cfg))) * q_shareItems q \<le> q_maxItems q
            \<and> int (length (gc_DeviceIDs (cf_Gateway cfg))) * q_shareBytes q \<le> q_maxBytes q)"
proof (cases r)
  case (Inl e)
  obtain e1 p1 d1 where dir: "ensurePrivateQueueDirectory path d = (e1, p1, d1)" using prod_cases3 by blast
  obtain q where q: "set_shares (outbound_options cfg fr) (empty_queue (outbound_options cfg fr) d1) = Inr q"
    using configured_shares [OF assms(1,2)] by metis
  have "0 < qo_MaxItems (outbound_options cfg fr)" "0 < qo_MaxBytes (outbound_options cfg fr)"
    using load_evidence(1,2) [OF assms(1,2)] by (simp_all add: outbound_options_def)
  then have "e1 = Some e \<or> fst (load q) = Some e" using openDurableQueue_error [OF assms(4) [unfolded Inl] _ _ dir q] by blast
  then show ?thesis using Inl dir q by auto
next
  case (Inr q)
  obtain d1 q0 where q0: "set_shares (outbound_options cfg fr) (empty_queue (outbound_options cfg fr) d1) = Inr q0" "limits q = limits q0"
    using openDurableQueue_limits(3) [OF assms(4) [unfolded Inr] assms(3)] by blast
  have "q_reserved q = q_reserved q0" "q_shareItems q = q_shareItems q0" "q_shareBytes q = q_shareBytes q0" "q_maxItems q = q_maxItems q0" "q_maxBytes q = q_maxBytes q0"
    using q0(2) by (simp_all add: limits_def)
  moreover obtain q1 where q1: "set_shares (outbound_options cfg fr) (empty_queue (outbound_options cfg fr) d1) = Inr q1"
    "q_reserved q1 = DeclaresVersionedCarriage (cf_Evidence cfg)"
    "q_reserved q1 \<longrightarrow> MinDeviceShareItems \<le> q_shareItems q1 \<and> MinDeviceShareBytes \<le> q_shareBytes q1
      \<and> int (length (gc_DeviceIDs (cf_Gateway cfg))) * q_shareItems q1 \<le> q_maxItems q1
      \<and> int (length (gc_DeviceIDs (cf_Gateway cfg))) * q_shareBytes q1 \<le> q_maxBytes q1"
    by (rule configured_shares [OF assms(1,2)])
  moreover have "q1 = q0" using q0(1) q1(1) by simp
  ultimately show ?thesis using Inr by simp
qed

section \<open>A site that declares nothing\<close>

lemma resolved_carriage:
  assumes "resolveDeviceCarriage declared ids = Some carriage"
  shows "CarriageEvidenceCarriageV1 |\<in>| fmran carriage \<longleftrightarrow> CarriageEvidenceCarriageV1 |\<in>| fmran declared"
proof -
  have keys: "d \<in> set ids" if "fmlookup declared d = Some v" for d v
  proof -
    have "d |\<in>| fmdom declared" using that by (rule fmdomI)
    then show ?thesis using assms by (auto simp: resolveDeviceCarriage_def split: if_splits)
  qed
  have c: "fmlookup carriage d = (if d \<in> set ids then Some (fmget CarriageGatewayAPIV1 declared d) else None)" for d
    using assms by (auto simp: resolveDeviceCarriage_def fmlookup_of_list map_of_map_restrict restrict_map_def split: if_splits)
  show ?thesis
  proof
    assume "CarriageEvidenceCarriageV1 |\<in>| fmran carriage"
    then obtain d where "fmlookup carriage d = Some CarriageEvidenceCarriageV1" by (meson fmranE)
    then have "fmget CarriageGatewayAPIV1 declared d = CarriageEvidenceCarriageV1" using c [of d] by (simp split: if_splits)
    then have "fmlookup declared d = Some CarriageEvidenceCarriageV1"
      by (auto simp: fmget_def CarriageGatewayAPIV1_def CarriageEvidenceCarriageV1_def split: option.splits)
    then show "CarriageEvidenceCarriageV1 |\<in>| fmran declared" by (rule fmranI)
  next
    assume "CarriageEvidenceCarriageV1 |\<in>| fmran declared"
    then obtain d where d: "fmlookup declared d = Some CarriageEvidenceCarriageV1" by (meson fmranE)
    then have "fmlookup carriage d = Some CarriageEvidenceCarriageV1" using c [of d] keys [OF d] by (simp add: fmget_def)
    then show "CarriageEvidenceCarriageV1 |\<in>| fmran carriage" by (rule fmranI)
  qed
qed

text \<open>The keys only the versioned carriage consumes.\<close>

definition with_versioned_keys :: "int option \<Rightarrow> int option \<Rightarrow> int option \<Rightarrow> fileConfig \<Rightarrow> fileConfig" where
  "with_versioned_keys base bound interval f =
     f\<lparr>ff_Evidence := (ff_Evidence f)\<lparr>fe_BackoffBaseS := base, fe_BackoffMaxS := bound, fe_StoreProbeIntervalS := interval\<rparr>\<rparr>"

abbreviation without_keys :: "EvidenceConfig \<Rightarrow> EvidenceConfig" where
  "without_keys c \<equiv> c\<lparr>ec_BackoffBaseS := 0, ec_BackoffMaxS := 0, ec_StoreProbeIntervalS := 0\<rparr>"

lemma legacy_validateEvidence:
  assumes "\<not> CarriageEvidenceCarriageV1 |\<in>| fmran (ec_DeviceCarriage c)" "without_keys c' = without_keys c"
  shows "map_sum id without_keys (validateEvidence c' ids) = map_sum id without_keys (validateEvidence c ids)"
    and "validateEvidence c ids = Inr e \<Longrightarrow> \<not> DeclaresVersionedCarriage e"
proof -
  have same: "ec_Enabled c' = ec_Enabled c" "courier_rules c' = courier_rules c" "ec_DeviceCarriage c' = ec_DeviceCarriage c"
    using assms(2) by (cases c; cases c'; simp add: courier_rules_def)+
  show "validateEvidence c ids = Inr e \<Longrightarrow> \<not> DeclaresVersionedCarriage e"
    using assms(1) resolved_carriage [of "ec_DeviceCarriage c" ids]
    by (auto simp: validateEvidence_def DeclaresVersionedCarriage_def Let_def split: if_splits option.splits)
  have "\<not> CarriageEvidenceCarriageV1 |\<in>| fmran carriage" if "resolveDeviceCarriage (ec_DeviceCarriage c) ids = Some carriage" for carriage
    using resolved_carriage [OF that] assms(1) by simp
  moreover have "without_keys (c'\<lparr>ec_DeviceCarriage := x\<rparr>) = without_keys (c\<lparr>ec_DeviceCarriage := x\<rparr>)" for x
    using assms(2) by (cases c; cases c') simp
  ultimately show "map_sum id without_keys (validateEvidence c' ids) = map_sum id without_keys (validateEvidence c ids)"
    by (auto simp: validateEvidence_def DeclaresVersionedCarriage_def Let_def same split: option.splits)
qed

text \<open>The keys of the versioned carriage change nothing at a site that declares none. Where the file names no device with the versioned
  carriage, any values of \<open>backoff_base_s\<close>, \<open>backoff_max_s\<close> and \<open>store_probe_interval_s\<close> are accepted or refused alike, with the same error,
  and the back-off, the probe interval and everything else the gateway runs with stay the same.\<close>

theorem legacy_site_unaffected:
  assumes "\<not> CarriageEvidenceCarriageV1 |\<in>| fmran (fe_DeviceCarriage (ff_Evidence f))"
  shows "case (Load_config parse_url tz f, Load_config parse_url tz (with_versioned_keys base bound interval f)) of
      (Inl e, Inl e') \<Rightarrow> e' = e
    | (Inr cfg, Inr cfg') \<Rightarrow> cfg'\<lparr>cf_Evidence := without_keys (cf_Evidence cfg')\<rparr> = cfg\<lparr>cf_Evidence := without_keys (cf_Evidence cfg)\<rparr>
        \<and> Backoff (cf_Evidence cfg') = Backoff (cf_Evidence cfg) \<and> StoreProbeInterval (cf_Evidence cfg') = StoreProbeInterval (cf_Evidence cfg)
    | _ \<Rightarrow> False"
proof -
  let ?f' = "with_versioned_keys base bound interval f"
  let ?c = "normalizeEvidence (ff_Evidence f)"
  let ?c' = "normalizeEvidence (ff_Evidence ?f')"
  let ?ids = "gc_DeviceIDs (normalizeGateway (ff_Gateway f))"
  have undeclared: "\<not> CarriageEvidenceCarriageV1 |\<in>| fmran (ec_DeviceCarriage ?c)"
    using assms by (simp add: normalizeEvidence_def Let_def)
  have keys: "without_keys ?c' = without_keys ?c"
    by (simp add: normalizeEvidence_def with_versioned_keys_def Let_def)
  have undeclared': "\<not> CarriageEvidenceCarriageV1 |\<in>| fmran (ec_DeviceCarriage ?c')"
    using assms by (simp add: normalizeEvidence_def with_versioned_keys_def Let_def)
  note v = legacy_validateEvidence(1) [OF undeclared keys, of ?ids]
  have other: "ff_Gateway ?f' = ff_Gateway f" "ff_Provider ?f' = ff_Provider f" "ff_ProviderTimeoutMS ?f' = ff_ProviderTimeoutMS f" "ff_Reporting ?f' = ff_Reporting f"
    "ff_WebhookBridge ?f' = ff_WebhookBridge f" "ff_SIM ?f' = ff_SIM f" "ff_Fleet ?f' = ff_Fleet f" "ff_SiteHealth ?f' = ff_SiteHealth f"
    by (simp_all add: with_versioned_keys_def)
  show ?thesis
  proof (cases "validateEvidence ?c ?ids")
    case (Inl e)
    then have "validateEvidence ?c' ?ids = Inl e" using v by (cases "validateEvidence ?c' ?ids") simp_all
    then show ?thesis using Inl unfolding Load_config_def normalize_config_def Let_def other
      by (simp split: option.splits)
  next
    case (Inr e)
    then obtain e' where e': "validateEvidence ?c' ?ids = Inr e'" "without_keys e' = without_keys e"
      using v by (cases "validateEvidence ?c' ?ids") simp_all
    have n: "\<not> DeclaresVersionedCarriage e" "\<not> DeclaresVersionedCarriage e'"
      using legacy_validateEvidence(2) [OF undeclared keys Inr] legacy_validateEvidence(2) [OF undeclared' refl e'(1)] by simp_all
    have f: "ec_RetryIntervalS e' = ec_RetryIntervalS e" "ec_Enabled e' = ec_Enabled e"
      "ec_QueueDirectory e' = ec_QueueDirectory e" "ec_ReturnQueueDirectory e' = ec_ReturnQueueDirectory e"
      using e'(2) by (cases e; cases e'; simp)+
    show ?thesis unfolding Load_config_def normalize_config_def Let_def other Inr e'(1)
      by (simp add: n f e'(2) validateStateDirectory_def Backoff_def StoreProbeInterval_def split: option.splits) blast
  qed
qed

section \<open>The secrets\<close>

text \<open>The environment is a function from the names of variables to their values, empty where one is not set.\<close>

record gatewayAuthSecrets =
  gs_Enabled :: bool
  gs_CurrentSecret :: string
  gs_PreviousSecret :: string

datatype secretError =
    SharedSecretEmpty string | PreviousSecretEmpty string | PreviousSecretSame
  | CustodySecretEmpty string | CustodySecretShared | CustodySigner custodyError
  | EvidenceNeedsCustody | EvidenceValueEmpty | EvidenceSecretSpaced | EvidenceSecretShared

definition gatewayAuthSecretsFromConfig :: "(string \<Rightarrow> string) \<Rightarrow> GatewayConfig \<Rightarrow> secretError + gatewayAuthSecrets" where
  "gatewayAuthSecretsFromConfig getenv g =
     (if \<not> gc_AuthEnabled g then Inr \<lparr>gs_Enabled = False, gs_CurrentSecret = [], gs_PreviousSecret = []\<rparr>
      else
        let envName = (if TrimSpace (gc_SharedSecretEnv g) = [] then ''GATEWAY_SHARED_SECRET'' else TrimSpace (gc_SharedSecretEnv g));
            secret = TrimSpace (getenv envName);
            previousEnv = TrimSpace (gc_PreviousSharedSecretEnv g);
            previousSecret = (if previousEnv = [] then [] else TrimSpace (getenv previousEnv))
        in if secret = [] then Inl (SharedSecretEmpty envName)
           else if previousEnv \<noteq> [] \<and> previousSecret = [] then Inl (PreviousSecretEmpty previousEnv)
           else if previousEnv \<noteq> [] \<and> previousSecret = secret then Inl PreviousSecretSame
           else Inr \<lparr>gs_Enabled = True, gs_CurrentSecret = secret, gs_PreviousSecret = previousSecret\<rparr>)"

definition resolveCustodySecret :: "(string \<Rightarrow> string) \<Rightarrow> string \<Rightarrow> gatewayAuthSecrets \<Rightarrow> secretError + string" where
  "resolveCustodySecret getenv secretEnv envelope =
     (let envName = TrimSpace secretEnv; secret = getenv envName
      in if envName = [] then Inr []
         else if secret = [] then Inl (CustodySecretEmpty envName)
         else if secret = gs_CurrentSecret envelope \<or> gs_PreviousSecret envelope \<noteq> [] \<and> secret = gs_PreviousSecret envelope
         then Inl CustodySecretShared
         else Inr secret)"

record resolvedEvidenceChannel =
  re_endpoint :: string
  re_clientID :: string
  re_secret :: string

definition resolveEvidenceChannel :: "(string \<Rightarrow> string) \<Rightarrow> EvidenceConfig \<Rightarrow> gatewayAuthSecrets \<Rightarrow> string \<Rightarrow> secretError + resolvedEvidenceChannel" where
  "resolveEvidenceChannel getenv cfg envelope custodySecret =
     (let endpoint = TrimSpace (getenv (ec_EndpointEnv cfg)); clientID = TrimSpace (getenv (ec_ClientIDEnv cfg)); secret = getenv (ec_SecretEnv cfg)
      in if [] \<in> {endpoint, clientID, secret} then Inl EvidenceValueEmpty
         else if TrimSpace secret \<noteq> secret then Inl EvidenceSecretSpaced
         else if secret = custodySecret \<or> secret = gs_CurrentSecret envelope \<or> gs_PreviousSecret envelope \<noteq> [] \<and> secret = gs_PreviousSecret envelope
         then Inl EvidenceSecretShared
         else Inr \<lparr>re_endpoint = endpoint, re_clientID = clientID, re_secret = secret\<rparr>)"

text \<open>How \<open>runGateway\<close> resolves them: the signer of custody is built where custody is configured, and the evidence courier asks for it and for the
  authenticated envelope.\<close>

definition startup_secrets ::
  "(string \<Rightarrow> string) \<Rightarrow> Config \<Rightarrow> secretError + gatewayAuthSecrets \<times> Signer option \<times> resolvedEvidenceChannel option" where
  "startup_secrets getenv cfg =
     (case gatewayAuthSecretsFromConfig getenv (cf_Gateway cfg) of Inl e \<Rightarrow> Inl e
      | Inr gatewaySecrets \<Rightarrow>
     (case resolveCustodySecret getenv (gc_CustodySecretEnv (cf_Gateway cfg)) gatewaySecrets of Inl e \<Rightarrow> Inl e
      | Inr custodySecret \<Rightarrow>
     (case (if custodySecret = [] then Inr None else map_sum CustodySigner Some (NewSigner custodySecret)) of Inl e \<Rightarrow> Inl e
      | Inr custodySigner \<Rightarrow>
          if \<not> ec_Enabled (cf_Evidence cfg) then Inr (gatewaySecrets, custodySigner, None)
          else if \<not> gs_Enabled gatewaySecrets \<or> custodySigner = None then Inl EvidenceNeedsCustody
          else map_sum id (\<lambda>channel. (gatewaySecrets, custodySigner, Some channel))
                 (resolveEvidenceChannel getenv (cf_Evidence cfg) gatewaySecrets custodySecret))))"

lemma map_sum_Inr [simp]: "map_sum f g x = Inr y \<longleftrightarrow> (\<exists>z. x = Inr z \<and> y = g z)"
  by (cases x) auto

lemma authSecrets_accepted:
  assumes "gatewayAuthSecretsFromConfig getenv g = Inr s" "gs_Enabled s"
  shows "gs_CurrentSecret s \<noteq> []" "gs_PreviousSecret s \<noteq> [] \<longrightarrow> gs_PreviousSecret s \<noteq> gs_CurrentSecret s"
    "gs_PreviousSecret s = [] \<longleftrightarrow> TrimSpace (gc_PreviousSharedSecretEnv g) = []"
  using assms by (auto simp: gatewayAuthSecretsFromConfig_def Let_def split: if_splits)

lemma NewSigner_accepted: "NewSigner secret = Inr signer \<Longrightarrow> sg_secret signer = secret \<and> secret \<noteq> [] \<and> TrimSpace secret = secret"
  by (auto simp: NewSigner_def DeriveKeyID_def validateCustodySecret_def split: if_splits sum.splits option.splits)

text \<open>C20. The secrets are separate. Whenever the evidence courier starts, the secret of the ingest channel, the secret custody is signed with, the secret
  of the envelopes and, where one is configured, the previous secret of the envelopes are four different non-empty strings, whatever
  names the environment has for them; the first two carry no surrounding white space.\<close>

theorem secrets_are_separate:
  assumes "startup_secrets getenv cfg = Inr (s, signer, Some channel)"
  shows "\<exists>k. signer = Some k
    \<and> distinct ([re_secret channel, sg_secret k, gs_CurrentSecret s] @ (if TrimSpace (gc_PreviousSharedSecretEnv (cf_Gateway cfg)) = [] then [] else [gs_PreviousSecret s]))
    \<and> [] \<notin> set ([re_secret channel, sg_secret k, gs_CurrentSecret s] @ (if TrimSpace (gc_PreviousSharedSecretEnv (cf_Gateway cfg)) = [] then [] else [gs_PreviousSecret s]))
    \<and> TrimSpace (re_secret channel) = re_secret channel \<and> TrimSpace (sg_secret k) = sg_secret k"
proof -
  obtain custodySecret where s: "gatewayAuthSecretsFromConfig getenv (cf_Gateway cfg) = Inr s"
    and c: "resolveCustodySecret getenv (gc_CustodySecretEnv (cf_Gateway cfg)) s = Inr custodySecret"
    using assms by (auto simp: startup_secrets_def split: sum.splits if_splits)
  obtain k where k: "signer = Some k" "NewSigner custodySecret = Inr k" "gs_Enabled s"
    and ch: "resolveEvidenceChannel getenv (cf_Evidence cfg) s custodySecret = Inr channel"
    using assms s c
    by (cases "NewSigner custodySecret"; cases "resolveEvidenceChannel getenv (cf_Evidence cfg) s custodySecret")
      (auto simp: startup_secrets_def split: if_splits)
  note sk = NewSigner_accepted [OF k(2)]
  have ck: "custodySecret \<noteq> gs_CurrentSecret s" "gs_PreviousSecret s \<noteq> [] \<longrightarrow> custodySecret \<noteq> gs_PreviousSecret s"
    using c sk by (auto simp: resolveCustodySecret_def Let_def split: if_splits)
  have "re_secret channel \<noteq> []" "TrimSpace (re_secret channel) = re_secret channel"
    "re_secret channel \<noteq> custodySecret" "re_secret channel \<noteq> gs_CurrentSecret s" "gs_PreviousSecret s \<noteq> [] \<longrightarrow> re_secret channel \<noteq> gs_PreviousSecret s"
    using ch by (auto simp: resolveEvidenceChannel_def Let_def split: if_splits)
  then show ?thesis using k(1) sk ck authSecrets_accepted [OF s k(3)] by auto
qed

section \<open>An example\<close>

text \<open>A site of two devices, one with the versioned carriage, and its environment.\<close>

definition no_url :: "string \<Rightarrow> (string \<times> string) option" where "no_url _ = None"
definition no_tz :: "string \<Rightarrow> bool" where "no_tz _ = False"

definition sample_reporting :: ReportingConfig where
  "sample_reporting = \<lparr>rc_Provider = [], rc_GeminiAPIKeyEnv = [], rc_GeminiModel = [], rc_GeminiBaseURL = [],
     rc_WeeklyReport = \<lparr>wr_Enabled = False, wr_Day = [], wr_Time = [], wr_Timezone = [], wr_DeviceID = [], wr_SensorIDs = [], wr_CustomerName = [],
       wr_SiteName = [], wr_FileEnabled = False, wr_FilePath = [], wr_CloudEnabled = False, wr_CloudEndpoint = [], wr_CloudAuthEnv = []\<rparr>,
     rc_TierCEnabled = False\<rparr>"

definition sample_file :: "(string, string) fmap \<Rightarrow> fileConfig" where
  "sample_file carriage =
     \<lparr>ff_Gateway = \<lparr>fg_BrokerURL = ''tcp://broker:1883'', fg_DeviceIDs = [''pump-1'', ''pump-2'', ''pump-1''], fg_HeartbeatIntervalS = None, fg_AuthEnabled = True,
        fg_SharedSecretEnv = [], fg_PreviousSharedSecretEnv = '' OLD'', fg_CustodySecretEnv = ''CUSTODY'', fg_EncryptionEnabled = True,
        fg_StateDirectory = ''/var/lib/ori/state''\<rparr>,
      ff_Provider = \<lparr>pc_Name = ''echo'', pc_TimeoutMS = 0, pc_LlamaURL = [], pc_LlamaModel = [], pc_Vendor = [], pc_APIKeyEnv = [], pc_Model = [], pc_BaseURL = []\<rparr>,
      ff_ProviderTimeoutMS = None, ff_Reporting = sample_reporting,
      ff_WebhookBridge = \<lparr>fw_Enabled = False, fw_ListenAddr = [], fw_Path = [], fw_TargetURL = [], fw_ProviderSourceCIDRs = [], fw_RuntimeTokenEnv = [],
        fw_HMACSecretEnv = [], fw_RequestTimeoutMS = None, fw_MaxBodyBytes = None, fw_SenderPerMinute = None, fw_SenderBurst = None,
        fw_GlobalPerMinute = None, fw_GlobalBurst = None, fw_MaxSenders = None\<rparr>,
      ff_SIM = \<lparr>sm_Enabled = False, sm_ModemPath = []\<rparr>, ff_Fleet = \<lparr>fc_Enabled = False, fc_CloudURL = []\<rparr>,
      ff_SiteHealth = \<lparr>sh_Enabled = True, sh_ListenAddr = []\<rparr>,
      ff_Evidence = \<lparr>fe_Enabled = True, fe_QueueDirectory = ''/var/lib/ori/state-out'', fe_ReturnQueueDirectory = ''/var/lib/ori//returns/'',
        fe_MaxItems = Some 4, fe_MaxBytes = Some 10000000, fe_RetryIntervalS = None, fe_BackoffBaseS = None, fe_BackoffMaxS = None, fe_StoreProbeIntervalS = None,
        fe_EndpointEnv = ''ENDPOINT'', fe_ClientIDEnv = ''CLIENT'', fe_SecretEnv = ''INGEST'', fe_AuthorityCAFile = [], fe_DeviceCarriage = carriage\<rparr>\<rparr>"

definition sample_site :: fileConfig where
  "sample_site = sample_file (fmap_of_list [(''pump-2'', ''gateway-evidence-carriage/v1'')])"

definition sample_config :: Config where
  "sample_config = (case Load_config no_url no_tz sample_site of Inr cfg \<Rightarrow> cfg)"

definition sample_env :: "string \<Rightarrow> string" where
  "sample_env name = fmget [] (fmap_of_list [(''GATEWAY_SHARED_SECRET'', ''new ''), (''OLD'', ''old''), (''CUSTODY'', ''custody''),
     (''ENDPOINT'', ''https://ingest''), (''CLIENT'', ''site-1''), (''INGEST'', ''ingest'')]) name"

lemma sample_site_loads: "Load_config no_url no_tz sample_site = Inr sample_config"
proof -
  have "\<not> isl (Load_config no_url no_tz sample_site)" by code_simp
  then show ?thesis by (cases "Load_config no_url no_tz sample_site") (simp_all add: sample_config_def)
qed

lemma sample_config_evidence:
  "ec_Enabled (cf_Evidence sample_config)" "gc_StateDirectory (cf_Gateway sample_config) = ''/var/lib/ori/state''"
  "ec_QueueDirectory (cf_Evidence sample_config) = ''/var/lib/ori/state-out''" "DeclaresVersionedCarriage (cf_Evidence sample_config)"
  by code_simp+

theorem state_directory_apart_witness:
  "\<not> prefix (clean_components ''/var/lib/ori/state-out'') (clean_components ''/var/lib/ori/state'')
    \<and> \<not> prefix (clean_components ''/var/lib/ori/state'') (clean_components ''/var/lib/ori/state-out'')"
  using state_directory_apart [OF sample_site_loads, of "''/var/lib/ori/state-out''"] sample_config_evidence by simp

theorem configured_queue_opens_witness:
  "\<exists>q p d. openDurableQueue (outbound_options sample_config NewRecorder) ''probe'' NoDir no_disk = (Inr q, p, d)
     \<and> q_reserved q \<and> MinDeviceShareItems \<le> q_shareItems q \<and> MinDeviceShareBytes \<le> q_shareBytes q"
proof -
  have "case openDurableQueue (outbound_options sample_config NewRecorder) ''probe'' NoDir no_disk of (r, p, d) \<Rightarrow> \<not> isl r" by code_simp
  then obtain q p d where o: "openDurableQueue (outbound_options sample_config NewRecorder) ''probe'' NoDir no_disk = (Inr q, p, d)"
    by (auto split: prod.splits) (metis isl_def sum.exhaust)
  show ?thesis using configured_queue_opens [OF sample_site_loads sample_config_evidence(1) no_disk_below o] o sample_config_evidence(4) by simp
qed

definition legacy_file :: fileConfig where
  "legacy_file = sample_file (fmap_of_list [(''pump-2'', ''gateway-api/v1'')])"

theorem legacy_site_unaffected_witness:
  "case (Load_config no_url no_tz legacy_file, Load_config no_url no_tz (with_versioned_keys (Some 1) (Some 0) (Some 7) legacy_file)) of
     (Inr cfg, Inr cfg') \<Rightarrow> Backoff (cf_Evidence cfg') = Backoff (cf_Evidence cfg) \<and> StoreProbeInterval (cf_Evidence cfg') = StoreProbeInterval (cf_Evidence cfg)
   | _ \<Rightarrow> False"
proof -
  have u: "\<not> CarriageEvidenceCarriageV1 |\<in>| fmran (fe_DeviceCarriage (ff_Evidence legacy_file))" by code_simp
  have l: "\<not> isl (Load_config no_url no_tz legacy_file)" by code_simp
  show ?thesis using legacy_site_unaffected [OF u, of no_url no_tz "Some 1" "Some 0" "Some 7"] l
    by (auto split: sum.splits)
qed

theorem secrets_are_separate_witness:
  "\<exists>s k channel. startup_secrets sample_env sample_config = Inr (s, Some k, Some channel)
     \<and> distinct [re_secret channel, sg_secret k, gs_CurrentSecret s, gs_PreviousSecret s]"
proof -
  have s: "gatewayAuthSecretsFromConfig sample_env (cf_Gateway sample_config) = Inr \<lparr>gs_Enabled = True, gs_CurrentSecret = ''new'', gs_PreviousSecret = ''old''\<rparr>" by code_simp
  have c: "resolveCustodySecret sample_env (gc_CustodySecretEnv (cf_Gateway sample_config)) \<lparr>gs_Enabled = True, gs_CurrentSecret = ''new'', gs_PreviousSecret = ''old''\<rparr>
    = Inr ''custody''" by code_simp
  have "TrimSpace ''custody'' = ''custody''" by code_simp
  then obtain k where k: "NewSigner ''custody'' = Inr k" by (auto simp: NewSigner_def DeriveKeyID_def validateCustodySecret_def)
  have e: "resolveEvidenceChannel sample_env (cf_Evidence sample_config) \<lparr>gs_Enabled = True, gs_CurrentSecret = ''new'', gs_PreviousSecret = ''old''\<rparr> ''custody''
    = Inr \<lparr>re_endpoint = ''https://ingest'', re_clientID = ''site-1'', re_secret = ''ingest''\<rparr>" by code_simp
  have p: "TrimSpace (gc_PreviousSharedSecretEnv (cf_Gateway sample_config)) \<noteq> []" by code_simp
  have "startup_secrets sample_env sample_config = Inr (\<lparr>gs_Enabled = True, gs_CurrentSecret = ''new'', gs_PreviousSecret = ''old''\<rparr>, Some k,
      Some \<lparr>re_endpoint = ''https://ingest'', re_clientID = ''site-1'', re_secret = ''ingest''\<rparr>)"
    by (simp add: startup_secrets_def s c k e sample_config_evidence)
  from this secrets_are_separate [OF this] show ?thesis using p by auto
qed

end
