(* ===== verification/Json_Size.thy ===== *)
theory Json_Size
  imports Verifier Queue_Codec
begin

text \<open>
  The size of what is written: the text of a string is at most six bytes for each of its characters, and the auth object of a
  signed message has a bounded size.
\<close>

lemma u_escape_length: "length (u_escape u) = 6"
  by (simp add: u_escape_def)

lemma escape_ascii_length: "length (escape_ascii c) \<le> 6"
  by (simp add: escape_ascii_def u_escape_length)

lemma decodeRune_width: "s \<noteq> [] \<Longrightarrow> snd (decodeRune s) \<le> 4"
  by (auto simp: decodeRune_def split: list.splits option.splits prod.splits if_splits)

lemma quote_raw_length: "length (quote_raw s) \<le> 6 * length (runes s)"
proof (induction s rule: quote_raw.induct)
  case (1 s)
  show ?case
  proof (cases s)
    case (Cons c t)
    obtain r n where d: "decodeRune s = (r, n)" by fastforce
    have n: "1 \<le> n" "n \<le> length s" "n \<le> 4" using decodeRune_size [of s] decodeRune_width [of s] d Cons by auto
    have rs: "length (runes s) = Suc (length (runes (drop n s)))" using runes_step [OF d _ n(1)] Cons by simp
    show ?thesis
    proof (cases "byte c < 128")
      case True
      then have "n = 1" using d Cons by simp
      then have "length (quote_raw t) \<le> 6 * length (runes t)" "runes (drop n s) = runes t" using 1(1) [OF Cons True] Cons by simp_all
      then show ?thesis using True rs escape_ascii_length [of c] Cons by (subst quote_raw.simps) simp
    next
      case False
      have m: "max 1 n = n" using n by simp
      have ih: "length (quote_raw (drop n s)) \<le> 6 * length (runes (drop n s))" using 1(2) [OF Cons False d [symmetric]] m by simp
      have "quote_raw s = (if r = RuneError \<and> n = 1 then u_escape RuneError else if r = 8232 \<or> r = 8233 then u_escape r else take n s) @ quote_raw (drop n s)"
        using False d Cons m by (subst quote_raw.simps) (simp del: decodeRune_ascii)
      then have "length (quote_raw s) \<le> 6 + length (quote_raw (drop n s))" using n by (simp add: u_escape_length)
      then show ?thesis using ih rs by simp
    qed
  qed (simp add: quote_raw.simps)
qed

lemma runes_le: "length (runes s) \<le> length s"
proof (induction s rule: runes.induct)
  case (1 s)
  show ?case
  proof (cases s)
    case (Cons c t)
    obtain r n where d: "decodeRune s = (r, n)" by fastforce
    have n: "1 \<le> n" "n \<le> length s" using decodeRune_size [of s] d Cons by auto
    have "length (runes s) = Suc (length (runes (drop n s)))" using runes_step [OF d _ n(1)] Cons by simp
    moreover have "length (runes (drop n s)) \<le> length (drop n s)" using 1 [OF Cons d [symmetric]] n by (simp add: max_def split: if_splits)
    ultimately show ?thesis using n by simp
  qed (simp add: runes.simps)
qed

section \<open>Signatures\<close>

lemma hmac_length: "length (hmac_sha256 k m) = 32"
  by (simp add: hmac_sha256_def Let_def sha256_length)

lemma hex_length: "length (hex_encode s) = 2 * length s"
  by (induction s) (simp_all add: hex_encode_def)

lemma itoa_width: "- (10 ^ 19) < i \<Longrightarrow> i < 10 ^ 19 \<Longrightarrow> length (itoa i) \<le> 20"
  using dec_length [of i 19] dec_length [of "- i" 19] by (auto simp: itoa_def)

lemma quote_plain: "plain s \<Longrightarrow> length (quote_raw s) = length s"
  by simp

lemma sign_auth:
  assumes "Sign canonical v mt dev rid t secret = Inr auth"
  shows "Scheme auth = HeartbeatAuthScheme" "SignedAtMS auth = t" "0 < t" "length (quote_raw (Signature auth)) = 76"
proof -
  obtain canon where a: "auth = \<lparr>Scheme = HeartbeatAuthScheme, SignedAtMS = t,
      Signature = signaturePrefix @ computeSignature (TrimSpace secret) (SigningInput mt dev rid t canon)\<rparr>" "0 < t"
    using assms by (auto simp: Sign_def Let_def split: if_splits option.splits)
  then show "Scheme auth = HeartbeatAuthScheme" "SignedAtMS auth = t" "0 < t" by simp_all
  have "plain (Signature auth)" "length (Signature auth) = 76"
    using a auth_plain hex_plain by (simp_all add: computeSignature_def hex_length hmac_length signaturePrefix_def)
  then show "length (quote_raw (Signature auth)) = 76" by simp
qed

lemma auth_size:
  assumes "Sign canonical v mt dev rid t secret = Inr auth" "t < 10 ^ 19"
  shows "length (print_json (auth_json auth)) \<le> 200"
proof -
  note s = sign_auth [OF assms(1)]
  have "quote_raw HeartbeatAuthScheme = HeartbeatAuthScheme" using auth_plain by (simp add: HeartbeatAuthScheme_def)
  then have "length (print_json (auth_json auth)) \<le> length (itoa t) + 150"
    using s by (simp add: auth_json_def JString_def quoted_def HeartbeatAuthScheme_def)
  then show ?thesis using itoa_width [of t] s(3) assms(2) by simp
qed

end
