(* ===== verification/Go_Ftoa.thy ===== *)
theory Go_Ftoa
  imports Go_Float Go_Json
begin

text \<open>
  \<open>float64\<close> values as JSON has them: the numbers \<open>strconv.ParseFloat\<close> accepts, and the text \<open>encoding/json\<close> writes, the shortest decimal that reads back
  as the same number. The programs here write numbers of at least a thousandth of a thousandth, so the subnormal
  numbers are not reached; the infinities and NaN are.
\<close>

section \<open>Values\<close>

text \<open>A number is its sign and its magnitude, so that there are two zeros.\<close>

datatype float64 = NaN | Inf bool | Num bool rat

definition of_magnitude :: "bool \<Rightarrow> rat \<Rightarrow> float64" where
  "of_magnitude neg m = (let r = fl64 m in if 2 ^ 1024 \<le> r then Inf neg else Num neg r)"

text \<open>A product and a quotient with a positive number, and \<open>math.Round\<close>, which rounds halves away from zero.\<close>

fun float_times :: "float64 \<Rightarrow> rat \<Rightarrow> float64" where
  "float_times (Num neg m) k = of_magnitude neg (m * k)"
| "float_times x k = x"

fun float_over :: "float64 \<Rightarrow> rat \<Rightarrow> float64" where
  "float_over (Num neg m) k = of_magnitude neg (m / k)"
| "float_over x k = x"

fun math_Round :: "float64 \<Rightarrow> float64" where
  "math_Round (Num neg m) = Num neg (of_int \<lfloor>m + 1 / 2\<rfloor>)"
| "math_Round x = x"

section \<open>Reading\<close>

text \<open>The value of a JSON number: an optional sign, digits, a fraction and an exponent.\<close>

definition decimal_value :: "string \<Rightarrow> rat" where
  "decimal_value r =
     (let s = (if HasPrefix r ''-'' then drop 1 r else r);
          whole = takeWhile is_digit s; t = drop (length whole) s;
          frac = (if HasPrefix t ''.'' then takeWhile is_digit (drop 1 t) else []);
          u = (if HasPrefix t ''.'' then drop (length frac + 1) t else t);
          e = drop 1 u;
          ex = (if u = [] then 0 else if HasPrefix e ''-'' then - dec_val (drop 1 e) else if HasPrefix e ''+'' then dec_val (drop 1 e) else dec_val e)
      in of_int (dec_val (whole @ frac)) * 10 powi (ex - int (length frac)))"

text \<open>\<open>ParseFloat\<close> refuses only a number whose rounding is beyond the largest float.\<close>

definition float_in_range :: "string \<Rightarrow> bool" where
  "float_in_range r \<longleftrightarrow> fl64 (decimal_value r) < 2 ^ 1024"

section \<open>Writing\<close>

text \<open>The greatest \<open>e\<close> with \<open>10 ^ e \<le> x\<close>.\<close>

definition floor_log10 :: "rat \<Rightarrow> int" where
  "floor_log10 x =
     (case quotient_of x of (p, q) \<Rightarrow>
        let k = int (length (dec p)) - int (length (dec q))
        in if 10 powi k \<le> x then k else k - 1)"

text \<open>The decimal of so many digits that reads back as \<open>x\<close>, the nearest one if it does.\<close>

definition digits_at :: "rat \<Rightarrow> int \<Rightarrow> int option" where
  "digits_at x n =
     (let u = 10 powi (floor_log10 x - n + 1); near = round_even (x / u); lo = \<lfloor>x / u\<rfloor>; other = (if near = lo then lo + 1 else lo)
      in if fl64 (of_int near * u) = x then Some near
         else if fl64 (of_int other * u) = x then Some other else None)"

text \<open>The shortest digits and the place of the point: the value is the digits behind a point, times ten to the place.\<close>

definition shortest :: "rat \<Rightarrow> string \<times> int" where
  "shortest x =
     (let n = (case find (\<lambda>n. digits_at x n \<noteq> None) [1..16] of None \<Rightarrow> 17 | Some n \<Rightarrow> n);
          d = (case digits_at x n of None \<Rightarrow> round_even (x / 10 powi (floor_log10 x - 16)) | Some d \<Rightarrow> d);
          ds = dec d
      in (rev (dropWhile (\<lambda>c. c = CHR ''0'') (rev ds)), int (length ds) + floor_log10 x - n + 1))"

definition format_f :: "string \<Rightarrow> int \<Rightarrow> string" where
  "format_f ds dp =
     (if dp \<le> 0 then ''0.'' @ replicate (nat (- dp)) (CHR ''0'') @ ds
      else if int (length ds) \<le> dp then ds @ replicate (nat (dp - int (length ds))) (CHR ''0'')
      else take (nat dp) ds @ CHR ''.'' # drop (nat dp) ds)"

definition format_e :: "string \<Rightarrow> int \<Rightarrow> string" where
  "format_e ds dp =
     take 1 ds @ (if length ds \<le> 1 then [] else CHR ''.'' # drop 1 ds) @ CHR ''e'' # (if dp \<le> 0 then CHR ''-'' # dec (1 - dp) else CHR ''+'' # dec (dp - 1))"

text \<open>What \<open>Marshal\<close> writes for a \<open>float64\<close>; it refuses what is not a number.\<close>

fun marshal_float :: "float64 \<Rightarrow> string option" where
  "marshal_float (Num neg m) =
     (let (ds, dp) = shortest m
      in Some ((if neg then ''-'' else []) @ (if m = 0 then ''0'' else if m < 1 / 1000000 \<or> 10 ^ 21 \<le> m then format_e ds dp else format_f ds dp)))"
| "marshal_float x = None"

section \<open>Rounded decimals\<close>

text \<open>Rounding to so many parts of one gives zero or at least one part, when one part is not rounded down.\<close>

lemma rounded_parts:
  assumes "float_over (math_Round (float_times x k)) k = Num neg r" "0 < k" "1 / k \<le> fl64 (1 / k)"
    and "\<And>s m. x = Num s m \<Longrightarrow> 0 \<le> m"
  shows "r = 0 \<or> 1 / k \<le> r"
proof -
  obtain s m n where x: "x = Num s m" "float_times x k = Num s n"
    using assms(1) by (cases x; cases "float_times x k") (auto simp: of_magnitude_def Let_def split: if_splits)
  have n: "0 \<le> n" using x assms(2,4) by (auto simp: of_magnitude_def Let_def split: if_splits)
  have r: "r = fl64 (of_int \<lfloor>n + 1 / 2\<rfloor> / k)" using assms(1) x by (auto simp: of_magnitude_def Let_def split: if_splits)
  show ?thesis
  proof (cases "\<lfloor>n + 1 / 2\<rfloor> \<le> 0")
    case True
    then have "\<lfloor>n + 1 / 2\<rfloor> = 0" using n by linarith
    then show ?thesis using r by simp
  next
    case False
    then have "1 \<le> (of_int \<lfloor>n + 1 / 2\<rfloor> :: rat)" by simp
    then have "1 / k \<le> of_int \<lfloor>n + 1 / 2\<rfloor> / k" using assms(2) by (simp add: divide_right_mono)
    then have "fl64 (1 / k) \<le> r" unfolding r using assms(2) by (intro fl64_mono) simp_all
    then show ?thesis using assms(3) by simp
  qed
qed

lemma ten_thousandth: "1 / 10000 \<le> fl64 (1 / 10000)" and thousandth: "1 / 1000 \<le> fl64 (1 / 1000)"
  by code_simp+

lemma marshal_zero [simp]: "marshal_float (Num False 0) = Some ''0''"
  by (simp add: case_prod_beta)

end
