(* ===== verification/Dispatcher.thy ===== *)
theory Dispatcher
  imports Returns Json_Size Go_Ftoa
begin

text \<open>
  The reasoning dispatcher, \<open>internal/dispatcher/dispatcher.go\<close>, and how \<open>cmd/ori-gateway/app.go\<close> counts the replies it cannot deliver. A request
  is decoded, validated and verified, and then held in flight while the provider answers it; requests overlap.

  The provider and the broker are outside: what a call to the provider ends with, and whether a publication succeeds, are
  inputs. A reading of the signing clock is a value or the clock's refusal.
\<close>

section \<open>Requests\<close>

text \<open>The measured values of a request are checked for their types and not kept.\<close>

definition float_typed :: "json \<Rightarrow> bool" where
  "float_typed v = (case v of JNull \<Rightarrow> True | JNum r \<Rightarrow> float_in_range r | _ \<Rightarrow> False)"

definition int_typed :: "json \<Rightarrow> bool" where
  "int_typed v \<longleftrightarrow> decode_int64 v 0 \<noteq> None"

definition string_typed :: "json \<Rightarrow> bool" where
  "string_typed v \<longleftrightarrow> decode_string v [] \<noteq> None"

definition struct_typed :: "(string \<times> (json \<Rightarrow> bool)) list \<Rightarrow> json \<Rightarrow> bool" where
  "struct_typed fs v \<longleftrightarrow>
     decode_struct (map fst fs) False (\<lambda>f v _. if (case map_of fs f of None \<Rightarrow> True | Some ok \<Rightarrow> ok v) then Some () else None) v () \<noteq> None"

definition list_typed :: "(json \<Rightarrow> bool) \<Rightarrow> json \<Rightarrow> bool" where
  "list_typed ok v = (case v of JNull \<Rightarrow> True | JArr vs \<Rightarrow> list_all ok vs | _ \<Rightarrow> False)"

definition history_point_typed :: "json \<Rightarrow> bool" where
  "history_point_typed = struct_typed [(''value'', float_typed), (''timestamp'', int_typed), (''received_at_ms'', int_typed)]"

definition context_typed :: "json \<Rightarrow> bool" where
  "context_typed = struct_typed [(''value'', float_typed), (''unit'', string_typed), (''timestamp'', int_typed), (''history'', list_typed history_point_typed)]"

definition requestMembers :: "string list" where
  "requestMembers = [''request_id'', ''device_id'', ''sensor_type'', ''trigger_name'', ''prompt'', ''context'', ''action_tier_hint'', ''timeout_ms'', ''auth'']"

definition store_request :: "string \<Rightarrow> json \<Rightarrow> ReasoningRequest \<Rightarrow> ReasoningRequest option" where
  "store_request f v r =
     (if f = ''request_id'' then map_option (\<lambda>s. r\<lparr>req_RequestID := s\<rparr>) (decode_string v (req_RequestID r))
      else if f = ''device_id'' then map_option (\<lambda>s. r\<lparr>req_DeviceID := s\<rparr>) (decode_string v (req_DeviceID r))
      else if f = ''sensor_type'' then map_option (\<lambda>s. r\<lparr>req_SensorType := s\<rparr>) (decode_string v (req_SensorType r))
      else if f = ''trigger_name'' then map_option (\<lambda>s. r\<lparr>req_TriggerName := s\<rparr>) (decode_string v (req_TriggerName r))
      else if f = ''prompt'' then map_option (\<lambda>s. r\<lparr>req_Prompt := s\<rparr>) (decode_string v (req_Prompt r))
      else if f = ''context'' then (if context_typed v then Some r else None)
      else if f = ''action_tier_hint'' then map_option (\<lambda>s. r\<lparr>req_ActionTierHint := s\<rparr>) (decode_string v (req_ActionTierHint r))
      else if f = ''timeout_ms'' then map_option (\<lambda>i. r\<lparr>req_TimeoutMS := i\<rparr>) (decode_int64 v (req_TimeoutMS r))
      else case v of
        JNull \<Rightarrow> Some (r\<lparr>req_Auth := None\<rparr>)
      | _ \<Rightarrow> map_option (\<lambda>a. r\<lparr>req_Auth := Some a\<rparr>) (decode_struct authMembers False store_auth v (case req_Auth r of None \<Rightarrow> no_auth | Some a \<Rightarrow> a)))"

definition no_request :: ReasoningRequest where
  "no_request = \<lparr>req_RequestID = [], req_DeviceID = [], req_SensorType = [], req_TriggerName = [], req_Prompt = [], req_ActionTierHint = [],
     req_TimeoutMS = 0, req_Auth = None\<rparr>"

definition decode_request :: "string \<Rightarrow> ReasoningRequest option" where
  "decode_request payload = Unmarshal requestMembers False store_request no_request payload"

section \<open>The dispatcher\<close>

record Dispatcher =
  ds_providerTimeout :: int
  ds_publishTimeout :: int
  ds_verifier :: "Verifier option"
  ds_signingSecret :: string
  ds_inFlight :: "(string \<times> string) fset"

datatype newDispatcherError = NegativeProviderTimeout | NegativePublishTimeout | AuthHalfConfigured

definition New_Dispatcher :: "int \<Rightarrow> int \<Rightarrow> Verifier option \<Rightarrow> string \<Rightarrow> newDispatcherError + Dispatcher" where
  "New_Dispatcher providerTimeoutMS publishTimeout verifier signingSecret =
     (let providerTimeout = wrap64 ((if providerTimeoutMS = 0 then 10000 else providerTimeoutMS) * 1000000);
          publishTimeout = (if publishTimeout = 0 then 5000000000 else publishTimeout);
          secret = TrimSpace signingSecret
      in if providerTimeoutMS < 0 then Inl NegativeProviderTimeout
         else if publishTimeout < 0 then Inl NegativePublishTimeout
         else if (verifier = None) \<noteq> (secret = []) then Inl AuthHalfConfigured
         else Inr \<lparr>ds_providerTimeout = providerTimeout, ds_publishTimeout = publishTimeout, ds_verifier = verifier, ds_signingSecret = secret, ds_inFlight = {||}\<rparr>)"

text \<open>The errors of a request: it is refused, or its reply cannot be delivered.\<close>

datatype encodeError = ClockClosed | ClockExhausted | SignRefused signError | NotMarshalled

datatype dispatchError =
    ContextDone | UndecodableRequest | InvalidRequest contractError | NegativeTimeout | WrongTopic
  | Unauthenticated verdict | ErrRequestInFlight
  | NoResponseTopic contractError | UnpublishedReply "encodeError option"

definition ReasoningRequestMessageType :: string where "ReasoningRequestMessageType = ''reasoning_request''"
definition ReasoningResponseMessageType :: string where "ReasoningResponseMessageType = ''reasoning_response''"
definition ErrorResponseTooLarge :: string where "ErrorResponseTooLarge = ''response_too_large''"

definition maximum_of :: "string \<Rightarrow> int" where
  "maximum_of family = (case map_of PayloadMaxima family of None \<Rightarrow> 0 | Some n \<Rightarrow> n)"

definition validateRequestTopic :: "ReasoningRequest \<Rightarrow> string \<Rightarrow> bool" where
  "validateRequestTopic req topic \<longleftrightarrow> topic = [] \<or> RequestTopic (req_DeviceID req) = Inr topic"

definition flight_key :: "ReasoningRequest \<Rightarrow> string \<times> string" where
  "flight_key req = (req_DeviceID req, req_RequestID req)"

definition begin_request :: "string \<times> string \<Rightarrow> Dispatcher \<Rightarrow> bool \<times> Dispatcher" where
  "begin_request key d = (if key |\<in>| ds_inFlight d then (False, d) else (True, d\<lparr>ds_inFlight := finsert key (ds_inFlight d)\<rparr>))"

definition finish_request :: "string \<times> string \<Rightarrow> Dispatcher \<Rightarrow> Dispatcher" where
  "finish_request key d = d\<lparr>ds_inFlight := ds_inFlight d |-| {|key|}\<rparr>"

text \<open>\<open>HandleRequest\<close> up to the call of the provider: the request it goes on with.\<close>

definition accept_request ::
  "(string \<Rightarrow> bool) \<Rightarrow> strict_decoder \<Rightarrow> canonical_map \<Rightarrow> bool \<Rightarrow> int \<Rightarrow> string \<Rightarrow> string \<Rightarrow> Dispatcher
     \<Rightarrow> (dispatchError + ReasoningRequest) \<times> Dispatcher" where
  "accept_request validUnicode decodeStrict canonical cancelled t topic payload d =
     (if cancelled then (Inl ContextDone, d)
      else case decode_request payload of None \<Rightarrow> (Inl UndecodableRequest, d)
      | Some req \<Rightarrow>
     (case ValidateRequest req of Some e \<Rightarrow> (Inl (InvalidRequest e), d)
      | None \<Rightarrow>
          if req_TimeoutMS req < 0 then (Inl NegativeTimeout, d)
          else if \<not> validateRequestTopic req topic then (Inl WrongTopic, d)
          else
            let (refusal, d) = (case ds_verifier d of None \<Rightarrow> (None, d)
              | Some v \<Rightarrow>
                  (case VerifyJSON validUnicode decodeStrict canonical t payload ReasoningRequestMessageType (req_DeviceID req) (req_RequestID req) v of
                     (r, v) \<Rightarrow> (case r of Inl e \<Rightarrow> Some e | Inr _ \<Rightarrow> None, d\<lparr>ds_verifier := Some v\<rparr>)));
                req = req\<lparr>req_Auth := None\<rparr>
            in case refusal of Some e \<Rightarrow> (Inl (Unauthenticated e), d)
               | None \<Rightarrow>
                   let (begun, d) = begin_request (flight_key req) d
                   in if begun then (Inr req, d) else (Inl ErrRequestInFlight, d)))"

section \<open>Replies\<close>

record Reply = ReasoningResponse +
  resp_Confidence :: float64

text \<open>What a call to the provider ends with; a panic is recovered.\<close>

datatype outcome = Answered Reply | DeadlineExceeded | Canceled | Panicked | Failed

definition callTimeout :: "ReasoningRequest \<Rightarrow> Dispatcher \<Rightarrow> int" where
  "callTimeout req d =
     (let requested = wrap64 (req_TimeoutMS req * 1000000)
      in if req_TimeoutMS req > 0 \<and> requested < ds_providerTimeout d then requested else ds_providerTimeout d)"

definition error_reply :: "ReasoningRequest \<Rightarrow> string \<Rightarrow> Reply" where
  "error_reply req message =
     ReasoningResponse.extend (NewErrorResponse (req_RequestID req) (req_DeviceID req) (req_ActionTierHint req) message)
       (Reply.fields (Num False 0))"

fun providerErrorMessage :: "outcome \<Rightarrow> string" where
  "providerErrorMessage DeadlineExceeded = ''provider timeout''"
| "providerErrorMessage Canceled = ''provider canceled''"
| "providerErrorMessage Panicked = ''provider panic''"
| "providerErrorMessage _ = ''provider error''"

definition invalidResponse :: string where "invalidResponse = ''provider returned invalid response''"

definition reply_of :: "ReasoningRequest \<Rightarrow> outcome \<Rightarrow> Reply" where
  "reply_of req out =
     (case out of
        Answered resp \<Rightarrow>
          let resp = resp\<lparr>resp_DeviceID := req_DeviceID req\<rparr>
          in if ValidateResponseForRequest req (ReasoningResponse.truncate resp) = None then resp else error_reply req invalidResponse
      | _ \<Rightarrow> error_reply req (providerErrorMessage out))"

definition confidenceDecimals :: rat where "confidenceDecimals = 10000"

definition emitted_confidence :: "float64 \<Rightarrow> float64" where
  "emitted_confidence c = float_over (math_Round (float_times c confidenceDecimals)) confidenceDecimals"

definition optional_string :: "string option \<Rightarrow> json" where
  "optional_string s = (case s of None \<Rightarrow> JNull | Some s \<Rightarrow> JString s)"

text \<open>The members \<open>Marshal\<close> writes for a reply without its auth; a confidence that is no number cannot be written.\<close>

definition reply_members :: "Reply \<Rightarrow> (string \<times> json) list option" where
  "reply_members r =
     map_option (\<lambda>confidence.
       [(''request_id'', JString (resp_RequestID r)), (''device_id'', JString (resp_DeviceID r)), (''text'', JString (resp_Text r)),
        (''model'', JString (resp_Model r)), (''tokens_used'', JNum (itoa (resp_TokensUsed r))), (''latency_ms'', JNum (itoa (resp_LatencyMS r))),
        (''confidence'', JNum confidence), (''action_tier'', JString (resp_ActionTier r)), (''proposed_action'', optional_string (resp_ProposedAction r))]
       @ (case resp_Error r of None \<Rightarrow> [] | Some e \<Rightarrow> [(''error'', JString e)]))
     (marshal_float (resp_Confidence r))"

text \<open>Signing and writing an object that may not be writable; without a secret it goes out unsigned.\<close>

definition encode_signed ::
  "canonical_map \<Rightarrow> string \<Rightarrow> encodeError + int \<Rightarrow> string \<Rightarrow> string \<Rightarrow> string \<Rightarrow> (string \<times> json) list option \<Rightarrow> encodeError + string" where
  "encode_signed canonical secret reading messageType deviceID requestID members =
     (if secret = [] then (case members of None \<Rightarrow> Inl NotMarshalled | Some ms \<Rightarrow> Inr (print_json (JObj ms)))
      else case reading of Inl e \<Rightarrow> Inl e
      | Inr signedAt \<Rightarrow>
     (case members of None \<Rightarrow> Inl NotMarshalled
      | Some ms \<Rightarrow>
     (case Sign canonical (JObj ms) messageType deviceID requestID signedAt secret of
        Inl e \<Rightarrow> Inl (SignRefused e)
      | Inr auth \<Rightarrow> Inr (print_json (JObj (ms @ [(''auth'', auth_json auth)]))))))"

definition settle_reply :: "ReasoningRequest \<Rightarrow> Reply \<Rightarrow> Reply" where
  "settle_reply req resp =
     (let resp = (case resp_Error resp of None \<Rightarrow> resp | Some e \<Rightarrow> error_reply req e)
      in resp\<lparr>resp_Confidence := emitted_confidence (resp_Confidence resp)\<rparr>)"

definition encodeResponse :: "canonical_map \<Rightarrow> string \<Rightarrow> encodeError + int \<Rightarrow> ReasoningRequest \<Rightarrow> Reply \<Rightarrow> encodeError + string" where
  "encodeResponse canonical secret reading req resp =
     encode_signed canonical secret reading ReasoningResponseMessageType (req_DeviceID req) (req_RequestID req) (reply_members (settle_reply req resp))"

text \<open>\<open>publishResponse\<close> up to the publication: the topic and the payload. The signing clock is read once for each encoding.\<close>

definition build_reply ::
  "canonical_map \<Rightarrow> string \<Rightarrow> (encodeError + int) \<times> (encodeError + int) \<Rightarrow> ReasoningRequest \<Rightarrow> Reply \<Rightarrow> dispatchError + string \<times> string" where
  "build_reply canonical secret clock req resp =
     (case ResponseTopic (req_DeviceID req) of Inl e \<Rightarrow> Inl (NoResponseTopic e)
      | Inr topic \<Rightarrow>
          let payload = (case encodeResponse canonical secret (fst clock) req resp of
                Inl _ \<Rightarrow> encodeResponse canonical secret (snd clock) req (error_reply req invalidResponse)
              | Inr payload \<Rightarrow>
                  if int (length payload) > maximum_of FamilyReasoningResponse then encodeResponse canonical secret (snd clock) req (error_reply req ErrorResponseTooLarge)
                  else Inr payload)
          in case payload of Inl e \<Rightarrow> Inl (UnpublishedReply (Some e)) | Inr payload \<Rightarrow> Inr (topic, payload))"

text \<open>The rest of \<open>HandleRequest\<close>: what is published, if anything, and the error.\<close>

definition complete_request ::
  "canonical_map \<Rightarrow> (encodeError + int) \<times> (encodeError + int) \<Rightarrow> bool \<Rightarrow> ReasoningRequest \<Rightarrow> outcome \<Rightarrow> Dispatcher
     \<Rightarrow> (string \<times> string) option \<times> dispatchError option \<times> Dispatcher" where
  "complete_request canonical clock published req out d =
     (case build_reply canonical (ds_signingSecret d) clock req (reply_of req out) of
        Inl e \<Rightarrow> (None, Some e, finish_request (flight_key req) d)
      | Inr reply \<Rightarrow> (Some reply, if published then None else Some (UnpublishedReply None), finish_request (flight_key req) d))"

section \<open>Escalation\<close>

definition defaultRequestFailureLimit :: int where "defaultRequestFailureLimit = 5"

text \<open>The callback of \<open>runGateway\<close>: the count of replies in a row that could not be delivered, and whether it decides the stop.\<close>

definition count_reply :: "bool \<Rightarrow> dispatchError option \<Rightarrow> int \<Rightarrow> int \<times> bool" where
  "count_reply stopping err failures =
     (case err of
        None \<Rightarrow> (0, False)
      | Some (UnpublishedReply cause) \<Rightarrow>
          if stopping \<or> cause = Some ClockClosed then (failures, False) else (failures + 1, failures + 1 \<ge> defaultRequestFailureLimit)
      | Some _ \<Rightarrow> (failures, False))"

section \<open>Replies name their requests\<close>

text \<open>Values the canonical writer is relied on to write: strings, integers and null.\<close>

fun flat_json :: "json \<Rightarrow> bool" where
  "flat_json JNull = True"
| "flat_json (JStr r) = True"
| "flat_json (JNum r) = (\<exists>i. r = itoa i)"
| "flat_json _ = False"

fun flat_value :: "gvalue \<Rightarrow> bool" where
  "flat_value VNull = True"
| "flat_value (VString s) = True"
| "flat_value (VNumber r) = (\<exists>i. r = itoa i)"
| "flat_value _ = False"

definition flat_map :: "(string, gvalue) fmap \<Rightarrow> bool" where
  "flat_map m \<longleftrightarrow> fBall (fmran m) flat_value"

lemma flat_any: "flat_json v \<Longrightarrow> flat_value (any_of v)"
  by (cases v) auto

lemma flat_members: "list_all (\<lambda>(k, v). flat_json v) ms \<Longrightarrow> flat_map (fmdrop k0 (any_members ms))"
proof -
  assume a: "list_all (\<lambda>(k, v). flat_json v) ms"
  have "flat_value v" if "fmlookup (fmdrop k0 (any_members ms)) k = Some v" for k v
    using that a by (fastforce simp: any_members_def list_all_iff split: if_splits dest!: fmap_of_list_SomeD intro: flat_any)
  then show ?thesis unfolding flat_map_def by (metis fBallI fmranE)
qed

lemma join_snoc_length:
  "length (join_with c (xs @ [y])) = (if xs = [] then length y else Suc (length (join_with c xs) + length y))"
  by (induction c xs rule: join_with.induct) auto

lemma object_snoc_length:
  "ms \<noteq> [] \<Longrightarrow> length (print_json (JObj (ms @ [(k, v)]))) = length (print_json (JObj ms)) + length k + length (print_json v) + 4"
  by (simp add: join_snoc_length quoted_def)

lemma encode_signed_Inr:
  assumes "encode_signed canonical secret reading mt dev rid members = Inr payload"
  obtains ms where "members = Some ms" "secret = []" "payload = print_json (JObj ms)"
  | ms t auth where "members = Some ms" "secret \<noteq> []" "reading = Inr t" "Sign canonical (JObj ms) mt dev rid t secret = Inr auth"
      "payload = print_json (JObj (ms @ [(''auth'', auth_json auth)]))"
  using assms by (auto simp: encode_signed_def split: if_splits option.splits sum.splits)

text \<open>What a kind of reply promises: it repeats the identity of its request, settling it for the wire keeps that, and its error reply can always be
  written, within a bound.\<close>

locale replies =
  fixes identity :: "'req \<Rightarrow> (string \<times> string) list"
    and echoes :: "'req \<Rightarrow> 'resp \<Rightarrow> bool"
    and failed_reply :: "'resp \<Rightarrow> bool"
    and settle :: "'req \<Rightarrow> 'resp \<Rightarrow> 'resp"
    and members :: "'resp \<Rightarrow> (string \<times> json) list option"
    and errored :: "'req \<Rightarrow> string \<Rightarrow> 'resp"
    and room :: "'req \<Rightarrow> nat"
  assumes echoes_errored: "echoes req (errored req m)"
    and echoes_settle: "echoes req resp \<Longrightarrow> echoes req (settle req resp)"
    and members_identity: "echoes req resp \<Longrightarrow> members resp = Some ms \<Longrightarrow> (k, s) \<in> set (identity req) \<Longrightarrow> (k, JString s) \<in> set ms"
    and failed_errored: "failed_reply (errored req m)"
    and settle_failed: "failed_reply resp \<Longrightarrow> \<exists>m. settle req resp = errored req m"
    and errored_members: "\<exists>ms. members (errored req m) = Some ms \<and> ms \<noteq> [] \<and> list_all (\<lambda>(k, v). flat_json v) ms
      \<and> length (print_json (JObj ms)) \<le> room req"
begin

text \<open>What is encoded for a reply that repeats the identity names the request, and its signature is over exactly the other members.\<close>

lemma encoded_names:
  assumes "echoes req resp" "encode_signed canonical secret reading mt dev rid (members (settle req resp)) = Inr payload"
  shows "\<exists>ms auths. payload = print_json (JObj (ms @ auths)) \<and> (\<forall>(k, s) \<in> set (identity req). (k, JString s) \<in> set ms)
    \<and> (if secret = [] then auths = [] else \<exists>t auth. reading = Inr t \<and> auths = [(''auth'', auth_json auth)] \<and> Sign canonical (JObj ms) mt dev rid t secret = Inr auth)"
  using assms(2)
proof (cases rule: encode_signed_Inr)
  case (1 ms)
  then show ?thesis using members_identity [OF echoes_settle [OF assms(1)] 1(1)] by (intro exI [of _ ms] exI [of _ "[]"]) auto
next
  case (2 ms t auth)
  then show ?thesis using members_identity [OF echoes_settle [OF assms(1)] 2(1)] by (intro exI [of _ ms] exI [of _ "[(''auth'', auth_json auth)]"]) auto
qed

lemma failed_members:
  assumes "failed_reply resp"
  obtains ms where "members (settle req resp) = Some ms" "ms \<noteq> []" "list_all (\<lambda>(k, v). flat_json v) ms" "length (print_json (JObj ms)) \<le> room req"
  using settle_failed [OF assms] errored_members by metis

lemma errored_encodes:
  assumes "secret = [] \<or> reading = Inr t \<and> 0 < t" "secret = [] \<or> TrimSpace secret \<noteq> []" "\<forall>m. flat_map m \<longrightarrow> canonical m \<noteq> None"
  shows "\<exists>payload. encode_signed canonical secret reading mt dev rid (members (settle req (errored req m))) = Inr payload"
proof -
  obtain ms where ms: "members (settle req (errored req m)) = Some ms" "list_all (\<lambda>(k, v). flat_json v) ms"
    using failed_members [OF failed_errored] by metis
  obtain canon where "canonical (fmdrop ''auth'' (any_members ms)) = Some canon" using flat_members [OF ms(2)] assms(3) by blast
  then show ?thesis using assms(1,2) ms(1) by (auto simp: encode_signed_def Sign_def CanonicalJSONWithoutAuth_def Let_def)
qed

lemma failed_size:
  assumes "encode_signed canonical secret reading mt dev rid (members (settle req resp)) = Inr payload" "failed_reply resp"
    and "\<And>t. reading = Inr t \<Longrightarrow> t < 10 ^ 19"
  shows "length payload \<le> room req + 208"
proof -
  obtain ms where ms: "members (settle req resp) = Some ms" "ms \<noteq> []" "length (print_json (JObj ms)) \<le> room req"
    using failed_members [OF assms(2)] by metis
  show ?thesis using assms(1)
  proof (cases rule: encode_signed_Inr)
    case (2 ms' t auth)
    then have "ms' = ms" using ms(1) by auto
    then show ?thesis
      using 2(4,5) ms(2,3) auth_size [OF 2(4) assms(3) [OF 2(3)]] object_snoc_length [OF ms(2), of "''auth''" "auth_json auth"] by simp
  qed (use ms in simp)
qed

end

text \<open>The dispatcher's replies.\<close>

definition echoes_request :: "ReasoningRequest \<Rightarrow> Reply \<Rightarrow> bool" where
  "echoes_request req resp \<longleftrightarrow> resp_RequestID resp = req_RequestID req \<and> resp_DeviceID resp = req_DeviceID req"

definition request_identity :: "ReasoningRequest \<Rightarrow> (string \<times> string) list" where
  "request_identity req = [(''request_id'', req_RequestID req), (''device_id'', req_DeviceID req)]"

definition reply_room :: "ReasoningRequest \<Rightarrow> nat" where
  "reply_room req = length (quote_raw (req_RequestID req)) + length (quote_raw (req_DeviceID req)) + length (quote_raw (req_ActionTierHint req)) + 1000"

lemma error_reply_simps [simp]:
  "resp_RequestID (error_reply req m) = req_RequestID req" "resp_DeviceID (error_reply req m) = req_DeviceID req" "resp_Text (error_reply req m) = []"
  "resp_Model (error_reply req m) = []" "resp_TokensUsed (error_reply req m) = 0" "resp_LatencyMS (error_reply req m) = 0"
  "resp_ActionTier (error_reply req m) = req_ActionTierHint req" "resp_ProposedAction (error_reply req m) = None"
  "resp_Error (error_reply req m) = Some (BoundedError m)" "resp_Confidence (error_reply req m) = Num False 0"
  by (simp_all add: error_reply_def NewErrorResponse_def ReasoningResponse.defs Reply.defs)

lemma confidence_zero [simp]: "emitted_confidence (Num False 0) = Num False 0"
proof -
  have "\<lfloor>1 / 2 :: rat\<rfloor> = 0" by (simp add: floor_eq_iff)
  then show ?thesis by (simp add: emitted_confidence_def of_magnitude_def confidenceDecimals_def Let_def)
qed

lemma bounded_text: "length (quote_raw (BoundedError m)) \<le> 768"
proof -
  have "length (runes (BoundedError m)) \<le> 128"
    using rune_prefix_runes [of MaxErrorScalars m] by (simp add: BoundedError_def MaxErrorScalars_def)
  then show ?thesis using quote_raw_length [of "BoundedError m"] by linarith
qed

lemma settled_error: "resp_Error resp = Some m \<Longrightarrow> settle_reply req resp = error_reply req m"
  using confidence_zero by (simp add: settle_reply_def error_reply_def NewErrorResponse_def ReasoningResponse.defs Reply.defs)

lemma error_members:
  "reply_members (error_reply req m) = Some
     [(''request_id'', JString (req_RequestID req)), (''device_id'', JString (req_DeviceID req)), (''text'', JString []), (''model'', JString []),
      (''tokens_used'', JNum (itoa 0)), (''latency_ms'', JNum (itoa 0)), (''confidence'', JNum (itoa 0)), (''action_tier'', JString (req_ActionTierHint req)),
      (''proposed_action'', JNull), (''error'', JString (BoundedError m))]"
proof -
  have "itoa 0 = ''0''" by code_simp
  then show ?thesis by (simp add: reply_members_def optional_string_def del: marshal_float.simps)
qed

interpretation reasoning: replies request_identity echoes_request "\<lambda>r. resp_Error r \<noteq> None" settle_reply reply_members error_reply reply_room
proof
  fix req m resp ms k s
  show "echoes_request req (error_reply req m)" by (simp add: echoes_request_def)
  show "echoes_request req resp \<Longrightarrow> echoes_request req (settle_reply req resp)"
    by (auto simp: echoes_request_def settle_reply_def Let_def split: option.splits)
  show "echoes_request req resp \<Longrightarrow> reply_members resp = Some ms \<Longrightarrow> (k, s) \<in> set (request_identity req) \<Longrightarrow> (k, JString s) \<in> set ms"
    by (auto simp: echoes_request_def reply_members_def request_identity_def)
  have z: "length (itoa 0) = 1" by code_simp
  have q: "quote_raw [] = []" by simp
  have "length (print_json (JObj [(''request_id'', JString (req_RequestID req)), (''device_id'', JString (req_DeviceID req)), (''text'', JString []), (''model'', JString []),
      (''tokens_used'', JNum (itoa 0)), (''latency_ms'', JNum (itoa 0)), (''confidence'', JNum (itoa 0)), (''action_tier'', JString (req_ActionTierHint req)),
      (''proposed_action'', JNull), (''error'', JString (BoundedError m))])) \<le> reply_room req"
    using bounded_text [of m] by (simp add: quoted_def JString_def reply_room_def z q)
  then show "\<exists>ms. reply_members (error_reply req m) = Some ms \<and> ms \<noteq> [] \<and> list_all (\<lambda>(k, v). flat_json v) ms
      \<and> length (print_json (JObj ms)) \<le> reply_room req"
    unfolding error_members by (auto simp: JString_def)
  show "resp_Error (error_reply req m) \<noteq> None" by simp
  show "resp_Error resp \<noteq> None \<Longrightarrow> \<exists>m. settle_reply req resp = error_reply req m" using settled_error by fastforce
qed

end
