(* ===== verification/Dispatch_Runs.thy ===== *)
theory Dispatch_Runs
  imports Dispatcher "HOL-Library.Multiset"
begin

text \<open>
  Runs of the reasoning dispatcher: requests arrive and are answered in any order, and each accepted one is answered once, on the topic of its device, with
  its identity and a signature over what is sent. The error reply that stands in for a reply that cannot go out can always
  be built, and is small for a device identifier of the usual size.
\<close>

section \<open>Accepting\<close>

lemma begin_request_cases:
  assumes "begin_request key d = (b, d')"
  shows "d' = (if b then d\<lparr>ds_inFlight := finsert key (ds_inFlight d)\<rparr> else d)" "b \<longleftrightarrow> key |\<notin>| ds_inFlight d"
  using assms by (auto simp: begin_request_def split: if_splits)

lemma accept_request_cases:
  assumes "accept_request vu ds cn cancelled t topic payload d = (r, d')"
  obtains e where "r = Inl e" "d' = d"
  | e v where "r = Inl e" "d' = d\<lparr>ds_verifier := Some v\<rparr>" "ds_verifier d \<noteq> None"
  | req vr where "r = Inr (req\<lparr>req_Auth := None\<rparr>)" "decode_request payload = Some req" "ValidateRequest req = None" "0 \<le> req_TimeoutMS req" "validateRequestTopic req topic"
      "flight_key req |\<notin>| ds_inFlight d" "d' = d\<lparr>ds_verifier := vr, ds_inFlight := finsert (flight_key req) (ds_inFlight d)\<rparr>"
      "case ds_verifier d of None \<Rightarrow> vr = None
       | Some v \<Rightarrow> \<exists>body v'. VerifyJSON vu ds cn t payload ReasoningRequestMessageType (req_DeviceID req) (req_RequestID req) v = (Inr body, v') \<and> vr = Some v'"
proof -
  consider (early) e where "r = Inl e" "d' = d"
    | (late) req where "decode_request payload = Some req" "ValidateRequest req = None" "0 \<le> req_TimeoutMS req" "validateRequestTopic req topic" "\<not> cancelled"
    using assms by (auto simp: accept_request_def split: if_splits option.splits)
  then show thesis
  proof cases
    case late
    have key: "flight_key (req\<lparr>req_Auth := None\<rparr>) = flight_key req" by (simp add: flight_key_def)
    note s = late(2,3,4,5)
    show thesis
    proof (cases "ds_verifier d")
      case None
      obtain b d1 where b: "begin_request (flight_key req) d = (b, d1)" by fastforce
      have r: "(r, d') = (if b then Inr (req\<lparr>req_Auth := None\<rparr>) else Inl ErrRequestInFlight, d1)"
        unfolding assms [symmetric] accept_request_def using s None b key late(1) by (simp add: Let_def)
      show thesis
      proof (cases b)
        case True
        then show thesis using r begin_request_cases [OF b] None late by (intro that(3) [of req None]) simp_all
      qed (use r begin_request_cases [OF b] that(1) in simp)
    next
      case (Some v)
      obtain rv v' where v: "VerifyJSON vu ds cn t payload ReasoningRequestMessageType (req_DeviceID req) (req_RequestID req) v = (rv, v')" by fastforce
      obtain b d1 where b: "begin_request (flight_key req) (d\<lparr>ds_verifier := Some v'\<rparr>) = (b, d1)" by fastforce
      have r: "(r, d') = (case rv of Inl e \<Rightarrow> (Inl (Unauthenticated e), d\<lparr>ds_verifier := Some v'\<rparr>)
          | Inr _ \<Rightarrow> (if b then Inr (req\<lparr>req_Auth := None\<rparr>) else Inl ErrRequestInFlight, d1))"
        unfolding assms [symmetric] accept_request_def using s Some v b key late(1) by (simp add: Let_def split: sum.splits)
      show thesis
      proof (cases rv)
        case (Inl e)
        then show thesis using r Some by (intro that(2) [of _ v']) simp_all
      next
        case (Inr body)
        show thesis
        proof (cases b)
          case True
          then show thesis using r Inr begin_request_cases [OF b] Some late v by (intro that(3) [of req "Some v'"]) simp_all
        next
          case False
          then show thesis using r Inr begin_request_cases [OF b] Some by (intro that(2) [of _ v']) simp_all
        qed
      qed
    qed
  qed (use that(1) in blast)
qed


section \<open>Answering\<close>

lemma reply_of_echoes: "echoes_request req (reply_of req out)"
  by (auto simp: reply_of_def echoes_request_def ValidateResponseForRequest_def ReasoningResponse.defs Let_def split: outcome.splits if_splits)

definition answers :: "canonical_map \<Rightarrow> string \<Rightarrow> ReasoningRequest \<Rightarrow> string \<times> string \<Rightarrow> bool" where
  "answers canonical secret req reply \<longleftrightarrow>
     fst reply = ''ori/'' @ req_DeviceID req @ ''/reasoning/response''
     \<and> (\<exists>ms auths. snd reply = print_json (JObj (ms @ auths))
          \<and> (''request_id'', JString (req_RequestID req)) \<in> set ms \<and> (''device_id'', JString (req_DeviceID req)) \<in> set ms
          \<and> (if secret = [] then auths = []
             else \<exists>t auth. auths = [(''auth'', auth_json auth)]
                    \<and> Sign canonical (JObj ms) ReasoningResponseMessageType (req_DeviceID req) (req_RequestID req) t secret = Inr auth))"

lemma encodeResponse_answers:
  assumes "echoes_request req resp" "encodeResponse cn secret reading req resp = Inr payload"
  shows "answers cn secret req (''ori/'' @ req_DeviceID req @ ''/reasoning/response'', payload)"
  using reasoning.encoded_names [OF assms(1) assms(2) [unfolded encodeResponse_def]]
  by (fastforce simp: answers_def request_identity_def split: if_splits)

lemma ResponseTopic_valid: "ValidateRequest req = None \<Longrightarrow> ResponseTopic (req_DeviceID req) = Inr (''ori/'' @ req_DeviceID req @ ''/reasoning/response'')"
  by (auto simp: ValidateRequest_def ResponseTopic_def device_topic_def split: option.splits if_splits)

lemma ResponseTopic_Inr: "ResponseTopic dev = Inr topic \<Longrightarrow> topic = ''ori/'' @ dev @ ''/reasoning/response''"
  by (auto simp: ResponseTopic_def device_topic_def split: option.splits)

lemma build_reply_cases:
  assumes "build_reply cn secret clock req resp = Inr (topic, payload)"
  obtains "encodeResponse cn secret (fst clock) req resp = Inr payload" "int (length payload) \<le> maximum_of FamilyReasoningResponse"
  | m where "encodeResponse cn secret (snd clock) req (error_reply req m) = Inr payload"
  using assms by (auto simp: build_reply_def Let_def not_less split: sum.splits if_splits)

lemma build_reply_answers:
  assumes "build_reply cn secret clock req resp = Inr reply" "echoes_request req resp"
  shows "answers cn secret req reply"
proof -
  obtain topic payload where r: "reply = (topic, payload)" by fastforce
  have "topic = ''ori/'' @ req_DeviceID req @ ''/reasoning/response''"
    using assms(1) r ResponseTopic_Inr by (auto simp: build_reply_def Let_def split: sum.splits if_splits)
  moreover from assms(1) [unfolded r] have "\<exists>resp reading. echoes_request req resp \<and> encodeResponse cn secret reading req resp = Inr payload"
  proof (cases rule: build_reply_cases)
    case 1
    then show ?thesis using assms(2) by blast
  next
    case (2 m)
    then show ?thesis using reasoning.echoes_errored by blast
  qed
  ultimately show ?thesis using encodeResponse_answers r by blast
qed


section \<open>Runs\<close>

text \<open>The dispatcher, the requests the provider is working on, every request it went on with so far, and the ones it has answered with what it
  published.\<close>

record exchange =
  ex_dispatcher :: Dispatcher
  ex_open :: "ReasoningRequest list"
  ex_accepted :: "ReasoningRequest list"
  ex_answered :: "(ReasoningRequest \<times> (string \<times> string) option) list"

inductive dispatch_reaches ::
  "(string \<Rightarrow> bool) \<Rightarrow> strict_decoder \<Rightarrow> canonical_map \<Rightarrow> Dispatcher \<Rightarrow> exchange \<Rightarrow> bool" for vu ds cn d0 where
  start: "dispatch_reaches vu ds cn d0 \<lparr>ex_dispatcher = d0, ex_open = [], ex_accepted = [], ex_answered = []\<rparr>"
| arrive: "dispatch_reaches vu ds cn d0 x \<Longrightarrow> accept_request vu ds cn cancelled t topic payload (ex_dispatcher x) = (r, d)
    \<Longrightarrow> new = (case r of Inl e \<Rightarrow> [] | Inr req \<Rightarrow> [req])
    \<Longrightarrow> dispatch_reaches vu ds cn d0 (x\<lparr>ex_dispatcher := d, ex_open := ex_open x @ new, ex_accepted := ex_accepted x @ new\<rparr>)"
| answer: "dispatch_reaches vu ds cn d0 x \<Longrightarrow> req \<in> set (ex_open x)
    \<Longrightarrow> complete_request cn clock published req out (ex_dispatcher x) = (reply, err, d)
    \<Longrightarrow> dispatch_reaches vu ds cn d0 (x\<lparr>ex_dispatcher := d, ex_open := remove1 req (ex_open x), ex_answered := ex_answered x @ [(req, reply)]\<rparr>)"

definition exchange_ok :: "canonical_map \<Rightarrow> string \<Rightarrow> exchange \<Rightarrow> bool" where
  "exchange_ok cn secret x \<longleftrightarrow>
     ds_signingSecret (ex_dispatcher x) = secret
     \<and> distinct (map flight_key (ex_open x)) \<and> fset (ds_inFlight (ex_dispatcher x)) = set (map flight_key (ex_open x))
     \<and> mset (ex_accepted x) = mset (ex_open x) + mset (map fst (ex_answered x))
     \<and> (\<forall>(req, reply) \<in> set (ex_answered x). case reply of None \<Rightarrow> True | Some reply \<Rightarrow> answers cn secret req reply)"

lemma complete_cases:
  assumes "complete_request cn clock published req out d = (reply, err, d')"
  shows "d' = finish_request (flight_key req) d" "reply = Some p \<Longrightarrow> answers cn (ds_signingSecret d) req p"
  using assms build_reply_answers [OF _ reply_of_echoes] by (auto simp: complete_request_def split: sum.splits)

lemma remove_keys:
  assumes "distinct (map f xs)" "x \<in> set xs"
  shows "distinct (map f (remove1 x xs))" "set (map f (remove1 x xs)) = set (map f xs) - {f x}"
proof -
  have d: "distinct xs" "inj_on f (set xs)" using assms(1) by (simp_all add: distinct_map)
  have r: "set (remove1 x xs) = set xs - {x}" using d(1) by simp
  show "distinct (map f (remove1 x xs))" using d(1) inj_on_subset [OF d(2) set_remove1_subset [of x xs]] by (simp add: distinct_map)
  show "set (map f (remove1 x xs)) = set (map f xs) - {f x}" using inj_on_image_set_diff [OF d(2), of "set xs" "{x}"] assms(2) r by simp
qed

lemma exchange_reaches_ok:
  assumes "dispatch_reaches vu ds cn d0 x" "ds_inFlight d0 = {||}"
  shows "exchange_ok cn (ds_signingSecret d0) x"
  using assms(1)
proof induction
  case start
  then show ?case using assms(2) by (simp add: exchange_ok_def)
next
  case (arrive x cancelled t topic payload r d new)
  from arrive.hyps(2) show ?case
  proof (cases rule: accept_request_cases)
    case (3 req vr)
    have key: "flight_key (req\<lparr>req_Auth := None\<rparr>) = flight_key req" by (simp add: flight_key_def)
    show ?thesis using arrive.IH arrive.hyps(3) 3(1,6,7) key by (auto simp: exchange_ok_def)
  qed (use arrive.IH arrive.hyps(3) in \<open>simp_all add: exchange_ok_def\<close>)
next
  case (answer x req clock published out reply err d)
  note c = complete_cases [OF answer.hyps(3)]
  have ok: "ds_signingSecret (ex_dispatcher x) = ds_signingSecret d0" "distinct (map flight_key (ex_open x))"
    "fset (ds_inFlight (ex_dispatcher x)) = set (map flight_key (ex_open x))"
    "mset (ex_accepted x) = mset (ex_open x) + mset (map fst (ex_answered x))"
    "\<forall>(req, reply) \<in> set (ex_answered x). case reply of None \<Rightarrow> True | Some reply \<Rightarrow> answers cn (ds_signingSecret d0) req reply"
    using answer.IH by (simp_all add: exchange_ok_def)
  note k = remove_keys [OF ok(2) answer.hyps(2)]
  have m: "mset (ex_open x) = add_mset req (mset (remove1 req (ex_open x)))" using answer.hyps(2) by simp
  have f: "fset (ds_inFlight d) = set (map flight_key (remove1 req (ex_open x)))" using c(1) ok(3) k(2) by (simp add: finish_request_def)
  have a: "mset (ex_accepted x) = mset (remove1 req (ex_open x)) + mset (map fst (ex_answered x @ [(req, reply)]))"
    unfolding ok(4) by (subst m) simp
  have r: "case reply of None \<Rightarrow> True | Some p \<Rightarrow> answers cn (ds_signingSecret d0) req p" using c(2) ok(1) by (simp split: option.splits)
  have s: "ds_signingSecret d = ds_signingSecret d0" using c(1) ok(1) by (simp add: finish_request_def)
  show ?case unfolding exchange_ok_def using k(1) f a r s ok(5) by simp
qed


section \<open>Replies over the maximum\<close>

lemma quote_brackets: "length (quote_raw (replicate n (CHR ''<''))) = 6 * n"
proof (induction n)
  case (Suc n)
  have "byte (CHR ''<'') < 128" "length (escape_ascii (CHR ''<'')) = 6" by code_simp+
  then show ?case using Suc by (subst quote_raw.simps) simp
qed (simp add: quote_raw.simps)

lemma trim_brackets: "TrimSpace (replicate n (CHR ''<'')) = replicate n (CHR ''<'')"
proof (cases n)
  case (Suc k)
  have c: "byte (CHR ''<'') < 128" "\<not> IsSpace (byte (CHR ''<''))" by code_simp+
  have "TrimLeft (replicate n (CHR ''<'')) = replicate n (CHR ''<'')" using TrimLeft_stop [OF c] Suc by simp
  moreover have "TrimRight (replicate n (CHR ''<'')) = replicate n (CHR ''<'')"
    using TrimRight_stop [OF c, of "replicate k (CHR ''<'')"] Suc by (simp add: replicate_append_same)
  ultimately show ?thesis by (simp add: TrimSpace_def)
qed (simp add: TrimSpace_def TrimLeft.simps TrimRight.simps)

definition wide_request :: ReasoningRequest where
  "wide_request = no_request\<lparr>req_RequestID := ''r-1'', req_DeviceID := replicate 44000 (CHR ''<''), req_Prompt := ''why'', req_ActionTierHint := ''A''\<rparr>"

lemma wide_request_valid: "ValidateRequest wide_request = None"
proof -
  have "ValidRoutingID ''r-1''" by code_simp
  then show ?thesis
    using trim_brackets by (simp add: wide_request_def ValidateRequest_def validateMQTTRequestID_def validateMQTTDeviceID_def IsValidActionTier_def list_ex_iff)
qed

lemma wide_error_reply:
  assumes "encodeResponse cn [] reading wide_request (error_reply wide_request m) = Inr payload"
  shows "maximum_of FamilyReasoningResponse < int (length payload)"
proof -
  have max: "maximum_of FamilyReasoningResponse = 262144" by code_simp
  have "payload = print_json (JObj (the (reply_members (error_reply wide_request (BoundedError m)))))"
    using assms settled_error [of "error_reply wide_request m" "BoundedError m" wide_request] error_members
    by (simp add: encodeResponse_def encode_signed_def)
  then have "length payload \<ge> length (quote_raw (req_DeviceID wide_request))"
    unfolding error_members by (simp add: JString_def quoted_def)
  then show ?thesis using quote_brackets [of 44000] max by (simp add: wide_request_def)
qed


section \<open>Confidence\<close>

lemma confidence_readable:
  assumes "emitted_confidence c = Num neg r" "\<And>s m. c = Num s m \<Longrightarrow> 0 \<le> m"
  shows "r = 0 \<or> 1 / 10000 \<le> r"
  using rounded_parts [of c confidenceDecimals neg r] assms ten_thousandth by (simp add: emitted_confidence_def confidenceDecimals_def)

section \<open>Escalation\<close>

fun count_run :: "(bool \<times> dispatchError option) list \<Rightarrow> int \<Rightarrow> int \<times> bool" where
  "count_run [] failures = (failures, False)"
| "count_run ((stopping, err) # es) failures =
     (let (failures, stop) = count_reply stopping err failures; (failures, stop') = count_run es failures in (failures, stop \<or> stop'))"

definition undelivered :: "bool \<times> dispatchError option \<Rightarrow> bool" where
  "undelivered e \<longleftrightarrow> (case e of (stopping, Some (UnpublishedReply cause)) \<Rightarrow> \<not> stopping \<and> cause \<noteq> Some ClockClosed | _ \<Rightarrow> False)"

text \<open>The undelivered replies since the last delivered one.\<close>

definition failing :: "(bool \<times> dispatchError option) list \<Rightarrow> int" where
  "failing es = int (length (filter undelivered (takeWhile (\<lambda>e. snd e \<noteq> None) (rev es))))"

lemma count_run_append:
  "count_run (es @ [e]) f = (let (f1, s1) = count_run es f; (f2, s2) = count_reply (fst e) (snd e) f1 in (f2, s1 \<or> s2))"
proof (induction es arbitrary: f)
  case Nil
  then show ?case by (cases e) (simp add: case_prod_beta)
next
  case (Cons a es)
  then show ?case by (cases a) (auto simp: case_prod_beta Let_def)
qed

lemma count_reply_cases:
  "count_reply (fst e) (snd e) f = (if snd e = None then 0 else if undelivered e then f + 1 else f, undelivered e \<and> f + 1 \<ge> defaultRequestFailureLimit)"
  by (cases e) (auto simp: count_reply_def undelivered_def split: option.splits dispatchError.splits)

lemma failing_snoc: "failing (es @ [e]) = (if snd e = None then 0 else if undelivered e then failing es + 1 else failing es)"
  by (auto simp: failing_def)

lemma split_snoc: "xs @ [x] = ys @ zs \<longleftrightarrow> zs = [] \<and> ys = xs @ [x] \<or> (\<exists>zs'. zs = zs' @ [x] \<and> xs = ys @ zs')"
  by (cases zs rule: rev_cases) auto

text \<open>The gateway stops exactly for replies it could not deliver. Over any run of handled requests the count is the number of undelivered replies since the last
  delivered one, and the stop is decided exactly when some point of the run has five; a request that is refused, malformed,
  unauthenticated, replayed or already in flight, and a reply the stop itself refused, neither counts nor resets the count, so that leaving
  them out of the run changes neither.\<close>

theorem escalation_counts_undelivered:
  "fst (count_run es 0) = failing es \<and> (snd (count_run es 0) \<longleftrightarrow> (\<exists>es1 es2. es = es1 @ es2 \<and> defaultRequestFailureLimit \<le> failing es1))
   \<and> count_run (filter (\<lambda>e. snd e = None \<or> undelivered e) es) 0 = count_run es 0"
proof (induction es rule: rev_induct)
  case Nil
  then show ?case by (simp add: failing_def defaultRequestFailureLimit_def)
next
  case (snoc e es)
  obtain f s where r: "count_run es 0 = (f, s)" by fastforce
  have f: "f = failing es" and s: "s \<longleftrightarrow> (\<exists>es1 es2. es = es1 @ es2 \<and> defaultRequestFailureLimit \<le> failing es1)"
    and same: "count_run (filter (\<lambda>e. snd e = None \<or> undelivered e) es) 0 = count_run es 0"
    using snoc r by auto
  have step: "count_run (es @ [e]) 0 = (failing (es @ [e]), s \<or> undelivered e \<and> failing es + 1 \<ge> defaultRequestFailureLimit)"
    by (auto simp: count_run_append r count_reply_cases f failing_snoc)
  have d: "undelivered e \<Longrightarrow> snd e \<noteq> None" by (cases e) (auto simp: undelivered_def split: option.splits)
  have reached: "defaultRequestFailureLimit \<le> failing es \<Longrightarrow> s" using s by blast
  have "(\<exists>es1 es2. es @ [e] = es1 @ es2 \<and> defaultRequestFailureLimit \<le> failing es1) \<longleftrightarrow> s \<or> defaultRequestFailureLimit \<le> failing (es @ [e])"
    unfolding s split_snoc by blast
  moreover have "s \<or> undelivered e \<and> failing es + 1 \<ge> defaultRequestFailureLimit \<longleftrightarrow> s \<or> defaultRequestFailureLimit \<le> failing (es @ [e])"
    using reached d by (auto simp: failing_snoc defaultRequestFailureLimit_def)
  moreover have "count_run (filter (\<lambda>e. snd e = None \<or> undelivered e) (es @ [e])) 0 = count_run (es @ [e]) 0"
  proof (cases "snd e = None \<or> undelivered e")
    case True
    then have "filter (\<lambda>e. snd e = None \<or> undelivered e) (es @ [e]) = filter (\<lambda>e. snd e = None \<or> undelivered e) es @ [e]" by simp
    then show ?thesis using same by (simp only: count_run_append)
  qed (use same in \<open>auto simp: count_run_append count_reply_cases r\<close>)
  ultimately show ?case using step by auto
qed

section \<open>An example\<close>

definition demo_members :: "(string \<times> json) list" where
  "demo_members = [(''request_id'', JString ''r-1''), (''device_id'', JString ''pump-1''), (''prompt'', JString ''why''), (''action_tier_hint'', JString ''B'')]"

definition demo_canonical :: canonical_map where "demo_canonical m = Some ''{}''"

definition demo_dispatcher :: Dispatcher where
  "demo_dispatcher = \<lparr>ds_providerTimeout = 10000000000, ds_publishTimeout = 5000000000, ds_verifier = Some sample_verifier, ds_signingSecret = ''secret'', ds_inFlight = {||}\<rparr>"

definition demo_request :: ReasoningRequest where
  "demo_request = no_request\<lparr>req_RequestID := ''r-1'', req_DeviceID := ''pump-1'', req_Prompt := ''why'', req_ActionTierHint := ''B''\<rparr>"

lemma demo_plain:
  "plain ''request_id''" "plain ''device_id''" "plain ''prompt''" "plain ''action_tier_hint''" "plain ''r-1''" "plain ''pump-1''" "plain ''why''" "plain ''B''"
  "plain ''auth''" "plain ''scheme''" "plain ''signed_at_ms''" "plain ''signature''"
  by code_simp+

lemma demo_signed: "\<exists>auth. Sign demo_canonical (JObj demo_members) ReasoningRequestMessageType ''pump-1'' ''r-1'' 1000 ''secret'' = Inr auth \<and> SignedAtMS auth = 1000"
proof -
  have "TrimSpace ''secret'' = ''secret''" by code_simp
  then show ?thesis by (simp add: Sign_def CanonicalJSONWithoutAuth_def demo_canonical_def Let_def)
qed

lemma demo_accepted:
  "\<exists>payload d. accept_request (\<lambda>_. True) (\<lambda>_ _. None) demo_canonical False 1000 ''ori/pump-1/reasoning/request'' payload demo_dispatcher = (Inr demo_request, d)"
proof -
  obtain auth where a: "Sign demo_canonical (JObj demo_members) ReasoningRequestMessageType ''pump-1'' ''r-1'' 1000 ''secret'' = Inr auth" "SignedAtMS auth = 1000"
    using demo_signed by blast
  let ?payload = "print_json (JObj (demo_members @ [(''auth'', auth_json auth)]))"
  have ok: "json_ok (JObj demo_members)" "json_depth (JObj demo_members) < maxNestingDepth" "''auth'' \<notin> unquote ` fst ` set demo_members"
    "validateExpectedFields (any_members demo_members) ''pump-1'' ''r-1'' = None"
    using demo_plain by (simp_all add: demo_members_def JString_def maxNestingDepth_def any_members_def validateExpectedFields_def)
  obtain rs where r: "checkFreshAndRecord (vf_replay sample_verifier) (envelope_of ReasoningRequestMessageType ''pump-1'' ''r-1'' auth) 1000
      (None :: (bool \<times> unit option) option) = (rs, None, None)" using sample_fresh [OF a(2)] by blast
  have "authenticate (\<lambda>_. True) (\<lambda>_ _. None) demo_canonical sample_verifier ?payload ReasoningRequestMessageType ''pump-1'' ''r-1'' = Inr (auth, any_members demo_members)"
    by (rule signed_authenticates [where validUnicode = "\<lambda>_. True" and decodeStrict = "\<lambda>_ _. None", OF a(1) sample_members_ok(5) _ refl ok(1,2) _ _ ok(3,4)])
      (simp_all add: maxInt64_def)
  then have v: "VerifyJSON (\<lambda>_. True) (\<lambda>_ _. None) demo_canonical 1000 ?payload ReasoningRequestMessageType ''pump-1'' ''r-1'' sample_verifier
      = (Inr (any_members demo_members), sample_verifier\<lparr>vf_replay := rs\<rparr>)" using r by (simp add: VerifyJSON_def)
  have "decode_request ?payload = Some (demo_request\<lparr>req_Auth := Some auth\<rparr>)"
    unfolding decode_request_def Unmarshal_def signed_parses [OF a(1) ok(1,2)]
    using demo_plain signed_plain [OF a(1)] a(2)
    by (simp add: demo_members_def demo_request_def auth_json_def no_auth_def no_request_def decode_struct_def field_of_def requestMembers_def authMembers_def store_request_def
        store_auth_def JString_def decode_string_def decode_int64_def parseInt64_itoa in_int64_def minInt64_def maxInt64_def)
  moreover have "validateMQTTRequestID ''r-1'' = None" "validateMQTTDeviceID ''pump-1'' = None" "IsValidActionTier ''B''" by code_simp+
  then have "ValidateRequest (demo_request\<lparr>req_Auth := Some auth\<rparr>) = None" by (simp add: ValidateRequest_def demo_request_def no_request_def)
  moreover have "RequestTopic ''pump-1'' = Inr ''ori/pump-1/reasoning/request''" by code_simp
  ultimately have "\<exists>d. accept_request (\<lambda>_. True) (\<lambda>_ _. None) demo_canonical False 1000 ''ori/pump-1/reasoning/request'' ?payload demo_dispatcher = (Inr demo_request, d)"
    using v by (simp add: accept_request_def demo_dispatcher_def demo_request_def no_request_def validateRequestTopic_def begin_request_def Let_def)
  then show ?thesis by blast
qed




end
