(* ===== verification/Enrichment.thy ===== *)
theory Enrichment
  imports Dispatcher
begin

text \<open>
  The handler of Tier C enrichment requests, \<open>internal/enrichment/handler.go\<close>. It verifies a request before anything else happens, and answers a
  request whose identifiers are in form with one advisory response, an error response where the request or the provider's
  answer is not in order.
\<close>

section \<open>Requests\<close>

definition sample_typed :: "json \<Rightarrow> bool" where
  "sample_typed = struct_typed [(''sensor_id'', string_typed), (''sensor_type'', string_typed), (''unit'', string_typed), (''timestamp_ms'', int_typed),
     (''value'', float_typed), (''quality'', float_typed)]"

definition auth_typed :: "json \<Rightarrow> bool" where
  "auth_typed = struct_typed [(''scheme'', string_typed), (''signed_at_ms'', int_typed), (''signature'', string_typed)]"

definition enrichmentMembers :: "string list" where
  "enrichmentMembers = [''request_id'', ''proposal_id'', ''device_id'', ''skill_name'', ''trigger_name'', ''sensor_id'', ''sensor_type'', ''reading_value'', ''unit'',
     ''history_window'', ''proposed_action'', ''safe_default_action'', ''operator_message'', ''timeout_ms'', ''auth'']"

definition store_enrichment :: "string \<Rightarrow> json \<Rightarrow> TierCEnrichmentRequest \<Rightarrow> TierCEnrichmentRequest option" where
  "store_enrichment f v r =
     (if f = ''request_id'' then map_option (\<lambda>s. r\<lparr>tc_RequestID := s\<rparr>) (decode_string v (tc_RequestID r))
      else if f = ''proposal_id'' then map_option (\<lambda>s. r\<lparr>tc_ProposalID := s\<rparr>) (decode_string v (tc_ProposalID r))
      else if f = ''device_id'' then map_option (\<lambda>s. r\<lparr>tc_DeviceID := s\<rparr>) (decode_string v (tc_DeviceID r))
      else if f = ''skill_name'' then map_option (\<lambda>s. r\<lparr>tc_SkillName := s\<rparr>) (decode_string v (tc_SkillName r))
      else if f = ''trigger_name'' then map_option (\<lambda>s. r\<lparr>tc_TriggerName := s\<rparr>) (decode_string v (tc_TriggerName r))
      else if f = ''sensor_id'' then map_option (\<lambda>s. r\<lparr>tc_SensorID := s\<rparr>) (decode_string v (tc_SensorID r))
      else if f = ''sensor_type'' then map_option (\<lambda>s. r\<lparr>tc_SensorType := s\<rparr>) (decode_string v (tc_SensorType r))
      else if f = ''reading_value'' then (if float_typed v then Some r else None)
      else if f = ''unit'' then map_option (\<lambda>s. r\<lparr>tc_Unit := s\<rparr>) (decode_string v (tc_Unit r))
      else if f = ''history_window'' then (if list_typed sample_typed v then Some r else None)
      else if f = ''proposed_action'' then map_option (\<lambda>s. r\<lparr>tc_ProposedAction := s\<rparr>) (decode_string v (tc_ProposedAction r))
      else if f = ''safe_default_action'' then map_option (\<lambda>s. r\<lparr>tc_SafeDefaultAction := s\<rparr>) (decode_string v (tc_SafeDefaultAction r))
      else if f = ''operator_message'' then map_option (\<lambda>s. r\<lparr>tc_OperatorMessage := s\<rparr>) (decode_string v (tc_OperatorMessage r))
      else if f = ''timeout_ms'' then map_option (\<lambda>i. r\<lparr>tc_TimeoutMS := i\<rparr>) (decode_int64 v (tc_TimeoutMS r))
      else if auth_typed v then Some r else None)"

definition no_enrichment :: TierCEnrichmentRequest where
  "no_enrichment = \<lparr>tc_RequestID = [], tc_ProposalID = [], tc_DeviceID = [], tc_SkillName = [], tc_TriggerName = [], tc_SensorID = [], tc_SensorType = [],
     tc_Unit = [], tc_ProposedAction = [], tc_SafeDefaultAction = [], tc_OperatorMessage = [], tc_TimeoutMS = 0\<rparr>"

definition decode_enrichment :: "string \<Rightarrow> TierCEnrichmentRequest option" where
  "decode_enrichment payload = Unmarshal enrichmentMembers False store_enrichment no_enrichment payload"

section \<open>The handler\<close>

record Handler =
  hd_publishTimeout :: int
  hd_verifier :: "Verifier option"
  hd_signingSecret :: string

definition NewHandler :: "int \<Rightarrow> Verifier option \<Rightarrow> string \<Rightarrow> newDispatcherError + Handler" where
  "NewHandler publishTimeout verifier signingSecret =
     (let publishTimeout = (if publishTimeout = 0 then 5000000000 else publishTimeout); secret = TrimSpace signingSecret
      in if publishTimeout < 0 then Inl NegativePublishTimeout
         else if (verifier = None) \<noteq> (secret = []) then Inl AuthHalfConfigured
         else Inr \<lparr>hd_publishTimeout = publishTimeout, hd_verifier = verifier, hd_signingSecret = secret\<rparr>)"

datatype enrichmentError =
    EnrichmentContextDone | EnrichmentTopic contractError | UndecodableEnrichment | EnrichmentDevice | UnauthenticatedEnrichment verdict | EnrichmentIDs
  | NoEnrichmentTopic contractError | UnsentEnrichment "encodeError option"

definition TierCEnrichmentRequestMessageType :: string where "TierCEnrichmentRequestMessageType = ''tier_c_enrichment_request''"
definition TierCEnrichmentResponseMessageType :: string where "TierCEnrichmentResponseMessageType = ''tier_c_enrichment_response''"

text \<open>\<open>HandleRequest\<close> up to the first point at which it answers.\<close>

definition verify_enrichment ::
  "(string \<Rightarrow> bool) \<Rightarrow> strict_decoder \<Rightarrow> canonical_map \<Rightarrow> bool \<Rightarrow> int \<Rightarrow> string \<Rightarrow> string \<Rightarrow> Handler
     \<Rightarrow> (enrichmentError + TierCEnrichmentRequest) \<times> Handler" where
  "verify_enrichment validUnicode decodeStrict canonical cancelled t topic payload h =
     (if cancelled then (Inl EnrichmentContextDone, h)
      else case DeviceIDFromTierCEnrichmentRequestTopic topic of Inl e \<Rightarrow> (Inl (EnrichmentTopic e), h)
      | Inr deviceID \<Rightarrow>
     (case decode_enrichment payload of None \<Rightarrow> (Inl UndecodableEnrichment, h)
      | Some req \<Rightarrow>
          if tc_DeviceID req \<noteq> deviceID then (Inl EnrichmentDevice, h)
          else
            let (refusal, h) = (case hd_verifier h of None \<Rightarrow> (None, h)
              | Some v \<Rightarrow>
                  (case VerifyJSON validUnicode decodeStrict canonical t payload TierCEnrichmentRequestMessageType deviceID (tc_RequestID req) v of
                     (r, v) \<Rightarrow> (case r of Inl e \<Rightarrow> Some e | Inr _ \<Rightarrow> None, h\<lparr>hd_verifier := Some v\<rparr>)))
            in case refusal of Some e \<Rightarrow> (Inl (UnauthenticatedEnrichment e), h)
               | None \<Rightarrow>
                   if \<not> ValidRoutingID (tc_RequestID req) \<or> \<not> ValidRoutingID (tc_ProposalID req) then (Inl EnrichmentIDs, h)
                   else (Inr req, h)))"

datatype enrichmentOutcome = Enriched TierCEnrichmentResponse | EnrichDeadline | EnrichCanceled | EnrichPanicked | EnrichFailed

fun enrichmentErrorMessage :: "enrichmentOutcome \<Rightarrow> string" where
  "enrichmentErrorMessage EnrichDeadline = ''provider timeout''"
| "enrichmentErrorMessage EnrichCanceled = ''provider canceled''"
| "enrichmentErrorMessage EnrichPanicked = ''provider panic''"
| "enrichmentErrorMessage _ = ''provider error''"

definition error_enrichment :: "TierCEnrichmentRequest \<Rightarrow> string \<Rightarrow> TierCEnrichmentResponse" where
  "error_enrichment req message = NewTierCEnrichmentErrorResponse (tc_RequestID req) (tc_ProposalID req) (tc_DeviceID req) message"

text \<open>The response to a verified request: the provider is called only when the request is valid.\<close>

definition enrichment_of :: "TierCEnrichmentRequest \<Rightarrow> enrichmentOutcome \<Rightarrow> TierCEnrichmentResponse" where
  "enrichment_of req out =
     (if ValidateTierCEnrichmentRequest req \<noteq> None then error_enrichment req ''invalid enrichment request''
      else case out of
        Enriched resp \<Rightarrow>
          let resp = resp\<lparr>tr_RequestID := tc_RequestID req, tr_ProposalID := tc_ProposalID req, tr_DeviceID := tc_DeviceID req\<rparr>
          in if ValidateTierCEnrichmentResponseForRequest req resp = None then resp else error_enrichment req invalidResponse
      | _ \<Rightarrow> error_enrichment req (enrichmentErrorMessage out))"

text \<open>An empty string or a zero is left out of the object.\<close>

definition omit_string :: "string \<Rightarrow> string \<Rightarrow> (string \<times> json) list" where
  "omit_string k s = (if s = [] then [] else [(k, JString s)])"

definition omit_int :: "string \<Rightarrow> int \<Rightarrow> (string \<times> json) list" where
  "omit_int k i = (if i = 0 then [] else [(k, JNum (itoa i))])"

definition enrichment_members :: "TierCEnrichmentResponse \<Rightarrow> (string \<times> json) list" where
  "enrichment_members r =
     [(''request_id'', JString (tr_RequestID r)), (''proposal_id'', JString (tr_ProposalID r)), (''device_id'', JString (tr_DeviceID r))]
     @ omit_string ''explanation'' (tr_Explanation r) @ omit_string ''estimated_impact'' (tr_EstimatedImpact r)
     @ omit_string ''recommended_operator_context'' (tr_RecommendedOperatorContext r) @ omit_string ''provider'' (tr_Provider r) @ omit_string ''model'' (tr_Model r)
     @ omit_int ''tokens_used'' (tr_TokensUsed r) @ omit_int ''latency_ms'' (tr_LatencyMS r)
     @ (case tr_Error r of None \<Rightarrow> [] | Some e \<Rightarrow> [(''error'', JString e)])"

definition settle_enrichment :: "TierCEnrichmentRequest \<Rightarrow> TierCEnrichmentResponse \<Rightarrow> TierCEnrichmentResponse" where
  "settle_enrichment req resp = (case tr_Error resp of None \<Rightarrow> resp | Some e \<Rightarrow> error_enrichment req e)"

definition encodeEnrichment ::
  "canonical_map \<Rightarrow> string \<Rightarrow> encodeError + int \<Rightarrow> TierCEnrichmentRequest \<Rightarrow> TierCEnrichmentResponse \<Rightarrow> encodeError + string" where
  "encodeEnrichment canonical secret reading req resp =
     encode_signed canonical secret reading TierCEnrichmentResponseMessageType (tc_DeviceID req) (tc_RequestID req)
       (Some (enrichment_members (settle_enrichment req resp)))"

definition build_enrichment ::
  "canonical_map \<Rightarrow> string \<Rightarrow> (encodeError + int) \<times> (encodeError + int) \<Rightarrow> TierCEnrichmentRequest \<Rightarrow> TierCEnrichmentResponse
     \<Rightarrow> enrichmentError + string \<times> string" where
  "build_enrichment canonical secret clock req resp =
     (case TierCEnrichmentResponseTopic (tc_DeviceID req) of Inl e \<Rightarrow> Inl (NoEnrichmentTopic e)
      | Inr topic \<Rightarrow>
          (case encodeEnrichment canonical secret (fst clock) req resp of Inl e \<Rightarrow> Inl (UnsentEnrichment (Some e))
           | Inr payload \<Rightarrow>
               if int (length payload) \<le> maximum_of FamilyEnrichmentResponse then Inr (topic, payload)
               else case encodeEnrichment canonical secret (snd clock) req (error_enrichment req ErrorResponseTooLarge) of
                 Inl e \<Rightarrow> Inl (UnsentEnrichment (Some e))
               | Inr payload \<Rightarrow> Inr (topic, payload)))"

text \<open>\<open>HandleRequest\<close> as a whole: what it publishes, if anything, its error, and the handler.\<close>

definition handle_enrichment ::
  "(string \<Rightarrow> bool) \<Rightarrow> strict_decoder \<Rightarrow> canonical_map \<Rightarrow> bool \<Rightarrow> int \<Rightarrow> (encodeError + int) \<times> (encodeError + int) \<Rightarrow> bool \<Rightarrow> string \<Rightarrow> string
     \<Rightarrow> (TierCEnrichmentRequest \<Rightarrow> enrichmentOutcome) \<Rightarrow> Handler \<Rightarrow> (string \<times> string) option \<times> enrichmentError option \<times> Handler" where
  "handle_enrichment validUnicode decodeStrict canonical cancelled t clock published topic payload enrich h =
     (case verify_enrichment validUnicode decodeStrict canonical cancelled t topic payload h of
        (Inl e, h) \<Rightarrow> (None, Some e, h)
      | (Inr req, h) \<Rightarrow>
          (case build_enrichment canonical (hd_signingSecret h) clock req (enrichment_of req (enrich req)) of
             Inl e \<Rightarrow> (None, Some e, h)
           | Inr reply \<Rightarrow> (Some reply, if published then None else Some (UnsentEnrichment None), h)))"

section \<open>Responses\<close>

definition echoes_enrichment :: "TierCEnrichmentRequest \<Rightarrow> TierCEnrichmentResponse \<Rightarrow> bool" where
  "echoes_enrichment req resp \<longleftrightarrow> tr_RequestID resp = tc_RequestID req \<and> tr_ProposalID resp = tc_ProposalID req \<and> tr_DeviceID resp = tc_DeviceID req"

definition enrichment_identity :: "TierCEnrichmentRequest \<Rightarrow> (string \<times> string) list" where
  "enrichment_identity req = [(''request_id'', tc_RequestID req), (''proposal_id'', tc_ProposalID req), (''device_id'', tc_DeviceID req)]"

definition enrichment_room :: "TierCEnrichmentRequest \<Rightarrow> nat" where
  "enrichment_room req = length (quote_raw (tc_RequestID req)) + length (quote_raw (tc_ProposalID req)) + length (quote_raw (tc_DeviceID req)) + 900"

lemma error_enrichment_members:
  "enrichment_members (error_enrichment req m) =
     [(''request_id'', JString (tc_RequestID req)), (''proposal_id'', JString (tc_ProposalID req)), (''device_id'', JString (tc_DeviceID req)),
      (''error'', JString (BoundedError (if m = [] then ''enrichment unavailable'' else m)))]"
  by (simp add: enrichment_members_def error_enrichment_def NewTierCEnrichmentErrorResponse_def omit_string_def omit_int_def)

interpretation enrichment: replies enrichment_identity echoes_enrichment "\<lambda>r. tr_Error r \<noteq> None" settle_enrichment "\<lambda>r. Some (enrichment_members r)"
  error_enrichment enrichment_room
proof
  fix req m resp ms k s
  show "echoes_enrichment req (error_enrichment req m)"
    by (simp add: echoes_enrichment_def error_enrichment_def NewTierCEnrichmentErrorResponse_def)
  then show "echoes_enrichment req resp \<Longrightarrow> echoes_enrichment req (settle_enrichment req resp)"
    by (auto simp: settle_enrichment_def echoes_enrichment_def error_enrichment_def NewTierCEnrichmentErrorResponse_def split: option.splits)
  show "echoes_enrichment req resp \<Longrightarrow> Some (enrichment_members resp) = Some ms \<Longrightarrow> (k, s) \<in> set (enrichment_identity req) \<Longrightarrow> (k, JString s) \<in> set ms"
    by (auto simp: echoes_enrichment_def enrichment_members_def enrichment_identity_def)
  show "tr_Error (error_enrichment req m) \<noteq> None" by (simp add: error_enrichment_def NewTierCEnrichmentErrorResponse_def)
  show "tr_Error resp \<noteq> None \<Longrightarrow> \<exists>m. settle_enrichment req resp = error_enrichment req m" by (auto simp: settle_enrichment_def)
  show "\<exists>ms. Some (enrichment_members (error_enrichment req m)) = Some ms \<and> ms \<noteq> [] \<and> list_all (\<lambda>(k, v). flat_json v) ms
      \<and> length (print_json (JObj ms)) \<le> enrichment_room req"
    unfolding error_enrichment_members using bounded_text [of "if m = [] then ''enrichment unavailable'' else m"]
    by (simp add: JString_def quoted_def enrichment_room_def)
qed

lemma enrichment_of_echoes: "echoes_enrichment req (enrichment_of req out)"
  using enrichment.echoes_errored by (auto simp: enrichment_of_def echoes_enrichment_def Let_def split: enrichmentOutcome.splits)

text \<open>The members a response can have: none of them is an action, a tier or a default.\<close>

definition advisoryMembers :: "string list" where
  "advisoryMembers = [''request_id'', ''proposal_id'', ''device_id'', ''explanation'', ''estimated_impact'', ''recommended_operator_context'', ''provider'', ''model'',
     ''tokens_used'', ''latency_ms'', ''error'']"

lemma enrichment_members_advisory: "fst ` set (enrichment_members r) \<subseteq> set advisoryMembers"
  by (auto simp: enrichment_members_def omit_string_def omit_int_def advisoryMembers_def split: option.splits if_splits)

lemma encodeEnrichment_members:
  assumes "encodeEnrichment cn secret reading req resp = Inr payload" "echoes_enrichment req resp"
  shows "\<exists>auths. payload = print_json (JObj (enrichment_members (settle_enrichment req resp) @ auths))
    \<and> (if secret = [] then auths = []
       else \<exists>t auth. auths = [(''auth'', auth_json auth)]
         \<and> Sign cn (JObj (enrichment_members (settle_enrichment req resp))) TierCEnrichmentResponseMessageType (tc_DeviceID req) (tc_RequestID req) t secret = Inr auth)"
  using assms(1) unfolding encodeEnrichment_def
proof (cases rule: encode_signed_Inr)
  case (1 ms)
  then show ?thesis by (intro exI [of _ "[]"]) simp
next
  case (2 ms t auth)
  then show ?thesis by (intro exI [of _ "[(''auth'', auth_json auth)]"]) auto
qed

lemma verify_enrichment_Inr:
  assumes "verify_enrichment vu ds cn cancelled t topic payload h = (Inr req, h')"
  shows "decode_enrichment payload = Some req" "DeviceIDFromTierCEnrichmentRequestTopic topic = Inr (tc_DeviceID req)" "hd_signingSecret h' = hd_signingSecret h"
    "\<And>v. hd_verifier h = Some v \<Longrightarrow>
       \<exists>body v'. VerifyJSON vu ds cn t payload TierCEnrichmentRequestMessageType (tc_DeviceID req) (tc_RequestID req) v = (Inr body, v')"
    "ValidRoutingID (tc_RequestID req)" "ValidRoutingID (tc_ProposalID req)"
  using assms by (auto simp: verify_enrichment_def Let_def split: if_splits sum.splits option.splits prod.splits)

lemma build_enrichment_cases:
  assumes "build_enrichment cn secret clock req resp = Inr (rtopic, reply)"
  obtains "TierCEnrichmentResponseTopic (tc_DeviceID req) = Inr rtopic" "encodeEnrichment cn secret (fst clock) req resp = Inr reply"
      "int (length reply) \<le> maximum_of FamilyEnrichmentResponse"
  | "TierCEnrichmentResponseTopic (tc_DeviceID req) = Inr rtopic" "encodeEnrichment cn secret (snd clock) req (error_enrichment req ErrorResponseTooLarge) = Inr reply"
  using assms by (auto simp: build_enrichment_def split: sum.splits if_splits)

text \<open>C14. An enrichment response is advisory, names its request and follows verification. Whatever the provider answers, a response is published only after the
  request was verified for its device and identifier, where there is a verifier; it goes to the topic of the device of the
  request's topic, repeats the three identifiers, and has no member beyond the advisory ones, so it can change neither action nor tier
  nor default; and a request that is not valid gets an error and no text.\<close>

theorem enrichment_is_advisory:
  assumes "handle_enrichment vu ds cn cancelled t clock published topic payload enrich h = (Some (rtopic, reply), err, h')"
  shows "\<exists>req ms auths. decode_enrichment payload = Some req \<and> DeviceIDFromTierCEnrichmentRequestTopic topic = Inr (tc_DeviceID req)
    \<and> rtopic = ''ori/'' @ tc_DeviceID req @ ''/tier_c/enrichment/response'' \<and> reply = print_json (JObj (ms @ auths)) \<and> fst ` set auths \<subseteq> {''auth''}
    \<and> {(''request_id'', JString (tc_RequestID req)), (''proposal_id'', JString (tc_ProposalID req)), (''device_id'', JString (tc_DeviceID req))} \<subseteq> set ms
    \<and> fst ` set ms \<subseteq> set advisoryMembers
    \<and> (hd_verifier h = None \<or> (\<exists>body v'. VerifyJSON vu ds cn t payload TierCEnrichmentRequestMessageType (tc_DeviceID req) (tc_RequestID req) (the (hd_verifier h)) = (Inr body, v')))
    \<and> (ValidateTierCEnrichmentRequest req = None \<or> fst ` set ms = {''request_id'', ''proposal_id'', ''device_id'', ''error''})"
proof -
  obtain req h1 where v: "verify_enrichment vu ds cn cancelled t topic payload h = (Inr req, h1)"
    and b: "build_enrichment cn (hd_signingSecret h1) clock req (enrichment_of req (enrich req)) = Inr (rtopic, reply)"
    using assms by (auto simp: handle_enrichment_def split: prod.splits sum.splits)
  note vf = verify_enrichment_Inr [OF v]
  have topic: "rtopic = ''ori/'' @ tc_DeviceID req @ ''/tier_c/enrichment/response''"
    using b by (auto simp: build_enrichment_def TierCEnrichmentResponseTopic_def device_topic_def split: sum.splits if_splits option.splits)
  have wire: "\<exists>resp reading. echoes_enrichment req resp \<and> encodeEnrichment cn (hd_signingSecret h1) reading req resp = Inr reply
      \<and> (ValidateTierCEnrichmentRequest req \<noteq> None \<longrightarrow> (\<exists>m. resp = error_enrichment req m))"
    using b
  proof (cases rule: build_enrichment_cases)
    case 1
    have "ValidateTierCEnrichmentRequest req \<noteq> None \<longrightarrow> enrichment_of req (enrich req) = error_enrichment req ''invalid enrichment request''"
      by (simp add: enrichment_of_def)
    then show ?thesis using 1(2) enrichment_of_echoes by blast
  next
    case 2
    then show ?thesis using enrichment.echoes_errored by blast
  qed
  then obtain resp reading where w: "echoes_enrichment req resp" "encodeEnrichment cn (hd_signingSecret h1) reading req resp = Inr reply"
    "ValidateTierCEnrichmentRequest req \<noteq> None \<longrightarrow> (\<exists>m. resp = error_enrichment req m)" by blast
  let ?ms = "enrichment_members (settle_enrichment req resp)"
  obtain auths where au: "reply = print_json (JObj (?ms @ auths))" "fst ` set auths \<subseteq> {''auth''}"
    using encodeEnrichment_members [OF w(2,1)] by (fastforce split: if_splits)
  have ids: "{(''request_id'', JString (tc_RequestID req)), (''proposal_id'', JString (tc_ProposalID req)), (''device_id'', JString (tc_DeviceID req))} \<subseteq> set ?ms"
    using enrichment.members_identity [OF enrichment.echoes_settle [OF w(1)] refl] by (auto simp: enrichment_identity_def)
  have bad: "fst ` set ?ms = {''request_id'', ''proposal_id'', ''device_id'', ''error''}" if bad: "ValidateTierCEnrichmentRequest req \<noteq> None"
  proof -
    obtain m where "settle_enrichment req resp = error_enrichment req m"
      using w(3) bad enrichment.settle_failed [OF enrichment.failed_errored] by blast
    then show ?thesis by (auto simp: error_enrichment_members)
  qed
  have verified: "hd_verifier h = None
      \<or> (\<exists>body v'. VerifyJSON vu ds cn t payload TierCEnrichmentRequestMessageType (tc_DeviceID req) (tc_RequestID req) (the (hd_verifier h)) = (Inr body, v'))"
    using vf(4) by (cases "hd_verifier h") auto
  have invalid: "ValidateTierCEnrichmentRequest req = None \<or> fst ` set ?ms = {''request_id'', ''proposal_id'', ''device_id'', ''error''}" using bad by blast
  show ?thesis
    by (intro exI [of _ req] exI [of _ ?ms] exI [of _ auths] conjI) (fact vf(1,2) topic au ids enrichment_members_advisory verified invalid)+
qed

section \<open>An example\<close>

definition demo_enrichment :: string where
  "demo_enrichment = print_json (JObj [(''request_id'', JString ''r-1''), (''proposal_id'', JString ''p-1''), (''device_id'', JString ''pump-1'')])"

definition open_handler :: Handler where
  "open_handler = \<lparr>hd_publishTimeout = 5000000000, hd_verifier = None, hd_signingSecret = []\<rparr>"

definition demo_handled :: "(string \<times> string) option \<times> enrichmentError option \<times> Handler" where
  "demo_handled = handle_enrichment (\<lambda>_. True) (\<lambda>_ _. None) (\<lambda>_. None) False 0 (Inr 1, Inr 2) True ''ori/pump-1/tier_c/enrichment/request'' demo_enrichment
     (\<lambda>_. EnrichFailed) open_handler"

theorem enrichment_is_advisory_witness:
  "\<exists>rtopic reply err h. demo_handled = (Some (rtopic, reply), err, h) \<and> rtopic = ''ori/pump-1/tier_c/enrichment/response''"
proof -
  have "fst demo_handled \<noteq> None" by code_simp
  then obtain rtopic reply where "fst demo_handled = Some (rtopic, reply)" by auto
  then obtain err h where r: "demo_handled = (Some (rtopic, reply), err, h)" by (metis prod.collapse)
  have "DeviceIDFromTierCEnrichmentRequestTopic ''ori/pump-1/tier_c/enrichment/request'' = Inr ''pump-1''" by code_simp
  then have "rtopic = ''ori/pump-1/tier_c/enrichment/response''" using enrichment_is_advisory [OF r [unfolded demo_handled_def]] by auto
  then show ?thesis using r by blast
qed

end
