(* ===== verification/Spec2Isabelle.thy ===== *)
theory Spec2Isabelle
  imports Replay Gateway_State Evidence_Clock Refusal Faults Ingress Site_Heartbeat Ingress_Log Bridge Request_Pool Config_Rules Dispatch_Runs Enrichment
begin

text \<open>
  A verification library for the Ori gateway, a Go service that stands between the edge runtimes
  of a site and the cloud. The theories follow the packages under \<open>src/internal\<close>.

  \<^item> \<open>Go_Prelude\<close>, \<open>Go_Strconv\<close>, \<open>Go_Heap\<close>: the parts of Go and its standard library the program
    uses: \<open>int64\<close> arithmetic, maps, decimal numbers, \<open>container/heap\<close>.
  \<^item> \<open>Replay\<close>: \<open>internal/mqttauth/replay.go\<close> and the verifier step of \<open>mqttauth.go\<close> that uses it.
\<close>

end
